(* ===== verification/RS_Prelude.thy ===== *)
theory RS_Prelude
  imports Main "HOL-Library.Word"
begin

text \<open>
  What every component of the development shares: the names of the machine integer types, the
  memory block a C++ pointer refers to with reads and writes that fail outside it, big-endian
  encoding of unsigned integers, and the two general arguments about state machines (an
  invariant of all reachable states, and a rank that forces progress) as locales.
\<close>

unbundle bit_operations_syntax

type_synonym u8 = "8 word"
type_synonym u16 = "16 word"
type_synonym u32 = "32 word"
type_synonym u64 = "64 word"

text \<open>\<^verbatim>\<open>rstime_t\<close> is a signed 64-bit count of seconds. Signed overflow has no meaning in C++, and
  no clock value comes near it, so times are integers.\<close>

type_synonym rstime_t = int

type_synonym bytes = "u8 list"

lemma unat_lt_pow: "unat (x :: 'a::len word) < 2 ^ LENGTH('a)"
  by (rule unsigned_less)

subsection \<open>Memory blocks\<close>

text \<open>A \<^verbatim>\<open>void *\<close> argument is either null or points to the start of a block. A read or a write that
  leaves the block (or goes through the null pointer) is the fault \<open>None\<close>, never a value.\<close>

type_synonym buf = "bytes option"

fun peek :: "buf \<Rightarrow> nat \<Rightarrow> nat \<Rightarrow> bytes option" where
  "peek None off n = None"
| "peek (Some d) off n = (if off + n \<le> length d then Some (take n (drop off d)) else None)"

definition overwrite :: "bytes \<Rightarrow> nat \<Rightarrow> bytes \<Rightarrow> bytes" where
  "overwrite d off xs = take off d @ xs @ drop (off + length xs) d"

fun poke :: "buf \<Rightarrow> nat \<Rightarrow> bytes \<Rightarrow> buf option" where
  "poke None off xs = None"
| "poke (Some d) off xs =
     (if off + length xs \<le> length d then Some (Some (overwrite d off xs)) else None)"

lemma length_overwrite [simp]:
  "off + length xs \<le> length d \<Longrightarrow> length (overwrite d off xs) = length d"
  by (simp add: overwrite_def)

lemma overwrite_Nil [simp]: "overwrite d off [] = d"
  by (simp add: overwrite_def)

lemma take_drop_overwrite_same [simp]:
  "off + length xs \<le> length d \<Longrightarrow> take (length xs) (drop off (overwrite d off xs)) = xs"
  by (simp add: overwrite_def)

lemma take_overwrite_before [simp]:
  "k \<le> off \<Longrightarrow> off \<le> length d \<Longrightarrow> take k (overwrite d off xs) = take k d"
  by (simp add: overwrite_def min_absorb1)

lemma drop_overwrite_after [simp]:
  assumes "off + length xs \<le> k" "off + length xs \<le> length d"
  shows "drop k (overwrite d off xs) = drop k d"
proof -
  have "drop k (overwrite d off xs) = drop (k - (off + length xs)) (drop (off + length xs) d)"
    using assms by (simp add: overwrite_def)
  then show ?thesis using assms(1) by simp
qed

lemma overwrite_overwrite_adjacent:
  assumes "off + length xs + length ys \<le> length d"
  shows "overwrite (overwrite d off xs) (off + length xs) ys = overwrite d off (xs @ ys)"
  using assms by (simp add: overwrite_def ac_simps)

lemma overwrite_id:
  "off + n \<le> length d \<Longrightarrow> overwrite d off (take n (drop off d)) = d"
  by (simp add: overwrite_def add.commute) (metis append_take_drop_id drop_drop add.commute)

lemma take_drop_split:
  "take (m + n) (drop off d) = take m (drop off d) @ take n (drop (off + m) d)"
  by (simp add: take_add add.commute)

lemma peek_Some_iff:
  "peek b off n = Some xs \<longleftrightarrow>
     (\<exists>d. b = Some d \<and> off + n \<le> length d \<and> xs = take n (drop off d))"
  by (cases b) auto

subsection \<open>Big-endian integers\<close>

text \<open>\<open>be_enc n v\<close> is the \<open>n\<close>-byte network order form of \<open>v\<close>: what \<^verbatim>\<open>htons\<close>, \<^verbatim>\<open>htonl\<close> and \<^verbatim>\<open>htonll\<close>
  followed by \<^verbatim>\<open>memcpy\<close> leave in memory on any host.\<close>

fun be_enc :: "nat \<Rightarrow> nat \<Rightarrow> bytes" where
  "be_enc 0 v = []"
| "be_enc (Suc n) v = be_enc n (v div 256) @ [word_of_nat v]"

definition be_dec :: "bytes \<Rightarrow> nat" where
  "be_dec xs = foldl (\<lambda>a b. 256 * a + unat b) 0 xs"

lemma length_be_enc [simp]: "length (be_enc n v) = n"
  by (induction n arbitrary: v) auto

lemma be_dec_Nil [simp]: "be_dec [] = 0"
  by (simp add: be_dec_def)

lemma be_dec_snoc [simp]: "be_dec (xs @ [b]) = 256 * be_dec xs + unat b"
  by (simp add: be_dec_def)

lemma unat_byte_of_nat: "unat (word_of_nat v :: u8) = v mod 256"
  by (simp add: unat_of_nat)

lemma be_dec_be_enc: "be_dec (be_enc n v) = v mod 256 ^ n"
proof (induction n arbitrary: v)
  case 0
  then show ?case by simp
next
  case (Suc n)
  have "be_dec (be_enc (Suc n) v) = 256 * (v div 256 mod 256 ^ n) + v mod 256"
    by (simp add: Suc.IH unat_byte_of_nat)
  also have "\<dots> = v mod 256 ^ Suc n"
    by (simp add: mod_mult2_eq)
  finally show ?case .
qed

lemma be_dec_less: "be_dec xs < 256 ^ length xs"
proof (induction xs rule: rev_induct)
  case Nil
  then show ?case by simp
next
  case (snoc b xs)
  have "unat b < 256" using unat_lt_pow [of b] by simp
  then have "256 * be_dec xs + unat b < 256 * Suc (be_dec xs)" by simp
  also have "\<dots> \<le> 256 * 256 ^ length xs"
    using snoc.IH by (intro mult_le_mono2) simp
  finally show ?case by simp
qed

lemma be_enc_be_dec: "be_enc (length xs) (be_dec xs) = xs"
proof (induction xs rule: rev_induct)
  case Nil
  then show ?case by simp
next
  case (snoc b xs)
  have b: "unat b < 256" using unat_lt_pow [of b] by simp
  then have "(256 * be_dec xs + unat b) div 256 = be_dec xs" by simp
  moreover have "(word_of_nat (256 * be_dec xs + unat b) :: u8) = b"
  proof -
    have "(256 :: u8) = 0" by simp
    then show ?thesis by (simp only: of_nat_add of_nat_mult of_nat_numeral) simp
  qed
  ultimately show ?case using snoc.IH by simp
qed

text \<open>The four widths the code uses.\<close>

definition be16 :: "u16 \<Rightarrow> bytes" where "be16 v = be_enc 2 (unat v)"
definition be32 :: "u32 \<Rightarrow> bytes" where "be32 v = be_enc 4 (unat v)"
definition be64 :: "u64 \<Rightarrow> bytes" where "be64 v = be_enc 8 (unat v)"
definition of_be16 :: "bytes \<Rightarrow> u16" where "of_be16 xs = word_of_nat (be_dec xs)"
definition of_be32 :: "bytes \<Rightarrow> u32" where "of_be32 xs = word_of_nat (be_dec xs)"
definition of_be64 :: "bytes \<Rightarrow> u64" where "of_be64 xs = word_of_nat (be_dec xs)"

lemma length_be [simp]:
  "length (be16 a) = 2" "length (be32 b) = 4" "length (be64 c) = 8"
  by (simp_all add: be16_def be32_def be64_def)

lemma of_be16_be16 [simp]: "of_be16 (be16 v) = v"
  using unat_lt_pow [of v] by (simp add: of_be16_def be16_def be_dec_be_enc)

lemma of_be32_be32 [simp]: "of_be32 (be32 v) = v"
  using unat_lt_pow [of v] by (simp add: of_be32_def be32_def be_dec_be_enc)

lemma of_be64_be64 [simp]: "of_be64 (be64 v) = v"
  using unat_lt_pow [of v] by (simp add: of_be64_def be64_def be_dec_be_enc)

lemma be16_of_be16: "length xs = 2 \<Longrightarrow> be16 (of_be16 xs) = xs"
  using be_dec_less [of xs] be_enc_be_dec [of xs]
  by (simp add: be16_def of_be16_def unat_of_nat)

lemma be32_of_be32: "length xs = 4 \<Longrightarrow> be32 (of_be32 xs) = xs"
  using be_dec_less [of xs] be_enc_be_dec [of xs]
  by (simp add: be32_def of_be32_def unat_of_nat)

lemma be64_of_be64: "length xs = 8 \<Longrightarrow> be64 (of_be64 xs) = xs"
  using be_dec_less [of xs] be_enc_be_dec [of xs]
  by (simp add: be64_def of_be64_def unat_of_nat)

subsection \<open>Offsets that do not wrap\<close>

lemma unat_u32_less: "unat (x :: u32) < 4294967296"
  using unat_lt_pow [of x] by simp

lemma unat_add_u32_id:
  "unat (a :: u32) + unat b < 4294967296 \<Longrightarrow> unat (a + b) = unat a + unat b"
  by (simp add: unat_word_ariths)

lemma unat_add_nat_u32:
  "unat (a :: u32) + n < 4294967296 \<Longrightarrow> unat (a + word_of_nat n) = unat a + n"
  by (simp add: unat_word_ariths unat_of_nat mod_add_right_eq)

lemma word_of_nat_less_u32: "n < 4294967296 \<Longrightarrow> unat (word_of_nat n :: u32) = n"
  by (simp add: unat_of_nat)

subsection \<open>State machines\<close>

text \<open>A component with state is a step relation labelled by the call that is made. \<open>reach\<close> is the
  set of states its calls can produce from an initial one.\<close>

inductive reach :: "('s \<Rightarrow> bool) \<Rightarrow> ('s \<Rightarrow> 'e \<Rightarrow> 's \<Rightarrow> bool) \<Rightarrow> 's \<Rightarrow> bool"
  for init :: "'s \<Rightarrow> bool" and stp :: "'s \<Rightarrow> 'e \<Rightarrow> 's \<Rightarrow> bool" where
  reach_init: "init s \<Longrightarrow> reach init stp s"
| reach_step: "reach init stp s \<Longrightarrow> stp s e t \<Longrightarrow> reach init stp t"

locale inductive_invariant =
  fixes init :: "'s \<Rightarrow> bool"
    and stp :: "'s \<Rightarrow> 'e \<Rightarrow> 's \<Rightarrow> bool"
    and inv :: "'s \<Rightarrow> bool"
  assumes init_inv: "init s \<Longrightarrow> inv s"
    and step_inv: "inv s \<Longrightarrow> stp s e t \<Longrightarrow> inv t"
begin

lemma reach_inv: "reach init stp s \<Longrightarrow> inv s"
  by (induction rule: reach.induct) (auto intro: init_inv step_inv)

end

text \<open>A round function that keeps an invariant and decreases a rank until a goal holds reaches
  the goal: after \<open>rank s\<close> rounds at the latest it has been seen.\<close>

locale ranked_rounds =
  fixes round :: "'i \<Rightarrow> 's \<Rightarrow> 's"
    and ok :: "'s \<Rightarrow> bool"
    and goal :: "'s \<Rightarrow> bool"
    and rank :: "'s \<Rightarrow> nat"
  assumes ok_round: "ok s \<Longrightarrow> \<not> goal s \<Longrightarrow> ok (round i s)"
    and rank_round: "ok s \<Longrightarrow> \<not> goal s \<Longrightarrow> \<not> goal (round i s) \<Longrightarrow> rank (round i s) < rank s"
begin

lemma goal_within_rank:
  "ok s \<Longrightarrow> rank s < length is \<Longrightarrow> \<exists>k \<le> length is. goal (foldl (\<lambda>s i. round i s) s (take k is))"
proof (induction "is" arbitrary: s)
  case Nil
  then show ?case by simp
next
  case (Cons i "is")
  show ?case
  proof (cases "goal s")
    case True
    then show ?thesis by (intro exI [of _ 0]) simp
  next
    case F: False
    show ?thesis
    proof (cases "goal (round i s)")
      case True
      then show ?thesis by (intro exI [of _ 1]) simp
    next
      case False
      with F Cons.prems have "ok (round i s)" "rank (round i s) < length is"
        using rank_round [of s i] ok_round [of s i] by auto
      then obtain k where "k \<le> length is"
        "goal (foldl (\<lambda>s i. round i s) (round i s) (take k is))"
        using Cons.IH by blast
      then show ?thesis by (intro exI [of _ "Suc k"]) simp
    qed
  qed
qed

end

end
