(* ===== verification/Connect_State_Box.thy ===== *)
theory Connect_State_Box
  imports RS_Prelude
begin

text \<open>
  \<^verbatim>\<open>PeerConnectStateBox\<close> of \<^verbatim>\<open>dht/connectstatebox.cc\<close>: how the DHT layer decides, per peer, when to try
  a direct, proxied or relayed UDP connection and when to back off. The clock (\<^verbatim>\<open>time(NULL)\<close>) and the
  random number of a call are arguments; the messages the handlers print are not modelled, the
  strings they print are. States, updates and actions are the \<^verbatim>\<open>uint32_t\<close> codes of the header, so
  that the \<^verbatim>\<open>default\<close> branches of the switches are part of the model.
\<close>

subsection \<open>Codes of the header\<close>

abbreviation (input) CSB_START :: u32 where "CSB_START \<equiv> 1"
abbreviation (input) CSB_TCP_WAIT :: u32 where "CSB_TCP_WAIT \<equiv> 2"
abbreviation (input) CSB_DIRECT_ATTEMPT :: u32 where "CSB_DIRECT_ATTEMPT \<equiv> 3"
abbreviation (input) CSB_DIRECT_WAIT :: u32 where "CSB_DIRECT_WAIT \<equiv> 4"
abbreviation (input) CSB_PROXY_ATTEMPT :: u32 where "CSB_PROXY_ATTEMPT \<equiv> 5"
abbreviation (input) CSB_PROXY_WAIT :: u32 where "CSB_PROXY_WAIT \<equiv> 6"
abbreviation (input) CSB_RELAY_ATTEMPT :: u32 where "CSB_RELAY_ATTEMPT \<equiv> 7"
abbreviation (input) CSB_RELAY_WAIT :: u32 where "CSB_RELAY_WAIT \<equiv> 8"
abbreviation (input) CSB_REVERSE_WAIT :: u32 where "CSB_REVERSE_WAIT \<equiv> 9"
abbreviation (input) CSB_FAILED_WAIT :: u32 where "CSB_FAILED_WAIT \<equiv> 10"
abbreviation (input) CSB_CONNECTED :: u32 where "CSB_CONNECTED \<equiv> 11"

abbreviation (input) CSB_NETSTATE_UNKNOWN :: u32 where "CSB_NETSTATE_UNKNOWN \<equiv> 0"
abbreviation (input) CSB_NETSTATE_FORWARD :: u32 where "CSB_NETSTATE_FORWARD \<equiv> 1"
abbreviation (input) CSB_NETSTATE_STABLENAT :: u32 where "CSB_NETSTATE_STABLENAT \<equiv> 2"
abbreviation (input) CSB_NETSTATE_EXCLUSIVENAT :: u32 where "CSB_NETSTATE_EXCLUSIVENAT \<equiv> 3"
abbreviation (input) CSB_NETSTATE_FIREWALLED :: u32 where "CSB_NETSTATE_FIREWALLED \<equiv> 4"

abbreviation (input) CSB_CONNECT_DIRECT :: u32 where "CSB_CONNECT_DIRECT \<equiv> 1"
abbreviation (input) CSB_CONNECT_UNREACHABLE :: u32 where "CSB_CONNECT_UNREACHABLE \<equiv> 2"

abbreviation (input) CSB_ACTION_WAIT :: u32 where "CSB_ACTION_WAIT \<equiv> 0x0001"
abbreviation (input) CSB_ACTION_TCP_CONN :: u32 where "CSB_ACTION_TCP_CONN \<equiv> 0x0002"
abbreviation (input) CSB_ACTION_DIRECT_CONN :: u32 where "CSB_ACTION_DIRECT_CONN \<equiv> 0x0004"
abbreviation (input) CSB_ACTION_PROXY_CONN :: u32 where "CSB_ACTION_PROXY_CONN \<equiv> 0x0008"
abbreviation (input) CSB_ACTION_RELAY_CONN :: u32 where "CSB_ACTION_RELAY_CONN \<equiv> 0x0010"
abbreviation (input) CSB_ACTION_DHT_PORT :: u32 where "CSB_ACTION_DHT_PORT \<equiv> 0x0100"
abbreviation (input) CSB_ACTION_PROXY_PORT :: u32 where "CSB_ACTION_PROXY_PORT \<equiv> 0x0200"

abbreviation (input) CSB_UPDATE_NONE :: u32 where "CSB_UPDATE_NONE \<equiv> 0"
abbreviation (input) CSB_UPDATE_CONNECTED :: u32 where "CSB_UPDATE_CONNECTED \<equiv> 1"
abbreviation (input) CSB_UPDATE_DISCONNECTED :: u32 where "CSB_UPDATE_DISCONNECTED \<equiv> 2"
abbreviation (input) CSB_UPDATE_AUTH_DENIED :: u32 where "CSB_UPDATE_AUTH_DENIED \<equiv> 3"
abbreviation (input) CSB_UPDATE_RETRY_ATTEMPT :: u32 where "CSB_UPDATE_RETRY_ATTEMPT \<equiv> 4"
abbreviation (input) CSB_UPDATE_FAILED_ATTEMPT :: u32 where "CSB_UPDATE_FAILED_ATTEMPT \<equiv> 5"
abbreviation (input) CSB_UPDATE_MODE_UNAVAILABLE :: u32 where "CSB_UPDATE_MODE_UNAVAILABLE \<equiv> 6"

text \<open>The periods of the build without \<^verbatim>\<open>TESTING_PERIODS\<close>.\<close>

abbreviation (input) FAILED_WAIT_TIME :: rstime_t where "FAILED_WAIT_TIME \<equiv> 1800"
abbreviation (input) TCP_WAIT_TIME :: rstime_t where "TCP_WAIT_TIME \<equiv> 60"
abbreviation (input) DIRECT_MAX_WAIT_TIME :: u32 where "DIRECT_MAX_WAIT_TIME \<equiv> 60"
abbreviation (input) PROXY_BASE_WAIT_TIME :: rstime_t where "PROXY_BASE_WAIT_TIME \<equiv> 30"
abbreviation (input) PROXY_MAX_WAIT_TIME :: rstime_t where "PROXY_MAX_WAIT_TIME \<equiv> 120"
abbreviation (input) RELAY_MAX_WAIT_TIME :: u32 where "RELAY_MAX_WAIT_TIME \<equiv> 60"
abbreviation (input) REVERSE_WAIT_TIME :: rstime_t where "REVERSE_WAIT_TIME \<equiv> 300"
abbreviation (input) MAX_DIRECT_ATTEMPTS :: u32 where "MAX_DIRECT_ATTEMPTS \<equiv> 5"
abbreviation (input) MAX_PROXY_ATTEMPTS :: u32 where "MAX_PROXY_ATTEMPTS \<equiv> 10"
abbreviation (input) MAX_RELAY_ATTEMPTS :: u32 where "MAX_RELAY_ATTEMPTS \<equiv> 5"
abbreviation (input) MAX_DIRECT_FAILED_ATTEMPTS :: u32 where "MAX_DIRECT_FAILED_ATTEMPTS \<equiv> 3"
abbreviation (input) MAX_PROXY_FAILED_ATTEMPTS :: u32 where "MAX_PROXY_FAILED_ATTEMPTS \<equiv> 3"
abbreviation (input) MAX_RELAY_FAILED_ATTEMPTS :: u32 where "MAX_RELAY_FAILED_ATTEMPTS \<equiv> 3"

subsection \<open>The modes of \<^verbatim>\<open>retroshare/rsconfig.h\<close> and the box\<close>

datatype RsNetworkMode = NM_UNKNOWN | NM_RESTARTING | NM_OFFLINE | NM_LOCALNET | NM_BEHINDNAT
  | NM_EXTERNALIP

datatype RsNatTypeMode = NT_NONE | NT_UNKNOWN | NT_SYMMETRIC | NT_DETERM_SYM | NT_RESTRICTED_CONE
  | NT_FULL_CONE | NT_OTHER

datatype RsNatHoleMode = NH_UNKNOWN | NH_NONE | NH_UPNP | NH_NATPMP | NH_FORWARDED

record PeerConnectStateBox =
  mState :: u32
  mNetState :: u32
  mStateTS :: rstime_t
  mNoAttempts :: u32
  mNoFailedAttempts :: u32
  mNextAttemptTS :: rstime_t
  mAttemptLength :: rstime_t
  mProxyPortFlags :: u32
  mProxyPortChoice :: bool
  mProxyPortTS :: rstime_t

definition new_PeerConnectStateBox :: "rstime_t \<Rightarrow> PeerConnectStateBox" where
  "new_PeerConnectStateBox now = \<lparr>
     mState = CSB_START, mNetState = CSB_NETSTATE_UNKNOWN, mStateTS = now,
     mNoAttempts = 0, mNoFailedAttempts = 0, mNextAttemptTS = now, mAttemptLength = 0,
     mProxyPortFlags = 0, mProxyPortChoice = False, mProxyPortTS = 0\<rparr>"

subsection \<open>Strings\<close>

definition NetStateAsString :: "u32 \<Rightarrow> string" where
  "NetStateAsString netstate =
     (if netstate = CSB_NETSTATE_FORWARD then ''Forwarded''
      else if netstate = CSB_NETSTATE_STABLENAT then ''StableNat''
      else if netstate = CSB_NETSTATE_EXCLUSIVENAT then ''ExclusiveNat''
      else if netstate = CSB_NETSTATE_FIREWALLED then ''Firewalled''
      else ''Unknown NetState'')"

definition StateAsString :: "u32 \<Rightarrow> string" where
  "StateAsString s =
     (if s = CSB_START then ''Start:''
      else if s = CSB_TCP_WAIT then ''TCP Wait:''
      else if s = CSB_DIRECT_ATTEMPT then ''Direct Attempt:''
      else if s = CSB_DIRECT_WAIT then ''Direct Wait:''
      else if s = CSB_PROXY_ATTEMPT then ''Proxy Attempt:''
      else if s = CSB_PROXY_WAIT then ''Proxy Wait:''
      else if s = CSB_RELAY_ATTEMPT then ''Relay Attempt:''
      else if s = CSB_RELAY_WAIT then ''Relay Wait:''
      else if s = CSB_REVERSE_WAIT then ''Reverse Wait:''
      else if s = CSB_FAILED_WAIT then ''Failed Wait:''
      else if s = CSB_CONNECTED then ''Connected:''
      else ''Unknown State:'')"

definition UpdateAsString :: "u32 \<Rightarrow> string" where
  "UpdateAsString u =
     (if u = CSB_UPDATE_NONE then ''none''
      else if u = CSB_UPDATE_CONNECTED then ''Connected''
      else if u = CSB_UPDATE_DISCONNECTED then ''Disconnected''
      else if u = CSB_UPDATE_AUTH_DENIED then ''Auth Denied''
      else if u = CSB_UPDATE_FAILED_ATTEMPT then ''Failed Attempt:''
      else if u = CSB_UPDATE_MODE_UNAVAILABLE then ''Mode Unavailable:''
      else ''Unknown Update'')"

subsection \<open>Connection attempts\<close>

definition convertNetStateToInternal ::
    "RsNetworkMode \<Rightarrow> RsNatHoleMode \<Rightarrow> RsNatTypeMode \<Rightarrow> u32" where
  "convertNetStateToInternal netmode nathole nattype =
     (if netmode = NM_EXTERNALIP then CSB_NETSTATE_FORWARD
      else if nathole \<noteq> NH_UNKNOWN \<and> nathole \<noteq> NH_NONE then CSB_NETSTATE_FORWARD
      else if netmode = NM_BEHINDNAT then
        (if nattype = NT_RESTRICTED_CONE \<or> nattype = NT_FULL_CONE then CSB_NETSTATE_STABLENAT
         else if nattype = NT_DETERM_SYM then CSB_NETSTATE_EXCLUSIVENAT
         else CSB_NETSTATE_FIREWALLED)
      else CSB_NETSTATE_UNKNOWN)"

definition shouldUseProxyPortInternal :: "u32 \<Rightarrow> bool" where
  "shouldUseProxyPortInternal netstate = (if netstate = CSB_NETSTATE_FORWARD then False else True)"

definition shouldUseProxyPort :: "RsNetworkMode \<Rightarrow> RsNatHoleMode \<Rightarrow> RsNatTypeMode \<Rightarrow> bool" where
  "shouldUseProxyPort netmode nathole nattype =
     shouldUseProxyPortInternal (convertNetStateToInternal netmode nathole nattype)"

definition calcNetState :: "RsNetworkMode \<Rightarrow> RsNatHoleMode \<Rightarrow> RsNatTypeMode \<Rightarrow> u32" where
  "calcNetState netmode nathole nattype = convertNetStateToInternal netmode nathole nattype"

text \<open>\<open>too_soon\<close> is the guard \<^verbatim>\<open>mNextAttemptTS > now\<close> of every waiting state. In both handlers
  \<^verbatim>\<open>CSB_FAILED_WAIT\<close> past its time falls through to the start case, as do the states the handler
  does not expect (which also print an error).\<close>

definition too_soon :: "rstime_t \<Rightarrow> PeerConnectStateBox \<Rightarrow> bool" where
  "too_soon now b = (mNextAttemptTS b > now)"

definition connectCb_direct :: "rstime_t \<Rightarrow> PeerConnectStateBox \<Rightarrow> u32 \<times> PeerConnectStateBox" where
  "connectCb_direct now b =
     (if mState b = CSB_DIRECT_ATTEMPT then (CSB_ACTION_WAIT, b)
      else if mState b = CSB_PROXY_ATTEMPT then (CSB_ACTION_WAIT, b)
      else if mState b = CSB_RELAY_ATTEMPT then (CSB_ACTION_WAIT, b)
      else if mState b = CSB_FAILED_WAIT \<and> too_soon now b then (CSB_ACTION_WAIT, b)
      else if mState b = CSB_TCP_WAIT then
        (if too_soon now b then (CSB_ACTION_WAIT, b)
         else (CSB_ACTION_DIRECT_CONN OR CSB_ACTION_DHT_PORT,
               b\<lparr>mState := CSB_DIRECT_ATTEMPT, mStateTS := now,
                 mNoAttempts := 0, mNoFailedAttempts := 0\<rparr>))
      else if mState b = CSB_DIRECT_WAIT then
        (if too_soon now b then (CSB_ACTION_WAIT, b)
         else if mNoAttempts b \<ge> MAX_DIRECT_ATTEMPTS \<or>
                 mNoFailedAttempts b \<ge> MAX_DIRECT_FAILED_ATTEMPTS then
           (CSB_ACTION_WAIT,
            b\<lparr>mState := CSB_FAILED_WAIT, mStateTS := now, mNoAttempts := 0,
              mNoFailedAttempts := 0, mNextAttemptTS := now + FAILED_WAIT_TIME\<rparr>)
         else
           (CSB_ACTION_DIRECT_CONN OR CSB_ACTION_DHT_PORT,
            b\<lparr>mState := CSB_DIRECT_ATTEMPT, mStateTS := now, mNoAttempts := mNoAttempts b + 1\<rparr>))
      else if mState b = CSB_CONNECTED then (CSB_ACTION_WAIT, b)
      else (CSB_ACTION_TCP_CONN,
            b\<lparr>mState := CSB_TCP_WAIT, mStateTS := now, mNoAttempts := 0,
              mNoFailedAttempts := 0, mNextAttemptTS := now + TCP_WAIT_TIME\<rparr>))"

text \<open>\<^verbatim>\<open>connectCb_unreachable\<close>, case by case. The condition in the TCP case is the code's own: it
  compares the state (not the network state) with \<^verbatim>\<open>CSB_NETSTATE_FIREWALLED\<close>.\<close>

definition unreachable_start :: "rstime_t \<Rightarrow> PeerConnectStateBox \<Rightarrow> u32 \<times> PeerConnectStateBox" where
  "unreachable_start now b =
     (CSB_ACTION_WAIT,
      b\<lparr>mState := CSB_TCP_WAIT, mStateTS := now, mNoAttempts := 0,
        mNoFailedAttempts := 0, mNextAttemptTS := now + TCP_WAIT_TIME\<rparr>)"

definition unreachable_tcp_wait ::
    "rstime_t \<Rightarrow> u32 \<Rightarrow> PeerConnectStateBox \<Rightarrow> u32 \<times> PeerConnectStateBox" where
  "unreachable_tcp_wait now proxyPortMode b =
     (if too_soon now b then (CSB_ACTION_WAIT, b)
      else
        (let (s, retval) =
           (if mState b \<noteq> CSB_NETSTATE_FIREWALLED
            then (CSB_PROXY_ATTEMPT, CSB_ACTION_PROXY_CONN OR proxyPortMode)
            else (CSB_RELAY_ATTEMPT, CSB_ACTION_RELAY_CONN OR CSB_ACTION_DHT_PORT))
         in (retval, b\<lparr>mState := s, mStateTS := now, mNoAttempts := 0, mNoFailedAttempts := 0\<rparr>)))"

definition unreachable_proxy_wait ::
    "rstime_t \<Rightarrow> u32 \<Rightarrow> PeerConnectStateBox \<Rightarrow> u32 \<times> PeerConnectStateBox" where
  "unreachable_proxy_wait now proxyPortMode b =
     (if too_soon now b then (CSB_ACTION_WAIT, b)
      else if mNoAttempts b \<ge> MAX_PROXY_ATTEMPTS \<or>
              mNoFailedAttempts b \<ge> MAX_PROXY_FAILED_ATTEMPTS then
        (CSB_ACTION_RELAY_CONN OR CSB_ACTION_DHT_PORT,
         b\<lparr>mState := CSB_RELAY_ATTEMPT, mStateTS := now, mNoAttempts := 0,
           mNoFailedAttempts := 0\<rparr>)
      else
        (CSB_ACTION_PROXY_CONN OR proxyPortMode,
         b\<lparr>mState := CSB_PROXY_ATTEMPT, mStateTS := now, mNoAttempts := mNoAttempts b + 1\<rparr>))"

definition unreachable_reverse_wait ::
    "rstime_t \<Rightarrow> PeerConnectStateBox \<Rightarrow> u32 \<times> PeerConnectStateBox" where
  "unreachable_reverse_wait now b =
     (if too_soon now b then (CSB_ACTION_WAIT, b)
      else
        (CSB_ACTION_RELAY_CONN OR CSB_ACTION_DHT_PORT,
         b\<lparr>mState := CSB_RELAY_ATTEMPT, mStateTS := now, mNoAttempts := 0,
           mNoFailedAttempts := 0\<rparr>))"

definition unreachable_relay_wait ::
    "rstime_t \<Rightarrow> PeerConnectStateBox \<Rightarrow> u32 \<times> PeerConnectStateBox" where
  "unreachable_relay_wait now b =
     (if too_soon now b then (CSB_ACTION_WAIT, b)
      else if mNoAttempts b \<ge> MAX_RELAY_ATTEMPTS \<or>
              mNoFailedAttempts b \<ge> MAX_RELAY_FAILED_ATTEMPTS then
        (CSB_ACTION_WAIT,
         b\<lparr>mState := CSB_FAILED_WAIT, mStateTS := now, mNoAttempts := 0,
           mNoFailedAttempts := 0, mNextAttemptTS := now + FAILED_WAIT_TIME\<rparr>)
      else
        (CSB_ACTION_RELAY_CONN OR CSB_ACTION_DHT_PORT,
         b\<lparr>mState := CSB_RELAY_ATTEMPT, mStateTS := now, mNoAttempts := mNoAttempts b + 1\<rparr>))"

definition connectCb_unreachable ::
    "rstime_t \<Rightarrow> PeerConnectStateBox \<Rightarrow> u32 \<times> PeerConnectStateBox" where
  "connectCb_unreachable now b =
     (let proxyPortMode =
        (if \<not> shouldUseProxyPortInternal (mNetState b)
         then CSB_ACTION_DHT_PORT else CSB_ACTION_PROXY_PORT)
      in
      if mState b = CSB_DIRECT_ATTEMPT then (CSB_ACTION_WAIT, b)
      else if mState b = CSB_PROXY_ATTEMPT then (CSB_ACTION_WAIT, b)
      else if mState b = CSB_RELAY_ATTEMPT then (CSB_ACTION_WAIT, b)
      else if mState b = CSB_FAILED_WAIT \<and> too_soon now b then (CSB_ACTION_WAIT, b)
      else if mState b = CSB_TCP_WAIT then unreachable_tcp_wait now proxyPortMode b
      else if mState b = CSB_PROXY_WAIT then unreachable_proxy_wait now proxyPortMode b
      else if mState b = CSB_REVERSE_WAIT then unreachable_reverse_wait now b
      else if mState b = CSB_RELAY_WAIT then unreachable_relay_wait now b
      else if mState b = CSB_CONNECTED then (CSB_ACTION_WAIT, b)
      else unreachable_start now b)"

definition connectCb :: "rstime_t \<Rightarrow> u32 \<Rightarrow> RsNetworkMode \<Rightarrow> RsNatHoleMode \<Rightarrow> RsNatTypeMode
    \<Rightarrow> PeerConnectStateBox \<Rightarrow> u32 \<times> PeerConnectStateBox" where
  "connectCb now cbtype netmode nathole nattype b =
     (let netstate = convertNetStateToInternal netmode nathole nattype;
          b1 = (if netstate \<noteq> mNetState b then b\<lparr>mNetState := netstate\<rparr> else b)
      in if cbtype = CSB_CONNECT_DIRECT then connectCb_direct now b1
         else connectCb_unreachable now b1)"

subsection \<open>Feedback\<close>

text \<open>The wait state a failed or retried attempt moves to (the inner switch of both cases).\<close>

definition attempt_to_wait ::
    "rstime_t \<Rightarrow> u32 \<Rightarrow> PeerConnectStateBox \<Rightarrow> PeerConnectStateBox" where
  "attempt_to_wait now rnd b =
     (if mState b = CSB_DIRECT_ATTEMPT then
        b\<lparr>mState := CSB_DIRECT_WAIT, mStateTS := now,
          mNextAttemptTS := now + uint (rnd mod DIRECT_MAX_WAIT_TIME)\<rparr>
      else if mState b = CSB_PROXY_ATTEMPT then
        b\<lparr>mState := CSB_PROXY_WAIT, mStateTS := now,
          mNextAttemptTS := now + PROXY_BASE_WAIT_TIME +
            uint (rnd mod of_int (PROXY_MAX_WAIT_TIME - PROXY_BASE_WAIT_TIME))\<rparr>
      else if mState b = CSB_RELAY_ATTEMPT then
        b\<lparr>mState := CSB_RELAY_WAIT, mStateTS := now,
          mNextAttemptTS := now + uint (rnd mod RELAY_MAX_WAIT_TIME)\<rparr>
      else b)"

text \<open>The last switch of \<^verbatim>\<open>updateCb\<close>, reached in the attempt states only. In the mode-unavailable
  case the code tests \<^verbatim>\<open>mState\<close> again after assigning it; the test is kept as written.\<close>

definition updateCb_attempt ::
    "rstime_t \<Rightarrow> u32 \<Rightarrow> u32 \<Rightarrow> PeerConnectStateBox \<Rightarrow> u32 \<times> PeerConnectStateBox" where
  "updateCb_attempt now rnd update b =
     (if update = CSB_UPDATE_AUTH_DENIED then
        (let b1 = b\<lparr>mState := CSB_FAILED_WAIT\<rparr>;
             b2 = b1\<lparr>mStateTS := now\<rparr>;
             b3 = b2\<lparr>mAttemptLength := now - mStateTS b2\<rparr>
         in (1, b3\<lparr>mNextAttemptTS := now + FAILED_WAIT_TIME\<rparr>))
      else if update = CSB_UPDATE_RETRY_ATTEMPT then
        (1, attempt_to_wait now rnd (b\<lparr>mAttemptLength := now - mStateTS b\<rparr>))
      else if update = CSB_UPDATE_FAILED_ATTEMPT then
        (1, attempt_to_wait now rnd
              (b\<lparr>mNoFailedAttempts := mNoFailedAttempts b + 1,
                 mAttemptLength := now - mStateTS b\<rparr>))
      else if update = CSB_UPDATE_MODE_UNAVAILABLE then
        (let b1 = b\<lparr>mAttemptLength := now - mStateTS b\<rparr> in
         if mState b1 = CSB_PROXY_ATTEMPT then
           (if mNetState b1 = CSB_NETSTATE_FORWARD then
              (1, b1\<lparr>mState := CSB_REVERSE_WAIT, mStateTS := now,
                     mNextAttemptTS := now + REVERSE_WAIT_TIME\<rparr>)
            else
              (1, b1\<lparr>mState := CSB_RELAY_WAIT, mNoAttempts := 0, mStateTS := now,
                     mNextAttemptTS := now + uint (rnd mod RELAY_MAX_WAIT_TIME)\<rparr>))
         else
           (let b2 = b1\<lparr>mState := CSB_FAILED_WAIT, mStateTS := now,
                        mNextAttemptTS := now + FAILED_WAIT_TIME\<rparr>
            in if mState b2 = CSB_DIRECT_ATTEMPT \<or> mState b2 = CSB_PROXY_ATTEMPT
               then (1, b2) else (0, b2)))
      else (0, b))"

definition updateCb ::
    "rstime_t \<Rightarrow> u32 \<Rightarrow> u32 \<Rightarrow> PeerConnectStateBox \<Rightarrow> u32 \<times> PeerConnectStateBox" where
  "updateCb now rnd update b =
     (if update = CSB_UPDATE_CONNECTED then
        (let b1 = (if mState b = CSB_DIRECT_ATTEMPT \<or> mState b = CSB_PROXY_ATTEMPT \<or>
                      mState b = CSB_RELAY_ATTEMPT
                   then b\<lparr>mAttemptLength := now - mStateTS b\<rparr>
                   else b\<lparr>mAttemptLength := 0\<rparr>)
         in (0, b1\<lparr>mState := CSB_CONNECTED, mStateTS := now\<rparr>))
      else if update = CSB_UPDATE_DISCONNECTED then
        (if mState b \<noteq> CSB_CONNECTED then (0, b)
         else (1, b\<lparr>mState := CSB_START, mStateTS := now\<rparr>))
      else if mState b = CSB_DIRECT_ATTEMPT \<or> mState b = CSB_PROXY_ATTEMPT \<or>
              mState b = CSB_RELAY_ATTEMPT
        then updateCb_attempt now rnd update b
      else (0, b))"

definition storeProxyPortChoice ::
    "rstime_t \<Rightarrow> u32 \<Rightarrow> bool \<Rightarrow> PeerConnectStateBox \<Rightarrow> bool \<times> PeerConnectStateBox" where
  "storeProxyPortChoice now flags useProxyPort b =
     (useProxyPort,
      b\<lparr>mProxyPortFlags := flags, mProxyPortChoice := useProxyPort, mProxyPortTS := now\<rparr>)"

definition getProxyPortChoice :: "PeerConnectStateBox \<Rightarrow> bool" where
  "getProxyPortChoice b = mProxyPortChoice b"


lemmas csb_connect_defs =
  connectCb_def connectCb_direct_def connectCb_unreachable_def unreachable_start_def
  unreachable_tcp_wait_def unreachable_proxy_wait_def unreachable_reverse_wait_def
  unreachable_relay_wait_def too_soon_def

lemmas csb_update_defs = updateCb_def updateCb_attempt_def attempt_to_wait_def

subsection \<open>The box as a state machine\<close>

text \<open>The calls of the public interface that change the box, with the clock and the random number
  the call sees.\<close>

datatype csb_call =
    ConnectCb rstime_t u32 RsNetworkMode RsNatHoleMode RsNatTypeMode
  | UpdateCb rstime_t u32 u32
  | StoreProxyPortChoice rstime_t u32 bool

inductive csb_step :: "PeerConnectStateBox \<Rightarrow> csb_call \<Rightarrow> PeerConnectStateBox \<Rightarrow> bool" where
  csb_connect: "connectCb now cb nm nh nt b = (a, b') \<Longrightarrow> csb_step b (ConnectCb now cb nm nh nt) b'"
| csb_update: "updateCb now rnd u b = (r, b') \<Longrightarrow> csb_step b (UpdateCb now rnd u) b'"
| csb_store: "storeProxyPortChoice now f c b = (r, b') \<Longrightarrow>
    csb_step b (StoreProxyPortChoice now f c) b'"

inductive_simps csb_step_connect: "csb_step b (ConnectCb now cb nm nh nt) b'"
inductive_simps csb_step_update: "csb_step b (UpdateCb now rnd u) b'"
inductive_simps csb_step_store: "csb_step b (StoreProxyPortChoice now f c) b'"

definition csb_init :: "PeerConnectStateBox \<Rightarrow> bool" where
  "csb_init b = (\<exists>now. b = new_PeerConnectStateBox now)"

definition csb_attempting :: "PeerConnectStateBox \<Rightarrow> bool" where
  "csb_attempting b = (mState b = CSB_DIRECT_ATTEMPT \<or> mState b = CSB_PROXY_ATTEMPT \<or>
                       mState b = CSB_RELAY_ATTEMPT)"

text \<open>The longest time a state that waits can ask for, and the bound on the attempts it counts.\<close>

definition max_wait :: "u32 \<Rightarrow> rstime_t" where
  "max_wait s =
     (if s = CSB_TCP_WAIT then TCP_WAIT_TIME
      else if s = CSB_DIRECT_WAIT \<or> s = CSB_RELAY_WAIT then 59
      else if s = CSB_PROXY_WAIT then PROXY_MAX_WAIT_TIME - 1
      else if s = CSB_REVERSE_WAIT then REVERSE_WAIT_TIME
      else FAILED_WAIT_TIME)"

definition max_attempts :: "u32 \<Rightarrow> u32" where
  "max_attempts s =
     (if s = CSB_DIRECT_ATTEMPT \<or> s = CSB_DIRECT_WAIT then MAX_DIRECT_ATTEMPTS
      else if s = CSB_RELAY_ATTEMPT \<or> s = CSB_RELAY_WAIT then MAX_RELAY_ATTEMPTS
      else MAX_PROXY_ATTEMPTS)"

definition csb_waiting_state :: "u32 \<Rightarrow> bool" where
  "csb_waiting_state s =
     (s = CSB_TCP_WAIT \<or> s = CSB_DIRECT_WAIT \<or> s = CSB_PROXY_WAIT \<or> s = CSB_RELAY_WAIT \<or>
      s = CSB_REVERSE_WAIT \<or> s = CSB_FAILED_WAIT)"

definition csb_known :: "u32 \<Rightarrow> bool" where
  "csb_known s =
     (s = CSB_START \<or> s = CSB_TCP_WAIT \<or> s = CSB_DIRECT_ATTEMPT \<or> s = CSB_DIRECT_WAIT \<or>
      s = CSB_PROXY_ATTEMPT \<or> s = CSB_PROXY_WAIT \<or> s = CSB_RELAY_ATTEMPT \<or>
      s = CSB_RELAY_WAIT \<or> s = CSB_REVERSE_WAIT \<or> s = CSB_FAILED_WAIT \<or> s = CSB_CONNECTED)"

definition csb_inv :: "PeerConnectStateBox \<Rightarrow> bool" where
  "csb_inv b =
     (csb_known (mState b) \<and>
      mNoAttempts b \<le> max_attempts (mState b) \<and>
      mNoFailedAttempts b \<le> (if csb_attempting b then 2 else 3) \<and>
      (csb_waiting_state (mState b) \<longrightarrow>
         mStateTS b \<le> mNextAttemptTS b \<and> mNextAttemptTS b \<le> mStateTS b + max_wait (mState b)))"

lemmas csb_inv_defs =
  csb_inv_def csb_known_def max_attempts_def csb_attempting_def csb_waiting_state_def max_wait_def

lemma uint_mod_u32_bound:
  "0 < uint (m :: u32) \<Longrightarrow> 0 \<le> uint (r mod m) \<and> uint (r mod m) < uint m"
  by (simp add: uint_mod)

lemma uint_mod_60: "0 \<le> uint (r mod (60 :: u32)) \<and> uint (r mod (60 :: u32)) \<le> 59"
  using uint_mod_u32_bound [of 60 r] by simp

lemma uint_mod_90: "0 \<le> uint (r mod (90 :: u32)) \<and> uint (r mod (90 :: u32)) \<le> 89"
  using uint_mod_u32_bound [of 90 r] by simp

lemma u32_less_imp_add1_le: "(x :: u32) < n \<Longrightarrow> x + 1 \<le> n"
  by (rule inc_le)

subsection \<open>Every call keeps the invariant\<close>

lemma csb_inv_netstate [simp]: "csb_inv (b\<lparr>mNetState := n\<rparr>) = csb_inv b"
  by (simp add: csb_inv_def csb_attempting_def)

lemma csb_inv_attempt_length [simp]: "csb_inv (b\<lparr>mAttemptLength := n\<rparr>) = csb_inv b"
  by (simp add: csb_inv_def csb_attempting_def)

lemma u32_inc_le: "\<not> n \<le> x \<Longrightarrow> (x :: u32) + 1 \<le> n"
  by (simp add: not_le inc_le)

lemma u32_not_3_le: "\<not> (3 :: u32) \<le> x \<longleftrightarrow> x \<le> 2"
  by (simp add: word_le_nat_alt) arith

lemma csb_state_cases [consumes 1, case_names start tcp_wait direct_attempt direct_wait
    proxy_attempt proxy_wait relay_attempt relay_wait reverse_wait failed_wait connected]:
  assumes "csb_inv b"
  obtains "mState b = CSB_START" | "mState b = CSB_TCP_WAIT" | "mState b = CSB_DIRECT_ATTEMPT"
    | "mState b = CSB_DIRECT_WAIT" | "mState b = CSB_PROXY_ATTEMPT" | "mState b = CSB_PROXY_WAIT"
    | "mState b = CSB_RELAY_ATTEMPT" | "mState b = CSB_RELAY_WAIT" | "mState b = CSB_REVERSE_WAIT"
    | "mState b = CSB_FAILED_WAIT" | "mState b = CSB_CONNECTED"
  using assms by (auto simp: csb_inv_def csb_known_def)

lemma csb_inv_direct: "csb_inv b \<Longrightarrow> csb_inv (snd (connectCb_direct now b))"
  by (cases b rule: csb_state_cases)
    (simp_all add: connectCb_direct_def too_soon_def csb_inv_defs u32_inc_le u32_not_3_le)

lemma csb_inv_unreachable: "csb_inv b \<Longrightarrow> csb_inv (snd (connectCb_unreachable now b))"
  by (cases b rule: csb_state_cases)
    (simp_all add: csb_connect_defs csb_inv_defs u32_inc_le u32_not_3_le)

lemma csb_inv_connect: "csb_inv b \<Longrightarrow> csb_inv (snd (connectCb now cb nm nh nt b))"
  by (simp add: connectCb_def Let_def csb_inv_direct csb_inv_unreachable)

lemma u32_inc_3: "x \<le> (2::u32) \<Longrightarrow> x + 1 \<le> 3"
  using u32_inc_le [of 3 x] u32_not_3_le [of x] by simp

lemma u32_le_2_3: "x \<le> (2::u32) \<Longrightarrow> x \<le> 3"
  by (erule order_trans) simp

lemma u32_le_5_10: "x \<le> (5::u32) \<Longrightarrow> x \<le> 10"
  by (erule order_trans) simp


lemma csb_inv_attempt_to_wait:
  assumes "csb_inv b" "csb_attempting b" "n \<le> 3"
  shows "csb_inv (attempt_to_wait now rnd (b\<lparr>mNoFailedAttempts := n\<rparr>))"
  using assms(1)
  by (cases b rule: csb_state_cases)
    (use assms uint_mod_60 [of rnd] uint_mod_90 [of rnd] in
      \<open>simp_all add: attempt_to_wait_def csb_inv_defs\<close>)

lemma csb_inv_update_attempt:
  assumes "csb_inv b" "csb_attempting b"
  shows "csb_inv (snd (updateCb_attempt now rnd u b))"
proof -
  have f: "mNoFailedAttempts b \<le> 2"
    using assms by (simp add: csb_inv_def)
  have w: "csb_inv (attempt_to_wait now rnd (b\<lparr>mNoFailedAttempts := n, mAttemptLength := l\<rparr>))"
    if "n \<le> 3" for n l
  proof -
    have eq: "b\<lparr>mNoFailedAttempts := n, mAttemptLength := l\<rparr> = b\<lparr>mAttemptLength := l, mNoFailedAttempts := n\<rparr>"
      by simp
    show ?thesis unfolding eq
      using csb_inv_attempt_to_wait [of "b\<lparr>mAttemptLength := l\<rparr>" n now rnd] assms that
      by (simp add: csb_attempting_def)
  qed
  have w0: "csb_inv (attempt_to_wait now rnd (b\<lparr>mAttemptLength := l\<rparr>))" for l
    using w [of "mNoFailedAttempts b" l] u32_le_2_3 [OF f] by simp
  show ?thesis
  proof (cases "u = CSB_UPDATE_RETRY_ATTEMPT \<or> u = CSB_UPDATE_FAILED_ATTEMPT")
    case True
    then show ?thesis using w0 w [OF u32_inc_3 [OF f]]
      by (auto simp: updateCb_attempt_def)
  next
    case False
    from assms(1) show ?thesis
      by (cases b rule: csb_state_cases)
        (use False assms f uint_mod_60 [of rnd] u32_le_2_3 [OF f] u32_le_5_10 in
          \<open>auto simp: updateCb_attempt_def csb_inv_defs Let_def\<close>)
  qed
qed

lemma csb_inv_update: 
  assumes "csb_inv b" shows "csb_inv (snd (updateCb now rnd u b))"
proof -
  have "csb_inv (snd (updateCb now rnd u b))" if "u = CSB_UPDATE_CONNECTED \<or> u = CSB_UPDATE_DISCONNECTED"
    using assms
    by (cases b rule: csb_state_cases)
      (use assms that in \<open>auto simp: updateCb_def csb_inv_defs u32_le_2_3 u32_le_5_10\<close>)
  then show ?thesis
    using assms csb_inv_update_attempt [of b now rnd u]
    by (cases "u = CSB_UPDATE_CONNECTED \<or> u = CSB_UPDATE_DISCONNECTED")
      (auto simp: updateCb_def csb_attempting_def)
qed

lemma csb_inv_new: "csb_inv (new_PeerConnectStateBox now)"
  by (simp add: new_PeerConnectStateBox_def csb_inv_defs)

text \<open>The contract of \<open>inductive_invariant\<close> for the box.\<close>

interpretation csb: inductive_invariant csb_init csb_step csb_inv
proof unfold_locales
  show "csb_inv s" if "csb_init s" for s
    using that by (auto simp: csb_init_def csb_inv_new)
next
  fix s e t
  assume s: "csb_inv s" and "csb_step s e t"
  from this(2) show "csb_inv t"
  proof cases
    case (csb_connect now cb nm nh nt a)
    then show ?thesis using csb_inv_connect [OF s, of now cb nm nh nt] by simp
  next
    case (csb_update now rnd u r)
    then show ?thesis using csb_inv_update [OF s, of now rnd u] by simp
  next
    case (csb_store now f c r)
    then show ?thesis using s by (auto simp: storeProxyPortChoice_def csb_inv_def csb_attempting_def)
  qed
qed

subsection \<open>Rounds in which the peer stays unreachable\<close>

text \<open>One round: the DHT layer asks for a connection to a peer it reports unreachable, at the time the
  box gave or later, and the attempt (if one was started) fails or has to be retried.\<close>

record failing_round =
  fr_delay :: nat
  fr_rnd :: u32
  fr_retry :: bool
  fr_netmode :: RsNetworkMode
  fr_nathole :: RsNatHoleMode
  fr_nattype :: RsNatTypeMode

definition failing_round_step :: "failing_round \<Rightarrow> PeerConnectStateBox \<Rightarrow> PeerConnectStateBox" where
  "failing_round_step i b =
     (let now = mNextAttemptTS b + int (fr_delay i);
          b1 = snd (connectCb now CSB_CONNECT_UNREACHABLE (fr_netmode i) (fr_nathole i) (fr_nattype i) b)
      in snd (updateCb now (fr_rnd i)
               (if fr_retry i then CSB_UPDATE_RETRY_ATTEMPT else CSB_UPDATE_FAILED_ATTEMPT) b1))"

definition csb_idle_state :: "u32 \<Rightarrow> bool" where
  "csb_idle_state s = (s = CSB_START \<or> csb_waiting_state s)"

definition csb_rank :: "PeerConnectStateBox \<Rightarrow> nat" where
  "csb_rank b =
     (if mState b = CSB_RELAY_WAIT then 5 - unat (mNoAttempts b)
      else if mState b = CSB_REVERSE_WAIT then 6
      else if mState b = CSB_PROXY_WAIT then 16 - unat (mNoAttempts b)
      else if mState b = CSB_TCP_WAIT then 17 else 18)"

lemma unat_not_le_u32: "\<not> n \<le> (x :: u32) \<longleftrightarrow> unat x < unat n"
  by (simp add: not_le word_less_nat_alt)

lemma unat_inc_less: "\<not> n \<le> x \<Longrightarrow> unat (x + 1 :: u32) = Suc (unat x)"
  using unat_u32_less [of n] unat_add_u32_id [of x 1]
  by (simp only: not_le word_less_nat_alt unsigned_1)

lemmas failing_round_defs =
  failing_round_step_def Let_def csb_connect_defs csb_update_defs

lemma failing_round_idle:
  assumes "csb_inv b" "csb_idle_state (mState b)"
  shows "csb_idle_state (mState (failing_round_step i b))"
  using assms(1)
  by (cases b rule: csb_state_cases)
    (use assms in \<open>simp_all add: failing_round_defs csb_idle_state_def csb_waiting_state_def\<close>)

lemma failing_round_start:
  "mState b = CSB_START \<or> mState b = CSB_DIRECT_WAIT \<Longrightarrow>
   mState (failing_round_step i b) = CSB_TCP_WAIT"
  by (elim disjE) (simp_all add: failing_round_defs)

lemma failing_round_tcp:
  "mState b = CSB_TCP_WAIT \<Longrightarrow>
   mState (failing_round_step i b) = CSB_PROXY_WAIT \<and> mNoAttempts (failing_round_step i b) = 0"
  by (simp add: failing_round_defs)

lemma failing_round_proxy:
  "mState b = CSB_PROXY_WAIT \<Longrightarrow>
   mState (failing_round_step i b) = CSB_RELAY_WAIT \<and> mNoAttempts (failing_round_step i b) = 0 \<or>
   mState (failing_round_step i b) = CSB_PROXY_WAIT \<and> unat (mNoAttempts b) < 10 \<and>
   unat (mNoAttempts (failing_round_step i b)) = Suc (unat (mNoAttempts b))"
  using unat_inc_less [of MAX_PROXY_ATTEMPTS "mNoAttempts b"]
  by (simp add: failing_round_defs unat_not_le_u32 [of MAX_PROXY_ATTEMPTS, simplified])

lemma failing_round_reverse:
  "mState b = CSB_REVERSE_WAIT \<Longrightarrow>
   mState (failing_round_step i b) = CSB_RELAY_WAIT \<and> mNoAttempts (failing_round_step i b) = 0"
  by (simp add: failing_round_defs)

lemma failing_round_relay:
  "mState b = CSB_RELAY_WAIT \<Longrightarrow>
   mState (failing_round_step i b) = CSB_FAILED_WAIT \<or>
   mState (failing_round_step i b) = CSB_RELAY_WAIT \<and> unat (mNoAttempts b) < 5 \<and>
   unat (mNoAttempts (failing_round_step i b)) = Suc (unat (mNoAttempts b))"
  using unat_inc_less [of MAX_RELAY_ATTEMPTS "mNoAttempts b"]
  by (simp add: failing_round_defs unat_not_le_u32 [of MAX_RELAY_ATTEMPTS, simplified])

lemma failing_round_rank:
  assumes "csb_idle_state (mState b)" "mState b \<noteq> CSB_FAILED_WAIT" "csb_inv b"
     "mState (failing_round_step i b) \<noteq> CSB_FAILED_WAIT"
  shows "csb_rank (failing_round_step i b) < csb_rank b"
proof -
  consider "mState b = CSB_START \<or> mState b = CSB_DIRECT_WAIT" | "mState b = CSB_TCP_WAIT"
    | "mState b = CSB_PROXY_WAIT" | "mState b = CSB_REVERSE_WAIT" | "mState b = CSB_RELAY_WAIT"
    using assms(1,2) by (auto simp: csb_idle_state_def csb_waiting_state_def)
  then show ?thesis
  proof cases
    case 1
    then show ?thesis using failing_round_start [OF 1, of i] by (auto simp: csb_rank_def)
  next
    case 2
    then show ?thesis using failing_round_tcp [OF 2, of i] by (simp add: csb_rank_def)
  next
    case 3
    moreover have "unat (mNoAttempts b) \<le> 10"
      using assms(3) 3 by (simp add: csb_inv_def max_attempts_def word_le_nat_alt)
    ultimately show ?thesis using failing_round_proxy [OF 3, of i]
      by (elim disjE conjE) (simp_all add: csb_rank_def)
  next
    case 4
    then show ?thesis using failing_round_reverse [OF 4, of i] by (simp add: csb_rank_def)
  next
    case 5
    then show ?thesis using failing_round_relay [OF 5, of i] assms(4)
      by (elim disjE conjE) (simp_all add: csb_rank_def)
  qed
qed

text \<open>The contract of \<open>ranked_rounds\<close>: the rank counts the rounds left.\<close>

interpretation csb_rounds: ranked_rounds failing_round_step
  "\<lambda>b. csb_inv b \<and> csb_idle_state (mState b)" "\<lambda>b. mState b = CSB_FAILED_WAIT" csb_rank
proof unfold_locales
  fix b i
  assume b: "csb_inv b \<and> csb_idle_state (mState b)"
  then have "csb_inv (failing_round_step i b)"
    by (simp add: failing_round_step_def Let_def csb_inv_connect csb_inv_update)
  with b show "csb_inv (failing_round_step i b) \<and> csb_idle_state (mState (failing_round_step i b))"
    by (simp add: failing_round_idle)
qed (simp add: failing_round_rank)

lemma csb_rank_bound: "csb_rank b \<le> 18"
  unfolding csb_rank_def by (simp add: diff_le_mono2 le_trans [OF diff_le_self])

subsection \<open>Properties\<close>

definition conn_action_for :: "u32 \<Rightarrow> u32" where
  "conn_action_for s =
    (if s = CSB_DIRECT_ATTEMPT then CSB_ACTION_DIRECT_CONN
     else if s = CSB_PROXY_ATTEMPT then CSB_ACTION_PROXY_CONN
     else if s = CSB_RELAY_ATTEMPT then CSB_ACTION_RELAY_CONN
     else 0)"

text \<open>C4. In every state the box can reach, by any sequence of calls at any times with any random
  numbers, the state is one of the eleven named ones, the attempts and failed attempts it counts
  stay within the limits of the mode it is in, and a waiting state asks for a wait between zero and
  the period of that state.\<close>

theorem csb_reachable_inv:
  assumes "reach csb_init csb_step b"
  shows "csb_inv b"
  by (rule csb.reach_inv) (rule assms)

lemma reach_csb_connect:
  "reach csb_init csb_step b \<Longrightarrow> reach csb_init csb_step (snd (connectCb now cb nm nh nt b))"
  by (erule reach_step) (rule csb_connect [OF prod.collapse [symmetric]])

lemma reach_csb_new: "reach csb_init csb_step (new_PeerConnectStateBox now)"
  by (rule reach_init) (auto simp: csb_init_def)

theorem csb_reachable_inv_witness:
  "csb_inv (snd (connectCb 5 CSB_CONNECT_DIRECT NM_BEHINDNAT NH_NONE NT_FULL_CONE
     (new_PeerConnectStateBox 0)))"
  by (rule csb_reachable_inv) (intro reach_csb_connect reach_csb_new)

text \<open>The action a connect call returns asks for a UDP connection exactly when the call moves
  the box into an attempt state, and it asks for the kind of connection of that state.\<close>

theorem connectCb_action_matches_attempt:
  assumes "csb_inv b"
  shows "let (a, b') = connectCb now cb nm nh nt b in
     a AND (CSB_ACTION_DIRECT_CONN OR CSB_ACTION_PROXY_CONN OR CSB_ACTION_RELAY_CONN) =
       (if mState b' = mState b then 0 else conn_action_for (mState b'))"
  using assms
  by (cases b rule: csb_state_cases)
   (simp_all add: csb_connect_defs Let_def conn_action_for_def split: if_splits)

theorem connectCb_action_matches_attempt_witness:
  "let (a, b') = connectCb 5 CSB_CONNECT_DIRECT NM_BEHINDNAT NH_NONE NT_FULL_CONE
       (new_PeerConnectStateBox 0) in
     a AND (CSB_ACTION_DIRECT_CONN OR CSB_ACTION_PROXY_CONN OR CSB_ACTION_RELAY_CONN) =
       (if mState b' = mState (new_PeerConnectStateBox 0) then 0 else conn_action_for (mState b'))"
  by (rule connectCb_action_matches_attempt) (rule csb_inv_new)

text \<open>Back-off: in a waiting state that belongs to the kind of call, a connect call before the
  next attempt time returns WAIT and changes nothing but the recorded network state.\<close>

theorem csb_backoff:
  assumes "csb_waiting_state (mState b)" and "now < mNextAttemptTS b"
    and "cb = CSB_CONNECT_DIRECT \<Longrightarrow> mState b \<in> {CSB_TCP_WAIT, CSB_DIRECT_WAIT, CSB_FAILED_WAIT}"
    and "cb \<noteq> CSB_CONNECT_DIRECT \<Longrightarrow> mState b \<noteq> CSB_DIRECT_WAIT"
  shows "connectCb now cb nm nh nt b =
      (CSB_ACTION_WAIT, b\<lparr>mNetState := convertNetStateToInternal nm nh nt\<rparr>)"
  using assms
  by (cases "cb = CSB_CONNECT_DIRECT") (auto simp: csb_connect_defs Let_def csb_waiting_state_def)

theorem csb_backoff_witness:
  "connectCb 20 CSB_CONNECT_DIRECT NM_BEHINDNAT NH_NONE NT_FULL_CONE
     ((new_PeerConnectStateBox 0)\<lparr>mState := CSB_TCP_WAIT, mNextAttemptTS := 60\<rparr>) =
   (CSB_ACTION_WAIT,
    (new_PeerConnectStateBox 0)\<lparr>mState := CSB_TCP_WAIT, mNextAttemptTS := 60,
      mNetState := convertNetStateToInternal NM_BEHINDNAT NH_NONE NT_FULL_CONE\<rparr>)"
  by (rule csb_backoff) (simp_all add: csb_waiting_state_def)

text \<open>No wait lasts for ever: once the longest period of its state has passed, a connect call of
  either kind moves a reachable waiting box to another state.\<close>

theorem csb_wait_ends:
  assumes "reach csb_init csb_step b" "csb_waiting_state (mState b)"
    and "mStateTS b + max_wait (mState b) \<le> now"
  shows "mState (snd (connectCb now cb nm nh nt b)) \<noteq> mState b"
proof -
  have i: "csb_inv b" using assms(1) by (rule csb.reach_inv)
  with assms(2,3) have "\<not> now < mNextAttemptTS b" by (simp add: csb_inv_def)
  with assms(2) show ?thesis
    by (cases "cb = CSB_CONNECT_DIRECT")
      (auto simp: csb_connect_defs Let_def csb_waiting_state_def)
qed

theorem csb_wait_ends_witness:
  "mState (snd (connectCb 100 CSB_CONNECT_DIRECT NM_BEHINDNAT NH_NONE NT_FULL_CONE
     (snd (connectCb 0 CSB_CONNECT_DIRECT NM_BEHINDNAT NH_NONE NT_FULL_CONE
        (new_PeerConnectStateBox 0))))) \<noteq>
   mState (snd (connectCb 0 CSB_CONNECT_DIRECT NM_BEHINDNAT NH_NONE NT_FULL_CONE
        (new_PeerConnectStateBox 0)))"
  by (rule csb_wait_ends, intro reach_csb_connect reach_csb_new)
    (simp_all add: csb_connect_defs Let_def new_PeerConnectStateBox_def csb_waiting_state_def
      max_wait_def)

text \<open>C29. The box gives up on an unreachable peer: from any reachable state in which no attempt is
  under way, nineteen rounds whose attempts fail (or are retried), whatever the delays, random
  numbers and network modes, bring it to FAILED\_WAIT at some point.\<close>

theorem csb_gives_up:
  assumes "reach csb_init csb_step b" "csb_idle_state (mState b)" "length rounds = 19"
  shows "\<exists>k \<le> 19. mState (foldl (\<lambda>b i. failing_round_step i b) b (take k rounds)) =
           CSB_FAILED_WAIT"
  using csb_rounds.goal_within_rank [of b rounds] csb_rank_bound [of b] assms
    csb.reach_inv [OF assms(1)]
  by simp

theorem csb_gives_up_witness:
  "\<exists>k \<le> 19. mState (foldl (\<lambda>b i. failing_round_step i b) (new_PeerConnectStateBox 0)
     (take k (replicate 19 \<lparr>fr_delay = 0, fr_rnd = 7, fr_retry = True, fr_netmode = NM_BEHINDNAT,
        fr_nathole = NH_NONE, fr_nattype = NT_SYMMETRIC\<rparr>))) = CSB_FAILED_WAIT"
  by (rule csb_gives_up [OF reach_csb_new])
    (simp_all add: new_PeerConnectStateBox_def csb_idle_state_def)

text \<open>A firewalled peer is still tried through a proxy first: the branch of the TCP\_WAIT case
  meant for firewalled networks (go straight to a relay) is never taken, because the code compares
  \<^verbatim>\<open>mState\<close>, not \<^verbatim>\<open>mNetState\<close>, with \<^verbatim>\<open>CSB_NETSTATE_FIREWALLED\<close>.\<close>

theorem csb_firewalled_tries_proxy:
  assumes "mState b = CSB_TCP_WAIT" "mNextAttemptTS b \<le> now"
    and "convertNetStateToInternal nm nh nt = CSB_NETSTATE_FIREWALLED"
  shows "connectCb now CSB_CONNECT_UNREACHABLE nm nh nt b =
     (CSB_ACTION_PROXY_CONN OR CSB_ACTION_PROXY_PORT,
      b\<lparr>mNetState := CSB_NETSTATE_FIREWALLED, mState := CSB_PROXY_ATTEMPT, mStateTS := now,
        mNoAttempts := 0, mNoFailedAttempts := 0\<rparr>)"
  using assms
  by (simp add: csb_connect_defs Let_def shouldUseProxyPortInternal_def)

theorem csb_firewalled_tries_proxy_witness:
  "connectCb 70 CSB_CONNECT_UNREACHABLE NM_BEHINDNAT NH_NONE NT_SYMMETRIC
     ((new_PeerConnectStateBox 0)\<lparr>mState := CSB_TCP_WAIT\<rparr>) =
   (CSB_ACTION_PROXY_CONN OR CSB_ACTION_PROXY_PORT,
    (new_PeerConnectStateBox 0)\<lparr>mState := CSB_TCP_WAIT, mNetState := CSB_NETSTATE_FIREWALLED,
      mState := CSB_PROXY_ATTEMPT, mStateTS := 70, mNoAttempts := 0, mNoFailedAttempts := 0\<rparr>)"
  by (rule csb_firewalled_tries_proxy)
    (simp_all add: new_PeerConnectStateBox_def convertNetStateToInternal_def)

text \<open>Error feedback during an attempt: a denied authentication goes to FAILED\_WAIT for the full
  period and reports success with an attempt length of zero, because the time of the state is
  overwritten before the length is computed; an unavailable mode in a direct or relayed attempt
  goes to FAILED\_WAIT too, but is reported as an error (0) even in the direct attempt the code
  means to accept, because the state is overwritten before it is tested.\<close>

theorem csb_fatal_feedback:
  assumes "csb_attempting b"
  shows "updateCb now rnd CSB_UPDATE_AUTH_DENIED b =
       (1, b\<lparr>mState := CSB_FAILED_WAIT, mStateTS := now, mAttemptLength := 0,
             mNextAttemptTS := now + FAILED_WAIT_TIME\<rparr>) \<and>
     (mState b \<noteq> CSB_PROXY_ATTEMPT \<longrightarrow> updateCb now rnd CSB_UPDATE_MODE_UNAVAILABLE b =
       (0, b\<lparr>mAttemptLength := now - mStateTS b, mState := CSB_FAILED_WAIT, mStateTS := now,
             mNextAttemptTS := now + FAILED_WAIT_TIME\<rparr>))"
  using assms by (auto simp: csb_attempting_def updateCb_def updateCb_attempt_def)

theorem csb_fatal_feedback_witness:
  "updateCb 90 0 CSB_UPDATE_MODE_UNAVAILABLE
     ((new_PeerConnectStateBox 0)\<lparr>mState := CSB_DIRECT_ATTEMPT\<rparr>) =
   (0, (new_PeerConnectStateBox 0)\<lparr>mState := CSB_DIRECT_ATTEMPT, mAttemptLength := 90,
         mState := CSB_FAILED_WAIT, mStateTS := 90, mNextAttemptTS := 1890\<rparr>)"
proof -
  have a: "csb_attempting ((new_PeerConnectStateBox 0)\<lparr>mState := CSB_DIRECT_ATTEMPT\<rparr>)"
    by (simp add: csb_attempting_def)
  from csb_fatal_feedback [OF this, of 90 0] show ?thesis
    by (simp add: new_PeerConnectStateBox_def)
qed

end
