(* ===== verification/Raw_Serial.thy ===== *)
theory Raw_Serial
  imports RS_Prelude
begin

text \<open>
  \<^verbatim>\<open>serialiser/rsbaseserial.cc\<close>: the raw packing routines every serialiser is built on. A getter
  returns \<open>None\<close> when it would read outside the block, otherwise the value left in \<^verbatim>\<open>*offset\<close> and the
  value stored (\<open>None\<close> when the C++ function returns \<^verbatim>\<open>false\<close>). A setter returns \<open>None\<close> when it would
  write outside the block, otherwise its result, the block and \<^verbatim>\<open>*offset\<close>. Offsets and sizes are
  32-bit words and wrap as in the code.

  The contracts shared by all codecs of the development are the locales \<open>codec\<close> (what is put is
  what is got back, and nothing else is touched), \<open>bounded_codec\<close> (too little space is refused) and
  \<open>safe_reader\<close> (no input makes the reader leave the block).
\<close>

subsection \<open>Integers\<close>

definition getRawUInt8 :: "buf \<Rightarrow> u32 \<Rightarrow> u32 \<Rightarrow> (u32 \<times> u8 option) option" where
  "getRawUInt8 data sz off =
     (if sz < off + 1 then Some (off, None)
      else case peek data (unat off) 1 of
          None \<Rightarrow> None
        | Some xs \<Rightarrow> Some (off + 1, Some (hd xs)))"

definition setRawUInt8 :: "buf \<Rightarrow> u32 \<Rightarrow> u32 \<Rightarrow> u8 \<Rightarrow> (bool \<times> buf \<times> u32) option" where
  "setRawUInt8 data sz off v =
     (if sz < off + 1 then Some (False, data, off)
      else case poke data (unat off) [v] of
          None \<Rightarrow> None
        | Some data' \<Rightarrow> Some (True, data', off + 1))"

definition getRawUInt16 :: "buf \<Rightarrow> u32 \<Rightarrow> u32 \<Rightarrow> (u32 \<times> u16 option) option" where
  "getRawUInt16 data sz off =
     (if sz < off + 2 then Some (off, None)
      else case peek data (unat off) 2 of
          None \<Rightarrow> None
        | Some xs \<Rightarrow> Some (off + 2, Some (of_be16 xs)))"

definition setRawUInt16 :: "buf \<Rightarrow> u32 \<Rightarrow> u32 \<Rightarrow> u16 \<Rightarrow> (bool \<times> buf \<times> u32) option" where
  "setRawUInt16 data sz off v =
     (if sz < off + 2 then Some (False, data, off)
      else case poke data (unat off) (be16 v) of
          None \<Rightarrow> None
        | Some data' \<Rightarrow> Some (True, data', off + 2))"

definition getRawUInt32 :: "buf \<Rightarrow> u32 \<Rightarrow> u32 \<Rightarrow> (u32 \<times> u32 option) option" where
  "getRawUInt32 data sz off =
     (if sz < off + 4 then Some (off, None)
      else case peek data (unat off) 4 of
          None \<Rightarrow> None
        | Some xs \<Rightarrow> Some (off + 4, Some (of_be32 xs)))"

definition setRawUInt32 :: "buf \<Rightarrow> u32 \<Rightarrow> u32 \<Rightarrow> u32 \<Rightarrow> (bool \<times> buf \<times> u32) option" where
  "setRawUInt32 data sz off v =
     (if sz < off + 4 then Some (False, data, off)
      else case poke data (unat off) (be32 v) of
          None \<Rightarrow> None
        | Some data' \<Rightarrow> Some (True, data', off + 4))"

definition getRawUInt64 :: "buf \<Rightarrow> u32 \<Rightarrow> u32 \<Rightarrow> (u32 \<times> u64 option) option" where
  "getRawUInt64 data sz off =
     (if sz < off + 8 then Some (off, None)
      else case peek data (unat off) 8 of
          None \<Rightarrow> None
        | Some xs \<Rightarrow> Some (off + 8, Some (of_be64 xs)))"

definition setRawUInt64 :: "buf \<Rightarrow> u32 \<Rightarrow> u32 \<Rightarrow> u64 \<Rightarrow> (bool \<times> buf \<times> u32) option" where
  "setRawUInt64 data sz off v =
     (if sz < off + 8 then Some (False, data, off)
      else case poke data (unat off) (be64 v) of
          None \<Rightarrow> None
        | Some data' \<Rightarrow> Some (True, data', off + 8))"

subsection \<open>Strings and times\<close>

text \<open>A \<^verbatim>\<open>std::string\<close> is a list of bytes. On a failure after the length was read, \<^verbatim>\<open>*offset\<close> has already
  moved past the length. The two subtractions below are those of the code, on 32-bit words.\<close>

definition getRawStringSize :: "bytes \<Rightarrow> u32" where
  "getRawStringSize s = word_of_nat (length s) + 4"

definition getRawString :: "buf \<Rightarrow> u32 \<Rightarrow> u32 \<Rightarrow> (u32 \<times> bytes option) option" where
  "getRawString data sz off =
     (case getRawUInt32 data sz off of
        None \<Rightarrow> None
      | Some (off1, None) \<Rightarrow> Some (off1, None)
      | Some (off1, Some len) \<Rightarrow>
          if len > sz \<or> sz - len < off1 then Some (off1, None)
          else case peek data (unat off1) (unat len) of
              None \<Rightarrow> None
            | Some xs \<Rightarrow> Some (off1 + len, Some xs))"

definition setRawString :: "buf \<Rightarrow> u32 \<Rightarrow> u32 \<Rightarrow> bytes \<Rightarrow> (bool \<times> buf \<times> u32) option" where
  "setRawString data sz off s =
     (let len = word_of_nat (length s) :: u32 in
      if sz < 4 \<or> len > sz - 4 \<or> sz - len - 4 < off then Some (False, data, off)
      else case setRawUInt32 data sz off len of
          None \<Rightarrow> None
        | Some (False, data1, off1) \<Rightarrow> Some (False, data1, off1)
        | Some (True, data1, off1) \<Rightarrow>
            (case poke data1 (unat off1) (take (unat len) s) of
               None \<Rightarrow> None
             | Some data2 \<Rightarrow> Some (True, data2, off1 + len)))"

text \<open>\<^verbatim>\<open>getRawTimeT\<close> also assigns its (uninitialised) local to the output when the read fails; the
  model has no value there.\<close>

definition getRawTimeT :: "buf \<Rightarrow> u32 \<Rightarrow> u32 \<Rightarrow> (u32 \<times> rstime_t option) option" where
  "getRawTimeT data sz off =
     (case getRawUInt64 data sz off of
        None \<Rightarrow> None
      | Some (off1, v) \<Rightarrow> Some (off1, map_option sint v))"

definition setRawTimeT :: "buf \<Rightarrow> u32 \<Rightarrow> u32 \<Rightarrow> rstime_t \<Rightarrow> (bool \<times> buf \<times> u32) option" where
  "setRawTimeT data sz off t = setRawUInt64 data sz off (word_of_int t)"

subsection \<open>Codec contracts\<close>

text \<open>There is room for \<open>n\<close> bytes at the offset in the part of the block the caller gives.\<close>

definition fits :: "bytes \<Rightarrow> u32 \<Rightarrow> u32 \<Rightarrow> nat \<Rightarrow> bool" where
  "fits d sz off n = (unat off + n \<le> unat sz \<and> unat sz \<le> length d)"

text \<open>Running two puts, or two gets, one after the other, as the code does with \<^verbatim>\<open>ok &= ...\<close>: the
  second runs even when the first has failed.\<close>

definition put_seq ::
    "(buf \<Rightarrow> u32 \<Rightarrow> u32 \<Rightarrow> 'a \<Rightarrow> (bool \<times> buf \<times> u32) option) \<Rightarrow>
     (buf \<Rightarrow> u32 \<Rightarrow> u32 \<Rightarrow> 'b \<Rightarrow> (bool \<times> buf \<times> u32) option) \<Rightarrow>
     buf \<Rightarrow> u32 \<Rightarrow> u32 \<Rightarrow> 'a \<times> 'b \<Rightarrow> (bool \<times> buf \<times> u32) option" where
  "put_seq p q data sz off v =
     (case p data sz off (fst v) of
        None \<Rightarrow> None
      | Some (ok1, data1, off1) \<Rightarrow>
          (case q data1 sz off1 (snd v) of
             None \<Rightarrow> None
           | Some (ok2, data2, off2) \<Rightarrow> Some (ok1 \<and> ok2, data2, off2)))"

definition pair_opt :: "'a option \<Rightarrow> 'b option \<Rightarrow> ('a \<times> 'b) option" where
  "pair_opt a b =
     (case a of None \<Rightarrow> None | Some x \<Rightarrow> (case b of None \<Rightarrow> None | Some y \<Rightarrow> Some (x, y)))"

definition get_seq ::
    "(buf \<Rightarrow> u32 \<Rightarrow> u32 \<Rightarrow> (u32 \<times> 'a option) option) \<Rightarrow>
     (buf \<Rightarrow> u32 \<Rightarrow> u32 \<Rightarrow> (u32 \<times> 'b option) option) \<Rightarrow>
     buf \<Rightarrow> u32 \<Rightarrow> u32 \<Rightarrow> (u32 \<times> ('a \<times> 'b) option) option" where
  "get_seq g h data sz off =
     (case g data sz off of
        None \<Rightarrow> None
      | Some (off1, a) \<Rightarrow>
          (case h data sz off1 of
             None \<Rightarrow> None
           | Some (off2, b) \<Rightarrow> Some (off2, pair_opt a b)))"

lemma pair_opt_Some [simp]: "pair_opt (Some a) (Some b) = Some (a, b)"
  by (simp add: pair_opt_def)

lemma fits_u32: "fits d sz off n \<Longrightarrow> unat (off + word_of_nat n) = unat off + n"
  using unat_u32_less [of sz] by (simp add: fits_def unat_add_nat_u32)

lemma fits_append: "fits d sz off (m + n) \<longleftrightarrow> fits d sz off m \<and> fits d sz (off + word_of_nat m) n"
  if "fits d sz off m"
  using that fits_u32 [OF that] by (auto simp: fits_def)

lemma fits_weaken: "fits d sz off n \<Longrightarrow> m \<le> n \<Longrightarrow> fits d sz off m"
  by (simp add: fits_def)

lemma fits_length: "fits d sz off n \<Longrightarrow> unat off + n \<le> length d"
  by (simp add: fits_def)

lemma fits_overwrite [simp]:
  "unat o' + length xs \<le> length d \<Longrightarrow> fits (overwrite d (unat o') xs) sz off n = fits d sz off n"
  by (simp add: fits_def)

lemma fits_no_wrap:
  assumes "fits d sz off (unat k)"
  shows "\<not> sz < off + k"
proof -
  have "unat off + unat k < 4294967296"
    using assms unat_u32_less [of sz] by (simp add: fits_def)
  then show ?thesis using assms by (simp add: fits_def word_less_nat_alt unat_add_u32_id)
qed

locale codec =
  fixes put :: "buf \<Rightarrow> u32 \<Rightarrow> u32 \<Rightarrow> 'a \<Rightarrow> (bool \<times> buf \<times> u32) option"
    and get :: "buf \<Rightarrow> u32 \<Rightarrow> u32 \<Rightarrow> (u32 \<times> 'a option) option"
    and enc :: "'a \<Rightarrow> bytes"
    and wf :: "'a \<Rightarrow> bool"
  assumes put_fits:
    "wf v \<Longrightarrow> fits d sz off (length (enc v)) \<Longrightarrow>
     put (Some d) sz off v =
       Some (True, Some (overwrite d (unat off) (enc v)), off + word_of_nat (length (enc v)))"
    and get_enc:
    "wf v \<Longrightarrow> fits d sz off (length (enc v)) \<Longrightarrow>
     take (length (enc v)) (drop (unat off) d) = enc v \<Longrightarrow>
     get (Some d) sz off = Some (off + word_of_nat (length (enc v)), Some v)"
begin

lemma round_trip:
  assumes "wf v" "fits d sz off (length (enc v))"
  shows "\<exists>d'. put (Some d) sz off v =
            Some (True, Some d', off + word_of_nat (length (enc v))) \<and>
          get (Some d') sz off = Some (off + word_of_nat (length (enc v)), Some v)"
proof -
  have l: "unat off + length (enc v) \<le> length d" using assms(2) by (rule fits_length)
  have "get (Some (overwrite d (unat off) (enc v))) sz off =
      Some (off + word_of_nat (length (enc v)), Some v)"
    using assms l by (intro get_enc) simp_all
  then show ?thesis using put_fits [OF assms] by blast
qed

lemma put_frame:
  assumes "wf v" "fits d sz off (length (enc v))"
    and "put (Some d) sz off v = Some (ok, Some d', off')"
  shows "length d' = length d \<and> take (unat off) d' = take (unat off) d \<and>
         drop (unat off') d' = drop (unat off') d"
  using assms put_fits [OF assms(1,2)] fits_u32 [OF assms(2)] fits_length [OF assms(2)]
  by auto

end

locale bounded_codec = codec +
  assumes put_refuses:
    "wf v \<Longrightarrow> unat sz < unat off + length (enc v) \<Longrightarrow>
     unat off + length (enc v) < 4294967296 \<Longrightarrow>
     put (Some d) sz off v = Some (False, Some d, off)"
begin

text \<open>With a truthful size and no wrap-around a put never leaves the block.\<close>

lemma put_in_block:
  assumes "wf v" "unat sz \<le> length d" "unat off + length (enc v) < 4294967296"
  shows "\<exists>ok d' off'. put (Some d) sz off v = Some (ok, Some d', off') \<and> length d' = length d \<and>
           (ok \<longleftrightarrow> unat off + length (enc v) \<le> unat sz)"
proof (cases "unat off + length (enc v) \<le> unat sz")
  case True
  with assms(2) have f: "fits d sz off (length (enc v))" by (simp add: fits_def)
  then show ?thesis using True put_fits [OF assms(1) f] fits_length [OF f] by auto
next
  case False
  then show ?thesis using put_refuses [OF assms(1) _ assms(3), of sz d] by auto
qed

end

text \<open>Two codecs in a row are a codec for pairs.\<close>

locale codec_pair = fst: codec put1 get1 enc1 wf1 + snd: codec put2 get2 enc2 wf2
  for put1 :: "buf \<Rightarrow> u32 \<Rightarrow> u32 \<Rightarrow> 'a \<Rightarrow> (bool \<times> buf \<times> u32) option"
    and get1 enc1 wf1
    and put2 :: "buf \<Rightarrow> u32 \<Rightarrow> u32 \<Rightarrow> 'b \<Rightarrow> (bool \<times> buf \<times> u32) option"
    and get2 enc2 wf2
begin

lemma put_seq_fits:
  assumes wf: "wf1 (fst v)" "wf2 (snd v)"
    and f: "fits d sz off (length (enc1 (fst v) @ enc2 (snd v)))"
  shows "put_seq put1 put2 (Some d) sz off v =
     Some (True, Some (overwrite d (unat off) (enc1 (fst v) @ enc2 (snd v))),
           off + word_of_nat (length (enc1 (fst v) @ enc2 (snd v))))"
proof -
  let ?m = "length (enc1 (fst v))" and ?n = "length (enc2 (snd v))"
  have f1: "fits d sz off ?m" using f by (rule fits_weaken) simp
  have l1: "unat off + ?m \<le> length d" using f1 by (rule fits_length)
  have f2: "fits d sz (off + word_of_nat ?m) ?n"
    using fits_append [OF f1, of ?n] f by simp
  have u: "unat (off + word_of_nat ?m) = unat off + ?m" using f1 by (rule fits_u32)
  have l2: "unat off + ?m + ?n \<le> length d" using f by (simp add: fits_def)
  show ?thesis
    using fst.put_fits [OF wf(1) f1]
      snd.put_fits [OF wf(2), of "overwrite d (unat off) (enc1 (fst v))" sz "off + word_of_nat ?m"]
      f2 l1 l2
    by (simp add: put_seq_def u overwrite_overwrite_adjacent add.assoc)
qed

lemma get_seq_enc:
  assumes wf: "wf1 (fst v)" "wf2 (snd v)"
    and f: "fits d sz off (length (enc1 (fst v) @ enc2 (snd v)))"
    and t: "take (length (enc1 (fst v) @ enc2 (snd v))) (drop (unat off) d) =
            enc1 (fst v) @ enc2 (snd v)"
  shows "get_seq get1 get2 (Some d) sz off =
     Some (off + word_of_nat (length (enc1 (fst v) @ enc2 (snd v))), Some v)"
proof -
  let ?m = "length (enc1 (fst v))" and ?n = "length (enc2 (snd v))"
  have f1: "fits d sz off ?m" using f by (rule fits_weaken) simp
  have f2: "fits d sz (off + word_of_nat ?m) ?n"
    using fits_append [OF f1, of ?n] f by simp
  have u: "unat (off + word_of_nat ?m) = unat off + ?m" using f1 by (rule fits_u32)
  have "take ?m (drop (unat off) d) @ take ?n (drop (unat off + ?m) d) =
        enc1 (fst v) @ enc2 (snd v)"
    using t by (simp add: take_drop_split [of ?m ?n])
  moreover have "length (take ?m (drop (unat off) d)) = ?m"
    using fits_length [OF f1] by simp
  ultimately have t1: "take ?m (drop (unat off) d) = enc1 (fst v)"
    and t2: "take ?n (drop (unat off + ?m) d) = enc2 (snd v)"
    using append_eq_append_conv by blast+
  show ?thesis
    using fst.get_enc [OF wf(1) f1 t1] snd.get_enc [OF wf(2) f2] t2
    by (simp add: get_seq_def u add.assoc)
qed

sublocale pair: codec "put_seq put1 put2" "get_seq get1 get2"
    "\<lambda>v. enc1 (fst v) @ enc2 (snd v)" "\<lambda>v. wf1 (fst v) \<and> wf2 (snd v)"
  by unfold_locales (simp_all add: put_seq_fits get_seq_enc del: length_append)

end

text \<open>A reader that no input drives out of the block: the sizes the code handles are far below the
  wrap-around of its offsets, which is the bound assumed here.\<close>

definition max_block :: nat where "max_block = 4294967040"

locale safe_reader =
  fixes get :: "buf \<Rightarrow> u32 \<Rightarrow> u32 \<Rightarrow> (u32 \<times> 'a option) option"
  assumes get_in_block:
    "unat sz \<le> length d \<Longrightarrow> unat sz \<le> max_block \<Longrightarrow> unat off \<le> max_block \<Longrightarrow>
     \<exists>off' r. get (Some d) sz off = Some (off', r) \<and> unat off \<le> unat off' \<and>
              unat off' \<le> max (unat off) (unat sz)"

locale safe_reader_pair = fst: safe_reader get1 + snd: safe_reader get2
  for get1 :: "buf \<Rightarrow> u32 \<Rightarrow> u32 \<Rightarrow> (u32 \<times> 'a option) option"
    and get2 :: "buf \<Rightarrow> u32 \<Rightarrow> u32 \<Rightarrow> (u32 \<times> 'b option) option"
begin

sublocale pair: safe_reader "get_seq get1 get2"
proof unfold_locales
  fix sz :: u32 and d :: bytes and off :: u32
  assume a: "unat sz \<le> length d" "unat sz \<le> max_block" "unat off \<le> max_block"
  from fst.get_in_block [OF a] obtain off1 r1 where
    1: "get1 (Some d) sz off = Some (off1, r1)" "unat off \<le> unat off1"
       "unat off1 \<le> max (unat off) (unat sz)"
    by blast
  from 1(3) a(2,3) have "unat off1 \<le> max_block" by simp
  from snd.get_in_block [OF a(1,2) this] obtain off2 r2 where
    2: "get2 (Some d) sz off1 = Some (off2, r2)" "unat off1 \<le> unat off2"
       "unat off2 \<le> max (unat off1) (unat sz)"
    by blast
  show "\<exists>off' r. get_seq get1 get2 (Some d) sz off = Some (off', r) \<and> unat off \<le> unat off' \<and>
          unat off' \<le> max (unat off) (unat sz)"
    using 1 2 by (auto simp: get_seq_def)
qed

end

subsection \<open>The raw routines meet the contracts\<close>

lemmas raw_int_defs =
  getRawUInt8_def setRawUInt8_def getRawUInt16_def setRawUInt16_def
  getRawUInt32_def setRawUInt32_def getRawUInt64_def setRawUInt64_def

lemma short_no_wrap:
  fixes sz off k :: u32
  assumes "unat sz < unat off + unat k" "unat off + unat k < 4294967296"
  shows "sz < off + k"
  using assms by (simp add: word_less_nat_alt unat_add_u32_id)

lemma not_short:
  fixes sz off k :: u32
  assumes "\<not> sz < off + k" "unat off + unat k < 4294967296"
  shows "unat off + unat k \<le> unat sz \<and> unat (off + k) = unat off + unat k"
  using assms by (simp add: word_less_nat_alt unat_add_u32_id)

text \<open>The eight integer routines have one shape; so has the proof of their contracts.\<close>

lemma fixed_width_codecI:
  fixes k :: u32
  assumes put: "\<And>data sz off v. put data sz off v =
      (if sz < off + k then Some (False, data, off)
       else case poke data (unat off) (enc v) of
           None \<Rightarrow> None | Some data' \<Rightarrow> Some (True, data', off + k))"
    and get: "\<And>data sz off. get data sz off =
      (if sz < off + k then Some (off, None)
       else case peek data (unat off) (unat k) of
           None \<Rightarrow> None | Some xs \<Rightarrow> Some (off + k, Some (dec xs)))"
    and len: "\<And>v. length (enc v) = unat k"
    and dec: "\<And>v. dec (enc v) = v"
  shows "bounded_codec put get enc (\<lambda>_. True)"
proof unfold_locales
  fix v d and sz off :: u32
  assume f: "fits d sz off (length (enc v))"
  then have nw: "\<not> sz < off + k" and l: "unat off + unat k \<le> length d"
    using fits_no_wrap [of d sz off k] fits_length [OF f] by (simp_all add: len)
  then show "put (Some d) sz off v =
      Some (True, Some (overwrite d (unat off) (enc v)), off + word_of_nat (length (enc v)))"
    by (simp add: put len)
  assume "take (length (enc v)) (drop (unat off) d) = enc v"
  then show "get (Some d) sz off = Some (off + word_of_nat (length (enc v)), Some v)"
    using nw l by (simp add: get len dec)
next
  fix v d and sz off :: u32
  assume "unat sz < unat off + length (enc v)" "unat off + length (enc v) < 4294967296"
  then show "put (Some d) sz off v = Some (False, Some d, off)"
    using short_no_wrap [of sz off k] by (simp add: put len)
qed

lemma fixed_width_safeI:
  fixes k :: u32
  assumes get: "\<And>data sz off. get data sz off =
      (if sz < off + k then Some (off, None)
       else case peek data (unat off) (unat k) of
           None \<Rightarrow> None | Some xs \<Rightarrow> Some (off + k, Some (dec xs)))"
    and k: "unat k < 256"
  shows "safe_reader get"
proof unfold_locales
  fix sz off :: u32 and d :: bytes
  assume a: "unat sz \<le> length d" "unat sz \<le> max_block" "unat off \<le> max_block"
  show "\<exists>off' r. get (Some d) sz off = Some (off', r) \<and> unat off \<le> unat off' \<and>
          unat off' \<le> max (unat off) (unat sz)"
  proof (cases "sz < off + k")
    case True
    then show ?thesis by (simp add: get)
  next
    case False
    have "unat off + unat k \<le> unat sz \<and> unat (off + k) = unat off + unat k"
      using not_short [OF False] a(3) k by (simp add: max_block_def)
    then show ?thesis using False a by (simp add: get)
  qed
qed

interpretation raw8: bounded_codec setRawUInt8 getRawUInt8 "\<lambda>v. [v]" "\<lambda>_. True"
  by (rule fixed_width_codecI [where k = 1 and dec = hd])
    (simp_all add: setRawUInt8_def getRawUInt8_def)

interpretation raw16: bounded_codec setRawUInt16 getRawUInt16 be16 "\<lambda>_. True"
  by (rule fixed_width_codecI [where k = 2 and dec = of_be16])
    (simp_all add: setRawUInt16_def getRawUInt16_def)

interpretation raw32: bounded_codec setRawUInt32 getRawUInt32 be32 "\<lambda>_. True"
  by (rule fixed_width_codecI [where k = 4 and dec = of_be32])
    (simp_all add: setRawUInt32_def getRawUInt32_def)

interpretation raw64: bounded_codec setRawUInt64 getRawUInt64 be64 "\<lambda>_. True"
  by (rule fixed_width_codecI [where k = 8 and dec = of_be64])
    (simp_all add: setRawUInt64_def getRawUInt64_def)

interpretation read8: safe_reader getRawUInt8
  by (rule fixed_width_safeI [where k = 1 and dec = hd]) (simp_all add: getRawUInt8_def)

interpretation read16: safe_reader getRawUInt16
  by (rule fixed_width_safeI [where k = 2 and dec = of_be16]) (simp_all add: getRawUInt16_def)

interpretation read32: safe_reader getRawUInt32
  by (rule fixed_width_safeI [where k = 4 and dec = of_be32]) (simp_all add: getRawUInt32_def)

interpretation read64: safe_reader getRawUInt64
  by (rule fixed_width_safeI [where k = 8 and dec = of_be64]) (simp_all add: getRawUInt64_def)

definition enc_time :: "rstime_t \<Rightarrow> bytes" where
  "enc_time t = be64 (word_of_int t)"

definition wf_time :: "rstime_t \<Rightarrow> bool" where
  "wf_time t = (- (2 ^ 63) \<le> t \<and> t < 2 ^ 63)"

lemma sint_word_of_int_time: "wf_time t \<Longrightarrow> sint (word_of_int t :: u64) = t"
  by (simp add: wf_time_def sint_sbintrunc' signed_take_bit_int_eq_self)

interpretation rawtime: bounded_codec setRawTimeT getRawTimeT enc_time wf_time
proof unfold_locales
  fix v d and sz off :: u32
  assume w: "wf_time v" and f: "fits d sz off (length (enc_time v))"
  then show "setRawTimeT (Some d) sz off v =
      Some (True, Some (overwrite d (unat off) (enc_time v)), off + word_of_nat (length (enc_time v)))"
    using raw64.put_fits [of d sz off "word_of_int v"] by (simp add: setRawTimeT_def enc_time_def)
  assume "take (length (enc_time v)) (drop (unat off) d) = enc_time v"
  then show "getRawTimeT (Some d) sz off = Some (off + word_of_nat (length (enc_time v)), Some v)"
    using f raw64.get_enc [of d sz off "word_of_int v"] sint_word_of_int_time [OF w]
    by (simp add: getRawTimeT_def enc_time_def)
next
  fix v d and sz off :: u32
  assume "unat sz < unat off + length (enc_time v)" "unat off + length (enc_time v) < 4294967296"
  then show "setRawTimeT (Some d) sz off v = Some (False, Some d, off)"
    using raw64.put_refuses [of sz off "word_of_int v" d] by (simp add: setRawTimeT_def enc_time_def)
qed

interpretation readtime: safe_reader getRawTimeT
proof unfold_locales
  fix sz off :: u32 and d :: bytes
  assume a: "unat sz \<le> length d" "unat sz \<le> max_block" "unat off \<le> max_block"
  from read64.get_in_block [OF a]
  show "\<exists>off' r. getRawTimeT (Some d) sz off = Some (off', r) \<and> unat off \<le> unat off' \<and>
          unat off' \<le> max (unat off) (unat sz)"
    by (auto simp: getRawTimeT_def)
qed

definition enc_string :: "bytes \<Rightarrow> bytes" where
  "enc_string s = be32 (word_of_nat (length s)) @ s"

lemma length_enc_string [simp]: "length (enc_string s) = 4 + length s"
  by (simp add: enc_string_def)

lemma setRawString_guard:
  fixes sz off :: u32
  assumes "unat off + (4 + length s) < 4294967296"
  shows "(sz < 4 \<or> word_of_nat (length s) > sz - 4 \<or> sz - word_of_nat (length s) - 4 < off) \<longleftrightarrow>
         unat sz < unat off + (4 + length s)"
proof -
  have l: "unat (word_of_nat (length s) :: u32) = length s"
    using assms by (intro word_of_nat_less_u32) simp
  have s4: "unat (sz - 4) = unat sz - 4" if "\<not> sz < 4"
    using that by (simp add: unat_sub not_less word_le_nat_alt)
  have sl: "unat (sz - word_of_nat (length s) - 4) = unat sz - length s - 4"
    if "\<not> sz < 4" "\<not> word_of_nat (length s) > sz - 4"
  proof -
    have "4 \<le> unat sz" using that(1) by (simp add: not_less word_le_nat_alt)
    moreover have "length s \<le> unat sz - 4"
      using that(2) s4 [OF that(1)] l by (simp add: not_less word_le_nat_alt)
    ultimately show ?thesis using l by (simp add: unat_sub word_le_nat_alt)
  qed
  show ?thesis
  proof (cases "sz < 4")
    case True
    then show ?thesis by (simp add: word_less_nat_alt)
  next
    case F: False
    show ?thesis
    proof (cases "word_of_nat (length s) > sz - 4")
      case True
      then show ?thesis using F s4 [OF F] l by (simp add: word_less_nat_alt)
    next
      case False
      then show ?thesis
        using F s4 [OF F] sl [OF F False] l by (simp add: word_less_nat_alt not_less word_le_nat_alt) arith
    qed
  qed
qed

lemma getRawString_guard:
  fixes sz off len :: u32
  assumes "unat off \<le> unat sz"
  shows "(len > sz \<or> sz - len < off) \<longleftrightarrow> unat sz < unat off + unat len"
proof (cases "len > sz")
  case True
  then show ?thesis by (simp add: word_less_nat_alt)
next
  case False
  then have "unat (sz - len) = unat sz - unat len" by (simp add: unat_sub not_less)
  then show ?thesis using False by (simp add: word_less_nat_alt) arith
qed

interpretation rawstr: bounded_codec setRawString getRawString enc_string "\<lambda>_. True"
proof unfold_locales
  fix s d and sz off :: u32
  assume f: "fits d sz off (length (enc_string s))"
  have f4: "fits d sz off (length (be32 (word_of_nat (length s))))" using f by (rule fits_weaken) simp
  have u: "unat (off + 4) = unat off + 4" using fits_u32 [OF f4] by simp
  have small: "unat off + (4 + length s) < 4294967296"
    using f unat_u32_less [of sz] by (simp add: fits_def)
  then have ul: "unat (word_of_nat (length s) :: u32) = length s" by (intro word_of_nat_less_u32) simp
  have l: "unat off + 4 + length s \<le> length d" using f by (simp add: fits_def)
  show "setRawString (Some d) sz off s =
     Some (True, Some (overwrite d (unat off) (enc_string s)), off + word_of_nat (length (enc_string s)))"
    using setRawString_guard [OF small, of sz] f raw32.put_fits [OF TrueI f4] l
    by (simp add: setRawString_def fits_def u ul overwrite_overwrite_adjacent [of "unat off" "be32 (word_of_nat (length s))", simplified]
        enc_string_def Let_def add.assoc)
  assume t: "take (length (enc_string s)) (drop (unat off) d) = enc_string s"
  then have "take 4 (drop (unat off) d) @ take (length s) (drop (unat off + 4) d) =
       be32 (word_of_nat (length s)) @ s"
    by (simp add: take_drop_split enc_string_def)
  moreover have "length (take 4 (drop (unat off) d)) = 4" using l by simp
  ultimately have t1: "take 4 (drop (unat off) d) = be32 (word_of_nat (length s))"
    and t2: "take (length s) (drop (unat off + 4) d) = s"
    using append_eq_append_conv length_be(2) by metis+
  have g: "getRawUInt32 (Some d) sz off = Some (off + 4, Some (word_of_nat (length s)))"
    using raw32.get_enc [OF TrueI f4] t1 by simp
  show "getRawString (Some d) sz off = Some (off + word_of_nat (length (enc_string s)), Some s)"
    using g getRawString_guard [of "off + 4" sz "word_of_nat (length s)"] f t2 l
    by (simp add: getRawString_def u ul fits_def add.assoc)
next
  fix s d and sz off :: u32
  assume "unat sz < unat off + length (enc_string s)" "unat off + length (enc_string s) < 4294967296"
  then show "setRawString (Some d) sz off s = Some (False, Some d, off)"
    using setRawString_guard [of off s sz] by (simp add: setRawString_def Let_def)
qed

lemma getRawUInt32_success:
  assumes "getRawUInt32 (Some d) sz off = Some (off1, Some n)" "unat off \<le> max_block"
  shows "unat off1 = unat off + 4 \<and> unat off1 \<le> unat sz"
proof -
  have ns: "\<not> sz < off + 4" and "off1 = off + 4"
    using assms(1) by (auto simp: getRawUInt32_def split: if_splits option.splits)
  then show ?thesis using not_short [OF ns] assms(2) by (simp add: max_block_def)
qed

interpretation readstr: safe_reader getRawString
proof unfold_locales
  fix sz off :: u32 and d :: bytes
  assume a: "unat sz \<le> length d" "unat sz \<le> max_block" "unat off \<le> max_block"
  from read32.get_in_block [OF a] obtain off1 r where
    r: "getRawUInt32 (Some d) sz off = Some (off1, r)" "unat off \<le> unat off1"
       "unat off1 \<le> max (unat off) (unat sz)"
    by blast
  show "\<exists>off' r. getRawString (Some d) sz off = Some (off', r) \<and> unat off \<le> unat off' \<and>
          unat off' \<le> max (unat off) (unat sz)"
  proof (cases r)
    case None
    then show ?thesis using r by (simp add: getRawString_def)
  next
    case (Some len)
    with r(1) a(3) have o1: "unat off1 \<le> unat sz" using getRawUInt32_success by blast
    show ?thesis
    proof (cases "unat sz < unat off1 + unat len")
      case True
      then show ?thesis using r Some getRawString_guard [OF o1, of len]
        by (simp add: getRawString_def)
    next
      case False
      then have "unat (off1 + len) = unat off1 + unat len"
        using unat_u32_less [of sz] by (intro unat_add_u32_id) simp
      then show ?thesis using r Some False a(1) getRawString_guard [OF o1, of len]
        by (simp add: getRawString_def)
    qed
  qed
qed

text \<open>The sequence of fields an item header and its first string make: an integer, a time and a
  string, one after the other.\<close>

interpretation raw_ts: codec_pair setRawTimeT getRawTimeT enc_time wf_time
    setRawString getRawString enc_string "\<lambda>_. True"
  by unfold_locales

interpretation raw_seq: codec_pair setRawUInt32 getRawUInt32 be32 "\<lambda>_. True"
    "put_seq setRawTimeT setRawString" "get_seq getRawTimeT getRawString"
    "\<lambda>v. enc_time (fst v) @ enc_string (snd v)" "\<lambda>v. wf_time (fst v) \<and> True"
  by unfold_locales

interpretation read_ts: safe_reader_pair getRawTimeT getRawString
  by unfold_locales

interpretation read_seq: safe_reader_pair getRawUInt32 "get_seq getRawTimeT getRawString"
  by unfold_locales

subsection \<open>Properties\<close>

text \<open>A string packed with setRawString is unpacked unchanged by getRawString, both move the
  offset by getRawStringSize, and the block outside the written bytes keeps its contents.\<close>

theorem raw_string_round_trip:
  assumes "fits d sz off (4 + length s)"
  shows "\<exists>d'. setRawString (Some d) sz off s = Some (True, Some d', off + getRawStringSize s) \<and>
          getRawString (Some d') sz off = Some (off + getRawStringSize s, Some s) \<and>
          length d' = length d \<and> take (unat off) d' = take (unat off) d \<and>
          drop (unat off + 4 + length s) d' = drop (unat off + 4 + length s) d"
proof -
  from assms have f: "fits d sz off (length (enc_string s))" by simp
  have e: "off + word_of_nat (length (enc_string s)) = off + getRawStringSize s"
    by (simp add: getRawStringSize_def add.commute)
  from rawstr.round_trip [OF TrueI f] obtain d' where
    1: "setRawString (Some d) sz off s = Some (True, Some d', off + getRawStringSize s)"
    and 2: "getRawString (Some d') sz off = Some (off + getRawStringSize s, Some s)"
    unfolding e by blast
  have "unat (off + getRawStringSize s) = unat off + 4 + length s"
    using fits_u32 [OF f] unfolding e by simp
  with 1 2 rawstr.put_frame [OF TrueI f 1] show ?thesis by auto
qed

theorem raw_string_round_trip_witness:
  "\<exists>d'. setRawString (Some (replicate 9 0)) 9 1 [65, 66] =
       Some (True, Some d', 1 + getRawStringSize [65, 66]) \<and>
     getRawString (Some d') 9 1 = Some (1 + getRawStringSize [65, 66], Some [65, 66]) \<and>
     length d' = length (replicate 9 (0 :: u8)) \<and>
     take (unat (1 :: u32)) d' = take (unat (1 :: u32)) (replicate 9 0) \<and>
     drop (unat (1 :: u32) + 4 + length [65, 66 :: u8]) d' =
       drop (unat (1 :: u32) + 4 + length [65, 66 :: u8]) (replicate 9 0)"
  by (rule raw_string_round_trip) (simp add: fits_def)

text \<open>A sequence of fields (an integer, a time, a string) written one after the other is read
  back field by field, with the same final offset.\<close>

theorem raw_fields_round_trip:
  assumes "wf_time t" "fits d sz off (16 + length s)"
  shows "\<exists>d' off'. put_seq setRawUInt32 (put_seq setRawTimeT setRawString) (Some d) sz off (n, t, s)
             = Some (True, Some d', off') \<and>
          get_seq getRawUInt32 (get_seq getRawTimeT getRawString) (Some d') sz off
             = Some (off', Some (n, t, s)) \<and>
          unat off' = unat off + 16 + length s"
proof -
  have l: "length (be32 n @ enc_time t @ enc_string s) = 16 + length s"
    by (simp add: enc_time_def)
  have f: "fits d sz off (length (be32 (fst (n, t, s)) @ enc_time (fst (snd (n, t, s))) @
      enc_string (snd (snd (n, t, s)))))"
    using assms(2) by (simp only: fst_conv snd_conv l)
  have "unat (off + word_of_nat (16 + length s)) = unat off + 16 + length s"
    using fits_u32 [OF assms(2)] by simp
  then show ?thesis
    using raw_seq.pair.round_trip [OF _ f] assms(1)
    by (simp only: fst_conv snd_conv l) auto
qed

theorem raw_fields_round_trip_witness:
  "\<exists>d' off'. put_seq setRawUInt32 (put_seq setRawTimeT setRawString) (Some (replicate 20 0)) 20 1
       (7, -3, [65]) = Some (True, Some d', off') \<and>
     get_seq getRawUInt32 (get_seq getRawTimeT getRawString) (Some d') 20 1
       = Some (off', Some (7, -3, [65])) \<and>
     unat off' = unat (1 :: u32) + 16 + length [65 :: u8]"
  by (rule raw_fields_round_trip) (simp_all add: fits_def wf_time_def)

text \<open>Whatever bytes a peer sent, reading an integer, a time and a string from a block no
  larger than \<open>max_block\<close> with a truthful size never reads outside it, and the offset ends
  between where it started and the size.\<close>

theorem raw_readers_stay_in_block:
  assumes "unat sz \<le> length d" "unat off \<le> unat sz" "unat sz \<le> max_block"
  shows "\<exists>off' r. get_seq getRawUInt32 (get_seq getRawTimeT getRawString) (Some d) sz off =
            Some (off', r) \<and> unat off \<le> unat off' \<and> unat off' \<le> unat sz"
  using read_seq.pair.get_in_block [of sz d off] assms by (simp add: max_absorb2)

theorem raw_readers_stay_in_block_witness:
  "\<exists>off' r. get_seq getRawUInt32 (get_seq getRawTimeT getRawString) (Some (replicate 14 255)) 14 0 =
            Some (off', r) \<and> unat (0 :: u32) \<le> unat off' \<and> unat off' \<le> unat (14 :: u32)"
  by (rule raw_readers_stay_in_block) (simp_all add: max_block_def)

text \<open>The guards \<^verbatim>\<open>size < *offset + k\<close> wrap: at an offset within the last bytes of the 32-bit
  range they accept, and the read leaves any block a 32-bit size can describe.\<close>

theorem raw_guard_wraps:
  assumes "length d \<le> unat (4294967295 :: u32)"
  shows "getRawUInt8 (Some d) sz 4294967295 = None \<and>
    (0 < sz \<longrightarrow> getRawUInt32 (Some d) sz 4294967293 = None)"
  using assms by (auto simp: getRawUInt8_def getRawUInt32_def word_less_nat_alt)

theorem raw_guard_wraps_witness:
  "getRawUInt8 (Some [1, 2, 3]) 3 4294967295 = None \<and>
    getRawUInt32 (Some [1, 2, 3]) 3 4294967293 = None"
  using raw_guard_wraps [of "[1, 2, 3]" 3] by simp

end
