(* ===== verification/Tlv_Base.thy ===== *)
theory Tlv_Base
  imports Raw_Serial "HOL-Library.Sublist"
begin

text \<open>
  \<^verbatim>\<open>serialiser/rstlvbase.cc\<close>: type-length-value items. Every item starts with a two-byte type and a
  four-byte length that counts the header. Buffers, faults and results are those of \<open>Raw_Serial\<close>;
  a null \<^verbatim>\<open>data\<close> pointer is \<open>None\<close>, the \<^verbatim>\<open>offset\<close> pointer is never null. \<^verbatim>\<open>GetTlvString\<close> also
  filters what it returns: strings that look like an XML bomb are blanked out and control
  characters of some types are replaced.
\<close>

abbreviation (input) TLV_HEADER_TYPE_SIZE :: u32 where "TLV_HEADER_TYPE_SIZE \<equiv> 2"
abbreviation (input) TLV_HEADER_LEN_SIZE :: u32 where "TLV_HEADER_LEN_SIZE \<equiv> 4"
abbreviation (input) TLV_HEADER_SIZE :: u32 where "TLV_HEADER_SIZE \<equiv> 6"
abbreviation (input) TLV_TYPE_STR_PEERID :: u16 where "TLV_TYPE_STR_PEERID \<equiv> 0x0050"
abbreviation (input) TLV_TYPE_STR_NAME :: u16 where "TLV_TYPE_STR_NAME \<equiv> 0x0051"
abbreviation (input) TLV_TYPE_STR_PATH :: u16 where "TLV_TYPE_STR_PATH \<equiv> 0x0052"
abbreviation (input) TLV_TYPE_STR_TITLE :: u16 where "TLV_TYPE_STR_TITLE \<equiv> 0x0056"
abbreviation (input) TLV_TYPE_STR_SUBJECT :: u16 where "TLV_TYPE_STR_SUBJECT \<equiv> 0x0058"
abbreviation (input) TLV_TYPE_STR_LOCATION :: u16 where "TLV_TYPE_STR_LOCATION \<equiv> 0x005c"
abbreviation (input) TLV_TYPE_STR_VERSION :: u16 where "TLV_TYPE_STR_VERSION \<equiv> 0x005f"

subsection \<open>Headers\<close>

text \<open>The argument \<open>at\<close> is the position of the pointer in the block.\<close>

definition GetTlvSize :: "buf \<Rightarrow> nat \<Rightarrow> u32 option" where
  "GetTlvSize data at =
     (if data = None then Some 0 else map_option of_be32 (peek data (at + 2) 4))"

definition GetTlvType :: "buf \<Rightarrow> nat \<Rightarrow> u16 option" where
  "GetTlvType data at =
     (if data = None then Some 0 else map_option of_be16 (peek data at 2))"

definition SetTlvBase :: "u16 \<Rightarrow> buf \<Rightarrow> u32 \<Rightarrow> u32 \<Rightarrow> u32 \<Rightarrow> (bool \<times> buf \<times> u32) option" where
  "SetTlvBase type data sz off len =
     (if data = None then Some (False, data, off)
      else if sz < off + TLV_HEADER_SIZE then Some (False, data, off)
      else case poke data (unat off) (be16 type) of
          None \<Rightarrow> None
        | Some data1 \<Rightarrow>
            (case poke data1 (unat off + 2) (be32 len) of
               None \<Rightarrow> None
             | Some data2 \<Rightarrow> Some (True, data2, off + TLV_HEADER_SIZE)))"

definition SetTlvType :: "buf \<Rightarrow> u32 \<Rightarrow> u16 \<Rightarrow> (bool \<times> buf) option" where
  "SetTlvType data sz type =
     (if data = None then Some (False, data)
      else if sz < TLV_HEADER_SIZE then Some (False, data)
      else map_option (Pair True) (poke data 0 (be16 type)))"

definition SetTlvSize :: "buf \<Rightarrow> u32 \<Rightarrow> u32 \<Rightarrow> (bool \<times> buf) option" where
  "SetTlvSize data sz len =
     (if data = None then Some (False, data)
      else if sz < TLV_HEADER_SIZE then Some (False, data)
      else map_option (Pair True) (poke data 2 (be32 len)))"

definition SkipUnknownTlv :: "buf \<Rightarrow> u32 \<Rightarrow> u32 \<Rightarrow> (u32 \<times> bool) option" where
  "SkipUnknownTlv data sz off =
     (if data = None then Some (off, False)
      else if sz < off + TLV_HEADER_SIZE then Some (off, False)
      else case GetTlvSize data (unat off) of
          None \<Rightarrow> None
        | Some tlvsize \<Rightarrow>
            (let tlvend = off + tlvsize in
             if sz < tlvend then Some (off, False) else Some (tlvend, True)))"

text \<open>The opening every getter but \<^verbatim>\<open>GetTlvString\<close> has: the header must fit, the item must end
  within the size, and the type must be the expected one. The result is the end of the item.\<close>

definition tlv_open :: "u16 \<Rightarrow> buf \<Rightarrow> u32 \<Rightarrow> u32 \<Rightarrow> u32 option option" where
  "tlv_open type data sz off =
     (if data = None then Some None
      else if sz < off + TLV_HEADER_SIZE then Some None
      else case GetTlvType data (unat off) of
          None \<Rightarrow> None
        | Some tlvtype \<Rightarrow>
            (case GetTlvSize data (unat off) of
               None \<Rightarrow> None
             | Some tlvsize \<Rightarrow>
                 (let tlvend = off + tlvsize in
                  if sz < tlvend then Some None
                  else if type \<noteq> tlvtype then Some None
                  else Some (Some tlvend))))"

text \<open>After the opening a getter steps past the header and reads its value up to the end of the
  item.\<close>

definition tlv_get :: "u16 \<Rightarrow> (buf \<Rightarrow> u32 \<Rightarrow> u32 \<Rightarrow> (u32 \<times> 'a option) option) \<Rightarrow>
    buf \<Rightarrow> u32 \<Rightarrow> u32 \<Rightarrow> (u32 \<times> 'a option) option" where
  "tlv_get type getv data sz off =
     (case tlv_open type data sz off of
        None \<Rightarrow> None
      | Some None \<Rightarrow> Some (off, None)
      | Some (Some tlvend) \<Rightarrow> getv data tlvend (off + TLV_HEADER_SIZE))"

text \<open>A setter of a fixed-size item checks the space, then writes header and value up to the end it
  computed.\<close>

definition tlv_set :: "u16 \<Rightarrow> u32 \<Rightarrow> (buf \<Rightarrow> u32 \<Rightarrow> u32 \<Rightarrow> 'a \<Rightarrow> (bool \<times> buf \<times> u32) option) \<Rightarrow>
    buf \<Rightarrow> u32 \<Rightarrow> u32 \<Rightarrow> 'a \<Rightarrow> (bool \<times> buf \<times> u32) option" where
  "tlv_set type tlvsize putv data sz off v =
     (if data = None then Some (False, data, off)
      else let tlvend = off + tlvsize in
        if sz < tlvend then Some (False, data, off)
        else put_seq (SetTlvBase type) putv data tlvend off (tlvsize, v))"

subsection \<open>Integers and addresses\<close>

definition GetTlvUInt64Size :: u32 where "GetTlvUInt64Size = TLV_HEADER_SIZE + 8"
definition GetTlvUInt32Size :: u32 where "GetTlvUInt32Size = TLV_HEADER_SIZE + 4"
definition GetTlvUInt16Size :: u32 where "GetTlvUInt16Size = TLV_HEADER_SIZE + 2"
definition GetTlvUInt8Size :: u32 where "GetTlvUInt8Size = TLV_HEADER_SIZE + 1"
definition GetTlvIpAddrPortV4Size :: u32 where "GetTlvIpAddrPortV4Size = TLV_HEADER_SIZE + 4 + 2"
definition GetTlvIpAddrPortV6Size :: u32 where "GetTlvIpAddrPortV6Size = TLV_HEADER_SIZE + 16 + 2"

definition SetTlvUInt32 :: "u16 \<Rightarrow> buf \<Rightarrow> u32 \<Rightarrow> u32 \<Rightarrow> u32 \<Rightarrow> (bool \<times> buf \<times> u32) option" where
  "SetTlvUInt32 type = tlv_set type GetTlvUInt32Size setRawUInt32"

definition GetTlvUInt32 :: "u16 \<Rightarrow> buf \<Rightarrow> u32 \<Rightarrow> u32 \<Rightarrow> (u32 \<times> u32 option) option" where
  "GetTlvUInt32 type = tlv_get type getRawUInt32"

definition SetTlvUInt16 :: "u16 \<Rightarrow> buf \<Rightarrow> u32 \<Rightarrow> u32 \<Rightarrow> u16 \<Rightarrow> (bool \<times> buf \<times> u32) option" where
  "SetTlvUInt16 type = tlv_set type GetTlvUInt16Size setRawUInt16"

definition GetTlvUInt16 :: "u16 \<Rightarrow> buf \<Rightarrow> u32 \<Rightarrow> u32 \<Rightarrow> (u32 \<times> u16 option) option" where
  "GetTlvUInt16 type = tlv_get type getRawUInt16"

definition SetTlvUInt64 :: "u16 \<Rightarrow> buf \<Rightarrow> u32 \<Rightarrow> u32 \<Rightarrow> u64 \<Rightarrow> (bool \<times> buf \<times> u32) option" where
  "SetTlvUInt64 type = tlv_set type GetTlvUInt64Size setRawUInt64"

definition GetTlvUInt64 :: "u16 \<Rightarrow> buf \<Rightarrow> u32 \<Rightarrow> u32 \<Rightarrow> (u32 \<times> u64 option) option" where
  "GetTlvUInt64 type = tlv_get type getRawUInt64"

text \<open>An IPv4 endpoint is \<^verbatim>\<open>(s_addr, sin_port)\<close>, an IPv6 endpoint the four host words of \<^verbatim>\<open>s6_addr\<close> and
  the port, as the code reads them from the structures.\<close>

type_synonym sockaddr_in = "u32 \<times> u16"
type_synonym sockaddr_in6 = "u32 \<times> u32 \<times> u32 \<times> u32 \<times> u16"

definition SetTlvIpAddrPortV4 ::
    "u16 \<Rightarrow> buf \<Rightarrow> u32 \<Rightarrow> u32 \<Rightarrow> sockaddr_in \<Rightarrow> (bool \<times> buf \<times> u32) option" where
  "SetTlvIpAddrPortV4 type =
     tlv_set type GetTlvIpAddrPortV4Size (put_seq setRawUInt32 setRawUInt16)"

definition GetTlvIpAddrPortV4 ::
    "u16 \<Rightarrow> buf \<Rightarrow> u32 \<Rightarrow> u32 \<Rightarrow> (u32 \<times> sockaddr_in option) option" where
  "GetTlvIpAddrPortV4 type = tlv_get type (get_seq getRawUInt32 getRawUInt16)"

definition SetTlvIpAddrPortV6 ::
    "u16 \<Rightarrow> buf \<Rightarrow> u32 \<Rightarrow> u32 \<Rightarrow> sockaddr_in6 \<Rightarrow> (bool \<times> buf \<times> u32) option" where
  "SetTlvIpAddrPortV6 type =
     tlv_set type GetTlvIpAddrPortV6Size
       (put_seq setRawUInt32 (put_seq setRawUInt32 (put_seq setRawUInt32
         (put_seq setRawUInt32 setRawUInt16))))"

definition GetTlvIpAddrPortV6 ::
    "u16 \<Rightarrow> buf \<Rightarrow> u32 \<Rightarrow> u32 \<Rightarrow> (u32 \<times> sockaddr_in6 option) option" where
  "GetTlvIpAddrPortV6 type =
     tlv_get type (get_seq getRawUInt32 (get_seq getRawUInt32 (get_seq getRawUInt32
       (get_seq getRawUInt32 getRawUInt16))))"

subsection \<open>Strings\<close>

definition ascii :: "string \<Rightarrow> bytes" where
  "ascii s = map of_char s"

definition GetTlvStringSize :: "bytes \<Rightarrow> u32" where
  "GetTlvStringSize s = word_of_nat (6 + length s)"

definition SetTlvString :: "u16 \<Rightarrow> buf \<Rightarrow> u32 \<Rightarrow> u32 \<Rightarrow> bytes \<Rightarrow> (bool \<times> buf \<times> u32) option" where
  "SetTlvString type data sz off out =
     (if data = None then Some (False, data, off)
      else let tlvsize = GetTlvStringSize out; tlvend = off + tlvsize in
        if sz < tlvend then Some (False, data, off)
        else case SetTlvBase type data tlvend off tlvsize of
            None \<Rightarrow> None
          | Some (ok, data1, off1) \<Rightarrow>
              (let strlen = tlvsize - TLV_HEADER_SIZE in
               case poke data1 (unat off1) (take (unat strlen) out) of
                 None \<Rightarrow> None
               | Some data2 \<Rightarrow> Some (ok, data2, off1 + strlen)))"

definition hexDigit :: "u8 \<Rightarrow> u8 option" where
  "hexDigit s =
     (if 0x61 \<le> s \<and> s \<le> 0x66 then Some ((s - 0x61) + 10)
      else if 0x41 \<le> s \<and> s \<le> 0x46 then Some ((s - 0x41) + 10)
      else if 0x30 \<le> s \<and> s \<le> 0x39 then Some (s - 0x30)
      else None)"

definition readHex :: "u8 \<Rightarrow> u8 \<Rightarrow> u8 option" where
  "readHex s1 s2 =
     (case hexDigit s1 of
        None \<Rightarrow> None
      | Some v \<Rightarrow>
          (case hexDigit s2 of
             None \<Rightarrow> None
           | Some w \<Rightarrow> Some (push_bit 4 v + w)))"

text \<open>One step of the loop of \<^verbatim>\<open>find_decoded_string\<close>: the next character, percent-decoded when two hex
  digits follow, and the rest of the input. The loop keeps how many characters of the suspicious
  string have matched; a mismatch starts again from zero with the next character.\<close>

fun decode_next :: "u8 \<Rightarrow> bytes \<Rightarrow> u8 \<times> bytes" where
  "decode_next c (s1 # s2 # rest) =
     (if c = 0x25 then
        (case readHex s1 s2 of Some v \<Rightarrow> (v, rest) | None \<Rightarrow> (c, s1 # s2 # rest))
      else (c, s1 # s2 # rest))"
| "decode_next c rest = (c, rest)"

lemma decode_next_shrinks: "length (snd (decode_next c rest)) \<le> length rest"
  by (cases "(c, rest)" rule: decode_next.cases) (auto split: option.splits)

function find_decoded_from :: "bytes \<Rightarrow> nat \<Rightarrow> bytes \<Rightarrow> bool" where
  "find_decoded_from ss p [] = False"
| "find_decoded_from ss p (c # rest) =
     (let next_char = fst (decode_next c rest);
          p' = (if ss ! p = next_char then Suc p else 0)
      in if p' = length ss then True
         else find_decoded_from ss p' (snd (decode_next c rest)))"
  by pat_completeness auto
termination
  by (relation "measure (\<lambda>(ss, p, xs). length xs)") (auto simp: le_imp_less_Suc decode_next_shrinks)

definition find_decoded_string :: "bytes \<Rightarrow> bytes \<Rightarrow> bool" where
  "find_decoded_string inp ss = find_decoded_from ss 0 inp"

definition err_in :: bytes where
  "err_in = ascii ''**** String removed (SVG bomb?) ****''"

definition suspiscious_strings :: "bytes list" where
  "suspiscious_strings = [ascii ''<!e'', ascii ''<!E'', ascii ''PD94bW'', ascii ''PHN2Zy'']"

definition remove_suspicious :: "bytes \<Rightarrow> bytes" where
  "remove_suspicious s =
     (if list_ex (find_decoded_string s) suspiscious_strings
      then map (\<lambda>k. if k < length err_in then err_in ! k else 0x20) [0..<length s]
      else s)"

definition filtered_type :: "u16 \<Rightarrow> bool" where
  "filtered_type type =
     (type = 0 \<or> type = TLV_TYPE_STR_PEERID \<or> type = TLV_TYPE_STR_NAME \<or>
      type = TLV_TYPE_STR_PATH \<or> type = TLV_TYPE_STR_TITLE \<or> type = TLV_TYPE_STR_SUBJECT \<or>
      type = TLV_TYPE_STR_LOCATION \<or> type = TLV_TYPE_STR_VERSION)"

definition remove_control :: "u16 \<Rightarrow> bytes \<Rightarrow> bytes" where
  "remove_control type s =
     (if filtered_type type then map (\<lambda>c. if c < 0x20 \<and> c > 0 then 0x20 else c) s else s)"

text \<open>\<^verbatim>\<open>GetTlvString\<close> checks only that the offset is within the size before it reads the header, and
  subtracts the header size from the length in 32-bit arithmetic; \<open>peek\<close> shows what this reads.\<close>

definition GetTlvString :: "u16 \<Rightarrow> buf \<Rightarrow> u32 \<Rightarrow> u32 \<Rightarrow> (u32 \<times> bytes option) option" where
  "GetTlvString type data sz off =
     (if data = None then Some (off, None)
      else if sz < off then Some (off, None)
      else case GetTlvType data (unat off) of
          None \<Rightarrow> None
        | Some tlvtype \<Rightarrow>
            (case GetTlvSize data (unat off) of
               None \<Rightarrow> None
             | Some tlvsize \<Rightarrow>
                 (let tlvend = off + tlvsize in
                  if sz < tlvend then Some (off, None)
                  else if type \<noteq> tlvtype then Some (off, None)
                  else let strsize = tlvsize - TLV_HEADER_SIZE in
                    case (if strsize \<le> 0 then Some []
                          else peek data (unat off + 6) (unat strsize)) of
                      None \<Rightarrow> None
                    | Some s \<Rightarrow>
                        Some (off + tlvsize, Some (remove_control type (remove_suspicious s))))))"


subsection \<open>Fixed-size items meet the codec contracts\<close>

definition enc_header :: "u16 \<Rightarrow> u32 \<Rightarrow> bytes" where
  "enc_header type len = be16 type @ be32 len"

lemma length_enc_header [simp]: "length (enc_header t n) = 6"
  by (simp add: enc_header_def)

lemma SetTlvBase_fits:
  assumes "fits d sz off 6"
  shows "SetTlvBase t (Some d) sz off n =
     Some (True, Some (overwrite d (unat off) (enc_header t n)), off + 6)"
proof -
  have "\<not> sz < off + 6" using assms by (intro fits_no_wrap [of d]) simp
  then show ?thesis
    using fits_length [OF assms] overwrite_overwrite_adjacent [of "unat off" "be16 t" "be32 n" d]
    by (simp add: SetTlvBase_def enc_header_def)
qed

lemma header_read:
  assumes "unat off + 6 \<le> length d" "take 6 (drop (unat off) d) = enc_header t n"
  shows "GetTlvType (Some d) (unat off) = Some t \<and> GetTlvSize (Some d) (unat off) = Some n"
proof -
  have "take 2 (drop (unat off) d) @ take 4 (drop (unat off + 2) d) = be16 t @ be32 n"
    using assms(2) take_drop_split [of 2 4 "unat off" d] by (simp add: enc_header_def)
  moreover have "length (take 2 (drop (unat off) d)) = length (be16 t)" using assms(1) by simp
  ultimately have "take 2 (drop (unat off) d) = be16 t" "take 4 (drop (unat off + 2) d) = be32 n"
    using append_eq_append_conv by blast+
  then show ?thesis using assms(1) by (simp add: GetTlvType_def GetTlvSize_def)
qed

lemma header_readable:
  assumes "unat off + 6 \<le> length d"
  shows "\<exists>t n. GetTlvType (Some d) (unat off) = Some t \<and> GetTlvSize (Some d) (unat off) = Some n"
  using assms by (simp add: GetTlvType_def GetTlvSize_def)

lemma tlv_open_header:
  assumes f: "fits d sz off (unat n)" and n: "6 \<le> unat n"
    and h: "take 6 (drop (unat off) d) = enc_header t n"
  shows "tlv_open t (Some d) sz off = Some (Some (off + n))"
proof -
  have "fits d sz off (unat (6 :: u32))" using f n by (simp add: fits_def)
  then have "\<not> sz < off + 6" by (rule fits_no_wrap)
  moreover have "\<not> sz < off + n" using f by (rule fits_no_wrap)
  moreover have "unat off + 6 \<le> length d" using f n by (simp add: fits_def)
  ultimately show ?thesis using header_read [OF _ h] by (simp add: tlv_open_def)
qed

lemma fits_inside:
  assumes "fits d sz off (6 + k)" "unat n = 6 + k"
  shows "unat (off + n) = unat off + 6 + k \<and> unat (off + 6) = unat off + 6 \<and>
         fits d (off + n) off 6 \<and> fits d (off + n) (off + 6) k"
proof -
  have "fits d sz off 6" using assms(1) by (rule fits_weaken) simp
  from fits_u32 [OF this] have o6: "unat (off + 6) = unat off + 6" by simp
  have "fits d sz off (unat n)" using assms by simp
  from fits_u32 [OF this] have "unat (off + n) = unat off + unat n" by simp
  then have on: "unat (off + n) = unat off + 6 + k" using assms(2) by simp
  show ?thesis using assms(1) o6 on by (simp add: fits_def)
qed

locale tlv_item = codec putv getv encv wf
  for putv :: "buf \<Rightarrow> u32 \<Rightarrow> u32 \<Rightarrow> 'a \<Rightarrow> (bool \<times> buf \<times> u32) option"
    and getv encv wf +
  fixes t :: u16 and n :: u32
  assumes item_size: "wf v \<Longrightarrow> unat n = 6 + length (encv v)"
begin

lemma tlv_set_fits:
  assumes w: "wf v" and f: "fits d sz off (length (enc_header t n @ encv v))"
  shows "tlv_set t n putv (Some d) sz off v =
     Some (True, Some (overwrite d (unat off) (enc_header t n @ encv v)),
           off + word_of_nat (length (enc_header t n @ encv v)))"
proof -
  let ?k = "length (encv v)"
  have n: "unat n = 6 + ?k" using w by (rule item_size)
  have f': "fits d sz off (6 + ?k)" using f by simp
  note i = fits_inside [OF f' n]
  have "\<not> sz < off + n" by (rule fits_no_wrap [of d]) (use f' n in simp)
  moreover have "SetTlvBase t (Some d) (off + n) off n =
      Some (True, Some (overwrite d (unat off) (enc_header t n)), off + 6)"
    using i by (intro SetTlvBase_fits) simp
  moreover have "putv (Some (overwrite d (unat off) (enc_header t n))) (off + n) (off + 6) v =
      Some (True, Some (overwrite (overwrite d (unat off) (enc_header t n)) (unat (off + 6)) (encv v)),
            off + 6 + word_of_nat ?k)"
    using i fits_length [OF f'] by (intro put_fits [OF w]) simp
  moreover have "overwrite (overwrite d (unat off) (enc_header t n)) (unat off + 6) (encv v) =
      overwrite d (unat off) (enc_header t n @ encv v)"
    using overwrite_overwrite_adjacent [of "unat off" "enc_header t n" "encv v" d] fits_length [OF f']
    by (simp add: add.assoc)
  ultimately show ?thesis
    using i by (simp add: tlv_set_def put_seq_def add.assoc)
qed

lemma tlv_get_enc:
  assumes w: "wf v" and f: "fits d sz off (length (enc_header t n @ encv v))"
    and tk: "take (length (enc_header t n @ encv v)) (drop (unat off) d) = enc_header t n @ encv v"
  shows "tlv_get t getv (Some d) sz off =
     Some (off + word_of_nat (length (enc_header t n @ encv v)), Some v)"
proof -
  let ?k = "length (encv v)"
  have n: "unat n = 6 + ?k" using w by (rule item_size)
  have f': "fits d sz off (6 + ?k)" using f by simp
  note i = fits_inside [OF f' n]
  have "take 6 (drop (unat off) d) @ take ?k (drop (unat off + 6) d) = enc_header t n @ encv v"
    using tk take_drop_split [of 6 ?k "unat off" d] by simp
  moreover have "length (take 6 (drop (unat off) d)) = length (enc_header t n)"
    using fits_length [OF f'] by simp
  ultimately have h: "take 6 (drop (unat off) d) = enc_header t n"
    and v: "take ?k (drop (unat off + 6) d) = encv v"
    using append_eq_append_conv by blast+
  have "tlv_open t (Some d) sz off = Some (Some (off + n))"
    by (rule tlv_open_header [OF _ _ h]) (use f' n in simp_all)
  moreover have "getv (Some d) (off + n) (off + 6) = Some (off + 6 + word_of_nat ?k, Some v)"
    by (rule get_enc [OF w]) (use i v in simp_all)
  ultimately show ?thesis by (simp add: tlv_get_def add.assoc)
qed

sublocale tlv: bounded_codec "tlv_set t n putv" "tlv_get t getv" "\<lambda>v. enc_header t n @ encv v" wf
proof (unfold_locales, goal_cases)
  case (1 v d sz off)
  then show ?case by (rule tlv_set_fits)
next
  case (2 v d sz off)
  then show ?case by (rule tlv_get_enc)
next
  case (3 v sz off d)
  then have "sz < off + n"
    using item_size [OF 3(1)] by (intro short_no_wrap) simp_all
  then show ?case by (simp add: tlv_set_def)
qed

end

locale tlv_reader = safe_reader getv
  for getv :: "buf \<Rightarrow> u32 \<Rightarrow> u32 \<Rightarrow> (u32 \<times> 'a option) option" +
  fixes t :: u16
begin

sublocale tlv: safe_reader "tlv_get t getv"
proof (unfold_locales, goal_cases)
  case (1 sz d off)
  show ?case
  proof (cases "sz < off + 6")
    case True
    then show ?thesis by (simp add: tlv_get_def tlv_open_def)
  next
    case False
    have o: "unat off + 6 \<le> unat sz \<and> unat (off + 6) = unat off + 6"
      using not_short [OF False] 1(3) by (simp add: max_block_def)
    with 1 have "unat off + 6 \<le> length d" by simp
    from header_readable [OF this] obtain t' n where
      h: "GetTlvType (Some d) (unat off) = Some t'" "GetTlvSize (Some d) (unat off) = Some n"
      by blast
    show ?thesis
    proof (cases "sz < off + n \<or> t \<noteq> t'")
      case True
      then show ?thesis using h False by (auto simp: tlv_get_def tlv_open_def Let_def)
    next
      case ok: False
      then have e: "unat (off + n) \<le> unat sz" by (simp add: not_less word_le_nat_alt)
      with 1 o have "unat (off + n) \<le> length d" "unat (off + n) \<le> max_block"
        "unat (off + 6) \<le> max_block" by simp_all
      from get_in_block [OF this] obtain off' r where
        g: "getv (Some d) (off + n) (off + 6) = Some (off', r)" "unat (off + 6) \<le> unat off'"
           "unat off' \<le> max (unat (off + 6)) (unat (off + n))"
        by blast
      have "tlv_get t getv (Some d) sz off = Some (off', r)"
        using g(1) h ok False by (simp add: tlv_get_def tlv_open_def)
      moreover have "unat off' \<le> unat sz" using g(3) o e by (auto simp: max_def split: if_splits)
      ultimately show ?thesis using g(2) o by simp
    qed
  qed
qed

end


text \<open>The items of the code.\<close>

interpretation item16: tlv_item setRawUInt16 getRawUInt16 be16 "\<lambda>_. True" t GetTlvUInt16Size
  for t by unfold_locales (simp add: GetTlvUInt16Size_def)

interpretation item32: tlv_item setRawUInt32 getRawUInt32 be32 "\<lambda>_. True" t GetTlvUInt32Size
  for t by unfold_locales (simp add: GetTlvUInt32Size_def)

interpretation item64: tlv_item setRawUInt64 getRawUInt64 be64 "\<lambda>_. True" t GetTlvUInt64Size
  for t by unfold_locales (simp add: GetTlvUInt64Size_def)

interpretation readitem16: tlv_reader getRawUInt16 t for t by unfold_locales
interpretation readitem32: tlv_reader getRawUInt32 t for t by unfold_locales
interpretation readitem64: tlv_reader getRawUInt64 t for t by unfold_locales

interpretation addr4: codec_pair setRawUInt32 getRawUInt32 be32 "\<lambda>_. True"
    setRawUInt16 getRawUInt16 be16 "\<lambda>_. True"
  by unfold_locales

interpretation addr6a: codec_pair setRawUInt32 getRawUInt32 be32 "\<lambda>_. True"
    "put_seq setRawUInt32 setRawUInt16" "get_seq getRawUInt32 getRawUInt16"
    "\<lambda>v. be32 (fst v) @ be16 (snd v)" "\<lambda>v. True \<and> True"
  by unfold_locales

interpretation addr6b: codec_pair setRawUInt32 getRawUInt32 be32 "\<lambda>_. True"
    "put_seq setRawUInt32 (put_seq setRawUInt32 setRawUInt16)"
    "get_seq getRawUInt32 (get_seq getRawUInt32 getRawUInt16)"
    "\<lambda>v. be32 (fst v) @ be32 (fst (snd v)) @ be16 (snd (snd v))" "\<lambda>v. True \<and> (True \<and> True)"
  by unfold_locales

interpretation addr6: codec_pair setRawUInt32 getRawUInt32 be32 "\<lambda>_. True"
    "put_seq setRawUInt32 (put_seq setRawUInt32 (put_seq setRawUInt32 setRawUInt16))"
    "get_seq getRawUInt32 (get_seq getRawUInt32 (get_seq getRawUInt32 getRawUInt16))"
    "\<lambda>v. be32 (fst v) @ be32 (fst (snd v)) @ be32 (fst (snd (snd v))) @ be16 (snd (snd (snd v)))"
    "\<lambda>v. True \<and> (True \<and> (True \<and> True))"
  by unfold_locales

definition enc_addr4 :: "sockaddr_in \<Rightarrow> bytes" where
  "enc_addr4 v = be32 (fst v) @ be16 (snd v)"

definition enc_addr6 :: "sockaddr_in6 \<Rightarrow> bytes" where
  "enc_addr6 v = be32 (fst v) @ be32 (fst (snd v)) @ be32 (fst (snd (snd v))) @
     be32 (fst (snd (snd (snd v)))) @ be16 (snd (snd (snd (snd v))))"

interpretation item4: tlv_item "put_seq setRawUInt32 setRawUInt16"
    "get_seq getRawUInt32 getRawUInt16" enc_addr4 "\<lambda>_. True" t GetTlvIpAddrPortV4Size for t
  unfolding enc_addr4_def [abs_def]
  using addr4.pair.codec_axioms
  by unfold_locales (auto simp: codec_def GetTlvIpAddrPortV4Size_def)

interpretation item6: tlv_item
    "put_seq setRawUInt32 (put_seq setRawUInt32 (put_seq setRawUInt32
         (put_seq setRawUInt32 setRawUInt16)))"
    "get_seq getRawUInt32 (get_seq getRawUInt32 (get_seq getRawUInt32
       (get_seq getRawUInt32 getRawUInt16)))"
    enc_addr6 "\<lambda>_. True" t GetTlvIpAddrPortV6Size for t
  unfolding enc_addr6_def [abs_def]
  using addr6.pair.codec_axioms
  by unfold_locales (auto simp: codec_def GetTlvIpAddrPortV6Size_def)

interpretation readaddr4: safe_reader_pair getRawUInt32 getRawUInt16 by unfold_locales
interpretation readaddr6a: safe_reader_pair getRawUInt32 "get_seq getRawUInt32 getRawUInt16"
  by unfold_locales
interpretation readaddr6b: safe_reader_pair getRawUInt32
    "get_seq getRawUInt32 (get_seq getRawUInt32 getRawUInt16)"
  by unfold_locales
interpretation readaddr6: safe_reader_pair getRawUInt32
    "get_seq getRawUInt32 (get_seq getRawUInt32 (get_seq getRawUInt32 getRawUInt16))"
  by unfold_locales
interpretation readitem4: tlv_reader "get_seq getRawUInt32 getRawUInt16" t for t by unfold_locales
interpretation readitem6: tlv_reader "get_seq getRawUInt32 (get_seq getRawUInt32
    (get_seq getRawUInt32 (get_seq getRawUInt32 getRawUInt16)))" t for t by unfold_locales

subsection \<open>The filter of strings\<close>

text \<open>The specification of the search: the input with its percent escapes decoded.\<close>

function percent_decode :: "bytes \<Rightarrow> bytes" where
  "percent_decode [] = []"
| "percent_decode (c # rest) =
     fst (decode_next c rest) # percent_decode (snd (decode_next c rest))"
  by pat_completeness auto
termination
  by (relation "measure length") (auto simp: le_imp_less_Suc decode_next_shrinks)

text \<open>The matcher the loop runs on the decoded characters.\<close>

fun match_from :: "bytes \<Rightarrow> nat \<Rightarrow> bytes \<Rightarrow> bool" where
  "match_from ss p [] = False"
| "match_from ss p (c # cs) =
     (let p' = (if ss ! p = c then Suc p else 0)
      in if p' = length ss then True else match_from ss p' cs)"

lemma find_decoded_match: "find_decoded_from ss p inp = match_from ss p (percent_decode inp)"
  by (induction ss p inp rule: find_decoded_from.induct) (simp_all add: Let_def)

lemma match_from_sound:
  "p < length ss \<Longrightarrow> match_from ss p cs \<Longrightarrow> sublist ss (take p ss @ cs)"
proof (induction cs arbitrary: p)
  case Nil
  then show ?case by simp
next
  case (Cons c cs)
  show ?case
  proof (cases "ss ! p = c")
    case True
    then have t: "take p ss @ c # cs = take (Suc p) ss @ cs"
      using Cons.prems(1) by (simp add: take_Suc_conv_app_nth)
    show ?thesis
    proof (cases "Suc p = length ss")
      case True
      then show ?thesis unfolding t by (simp add: prefix_imp_sublist)
    next
      case False
      then show ?thesis unfolding t using Cons True by simp
    qed
  next
    case False
    with Cons.prems have "match_from ss 0 cs" by (auto simp: Let_def split: if_splits)
    then have "sublist ss cs" using Cons.IH [of 0] Cons.prems(1) by (cases ss) auto
    then obtain ps qs where "cs = ps @ ss @ qs" by (auto simp: sublist_def)
    then have "take p ss @ c # cs = (take p ss @ c # ps) @ ss @ qs" by simp
    then show ?thesis by (simp only: sublist_appendI)
  qed
qed

lemma match_from_rest:
  "p < length ss \<Longrightarrow> match_from ss p (drop p ss @ ys)"
proof (induction "length ss - p" arbitrary: p)
  case 0
  then show ?case by simp
next
  case (Suc n)
  have "drop p ss = ss ! p # drop (Suc p) ss" using Suc.prems by (simp add: Cons_nth_drop_Suc)
  then show ?case using Suc by (simp add: Let_def)
qed

lemma match_from_complete:
  assumes "ss \<noteq> []" "hd ss \<notin> set xs"
  shows "match_from ss 0 (xs @ ss @ ys)"
  using assms(2)
proof (induction xs)
  case Nil
  then show ?case using match_from_rest [of 0 ss ys] assms(1) by simp
next
  case (Cons x xs)
  then have "ss ! 0 \<noteq> x" using assms(1) by (auto simp: hd_conv_nth)
  then show ?case using Cons assms(1) by simp
qed

lemma length_remove [simp]:
  "length (remove_suspicious s) = length s" "length (remove_control t s) = length s"
  by (simp_all add: remove_suspicious_def remove_control_def)

text \<open>A string the filters leave alone.\<close>

definition clean_string :: "u16 \<Rightarrow> bytes \<Rightarrow> bool" where
  "clean_string t s = (remove_control t (remove_suspicious s) = s)"

definition enc_tlv_string :: "u16 \<Rightarrow> bytes \<Rightarrow> bytes" where
  "enc_tlv_string t s = enc_header t (GetTlvStringSize s) @ s"

lemma length_enc_tlv_string [simp]: "length (enc_tlv_string t s) = 6 + length s"
  by (simp add: enc_tlv_string_def)


lemma GetTlvStringSize_unat:
  "unat off + (6 + length s) < 4294967296 \<Longrightarrow> unat (GetTlvStringSize s) = 6 + length s \<and>
   unat (GetTlvStringSize s - 6) = length s"
proof -
  assume a: "unat off + (6 + length s) < 4294967296"
  then have u: "unat (GetTlvStringSize s) = 6 + length s"
    unfolding GetTlvStringSize_def by (intro word_of_nat_less_u32) simp
  then have "(6 :: u32) \<le> GetTlvStringSize s" by (simp add: word_le_nat_alt)
  then show ?thesis using u by (simp add: unat_sub)
qed

interpretation itemstr: bounded_codec "SetTlvString t" "GetTlvString t" "enc_tlv_string t"
    "clean_string t" for t
proof (unfold_locales, goal_cases)
  case (1 s d sz off)
  then have f: "fits d sz off (6 + length s)" by simp
  have small: "unat off + (6 + length s) < 4294967296"
    using f unat_u32_less [of sz] by (simp add: fits_def)
  note u = GetTlvStringSize_unat [OF small]
  note i = fits_inside [OF f conjunct1 [OF u]]
  have l: "unat off + 6 + length s \<le> length d" using fits_length [OF f] by simp
  have "\<not> sz < off + GetTlvStringSize s" by (rule fits_no_wrap [of d]) (use f u in simp)
  moreover have "SetTlvBase t (Some d) (off + GetTlvStringSize s) off (GetTlvStringSize s) =
      Some (True, Some (overwrite d (unat off) (enc_header t (GetTlvStringSize s))), off + 6)"
    using i by (intro SetTlvBase_fits) simp
  moreover have "overwrite (overwrite d (unat off) (enc_header t (GetTlvStringSize s))) (unat off + 6) s =
      overwrite d (unat off) (enc_tlv_string t s)"
    using overwrite_overwrite_adjacent [of "unat off" "enc_header t (GetTlvStringSize s)" s d] l
    by (simp add: enc_tlv_string_def add.assoc)
  moreover have "off + 6 + (GetTlvStringSize s - 6) = off + word_of_nat (6 + length s)"
    by (simp add: GetTlvStringSize_def)
  ultimately show ?case
    using i u l by (simp add: SetTlvString_def Let_def)
next
  case (2 s d sz off)
  then have f: "fits d sz off (6 + length s)" by simp
  have small: "unat off + (6 + length s) < 4294967296"
    using f unat_u32_less [of sz] by (simp add: fits_def)
  note u = GetTlvStringSize_unat [OF small]
  have l: "unat off + 6 + length s \<le> length d" using fits_length [OF f] by simp
  have "take 6 (drop (unat off) d) @ take (length s) (drop (unat off + 6) d) =
      enc_header t (GetTlvStringSize s) @ s"
    using 2(3) take_drop_split [of 6 "length s" "unat off" d] by (simp add: enc_tlv_string_def)
  moreover have "length (take 6 (drop (unat off) d)) = length (enc_header t (GetTlvStringSize s))"
    using l by simp
  ultimately have h: "take 6 (drop (unat off) d) = enc_header t (GetTlvStringSize s)"
    and v: "take (length s) (drop (unat off + 6) d) = s"
    using append_eq_append_conv by blast+
  have "\<not> sz < off + GetTlvStringSize s" by (rule fits_no_wrap [of d]) (use f u in simp)
  moreover have "\<not> sz < off" using f by (simp add: fits_def word_less_nat_alt)
  moreover have "off + GetTlvStringSize s = off + word_of_nat (6 + length s)"
    by (simp add: GetTlvStringSize_def)
  moreover have "GetTlvStringSize s - 6 \<le> 0 \<longleftrightarrow> s = []"
    using u by (auto simp: word_le_nat_alt)
  ultimately show ?case
    using header_read [OF _ h] l 2(1) u v
    by (cases "s = []") (simp_all add: GetTlvString_def Let_def clean_string_def)
next
  case (3 s sz off d)
  then have small: "unat off + (6 + length s) < 4294967296" by simp
  have "sz < off + GetTlvStringSize s"
    using 3 GetTlvStringSize_unat [OF small] by (intro short_no_wrap) simp_all
  then show ?case by (simp add: SetTlvString_def Let_def)
qed

text \<open>A sequence of an IPv4 and an IPv6 item, and one of a string and an integer item.\<close>

interpretation addr_items: codec_pair
    "tlv_set t4 GetTlvIpAddrPortV4Size (put_seq setRawUInt32 setRawUInt16)"
    "tlv_get t4 (get_seq getRawUInt32 getRawUInt16)"
    "\<lambda>v. enc_header t4 GetTlvIpAddrPortV4Size @ enc_addr4 v" "\<lambda>_. True"
    "tlv_set t6 GetTlvIpAddrPortV6Size (put_seq setRawUInt32 (put_seq setRawUInt32
        (put_seq setRawUInt32 (put_seq setRawUInt32 setRawUInt16))))"
    "tlv_get t6 (get_seq getRawUInt32 (get_seq getRawUInt32 (get_seq getRawUInt32
        (get_seq getRawUInt32 getRawUInt16))))"
    "\<lambda>v. enc_header t6 GetTlvIpAddrPortV6Size @ enc_addr6 v" "\<lambda>_. True" for t4 t6
  by unfold_locales

interpretation str_int_items: codec_pair
    "SetTlvString ts" "GetTlvString ts" "enc_tlv_string ts" "clean_string ts"
    "tlv_set ti GetTlvUInt32Size setRawUInt32" "tlv_get ti getRawUInt32"
    "\<lambda>v. enc_header ti GetTlvUInt32Size @ be32 v" "\<lambda>_. True" for ts ti
  by unfold_locales

subsection \<open>Properties\<close>

text \<open>A 32-bit item is read back as it was written, for every type code and value, with the same
  final offset; a getter that expects another type refuses it and leaves the offset.\<close>

theorem tlv_uint32_round_trip:
  assumes f: "fits d sz off 10"
  shows "\<exists>d'. SetTlvUInt32 t (Some d) sz off v = Some (True, Some d', off + GetTlvUInt32Size) \<and>
          GetTlvUInt32 t (Some d') sz off = Some (off + GetTlvUInt32Size, Some v) \<and>
          (\<forall>t'. t' \<noteq> t \<longrightarrow> GetTlvUInt32 t' (Some d') sz off = Some (off, None))"
proof -
  let ?e = "enc_header t GetTlvUInt32Size @ be32 v"
  let ?d = "overwrite d (unat off) ?e"
  have f': "fits d sz off (length ?e)" using f by simp
  have l: "unat off + 10 \<le> length d" using fits_length [OF f] by simp
  have "take 6 (take 10 (drop (unat off) ?d)) = take 6 ?e"
    using take_drop_overwrite_same [of "unat off" ?e d] l by simp
  then have "take 6 (drop (unat off) ?d) = enc_header t GetTlvUInt32Size" by simp
  then have h: "GetTlvType (Some ?d) (unat off) = Some t"
      "GetTlvSize (Some ?d) (unat off) = Some GetTlvUInt32Size"
    using header_read [of off ?d t GetTlvUInt32Size] l by simp_all
  have "GetTlvUInt32 t' (Some ?d) sz off = Some (off, None)" if "t' \<noteq> t" for t'
    using that h by (simp add: GetTlvUInt32_def tlv_get_def tlv_open_def Let_def)
  moreover have "SetTlvUInt32 t (Some d) sz off v = Some (True, Some ?d, off + GetTlvUInt32Size)"
    using item32.tlv.put_fits [OF TrueI f'] by (simp add: SetTlvUInt32_def GetTlvUInt32Size_def)
  moreover have "GetTlvUInt32 t (Some ?d) sz off = Some (off + GetTlvUInt32Size, Some v)"
    using item32.tlv.get_enc [where t = t and v = v and d = ?d and sz = sz and off = off] f' l take_drop_overwrite_same [of "unat off" ?e d]
    by (simp add: GetTlvUInt32_def GetTlvUInt32Size_def)
  ultimately show ?thesis by blast
qed

theorem tlv_uint32_round_trip_witness:
  "\<exists>d'. SetTlvUInt32 0x30 (Some (replicate 12 0)) 12 1 77 =
         Some (True, Some d', 1 + GetTlvUInt32Size) \<and>
       GetTlvUInt32 0x30 (Some d') 12 1 = Some (1 + GetTlvUInt32Size, Some 77) \<and>
       GetTlvUInt32 0x31 (Some d') 12 1 = Some (1, None)"
proof -
  have "fits (replicate 12 0) 12 1 10" by (simp add: fits_def)
  from tlv_uint32_round_trip [OF this, where t = "0x30" and v = 77] show ?thesis by auto
qed

text \<open>An IPv4 and an IPv6 endpoint written one after the other are both read back, for any type
  codes, and take 12 and 24 bytes.\<close>

theorem tlv_addr_round_trip:
  assumes f: "fits d sz off 36"
  shows "\<exists>d' off'. put_seq (SetTlvIpAddrPortV4 t4) (SetTlvIpAddrPortV6 t6) (Some d) sz off (a4, a6) =
            Some (True, Some d', off') \<and>
          get_seq (GetTlvIpAddrPortV4 t4) (GetTlvIpAddrPortV6 t6) (Some d') sz off =
            Some (off', Some (a4, a6)) \<and> unat off' = unat off + 36"
proof -
  have l: "length ((enc_header t4 GetTlvIpAddrPortV4Size @ enc_addr4 (fst (a4, a6))) @
      enc_header t6 GetTlvIpAddrPortV6Size @ enc_addr6 (snd (a4, a6))) = 36"
    by (simp add: enc_addr4_def enc_addr6_def)
  show ?thesis
    using addr_items.pair.round_trip [where v = "(a4, a6)" and d = d and sz = sz and off = off
        and ?t4.0 = t4 and ?t6.0 = t6, unfolded l] f fits_u32 [OF f]
    by (auto simp: SetTlvIpAddrPortV4_def SetTlvIpAddrPortV6_def GetTlvIpAddrPortV4_def
        GetTlvIpAddrPortV6_def)
qed

theorem tlv_addr_round_trip_witness:
  "\<exists>d' off'. put_seq (SetTlvIpAddrPortV4 0x85) (SetTlvIpAddrPortV6 0x86) (Some (replicate 36 0)) 36 0
        ((1, 2), (3, 4, 5, 6, 7)) = Some (True, Some d', off') \<and>
      get_seq (GetTlvIpAddrPortV4 0x85) (GetTlvIpAddrPortV6 0x86) (Some d') 36 0 =
        Some (off', Some ((1, 2), (3, 4, 5, 6, 7))) \<and> unat off' = unat (0 :: u32) + 36"
  by (rule tlv_addr_round_trip) (simp add: fits_def)

text \<open>A string the filters leave alone is read back as it was written, and so is an integer item
  that follows it.\<close>

theorem tlv_string_round_trip:
  assumes c: "clean_string ts s" and f: "fits d sz off (16 + length s)"
  shows "\<exists>d' off'. put_seq (SetTlvString ts) (SetTlvUInt32 ti) (Some d) sz off (s, n) =
            Some (True, Some d', off') \<and>
          get_seq (GetTlvString ts) (GetTlvUInt32 ti) (Some d') sz off = Some (off', Some (s, n)) \<and>
          unat off' = unat off + 16 + length s"
proof -
  have l: "length (enc_tlv_string ts (fst (s, n)) @ enc_header ti GetTlvUInt32Size @
      be32 (snd (s, n))) = 16 + length s"
    by simp
  show ?thesis
    using str_int_items.pair.round_trip [where v = "(s, n)" and d = d and sz = sz and off = off
        and ts = ts and ti = ti, unfolded l] c f fits_u32 [OF f]
    by (auto simp: SetTlvUInt32_def GetTlvUInt32_def)
qed

theorem tlv_string_round_trip_witness:
  "\<exists>d' off'. put_seq (SetTlvString 0x57) (SetTlvUInt32 0x30) (Some (replicate 20 0)) 20 1 ([0x61, 0x25], 9) =
        Some (True, Some d', off') \<and>
      get_seq (GetTlvString 0x57) (GetTlvUInt32 0x30) (Some d') 20 1 =
        Some (off', Some ([0x61, 0x25], 9)) \<and>
      unat off' = unat (1 :: u32) + 16 + length [0x61, 0x25 :: u8]"
proof (rule tlv_string_round_trip)
  show "clean_string 0x57 [0x61, 0x25]" by code_simp
qed (simp add: fits_def)

text \<open>C33. Whatever bytes a peer sent, the getters of integer and address items never read outside the
  block (of at most \<open>max_block\<close> bytes, with a truthful size), and leave the offset within it.\<close>

theorem tlv_readers_stay_in_block:
  assumes "unat sz \<le> length d" "unat off \<le> unat sz" "unat sz \<le> max_block"
  shows "(\<exists>o1 r1. GetTlvUInt16 t (Some d) sz off = Some (o1, r1) \<and> unat off \<le> unat o1 \<and> unat o1 \<le> unat sz) \<and>
    (\<exists>o1 r1. GetTlvUInt32 t (Some d) sz off = Some (o1, r1) \<and> unat off \<le> unat o1 \<and> unat o1 \<le> unat sz) \<and>
    (\<exists>o1 r1. GetTlvUInt64 t (Some d) sz off = Some (o1, r1) \<and> unat off \<le> unat o1 \<and> unat o1 \<le> unat sz) \<and>
    (\<exists>o1 r1. GetTlvIpAddrPortV4 t (Some d) sz off = Some (o1, r1) \<and> unat off \<le> unat o1 \<and> unat o1 \<le> unat sz) \<and>
    (\<exists>o1 r1. GetTlvIpAddrPortV6 t (Some d) sz off = Some (o1, r1) \<and> unat off \<le> unat o1 \<and> unat o1 \<le> unat sz)"
proof -
  have m: "max (unat off) (unat sz) = unat sz" and o: "unat off \<le> max_block"
    using assms by simp_all
  show ?thesis
    unfolding GetTlvUInt16_def GetTlvUInt32_def GetTlvUInt64_def GetTlvIpAddrPortV4_def
      GetTlvIpAddrPortV6_def
    using readitem16.tlv.get_in_block [OF assms(1,3) o, of t, unfolded m]
      readitem32.tlv.get_in_block [OF assms(1,3) o, of t, unfolded m]
      readitem64.tlv.get_in_block [OF assms(1,3) o, of t, unfolded m]
      readitem4.tlv.get_in_block [OF assms(1,3) o, of t, unfolded m]
      readitem6.tlv.get_in_block [OF assms(1,3) o, of t, unfolded m]
    by blast
qed

lemma tlv_readers_stay_in_block_witness:
  "\<exists>o1 r1. GetTlvUInt32 0 (Some (replicate 8 255)) 8 0 = Some (o1, r1) \<and> unat o1 \<le> 8"
proof -
  have "unat (8 :: u32) \<le> length (replicate 8 (255 :: u8))" "unat (0 :: u32) \<le> unat (8 :: u32)"
    "unat (8 :: u32) \<le> max_block" by (simp_all add: max_block_def)
  from tlv_readers_stay_in_block [OF this, of 0] show ?thesis by auto
qed

lemma peek_none: "length d < n + k \<Longrightarrow> peek (Some d) n k = None"
  by simp

text \<open>GetTlvString does not have this safety: with the offset at the end of the block it reads a
  header that is not there, and with a length field below the header size it reads almost 4 GB past
  the item; both on bytes a peer chose.\<close>

theorem tlv_string_overreads:
  assumes "unat sz = length d"
  shows "GetTlvString t (Some d) sz sz = None \<and>
    (GetTlvType (Some d) (unat off) = Some t \<and> GetTlvSize (Some d) (unat off) = Some len \<and>
     len < 6 \<and> \<not> sz < off + len \<and> \<not> sz < off \<and> length d < 4294967286 \<longrightarrow>
     GetTlvString t (Some d) sz off = None)"
proof -
  have "GetTlvString t (Some d) sz sz = None"
    using assms by (simp add: GetTlvString_def GetTlvType_def peek_none)
  moreover have "GetTlvString t (Some d) sz off = None"
    if h: "GetTlvType (Some d) (unat off) = Some t" "GetTlvSize (Some d) (unat off) = Some len"
      and l: "len < 6" and o: "\<not> sz < off + len" "\<not> sz < off" and b: "length d < 4294967286"
  proof -
    have n: "unat len < 6" using l by (simp add: word_less_nat_alt)
    then have u: "unat (len - 6) = unat len + 4294967290"
      by (simp add: unat_sub_if_size word_size)
    then have "\<not> len - 6 \<le> 0" by (auto simp: word_le_nat_alt)
    moreover have "peek (Some d) (unat off + 6) (unat (len - 6)) = None"
      using b u by (intro peek_none) simp
    ultimately show ?thesis using h o by (simp add: GetTlvString_def Let_def)
  qed
  ultimately show ?thesis by blast
qed

lemma tlv_string_overreads_witness:
  "GetTlvString 1 (Some [0, 1, 0, 0, 0, 0]) 6 6 = None \<and> GetTlvString 1 (Some [0, 1, 0, 0, 0, 0]) 6 0 = None"
proof -
  have a: "unat (6 :: u32) = length [0, 1, 0, 0, 0, 0 :: u8]" by simp
  have "GetTlvType (Some [0, 1, 0, 0, 0, 0]) (unat (0 :: u32)) = Some 1"
    "GetTlvSize (Some [0, 1, 0, 0, 0, 0]) (unat (0 :: u32)) = Some 0"
    by (simp_all add: GetTlvType_def GetTlvSize_def of_be16_def of_be32_def be_dec_def)
  with tlv_string_overreads [OF a, of 1 0 0] show ?thesis by simp
qed

text \<open>Skipping an unknown item moves the offset by the length field and never past the size, but not
  always forward: a zero length field leaves the offset where it was, so a loop that skips unknown
  items until the end of the block does not end on such a packet.\<close>

theorem skip_unknown_progress:
  assumes "unat off + 6 \<le> unat sz" "unat sz \<le> length d" "unat sz \<le> max_block"
  shows "\<exists>len. GetTlvSize (Some d) (unat off) = Some len \<and>
    SkipUnknownTlv (Some d) sz off =
      Some (if sz < off + len then (off, False) else (off + len, True)) \<and>
    (len = 0 \<longrightarrow> SkipUnknownTlv (Some d) sz off = Some (off, True))"
proof -
  have "\<not> sz < off + TLV_HEADER_SIZE"
    using assms unat_add_u32_id [of off 6] by (simp add: word_less_nat_alt max_block_def)
  moreover obtain len where "GetTlvSize (Some d) (unat off) = Some len"
    using assms by (auto simp: GetTlvSize_def)
  moreover have "\<not> sz < off" using assms by (simp add: word_less_nat_alt)
  ultimately show ?thesis by (auto simp: SkipUnknownTlv_def Let_def)
qed

lemma skip_unknown_progress_witness:
  "SkipUnknownTlv (Some [0, 1, 0, 0, 0, 0]) 6 0 = Some (0, True)"
proof -
  have "unat (0 :: u32) + 6 \<le> unat (6 :: u32)" "unat (6 :: u32) \<le> length [0, 1, 0, 0, 0, 0 :: u8]"
    "unat (6 :: u32) \<le> max_block" by (simp_all add: max_block_def)
  from skip_unknown_progress [OF this] show ?thesis
    by (auto simp: GetTlvSize_def of_be32_def be_dec_def)
qed

lemma suspicious_heads: "ss \<in> set suspiscious_strings \<Longrightarrow> ss \<noteq> []"
  by (auto simp: suspiscious_strings_def ascii_def)

lemma find_decoded_sublist:
  "ss \<noteq> [] \<Longrightarrow> find_decoded_string s ss \<Longrightarrow> sublist ss (percent_decode s)"
  using match_from_sound [of 0 ss "percent_decode s"]
  by (simp add: find_decoded_string_def find_decoded_match)

text \<open>C35. The filter blanks a string out only if one of the suspicious strings occurs in it after percent
  decoding, and it finds every such occurrence that no earlier character equal to the first
  character of the suspicious string precedes.\<close>

theorem svg_filter_sound_complete:
  shows "(remove_suspicious s \<noteq> s \<longrightarrow>
      (\<exists>ss \<in> set suspiscious_strings. sublist ss (percent_decode s))) \<and>
    (\<forall>ss \<in> set suspiscious_strings. \<forall>xs ys. percent_decode s = xs @ ss @ ys \<and> hd ss \<notin> set xs \<longrightarrow>
      remove_suspicious s = map (\<lambda>k. if k < length err_in then err_in ! k else 0x20) [0..<length s])"
proof (intro conjI ballI allI impI)
  assume "remove_suspicious s \<noteq> s"
  then obtain ss where "ss \<in> set suspiscious_strings" "find_decoded_string s ss"
    by (auto simp: remove_suspicious_def list_ex_iff split: if_splits)
  then show "\<exists>ss \<in> set suspiscious_strings. sublist ss (percent_decode s)"
    using find_decoded_sublist suspicious_heads by blast
next
  fix ss xs ys
  assume "ss \<in> set suspiscious_strings" "percent_decode s = xs @ ss @ ys \<and> hd ss \<notin> set xs"
  then have "find_decoded_string s ss"
    using match_from_complete [of ss xs ys] suspicious_heads [of ss]
    by (simp add: find_decoded_string_def find_decoded_match)
  then show "remove_suspicious s =
      map (\<lambda>k. if k < length err_in then err_in ! k else 0x20) [0..<length s]"
    using \<open>ss \<in> set suspiscious_strings\<close> by (auto simp: remove_suspicious_def list_ex_iff)
qed

lemma svg_filter_sound_complete_witness:
  "remove_suspicious (ascii ''a%3C!e'') = ascii ''**** S''"
  using conjunct2 [OF svg_filter_sound_complete [of "ascii ''a%3C!e''"], rule_format,
      of "ascii ''<!e''" "ascii ''a''" "[]"]
  by (simp add: suspiscious_strings_def ascii_def readHex_def hexDigit_def err_in_def upt_rec)

text \<open>The filter misses an occurrence that a false start runs into: the entity declaration
  \<^verbatim>\<open><<!e\<close> passes, because the character that ends a partial match is not tried as a first
  character.\<close>

theorem svg_filter_bypass:
  "remove_suspicious (ascii ''<<!entity'') = ascii ''<<!entity'' \<and>
   sublist (ascii ''<!e'') (percent_decode (ascii ''<<!entity''))"
proof
  show "remove_suspicious (ascii ''<<!entity'') = ascii ''<<!entity''" by code_simp
  have "percent_decode (ascii ''<<!entity'') = [0x3c] @ ascii ''<!e'' @ ascii ''ntity''" by code_simp
  then show "sublist (ascii ''<!e'') (percent_decode (ascii ''<<!entity''))"
    by (simp only: sublist_appendI)
qed

text \<open>A string returned for one of the filtered types contains no control character other than NUL,
  and has the length the length field gives.\<close>

theorem tlv_string_no_control:
  assumes "GetTlvString t (Some d) sz off = Some (off', Some s)"
  shows "(filtered_type t \<longrightarrow> (\<forall>c \<in> set s. c = 0 \<or> 0x20 \<le> c)) \<and>
    (\<exists>len. GetTlvSize (Some d) (unat off) = Some len \<and> off' = off + len \<and> \<not> sz < off' \<and>
       length s = unat (len - 6))"
proof -
  obtain ty where ty: "GetTlvType (Some d) (unat off) = Some ty"
    using assms by (cases "GetTlvType (Some d) (unat off)") (simp_all add: GetTlvString_def split: if_splits)
  obtain len where len: "GetTlvSize (Some d) (unat off) = Some len"
    using assms ty
    by (cases "GetTlvSize (Some d) (unat off)") (simp_all add: GetTlvString_def split: if_splits)
  let ?p = "if len - 6 \<le> 0 then Some [] else peek (Some d) (unat off + 6) (unat (len - 6))"
  have no: "\<not> sz < off" "\<not> sz < off + len" "t = ty"
    using assms ty len by (auto simp: GetTlvString_def Let_def split: if_splits)
  obtain r where r: "?p = Some r"
    using assms ty len no by (cases ?p) (simp_all add: GetTlvString_def Let_def)
  have g: "off' = off + len" "s = remove_control t (remove_suspicious r)"
    using assms ty len no r by (simp_all add: GetTlvString_def Let_def)
  have "length r = unat (len - 6)" using r by (auto split: if_splits)
  moreover have "\<forall>c \<in> set (remove_control t x). c = 0 \<or> 0x20 \<le> c" if "filtered_type t" for x
    using that by (auto simp: remove_control_def word_gt_0 not_le)
  ultimately show ?thesis using g no len by auto
qed

lemma tlv_string_no_control_witness:
  "GetTlvString 0x51 (Some [0, 0x51, 0, 0, 0, 8, 0x07, 0x61]) 8 0 = Some (8, Some [0x20, 0x61]) \<and>
   (0x20 :: u8) \<le> 0x61 \<and> length [0x20, 0x61 :: u8] = 2"
proof -
  have a: "GetTlvString 0x51 (Some [0, 0x51, 0, 0, 0, 8, 0x07, 0x61]) 8 0 = Some (8, Some [0x20, 0x61])"
    by (simp add: GetTlvString_def GetTlvType_def GetTlvSize_def of_be16_def of_be32_def be_dec_def
        remove_control_def filtered_type_def remove_suspicious_def suspiscious_strings_def ascii_def
        find_decoded_string_def)
  from tlv_string_no_control [OF a] a show ?thesis by (simp add: filtered_type_def)
qed

end
