(* ===== verification/Sockaddr_Storage.thy ===== *)
theory Sockaddr_Storage
  imports RS_Prelude "HOL-Library.List_Lexorder" "HOL-Library.Product_Lexorder"
begin

text \<open>
  \<^verbatim>\<open>util/rsnet_ss.cc\<close> and the address tests of \<^verbatim>\<open>util/rsnet.cc\<close>. A \<^verbatim>\<open>sockaddr_storage\<close> is one block of
  128 bytes that the code reads either as a \<^verbatim>\<open>sockaddr_in\<close> or as a \<^verbatim>\<open>sockaddr_in6\<close>: the record has a
  field per piece of that memory, so that what one view writes the other view sees. The port is at
  offset 2 of both; \<open>ss_word\<close> (offset 4) is \<^verbatim>\<open>sin_addr.s_addr\<close> and \<^verbatim>\<open>sin6_flowinfo\<close>; \<open>ss_addr6\<close> (offset 8)
  is \<^verbatim>\<open>sin6_addr\<close>; then come \<^verbatim>\<open>sin6_scope_id\<close> and 100 bytes of padding. Fields hold what a
  little-endian host loads, so \<^verbatim>\<open>ntohs\<close> and \<^verbatim>\<open>ntohl\<close> swap bytes. \<^verbatim>\<open>inet_pton\<close> and
  \<^verbatim>\<open>if_nametoindex\<close> belong to the system and are parameters.
\<close>

subsection \<open>Memory and byte order\<close>

datatype in6_addr = In6_addr (h0: u16) (h1: u16) (h2: u16) (h3: u16) (h4: u16) (h5: u16) (h6: u16) (h7: u16)

record sockaddr_storage =
  ss_family :: u16
  ss_port :: u16
  ss_word :: u32
  ss_addr6 :: in6_addr
  ss_scope :: u32
  ss_rest :: bytes

abbreviation (input) AF_UNSPEC :: u16 where "AF_UNSPEC \<equiv> 0"
abbreviation (input) AF_INET :: u16 where "AF_INET \<equiv> 2"
abbreviation (input) AF_INET6 :: u16 where "AF_INET6 \<equiv> 10"

definition bswap16 :: "u16 \<Rightarrow> u16" where
  "bswap16 x = or (push_bit 8 x) (drop_bit 8 x)"

definition bswap32 :: "u32 \<Rightarrow> u32" where
  "bswap32 x = or (or (push_bit 24 (take_bit 8 x)) (push_bit 16 (take_bit 8 (drop_bit 8 x))))
      (or (push_bit 8 (take_bit 8 (drop_bit 16 x))) (take_bit 8 (drop_bit 24 x)))"

definition le32 :: "u16 \<Rightarrow> u16 \<Rightarrow> u32" where
  "le32 lo hi = word_of_nat (unat lo + 65536 * unat hi)"

definition lo16 :: "u32 \<Rightarrow> u16" where "lo16 w = word_of_nat (unat w mod 65536)"
definition hi16 :: "u32 \<Rightarrow> u16" where "hi16 w = word_of_nat (unat w div 65536)"

definition s6_addr16 :: "in6_addr \<Rightarrow> u16 list" where
  "s6_addr16 a = [h0 a, h1 a, h2 a, h3 a, h4 a, h5 a, h6 a, h7 a]"

definition s6_addr32 :: "in6_addr \<Rightarrow> u32 list" where
  "s6_addr32 a = [le32 (h0 a) (h1 a), le32 (h2 a) (h3 a), le32 (h4 a) (h5 a), le32 (h6 a) (h7 a)]"

definition in6_zero :: in6_addr where
  "in6_zero = In6_addr 0 0 0 0 0 0 0 0"

subsection \<open>Set, clear and copy\<close>

definition sockaddr_storage_clear :: sockaddr_storage where
  "sockaddr_storage_clear = \<lparr>ss_family = 0, ss_port = 0, ss_word = 0, ss_addr6 = in6_zero,
     ss_scope = 0, ss_rest = replicate 100 0\<rparr>"

definition sockaddr_storage_ipv4_zeroip :: "sockaddr_storage \<Rightarrow> bool \<times> sockaddr_storage" where
  "sockaddr_storage_ipv4_zeroip addr = (True, addr\<lparr>ss_word := 0\<rparr>)"

definition sockaddr_storage_ipv6_zeroip :: "sockaddr_storage \<Rightarrow> bool \<times> sockaddr_storage" where
  "sockaddr_storage_ipv6_zeroip addr = (True, addr\<lparr>ss_addr6 := in6_zero\<rparr>)"

definition sockaddr_storage_zeroip :: "sockaddr_storage \<Rightarrow> bool \<times> sockaddr_storage" where
  "sockaddr_storage_zeroip addr =
     (if ss_family addr = AF_INET then sockaddr_storage_ipv4_zeroip addr
      else if ss_family addr = AF_INET6 then sockaddr_storage_ipv6_zeroip addr
      else (False, sockaddr_storage_clear))"

definition sockaddr_storage_ipv4_copyip ::
    "sockaddr_storage \<Rightarrow> sockaddr_storage \<Rightarrow> bool \<times> sockaddr_storage" where
  "sockaddr_storage_ipv4_copyip dst src =
     (True, dst\<lparr>ss_family := AF_INET, ss_word := ss_word src\<rparr>)"

definition sockaddr_storage_ipv6_copyip ::
    "sockaddr_storage \<Rightarrow> sockaddr_storage \<Rightarrow> bool \<times> sockaddr_storage" where
  "sockaddr_storage_ipv6_copyip dst src =
     (True, dst\<lparr>ss_family := AF_INET6, ss_addr6 := ss_addr6 src\<rparr>)"

definition sockaddr_storage_copyip ::
    "sockaddr_storage \<Rightarrow> sockaddr_storage \<Rightarrow> bool \<times> sockaddr_storage" where
  "sockaddr_storage_copyip dst src =
     (if ss_family src = AF_INET then sockaddr_storage_ipv4_copyip dst src
      else if ss_family src = AF_INET6 then sockaddr_storage_ipv6_copyip dst src
      else (False, dst))"

definition sockaddr_storage_ipv4_port :: "sockaddr_storage \<Rightarrow> u16" where
  "sockaddr_storage_ipv4_port addr = bswap16 (ss_port addr)"

definition sockaddr_storage_ipv6_port :: "sockaddr_storage \<Rightarrow> u16" where
  "sockaddr_storage_ipv6_port addr = bswap16 (ss_port addr)"

definition sockaddr_storage_port :: "sockaddr_storage \<Rightarrow> u16" where
  "sockaddr_storage_port addr =
     (if ss_family addr = AF_INET then sockaddr_storage_ipv4_port addr
      else if ss_family addr = AF_INET6 then sockaddr_storage_ipv6_port addr
      else 0)"

definition sockaddr_storage_ipv4_setport :: "sockaddr_storage \<Rightarrow> u16 \<Rightarrow> bool \<times> sockaddr_storage" where
  "sockaddr_storage_ipv4_setport addr port = (True, addr\<lparr>ss_port := bswap16 port\<rparr>)"

definition sockaddr_storage_ipv6_setport :: "sockaddr_storage \<Rightarrow> u16 \<Rightarrow> bool \<times> sockaddr_storage" where
  "sockaddr_storage_ipv6_setport addr port = (True, addr\<lparr>ss_port := bswap16 port\<rparr>)"

definition sockaddr_storage_setport :: "sockaddr_storage \<Rightarrow> u16 \<Rightarrow> bool \<times> sockaddr_storage" where
  "sockaddr_storage_setport addr port =
     (if ss_family addr = AF_INET then sockaddr_storage_ipv4_setport addr port
      else if ss_family addr = AF_INET6 then sockaddr_storage_ipv6_setport addr port
      else (False, addr))"

text \<open>The structure argument of the two setters is given by the fields they read.\<close>

definition sockaddr_storage_setipv4 :: "u32 \<Rightarrow> u16 \<Rightarrow> bool \<times> sockaddr_storage" where
  "sockaddr_storage_setipv4 sin_addr sin_port =
     (True, sockaddr_storage_clear\<lparr>ss_family := AF_INET, ss_word := sin_addr, ss_port := sin_port\<rparr>)"

definition sockaddr_storage_setipv6 :: "in6_addr \<Rightarrow> u16 \<Rightarrow> bool \<times> sockaddr_storage" where
  "sockaddr_storage_setipv6 sin6_addr sin6_port =
     (True, sockaddr_storage_clear\<lparr>ss_family := AF_INET6, ss_addr6 := sin6_addr,
        ss_port := sin6_port\<rparr>)"

text \<open>The result is the new value of \<^verbatim>\<open>dst\<close>; \<open>same_object\<close> is \<^verbatim>\<open>&src == &dst\<close>.\<close>

definition sockaddr_storage_copy :: "bool \<Rightarrow> sockaddr_storage \<Rightarrow> bool \<times> sockaddr_storage" where
  "sockaddr_storage_copy same_object src =
     (if same_object then (True, src)
      else if ss_family src = AF_INET then
        (True, sockaddr_storage_clear\<lparr>ss_family := AF_INET, ss_word := ss_word src,
           ss_port := ss_port src\<rparr>)
      else if ss_family src = AF_INET6 then
        (True, sockaddr_storage_clear\<lparr>ss_family := AF_INET6, ss_addr6 := ss_addr6 src,
           ss_word := ss_word src, ss_port := ss_port src, ss_scope := ss_scope src\<rparr>)
      else (True, src))"

subsection \<open>Between IPv4 and mapped IPv6\<close>

definition sockaddr_storage_ipv4_to_ipv6 :: "sockaddr_storage \<Rightarrow> bool \<times> sockaddr_storage" where
  "sockaddr_storage_ipv4_to_ipv6 addr =
     (if ss_family addr = AF_INET6 then (True, addr)
      else if ss_family addr = AF_INET then
        (let ip = ss_word addr; port = ss_port addr in
         (True, sockaddr_storage_clear\<lparr>ss_family := AF_INET6, ss_port := port,
            ss_addr6 := In6_addr 0 0 0 0 0 (bswap16 0xffff) (lo16 ip) (hi16 ip)\<rparr>))
      else (False, addr))"

definition ipv4_mapped :: "in6_addr \<Rightarrow> bool" where
  "ipv4_mapped a =
     (h5 a = bswap16 0xffff \<and> list_all (\<lambda>i. s6_addr16 a ! i = bswap16 0) [0..<5])"

definition sockaddr_storage_ipv6_to_ipv4 :: "sockaddr_storage \<Rightarrow> bool \<times> sockaddr_storage" where
  "sockaddr_storage_ipv6_to_ipv4 addr =
     (if ss_family addr = AF_INET then (True, addr)
      else if ss_family addr = AF_INET6 \<and> ipv4_mapped (ss_addr6 addr) then
        (let ip = le32 (h6 (ss_addr6 addr)) (h7 (ss_addr6 addr)); port = ss_port addr in
         (True, sockaddr_storage_clear\<lparr>ss_family := AF_INET, ss_port := port, ss_word := ip\<rparr>))
      else (False, addr))"

subsection \<open>Comparisons\<close>

definition sockaddr_storage_samefamily :: "sockaddr_storage \<Rightarrow> sockaddr_storage \<Rightarrow> bool" where
  "sockaddr_storage_samefamily addr addr2 = (ss_family addr = ss_family addr2)"

definition sockaddr_storage_ipv4_lessthan :: "sockaddr_storage \<Rightarrow> sockaddr_storage \<Rightarrow> bool" where
  "sockaddr_storage_ipv4_lessthan a b =
     (if ss_word a = ss_word b then ss_port a < ss_port b else ss_word a < ss_word b)"

definition sockaddr_storage_ipv4_same :: "sockaddr_storage \<Rightarrow> sockaddr_storage \<Rightarrow> bool" where
  "sockaddr_storage_ipv4_same a b = (ss_word a = ss_word b \<and> ss_port a = ss_port b)"

definition sockaddr_storage_ipv4_sameip :: "sockaddr_storage \<Rightarrow> sockaddr_storage \<Rightarrow> bool" where
  "sockaddr_storage_ipv4_sameip a b = (ss_word a = ss_word b)"

text \<open>The loops over the four words of two IPv6 addresses.\<close>

fun words_less :: "u32 list \<Rightarrow> u32 list \<Rightarrow> bool \<Rightarrow> bool" where
  "words_less (x # xs) (y # ys) tie = (if x = y then words_less xs ys tie else x < y)"
| "words_less _ _ tie = tie"

fun words_same :: "u32 list \<Rightarrow> u32 list \<Rightarrow> bool" where
  "words_same (x # xs) (y # ys) = (if x \<noteq> y then False else words_same xs ys)"
| "words_same _ _ = True"

definition sockaddr_storage_ipv6_lessthan :: "sockaddr_storage \<Rightarrow> sockaddr_storage \<Rightarrow> bool" where
  "sockaddr_storage_ipv6_lessthan a b =
     words_less (s6_addr32 (ss_addr6 a)) (s6_addr32 (ss_addr6 b)) (ss_port a < ss_port b)"

definition sockaddr_storage_ipv6_sameip :: "sockaddr_storage \<Rightarrow> sockaddr_storage \<Rightarrow> bool" where
  "sockaddr_storage_ipv6_sameip a b =
     words_same (s6_addr32 (ss_addr6 a)) (s6_addr32 (ss_addr6 b))"

definition sockaddr_storage_ipv6_same :: "sockaddr_storage \<Rightarrow> sockaddr_storage \<Rightarrow> bool" where
  "sockaddr_storage_ipv6_same a b =
     (sockaddr_storage_ipv6_sameip a b \<and> ss_port a = ss_port b)"

definition sockaddr_storage_less :: "sockaddr_storage \<Rightarrow> sockaddr_storage \<Rightarrow> bool" where
  "sockaddr_storage_less a b =
     (if \<not> sockaddr_storage_samefamily a b then ss_family a < ss_family b
      else if ss_family a = AF_INET then sockaddr_storage_ipv4_lessthan a b
      else if ss_family a = AF_INET6 then sockaddr_storage_ipv6_lessthan a b
      else False)"

definition sockaddr_storage_same :: "sockaddr_storage \<Rightarrow> sockaddr_storage \<Rightarrow> bool" where
  "sockaddr_storage_same a b =
     (if \<not> sockaddr_storage_samefamily a b then False
      else if ss_family a = AF_INET then sockaddr_storage_ipv4_same a b
      else if ss_family a = AF_INET6 then sockaddr_storage_ipv6_same a b
      else False)"

definition sockaddr_storage_sameip :: "sockaddr_storage \<Rightarrow> sockaddr_storage \<Rightarrow> bool" where
  "sockaddr_storage_sameip a b =
     (if \<not> sockaddr_storage_samefamily a b then False
      else if ss_family a = AF_INET then sockaddr_storage_ipv4_sameip a b
      else if ss_family a = AF_INET6 then sockaddr_storage_ipv6_sameip a b
      else False)"

subsection \<open>Network checks\<close>

text \<open>The tests of \<^verbatim>\<open>rsnet.cc\<close> take the \<^verbatim>\<open>s_addr\<close> word as stored.\<close>

definition isValidNet :: "u32 \<Rightarrow> bool" where
  "isValidNet s_addr = (if s_addr = 0xffffffff then False else if s_addr = 0 then False else True)"

definition isLoopbackNet :: "u32 \<Rightarrow> bool" where
  "isLoopbackNet s_addr = (bswap32 s_addr = or (push_bit 24 127) 1)"

definition isPrivateNet :: "u32 \<Rightarrow> bool" where
  "isPrivateNet s_addr =
     (let taddr = bswap32 s_addr in
      drop_bit 24 taddr = 10 \<or>
      drop_bit 20 taddr = or (push_bit 4 172) (drop_bit 4 16) \<or>
      drop_bit 16 taddr = or (push_bit 8 192) 168 \<or>
      drop_bit 16 taddr = or (push_bit 8 169) 254)"

definition isLinkLocalNet :: "u32 \<Rightarrow> bool" where
  "isLinkLocalNet s_addr = (drop_bit 16 (bswap32 s_addr) = or (push_bit 8 169) 254)"

definition isExternalNet :: "u32 \<Rightarrow> bool" where
  "isExternalNet s_addr =
     (if \<not> isValidNet s_addr then False
      else if isLoopbackNet s_addr then False
      else if isPrivateNet s_addr then False
      else True)"

definition sockaddr_storage_ipv4_isnull :: "sockaddr_storage \<Rightarrow> bool" where
  "sockaddr_storage_ipv4_isnull addr =
     (if ss_family addr \<noteq> AF_INET then True
      else if ss_word addr = 0 \<or> ss_word addr = 1 then True
      else False)"

definition sockaddr_storage_ipv4_isValidNet :: "sockaddr_storage \<Rightarrow> bool" where
  "sockaddr_storage_ipv4_isValidNet addr =
     (if ss_family addr \<noteq> AF_INET then False else isValidNet (ss_word addr))"

definition sockaddr_storage_ipv4_isLoopbackNet :: "sockaddr_storage \<Rightarrow> bool" where
  "sockaddr_storage_ipv4_isLoopbackNet addr =
     (if ss_family addr \<noteq> AF_INET then False else isLoopbackNet (ss_word addr))"

definition sockaddr_storage_ipv4_isPrivateNet :: "sockaddr_storage \<Rightarrow> bool" where
  "sockaddr_storage_ipv4_isPrivateNet addr =
     (if ss_family addr \<noteq> AF_INET then False else isPrivateNet (ss_word addr))"

definition sockaddr_storage_ipv4_isExternalNet :: "sockaddr_storage \<Rightarrow> bool" where
  "sockaddr_storage_ipv4_isExternalNet addr =
     (if ss_family addr \<noteq> AF_INET then False else isExternalNet (ss_word addr))"

text \<open>The code computes \<open>isZero\<close> but returns \<open>nZero\<close>, the constant zero.\<close>

definition sockaddr_storage_ipv6_isnull :: "sockaddr_storage \<Rightarrow> bool" where
  "sockaddr_storage_ipv6_isnull addr =
     (let nZero = bswap16 0;
          isZero = (h7 (ss_addr6 addr) = nZero \<and>
            list_all (\<lambda>i. s6_addr16 (ss_addr6 addr) ! i = nZero) [0..<7])
      in nZero \<noteq> 0)"

definition sockaddr_storage_ipv6_isValidNet :: "sockaddr_storage \<Rightarrow> bool" where
  "sockaddr_storage_ipv6_isValidNet addr = (\<not> sockaddr_storage_ipv6_isnull addr)"

definition sockaddr_storage_ipv6_isLoopbackNet :: "sockaddr_storage \<Rightarrow> bool" where
  "sockaddr_storage_ipv6_isLoopbackNet addr =
     (h7 (ss_addr6 addr) = bswap16 1 \<and>
      list_all (\<lambda>i. s6_addr16 (ss_addr6 addr) ! i = bswap16 0) [0..<7])"

definition sockaddr_storage_ipv6_isPrivateNet :: "sockaddr_storage \<Rightarrow> bool" where
  "sockaddr_storage_ipv6_isPrivateNet addr = True"

definition sockaddr_storage_ipv6_isExternalNet :: "sockaddr_storage \<Rightarrow> bool" where
  "sockaddr_storage_ipv6_isExternalNet addr = False"

definition sockaddr_storage_ipv6_isLinkLocalNet :: "sockaddr_storage \<Rightarrow> bool" where
  "sockaddr_storage_ipv6_isLinkLocalNet addr =
     (if ss_family addr \<noteq> AF_INET6 then False
      else and (h0 (ss_addr6 addr)) (bswap16 0xffc0) = bswap16 0xfe80)"

definition sockaddr_storage_isnull :: "sockaddr_storage \<Rightarrow> bool" where
  "sockaddr_storage_isnull addr =
     (if ss_family addr = AF_UNSPEC then True
      else if ss_family addr = AF_INET then sockaddr_storage_ipv4_isnull addr
      else if ss_family addr = AF_INET6 then sockaddr_storage_ipv6_isnull addr
      else True)"

definition sockaddr_storage_isValidNet :: "sockaddr_storage \<Rightarrow> bool" where
  "sockaddr_storage_isValidNet addr =
     (if ss_family addr = AF_INET then sockaddr_storage_ipv4_isValidNet addr
      else if ss_family addr = AF_INET6 then sockaddr_storage_ipv6_isValidNet addr
      else False)"

definition sockaddr_storage_isLoopbackNet :: "sockaddr_storage \<Rightarrow> bool" where
  "sockaddr_storage_isLoopbackNet pAddr =
     (let addr = snd (sockaddr_storage_ipv6_to_ipv4 (snd (sockaddr_storage_copy False pAddr))) in
      if ss_family addr = AF_INET then sockaddr_storage_ipv4_isLoopbackNet addr
      else if ss_family addr = AF_INET6 then sockaddr_storage_ipv6_isLoopbackNet addr
      else False)"

definition sockaddr_storage_isPrivateNet :: "sockaddr_storage \<Rightarrow> bool" where
  "sockaddr_storage_isPrivateNet addr =
     (if ss_family addr = AF_INET then sockaddr_storage_ipv4_isPrivateNet addr
      else if ss_family addr = AF_INET6 then sockaddr_storage_ipv6_isPrivateNet addr
      else False)"

definition sockaddr_storage_isLinkLocalNet :: "sockaddr_storage \<Rightarrow> bool" where
  "sockaddr_storage_isLinkLocalNet addr =
     (if ss_family addr = AF_INET then isLinkLocalNet (ss_word addr)
      else if ss_family addr = AF_INET6 then sockaddr_storage_ipv6_isLinkLocalNet addr
      else False)"

definition sockaddr_storage_isExternalNet :: "sockaddr_storage \<Rightarrow> bool" where
  "sockaddr_storage_isExternalNet addr =
     (if ss_family addr = AF_INET then sockaddr_storage_ipv4_isExternalNet addr
      else if ss_family addr = AF_INET6 then sockaddr_storage_ipv6_isExternalNet addr
      else False)"

subsection \<open>Parsing\<close>

text \<open>\<^verbatim>\<open>std::atoi\<close>: white space, a sign, digits. Its \<^verbatim>\<open>int\<close> result is stored in an unsigned word; an
  overflowing number is undefined in C and taken modulo the word size here.\<close>

definition char_code :: "char \<Rightarrow> nat" where "char_code c = of_char c"

definition is_space :: "char \<Rightarrow> bool" where
  "is_space c = (char_code c = 32 \<or> 9 \<le> char_code c \<and> char_code c \<le> 13)"

definition is_digit :: "char \<Rightarrow> bool" where
  "is_digit c = (48 \<le> char_code c \<and> char_code c \<le> 57)"

definition digits_value :: "string \<Rightarrow> int" where
  "digits_value s = foldl (\<lambda>n c. 10 * n + int (char_code c - 48)) 0 (takeWhile is_digit s)"

definition atoi :: "string \<Rightarrow> int" where
  "atoi s =
     (case dropWhile is_space s of
        [] \<Rightarrow> 0
      | c # r \<Rightarrow>
          (if c = CHR ''-'' then - digits_value r
           else if c = CHR ''+'' then digits_value r
           else digits_value (c # r)))"

function sockaddr_storage_inet_pton :: "(string \<Rightarrow> in6_addr option) \<Rightarrow> (string \<Rightarrow> u32 option) \<Rightarrow>
    (string \<Rightarrow> u32) \<Rightarrow> string \<Rightarrow> bool \<times> sockaddr_storage" where
  "sockaddr_storage_inet_pton pton6 pton4 if_nametoindex ipStr =
     (let addr = sockaddr_storage_clear in
      case pton6 ipStr of
        Some a6 \<Rightarrow> (True, addr\<lparr>ss_addr6 := a6, ss_family := AF_INET6\<rparr>)
      | None \<Rightarrow>
          (case pton4 ipStr of
             Some w \<Rightarrow> sockaddr_storage_ipv4_to_ipv6 (addr\<lparr>ss_word := w, ss_family := AF_INET\<rparr>)
           | None \<Rightarrow>
               (let pos = length (takeWhile (\<lambda>c. c \<noteq> CHR ''%'') ipStr) in
                if pos < length ipStr \<and> pos + 1 < length ipStr \<and> pos > 3 then
                  (case sockaddr_storage_inet_pton pton6 pton4 if_nametoindex (take pos ipStr) of
                     (False, addr1) \<Rightarrow> (False, addr1)
                   | (True, addr1) \<Rightarrow>
                       (let n = word_of_int (atoi (drop (pos + 1) ipStr));
                            scopeId = (if n = 0 then if_nametoindex (drop (pos + 1) ipStr) else n)
                        in (scopeId \<noteq> 0, addr1\<lparr>ss_scope := scopeId\<rparr>)))
                else (False, addr))))"
  by pat_completeness auto
termination
  by (relation "measure (\<lambda>(_, _, _, s). length s)") auto

declare sockaddr_storage_inet_pton.simps [simp del]

subsection \<open>Byte order lemmas\<close>

lemma bswap16_bswap16 [simp]: "bswap16 (bswap16 x) = x"
  by (rule bit_word_eqI) (auto simp: bswap16_def bit_simps)

lemma bswap16_eq_iff [simp]: "bswap16 x = bswap16 y \<longleftrightarrow> x = y"
  by (metis bswap16_bswap16)

lemma bswap16_0 [simp]: "bswap16 0 = 0"
  by (simp add: bswap16_def)

lemma bswap32_bit:
  "bit (bswap32 x) n \<longleftrightarrow> n < 32 \<and> bit x (if n < 8 then n + 24 else if n < 16 then n + 8
     else if n < 24 then n - 8 else n - 24)"
  by (auto simp: bswap32_def bit_simps add.commute dest: bit_imp_le_length)

lemma bswap32_bswap32 [simp]: "bswap32 (bswap32 x) = x"
  by (rule bit_word_eqI) (auto simp: bswap32_bit)

lemma bswap32_eq_iff [simp]: "bswap32 x = bswap32 y \<longleftrightarrow> x = y"
  by (metis bswap32_bswap32)

lemma unat_u16_less: "unat (x :: u16) < 65536"
  using unsigned_less [of x] by simp

lemma unat_le32: "unat (le32 lo hi) = unat lo + 65536 * unat hi"
  unfolding le32_def using unat_u16_less [of lo] unat_u16_less [of hi]
  by (intro word_of_nat_less_u32) simp

lemma le32_eq_iff [simp]: "le32 a b = le32 c d \<longleftrightarrow> a = c \<and> b = d"
proof
  assume "le32 a b = le32 c d"
  then have e: "unat a + 65536 * unat b = unat c + 65536 * unat d" by (metis unat_le32)
  then have "(unat a + 65536 * unat b) mod 65536 = (unat c + 65536 * unat d) mod 65536" by simp
  then have "unat a = unat c" using unat_u16_less [of a] unat_u16_less [of c] by simp
  with e show "a = c \<and> b = d" by (simp add: word_unat_eq_iff)
qed simp

lemma le32_lo16_hi16 [simp]: "le32 (lo16 w) (hi16 w) = w"
proof -
  have "unat (lo16 w) = unat w mod 65536"
    by (simp add: lo16_def unat_of_nat)
  moreover have "unat w div 65536 < 65536" using unat_u32_less [of w] by simp
  then have "unat (hi16 w) = unat w div 65536"
    by (simp add: hi16_def unat_of_nat)
  ultimately have "unat (le32 (lo16 w) (hi16 w)) = unat w" by (simp add: unat_le32)
  then show ?thesis by (simp only: word_unat_eq_iff)
qed

lemma s6_addr32_inject [simp]: "s6_addr32 a = s6_addr32 b \<longleftrightarrow> a = b"
  by (cases a; cases b) (auto simp: s6_addr32_def)

subsection \<open>IPv6 addresses as a linear order\<close>

text \<open>The order of \<^verbatim>\<open>sockaddr_storage_ipv6_lessthan\<close> on addresses is the lexicographic order of their
  four words.\<close>

instantiation in6_addr :: linorder
begin

definition less_in6_addr :: "in6_addr \<Rightarrow> in6_addr \<Rightarrow> bool" where
  "less_in6_addr a b = (s6_addr32 a < s6_addr32 b)"

definition less_eq_in6_addr :: "in6_addr \<Rightarrow> in6_addr \<Rightarrow> bool" where
  "less_eq_in6_addr a b = (s6_addr32 a \<le> s6_addr32 b)"

instance
  by standard (auto simp: less_in6_addr_def less_eq_in6_addr_def order.strict_iff_order)

end

lemma words_less_lex:
  "length xs = length ys \<Longrightarrow> words_less xs ys tie \<longleftrightarrow> xs < ys \<or> xs = ys \<and> tie"
  by (induction xs ys rule: list_induct2) auto

lemma words_same_eq: "length xs = length ys \<Longrightarrow> words_same xs ys \<longleftrightarrow> xs = ys"
  by (induction xs ys rule: list_induct2) auto

lemma ipv6_lessthan_iff:
  "sockaddr_storage_ipv6_lessthan a b \<longleftrightarrow> (ss_addr6 a, ss_port a) < (ss_addr6 b, ss_port b)"
proof -
  have "length (s6_addr32 (ss_addr6 a)) = length (s6_addr32 (ss_addr6 b))"
    by (simp add: s6_addr32_def)
  then show ?thesis
    by (auto simp: sockaddr_storage_ipv6_lessthan_def words_less_lex less_in6_addr_def
        less_eq_in6_addr_def less_prod_def)
qed

lemma ipv6_sameip_iff: "sockaddr_storage_ipv6_sameip a b \<longleftrightarrow> ss_addr6 a = ss_addr6 b"
proof -
  have "length (s6_addr32 (ss_addr6 a)) = length (s6_addr32 (ss_addr6 b))"
    by (simp add: s6_addr32_def)
  then show ?thesis by (simp add: sockaddr_storage_ipv6_sameip_def words_same_eq)
qed

text \<open>What the comparison of two addresses looks at.\<close>

definition ss_key :: "sockaddr_storage \<Rightarrow> u16 \<times> u32 \<times> in6_addr \<times> u16" where
  "ss_key a =
     (ss_family a,
      if ss_family a = AF_INET then ss_word a else 0,
      if ss_family a = AF_INET6 then ss_addr6 a else in6_zero,
      if ss_family a = AF_INET \<or> ss_family a = AF_INET6 then ss_port a else 0)"

lemma less_iff_key: "sockaddr_storage_less a b \<longleftrightarrow> ss_key a < ss_key b"
  by (auto simp: sockaddr_storage_less_def ss_key_def sockaddr_storage_samefamily_def
      sockaddr_storage_ipv4_lessthan_def ipv6_lessthan_iff less_prod_def)

lemma same_iff_key:
  "sockaddr_storage_same a b \<longleftrightarrow>
     ss_key a = ss_key b \<and> (ss_family a = AF_INET \<or> ss_family a = AF_INET6)"
  by (auto simp: sockaddr_storage_same_def ss_key_def sockaddr_storage_samefamily_def
      sockaddr_storage_ipv4_same_def sockaddr_storage_ipv6_same_def ipv6_sameip_iff)

subsection \<open>The contract of a map key\<close>

text \<open>What \<^verbatim>\<open>std::map\<close> and \<^verbatim>\<open>std::set\<close> ask of the comparison of their keys, and what follows for the
  equivalence by which they identify keys.\<close>

locale key_compare =
  fixes less_than :: "'a \<Rightarrow> 'a \<Rightarrow> bool"
  assumes irreflexive: "\<not> less_than a a"
    and transitive: "less_than a b \<Longrightarrow> less_than b c \<Longrightarrow> less_than a c"
    and incomparable_trans: "\<not> less_than a b \<Longrightarrow> \<not> less_than b c \<Longrightarrow> \<not> less_than a c"
begin

lemma asymmetric: "less_than a b \<Longrightarrow> \<not> less_than b a"
  using irreflexive transitive by blast

lemma equivalent_trans:
  "\<not> less_than a b \<Longrightarrow> \<not> less_than b a \<Longrightarrow> \<not> less_than b c \<Longrightarrow> \<not> less_than c b \<Longrightarrow>
   \<not> less_than a c \<and> \<not> less_than c a"
  using incomparable_trans by blast

lemma equivalent_less: "\<not> less_than a b \<Longrightarrow> \<not> less_than b a \<Longrightarrow> less_than a c \<longleftrightarrow> less_than b c"
  using incomparable_trans by blast

end

interpretation ss_order: key_compare sockaddr_storage_less
  by unfold_locales (auto simp: less_iff_key)

subsection \<open>Properties\<close>

text \<open>The comparison that keys maps by address is a strict weak order, and on IPv4 and IPv6
  addresses it identifies exactly the addresses \<^verbatim>\<open>sockaddr_storage_same\<close> calls the same.\<close>

theorem sockaddr_less_weak_order:
  shows "\<not> sockaddr_storage_less a a \<and>
    (sockaddr_storage_less a b \<and> sockaddr_storage_less b c \<longrightarrow> sockaddr_storage_less a c) \<and>
    (\<not> sockaddr_storage_less a b \<and> \<not> sockaddr_storage_less b a \<longrightarrow>
       sockaddr_storage_less a c = sockaddr_storage_less b c) \<and>
    (ss_family a = AF_INET \<or> ss_family a = AF_INET6 \<longrightarrow>
       (\<not> sockaddr_storage_less a b \<and> \<not> sockaddr_storage_less b a) = sockaddr_storage_same a b)"
proof (intro conjI impI)
  show "\<not> sockaddr_storage_less a a" by (rule ss_order.irreflexive)
next
  assume "sockaddr_storage_less a b \<and> sockaddr_storage_less b c"
  then show "sockaddr_storage_less a c" using ss_order.transitive by blast
next
  assume "\<not> sockaddr_storage_less a b \<and> \<not> sockaddr_storage_less b a"
  then show "sockaddr_storage_less a c = sockaddr_storage_less b c"
    using ss_order.equivalent_less by blast
next
  assume "ss_family a = AF_INET \<or> ss_family a = AF_INET6"
  then show "(\<not> sockaddr_storage_less a b \<and> \<not> sockaddr_storage_less b a) = sockaddr_storage_same a b"
    by (auto simp: less_iff_key same_iff_key)
qed

text \<open>An IPv4 address survives the detour through mapped IPv6 (family, address and port; everything
  else is cleared), and only mapped addresses are converted back.\<close>

theorem ipv4_mapped_round_trip:
  assumes "ss_family a = AF_INET"
  shows "(\<exists>b. sockaddr_storage_ipv4_to_ipv6 a = (True, b) \<and> ss_family b = AF_INET6 \<and>
      sockaddr_storage_port b = sockaddr_storage_port a \<and>
      sockaddr_storage_ipv6_to_ipv4 b = sockaddr_storage_copy False a) \<and>
    (ss_family c = AF_INET6 \<and> sockaddr_storage_ipv6_to_ipv4 c = (True, a') \<longrightarrow>
      ss_family a' = AF_INET \<and> take 6 (s6_addr16 (ss_addr6 c)) = [0, 0, 0, 0, 0, 0xffff])"
  using assms
  by (auto simp: sockaddr_storage_ipv4_to_ipv6_def sockaddr_storage_ipv6_to_ipv4_def Let_def
      sockaddr_storage_copy_def ipv4_mapped_def s6_addr16_def upt_rec sockaddr_storage_port_def
      sockaddr_storage_ipv4_port_def sockaddr_storage_ipv6_port_def bswap16_def split: if_splits)

lemma drop_bit_eq_iff:
  "drop_bit n (w :: u32) = v \<longleftrightarrow> unat w div 2 ^ n = unat v"
  unfolding word_unat_eq_iff unat_drop_bit_eq by (simp add: drop_bit_eq_div)

lemma div_mod_eq_iff:
  fixes q :: nat
  shows "b < k \<Longrightarrow> q = k * a + b \<longleftrightarrow> q div k = a \<and> q mod k = b"
  by (auto simp: mult.commute)

lemma private_prefixes:
  fixes a :: nat
  shows "a div 2 ^ 24 = 10 \<or> a div 2 ^ 20 = 2753 \<or> a div 2 ^ 16 = 49320 \<or> a div 2 ^ 16 = 43518 \<longleftrightarrow>
    a div 2 ^ 24 = 10 \<or> (a div 2 ^ 24 = 172 \<and> 16 \<le> a div 2 ^ 16 mod 256 \<and> a div 2 ^ 16 mod 256 \<le> 31) \<or>
    (a div 2 ^ 24 = 192 \<and> a div 2 ^ 16 mod 256 = 168) \<or>
    (a div 2 ^ 24 = 169 \<and> a div 2 ^ 16 mod 256 = 254)"
proof -
  define q where "q = a div 2 ^ 16"
  have "a div 2 ^ 24 = q div 256" "a div 2 ^ 20 = q div 16"
    by (simp_all add: q_def flip: div_mult2_eq)
  moreover have "q div 16 = 2753 \<longleftrightarrow> q div 256 = 172 \<and> 16 \<le> q mod 256 \<and> q mod 256 \<le> 31"
  proof -
    have "q div 16 = 2753 \<longleftrightarrow> q div 256 = 172 \<and> q div 16 mod 16 = 1"
      using div_mod_eq_iff [of 1 16 "q div 16" 172] by (simp flip: div_mult2_eq)
    moreover have "q mod 256 = 16 * (q div 16 mod 16) + q mod 16"
      using mod_mult2_eq [of q 16 16] by simp
    moreover have "q mod 16 < 16" by simp
    ultimately show ?thesis by linarith
  qed
  moreover have "q = 49320 \<longleftrightarrow> q div 256 = 192 \<and> q mod 256 = 168"
    using div_mod_eq_iff [of 168 256 q 192] by simp
  moreover have "q = 43518 \<longleftrightarrow> q div 256 = 169 \<and> q mod 256 = 254"
    using div_mod_eq_iff [of 254 256 q 169] by simp
  ultimately show ?thesis unfolding q_def [symmetric] by simp
qed

lemma ipv4_mapped_round_trip_witness:
  "\<exists>b. sockaddr_storage_ipv4_to_ipv6 (snd (sockaddr_storage_setipv4 0x0100007f 9)) = (True, b) \<and>
     ss_family b = AF_INET6"
  using ipv4_mapped_round_trip [of "snd (sockaddr_storage_setipv4 0x0100007f 9)"]
  by (auto simp: sockaddr_storage_setipv4_def)

lemma sockaddr_less_weak_order_witness:
  "sockaddr_storage_less (snd (sockaddr_storage_setipv4 1 9)) (snd (sockaddr_storage_setipv6 in6_zero 0)) \<and>
   \<not> sockaddr_storage_less (snd (sockaddr_storage_setipv4 1 9)) (snd (sockaddr_storage_setipv4 1 9))"
  using sockaddr_less_weak_order [of "snd (sockaddr_storage_setipv4 1 9)"
      "snd (sockaddr_storage_setipv4 1 9)" "snd (sockaddr_storage_setipv4 1 9)"]
  by (simp add: sockaddr_storage_less_def sockaddr_storage_samefamily_def sockaddr_storage_setipv4_def
      sockaddr_storage_setipv6_def)

text \<open>The private IPv4 networks are 10/8, 172.16/12, 192.168/16 and 169.254/16, and the external
  addresses are all others but 0.0.0.0, 255.255.255.255 and 127.0.0.1, where \<open>a\<close> is the address in
  host order and \<open>b0\<close>, \<open>b1\<close> are its first two bytes.\<close>

theorem external_networks:
  fixes s :: u32
  defines "a \<equiv> unat (bswap32 s)"
  defines "b0 \<equiv> a div 2 ^ 24" and "b1 \<equiv> a div 2 ^ 16 mod 256"
  shows "isExternalNet s \<longleftrightarrow>
     a \<noteq> 0 \<and> a \<noteq> 4294967295 \<and> a \<noteq> 2130706433 \<and>
     \<not> (b0 = 10 \<or> (b0 = 172 \<and> 16 \<le> b1 \<and> b1 \<le> 31) \<or> (b0 = 192 \<and> b1 = 168) \<or>
        (b0 = 169 \<and> b1 = 254))"
proof -
  have z: "s = 0 \<longleftrightarrow> a = 0" and f: "s = 0xffffffff \<longleftrightarrow> a = 4294967295"
    using bswap32_eq_iff [of s 0] bswap32_eq_iff [of s "0xffffffff"]
    by (simp_all add: a_def word_unat_eq_iff [of _ 0] word_unat_eq_iff [of _ "0xffffffff"] bswap32_def)
  have l: "isLoopbackNet s \<longleftrightarrow> a = 2130706433"
    by (simp add: isLoopbackNet_def a_def word_unat_eq_iff)
  have "isPrivateNet s \<longleftrightarrow> a div 2 ^ 24 = 10 \<or> a div 2 ^ 20 = 2753 \<or> a div 2 ^ 16 = 49320 \<or> a div 2 ^ 16 = 43518"
    unfolding isPrivateNet_def Let_def drop_bit_eq_iff a_def by simp
  also have "\<dots> \<longleftrightarrow> b0 = 10 \<or> (b0 = 172 \<and> 16 \<le> b1 \<and> b1 \<le> 31) \<or> (b0 = 192 \<and> b1 = 168) \<or>
        (b0 = 169 \<and> b1 = 254)"
    unfolding b0_def b1_def by (rule private_prefixes)
  finally have p: "isPrivateNet s \<longleftrightarrow> b0 = 10 \<or> (b0 = 172 \<and> 16 \<le> b1 \<and> b1 \<le> 31) \<or>
    (b0 = 192 \<and> b1 = 168) \<or> (b0 = 169 \<and> b1 = 254)" .
  show ?thesis
    by (auto simp: isExternalNet_def isValidNet_def z f l p)
qed

text \<open>The null test of IPv6 addresses never succeeds, so the unspecified address \<^verbatim>\<open>::\<close>, and with it a
  cleared address whose family was set, counts as a valid net.\<close>

theorem ipv6_never_null:
  "\<not> sockaddr_storage_ipv6_isnull a \<and>
   sockaddr_storage_isValidNet (snd (sockaddr_storage_setipv6 in6_zero 0))"
  by (simp add: sockaddr_storage_ipv6_isnull_def sockaddr_storage_isValidNet_def
      sockaddr_storage_ipv6_isValidNet_def sockaddr_storage_setipv6_def)

text \<open>A successfully parsed address is always an IPv6 address with a null port, whatever the system's
  parsers accept; for a string that neither parser accepts, it has the non-zero scope the suffix
  names.\<close>

theorem inet_pton_is_ipv6:
  assumes "sockaddr_storage_inet_pton pton6 pton4 ifn s = (True, a)"
  shows "ss_family a = AF_INET6 \<and> ss_port a = 0 \<and>
    (pton6 s = None \<and> pton4 s = None \<longrightarrow> ss_scope a \<noteq> 0 \<and> CHR ''%'' \<in> set s)"
  using assms
proof (induction s arbitrary: a rule: length_induct)
  case (1 s)
  let ?pos = "length (takeWhile (\<lambda>c. c \<noteq> CHR ''%'') s)"
  consider (p6) a6 where "pton6 s = Some a6" | (p4) w where "pton6 s = None" "pton4 s = Some w"
    | (scope) "pton6 s = None" "pton4 s = None" by (cases "pton6 s"; cases "pton4 s") auto
  then show ?case
  proof cases
    case p6
    then show ?thesis using 1(2)
      by (auto simp: sockaddr_storage_inet_pton.simps [of _ _ _ s] sockaddr_storage_clear_def)
  next
    case p4
    then show ?thesis using 1(2)
      by (auto simp: sockaddr_storage_inet_pton.simps [of _ _ _ s] sockaddr_storage_clear_def
          sockaddr_storage_ipv4_to_ipv6_def)
  next
    case scope
    let ?r = "sockaddr_storage_inet_pton pton6 pton4 ifn (take ?pos s)"
    note e = sockaddr_storage_inet_pton.simps [of pton6 pton4 ifn s, unfolded scope, simplified Let_def]
    have pos: "?pos + 1 < length s \<and> ?pos > 3" using 1(2) e by (simp split: if_splits)
    obtain ok a1 where r: "?r = (ok, a1)" by (cases ?r)
    have ok: "ok" using 1(2) e pos r by (cases ok) simp_all
    have "ss_family a1 = AF_INET6 \<and> ss_port a1 = 0" using 1(1) [rule_format, of "take ?pos s" a1] r pos ok by simp
    moreover obtain n where "n \<noteq> 0" "a = a1\<lparr>ss_scope := n\<rparr>"
      using 1(2) e r pos ok by (auto split: if_splits)
    moreover have "CHR ''%'' \<in> set s"
      using pos takeWhile_eq_all_conv [of "\<lambda>c. c \<noteq> CHR ''%''" s] by fastforce
    ultimately show ?thesis by simp
  qed
qed

lemma inet_pton_is_ipv6_witness:
  "\<exists>a. sockaddr_storage_inet_pton (\<lambda>s. if s = ''fe80'' then Some in6_zero else None) (\<lambda>_. None)
        (\<lambda>_. 0) ''fe80%3'' = (True, a) \<and> ss_family a = AF_INET6 \<and> ss_scope a \<noteq> 0"
proof -
  let ?p = "sockaddr_storage_inet_pton (\<lambda>s. if s = ''fe80'' then Some in6_zero else None)
      (\<lambda>_. None) (\<lambda>_. 0)"
  have "?p ''fe80'' = (True, sockaddr_storage_clear\<lparr>ss_addr6 := in6_zero, ss_family := AF_INET6\<rparr>)"
    by (subst sockaddr_storage_inet_pton.simps) simp
  moreover have "atoi ''3'' = 3" by code_simp
  ultimately have a: "?p ''fe80%3'' =
      (True, sockaddr_storage_clear\<lparr>ss_addr6 := in6_zero, ss_family := AF_INET6, ss_scope := 3\<rparr>)"
    by (subst sockaddr_storage_inet_pton.simps) simp
  from inet_pton_is_ipv6 [OF a] a show ?thesis by simp
qed

text \<open>Copying an IP makes the destination have the source's IP and keeps the destination's port, also
  across families, since both views keep the port in the same place; a port set is the port
  read.\<close>

theorem copyip_keeps_port:
  assumes "ss_family src = AF_INET \<or> ss_family src = AF_INET6"
    "ss_family dst = AF_INET \<or> ss_family dst = AF_INET6"
  shows "\<exists>d. sockaddr_storage_copyip dst src = (True, d) \<and> sockaddr_storage_sameip d src \<and>
    sockaddr_storage_port d = sockaddr_storage_port dst \<and>
    sockaddr_storage_same (snd (sockaddr_storage_setport d (sockaddr_storage_port src))) src"
  using assms
  by (auto simp: sockaddr_storage_copyip_def sockaddr_storage_ipv4_copyip_def
      sockaddr_storage_ipv6_copyip_def sockaddr_storage_sameip_def sockaddr_storage_samefamily_def
      sockaddr_storage_ipv4_sameip_def ipv6_sameip_iff sockaddr_storage_port_def
      sockaddr_storage_ipv4_port_def sockaddr_storage_ipv6_port_def sockaddr_storage_setport_def
      sockaddr_storage_ipv4_setport_def sockaddr_storage_ipv6_setport_def same_iff_key ss_key_def)

lemma copyip_keeps_port_witness:
  "\<exists>d. sockaddr_storage_copyip (snd (sockaddr_storage_setipv6 in6_zero 7))
        (snd (sockaddr_storage_setipv4 5 9)) = (True, d) \<and>
     sockaddr_storage_port d = sockaddr_storage_port (snd (sockaddr_storage_setipv6 in6_zero 7))"
  using copyip_keeps_port [of "snd (sockaddr_storage_setipv4 5 9)"
      "snd (sockaddr_storage_setipv6 in6_zero 7)"]
  by (auto simp: sockaddr_storage_setipv4_def sockaddr_storage_setipv6_def)

end
