(* ===== verification/Ip_Set.thy ===== *)
theory Ip_Set
  imports Sockaddr_Storage
begin

text \<open>
  \<^verbatim>\<open>pqi/pqiipset.cc\<close>: the bounded, time-ordered lists of addresses at which a peer was seen. A list
  is \<^verbatim>\<open>std::list<pqiIpAddress>\<close>, newest first; \<^verbatim>\<open>updateIpAddressList\<close> returns its boolean and the new
  list. The two print routines are left out.
\<close>

abbreviation (input) MAX_ADDRESS_LIST_SIZE :: nat where "MAX_ADDRESS_LIST_SIZE \<equiv> 10"

record pqiIpAddress =
  mAddr :: sockaddr_storage
  mSeenTime :: rstime_t
  mSrc :: u32

definition sameAddress :: "pqiIpAddress \<Rightarrow> pqiIpAddress \<Rightarrow> bool" where
  "sameAddress a b = sockaddr_storage_same (mAddr a) (mAddr b)"

definition validAddress :: "pqiIpAddress \<Rightarrow> bool" where
  "validAddress a =
     (if sockaddr_storage_isLoopbackNet (mAddr a) then False
      else if sockaddr_storage_isnull (mAddr a) then False
      else True)"

text \<open>The first loop: \<open>None\<close> when the list holds the address with a later time, otherwise whether it
  was absent and the list without it.\<close>

fun erase_same :: "pqiIpAddress \<Rightarrow> pqiIpAddress list \<Rightarrow> (bool \<times> pqiIpAddress list) option" where
  "erase_same addr [] = Some (True, [])"
| "erase_same addr (it # rest) =
     (if sameAddress it addr then
        (if mSeenTime it > mSeenTime addr then None else Some (False, rest))
      else map_option (\<lambda>(newAddr, l). (newAddr, it # l)) (erase_same addr rest))"

text \<open>The second loop, with the \<^verbatim>\<open>push_back\<close> after it.\<close>

fun insert_by_time :: "pqiIpAddress \<Rightarrow> pqiIpAddress list \<Rightarrow> pqiIpAddress list" where
  "insert_by_time addr [] = [addr]"
| "insert_by_time addr (it # rest) =
     (if mSeenTime it < mSeenTime addr then addr # it # rest
      else it # insert_by_time addr rest)"

function pop_excess :: "pqiIpAddress list \<Rightarrow> pqiIpAddress list" where
  "pop_excess l = (if length l > MAX_ADDRESS_LIST_SIZE then pop_excess (butlast l) else l)"
  by pat_completeness auto
termination
  by (relation "measure length") auto

definition updateIpAddressList :: "pqiIpAddress list \<Rightarrow> pqiIpAddress \<Rightarrow> bool \<times> pqiIpAddress list" where
  "updateIpAddressList mAddrs addr =
     (let add = (if length mAddrs < MAX_ADDRESS_LIST_SIZE then True
                 else mSeenTime (last mAddrs) < mSeenTime addr) in
      if \<not> add \<or> \<not> validAddress addr then (False, mAddrs)
      else case erase_same addr mAddrs of
          None \<Rightarrow> (False, mAddrs)
        | Some (newAddr, l) \<Rightarrow> (newAddr, pop_excess (insert_by_time addr l)))"

text \<open>A TLV entry is \<^verbatim>\<open>(addr, seenTime, source)\<close> with an unsigned 64-bit time.\<close>

type_synonym RsTlvIpAddressInfo = "sockaddr_storage \<times> u64 \<times> u32"

definition extractFromTlv :: "pqiIpAddress list \<Rightarrow> RsTlvIpAddressInfo list \<Rightarrow> pqiIpAddress list" where
  "extractFromTlv mAddrs tlvAddrs =
     mAddrs @ map (\<lambda>(a, t, s). \<lparr>mAddr = a, mSeenTime = sint t, mSrc = s\<rparr>) tlvAddrs"

definition loadTlv :: "pqiIpAddress list \<Rightarrow> RsTlvIpAddressInfo list \<Rightarrow> RsTlvIpAddressInfo list" where
  "loadTlv mAddrs tlvAddrs =
     tlvAddrs @ map (\<lambda>it. (mAddr it, word_of_int (mSeenTime it), mSrc it)) mAddrs"

record pqiIpAddrSet =
  mLocal :: "pqiIpAddress list"
  mExt :: "pqiIpAddress list"

definition updateLocalAddrs :: "pqiIpAddrSet \<Rightarrow> pqiIpAddress \<Rightarrow> bool \<times> pqiIpAddrSet" where
  "updateLocalAddrs s addr =
     (let (b, l) = updateIpAddressList (mLocal s) addr in (b, s\<lparr>mLocal := l\<rparr>))"

definition updateExtAddrs :: "pqiIpAddrSet \<Rightarrow> pqiIpAddress \<Rightarrow> bool \<times> pqiIpAddrSet" where
  "updateExtAddrs s addr =
     (let (b, l) = updateIpAddressList (mExt s) addr in (b, s\<lparr>mExt := l\<rparr>))"

text \<open>The loop over one list of the argument.\<close>

definition update_all :: "pqiIpAddress list \<Rightarrow> bool \<times> pqiIpAddress list \<Rightarrow> bool \<times> pqiIpAddress list" where
  "update_all addrs st =
     foldl (\<lambda>(newAddrs, l) it. let (b, l') = updateIpAddressList l it in (newAddrs \<or> b, l')) st addrs"

definition updateAddrs :: "pqiIpAddrSet \<Rightarrow> pqiIpAddrSet \<Rightarrow> bool \<times> pqiIpAddrSet" where
  "updateAddrs s addrs =
     (let (b1, l) = update_all (mLocal addrs) (False, mLocal s);
          (b2, e) = update_all (mExt addrs) (b1, mExt s)
      in (b2, s\<lparr>mLocal := l, mExt := e\<rparr>))"

definition clear_set :: "pqiIpAddrSet \<Rightarrow> pqiIpAddrSet" where
  "clear_set s = s\<lparr>mLocal := [], mExt := []\<rparr>"

subsection \<open>The invariant of a list\<close>

definition newest_first :: "pqiIpAddress list \<Rightarrow> bool" where
  "newest_first l = sorted_wrt (\<lambda>a b. mSeenTime b \<le> mSeenTime a) l"

definition distinct_addrs :: "pqiIpAddress list \<Rightarrow> bool" where
  "distinct_addrs l = sorted_wrt (\<lambda>a b. \<not> sameAddress a b) l"

definition addr_list_inv :: "pqiIpAddress list \<Rightarrow> bool" where
  "addr_list_inv l =
     (length l \<le> MAX_ADDRESS_LIST_SIZE \<and> newest_first l \<and> distinct_addrs l \<and> list_all validAddress l)"

lemma sameAddress_sym: "sameAddress a b \<longleftrightarrow> sameAddress b a"
  by (auto simp: sameAddress_def same_iff_key ss_key_def split: if_splits)

lemma sameAddress_trans: "sameAddress a b \<Longrightarrow> sameAddress b c \<Longrightarrow> sameAddress a c"
  by (auto simp: sameAddress_def same_iff_key ss_key_def split: if_splits)

lemma sameAddress_refl: "validAddress a \<Longrightarrow> sameAddress a a"
  by (auto simp: sameAddress_def same_iff_key validAddress_def sockaddr_storage_isnull_def split: if_splits)

lemma pop_excess_take: "pop_excess l = take MAX_ADDRESS_LIST_SIZE l"
proof (induction l rule: pop_excess.induct)
  case (1 l)
  then show ?case by (simp add: take_butlast)
qed

declare pop_excess.simps [simp del]

lemma set_insert_by_time [simp]: "set (insert_by_time a l) = insert a (set l)"
  by (induction l) auto

lemma length_insert_by_time [simp]: "length (insert_by_time a l) = Suc (length l)"
  by (induction l) auto

lemma insert_newest_first: "newest_first l \<Longrightarrow> newest_first (insert_by_time a l)"
  by (induction l) (auto simp: newest_first_def)

lemma insert_distinct:
  "distinct_addrs l \<Longrightarrow> \<forall>b \<in> set l. \<not> sameAddress b a \<Longrightarrow> distinct_addrs (insert_by_time a l)"
  by (induction l) (auto simp: distinct_addrs_def sameAddress_sym [of a])

text \<open>The first loop of \<^verbatim>\<open>updateIpAddressList\<close> on a list without duplicates.\<close>

lemma erase_same_filter:
  assumes "distinct_addrs l" "erase_same a l = Some (n, l')"
  shows "l' = filter (\<lambda>b. \<not> sameAddress b a) l \<and> n = (\<forall>b \<in> set l. \<not> sameAddress b a) \<and>
     (\<forall>b \<in> set l. sameAddress b a \<longrightarrow> mSeenTime b \<le> mSeenTime a)"
  using assms
proof (induction l arbitrary: n l')
  case Nil
  then show ?case by simp
next
  case (Cons b l)
  have d: "distinct_addrs l" "\<forall>c \<in> set l. \<not> sameAddress b c"
    using Cons.prems(1) by (auto simp: distinct_addrs_def)
  show ?case
  proof (cases "sameAddress b a")
    case True
    then have "\<forall>c \<in> set l. \<not> sameAddress c a"
      using d(2) sameAddress_trans sameAddress_sym by blast
    moreover from this have "filter (\<lambda>b. \<not> sameAddress b a) l = l" by (simp add: filter_id_conv)
    ultimately show ?thesis using True Cons.prems(2) by (auto split: if_splits)
  next
    case False
    then obtain l'' where "erase_same a l = Some (n, l'')" "l' = b # l''"
      using Cons.prems(2) by auto
    with Cons.IH [OF d(1)] False show ?thesis by auto
  qed
qed

lemma erase_same_None:
  "distinct_addrs l \<Longrightarrow> erase_same a l = None \<longleftrightarrow> (\<exists>b \<in> set l. sameAddress b a \<and> mSeenTime a < mSeenTime b)"
proof (induction l)
  case (Cons b l)
  then have "distinct_addrs l" "\<forall>c \<in> set l. \<not> sameAddress b c"
    by (auto simp: distinct_addrs_def)
  with Cons.IH show ?case using sameAddress_trans sameAddress_sym by auto
qed simp

text \<open>When \<^verbatim>\<open>updateIpAddressList\<close> takes the address.\<close>

definition addr_accepted :: "pqiIpAddress list \<Rightarrow> pqiIpAddress \<Rightarrow> bool" where
  "addr_accepted l a =
     (validAddress a \<and> (length l < MAX_ADDRESS_LIST_SIZE \<or> mSeenTime (last l) < mSeenTime a) \<and>
      (\<forall>b \<in> set l. sameAddress b a \<longrightarrow> mSeenTime b \<le> mSeenTime a))"

lemma update_spec:
  assumes "distinct_addrs l"
  shows "updateIpAddressList l a =
     (if addr_accepted l a
      then (\<forall>b \<in> set l. \<not> sameAddress b a,
            take MAX_ADDRESS_LIST_SIZE (insert_by_time a (filter (\<lambda>b. \<not> sameAddress b a) l)))
      else (False, l))"
proof (cases "erase_same a l")
  case None
  then have "\<not> addr_accepted l a"
    using erase_same_None [OF assms] by (auto simp: addr_accepted_def)
  then show ?thesis using None by (simp add: updateIpAddressList_def)
next
  case (Some r)
  obtain n l' where r: "r = (n, l')" by (cases r)
  have "\<forall>b \<in> set l. sameAddress b a \<longrightarrow> mSeenTime b \<le> mSeenTime a"
    using Some erase_same_None [OF assms, of a] by (auto simp: not_less)
  moreover have "l' = filter (\<lambda>b. \<not> sameAddress b a) l" "n = (\<forall>b \<in> set l. \<not> sameAddress b a)"
    using erase_same_filter [OF assms] Some r by auto
  ultimately show ?thesis
    using Some r by (simp add: updateIpAddressList_def addr_accepted_def pop_excess_take)
qed

lemma sorted_wrt_filter_take:
  "sorted_wrt P l \<Longrightarrow> sorted_wrt P (filter Q l)" "sorted_wrt P l \<Longrightarrow> sorted_wrt P (take n l)"
  by (simp_all add: sorted_wrt_filter sorted_wrt_take)

lemma update_inv: "addr_list_inv l \<Longrightarrow> addr_list_inv (snd (updateIpAddressList l a))"
proof (cases "addr_accepted l a")
  case True
  assume i: "addr_list_inv l"
  let ?f = "filter (\<lambda>b. \<not> sameAddress b a) l"
  have "newest_first (insert_by_time a ?f)"
    using i by (intro insert_newest_first) (simp add: addr_list_inv_def newest_first_def sorted_wrt_filter)
  moreover have "distinct_addrs (insert_by_time a ?f)"
    using i by (intro insert_distinct) (auto simp: addr_list_inv_def distinct_addrs_def sorted_wrt_filter)
  moreover have "list_all validAddress (take 10 (insert_by_time a ?f))"
    using i True in_set_takeD [of _ 10 "insert_by_time a ?f"]
    by (fastforce simp: addr_list_inv_def addr_accepted_def list_all_iff)
  ultimately show ?thesis
    using i True
    by (simp add: update_spec addr_list_inv_def newest_first_def distinct_addrs_def sorted_wrt_take)
qed (simp add: update_spec addr_list_inv_def)

lemma insert_by_time_take:
  "n < length (insert_by_time a l) \<Longrightarrow> l \<noteq> [] \<Longrightarrow> mSeenTime (last l) < mSeenTime a \<Longrightarrow>
   a \<in> set (take (length l) (insert_by_time a l))"
  by (induction l arbitrary: n) (auto split: if_splits)

lemma accepted_is_kept:
  assumes i: "addr_list_inv l" and a: "addr_accepted l a"
  shows "a \<in> set (snd (updateIpAddressList l a))"
proof -
  let ?f = "filter (\<lambda>b. \<not> sameAddress b a) l"
  have d: "distinct_addrs l" and len: "length l \<le> 10" using i by (simp_all add: addr_list_inv_def)
  have "a \<in> set (take 10 (insert_by_time a ?f))"
  proof (cases "length ?f < 10")
    case True
    then show ?thesis by simp
  next
    case False
    then have "length ?f = length l" "length l = 10" using len length_filter_le [of "\<lambda>b. \<not> sameAddress b a" l] by linarith+
    then have f: "?f = l" by (metis length_filter_less less_irrefl filter_True)
    then show ?thesis
      using insert_by_time_take [of 0 a l] a \<open>length l = 10\<close>
      by (cases "l = []") (auto simp: addr_accepted_def)
  qed
  then show ?thesis using a by (simp add: update_spec [OF d])
qed

lemma update_all_inv:
  "addr_list_inv l \<Longrightarrow> addr_list_inv (snd (update_all addrs (b, l)))"
proof (induction addrs arbitrary: b l)
  case (Cons a addrs)
  then show ?case
    using update_inv [of l a] by (simp add: update_all_def Let_def split: prod.splits) force
qed (simp add: update_all_def)

lemma update_all_invalid:
  "\<forall>a \<in> set addrs. \<not> validAddress a \<Longrightarrow> update_all addrs (b, l) = (b, l)"
  by (induction addrs) (auto simp: update_all_def updateIpAddressList_def)

subsection \<open>Properties\<close>

text \<open>C34. An update of an address list keeps it bounded, newest first, free of duplicates and of
  addresses that \<^verbatim>\<open>validAddress\<close> refuses: 127.0.0.1, also as mapped into IPv6, and ::1, IPv4 addresses whose word is 0 or 1, and addresses
  of neither family. (The port is not looked at, whatever the message in \<^verbatim>\<open>validAddress\<close> says.)
  An address that is accepted is then in the list, the answer is
  whether it was new, and an address that is not accepted leaves the list alone.\<close>

theorem address_list_update:
  assumes "addr_list_inv l"
  shows "\<exists>b l'. updateIpAddressList l a = (b, l') \<and> addr_list_inv l' \<and>
    (if addr_accepted l a
     then a \<in> set l' \<and> b = (\<forall>c \<in> set l. \<not> sameAddress c a) \<and>
       set l' \<subseteq> insert a {c \<in> set l. \<not> sameAddress c a} \<and>
       (length l < MAX_ADDRESS_LIST_SIZE \<or> \<not> b \<longrightarrow> set l' = insert a {c \<in> set l. \<not> sameAddress c a})
     else \<not> b \<and> l' = l)"
proof (cases "addr_accepted l a")
  case True
  let ?f = "filter (\<lambda>b. \<not> sameAddress b a) l"
  let ?l = "take 10 (insert_by_time a ?f)" and ?b = "\<forall>c \<in> set l. \<not> sameAddress c a"
  have d: "distinct_addrs l" and len: "length l \<le> 10" using assms by (simp_all add: addr_list_inv_def)
  have u: "updateIpAddressList l a = (?b, ?l)" using True by (simp add: update_spec [OF d])
  have small: "length ?f < 10" if "length l < 10 \<or> \<not> ?b"
  proof (cases ?b)
    case True
    then show ?thesis using that length_filter_le [of "\<lambda>b. \<not> sameAddress b a" l] by linarith
  next
    case False
    then obtain c where "c \<in> set l" "\<not> \<not> sameAddress c a" by blast
    then have "length ?f < length l" by (rule length_filter_less)
    with len show ?thesis by simp
  qed
  have "length l < 10 \<or> \<not> ?b \<longrightarrow> set ?l = insert a {c \<in> set l. \<not> sameAddress c a}"
  proof
    assume "length l < 10 \<or> \<not> ?b"
    from small [OF this] show "set ?l = insert a {c \<in> set l. \<not> sameAddress c a}" by simp
  qed
  moreover have "set ?l \<subseteq> insert a {c \<in> set l. \<not> sameAddress c a}"
    using set_take_subset [of 10 "insert_by_time a ?f"] by simp
  ultimately show ?thesis
    using accepted_is_kept [OF assms True] update_inv [OF assms, of a] True unfolding u by simp
next
  case False
  then have "updateIpAddressList l a = (False, l)"
    using assms by (simp add: update_spec addr_list_inv_def)
  with False assms show ?thesis by (intro exI [of _ False] exI [of _ l]) simp
qed

text \<open>Updating a set of lists from another set keeps both lists in order, whatever the other set
  holds.\<close>

theorem address_set_update_inv:
  assumes "addr_list_inv (mLocal s)" "addr_list_inv (mExt s)"
  shows "addr_list_inv (mLocal (snd (updateAddrs s t))) \<and> addr_list_inv (mExt (snd (updateAddrs s t)))"
  using update_all_inv [OF assms(1), of "mLocal t" False] update_all_inv [OF assms(2), of "mExt t"]
  by (simp add: updateAddrs_def split: prod.splits) (metis snd_conv)

text \<open>A list stored in a TLV set and read back is the same list, as long as its times fit 64 bits.\<close>

theorem address_list_tlv_round_trip:
  assumes "\<forall>a \<in> set l. - (2 ^ 63) \<le> mSeenTime a \<and> mSeenTime a < 2 ^ 63"
  shows "extractFromTlv [] (loadTlv l []) = l"
proof -
  have "sint (word_of_int n :: u64) = n" if "- (2 ^ 63) \<le> n" "n < 2 ^ 63" for n
    using that by (simp add: signed_of_int signed_take_bit_int_eq_self)
  then show ?thesis using assms by (auto simp: extractFromTlv_def loadTlv_def intro!: map_idI)
qed

text \<open>Reading a TLV set does not go through the checks of an update: eleven loopback addresses with
  increasing times, as a peer may send them, give a list that is too long, in the wrong order and
  holds invalid addresses; passing them through \<^verbatim>\<open>updateAddrs\<close>, as the peer manager does, gives a list
  in order.\<close>

theorem extract_from_tlv_unchecked:
  fixes peer :: "RsTlvIpAddressInfo list"
  defines "peer \<equiv> map (\<lambda>n. (snd (sockaddr_storage_setipv4 (bswap32 0x7f000001) 0), of_nat n, 0)) [0..<11]"
  shows "\<not> addr_list_inv (extractFromTlv [] peer) \<and>
    mLocal (snd (updateAddrs \<lparr>mLocal = [], mExt = []\<rparr> \<lparr>mLocal = extractFromTlv [] peer, mExt = []\<rparr>)) = []"
proof
  have "length (extractFromTlv [] peer) = 11" by (simp add: extractFromTlv_def peer_def)
  then show "\<not> addr_list_inv (extractFromTlv [] peer)" by (simp add: addr_list_inv_def)
  have "sockaddr_storage_isLoopbackNet (snd (sockaddr_storage_setipv4 (bswap32 0x7f000001) 0))"
    by (simp add: sockaddr_storage_isLoopbackNet_def sockaddr_storage_copy_def
        sockaddr_storage_setipv4_def sockaddr_storage_ipv6_to_ipv4_def
        sockaddr_storage_ipv4_isLoopbackNet_def isLoopbackNet_def)
  then have "\<forall>a \<in> set (extractFromTlv [] peer). \<not> validAddress a"
    by (auto simp: extractFromTlv_def peer_def validAddress_def)
  from update_all_invalid [OF this]
  show "mLocal (snd (updateAddrs \<lparr>mLocal = [], mExt = []\<rparr>
      \<lparr>mLocal = extractFromTlv [] peer, mExt = []\<rparr>)) = []"
    by (simp add: updateAddrs_def update_all_def split: prod.splits)
qed

text \<open>Concrete inputs for the properties: 1.2.3.4, seen at time \<open>t\<close>.\<close>

definition ip_example :: "rstime_t \<Rightarrow> pqiIpAddress" where
  "ip_example t = \<lparr>mAddr = snd (sockaddr_storage_setipv4 0x04030201 0), mSeenTime = t, mSrc = 0\<rparr>"

lemma ip_example_valid: "validAddress (ip_example t)" "sameAddress (ip_example t) (ip_example u)"
  by (simp_all add: ip_example_def validAddress_def sameAddress_def sockaddr_storage_isLoopbackNet_def
      sockaddr_storage_copy_def sockaddr_storage_setipv4_def sockaddr_storage_ipv6_to_ipv4_def
      sockaddr_storage_ipv4_isLoopbackNet_def isLoopbackNet_def sockaddr_storage_isnull_def
      sockaddr_storage_ipv4_isnull_def bswap32_def same_iff_key)

lemma address_list_update_witness:
  "fst (updateIpAddressList [ip_example 5] (ip_example 7)) = False \<and>
   ip_example 7 \<in> set (snd (updateIpAddressList [ip_example 5] (ip_example 7)))"
proof -
  have "addr_list_inv [ip_example 5]"
    by (simp add: addr_list_inv_def newest_first_def distinct_addrs_def ip_example_valid)
  moreover have "addr_accepted [ip_example 5] (ip_example 7)"
    by (simp add: addr_accepted_def ip_example_valid) (simp add: ip_example_def)
  ultimately show ?thesis
    using address_list_update [of "[ip_example 5]" "ip_example 7"] by (auto simp: ip_example_valid)
qed

lemma address_set_update_inv_witness:
  "addr_list_inv (mLocal (snd (updateAddrs \<lparr>mLocal = [ip_example 5], mExt = []\<rparr>
      \<lparr>mLocal = [ip_example 1, ip_example 9], mExt = [ip_example 3]\<rparr>)))"
  using address_set_update_inv [of "\<lparr>mLocal = [ip_example 5], mExt = []\<rparr>"]
  by (simp add: addr_list_inv_def newest_first_def distinct_addrs_def ip_example_valid)

lemma address_list_tlv_round_trip_witness:
  "extractFromTlv [] (loadTlv [ip_example 5, ip_example (-1)] []) = [ip_example 5, ip_example (-1)]"
  by (rule address_list_tlv_round_trip) (simp add: ip_example_def)

end
