(* ===== verification/Net_State_Box.thy ===== *)
theory Net_State_Box
  imports Connect_State_Box Sockaddr_Storage
begin

text \<open>
  \<^verbatim>\<open>pqi/pqinetstatebox.cc\<close>: how the peer reaches the network, worked out from STUN, UPnP, NAT-PMP and
  DHT reports. The setters store a report and drop the cached result when it changes something; the
  getters work the result out again when it was dropped or is older than a minute. Every operation
  takes the current time, one reading per call; \<open>stunner\<close> is the build flag
  \<^verbatim>\<open>RS_USE_DHT_STUNNER\<close>. The constructor leaves some fields uninitialised: they are arguments of
  the model's initial state. The local constant \<^verbatim>\<open>isExtAddress = false\<close> is kept.
\<close>

abbreviation (input) NETSTATE_PARAM_TIMEOUT :: rstime_t where "NETSTATE_PARAM_TIMEOUT \<equiv> 900"
abbreviation (input) NETSTATE_TIMEOUT :: rstime_t where "NETSTATE_TIMEOUT \<equiv> 60"

datatype RsNetState = BAD_UNKNOWN | BAD_OFFLINE | BAD_NATSYM | BAD_NODHT_NAT | WARNING_RESTART
  | WARNING_NATTED | WARNING_NODHT | GOOD | ADV_FORWARD | ADV_DARK_FORWARD

type_synonym RsConnectModes = u16

abbreviation (input) CM_NONE :: RsConnectModes where "CM_NONE \<equiv> 0x0000"
abbreviation (input) CM_ACCEPT_TCP :: RsConnectModes where "CM_ACCEPT_TCP \<equiv> 0x0001"
abbreviation (input) CM_OUTGOING_TCP :: RsConnectModes where "CM_OUTGOING_TCP \<equiv> 0x0002"
abbreviation (input) CM_DIRECT_UDP :: RsConnectModes where "CM_DIRECT_UDP \<equiv> 0x0100"
abbreviation (input) CM_PROXY_UDP :: RsConnectModes where "CM_PROXY_UDP \<equiv> 0x0200"
abbreviation (input) CM_RELAY_UDP :: RsConnectModes where "CM_RELAY_UDP \<equiv> 0x0400"

record pqiNetStateBox =
  mStatusOkay :: bool
  mStatusTS :: rstime_t
  mNetworkMode :: RsNetworkMode
  mNatTypeMode :: RsNatTypeMode
  mNatHoleMode :: RsNatHoleMode
  mConnectModes :: RsConnectModes
  mNetStateMode :: RsNetState
  mStunDhtSet :: bool
  mStunDhtTS :: rstime_t
  mStunDhtStable :: bool
  mStunDhtAddr :: sockaddr_storage
  mStunProxySet :: bool
  mStunProxyTS :: rstime_t
  mStunProxyStable :: bool
  mStunProxySemiStable :: bool
  mStunProxyAddr :: sockaddr_storage
  mDhtSet :: bool
  mDhtTS :: rstime_t
  mDhtOn :: bool
  mDhtActive :: bool
  mUPnPSet :: bool
  mUPnPAddr :: sockaddr_storage
  mUPnPActive :: bool
  mUPnPTS :: rstime_t
  mNatPMPSet :: bool
  mNatPMPAddr :: sockaddr_storage
  mNatPMPActive :: bool
  mNatPMPTS :: rstime_t
  mWebIPSet :: bool
  mWebIPAddr :: sockaddr_storage
  mWebIPActive :: bool
  mWebIPTS :: rstime_t
  mPortForwardSet :: bool
  mPortForwarded :: u16

subsection \<open>Setters\<close>

definition setAddressStunDht ::
    "rstime_t \<Rightarrow> sockaddr_storage \<Rightarrow> bool \<Rightarrow> pqiNetStateBox \<Rightarrow> pqiNetStateBox" where
  "setAddressStunDht now addr is_stable b =
     (let b1 = (if \<not> mStunDhtSet b \<or> mStunDhtStable b \<noteq> is_stable \<or>
                   \<not> sockaddr_storage_same addr (mStunDhtAddr b)
                then b\<lparr>mStunDhtSet := True, mStunDhtStable := is_stable, mStunDhtAddr := addr,
                       mStatusOkay := False\<rparr>
                else b)
      in b1\<lparr>mStunDhtTS := now\<rparr>)"

definition setAddressStunProxy ::
    "rstime_t \<Rightarrow> sockaddr_storage \<Rightarrow> bool \<Rightarrow> pqiNetStateBox \<Rightarrow> pqiNetStateBox" where
  "setAddressStunProxy now addr is_stable b =
     (let b1 = (if \<not> mStunProxySet b \<or> mStunProxyStable b \<noteq> is_stable \<or>
                   \<not> sockaddr_storage_same addr (mStunProxyAddr b)
                then
                  (let b0 = (if sockaddr_storage_sameip addr (mStunProxyAddr b)
                             then (if mStunProxyStable b \<noteq> is_stable
                                   then b\<lparr>mStunProxySemiStable := True\<rparr> else b)
                             else b\<lparr>mStunProxySemiStable := False\<rparr>)
                   in b0\<lparr>mStunProxySet := True, mStunProxyStable := is_stable, mStunProxyAddr := addr,
                         mStatusOkay := False\<rparr>)
                else b)
      in b1\<lparr>mStunProxyTS := now\<rparr>)"

definition setAddressUPnP ::
    "rstime_t \<Rightarrow> bool \<Rightarrow> sockaddr_storage \<Rightarrow> pqiNetStateBox \<Rightarrow> pqiNetStateBox" where
  "setAddressUPnP now active addr b =
     (let b1 = (if \<not> mUPnPSet b \<or> mUPnPActive b \<noteq> active \<or>
                   \<not> sockaddr_storage_same addr (mUPnPAddr b)
                then b\<lparr>mUPnPSet := True, mUPnPAddr := addr, mUPnPActive := active,
                       mStatusOkay := False\<rparr>
                else b)
      in b1\<lparr>mUPnPTS := now\<rparr>)"

definition setAddressNatPMP ::
    "rstime_t \<Rightarrow> bool \<Rightarrow> sockaddr_storage \<Rightarrow> pqiNetStateBox \<Rightarrow> pqiNetStateBox" where
  "setAddressNatPMP now active addr b =
     (let b1 = (if \<not> mNatPMPSet b \<or> mNatPMPActive b \<noteq> active \<or>
                   \<not> sockaddr_storage_same addr (mNatPMPAddr b)
                then b\<lparr>mNatPMPSet := True, mNatPMPAddr := addr, mNatPMPActive := active,
                       mStatusOkay := False\<rparr>
                else b)
      in b1\<lparr>mNatPMPTS := now\<rparr>)"

definition setAddressWebIP ::
    "rstime_t \<Rightarrow> bool \<Rightarrow> sockaddr_storage \<Rightarrow> pqiNetStateBox \<Rightarrow> pqiNetStateBox" where
  "setAddressWebIP now active addr b =
     (let b1 = (if \<not> mWebIPSet b \<or> mWebIPActive b \<noteq> active \<or>
                   \<not> sockaddr_storage_same addr (mWebIPAddr b)
                then b\<lparr>mWebIPSet := True, mWebIPAddr := addr, mWebIPActive := active,
                       mStatusOkay := False\<rparr>
                else b)
      in b1\<lparr>mWebIPTS := now\<rparr>)"

text \<open>The first parameter, \<^verbatim>\<open>active\<close>, is not used by the code.\<close>

definition setPortForwarded :: "bool \<Rightarrow> u16 \<Rightarrow> pqiNetStateBox \<Rightarrow> pqiNetStateBox" where
  "setPortForwarded active port b =
     (if \<not> mPortForwardSet b \<or> mPortForwarded b \<noteq> port
      then b\<lparr>mPortForwardSet := True, mPortForwarded := port, mStatusOkay := False\<rparr>
      else b)"

definition setDhtState :: "rstime_t \<Rightarrow> bool \<Rightarrow> bool \<Rightarrow> pqiNetStateBox \<Rightarrow> pqiNetStateBox" where
  "setDhtState now on active b =
     (let b1 = (if \<not> mDhtSet b \<or> mDhtActive b \<noteq> active \<or> mDhtOn b \<noteq> on
                then b\<lparr>mDhtSet := True, mDhtActive := active, mDhtOn := on, mStatusOkay := False\<rparr>
                else b)
      in b1\<lparr>mDhtTS := now\<rparr>)"

text \<open>What \<^verbatim>\<open>reset\<close> writes; the fields it leaves alone keep their value.\<close>

definition netbox_reset :: "pqiNetStateBox \<Rightarrow> pqiNetStateBox" where
  "netbox_reset b = b\<lparr>mStatusOkay := False, mNetworkMode := NM_UNKNOWN, mNatTypeMode := NT_UNKNOWN,
     mNatHoleMode := NH_UNKNOWN, mConnectModes := CM_NONE, mNetStateMode := BAD_UNKNOWN,
     mStunDhtSet := False, mStunDhtTS := 0, mStunDhtStable := False,
     mStunDhtAddr := sockaddr_storage_clear,
     mStunProxySet := False, mStunProxySemiStable := False, mStunProxyTS := 0,
     mStunProxyStable := False, mStunProxyAddr := sockaddr_storage_clear,
     mUPnPSet := False, mUPnPActive := False, mUPnPAddr := sockaddr_storage_clear,
     mNatPMPSet := False, mNatPMPActive := False, mNatPMPAddr := sockaddr_storage_clear,
     mWebIPSet := False, mWebIPActive := False, mWebIPAddr := sockaddr_storage_clear,
     mPortForwardSet := False, mPortForwarded := 0,
     mDhtSet := False, mDhtActive := False, mDhtOn := False\<rparr>"

subsection \<open>Working out the state\<close>

definition statusOkay :: "rstime_t \<Rightarrow> pqiNetStateBox \<Rightarrow> bool" where
  "statusOkay now b =
     (if \<not> mStatusOkay b then False
      else if now - mStatusTS b > NETSTATE_TIMEOUT then False
      else True)"

definition clearOldNetworkData :: "bool \<Rightarrow> rstime_t \<Rightarrow> pqiNetStateBox \<Rightarrow> pqiNetStateBox" where
  "clearOldNetworkData stunner now b =
     (if stunner then
        (let b1 = (if now - mStunProxyTS b > NETSTATE_PARAM_TIMEOUT
                   then b\<lparr>mStunProxySet := False\<rparr> else b)
         in if now - mStunDhtTS b1 > NETSTATE_PARAM_TIMEOUT then b1\<lparr>mStunDhtSet := False\<rparr> else b1)
      else b\<lparr>mStunProxySet := True, mStunDhtSet := True, mStunProxyStable := True,
             mStunDhtStable := True\<rparr>)"

text \<open>The assignments to the four modes that each branch makes.\<close>

definition set_modes :: "RsNetworkMode \<Rightarrow> RsNatTypeMode \<Rightarrow> RsNatHoleMode \<Rightarrow> RsNetState \<Rightarrow>
    pqiNetStateBox \<Rightarrow> pqiNetStateBox" where
  "set_modes netmode nattype hole st b =
     b\<lparr>mNetworkMode := netmode, mNatTypeMode := nattype, mNatHoleMode := hole, mNetStateMode := st\<rparr>"

definition determine_dht_unstable :: "pqiNetStateBox \<Rightarrow> pqiNetStateBox" where
  "determine_dht_unstable b =
     (if mStunProxySemiStable b then set_modes NM_BEHINDNAT NT_DETERM_SYM NH_NONE WARNING_NATTED b
      else if \<not> mStunProxyStable b then set_modes NM_BEHINDNAT NT_SYMMETRIC NH_NONE BAD_NATSYM b
      else set_modes NM_BEHINDNAT NT_RESTRICTED_CONE NH_NONE WARNING_NATTED b)"

definition determine_dht_stable :: "pqiNetStateBox \<Rightarrow> pqiNetStateBox" where
  "determine_dht_stable b =
     (let b1 =
        (if mStunProxySemiStable b then set_modes NM_BEHINDNAT NT_DETERM_SYM NH_FORWARDED GOOD b
         else if \<not> mStunProxyStable b then set_modes NM_BEHINDNAT NT_SYMMETRIC NH_FORWARDED GOOD b
         else set_modes NM_BEHINDNAT NT_FULL_CONE NH_NONE WARNING_NATTED b)
      in if mUPnPActive b1 then
           b1\<lparr>mNetworkMode := NM_BEHINDNAT, mNatHoleMode := NH_UPNP, mNetStateMode := GOOD\<rparr>
         else if mNatPMPActive b1 then
           b1\<lparr>mNetworkMode := NM_BEHINDNAT, mNatHoleMode := NH_NATPMP, mNetStateMode := GOOD\<rparr>
         else (let isExtAddress = False in
           if isExtAddress then set_modes NM_EXTERNALIP NT_NONE NH_NONE GOOD b1
           else if mPortForwardSet b1 then
             b1\<lparr>mNetworkMode := NM_BEHINDNAT, mNatHoleMode := NH_FORWARDED,
                mNetStateMode := ADV_FORWARD\<rparr>
           else b1))"

definition determine_no_dht :: "pqiNetStateBox \<Rightarrow> pqiNetStateBox" where
  "determine_no_dht b =
     (if mUPnPActive b then set_modes NM_BEHINDNAT NT_UNKNOWN NH_UPNP WARNING_NODHT b
      else if mNatPMPActive b then set_modes NM_BEHINDNAT NT_UNKNOWN NH_NATPMP WARNING_NODHT b
      else (let isExtAddress = False in
        if isExtAddress then set_modes NM_EXTERNALIP NT_NONE NH_NONE WARNING_NODHT b
        else if mPortForwardSet b then set_modes NM_BEHINDNAT NT_UNKNOWN NH_FORWARDED WARNING_NODHT b
        else set_modes NM_BEHINDNAT NT_UNKNOWN NH_NONE BAD_NODHT_NAT b))"

definition workoutNetworkMode :: "pqiNetStateBox \<Rightarrow> pqiNetStateBox" where
  "workoutNetworkMode b =
     b\<lparr>mConnectModes :=
        (case mNetworkMode b of
           NM_UNKNOWN \<Rightarrow> CM_NONE
         | NM_OFFLINE \<Rightarrow> CM_NONE
         | NM_LOCALNET \<Rightarrow> CM_NONE
         | NM_RESTARTING \<Rightarrow> CM_NONE
         | NM_EXTERNALIP \<Rightarrow>
             (let c = CM_OUTGOING_TCP OR CM_ACCEPT_TCP in
              if mDhtActive b then c OR CM_DIRECT_UDP else c)
         | NM_BEHINDNAT \<Rightarrow>
             (let c = CM_OUTGOING_TCP in
              if mNatHoleMode b = NH_UPNP \<or> mNatHoleMode b = NH_NATPMP \<or> mNatHoleMode b = NH_FORWARDED
              then (let c = c OR CM_ACCEPT_TCP in
                    if mDhtActive b then c OR CM_DIRECT_UDP else c)
              else if mDhtActive b then
                (let c = c OR CM_DIRECT_UDP OR CM_RELAY_UDP in
                 if mNatTypeMode b = NT_RESTRICTED_CONE \<or> mNatTypeMode b = NT_FULL_CONE \<or>
                    mNatTypeMode b = NT_DETERM_SYM
                 then c OR CM_PROXY_UDP else c)
              else c))\<rparr>"

definition determineNetworkState :: "bool \<Rightarrow> rstime_t \<Rightarrow> pqiNetStateBox \<Rightarrow> pqiNetStateBox" where
  "determineNetworkState stunner now b0 =
     (let b = clearOldNetworkData stunner now b0;
          b1 = (if mDhtActive b then
                  (if \<not> mStunProxySet b \<or> \<not> mStunDhtSet b then
                     set_modes NM_UNKNOWN NT_UNKNOWN NH_NONE BAD_UNKNOWN b
                   else if \<not> mStunDhtStable b then determine_dht_unstable b
                   else determine_dht_stable b)
                else determine_no_dht b)
      in (workoutNetworkMode b1)\<lparr>mStatusOkay := True, mStatusTS := now\<rparr>)"

definition updateNetState :: "bool \<Rightarrow> rstime_t \<Rightarrow> pqiNetStateBox \<Rightarrow> pqiNetStateBox" where
  "updateNetState stunner now b =
     (if \<not> statusOkay now b then determineNetworkState stunner now b else b)"

subsection \<open>Getters\<close>

definition getNetworkMode :: "bool \<Rightarrow> rstime_t \<Rightarrow> pqiNetStateBox \<Rightarrow> RsNetworkMode \<times> pqiNetStateBox" where
  "getNetworkMode stunner now b = (let b' = updateNetState stunner now b in (mNetworkMode b', b'))"

definition getNatTypeMode :: "bool \<Rightarrow> rstime_t \<Rightarrow> pqiNetStateBox \<Rightarrow> RsNatTypeMode \<times> pqiNetStateBox" where
  "getNatTypeMode stunner now b = (let b' = updateNetState stunner now b in (mNatTypeMode b', b'))"

definition getNatHoleMode :: "bool \<Rightarrow> rstime_t \<Rightarrow> pqiNetStateBox \<Rightarrow> RsNatHoleMode \<times> pqiNetStateBox" where
  "getNatHoleMode stunner now b = (let b' = updateNetState stunner now b in (mNatHoleMode b', b'))"

definition getConnectModes :: "bool \<Rightarrow> rstime_t \<Rightarrow> pqiNetStateBox \<Rightarrow> RsConnectModes \<times> pqiNetStateBox" where
  "getConnectModes stunner now b = (let b' = updateNetState stunner now b in (mConnectModes b', b'))"

definition getNetStateMode :: "bool \<Rightarrow> rstime_t \<Rightarrow> pqiNetStateBox \<Rightarrow> RsNetState \<times> pqiNetStateBox" where
  "getNetStateMode stunner now b = (let b' = updateNetState stunner now b in (mNetStateMode b', b'))"

subsection \<open>What the state means\<close>

text \<open>The specification: the four modes as a table over the reports.\<close>

definition user_hole :: "pqiNetStateBox \<Rightarrow> RsNatHoleMode" where
  "user_hole b =
     (if mUPnPActive b then NH_UPNP else if mNatPMPActive b then NH_NATPMP
      else if mPortForwardSet b then NH_FORWARDED else NH_NONE)"

definition measured :: "pqiNetStateBox \<Rightarrow> bool" where
  "measured b = (mStunProxySet b \<and> mStunDhtSet b)"

definition port_preserving :: "pqiNetStateBox \<Rightarrow> bool" where
  "port_preserving b = (mStunProxyStable b \<and> \<not> mStunProxySemiStable b)"

definition spec_nat_type :: "pqiNetStateBox \<Rightarrow> RsNatTypeMode" where
  "spec_nat_type b =
     (if \<not> mDhtActive b \<or> \<not> measured b then NT_UNKNOWN
      else if mStunProxySemiStable b then NT_DETERM_SYM
      else if \<not> mStunProxyStable b then NT_SYMMETRIC
      else if mStunDhtStable b then NT_FULL_CONE else NT_RESTRICTED_CONE)"

definition spec_nat_hole :: "pqiNetStateBox \<Rightarrow> RsNatHoleMode" where
  "spec_nat_hole b =
     (if \<not> mDhtActive b then user_hole b
      else if \<not> measured b \<or> \<not> mStunDhtStable b then NH_NONE
      else if user_hole b = NH_NONE \<and> \<not> port_preserving b then NH_FORWARDED
      else user_hole b)"

definition spec_net_state :: "pqiNetStateBox \<Rightarrow> RsNetState" where
  "spec_net_state b =
     (if \<not> mDhtActive b then (if user_hole b = NH_NONE then BAD_NODHT_NAT else WARNING_NODHT)
      else if \<not> measured b then BAD_UNKNOWN
      else if \<not> mStunDhtStable b then
        (if mStunProxySemiStable b \<or> mStunProxyStable b then WARNING_NATTED else BAD_NATSYM)
      else if user_hole b = NH_FORWARDED then ADV_FORWARD
      else if user_hole b = NH_NONE \<and> port_preserving b then WARNING_NATTED
      else GOOD)"

definition spec_network :: "pqiNetStateBox \<Rightarrow> RsNetworkMode" where
  "spec_network b = (if mDhtActive b \<and> \<not> measured b then NM_UNKNOWN else NM_BEHINDNAT)"

definition spec_connect_modes :: "pqiNetStateBox \<Rightarrow> RsConnectModes" where
  "spec_connect_modes b =
     (if spec_network b = NM_UNKNOWN then CM_NONE
      else if spec_nat_hole b \<noteq> NH_NONE then
        (if mDhtActive b then 0x0103 else 0x0003)
      else if mDhtActive b then
        (if spec_nat_type b = NT_SYMMETRIC then 0x0502 else 0x0702)
      else 0x0002)"

definition spec_box :: "rstime_t \<Rightarrow> pqiNetStateBox \<Rightarrow> pqiNetStateBox" where
  "spec_box now b = b\<lparr>mNetworkMode := spec_network b, mNatTypeMode := spec_nat_type b,
     mNatHoleMode := spec_nat_hole b, mNetStateMode := spec_net_state b,
     mConnectModes := spec_connect_modes b, mStatusOkay := True, mStatusTS := now\<rparr>"

lemmas spec_defs = spec_network_def spec_nat_type_def spec_nat_hole_def spec_net_state_def
  spec_connect_modes_def user_hole_def measured_def port_preserving_def

lemmas determine_defs = set_modes_def determine_dht_unstable_def determine_dht_stable_def
  determine_no_dht_def workoutNetworkMode_def

lemma determine_is_spec:
  "determineNetworkState stunner now b = spec_box now (clearOldNetworkData stunner now b)"
proof -
  define c where "c = clearOldNetworkData stunner now b"
  consider "\<not> mDhtActive c" | "mDhtActive c" "\<not> measured c"
    | "mDhtActive c" "measured c" "\<not> mStunDhtStable c"
    | "mDhtActive c" "measured c" "mStunDhtStable c" by blast
  then show ?thesis
    unfolding determineNetworkState_def Let_def c_def [symmetric] spec_box_def
    by cases (simp_all add: spec_defs determine_defs Let_def)
qed

subsection \<open>Runs of a box\<close>

text \<open>The calls on a box, at times that do not decrease; the getters change the box alike.\<close>

datatype netbox_call =
    SetAddressStunDht sockaddr_storage bool
  | SetAddressStunProxy sockaddr_storage bool
  | SetAddressUPnP bool sockaddr_storage
  | SetAddressNatPMP bool sockaddr_storage
  | SetAddressWebIP bool sockaddr_storage
  | SetPortForwarded bool u16
  | SetDhtState bool bool
  | Reset
  | Get

fun netbox_apply :: "bool \<Rightarrow> rstime_t \<Rightarrow> netbox_call \<Rightarrow> pqiNetStateBox \<Rightarrow> pqiNetStateBox" where
  "netbox_apply stunner now (SetAddressStunDht a s) b = setAddressStunDht now a s b"
| "netbox_apply stunner now (SetAddressStunProxy a s) b = setAddressStunProxy now a s b"
| "netbox_apply stunner now (SetAddressUPnP act a) b = setAddressUPnP now act a b"
| "netbox_apply stunner now (SetAddressNatPMP act a) b = setAddressNatPMP now act a b"
| "netbox_apply stunner now (SetAddressWebIP act a) b = setAddressWebIP now act a b"
| "netbox_apply stunner now (SetPortForwarded act p) b = setPortForwarded act p b"
| "netbox_apply stunner now (SetDhtState on act) b = setDhtState now on act b"
| "netbox_apply stunner now Reset b = netbox_reset b"
| "netbox_apply stunner now Get b = updateNetState stunner now b"

definition netbox_init :: "rstime_t \<times> pqiNetStateBox \<Rightarrow> bool" where
  "netbox_init s = (0 \<le> fst s \<and> (\<exists>raw. snd s = netbox_reset raw))"

inductive netbox_step :: "bool \<Rightarrow> rstime_t \<times> pqiNetStateBox \<Rightarrow> rstime_t \<times> netbox_call \<Rightarrow>
    rstime_t \<times> pqiNetStateBox \<Rightarrow> bool" for stunner :: bool where
  "t \<le> now \<Longrightarrow> netbox_step stunner (t, b) (now, c) (now, netbox_apply stunner now c b)"

inductive_cases netbox_stepE: "netbox_step stunner s e s'"

text \<open>A box with a cached result holds what its reports say, and the reports it counts were fresh when
  the result was worked out.\<close>

definition modes_match :: "pqiNetStateBox \<Rightarrow> bool" where
  "modes_match b =
     (mNetworkMode b = spec_network b \<and> mNatTypeMode b = spec_nat_type b \<and>
      mNatHoleMode b = spec_nat_hole b \<and> mNetStateMode b = spec_net_state b \<and>
      mConnectModes b = spec_connect_modes b)"

definition reports_fresh :: "bool \<Rightarrow> rstime_t \<Rightarrow> pqiNetStateBox \<Rightarrow> bool" where
  "reports_fresh stunner now b =
     (if stunner then
        (mStunProxySet b \<longrightarrow> now - mStunProxyTS b \<le> NETSTATE_PARAM_TIMEOUT) \<and>
        (mStunDhtSet b \<longrightarrow> now - mStunDhtTS b \<le> NETSTATE_PARAM_TIMEOUT)
      else mStunProxySet b \<and> mStunDhtSet b \<and> mStunProxyStable b \<and> mStunDhtStable b)"

definition netbox_inv :: "bool \<Rightarrow> rstime_t \<times> pqiNetStateBox \<Rightarrow> bool" where
  "netbox_inv stunner s =
     (let (t, b) = s in
      0 \<le> t \<and> mStunProxyTS b \<le> t \<and> mStunDhtTS b \<le> t \<and>
      (mStatusOkay b \<longrightarrow>
         mStatusTS b \<le> t \<and> modes_match b \<and> reports_fresh stunner (mStatusTS b) b))"

lemma clear_fresh_id: "reports_fresh stunner now b \<Longrightarrow> clearOldNetworkData stunner now b = b"
  by (auto simp: reports_fresh_def clearOldNetworkData_def Let_def split: if_splits)

lemma fresh_clear: "reports_fresh stunner now (clearOldNetworkData stunner now b)"
  by (simp add: reports_fresh_def clearOldNetworkData_def Let_def)

lemma spec_spec_box [simp]:
  "spec_network (spec_box now b) = spec_network b" "spec_nat_type (spec_box now b) = spec_nat_type b"
  "spec_nat_hole (spec_box now b) = spec_nat_hole b" "spec_net_state (spec_box now b) = spec_net_state b"
  "spec_connect_modes (spec_box now b) = spec_connect_modes b"
  by (simp_all add: spec_box_def spec_defs)

lemma spec_box_match: "modes_match (spec_box now b)"
  by (simp add: modes_match_def) (simp add: spec_box_def)

lemma spec_box_fields [simp]:
  "mStatusOkay (spec_box now b)" "mStatusTS (spec_box now b) = now"
  "mStunProxyTS (spec_box now b) = mStunProxyTS b" "mStunDhtTS (spec_box now b) = mStunDhtTS b"
  "reports_fresh stunner t (spec_box now b) = reports_fresh stunner t b"
  by (simp_all add: spec_box_def reports_fresh_def)

lemma clear_TS [simp]:
  "mStunProxyTS (clearOldNetworkData stunner now b) = mStunProxyTS b"
  "mStunDhtTS (clearOldNetworkData stunner now b) = mStunDhtTS b"
  by (simp_all add: clearOldNetworkData_def Let_def)

lemma match_spec_box: "mStatusOkay b \<Longrightarrow> modes_match b \<Longrightarrow> spec_box (mStatusTS b) b = b"
  by (simp add: spec_box_def modes_match_def)

lemma set_times_match [simp]:
  "modes_match (b\<lparr>mStunDhtTS := now\<rparr>) = modes_match b"
  "modes_match (b\<lparr>mStunProxyTS := now\<rparr>) = modes_match b"
  "modes_match (b\<lparr>mUPnPTS := now\<rparr>) = modes_match b"
  "modes_match (b\<lparr>mNatPMPTS := now\<rparr>) = modes_match b"
  "modes_match (b\<lparr>mWebIPTS := now\<rparr>) = modes_match b"
  "modes_match (b\<lparr>mDhtTS := now\<rparr>) = modes_match b"
  by (simp_all add: modes_match_def spec_defs)

lemma netbox_get_inv:
  assumes "netbox_inv stunner (t, b)" "t \<le> now"
  shows "netbox_inv stunner (now, updateNetState stunner now b)"
proof (cases "statusOkay now b")
  case True
  then show ?thesis using assms by (auto simp: netbox_inv_def updateNetState_def)
next
  case False
  then show ?thesis
    using assms fresh_clear [of stunner now b] spec_box_match
    by (simp add: netbox_inv_def updateNetState_def determine_is_spec)
qed

lemma netbox_apply_inv:
  assumes "netbox_inv stunner (t, b)" "t \<le> now"
  shows "netbox_inv stunner (now, netbox_apply stunner now c b)"
proof (cases c)
  case Get
  then show ?thesis using netbox_get_inv [OF assms] by simp
next
  case Reset
  then show ?thesis using assms by (simp add: netbox_inv_def netbox_reset_def)
qed (use assms in \<open>auto simp: netbox_inv_def reports_fresh_def setAddressStunDht_def
    setAddressStunProxy_def setAddressUPnP_def setAddressNatPMP_def setAddressWebIP_def
    setPortForwarded_def setDhtState_def Let_def\<close>)

interpretation netbox: inductive_invariant netbox_init "netbox_step stunner" "netbox_inv stunner"
  for stunner
proof (unfold_locales, goal_cases)
  case (1 s)
  then show ?case by (auto simp: netbox_init_def netbox_inv_def netbox_reset_def split: prod.splits)
next
  case (2 s e s')
  then show ?case by (auto elim!: netbox_stepE intro: netbox_apply_inv)
qed

text \<open>What a getter works with: the box it leaves is what the reports give, at a recent time.\<close>

lemma getter_box:
  assumes "netbox_inv stunner (t, b)" "t \<le> now"
  shows "\<exists>tau. now - NETSTATE_TIMEOUT \<le> tau \<and> tau \<le> now \<and>
    updateNetState stunner now b = determineNetworkState stunner tau b"
proof (cases "statusOkay now b")
  case True
  then have ok: "mStatusOkay b" "now - mStatusTS b \<le> 60" by (auto simp: statusOkay_def split: if_splits)
  with assms(1) have "modes_match b" "reports_fresh stunner (mStatusTS b) b" "mStatusTS b \<le> t"
    by (auto simp: netbox_inv_def)
  then have "determineNetworkState stunner (mStatusTS b) b = b"
    using ok(1) by (simp add: determine_is_spec clear_fresh_id match_spec_box)
  then show ?thesis
    using True ok(2) \<open>mStatusTS b \<le> t\<close> assms(2)
    by (intro exI [of _ "mStatusTS b"]) (simp add: updateNetState_def)
next
  case False
  then show ?thesis by (intro exI [of _ now]) (simp add: updateNetState_def)
qed

subsection \<open>Properties\<close>

text \<open>C9. The four nested decisions of \<^verbatim>\<open>determineNetworkState\<close> and \<^verbatim>\<open>workoutNetworkMode\<close> implement the
  table of the specification, on the reports that are not too old.\<close>

theorem determine_refines_table:
  "determineNetworkState stunner now b = spec_box now (clearOldNetworkData stunner now b)"
  by (rule determine_is_spec)

text \<open>C32. Caching is transparent: after any sequence of calls at non-decreasing times, a getter leaves
  the box that working the state out from the current reports, at some time within the last
  minute, gives; no change of a report is missed.\<close>

theorem netbox_cache_transparent:
  assumes "reach netbox_init (netbox_step stunner) (t, b)" "t \<le> now"
  shows "\<exists>tau. now - 60 \<le> tau \<and> tau \<le> now \<and>
    updateNetState stunner now b = determineNetworkState stunner tau b \<and>
    snd (getConnectModes stunner now b) = determineNetworkState stunner tau b \<and>
    fst (getConnectModes stunner now b) = mConnectModes (determineNetworkState stunner tau b)"
  using getter_box [OF netbox.reach_inv [OF assms(1)] assms(2)]
  by (fastforce simp: getConnectModes_def Let_def)

text \<open>A run to a good state: DHT on, a stable DHT port, an unstable proxy port. The uninitialised fields
  do not matter.\<close>

definition netbox_example :: pqiNetStateBox where
  "netbox_example = setAddressStunProxy 5 (snd (sockaddr_storage_setipv4 1 1)) False
     (setAddressStunDht 5 (snd (sockaddr_storage_setipv4 1 1)) True
       (setDhtState 5 True True (netbox_reset undefined)))"

lemma netbox_example_reach: "reach netbox_init (netbox_step True) (5, netbox_example)"
proof -
  have 0: "reach netbox_init (netbox_step True) (5, netbox_reset undefined)"
    by (rule reach_init) (auto simp: netbox_init_def)
  have st: "netbox_step True (5, b) (5, c) (5, netbox_apply True 5 c b)" for b c
    by (rule netbox_step.intros) simp
  show ?thesis unfolding netbox_example_def
    using reach_step [OF reach_step [OF reach_step [OF 0 st [of _ "SetDhtState True True"]]
        st [of _ "SetAddressStunDht (snd (sockaddr_storage_setipv4 1 1)) True"]]
        st [of _ "SetAddressStunProxy (snd (sockaddr_storage_setipv4 1 1)) False"]]
    by simp
qed

lemma netbox_cache_transparent_witness:
  "\<exists>tau. 0 \<le> tau \<and> tau \<le> (60 :: rstime_t) \<and>
     updateNetState True 60 netbox_example = determineNetworkState True tau netbox_example"
  using netbox_cache_transparent [OF netbox_example_reach, of 60] by auto

text \<open>The state is reported as good only with the DHT active, both STUN measurements present and,
  in a build that measures, at most 16 minutes old, and a stable DHT port.\<close>

theorem good_is_measured:
  assumes "reach netbox_init (netbox_step stunner) (t, b)" "t \<le> now"
    "getNetStateMode stunner now b = (GOOD, b')"
  shows "mDhtActive b \<and> mStunProxySet b' \<and> mStunDhtSet b' \<and> mStunDhtStable b' \<and>
    (stunner \<longrightarrow> now - mStunProxyTS b \<le> 960 \<and> now - mStunDhtTS b \<le> 960)"
proof -
  obtain tau where tau: "now - 60 \<le> tau"
    and b': "b' = spec_box tau (clearOldNetworkData stunner tau b)"
    using getter_box [OF netbox.reach_inv [OF assms(1)] assms(2)] assms(3)
    by (auto simp: getNetStateMode_def determine_is_spec Let_def)
  let ?c = "clearOldNetworkData stunner tau b"
  have "mNetStateMode b' = GOOD" using assms(3) by (auto simp: getNetStateMode_def Let_def)
  then have "spec_net_state ?c = GOOD" using b' by (simp add: spec_box_def)
  then have c: "mDhtActive ?c" "measured ?c" "mStunDhtStable ?c"
    by (auto simp: spec_net_state_def split: if_splits)
  moreover have "mDhtActive ?c = mDhtActive b" by (simp add: clearOldNetworkData_def Let_def)
  moreover have "stunner \<longrightarrow> now - mStunProxyTS b \<le> 960 \<and> now - mStunDhtTS b \<le> 960"
    using fresh_clear [of stunner tau b] c(2) tau by (auto simp: reports_fresh_def measured_def)
  ultimately show ?thesis using b' by (auto simp: spec_box_def measured_def)
qed

lemma good_is_measured_witness:
  "\<exists>b'. getNetStateMode True 60 netbox_example = (GOOD, b') \<and> mDhtActive netbox_example \<and>
     mStunDhtStable b'"
proof -
  define b' where "b' = updateNetState True 60 netbox_example"
  have g: "getNetStateMode True 60 netbox_example = (GOOD, b')"
    by (simp add: getNetStateMode_def b'_def netbox_example_def updateNetState_def statusOkay_def
        setDhtState_def setAddressStunDht_def setAddressStunProxy_def netbox_reset_def Let_def
        determine_is_spec spec_box_def clearOldNetworkData_def spec_defs)
  from good_is_measured [OF netbox_example_reach _ g] g show ?thesis by auto
qed

text \<open>The connection modes a box offers are consistent: TCP is accepted exactly when there is a hole
  in the NAT, and then neither proxy nor relay is offered; proxy implies relay, relay implies direct
  UDP, and UDP is offered only with an active DHT.\<close>

theorem connect_modes_consistent:
  fixes b :: pqiNetStateBox and now :: rstime_t and stunner :: bool
  defines "d \<equiv> determineNetworkState stunner now b"
  defines "m \<equiv> mConnectModes d"
  shows "(m AND CM_ACCEPT_TCP \<noteq> 0) = (mNatHoleMode d \<noteq> NH_NONE) \<and>
    \<not> (m AND CM_ACCEPT_TCP \<noteq> 0 \<and> m AND (CM_PROXY_UDP OR CM_RELAY_UDP) \<noteq> 0) \<and>
    \<not> (m AND CM_PROXY_UDP \<noteq> 0 \<and> m AND CM_RELAY_UDP = 0) \<and>
    \<not> (m AND CM_RELAY_UDP \<noteq> 0 \<and> m AND CM_DIRECT_UDP = 0) \<and>
    \<not> (m AND CM_DIRECT_UDP \<noteq> 0 \<and> \<not> mDhtActive b)"
proof -
  define c where "c = clearOldNetworkData stunner now b"
  have dht: "mDhtActive c = mDhtActive b" by (simp add: c_def clearOldNetworkData_def Let_def)
  have d: "mNatHoleMode d = spec_nat_hole c" "m = spec_connect_modes c"
    by (simp_all add: m_def d_def determine_is_spec spec_box_def c_def)
  have u: "spec_network c = NM_UNKNOWN \<longrightarrow> spec_nat_hole c = NH_NONE"
    by (simp add: spec_network_def spec_nat_hole_def)
  show ?thesis
    unfolding d using u dht by (simp add: spec_connect_modes_def split: if_splits)
qed

text \<open>Declaring a port as not forwarded makes it count as forwarded: the code ignores the first
  argument, so a box without DHT, UPnP and NAT-PMP then reports a forwarded hole and accepts TCP.\<close>

theorem port_forward_ignores_active:
  assumes "\<not> mDhtActive b" "\<not> mUPnPActive b" "\<not> mNatPMPActive b"
  shows "setPortForwarded False port b = setPortForwarded True port b \<and>
    mNatHoleMode (determineNetworkState stunner now (setPortForwarded False port b)) = NH_FORWARDED \<and>
    mConnectModes (determineNetworkState stunner now (setPortForwarded False port b)) =
      CM_OUTGOING_TCP OR CM_ACCEPT_TCP"
  using assms
  by (auto simp: setPortForwarded_def determine_is_spec spec_box_def clearOldNetworkData_def Let_def
      spec_defs)

lemma port_forward_ignores_active_witness:
  "mNatHoleMode (determineNetworkState True 0 (setPortForwarded False 7 (netbox_reset undefined))) =
     NH_FORWARDED"
proof -
  have "\<not> mDhtActive (netbox_reset undefined)" "\<not> mUPnPActive (netbox_reset undefined)"
    "\<not> mNatPMPActive (netbox_reset undefined)" by (simp_all add: netbox_reset_def)
  from port_forward_ignores_active [OF this] show ?thesis by blast
qed

end
