(* ===== verification/Std_Map.thy ===== *)
theory Std_Map
  imports RS_Prelude
begin

text \<open>
  \<^verbatim>\<open>std::map\<close>: an association list in strictly increasing key order, so that iteration is the list's
  order and a model that loops over a map computes. \<open>map_of\<close> of HOL is \<^verbatim>\<open>find\<close>; \<open>map_put\<close> is the
  assignment through \<^verbatim>\<open>operator[]\<close>; \<open>map_erase\<close> is \<^verbatim>\<open>erase\<close> by key.
\<close>

type_synonym ('k, 'v) std_map = "('k \<times> 'v) list"

fun map_put :: "'k::linorder \<Rightarrow> 'v \<Rightarrow> ('k, 'v) std_map \<Rightarrow> ('k, 'v) std_map" where
  "map_put k v [] = [(k, v)]"
| "map_put k v ((k', v') # m) =
     (if k < k' then (k, v) # (k', v') # m
      else if k = k' then (k, v) # m
      else (k', v') # map_put k v m)"

definition map_erase :: "'k::linorder \<Rightarrow> ('k, 'v) std_map \<Rightarrow> ('k, 'v) std_map" where
  "map_erase k m = filter (\<lambda>e. fst e \<noteq> k) m"

text \<open>\<^verbatim>\<open>operator[]\<close> used for reading: a missing entry is default-constructed.\<close>

definition map_get :: "'v \<Rightarrow> 'k::linorder \<Rightarrow> ('k, 'v) std_map \<Rightarrow> 'v" where
  "map_get dflt k m = (case map_of m k of Some v \<Rightarrow> v | None \<Rightarrow> dflt)"

definition map_wf :: "('k::linorder, 'v) std_map \<Rightarrow> bool" where
  "map_wf m = sorted_wrt (<) (map fst m)"

definition entry_sum :: "('k \<Rightarrow> 'v \<Rightarrow> nat) \<Rightarrow> ('k, 'v) std_map \<Rightarrow> nat" where
  "entry_sum f m = sum_list (map (\<lambda>(k, v). f k v) m)"

subsection \<open>Laws\<close>

lemma map_wf_Nil [simp]: "map_wf []"
  by (simp add: map_wf_def)

lemma map_wf_Cons [simp]: "map_wf ((k, v) # m) \<longleftrightarrow> (\<forall>k' \<in> fst ` set m. k < k') \<and> map_wf m"
  by (simp add: map_wf_def)

lemma entry_sum_Nil [simp]: "entry_sum f [] = 0"
  and entry_sum_Cons [simp]: "entry_sum f ((k, v) # m) = f k v + entry_sum f m"
  by (simp_all add: entry_sum_def)

lemma map_of_put [simp]: "map_of (map_put k v m) = (map_of m)(k \<mapsto> v)"
  by (induction k v m rule: map_put.induct) auto

lemma map_of_erase [simp]: "map_of (map_erase k m) = (map_of m)(k := None)"
  by (induction m) (auto simp: map_erase_def)

lemma keys_put [simp]: "fst ` set (map_put k v m) = insert k (fst ` set m)"
  by (induction k v m rule: map_put.induct) auto

lemma keys_erase [simp]: "fst ` set (map_erase k m) = fst ` set m - {k}"
  by (auto simp: map_erase_def)

lemma map_wf_put [simp]: "map_wf m \<Longrightarrow> map_wf (map_put k v m)"
  by (induction k v m rule: map_put.induct) (auto simp: not_less)

lemma map_wf_filter [simp]: "map_wf m \<Longrightarrow> map_wf (filter P m)"
  unfolding map_wf_def by (induction m) auto

lemma map_wf_erase [simp]: "map_wf m \<Longrightarrow> map_wf (map_erase k m)"
  by (simp add: map_erase_def)

lemma map_wf_distinct: "map_wf m \<Longrightarrow> distinct (map fst m)"
  by (induction m) (auto simp: image_iff, fastforce)

lemma map_of_iff: "map_wf m \<Longrightarrow> map_of m k = Some v \<longleftrightarrow> (k, v) \<in> set m"
  by (simp add: map_wf_distinct)

lemma in_map_put [simp]:
  "map_wf m \<Longrightarrow> (k', v') \<in> set (map_put k v m) \<longleftrightarrow> (if k' = k then v' = v else (k', v') \<in> set m)"
  using map_of_iff [of "map_put k v m" k' v'] map_of_iff [of m k' v'] by auto

lemma in_map_erase [simp]: "(k', v') \<in> set (map_erase k m) \<longleftrightarrow> k' \<noteq> k \<and> (k', v') \<in> set m"
  by (auto simp: map_erase_def)

lemma map_put_same: "map_wf m \<Longrightarrow> map_of m k = Some v \<Longrightarrow> map_put k v m = m"
proof (induction k v m rule: map_put.induct)
  case (2 k v k' v' m)
  then have "k \<in> fst ` set ((k', v') # m)" by (metis domI dom_map_of_conv_image_fst)
  then show ?case using 2 by (auto simp: image_iff split: if_splits)
qed simp

lemma key_has_value: "map_wf m \<Longrightarrow> k \<in> fst ` set m \<Longrightarrow> \<exists>v. map_of m k = Some v \<and> (k, v) \<in> set m"
  by (auto simp: map_of_iff)

lemma entry_sum_put:
  "map_wf m \<Longrightarrow> entry_sum f (map_put k v m) + (case map_of m k of Some w \<Rightarrow> f k w | None \<Rightarrow> 0) =
     entry_sum f m + f k v"
proof (induction k v m rule: map_put.induct)
  case (2 k v k' v' m)
  have "map_of m k = None" if "k < k'" "\<forall>x \<in> fst ` set m. k' < x"
    using that by (auto simp: map_of_eq_None_iff)
  then show ?case using 2 by auto
qed simp

lemma entry_sum_put_new: "map_wf m \<Longrightarrow> map_of m k = None \<Longrightarrow> entry_sum f (map_put k v m) = entry_sum f m + f k v"
  using entry_sum_put [of m f k v] by simp

lemma entry_sum_erase:
  "map_wf m \<Longrightarrow> entry_sum f (map_erase k m) + (case map_of m k of Some w \<Rightarrow> f k w | None \<Rightarrow> 0) =
     entry_sum f m"
proof (induction m)
  case (Cons e m)
  obtain k' v' where e: "e = (k', v')" by (cases e)
  have "map_erase k m = m" if "k \<notin> fst ` set m"
    using that by (auto simp: map_erase_def filter_id_conv)
  moreover have "k \<notin> fst ` set m" if "k = k'" using that Cons.prems e by auto
  ultimately show ?case using Cons e by (cases "k = k'") (auto simp: map_erase_def)
qed (simp add: map_erase_def)

lemma entry_sum_member: "(k, v) \<in> set m \<Longrightarrow> f k v \<le> entry_sum f m"
  by (induction m) auto

lemma entry_sum_cong: "(\<And>k v. (k, v) \<in> set m \<Longrightarrow> f k v = g k v) \<Longrightarrow> entry_sum f m = entry_sum g m"
  unfolding entry_sum_def by (rule arg_cong [of _ _ sum_list]) auto

end
