(* ===== verification/Chunk_Map.thy ===== *)
theory Chunk_Map
  imports Std_Map "HOL-Library.List_Lexorder"
begin

text \<open>
  \<^verbatim>\<open>ft/ftchunkmap.cc\<close> and the \<^verbatim>\<open>CompressedChunkMap\<close> of \<^verbatim>\<open>retroshare/rstypes.h\<close>: which parts of a file are
  downloaded, being downloaded by which peer, or missing. A file is cut into chunks of 1 MB; each
  peer feeds on one active chunk, from which slices are cut; a slice is pending until its data has
  arrived. Fields have the names of the code without the leading underscore (\<open>cm_\<close> for the map, \<open>ck_\<close>
  for a chunk, \<open>cdi_\<close> and \<open>sri_\<close> for the download records). Offsets are 64-bit words, sizes and chunk
  numbers 32-bit words. The clock and \<^verbatim>\<open>rand()\<close> are arguments, and so is the floating-point test by
  which a slow peer's chunk is shared (\<open>slow\<close>): what is proved holds whatever it answers. Indexing a
  vector outside its size is undefined in C++ and unspecified here.
\<close>

abbreviation (input) SOURCE_CHUNK_MAP_UPDATE_PERIOD :: int where "SOURCE_CHUNK_MAP_UPDATE_PERIOD \<equiv> 60"
abbreviation (input) INACTIVE_CHUNK_TIME_LAPSE :: int where "INACTIVE_CHUNK_TIME_LAPSE \<equiv> 3600"
abbreviation (input) FT_CHUNKMAP_MAX_CHUNK_JUMP :: u32 where "FT_CHUNKMAP_MAX_CHUNK_JUMP \<equiv> 50"
abbreviation (input) FT_CHUNKMAP_MAX_SLICE_REASK_DELAY :: int where "FT_CHUNKMAP_MAX_SLICE_REASK_DELAY \<equiv> 10"
abbreviation (input) CHUNKMAP_FIXED_CHUNK_SIZE :: u32 where "CHUNKMAP_FIXED_CHUNK_SIZE \<equiv> 0x100000"

type_synonym RsPeerId = bytes
type_synonym ChunkNumber = u32

datatype ChunkState = CHUNK_OUTSTANDING | CHUNK_ACTIVE | CHUNK_DONE | CHUNK_CHECKING
datatype ChunkStrategy = CHUNK_STRATEGY_STREAMING | CHUNK_STRATEGY_RANDOM | CHUNK_STRATEGY_PROGRESSIVE

subsection \<open>Compressed chunk maps\<close>

type_synonym CompressedChunkMap = "u32 list"

definition getCompressedSize :: "u32 \<Rightarrow> u32" where
  "getCompressedSize nb = drop_bit 5 nb + (if nb AND 31 \<noteq> 0 then 1 else 0)"

definition cmap_index :: "CompressedChunkMap \<Rightarrow> u32 \<Rightarrow> bool" where
  "cmap_index m i = (m ! unat (drop_bit 5 i) AND push_bit (unat (i AND 31)) 1 > 0)"

definition cmap_set :: "u32 \<Rightarrow> CompressedChunkMap \<Rightarrow> CompressedChunkMap" where
  "cmap_set j m =
     m[unat (drop_bit 5 j) := m ! unat (drop_bit 5 j) OR push_bit (unat (j AND 31)) 1]"

definition cmap_reset :: "u32 \<Rightarrow> CompressedChunkMap \<Rightarrow> CompressedChunkMap" where
  "cmap_reset j m =
     m[unat (drop_bit 5 j) := m ! unat (drop_bit 5 j) AND NOT (push_bit (unat (j AND 31)) 1)]"

text \<open>The two constructors, from chunk states and plain.\<close>

definition cmap_of_states :: "ChunkState list \<Rightarrow> CompressedChunkMap" where
  "cmap_of_states st =
     fold (\<lambda>i m. if st ! i = CHUNK_DONE then cmap_set (of_nat i) m else m) [0..<length st]
       (replicate (unat (getCompressedSize (of_nat (length st)))) 0)"

definition cmap_plain :: "u32 \<Rightarrow> u32 \<Rightarrow> CompressedChunkMap" where
  "cmap_plain nb_chunks v = replicate (unat (getCompressedSize nb_chunks)) v"

definition filledChunks :: "CompressedChunkMap \<Rightarrow> u32 \<Rightarrow> u32" where
  "filledChunks m nbchks =
     foldl (\<lambda>res i. res + (if cmap_index m (of_nat i) then 1 else 0)) 0
       [0..<unat (min nbchks (of_nat (length m) * 32))]"

definition computeProgress :: "CompressedChunkMap \<Rightarrow> u64 \<Rightarrow> u32 \<Rightarrow> u64" where
  "computeProgress m total_size chunk_size =
     (if total_size = 0 then 0
      else let nbchks = ucast ((total_size + ucast chunk_size - 1) div ucast chunk_size) :: u32;
               residue = ucast (total_size mod ucast chunk_size) :: u32
           in if residue \<noteq> 0 \<and> cmap_index m (nbchks - 1)
              then ucast (filledChunks m nbchks - 1) * ucast chunk_size + total_size mod ucast chunk_size
              else ucast (filledChunks m nbchks) * ucast chunk_size)"

subsection \<open>Data\<close>

record ftChunk =
  ft_offset :: u64
  ft_size :: u64
  ft_id :: u64
  ft_ts :: rstime_t
  ft_peer_id :: RsPeerId

record Chunk =
  ck_start :: u64
  ck_offset :: u64
  ck_end :: u64

record SliceRequestInfo =
  sri_size :: u32
  sri_request_time :: rstime_t
  sri_peers :: "RsPeerId list"

record ChunkDownloadInfo =
  cdi_slices :: "(u64, SliceRequestInfo) std_map"
  cdi_remains :: u32
  cdi_last_data_received :: rstime_t

record SourceChunksInfo =
  sci_cmap :: CompressedChunkMap
  sci_TS :: rstime_t
  sci_is_full :: bool

record ChunkMap =
  cm_file_size :: u64
  cm_chunk_size :: u32
  cm_strategy :: ChunkStrategy
  cm_active_chunks_feed :: "(RsPeerId, Chunk) std_map"
  cm_slices_to_download :: "(ChunkNumber, ChunkDownloadInfo) std_map"
  cm_map :: "ChunkState list"
  cm_peers_chunks_availability :: "(RsPeerId, SourceChunksInfo) std_map"
  cm_total_downloaded :: u64
  cm_file_is_complete :: bool
  cm_assume_availability :: bool
  cm_chunks_checking_queue :: "u32 list"

text \<open>What \<^verbatim>\<open>operator[]\<close> of the maps constructs for a missing key.\<close>

definition default_sri :: SliceRequestInfo where
  "default_sri = \<lparr>sri_size = 0, sri_request_time = 0, sri_peers = []\<rparr>"

definition default_cdi :: ChunkDownloadInfo where
  "default_cdi = \<lparr>cdi_slices = [], cdi_remains = 0, cdi_last_data_received = 0\<rparr>"

definition default_sci :: SourceChunksInfo where
  "default_sci = \<lparr>sci_cmap = [], sci_TS = 0, sci_is_full = False\<rparr>"

definition hasData :: "SourceChunksInfo \<Rightarrow> u64 \<Rightarrow> u32 \<Rightarrow> bool" where
  "hasData sci offset fixed_chunk_size =
     (if sci_is_full sci then True
      else cmap_index (sci_cmap sci) (ucast (offset div ucast fixed_chunk_size)))"

definition make_chunk :: "u64 \<Rightarrow> u32 \<Rightarrow> Chunk" where
  "make_chunk start nb = \<lparr>ck_start = start, ck_offset = start, ck_end = ucast nb + start\<rparr>"

definition chunk_empty :: "Chunk \<Rightarrow> bool" where
  "chunk_empty c = (ck_offset c = ck_end c)"

text \<open>\<^verbatim>\<open>getSlice\<close> fills all fields of the slice but the peer, which the caller sets.\<close>

definition getSlice :: "rstime_t \<Rightarrow> u32 \<Rightarrow> RsPeerId \<Rightarrow> Chunk \<Rightarrow> ftChunk \<times> Chunk" where
  "getSlice now size_hint peer c =
     (let sz = min size_hint (ucast (ck_end c - ck_offset c)) in
      (\<lparr>ft_offset = ck_offset c, ft_size = ucast sz, ft_id = ck_offset c, ft_ts = now,
        ft_peer_id = peer\<rparr>,
       c\<lparr>ck_offset := ck_offset c + ucast sz\<rparr>))"

definition make_ChunkMap :: "u64 \<Rightarrow> bool \<Rightarrow> ChunkMap" where
  "make_ChunkMap s availability =
     (let cs = CHUNKMAP_FIXED_CHUNK_SIZE;
          n = s div ucast cs + (if s mod ucast cs \<noteq> 0 then 1 else 0)
      in \<lparr>cm_file_size = s, cm_chunk_size = cs, cm_strategy = CHUNK_STRATEGY_PROGRESSIVE,
          cm_active_chunks_feed = [], cm_slices_to_download = [],
          cm_map = replicate (unat n) CHUNK_OUTSTANDING, cm_peers_chunks_availability = [],
          cm_total_downloaded = 0, cm_file_is_complete = False,
          cm_assume_availability = availability, cm_chunks_checking_queue = []\<rparr>)"

definition map_size :: "ChunkMap \<Rightarrow> u64" where
  "map_size m = of_nat (length (cm_map m))"

text \<open>The product is computed in 32 bits, the result truncated to 32 bits.\<close>

definition sizeOfChunk :: "ChunkMap \<Rightarrow> u32 \<Rightarrow> u32" where
  "sizeOfChunk m cid =
     (if ucast cid = map_size m - 1 then ucast (cm_file_size m - ucast (cid * cm_chunk_size m))
      else cm_chunk_size m)"

definition getNumberOfChunks :: "u64 \<Rightarrow> u32" where
  "getNumberOfChunks nb =
     (let n = nb div ucast CHUNKMAP_FIXED_CHUNK_SIZE +
            (if nb mod ucast CHUNKMAP_FIXED_CHUNK_SIZE \<noteq> 0 then 1 else 0);
          v = ucast (n AND 0xffffffff) :: u32
      in if ucast v \<noteq> n then 0 else v)"

definition buildPlainMap :: "u64 \<Rightarrow> CompressedChunkMap" where
  "buildPlainMap nb = cmap_plain (getNumberOfChunks nb) (NOT 0)"

subsection \<open>Receiving data\<close>

definition is_done_or_checking :: "ChunkState \<Rightarrow> bool" where
  "is_done_or_checking st = (st = CHUNK_CHECKING \<or> st = CHUNK_DONE)"

definition updateTotalDownloaded :: "ChunkMap \<Rightarrow> ChunkMap" where
  "updateTotalDownloaded m =
     (let total = foldl (\<lambda>t i. if is_done_or_checking (cm_map m ! i)
            then t + ucast (sizeOfChunk m (of_nat i)) else t) 0 [0..<length (cm_map m)];
          total' = foldl (\<lambda>t (n, itc).
            (if cm_map m ! unat n = CHUNK_CHECKING then t - ucast (sizeOfChunk m n) else t) +
            ucast (sizeOfChunk m n - cdi_remains itc)) total (cm_slices_to_download m)
      in m\<lparr>cm_total_downloaded := total',
           cm_file_is_complete := list_all (\<lambda>st. st = CHUNK_DONE) (cm_map m)\<rparr>)"

definition dataReceived :: "rstime_t \<Rightarrow> u64 \<Rightarrow> ChunkMap \<Rightarrow> ChunkMap" where
  "dataReceived now cid m =
     (let n = ucast (cid div ucast (cm_chunk_size m)) :: u32 in
      case map_of (cm_slices_to_download m) n of
        None \<Rightarrow> m
      | Some itc \<Rightarrow>
          (case map_of (cdi_slices itc) cid of
             None \<Rightarrow> m
           | Some it \<Rightarrow>
               (let itc' = itc\<lparr>cdi_remains := cdi_remains itc - sri_size it,
                      cdi_slices := map_erase cid (cdi_slices itc),
                      cdi_last_data_received := now\<rparr>;
                    m1 = m\<lparr>cm_total_downloaded := cm_total_downloaded m + ucast (sri_size it),
                      cm_slices_to_download := map_put n itc' (cm_slices_to_download m)\<rparr>
                in if cdi_remains itc' \<noteq> 0 then m1
                   else (let m2 = m1\<lparr>cm_map := (cm_map m1)[unat n := CHUNK_CHECKING]\<rparr>;
                             m3 = (if 0 <s n \<or> cm_file_size m2 > ucast CHUNKMAP_FIXED_CHUNK_SIZE
                                   then m2\<lparr>cm_chunks_checking_queue := cm_chunks_checking_queue m2 @ [n]\<rparr>
                                   else m2\<lparr>cm_map := (cm_map m2)[unat n := CHUNK_DONE]\<rparr>)
                         in updateTotalDownloaded
                              (m3\<lparr>cm_slices_to_download := map_erase n (cm_slices_to_download m3)\<rparr>)))))"

definition setAvailabilityMap :: "CompressedChunkMap \<Rightarrow> ChunkMap \<Rightarrow> ChunkMap" where
  "setAvailabilityMap cmap m =
     (if drop_bit 5 (int (length (cm_map m)) - 1) \<ge> int (length cmap) then m
      else m\<lparr>cm_map := map (\<lambda>i. if cmap_index cmap (of_nat i) then CHUNK_DONE else CHUNK_OUTSTANDING)
               [0..<length (cm_map m)],
             cm_total_downloaded := foldl (\<lambda>t i. if cmap_index cmap (of_nat i)
               then t + ucast (sizeOfChunk m (of_nat i)) else t) 0 [0..<length (cm_map m)],
             cm_file_is_complete :=
               list_all (\<lambda>i. cmap_index cmap (of_nat i)) [0..<length (cm_map m)]\<rparr>)"

subsection \<open>Checking chunks\<close>

text \<open>The loop takes the front of the queue and moves the back to the front until it is empty.\<close>

function take_checks :: "u32 list \<Rightarrow> u32 list \<Rightarrow> u32 list" where
  "take_checks q out =
     (if q = [] then out
      else take_checks (butlast (q[0 := last q])) (out @ [hd q]))"
  by pat_completeness auto
termination
  by (relation "measure (\<lambda>(q, out). length q)") auto

definition getChunksToCheck :: "ChunkMap \<Rightarrow> u32 list \<times> ChunkMap" where
  "getChunksToCheck m =
     (take_checks (cm_chunks_checking_queue m) [], m\<lparr>cm_chunks_checking_queue := []\<rparr>)"

definition setChunkCheckingResult :: "u32 \<Rightarrow> bool \<Rightarrow> ChunkMap \<Rightarrow> ChunkMap" where
  "setChunkCheckingResult chunk_number check_succeeded m =
     (if cm_map m ! unat chunk_number \<noteq> CHUNK_CHECKING then m
      else if check_succeeded then
        (let st = (cm_map m)[unat chunk_number := CHUNK_DONE] in
         m\<lparr>cm_map := st, cm_file_is_complete := list_all (\<lambda>s. s = CHUNK_DONE) st\<rparr>)
      else
        m\<lparr>cm_total_downloaded := cm_total_downloaded m - ucast (sizeOfChunk m chunk_number),
          cm_map := (cm_map m)[unat chunk_number := CHUNK_OUTSTANDING]\<rparr>)"

definition forceCheck :: "ChunkMap \<Rightarrow> ChunkMap" where
  "forceCheck m =
     updateTotalDownloaded
       (m\<lparr>cm_map := replicate (length (cm_map m)) CHUNK_CHECKING,
          cm_chunks_checking_queue :=
            cm_chunks_checking_queue m @ map of_nat [0..<length (cm_map m)]\<rparr>)"

subsection \<open>Sources\<close>

definition getSourceChunksInfo :: "RsPeerId \<Rightarrow> ChunkMap \<Rightarrow> SourceChunksInfo \<times> ChunkMap" where
  "getSourceChunksInfo peer_id m =
     (case map_of (cm_peers_chunks_availability m) peer_id of
        Some sci \<Rightarrow> (sci, m)
      | None \<Rightarrow>
          (let n = unat (getCompressedSize (of_nat (length (cm_map m))));
               sci = (if cm_assume_availability m
                      then \<lparr>sci_cmap = replicate n (NOT 0), sci_TS = 0, sci_is_full = True\<rparr>
                      else \<lparr>sci_cmap = replicate n 0, sci_TS = 0, sci_is_full = False\<rparr>)
           in (sci, m\<lparr>cm_peers_chunks_availability :=
                      map_put peer_id sci (cm_peers_chunks_availability m)\<rparr>)))"

definition setPeerAvailabilityMap ::
    "rstime_t \<Rightarrow> RsPeerId \<Rightarrow> CompressedChunkMap \<Rightarrow> ChunkMap \<Rightarrow> ChunkMap" where
  "setPeerAvailabilityMap now peer_id cmap m =
     (let n = length (cm_map m) in
      if length cmap \<noteq> n div 32 + (if n mod 32 \<noteq> 0 then 1 else 0) then m
      else m\<lparr>cm_peers_chunks_availability :=
             map_put peer_id
               \<lparr>sci_cmap = cmap, sci_TS = now,
                sci_is_full = list_all (\<lambda>i. cmap_index cmap (of_nat i)) [0..<n]\<rparr>
               (cm_peers_chunks_availability m)\<rparr>)"

definition removeFileSource :: "RsPeerId \<Rightarrow> ChunkMap \<Rightarrow> ChunkMap" where
  "removeFileSource peer_id m =
     m\<lparr>cm_peers_chunks_availability := map_erase peer_id (cm_peers_chunks_availability m)\<rparr>"

definition getSourcesList :: "ChunkMap \<Rightarrow> u32 \<Rightarrow> RsPeerId list" where
  "getSourcesList m chunk_number =
     map fst (filter (\<lambda>(_, sci). cmap_index (sci_cmap sci) chunk_number)
       (cm_peers_chunks_availability m))"

text \<open>Whether a source has an outstanding chunk, and the outstanding chunks it has.\<close>

definition chunk_wanted :: "ChunkMap \<Rightarrow> SourceChunksInfo \<Rightarrow> nat \<Rightarrow> bool" where
  "chunk_wanted m sci i =
     (cm_map m ! i = CHUNK_OUTSTANDING \<and> (sci_is_full sci \<or> cmap_index (sci_cmap sci) (of_nat i)))"

definition count_available :: "ChunkMap \<Rightarrow> SourceChunksInfo \<Rightarrow> u32 \<times> u32" where
  "count_available m sci =
     foldl (\<lambda>(avail, before) i.
         if cm_map m ! i = CHUNK_OUTSTANDING
         then (if sci_is_full sci \<or> cmap_index (sci_cmap sci) (of_nat i) then avail + 1 else avail,
               before)
         else (avail, avail)) (0, 0) [0..<length (cm_map m)]"

definition choose_chunk :: "u32 \<Rightarrow> ChunkStrategy \<Rightarrow> u32 \<Rightarrow> u32 \<Rightarrow> u32" where
  "choose_chunk rnd strategy available before =
     (case strategy of
        CHUNK_STRATEGY_STREAMING \<Rightarrow> 0
      | CHUNK_STRATEGY_RANDOM \<Rightarrow> rnd mod available
      | CHUNK_STRATEGY_PROGRESSIVE \<Rightarrow> rnd mod min available (before + FT_CHUNKMAP_MAX_CHUNK_JUMP))"

text \<open>The second loop of \<^verbatim>\<open>getAvailableChunk\<close>: the wanted chunk with the chosen number.\<close>

fun nth_wanted :: "ChunkMap \<Rightarrow> SourceChunksInfo \<Rightarrow> u32 \<Rightarrow> u32 \<Rightarrow> nat list \<Rightarrow> nat option" where
  "nth_wanted m sci chosen j [] = None"
| "nth_wanted m sci chosen j (i # is) =
     (if chunk_wanted m sci i
      then (if j = chosen then Some i else nth_wanted m sci chosen (j + 1) is)
      else nth_wanted m sci chosen j is)"

text \<open>The result is the chunk, the flag \<^verbatim>\<open>map_is_too_old\<close> and the new state.\<close>

definition getAvailableChunk ::
    "rstime_t \<Rightarrow> u32 \<Rightarrow> RsPeerId \<Rightarrow> ChunkMap \<Rightarrow> u32 \<times> bool \<times> ChunkMap" where
  "getAvailableChunk now rnd peer_id m0 =
     (let (sci, m1) = getSourceChunksInfo peer_id m0;
          map_is_too_old = (\<not> sci_is_full sci \<and>
            sint (word_of_int now :: u32) - sint (word_of_int (sci_TS sci) :: u32) >
              SOURCE_CHUNK_MAP_UPDATE_PERIOD);
          m2 = (if map_is_too_old
                then m1\<lparr>cm_peers_chunks_availability :=
                  map_put peer_id (sci\<lparr>sci_TS := now\<rparr>) (cm_peers_chunks_availability m1)\<rparr>
                else m1);
          (available, before) = count_available m2 sci;
          found = (if available > 0
            then nth_wanted m2 sci (choose_chunk rnd (cm_strategy m2) available before) 0
                   [0..<length (cm_map m2)]
            else None)
      in (case found of Some i \<Rightarrow> of_nat i | None \<Rightarrow> of_nat (length (cm_map m2)), map_is_too_old, m2))"

subsection \<open>Asking for slices\<close>

definition chunk_number :: "ChunkMap \<Rightarrow> u64 \<Rightarrow> u32" where
  "chunk_number m offset = ucast (offset div ucast (cm_chunk_size m))"

text \<open>The loop over the other peers' active chunks: the peer whose chunk is shared, if any, the last one
  whose chunk could be, and the state, in which reading \<^verbatim>\<open>_slices_to_download[c]\<close> may have created an
  entry.\<close>

fun scan_feed :: "(u32 \<Rightarrow> u32 \<Rightarrow> bool) \<Rightarrow> u32 \<Rightarrow> SourceChunksInfo \<Rightarrow> (RsPeerId, Chunk) std_map \<Rightarrow>
    RsPeerId option \<Rightarrow> ChunkMap \<Rightarrow> RsPeerId option \<times> RsPeerId option \<times> ChunkMap" where
  "scan_feed slow size_hint sci [] falsafe m = (None, falsafe, m)"
| "scan_feed slow size_hint sci ((p, ck) # pits) falsafe m =
     (let c = chunk_number m (ck_start ck) in
      if \<not> (sci_is_full sci \<or> cmap_index (sci_cmap sci) c)
      then scan_feed slow size_hint sci pits falsafe m
      else (let cdi = map_get default_cdi c (cm_slices_to_download m);
                m' = m\<lparr>cm_slices_to_download := map_put c cdi (cm_slices_to_download m)\<rparr>
            in if cdi_slices cdi \<noteq> [] \<and> slow (sri_size (snd (last (cdi_slices cdi)))) size_hint
               then (Some p, Some p, m')
               else scan_feed slow size_hint sci pits (Some p) m'))"

text \<open>The end of \<^verbatim>\<open>getDataChunk\<close>: a slice for \<open>peer_id\<close> is cut from the chunk that \<open>owner\<close> feeds on.\<close>

definition set_insert :: "RsPeerId \<Rightarrow> RsPeerId list \<Rightarrow> RsPeerId list" where
  "set_insert p ps = (if p \<in> set ps then ps else insort p ps)"

definition take_slice :: "rstime_t \<Rightarrow> RsPeerId \<Rightarrow> u32 \<Rightarrow> RsPeerId \<Rightarrow> Chunk \<Rightarrow> ChunkMap \<Rightarrow>
    ftChunk \<times> ChunkMap" where
  "take_slice now peer_id size_hint owner ck m =
     (let (slice, ck') = getSlice now size_hint peer_id ck;
          n = chunk_number m (ft_offset slice);
          cdi = map_get default_cdi n (cm_slices_to_download m);
          r = map_get default_sri (ft_id slice) (cdi_slices cdi);
          r' = r\<lparr>sri_size := ucast (ft_size slice), sri_request_time := now,
                 sri_peers := set_insert peer_id (sri_peers r)\<rparr>;
          cdi' = cdi\<lparr>cdi_last_data_received := now,
                     cdi_slices := map_put (ft_id slice) r' (cdi_slices cdi)\<rparr>;
          feed = map_put owner ck' (cm_active_chunks_feed m)
      in (slice, m\<lparr>cm_slices_to_download := map_put n cdi' (cm_slices_to_download m),
                   cm_active_chunks_feed :=
                     (if chunk_empty ck' then map_erase owner feed else feed)\<rparr>))"

definition allocate_chunk :: "RsPeerId \<Rightarrow> u32 \<Rightarrow> ChunkMap \<Rightarrow> Chunk \<times> ChunkMap" where
  "allocate_chunk peer_id c m =
     (let soc = sizeOfChunk m c;
          ck = make_chunk (ucast c * ucast (cm_chunk_size m)) soc;
          cdi = map_get default_cdi c (cm_slices_to_download m)
      in (ck, m\<lparr>cm_active_chunks_feed := map_put peer_id ck (cm_active_chunks_feed m),
                cm_map := (cm_map m)[unat c := CHUNK_ACTIVE],
                cm_slices_to_download :=
                  map_put c (cdi\<lparr>cdi_remains := soc\<rparr>) (cm_slices_to_download m)\<rparr>))"

text \<open>The result: the slice if there is one, the flag \<^verbatim>\<open>source_chunk_map_needed\<close> (unchanged unless a new
  chunk was looked for), and the state.\<close>

definition getDataChunk :: "(u32 \<Rightarrow> u32 \<Rightarrow> bool) \<Rightarrow> rstime_t \<Rightarrow> u32 \<Rightarrow> RsPeerId \<Rightarrow> u32 \<Rightarrow> bool \<Rightarrow> ChunkMap \<Rightarrow>
    ftChunk option \<times> bool \<times> ChunkMap" where
  "getDataChunk slow now rnd peer_id size_hint needed m =
     (case map_of (cm_active_chunks_feed m) peer_id of
        Some ck \<Rightarrow>
          (let (slice, m') = take_slice now peer_id size_hint peer_id ck m in (Some slice, needed, m'))
      | None \<Rightarrow>
          (let (sci, m1) = getSourceChunksInfo peer_id m;
               (it, falsafe, m2) = scan_feed slow size_hint sci (cm_active_chunks_feed m1) None m1
           in case it of
                Some p \<Rightarrow>
                  (let (slice, m') = take_slice now peer_id size_hint p
                         (the (map_of (cm_active_chunks_feed m2) p)) m2
                   in (Some slice, needed, m'))
              | None \<Rightarrow>
                  (let (c, needed', m3) = getAvailableChunk now rnd peer_id m2 in
                   if ucast c \<ge> map_size m3 then
                     (case falsafe of
                        Some p \<Rightarrow>
                          (let (slice, m') = take_slice now peer_id size_hint p
                                 (the (map_of (cm_active_chunks_feed m3) p)) m3
                           in (Some slice, needed', m'))
                      | None \<Rightarrow> (None, needed', m3))
                   else
                     (let (ck, m4) = allocate_chunk peer_id c m3;
                          (slice, m') = take_slice now peer_id size_hint peer_id ck m4
                      in (Some slice, needed', m')))))"

text \<open>A pending slice to ask again from another peer: the first that is old and was not asked from it.\<close>

definition reaskable :: "rstime_t \<Rightarrow> RsPeerId \<Rightarrow> SliceRequestInfo \<Rightarrow> bool" where
  "reaskable now peer_id r =
     (sri_request_time r + FT_CHUNKMAP_MAX_SLICE_REASK_DELAY < now \<and> peer_id \<notin> set (sri_peers r))"

definition reAskPendingChunk :: "rstime_t \<Rightarrow> RsPeerId \<Rightarrow> ChunkMap \<Rightarrow> (u64 \<times> u32) option \<times> ChunkMap" where
  "reAskPendingChunk now peer_id m =
     (if list_ex (\<lambda>st. st = CHUNK_OUTSTANDING) (cm_map m) then (None, m)
      else case find (\<lambda>(n, cdi, sid, r). reaskable now peer_id r)
             (concat (map (\<lambda>(n, cdi). map (\<lambda>(sid, r). (n, cdi, sid, r)) (cdi_slices cdi))
               (cm_slices_to_download m))) of
          None \<Rightarrow> (None, m)
        | Some (n, cdi, sid, r) \<Rightarrow>
            (Some (sid, sri_size r),
             m\<lparr>cm_slices_to_download :=
               map_put n (cdi\<lparr>cdi_slices :=
                   map_put sid (r\<lparr>sri_request_time := now, sri_peers := set_insert peer_id (sri_peers r)\<rparr>)
                     (cdi_slices cdi)\<rparr>) (cm_slices_to_download m)\<rparr>))"

text \<open>The body of the loop of \<^verbatim>\<open>removeInactiveChunks\<close>, for one chunk being downloaded.\<close>

definition remove_chunk :: "u32 \<Rightarrow> ChunkDownloadInfo \<Rightarrow> ChunkMap \<Rightarrow> ChunkMap" where
  "remove_chunk n cdi m =
     m\<lparr>cm_map := (cm_map m)[unat n := CHUNK_OUTSTANDING],
       cm_total_downloaded := cm_total_downloaded m - ucast (sizeOfChunk m n - cdi_remains cdi),
       cm_active_chunks_feed :=
         filter (\<lambda>(p, ck). ck_start ck \<noteq> ucast (cm_chunk_size m) * ucast n) (cm_active_chunks_feed m),
       cm_slices_to_download := map_erase n (cm_slices_to_download m)\<rparr>"

definition removeInactiveChunks :: "rstime_t \<Rightarrow> ChunkMap \<Rightarrow> u64 list \<times> ChunkMap" where
  "removeInactiveChunks now m =
     foldl (\<lambda>(to_remove, m') (n, cdi).
         if now - cdi_last_data_received cdi > INACTIVE_CHUNK_TIME_LAPSE
         then (to_remove @ map fst (cdi_slices cdi), remove_chunk n cdi m')
         else (to_remove, m'))
       ([], m) (cm_slices_to_download m)"

subsection \<open>Queries\<close>

text \<open>The loop reads \<^verbatim>\<open>_map[i]\<close> unchecked: the result is \<open>None\<close> where this is outside the vector.\<close>

fun states_are :: "ChunkState list \<Rightarrow> ChunkState \<Rightarrow> nat list \<Rightarrow> bool option" where
  "states_are st state [] = Some True"
| "states_are st state (i # is) =
     (if length st \<le> i then None
      else if st ! i \<noteq> state then Some False
      else states_are st state is)"

definition hasChunkState :: "ChunkMap \<Rightarrow> u64 \<Rightarrow> u32 \<Rightarrow> ChunkState \<Rightarrow> bool option" where
  "hasChunkState m offset chunk_size state =
     (let cs = ucast (cm_chunk_size m);
          chunk_number_start = ucast (offset div cs) :: u32;
          chunk_number_end = ucast ((offset + ucast chunk_size) div cs) +
            (if (offset + ucast chunk_size) mod cs \<noteq> 0 then 1 else 0) :: u32
      in states_are (cm_map m) state [unat chunk_number_start..<unat chunk_number_end])"

definition isChunkAvailable :: "ChunkMap \<Rightarrow> u64 \<Rightarrow> u32 \<Rightarrow> bool option" where
  "isChunkAvailable m offset chunk_size = hasChunkState m offset chunk_size CHUNK_DONE"

definition isChunkOutstanding :: "ChunkMap \<Rightarrow> u64 \<Rightarrow> u32 \<Rightarrow> bool option" where
  "isChunkOutstanding m offset chunk_size = hasChunkState m offset chunk_size CHUNK_OUTSTANDING"

definition getAvailabilityMap :: "ChunkMap \<Rightarrow> CompressedChunkMap" where
  "getAvailabilityMap m = cmap_of_states (cm_map m)"

record FileChunksInfo =
  fi_file_size :: u64
  fi_chunk_size :: u32
  fi_strategy :: ChunkStrategy
  fi_chunks :: "ChunkState list"
  fi_compressed_peer_availability_maps :: "(RsPeerId, CompressedChunkMap) std_map"
  fi_active_chunks :: "(u32 \<times> u32) list"

definition getChunksInfo :: "ChunkMap \<Rightarrow> FileChunksInfo" where
  "getChunksInfo m =
     \<lparr>fi_file_size = cm_file_size m, fi_chunk_size = cm_chunk_size m, fi_strategy = cm_strategy m,
      fi_chunks = cm_map m,
      fi_compressed_peer_availability_maps =
        foldl (\<lambda>t (p, sci). map_put p (sci_cmap sci) t) [] (cm_peers_chunks_availability m),
      fi_active_chunks = map (\<lambda>(n, cdi). (n, cdi_remains cdi)) (cm_slices_to_download m)\<rparr>"

definition setStrategy :: "ChunkStrategy \<Rightarrow> ChunkMap \<Rightarrow> ChunkMap" where
  "setStrategy s m = m\<lparr>cm_strategy := s\<rparr>"

end
