(* ===== verification/Chunk_Inv.thy ===== *)
theory Chunk_Inv
  imports Chunk_Map
begin

text \<open>
  The accounting of \<^verbatim>\<open>ftChunkMap\<close>: the invariant of a download, that every operation keeps it, and what
  it says of the slices a peer is asked for. All quantities are natural numbers read from the words;
  the bound of 2^51 bytes keeps chunk numbers within a signed 32-bit \<^verbatim>\<open>int\<close>.
\<close>

abbreviation csz :: nat where "csz \<equiv> 1048576"

subsection \<open>Geometry\<close>

definition chunk_bytes :: "ChunkMap \<Rightarrow> nat \<Rightarrow> nat" where
  "chunk_bytes m n = (if Suc n = length (cm_map m) then unat (cm_file_size m) - n * csz else csz)"

definition geometry :: "ChunkMap \<Rightarrow> bool" where
  "geometry m =
     (cm_chunk_size m = CHUNKMAP_FIXED_CHUNK_SIZE \<and> unat (cm_file_size m) < 2 ^ 51 \<and>
      length (cm_map m) = (unat (cm_file_size m) + (csz - 1)) div csz)"

lemma unat_u64_less: "unat (x :: u64) < 18446744073709551616"
  using unsigned_less [of x] by simp

lemma unat_ucast_32_64 [simp]: "unat (ucast (x :: u32) :: u64) = unat x"
  using unat_u32_less [of x] by (simp add: unsigned_ucast_eq take_bit_nat_eq_self)

lemma unat_ucast_64_32: "unat (x :: u64) < 4294967296 \<Longrightarrow> unat (ucast x :: u32) = unat x"
  by (simp add: unsigned_ucast_eq take_bit_nat_eq_self)

lemma uint_ucast_diff:
  "uint (ucast (a - ucast (b :: u32)) :: u32) = (uint (a :: u64) - uint b) mod 4294967296"
proof -
  have "uint (ucast b :: u64) = uint b"
    using unat_ucast_32_64 [of b] by (simp only: uint_nat)
  moreover have "uint (ucast (a - ucast b) :: u32) = uint (a - ucast b) mod 4294967296"
    by (simp add: unsigned_ucast_eq take_bit_eq_mod)
  moreover have "uint (a - ucast b) = (uint a - uint (ucast b :: u64)) mod 18446744073709551616"
    by (simp add: uint_word_ariths)
  ultimately show ?thesis by (simp add: mod_mod_cancel)
qed

lemma geometry_bounds:
  assumes "geometry m" "n < length (cm_map m)"
  shows "0 < chunk_bytes m n \<and> chunk_bytes m n \<le> csz \<and>
    n * csz + chunk_bytes m n \<le> unat (cm_file_size m) \<and> n < 2 ^ 31"
proof -
  let ?f = "unat (cm_file_size m)" and ?l = "length (cm_map m)"
  have l: "?l = (?f + (csz - 1)) div csz" and f: "?f < 2 ^ 51" using assms by (simp_all add: geometry_def)
  have up: "?l * csz \<le> ?f + (csz - 1)" and lo: "?f + (csz - 1) < Suc ?l * csz"
    unfolding l using div_times_less_eq_dividend [of "?f + (csz - 1)" csz]
      dividend_less_div_times [of csz "?f + (csz - 1)"] by simp_all
  have n: "Suc n * csz \<le> ?l * csz" using assms(2) by (intro mult_right_mono) simp_all
  have b: "n * csz < ?f" using n up by simp
  show ?thesis
  proof (cases "Suc n = ?l")
    case True
    then have "?f \<le> n * csz + csz" using lo by simp
    then show ?thesis using True b f by (simp add: chunk_bytes_def)
  next
    case False
    then have "Suc (Suc n) * csz \<le> ?l * csz" using assms(2) by (intro mult_right_mono) simp_all
    then have "n * csz + csz \<le> ?f" using up by simp
    then show ?thesis using False f by (simp add: chunk_bytes_def)
  qed
qed

text \<open>The size of a chunk is right although the product that gives its start wraps in 32 bits.\<close>

lemma sizeOfChunk_bytes:
  assumes "geometry m" "unat n < length (cm_map m)"
  shows "unat (sizeOfChunk m n) = chunk_bytes m (unat n)"
proof -
  let ?f = "unat (cm_file_size m)" and ?n = "unat n"
  note g = geometry_bounds [OF assms]
  have cs: "cm_chunk_size m = 0x100000" using assms(1) by (simp add: geometry_def)
  have len: "length (cm_map m) < 18446744073709551616"
    using assms(1) by (simp add: geometry_def) linarith
  have last: "ucast n = map_size m - 1 \<longleftrightarrow> Suc ?n = length (cm_map m)"
  proof -
    have "unat (map_size m) = length (cm_map m)"
      using len by (simp add: map_size_def unat_of_nat)
    moreover from this have "unat (map_size m - 1) = length (cm_map m) - 1"
      using assms(2) by (subst unat_sub) (auto simp: word_le_nat_alt)
    ultimately show ?thesis using assms(2) by (auto simp: word_unat_eq_iff)
  qed
  show ?thesis
  proof (cases "Suc ?n = length (cm_map m)")
    case True
    then have bytes: "chunk_bytes m ?n = ?f - ?n * csz" by (simp add: chunk_bytes_def)
    have "int (unat (ucast (cm_file_size m - ucast (n * cm_chunk_size m)) :: u32)) =
        (uint (cm_file_size m) - uint (n * cm_chunk_size m)) mod 4294967296"
      unfolding uint_nat [symmetric] by (rule uint_ucast_diff)
    also have "uint (n * cm_chunk_size m) = (uint n * 1048576) mod 4294967296"
      by (simp add: cs uint_word_ariths)
    also have "(uint (cm_file_size m) - (uint n * 1048576) mod 4294967296) mod 4294967296 =
        (int ?f - int (?n * csz)) mod 4294967296"
      by (simp only: mod_diff_right_eq uint_nat of_nat_mult of_nat_numeral)
    also have "int ?f - int (?n * csz) = int (chunk_bytes m ?n)"
      using g unfolding bytes by (intro of_nat_diff [symmetric]) linarith
    also have "int (chunk_bytes m ?n) mod 4294967296 = int (chunk_bytes m ?n)"
      using g by (intro mod_pos_pos_trivial) linarith+
    finally have "unat (ucast (cm_file_size m - ucast (n * cm_chunk_size m)) :: u32) = chunk_bytes m ?n"
      by (simp only: of_nat_eq_iff)
    then show ?thesis using last True by (simp add: sizeOfChunk_def)
  next
    case False
    then show ?thesis using last cs by (simp add: sizeOfChunk_def chunk_bytes_def)
  qed
qed

subsection \<open>The invariant\<close>

text \<open>What is left to cut off chunk \<open>n\<close>, over all peers that feed on it, and the first byte not cut off.\<close>

definition rest :: "ChunkMap \<Rightarrow> nat \<Rightarrow> nat" where
  "rest m n = entry_sum (\<lambda>p ck. if unat (ck_start ck) = n * csz
      then unat (ck_end ck) - unat (ck_offset ck) else 0) (cm_active_chunks_feed m)"

definition pending :: "ChunkDownloadInfo \<Rightarrow> nat" where
  "pending cdi = entry_sum (\<lambda>i r. unat (sri_size r)) (cdi_slices cdi)"

definition feed_ok :: "ChunkMap \<Rightarrow> bool" where
  "feed_ok m =
     (map_wf (cm_active_chunks_feed m) \<and>
      (\<forall>(p, ck) \<in> set (cm_active_chunks_feed m).
         \<exists>n < length (cm_map m). unat (ck_start ck) = n * csz \<and>
           unat (ck_end ck) = n * csz + chunk_bytes m n \<and>
           unat (ck_start ck) \<le> unat (ck_offset ck) \<and> unat (ck_offset ck) < unat (ck_end ck) \<and>
           of_nat n \<in> fst ` set (cm_slices_to_download m)) \<and>
      (\<forall>(p, ck) \<in> set (cm_active_chunks_feed m). \<forall>(q, dk) \<in> set (cm_active_chunks_feed m).
         ck_start ck = ck_start dk \<longrightarrow> p = q))"

text \<open>The pending slices of a chunk lie in its part that was cut off and do not overlap; what remains to
  download is what is pending and what is left to cut off, and is not nothing.\<close>

definition chunk_ok :: "ChunkMap \<Rightarrow> nat \<Rightarrow> ChunkDownloadInfo \<Rightarrow> bool" where
  "chunk_ok m n cdi =
     (n < length (cm_map m) \<and> cm_map m ! n = CHUNK_ACTIVE \<and> map_wf (cdi_slices cdi) \<and>
      (\<forall>(i, r) \<in> set (cdi_slices cdi).
         n * csz \<le> unat i \<and> unat i < n * csz + chunk_bytes m n \<and>
         unat i + unat (sri_size r) + rest m n \<le> n * csz + chunk_bytes m n) \<and>
      (\<forall>(i, r) \<in> set (cdi_slices cdi). \<forall>(j, q) \<in> set (cdi_slices cdi).
         i < j \<longrightarrow> unat i + unat (sri_size r) \<le> unat j) \<and>
      unat (cdi_remains cdi) = pending cdi + rest m n \<and> 0 < unat (cdi_remains cdi) \<and>
      unat (cdi_remains cdi) \<le> chunk_bytes m n)"

definition slices_ok :: "ChunkMap \<Rightarrow> bool" where
  "slices_ok m =
     (map_wf (cm_slices_to_download m) \<and>
      (\<forall>(n, cdi) \<in> set (cm_slices_to_download m). chunk_ok m (unat n) cdi) \<and>
      (\<forall>i < length (cm_map m). cm_map m ! i = CHUNK_ACTIVE \<longrightarrow>
         of_nat i \<in> fst ` set (cm_slices_to_download m)))"

text \<open>The bytes that have arrived: all of the finished chunks, and of the active ones what does not
  remain.\<close>

definition done_bytes :: "ChunkMap \<Rightarrow> nat" where
  "done_bytes m = (\<Sum>i < length (cm_map m). if is_done_or_checking (cm_map m ! i) then chunk_bytes m i else 0)"

definition active_bytes :: "ChunkMap \<Rightarrow> nat" where
  "active_bytes m =
     entry_sum (\<lambda>n cdi. chunk_bytes m (unat n) - unat (cdi_remains cdi)) (cm_slices_to_download m)"

definition total_ok :: "ChunkMap \<Rightarrow> bool" where
  "total_ok m = (unat (cm_total_downloaded m) = done_bytes m + active_bytes m)"

definition complete_ok :: "ChunkMap \<Rightarrow> bool" where
  "complete_ok m =
     (cm_map m \<noteq> [] \<longrightarrow> cm_file_is_complete m = list_all (\<lambda>st. st = CHUNK_DONE) (cm_map m))"

definition chunkmap_inv :: "ChunkMap \<Rightarrow> bool" where
  "chunkmap_inv m = (geometry m \<and> feed_ok m \<and> slices_ok m \<and> total_ok m \<and> complete_ok m)"

lemma chunk_bytes_cong:
  "length (cm_map m') = length (cm_map m) \<Longrightarrow> cm_file_size m' = cm_file_size m \<Longrightarrow>
   chunk_bytes m' n = chunk_bytes m n"
  by (simp add: chunk_bytes_def)

lemma unat_of_nat_chunk:
  assumes "geometry m" "n < length (cm_map m)"
  shows "unat (of_nat n :: u32) = n"
  using geometry_bounds [OF assms] by (simp add: unat_of_nat)

text \<open>Summing over all chunks gives the file.\<close>

lemma sum_chunk_bytes:
  assumes "geometry m"
  shows "(\<Sum>i < length (cm_map m). chunk_bytes m i) = unat (cm_file_size m)"
proof (cases "length (cm_map m)")
  case 0
  then have "(unat (cm_file_size m) + (csz - 1)) div csz = 0" using assms by (simp add: geometry_def)
  then show ?thesis using 0 by (simp add: div_eq_0_iff)
next
  case (Suc l)
  then have "(\<Sum>i < l. chunk_bytes m i) = l * csz" by (simp add: chunk_bytes_def)
  moreover have "chunk_bytes m l = unat (cm_file_size m) - l * csz" using Suc by (simp add: chunk_bytes_def)
  ultimately show ?thesis using Suc geometry_bounds [OF assms, of l] by simp
qed

text \<open>The active chunks are distinct chunks outside the finished ones, so the total never exceeds the
  file.\<close>

lemma entry_sum_keys:
  "map_wf m \<Longrightarrow> entry_sum (\<lambda>k v. f k) m = (\<Sum>k \<in> fst ` set m. f k)"
proof (induction m)
  case (Cons e m)
  obtain k v where e: "e = (k, v)" by (cases e)
  then have "k \<notin> fst ` set m" using Cons.prems by auto
  then show ?case using Cons e by simp
qed simp

lemma total_le_file:
  assumes g: "geometry m" and s: "slices_ok m"
  shows "done_bytes m + active_bytes m \<le> unat (cm_file_size m)"
proof -
  let ?K = "fst ` set (cm_slices_to_download m)" and ?l = "length (cm_map m)"
  have wf: "map_wf (cm_slices_to_download m)" using s by (simp add: slices_ok_def)
  have k: "unat n < ?l \<and> cm_map m ! unat n = CHUNK_ACTIVE" if "n \<in> ?K" for n
    using that s by (fastforce simp: slices_ok_def chunk_ok_def)
  have "active_bytes m \<le> entry_sum (\<lambda>n cdi. chunk_bytes m (unat n)) (cm_slices_to_download m)"
    unfolding active_bytes_def entry_sum_def by (rule sum_list_mono) auto
  also have "\<dots> = (\<Sum>n \<in> ?K. chunk_bytes m (unat n))" using wf by (rule entry_sum_keys)
  also have "\<dots> = (\<Sum>i \<in> unat ` ?K. chunk_bytes m i)"
    by (subst sum.reindex) (auto simp: inj_on_def word_unat_eq_iff)
  also have "\<dots> \<le> (\<Sum>i \<in> {i. i < ?l \<and> \<not> is_done_or_checking (cm_map m ! i)}. chunk_bytes m i)"
  proof (rule sum_mono2)
    show "unat ` ?K \<subseteq> {i. i < ?l \<and> \<not> is_done_or_checking (cm_map m ! i)}"
    proof
      fix i assume "i \<in> unat ` ?K"
      then obtain n where "n \<in> ?K" "i = unat n" by blast
      with k [of n] show "i \<in> {i. i < ?l \<and> \<not> is_done_or_checking (cm_map m ! i)}"
        by (simp add: is_done_or_checking_def)
    qed
  qed simp_all
  finally have "done_bytes m + active_bytes m \<le>
      done_bytes m + (\<Sum>i \<in> {i. i < ?l \<and> \<not> is_done_or_checking (cm_map m ! i)}. chunk_bytes m i)" by simp
  also have "\<dots> = (\<Sum>i < ?l. (if is_done_or_checking (cm_map m ! i) then chunk_bytes m i else 0) +
      (if \<not> is_done_or_checking (cm_map m ! i) then chunk_bytes m i else 0))"
    unfolding done_bytes_def sum.distrib
    by (simp add: sum.inter_filter [symmetric] lessThan_def)
  also have "\<dots> = (\<Sum>i < ?l. chunk_bytes m i)" by (intro sum.cong) auto
  finally show ?thesis using sum_chunk_bytes [OF g] by simp
qed

lemma rest_member:
  assumes "feed_ok m" "(p, ck) \<in> set (cm_active_chunks_feed m)" "unat (ck_start ck) = n * csz"
  shows "rest m n = unat (ck_end ck) - unat (ck_offset ck)"
proof -
  let ?f = "\<lambda>p ck. if unat (ck_start ck) = n * csz then unat (ck_end ck) - unat (ck_offset ck) else 0"
  have wf: "map_wf (cm_active_chunks_feed m)" using assms(1) by (simp add: feed_ok_def)
  have of: "map_of (cm_active_chunks_feed m) p = Some ck" using assms(2) map_of_iff [OF wf] by simp
  have "entry_sum ?f (map_erase p (cm_active_chunks_feed m)) =
      entry_sum (\<lambda>_ _. 0) (map_erase p (cm_active_chunks_feed m))"
  proof (rule entry_sum_cong)
    fix q dk assume "(q, dk) \<in> set (map_erase p (cm_active_chunks_feed m))"
    then have "(q, dk) \<in> set (cm_active_chunks_feed m)" "q \<noteq> p" by (auto simp: map_erase_def)
    moreover from this have "ck_start ck \<noteq> ck_start dk"
      using assms(1,2) by (fastforce simp: feed_ok_def)
    ultimately show "?f q dk = 0" using assms(3) by (auto simp: word_unat_eq_iff)
  qed
  also have "\<dots> = 0" by (simp add: entry_sum_def)
  finally show ?thesis
    using entry_sum_erase [OF wf, of ?f p] of assms(3) by (simp add: rest_def)
qed

lemma rest_none:
  assumes "\<forall>(p, ck) \<in> set (cm_active_chunks_feed m). unat (ck_start ck) \<noteq> n * csz"
  shows "rest m n = 0"
proof -
  have "rest m n = entry_sum (\<lambda>_ _. 0) (cm_active_chunks_feed m)"
    unfolding rest_def using assms by (intro entry_sum_cong) auto
  then show ?thesis by (simp add: entry_sum_def)
qed

lemma chunk_number_of:
  assumes "geometry m" "n < length (cm_map m)" "n * csz \<le> unat off" "unat off < n * csz + chunk_bytes m n"
  shows "chunk_number m off = of_nat n"
proof -
  have cs: "cm_chunk_size m = 0x100000" using assms(1) by (simp add: geometry_def)
  note g = geometry_bounds [OF assms(1,2)]
  have "unat off div csz = n" using assms(3,4) g by (intro div_nat_eqI) simp_all
  then have "unat (off div ucast (0x100000 :: u32)) = n" by (simp add: unat_div)
  then have "unat (chunk_number m off) = n"
    using g by (simp add: chunk_number_def cs unat_ucast_64_32)
  then show ?thesis using unat_of_nat_chunk [OF assms(1,2)] by (simp add: word_unat_eq_iff)
qed

text \<open>The two cases of the active-chunk feed after a slice was cut off.\<close>

definition feed_cut :: "RsPeerId \<Rightarrow> Chunk \<Rightarrow> (RsPeerId, Chunk) std_map \<Rightarrow> (RsPeerId, Chunk) std_map" where
  "feed_cut p ck' feed =
     (if chunk_empty ck' then map_erase p (map_put p ck' feed) else map_put p ck' feed)"

lemma feed_cut_entry:
  assumes "map_wf feed"
  shows "(q, dk) \<in> set (feed_cut p ck' feed) \<longleftrightarrow>
      (if q = p then dk = ck' \<and> \<not> chunk_empty ck' else (q, dk) \<in> set feed)"
  using assms by (simp add: feed_cut_def)

lemma feed_cut_wf: "map_wf feed \<Longrightarrow> map_wf (feed_cut p ck' feed)"
  by (simp add: feed_cut_def)

lemma feed_cut_sum:
  assumes wf: "map_wf feed" and of: "map_of feed p = Some ck"
    and z: "f p ck' = (0 :: nat) \<or> \<not> chunk_empty ck'"
  shows "entry_sum f (feed_cut p ck' feed) + f p ck = entry_sum f feed + f p ck'"
  using wf of z entry_sum_put [OF wf, of f p ck'] entry_sum_erase [of "map_put p ck' feed" f p]
  by (auto simp: feed_cut_def)

lemma feed_entry:
  assumes i: "chunkmap_inv m" and of: "map_of (cm_active_chunks_feed m) p = Some ck"
  obtains n cdi where "n < length (cm_map m)" "unat (ck_start ck) = n * csz"
    "unat (ck_end ck) = n * csz + chunk_bytes m n" "n * csz \<le> unat (ck_offset ck)"
    "unat (ck_offset ck) < unat (ck_end ck)" "chunk_number m (ck_offset ck) = of_nat n"
    "map_of (cm_slices_to_download m) (of_nat n) = Some cdi" "chunk_ok m n cdi"
    "rest m n = unat (ck_end ck) - unat (ck_offset ck)"
proof -
  have fo: "feed_ok m" and g: "geometry m" and so: "slices_ok m"
    using i by (simp_all add: chunkmap_inv_def)
  have inn: "(p, ck) \<in> set (cm_active_chunks_feed m)"
    using of map_of_iff [of "cm_active_chunks_feed m" p ck] fo by (simp add: feed_ok_def)
  then obtain n where n: "n < length (cm_map m)" "unat (ck_start ck) = n * csz"
    "unat (ck_end ck) = n * csz + chunk_bytes m n" "unat (ck_start ck) \<le> unat (ck_offset ck)"
    "unat (ck_offset ck) < unat (ck_end ck)" "of_nat n \<in> fst ` set (cm_slices_to_download m)"
    using fo unfolding feed_ok_def by fastforce
  then obtain cdi where cdi: "map_of (cm_slices_to_download m) (of_nat n) = Some cdi"
    "(of_nat n, cdi) \<in> set (cm_slices_to_download m)"
    using key_has_value [OF _ n(6)] so unfolding slices_ok_def by blast
  then have "chunk_ok m (unat (of_nat n :: u32)) cdi" using so by (auto simp: slices_ok_def)
  then have "chunk_ok m n cdi" by (simp add: unat_of_nat_chunk [OF g n(1)])
  moreover have "chunk_number m (ck_offset ck) = of_nat n"
    using n by (intro chunk_number_of [OF g]) simp_all
  ultimately show thesis
    using that n cdi rest_member [OF fo inn n(2)] by simp
qed

text \<open>The slice cut from a chunk: where it lies, and that it overlaps no pending slice.\<close>

definition slice_in :: "ChunkMap \<Rightarrow> nat \<Rightarrow> ftChunk \<Rightarrow> bool" where
  "slice_in m n sl =
     (n * csz \<le> unat (ft_offset sl) \<and> ft_id sl = ft_offset sl \<and>
      unat (ft_offset sl) + unat (ft_size sl) \<le> n * csz + chunk_bytes m n)"

definition slice_size :: "u32 \<Rightarrow> ftChunk \<Rightarrow> bool" where
  "slice_size hint sl = (unat (ft_size sl) \<le> unat hint \<and> (hint \<noteq> 0 \<longrightarrow> 0 < unat (ft_size sl)))"

definition slice_fresh :: "ChunkMap \<Rightarrow> ftChunk \<Rightarrow> bool" where
  "slice_fresh m sl =
     (\<forall>(n, cdi) \<in> set (cm_slices_to_download m). \<forall>(i, r) \<in> set (cdi_slices cdi).
        unat i + unat (sri_size r) \<le> unat (ft_offset sl) \<or>
        unat (ft_offset sl) + unat (ft_size sl) \<le> unat i)"

lemma getSlice_facts:
  assumes "getSlice now hint peer ck = (sl, ck')" "unat (ck_offset ck) \<le> unat (ck_end ck)"
    "unat (ck_end ck) - unat (ck_offset ck) \<le> csz"
  shows "ft_offset sl = ck_offset ck \<and> ft_id sl = ck_offset ck \<and> ft_peer_id sl = peer \<and> ft_ts sl = now \<and>
    unat (ft_size sl) = min (unat hint) (unat (ck_end ck) - unat (ck_offset ck)) \<and>
    unat (ucast (ft_size sl) :: u32) = unat (ft_size sl) \<and>
    unat (ck_offset ck') = unat (ck_offset ck) + unat (ft_size sl) \<and>
    ck_start ck' = ck_start ck \<and> ck_end ck' = ck_end ck"
proof -
  let ?d = "ck_end ck - ck_offset ck" and ?sz = "min hint (ucast (ck_end ck - ck_offset ck)) :: u32"
  have d: "unat ?d = unat (ck_end ck) - unat (ck_offset ck)"
    using assms(2) by (simp add: unat_sub word_le_nat_alt)
  then have du: "unat (ucast ?d :: u32) = unat ?d" using assms(3) by (intro unat_ucast_64_32) simp
  have sz: "unat ?sz = min (unat hint) (unat (ck_end ck) - unat (ck_offset ck))"
    using du d by (simp add: min_def word_le_nat_alt)
  have "unat (ck_offset ck + ucast ?sz) = unat (ck_offset ck) + unat ?sz"
    using sz assms(2) unat_u64_less [of "ck_end ck"] by (subst unat_add_lem [THEN iffD1]) simp_all
  moreover have "unat (ucast (ucast ?sz :: u64) :: u32) = unat ?sz"
    using unat_u32_less [of ?sz] by (simp add: unat_ucast_64_32)
  ultimately show ?thesis using assms(1) sz by (auto simp: getSlice_def Let_def)
qed

lemma slice_below_cut:
  assumes "chunk_ok m n cdi" "(i, r) \<in> set (cdi_slices cdi)"
  shows "n * csz \<le> unat i \<and> unat i < n * csz + chunk_bytes m n \<and>
    unat i + unat (sri_size r) + rest m n \<le> n * csz + chunk_bytes m n"
  using assms unfolding chunk_ok_def by blast

lemma slices_entry:
  assumes "slices_ok m" "(k, cdi) \<in> set (cm_slices_to_download m)"
  shows "chunk_ok m (unat k) cdi"
  using assms unfolding slices_ok_def by blast

lemma cut_is_fresh:
  assumes i: "chunkmap_inv m" and n: "n < length (cm_map m)"
    and sl: "slice_in m n sl" "unat (ft_offset sl) + rest m n = n * csz + chunk_bytes m n"
  shows "slice_fresh m sl"
  unfolding slice_fresh_def
proof (clarify)
  fix k cdi j r
  assume k: "(k, cdi) \<in> set (cm_slices_to_download m)" and r: "(j, r) \<in> set (cdi_slices cdi)"
    and nb: "\<not> unat (ft_offset sl) + unat (ft_size sl) \<le> unat j"
  have g: "geometry m" and so: "slices_ok m" using i by (simp_all add: chunkmap_inv_def)
  have ck: "chunk_ok m (unat k) cdi" using slices_entry [OF so k] .
  have b: "unat k * csz \<le> unat j"
      "unat j + unat (sri_size r) + rest m (unat k) \<le> unat k * csz + chunk_bytes m (unat k)"
    using slice_below_cut [OF ck r] by simp_all
  have kl: "unat k < length (cm_map m)" using ck by (simp add: chunk_ok_def)
  consider "unat k = n" | "unat k < n" | "n < unat k" by linarith
  then show "unat j + unat (sri_size r) \<le> unat (ft_offset sl)"
  proof cases
    case 1
    then show ?thesis using b sl(2) by simp
  next
    case 2
    then have "Suc (unat k) * csz \<le> n * csz" by (intro mult_right_mono) simp_all
    then show ?thesis
      using b sl(1) geometry_bounds [OF g kl] by (simp add: slice_in_def)
  next
    case 3
    then have "Suc n * csz \<le> unat k * csz" by (intro mult_right_mono) simp_all
    then have "unat (ft_offset sl) + unat (ft_size sl) \<le> unat j"
      using b sl(1) geometry_bounds [OF g n] by (simp add: slice_in_def)
    then show ?thesis using nb by simp
  qed
qed

text \<open>A pending slice is put in, at the end of the part that was cut off.\<close>

lemma chunk_ok_put_slice:
  assumes ck: "chunk_ok m n cdi" and off: "unat off + rest m n = n * csz + chunk_bytes m n"
    and rest': "rest m' n + sz = rest m n" "0 < rest m n" and sz: "unat (sri_size r') = sz"
    and same: "cm_map m' = cm_map m" "cm_file_size m' = cm_file_size m"
    and cdi': "cdi_slices cdi' = map_put off r' (cdi_slices cdi)" "cdi_remains cdi' = cdi_remains cdi"
    and low: "n * csz \<le> unat off"
  shows "chunk_ok m' n cdi'"
proof -
  have wf: "map_wf (cdi_slices cdi)" using ck by (simp add: chunk_ok_def)
  have bytes: "chunk_bytes m' n = chunk_bytes m n" using same by (intro chunk_bytes_cong) simp_all
  have below: "unat i + unat (sri_size r) \<le> unat off \<and> n * csz \<le> unat i"
    if "(i, r) \<in> set (cdi_slices cdi)" for i r
    using slice_below_cut [OF ck that] off by simp
  have old: "(case map_of (cdi_slices cdi) off of Some r \<Rightarrow> unat (sri_size r) | None \<Rightarrow> 0) = 0"
    by (auto simp: map_of_iff [OF wf] dest!: below split: option.splits)
  have pend: "pending cdi' = pending cdi + sz"
    using entry_sum_put [OF wf, of "\<lambda>i r. unat (sri_size r)" off r'] old
    by (simp add: pending_def cdi'(1) sz)
  have in_range: "n * csz \<le> unat i \<and> unat i < n * csz + chunk_bytes m n \<and>
      unat i + unat (sri_size r) + rest m' n \<le> n * csz + chunk_bytes m n"
    if "(i, r) \<in> set (cdi_slices cdi')" for i r
  proof (cases "i = off")
    case True
    then show ?thesis using that sz rest' off low by (simp add: cdi'(1) wf)
  next
    case False
    then have "(i, r) \<in> set (cdi_slices cdi)" using that by (simp add: cdi'(1) wf)
    from slice_below_cut [OF ck this] rest' show ?thesis by simp
  qed
  have apart: "unat i + unat (sri_size r) \<le> unat j"
    if "(i, r) \<in> set (cdi_slices cdi')" "(j, q) \<in> set (cdi_slices cdi')" "i < j" for i r j q
  proof (cases "i = off")
    case True
    then have "(j, q) \<in> set (cdi_slices cdi)" using that by (simp add: cdi'(1) wf split: if_splits)
    with below [of j q] True \<open>i < j\<close> show ?thesis by (simp add: word_less_nat_alt)
  next
    case False
    then have ir: "(i, r) \<in> set (cdi_slices cdi)" using that by (simp add: cdi'(1) wf)
    show ?thesis
    proof (cases "j = off")
      case True
      then show ?thesis using below [OF ir] by simp
    next
      case False
      then have "(j, q) \<in> set (cdi_slices cdi)" using that by (simp add: cdi'(1) wf)
      with ir \<open>i < j\<close> ck show ?thesis unfolding chunk_ok_def by blast
    qed
  qed
  have "unat (cdi_remains cdi') = pending cdi' + rest m' n"
    using ck pend rest' by (simp add: chunk_ok_def cdi'(2))
  then show ?thesis
    using ck in_range apart unfolding chunk_ok_def bytes same cdi'(2)
    by (auto simp: cdi'(1) wf)
qed

lemma done_bytes_cong:
  "cm_map m' = cm_map m \<Longrightarrow> cm_file_size m' = cm_file_size m \<Longrightarrow> done_bytes m' = done_bytes m"
  by (simp add: done_bytes_def chunk_bytes_def cong: if_cong)

lemma chunk_ok_cong:
  assumes "chunk_ok m n cdi" "rest m' n = rest m n" "length (cm_map m') = length (cm_map m)"
    "cm_map m' ! n = cm_map m ! n" "cm_file_size m' = cm_file_size m"
  shows "chunk_ok m' n cdi"
proof -
  have b: "chunk_bytes m' n = chunk_bytes m n" using assms by (intro chunk_bytes_cong)
  show ?thesis using assms(1) unfolding chunk_ok_def assms(2-4) b .
qed

lemma feed_okD:
  assumes "feed_ok m" "(p, ck) \<in> set (cm_active_chunks_feed m)"
  shows "\<exists>n < length (cm_map m). unat (ck_start ck) = n * csz \<and>
    unat (ck_end ck) = n * csz + chunk_bytes m n \<and> unat (ck_start ck) \<le> unat (ck_offset ck) \<and>
    unat (ck_offset ck) < unat (ck_end ck) \<and> of_nat n \<in> fst ` set (cm_slices_to_download m)"
  using assms unfolding feed_ok_def by blast

lemma feed_ok_inj:
  assumes "feed_ok m" "(p, ck) \<in> set (cm_active_chunks_feed m)" "(q, dk) \<in> set (cm_active_chunks_feed m)"
    "ck_start ck = ck_start dk"
  shows "p = q"
  using assms unfolding feed_ok_def by blast

lemma chunk_okD:
  assumes "chunk_ok m n cdi"
  shows "n < length (cm_map m)" "cm_map m ! n = CHUNK_ACTIVE" "map_wf (cdi_slices cdi)"
    "unat (cdi_remains cdi) = pending cdi + rest m n" "0 < unat (cdi_remains cdi)"
    "unat (cdi_remains cdi) \<le> chunk_bytes m n"
  using assms unfolding chunk_ok_def by blast+

lemma slice_apart:
  assumes "chunk_ok m n cdi" "(i, r) \<in> set (cdi_slices cdi)" "(j, q) \<in> set (cdi_slices cdi)" "i < j"
  shows "unat i + unat (sri_size r) \<le> unat j"
  using assms unfolding chunk_ok_def by blast

text \<open>The record of one chunk, or the feed of one peer, is replaced.\<close>

lemma slices_ok_put:
  assumes so: "slices_ok m" and ok: "chunk_ok m' (unat n) cdi'"
    and sl: "cm_slices_to_download m' = map_put n cdi' (cm_slices_to_download m)"
    and rest: "\<And>k. k \<noteq> unat n \<Longrightarrow> rest m' k = rest m k"
    and st: "\<And>k. k \<noteq> unat n \<Longrightarrow> cm_map m' ! k = cm_map m ! k"
    and same: "length (cm_map m') = length (cm_map m)" "cm_file_size m' = cm_file_size m"
  shows "slices_ok m'"
proof -
  have wfs: "map_wf (cm_slices_to_download m)" using so by (simp add: slices_ok_def)
  have "chunk_ok m' (unat k) d" if k: "(k, d) \<in> set (cm_slices_to_download m')" for k d
  proof (cases "k = n")
    case True
    then show ?thesis using k ok wfs by (simp add: sl)
  next
    case False
    then have "(k, d) \<in> set (cm_slices_to_download m)" "unat k \<noteq> unat n"
      using k wfs by (simp_all add: sl word_unat_eq_iff)
    then show ?thesis using chunk_ok_cong [OF slices_entry [OF so] rest same(1) st same(2)] by blast
  qed
  moreover have "of_nat j \<in> insert n (fst ` set (cm_slices_to_download m))"
    if "j < length (cm_map m)" "cm_map m' ! j = CHUNK_ACTIVE" for j
    using that so st by (cases "j = unat n") (auto simp: slices_ok_def)
  ultimately show ?thesis using wfs same by (auto simp: slices_ok_def sl)
qed

lemma feed_ok_change:
  assumes fo: "feed_ok m" and wf: "map_wf (cm_active_chunks_feed m')"
    and entry: "\<And>q dk. (q, dk) \<in> set (cm_active_chunks_feed m') \<Longrightarrow>
      if q = p then dk = ck' else (q, dk) \<in> set (cm_active_chunks_feed m)"
    and new: "(p, ck') \<in> set (cm_active_chunks_feed m') \<Longrightarrow> \<exists>n < length (cm_map m). unat (ck_start ck') = n * csz \<and>
      unat (ck_end ck') = n * csz + chunk_bytes m n \<and> unat (ck_start ck') \<le> unat (ck_offset ck') \<and>
      unat (ck_offset ck') < unat (ck_end ck') \<and> of_nat n \<in> fst ` set (cm_slices_to_download m')"
    and apart: "\<And>q dk. q \<noteq> p \<Longrightarrow> (q, dk) \<in> set (cm_active_chunks_feed m) \<Longrightarrow> ck_start dk \<noteq> ck_start ck'"
    and keys: "fst ` set (cm_slices_to_download m) \<subseteq> fst ` set (cm_slices_to_download m')"
    and same: "length (cm_map m') = length (cm_map m)" "cm_file_size m' = cm_file_size m"
  shows "feed_ok m'"
proof -
  have b: "chunk_bytes m' k = chunk_bytes m k" for k using same by (intro chunk_bytes_cong)
  have "\<exists>n < length (cm_map m). unat (ck_start ck) = n * csz \<and>
      unat (ck_end ck) = n * csz + chunk_bytes m n \<and> unat (ck_start ck) \<le> unat (ck_offset ck) \<and>
      unat (ck_offset ck) < unat (ck_end ck) \<and> of_nat n \<in> fst ` set (cm_slices_to_download m')"
    if q: "(q, ck) \<in> set (cm_active_chunks_feed m')" for q ck
  proof (cases "q = p")
    case True
    then show ?thesis using new entry [OF q] q by simp
  next
    case False
    then have "(q, ck) \<in> set (cm_active_chunks_feed m)" using entry [OF q] by simp
    from feed_okD [OF fo this] keys show ?thesis by blast
  qed
  moreover have "q = r" if q: "(q, ck) \<in> set (cm_active_chunks_feed m')" "(r, dk) \<in> set (cm_active_chunks_feed m')"
      and st: "ck_start ck = ck_start dk" for q ck r dk
    using entry [OF q(1)] entry [OF q(2)] apart [of q ck] apart [of r dk] feed_ok_inj [OF fo, of q ck r dk] st
    by (auto split: if_splits)
  ultimately show ?thesis unfolding feed_ok_def same b using wf by (intro conjI ballI) (blast, blast, blast)
qed

text \<open>What \<open>take_slice\<close> does: the slice starts where the uncut part of the chunk starts, the record of the
  chunk gets a pending entry for it, and the feed of the owner advances or ends.\<close>

lemma take_slice_effect:
  assumes i: "chunkmap_inv m" and of: "map_of (cm_active_chunks_feed m) p = Some ck"
    and ts: "take_slice now peer hint p ck m = (sl, m')"
  obtains n cdi cdi' r' ck' where "n < length (cm_map m)" "unat (ck_start ck) = n * csz"
    "map_of (cm_slices_to_download m) (of_nat n) = Some cdi" "chunk_ok m n cdi"
    "unat (ft_offset sl) + rest m n = n * csz + chunk_bytes m n" "unat (ft_size sl) \<le> rest m n"
    "n * csz \<le> unat (ft_offset sl)" "ft_id sl = ft_offset sl" "ft_peer_id sl = peer" "slice_size hint sl" "0 < rest m n"
    "cdi_slices cdi' = map_put (ft_offset sl) r' (cdi_slices cdi)" "cdi_remains cdi' = cdi_remains cdi"
    "unat (sri_size r') = unat (ft_size sl)"
    "m' = m\<lparr>cm_slices_to_download := map_put (of_nat n) cdi' (cm_slices_to_download m),
       cm_active_chunks_feed := feed_cut p ck' (cm_active_chunks_feed m)\<rparr>"
    "ck_start ck' = ck_start ck" "unat (ck_end ck') = n * csz + chunk_bytes m n"
    "unat (ck_offset ck') = unat (ft_offset sl) + unat (ft_size sl)"
    "\<forall>k. rest m' k + (if k = n then unat (ft_size sl) else 0) = rest m k"
proof -
  have g: "geometry m" using i by (simp add: chunkmap_inv_def)
  have wff: "map_wf (cm_active_chunks_feed m)" using i by (simp add: chunkmap_inv_def feed_ok_def)
  obtain n cdi where n: "n < length (cm_map m)" "unat (ck_start ck) = n * csz"
    "unat (ck_end ck) = n * csz + chunk_bytes m n" "n * csz \<le> unat (ck_offset ck)"
    "unat (ck_offset ck) < unat (ck_end ck)" "chunk_number m (ck_offset ck) = of_nat n"
    and cdi: "map_of (cm_slices_to_download m) (of_nat n) = Some cdi" "chunk_ok m n cdi"
    and rst: "rest m n = unat (ck_end ck) - unat (ck_offset ck)"
    by (rule feed_entry [OF i of])
  obtain ck' where gs: "getSlice now hint peer ck = (sl, ck')"
    using ts by (cases "getSlice now hint peer ck") (simp add: take_slice_def Let_def)
  have small: "unat (ck_end ck) - unat (ck_offset ck) \<le> csz"
    using geometry_bounds [OF g n(1)] n(3,4) by linarith
  note G = getSlice_facts [OF gs less_imp_le [OF n(5)] small]
  define r where "r = map_get default_sri (ft_id sl) (cdi_slices cdi)"
  define r' where "r' = r\<lparr>sri_size := ucast (ft_size sl), sri_request_time := now,
    sri_peers := set_insert peer (sri_peers r)\<rparr>"
  define cdi' where "cdi' = cdi\<lparr>cdi_last_data_received := now, cdi_slices := map_put (ft_id sl) r' (cdi_slices cdi)\<rparr>"
  have m': "m' = m\<lparr>cm_slices_to_download := map_put (of_nat n) cdi' (cm_slices_to_download m),
      cm_active_chunks_feed := feed_cut p ck' (cm_active_chunks_feed m)\<rparr>"
    using ts gs G cdi(1) n(6)
    by (auto simp: take_slice_def Let_def map_get_def [of default_cdi] r_def r'_def cdi'_def feed_cut_def)
  have size: "slice_size hint sl" using G n(5) by (auto simp: slice_size_def unat_gt_0)
  have rest': "rest m' k + (if k = n then unat (ft_size sl) else 0) = rest m k" for k
  proof -
    let ?f = "\<lambda>p ck. if unat (ck_start ck) = k * csz then unat (ck_end ck) - unat (ck_offset ck) else 0"
    have "?f p ck' = 0 \<or> \<not> chunk_empty ck'" by (auto simp: chunk_empty_def)
    from feed_cut_sum [where f = ?f, OF wff of this] have "rest m' k + ?f p ck = rest m k + ?f p ck'"
      by (simp add: rest_def m')
    moreover have "unat (ft_size sl) \<le> unat (ck_end ck) - unat (ck_offset ck)"
      "unat (ck_offset ck') = unat (ck_offset ck) + unat (ft_size sl)"
      "ck_start ck' = ck_start ck" "ck_end ck' = ck_end ck" using G by simp_all
    ultimately show ?thesis using n(2) by (cases "k = n") auto
  qed
  have "sri_size r' = ucast (ft_size sl)" by (simp add: r'_def)
  then have r': "unat (sri_size r') = unat (ft_size sl)" using G by simp
  show thesis
    by (rule that [OF n(1,2) cdi _ _ _ _ _ size _ _ _ r' m' _ _ _ allI [OF rest']])
      (use G n rst in \<open>simp_all add: cdi'_def\<close>)
qed

lemma take_slice_inv:
  assumes i: "chunkmap_inv m" and of: "map_of (cm_active_chunks_feed m) p = Some ck"
    and ts: "take_slice now peer hint p ck m = (sl, m')"
  shows "chunkmap_inv m' \<and> slice_fresh m sl \<and> slice_size hint sl \<and> ft_peer_id sl = peer \<and>
    (\<exists>n < length (cm_map m). slice_in m n sl \<and> unat (ck_start ck) = n * csz) \<and>
    cm_map m' = cm_map m \<and> cm_peers_chunks_availability m' = cm_peers_chunks_availability m"
proof -
  have fo: "feed_ok m" and g: "geometry m" and so: "slices_ok m" using i by (simp_all add: chunkmap_inv_def)
  have wff: "map_wf (cm_active_chunks_feed m)" and wfs: "map_wf (cm_slices_to_download m)"
    using fo so by (simp_all add: feed_ok_def slices_ok_def)
  obtain n cdi cdi' r' ck' where n: "n < length (cm_map m)" "unat (ck_start ck) = n * csz"
    and cdi: "map_of (cm_slices_to_download m) (of_nat n) = Some cdi" "chunk_ok m n cdi"
    and sl: "unat (ft_offset sl) + rest m n = n * csz + chunk_bytes m n" "unat (ft_size sl) \<le> rest m n"
      "n * csz \<le> unat (ft_offset sl)" "ft_id sl = ft_offset sl" "ft_peer_id sl = peer" "slice_size hint sl" "0 < rest m n"
    and cdi': "cdi_slices cdi' = map_put (ft_offset sl) r' (cdi_slices cdi)" "cdi_remains cdi' = cdi_remains cdi"
    and r': "unat (sri_size r') = unat (ft_size sl)"
    and m': "m' = m\<lparr>cm_slices_to_download := map_put (of_nat n) cdi' (cm_slices_to_download m),
       cm_active_chunks_feed := feed_cut p ck' (cm_active_chunks_feed m)\<rparr>"
    and ck': "ck_start ck' = ck_start ck" "unat (ck_end ck') = n * csz + chunk_bytes m n"
      "unat (ck_offset ck') = unat (ft_offset sl) + unat (ft_size sl)"
    and all: "\<forall>k. rest m' k + (if k = n then unat (ft_size sl) else 0) = rest m k"
    by (rule take_slice_effect [OF i of ts])
  note rest' = all [rule_format]
  have un: "unat (of_nat n :: u32) = n" by (rule unat_of_nat_chunk [OF g n(1)])
  have "chunk_ok m' n cdi'"
    by (rule chunk_ok_put_slice [OF cdi(2) sl(1) rest' [of n, simplified] sl(7) r' _ _ cdi' sl(3)]) (simp_all add: m')
  moreover have "rest m' k = rest m k" if "k \<noteq> n" for k using rest' [of k] that by simp
  ultimately have "slices_ok m'"
    by (intro slices_ok_put [OF so, of m' "of_nat n" cdi']) (simp_all add: un, simp_all add: m')
  moreover have "feed_ok m'"
  proof (rule feed_ok_change [OF fo, of m' p ck'])
    show "\<exists>n < length (cm_map m). unat (ck_start ck') = n * csz \<and> unat (ck_end ck') = n * csz + chunk_bytes m n \<and>
        unat (ck_start ck') \<le> unat (ck_offset ck') \<and> unat (ck_offset ck') < unat (ck_end ck') \<and>
        of_nat n \<in> fst ` set (cm_slices_to_download m')" if "(p, ck') \<in> set (cm_active_chunks_feed m')"
    proof -
      have "ck_offset ck' \<noteq> ck_end ck'" using that feed_cut_entry [OF wff] by (auto simp: m' chunk_empty_def)
      then have "unat (ck_offset ck') \<noteq> unat (ck_end ck')" by (simp add: word_unat_eq_iff)
      then show ?thesis using n sl ck' by (intro exI [of _ n]) (auto simp: m')
    qed
    show "ck_start dk \<noteq> ck_start ck'" if "q \<noteq> p" "(q, dk) \<in> set (cm_active_chunks_feed m)" for q dk
      using feed_ok_inj [OF fo that(2), of p ck] of that(1) ck'(1) by (auto dest: map_of_SomeD)
  qed (use feed_cut_wf [OF wff] feed_cut_entry [OF wff] in \<open>auto simp: m' split: if_splits\<close>)
  moreover have "active_bytes m' = active_bytes m"
    using entry_sum_put [OF wfs, of "\<lambda>n cdi. chunk_bytes m (unat n) - unat (cdi_remains cdi)" "of_nat n" cdi'] cdi(1) cdi'
    by (simp add: active_bytes_def chunk_bytes_def m' cong: if_cong)
  moreover have "done_bytes m' = done_bytes m" by (rule done_bytes_cong) (simp_all add: m')
  moreover have "slice_in m n sl" using sl by (simp add: slice_in_def)
  moreover from this have "slice_fresh m sl" using cut_is_fresh [OF i n(1)] sl(1) by blast
  ultimately show ?thesis
    using i sl(5,6) n by (auto simp: chunkmap_inv_def total_ok_def geometry_def complete_ok_def m')
qed

lemmas inv_defs = chunkmap_inv_def geometry_def feed_ok_def slices_ok_def chunk_ok_def total_ok_def
  done_bytes_def active_bytes_def complete_ok_def chunk_bytes_def rest_def

lemma inv_other_fields [simp]:
  "chunkmap_inv (m\<lparr>cm_peers_chunks_availability := x\<rparr>) = chunkmap_inv m"
  "chunkmap_inv (m\<lparr>cm_strategy := st\<rparr>) = chunkmap_inv m"
  "chunkmap_inv (m\<lparr>cm_chunks_checking_queue := q\<rparr>) = chunkmap_inv m"
  by (simp_all add: inv_defs cong: if_cong)

lemma getSourceChunksInfo_frame:
  assumes "getSourceChunksInfo p m = (sci, m')"
  obtains x where "m' = m\<lparr>cm_peers_chunks_availability := x\<rparr>"
proof (cases "map_of (cm_peers_chunks_availability m) p")
  case None
  then show thesis using assms that by (auto simp: getSourceChunksInfo_def Let_def)
next
  case (Some s)
  then have "m' = m\<lparr>cm_peers_chunks_availability := cm_peers_chunks_availability m\<rparr>"
    using assms by (simp add: getSourceChunksInfo_def)
  then show thesis by (rule that)
qed

lemma nth_wanted_sound:
  "nth_wanted m sci c j is = Some i \<Longrightarrow> i \<in> set is \<and> chunk_wanted m sci i"
  by (induction "is" arbitrary: j) (auto split: if_splits)

lemma geometry_length: "geometry m \<Longrightarrow> length (cm_map m) \<le> 2 ^ 31"
  using geometry_bounds [of m "length (cm_map m) - 1"] by (cases "cm_map m") auto

lemma getAvailableChunk_frame:
  assumes "geometry m" "getAvailableChunk now rnd p m = (c, fl, m')"
  shows "(\<exists>x. m' = m\<lparr>cm_peers_chunks_availability := x\<rparr>) \<and>
    (\<not> ucast c \<ge> map_size m' \<longrightarrow> unat c < length (cm_map m) \<and> cm_map m ! unat c = CHUNK_OUTSTANDING)"
proof -
  obtain sci m1 where g: "getSourceChunksInfo p m = (sci, m1)" by (cases "getSourceChunksInfo p m")
  obtain x where m1: "m1 = m\<lparr>cm_peers_chunks_availability := x\<rparr>"
    by (rule getSourceChunksInfo_frame [OF g])
  obtain y where m': "m' = m\<lparr>cm_peers_chunks_availability := y\<rparr>"
    using assms(2) that m1 by (auto simp: getAvailableChunk_def g Let_def split: if_splits prod.splits)
  have len: "length (cm_map m) < 2 ^ 32"
    using geometry_length [OF assms(1)] by simp
  have size: "unat (map_size m') = length (cm_map m)"
    using len by (simp add: map_size_def m' unat_of_nat)
  have "c = of_nat (length (cm_map m)) \<or>
      (\<exists>i < length (cm_map m). c = of_nat i \<and> cm_map m ! i = CHUNK_OUTSTANDING)"
    using assms(2) m1
    by (auto simp: getAvailableChunk_def g Let_def chunk_wanted_def split: if_splits prod.splits option.splits
        dest!: nth_wanted_sound)
  moreover have "unat (of_nat i :: u32) = i" if "i \<le> length (cm_map m)" for i
    using that len by (simp add: unat_of_nat)
  ultimately show ?thesis using m' size by (auto simp: word_le_nat_alt)
qed

lemma done_bytes_update:
  assumes "i < length (cm_map m)" "cm_map m' = (cm_map m)[i := s]" "cm_file_size m' = cm_file_size m"
  shows "done_bytes m' + (if is_done_or_checking (cm_map m ! i) then chunk_bytes m i else 0) =
    done_bytes m + (if is_done_or_checking s then chunk_bytes m i else 0)"
proof -
  let ?l = "{..<length (cm_map m)}"
  have b: "chunk_bytes m' j = chunk_bytes m j" for j using assms by (simp add: chunk_bytes_def)
  have "done_bytes m' = (\<Sum>j \<in> ?l. if is_done_or_checking ((cm_map m)[i := s] ! j) then chunk_bytes m j else 0)"
    by (simp add: done_bytes_def assms b cong: if_cong)
  also have "\<dots> = (if is_done_or_checking s then chunk_bytes m i else 0) +
      (\<Sum>j \<in> ?l - {i}. if is_done_or_checking (cm_map m ! j) then chunk_bytes m j else 0)"
    using assms(1) by (subst sum.remove [of _ i]) (auto intro!: sum.cong)
  finally show ?thesis
    using assms(1) unfolding done_bytes_def by (subst (2) sum.remove [of _ i]) auto
qed

lemma feed_chunk_active:
  assumes i: "chunkmap_inv m" and p: "(p, ck) \<in> set (cm_active_chunks_feed m)"
    and n: "unat (ck_start ck) = n * csz"
  shows "n < length (cm_map m) \<and> cm_map m ! n = CHUNK_ACTIVE"
proof -
  have wf: "map_wf (cm_active_chunks_feed m)" using i by (simp add: chunkmap_inv_def feed_ok_def)
  then have "map_of (cm_active_chunks_feed m) p = Some ck" using p by (simp add: map_of_iff)
  then obtain k cdi where "unat (ck_start ck) = k * csz" "chunk_ok m k cdi"
    using feed_entry [OF i, of p ck] by blast
  then show ?thesis using n by (simp add: chunk_ok_def)
qed

lemma no_rest:
  assumes "chunkmap_inv m" "cm_map m ! n \<noteq> CHUNK_ACTIVE"
  shows "rest m n = 0"
  using feed_chunk_active [OF assms(1)] assms(2) by (intro rest_none) auto

text \<open>What \<open>allocate_chunk\<close> does for an outstanding chunk: a feed over the whole chunk, and a record without
  slices in which everything remains.\<close>

lemma allocate_chunk_effect:
  assumes i: "chunkmap_inv m" and c: "unat c < length (cm_map m)" "cm_map m ! unat c = CHUNK_OUTSTANDING"
    and p: "map_of (cm_active_chunks_feed m) p = None"
    and al: "allocate_chunk p c m = (ck, m')"
  shows "map_of (cm_slices_to_download m) c = None \<and>
    m' = m\<lparr>cm_active_chunks_feed := map_put p ck (cm_active_chunks_feed m),
      cm_map := (cm_map m)[unat c := CHUNK_ACTIVE],
      cm_slices_to_download := map_put c (default_cdi\<lparr>cdi_remains := sizeOfChunk m c\<rparr>) (cm_slices_to_download m)\<rparr> \<and>
    unat (ck_start ck) = unat c * csz \<and> ck_offset ck = ck_start ck \<and>
    unat (ck_end ck) = unat c * csz + chunk_bytes m (unat c) \<and>
    (\<forall>k. rest m' k = rest m k + (if k = unat c then chunk_bytes m (unat c) else 0)) \<and> rest m (unat c) = 0"
proof -
  have g: "geometry m" and so: "slices_ok m" using i by (simp_all add: chunkmap_inv_def)
  have wff: "map_wf (cm_active_chunks_feed m)" using i by (simp add: chunkmap_inv_def feed_ok_def)
  note gb = geometry_bounds [OF g c(1)]
  have none: "map_of (cm_slices_to_download m) c = None"
  proof (rule ccontr)
    assume "map_of (cm_slices_to_download m) c \<noteq> None"
    then obtain cdi where "(c, cdi) \<in> set (cm_slices_to_download m)" by (auto dest: map_of_SomeD)
    from chunk_okD(2) [OF slices_entry [OF so this]] c(2) show False by simp
  qed
  have ck: "ck = make_chunk (ucast c * ucast (cm_chunk_size m)) (sizeOfChunk m c)"
    and m': "m' = m\<lparr>cm_active_chunks_feed := map_put p ck (cm_active_chunks_feed m),
      cm_map := (cm_map m)[unat c := CHUNK_ACTIVE],
      cm_slices_to_download := map_put c (default_cdi\<lparr>cdi_remains := sizeOfChunk m c\<rparr>) (cm_slices_to_download m)\<rparr>"
    using al none by (auto simp: allocate_chunk_def Let_def map_get_def)
  have "unat c * csz + chunk_bytes m (unat c) < 18446744073709551616"
    using gb unat_u64_less [of "cm_file_size m"] by linarith
  moreover have "cm_chunk_size m = 0x100000" using g by (simp add: geometry_def)
  ultimately have start: "unat (ck_start ck) = unat c * csz"
    and fin: "unat (ck_end ck) = unat c * csz + chunk_bytes m (unat c)" and off: "ck_offset ck = ck_start ck"
    using sizeOfChunk_bytes [OF g c(1)] by (simp_all add: ck make_chunk_def unat_word_ariths)
  have "rest m' k = rest m k + (if k = unat c then chunk_bytes m (unat c) else 0)" for k
    using entry_sum_put_new [OF wff p, of "\<lambda>p ck. if unat (ck_start ck) = k * csz
        then unat (ck_end ck) - unat (ck_offset ck) else 0" ck] start fin off
    by (auto simp: rest_def m')
  then show ?thesis using none m' start fin off no_rest [OF i] c(2) by auto
qed

lemma allocate_chunk_inv:
  assumes i: "chunkmap_inv m" and c: "unat c < length (cm_map m)" "cm_map m ! unat c = CHUNK_OUTSTANDING"
    and p: "map_of (cm_active_chunks_feed m) p = None"
    and al: "allocate_chunk p c m = (ck, m')"
  shows "chunkmap_inv m' \<and> map_of (cm_active_chunks_feed m') p = Some ck \<and>
    unat (ck_start ck) = unat c * csz \<and> length (cm_map m') = length (cm_map m) \<and>
    (\<forall>(n, cdi) \<in> set (cm_slices_to_download m). (n, cdi) \<in> set (cm_slices_to_download m')) \<and>
    cm_file_size m' = cm_file_size m"
proof -
  have fo: "feed_ok m" and g: "geometry m" and so: "slices_ok m"
    using i by (simp_all add: chunkmap_inv_def)
  have wff: "map_wf (cm_active_chunks_feed m)" and wfs: "map_wf (cm_slices_to_download m)"
    using fo so by (simp_all add: feed_ok_def slices_ok_def)
  note gb = geometry_bounds [OF g c(1)] and soc = sizeOfChunk_bytes [OF g c(1)]
  define cdi where "cdi = default_cdi\<lparr>cdi_remains := sizeOfChunk m c\<rparr>"
  from allocate_chunk_effect [OF assms] have none: "map_of (cm_slices_to_download m) c = None"
    and m': "m' = m\<lparr>cm_active_chunks_feed := map_put p ck (cm_active_chunks_feed m),
      cm_map := (cm_map m)[unat c := CHUNK_ACTIVE], cm_slices_to_download := map_put c cdi (cm_slices_to_download m)\<rparr>"
    and ck: "unat (ck_start ck) = unat c * csz" "ck_offset ck = ck_start ck"
      "unat (ck_end ck) = unat c * csz + chunk_bytes m (unat c)"
    and rest': "\<And>k. rest m' k = rest m k + (if k = unat c then chunk_bytes m (unat c) else 0)" "rest m (unat c) = 0"
    unfolding cdi_def by blast+
  have len: "length (cm_map m') = length (cm_map m)" and size: "cm_file_size m' = cm_file_size m" by (simp_all add: m')
  have bytes: "chunk_bytes m' k = chunk_bytes m k" for k by (rule chunk_bytes_cong) (simp_all add: m')
  have "chunk_ok m' (unat c) cdi"
    using gb soc rest' (1) [of "unat c"] rest'(2) c(1) unfolding chunk_ok_def bytes
    by (simp add: cdi_def default_cdi_def pending_def m')
  then have slices': "slices_ok m'"
    by (rule slices_ok_put [OF so]) (use rest' in \<open>simp_all add: len size\<close>, simp_all add: m')
  have feed': "feed_ok m'"
  proof (rule feed_ok_change [OF fo, of m' p ck])
    show "\<exists>n < length (cm_map m). unat (ck_start ck) = n * csz \<and> unat (ck_end ck) = n * csz + chunk_bytes m n \<and>
        unat (ck_start ck) \<le> unat (ck_offset ck) \<and> unat (ck_offset ck) < unat (ck_end ck) \<and>
        of_nat n \<in> fst ` set (cm_slices_to_download m')"
      using ck gb c(1) by (intro exI [of _ "unat c"]) (simp add: m')
    show "ck_start dk \<noteq> ck_start ck" if "q \<noteq> p" "(q, dk) \<in> set (cm_active_chunks_feed m)" for q dk
      using feed_chunk_active [OF i that(2), of "unat c"] ck(1) c(2) by auto
  qed (use wff in \<open>auto simp: m' split: if_splits\<close>)
  have "active_bytes m' = active_bytes m"
    using entry_sum_put_new [OF wfs none, of "\<lambda>n cdi. chunk_bytes m (unat n) - unat (cdi_remains cdi)" cdi] soc
    by (simp add: active_bytes_def bytes) (simp add: m' cdi_def)
  moreover have "done_bytes m' = done_bytes m"
    using done_bytes_update [of "unat c" m m' CHUNK_ACTIVE] c by (simp add: m' is_done_or_checking_def)
  ultimately have "total_ok m'" using i by (simp add: chunkmap_inv_def total_ok_def) (simp add: m')
  moreover have "complete_ok m'"
  proof -
    have "\<not> list_all (\<lambda>st. st = CHUNK_DONE) (cm_map m)" "\<not> list_all (\<lambda>st. st = CHUNK_DONE) (cm_map m')"
      using c by (auto simp: list_all_length m' intro!: exI [of _ "unat c"])
    then show ?thesis using i by (auto simp: chunkmap_inv_def complete_ok_def m')
  qed
  moreover have "geometry m'" using g by (simp add: geometry_def m')
  moreover have "\<forall>(k, d) \<in> set (cm_slices_to_download m). (k, d) \<in> set (cm_slices_to_download m')"
    using wfs none by (force simp: m' map_of_eq_None_iff)
  ultimately show ?thesis
    using slices' feed' ck(1) len size by (simp add: chunkmap_inv_def) (simp add: m')
qed

end
