(* ===== verification/Chunk_Ask.thy ===== *)
theory Chunk_Ask
  imports Chunk_Inv
begin

text \<open>
  What \<^verbatim>\<open>getDataChunk\<close> of \<^verbatim>\<open>ft/ftchunkmap.cc\<close> asks a peer for: on every branch, a slice inside one
  chunk that the source has, not longer than the hint, overlapping nothing that is pending; and that it
  keeps the accounting.
\<close>

definition source_has :: "SourceChunksInfo \<Rightarrow> nat \<Rightarrow> bool" where
  "source_has sci n = (sci_is_full sci \<or> cmap_index (sci_cmap sci) (of_nat n))"

text \<open>A peer in the feed whose chunk the source has.\<close>

definition shareable :: "ChunkMap \<Rightarrow> SourceChunksInfo \<Rightarrow> RsPeerId \<Rightarrow> bool" where
  "shareable m sci p =
     (\<exists>ck n. map_of (cm_active_chunks_feed m) p = Some ck \<and> unat (ck_start ck) = n * csz \<and>
        source_has sci n)"

lemma scan_feed_frame:
  assumes i: "chunkmap_inv m"
  shows "set pits \<subseteq> set (cm_active_chunks_feed m) \<Longrightarrow> scan_feed slow hint sci pits fs m = (it, fs', m') \<Longrightarrow>
    m' = m \<and> (\<forall>p. it = Some p \<longrightarrow> shareable m sci p) \<and> (\<forall>p. fs' = Some p \<longrightarrow> fs = Some p \<or> shareable m sci p)"
proof (induction pits arbitrary: fs)
  case Nil
  then show ?case by simp
next
  case (Cons e pits)
  obtain p ck where e: "e = (p, ck)" by (cases e)
  have wf: "map_wf (cm_active_chunks_feed m)" and wfs: "map_wf (cm_slices_to_download m)"
    and g: "geometry m" using i by (simp_all add: chunkmap_inv_def feed_ok_def slices_ok_def)
  then have of: "map_of (cm_active_chunks_feed m) p = Some ck" using Cons.prems e by (simp add: map_of_iff)
  obtain n cdi where n: "n < length (cm_map m)" "unat (ck_start ck) = n * csz"
    and cdi: "map_of (cm_slices_to_download m) (of_nat n) = Some cdi"
    using feed_entry [OF i of] by blast
  have "chunk_number m (ck_start ck) = of_nat n"
    using geometry_bounds [OF g n(1)] n by (intro chunk_number_of [OF g n(1)]) simp_all
  moreover have "map_put (of_nat n) cdi (cm_slices_to_download m) = cm_slices_to_download m"
    using cdi by (rule map_put_same [OF wfs])
  ultimately have step: "scan_feed slow hint sci (e # pits) fs m =
     (if \<not> source_has sci n then scan_feed slow hint sci pits fs m
      else if cdi_slices cdi \<noteq> [] \<and> slow (sri_size (snd (last (cdi_slices cdi)))) hint
      then (Some p, Some p, m) else scan_feed slow hint sci pits (Some p) m)"
    using cdi by (simp add: e Let_def map_get_def source_has_def)
  have share: "shareable m sci p" if "source_has sci n" using that of n by (auto simp: shareable_def)
  have sub: "set pits \<subseteq> set (cm_active_chunks_feed m)" using Cons.prems by simp
  show ?case
    using Cons.prems(2) Cons.IH [OF sub] share unfolding step by (auto split: if_splits)
qed

lemma getSourceChunksInfo_again:
  "getSourceChunksInfo p m = (sci, m') \<Longrightarrow> getSourceChunksInfo p m' = (sci, m')"
  by (auto simp: getSourceChunksInfo_def Let_def split: option.splits if_splits)

lemma getAvailableChunk_has:
  assumes g: "geometry m" and a: "getAvailableChunk now rnd p m = (c, fl, m')"
    and lt: "unat c < length (cm_map m)" and s: "getSourceChunksInfo p m = (sci, m)"
  shows "source_has sci (unat c)"
proof -
  have len: "length (cm_map m) < 2 ^ 32" using geometry_length [OF g] by simp
  then have u: "unat (of_nat i :: u32) = i" if "i \<le> length (cm_map m)" for i
    using that by (simp add: unat_of_nat)
  have "c = of_nat (length (cm_map m)) \<or> (\<exists>i < length (cm_map m). c = of_nat i \<and> source_has sci i)"
    using a by (auto simp: getAvailableChunk_def s Let_def chunk_wanted_def source_has_def
        split: if_splits prod.splits option.splits dest!: nth_wanted_sound)
  then show ?thesis using u lt by auto
qed

lemma slice_fresh_mono:
  "slice_fresh m' sl \<Longrightarrow> set (cm_slices_to_download m) \<subseteq> set (cm_slices_to_download m') \<Longrightarrow> slice_fresh m sl"
  unfolding slice_fresh_def by blast

lemma take_shared_slice:
  assumes i: "chunkmap_inv m" and sh: "shareable m sci p"
    and ts: "take_slice now peer hint p (the (map_of (cm_active_chunks_feed m) p)) m = (sl, m')"
  shows "chunkmap_inv m' \<and> slice_fresh m sl \<and> slice_size hint sl \<and> ft_peer_id sl = peer \<and>
    (\<exists>n < length (cm_map m). slice_in m n sl \<and> source_has sci n)"
proof -
  obtain ck n where ck: "map_of (cm_active_chunks_feed m) p = Some ck" "unat (ck_start ck) = n * csz"
    "source_has sci n" using sh by (auto simp: shareable_def)
  from take_slice_inv [OF i ck(1)] ts ck show ?thesis by fastforce
qed

lemma allocated_slice:
  assumes i: "chunkmap_inv m" and c: "unat c < length (cm_map m)" "cm_map m ! unat c = CHUNK_OUTSTANDING"
    and p: "map_of (cm_active_chunks_feed m) peer = None" and has: "source_has sci (unat c)"
    and al: "allocate_chunk peer c m = (ck, m1)" and ts: "take_slice now peer hint peer ck m1 = (sl, m2)"
  shows "chunkmap_inv m2 \<and> slice_fresh m sl \<and> slice_size hint sl \<and> ft_peer_id sl = peer \<and>
    (\<exists>n < length (cm_map m). slice_in m n sl \<and> source_has sci n)"
proof -
  note A = allocate_chunk_inv [OF i c p al]
  then have i1: "chunkmap_inv m1" and p1: "map_of (cm_active_chunks_feed m1) peer = Some ck" by simp_all
  note T = take_slice_inv [OF i1 p1 ts]
  then obtain n where n: "n < length (cm_map m1)" "slice_in m1 n sl" "unat (ck_start ck) = n * csz" by blast
  then have nc: "n = unat c" using A by simp
  have "slice_fresh m sl"
  proof (rule slice_fresh_mono [of m1])
    have "\<forall>(k, d) \<in> set (cm_slices_to_download m). (k, d) \<in> set (cm_slices_to_download m1)"
      using A by simp
    then show "set (cm_slices_to_download m) \<subseteq> set (cm_slices_to_download m1)" by auto
  qed (use T in simp)
  moreover have "chunk_bytes m1 n = chunk_bytes m n" using A by (intro chunk_bytes_cong) simp_all
  then have "slice_in m n sl" using n(2) by (simp add: slice_in_def)
  ultimately show ?thesis using T n(1) nc has A by auto
qed

definition asked_slice :: "ChunkMap \<Rightarrow> RsPeerId \<Rightarrow> u32 \<Rightarrow> ftChunk \<Rightarrow> bool" where
  "asked_slice m peer hint sl =
     (slice_fresh m sl \<and> slice_size hint sl \<and> ft_peer_id sl = peer \<and>
      (\<exists>n < length (cm_map m). slice_in m n sl \<and>
         (case map_of (cm_active_chunks_feed m) peer of
            None \<Rightarrow> source_has (fst (getSourceChunksInfo peer m)) n
          | Some ck \<Rightarrow> unat (ck_start ck) = n * csz)))"

lemma getDataChunk_inv:
  assumes i: "chunkmap_inv m" and gd: "getDataChunk slow now rnd peer hint needed m = (r, needed', m')"
  shows "chunkmap_inv m' \<and> (\<forall>sl. r = Some sl \<longrightarrow> asked_slice m peer hint sl)"
proof (cases "map_of (cm_active_chunks_feed m) peer")
  case (Some ck)
  obtain sl m1 where ts: "take_slice now peer hint peer ck m = (sl, m1)"
    by (cases "take_slice now peer hint peer ck m")
  from take_slice_inv [OF i Some ts] show ?thesis
    using gd Some ts by (auto simp: getDataChunk_def asked_slice_def)
next
  case None
  obtain sci m1 where s: "getSourceChunksInfo peer m = (sci, m1)" by (cases "getSourceChunksInfo peer m")
  obtain x where m1: "m1 = m\<lparr>cm_peers_chunks_availability := x\<rparr>" by (rule getSourceChunksInfo_frame [OF s])
  have i1: "chunkmap_inv m1" using i by (simp add: m1)
  obtain it fs m2 where sc: "scan_feed slow hint sci (cm_active_chunks_feed m1) None m1 = (it, fs, m2)"
    by (metis prod_cases3)
  have sc': "m2 = m1" "\<And>p. it = Some p \<Longrightarrow> shareable m1 sci p" "\<And>p. fs = Some p \<Longrightarrow> shareable m1 sci p"
    using scan_feed_frame [OF i1 subset_refl sc] by auto
  have back1: "asked_slice m peer hint sl"
    if "slice_fresh m1 sl \<and> slice_size hint sl \<and> ft_peer_id sl = peer \<and>
      (\<exists>n < length (cm_map m1). slice_in m1 n sl \<and> source_has sci n)" for sl
    using that None by (auto simp: asked_slice_def s slice_fresh_def slice_in_def m1 chunk_bytes_def)
  show ?thesis
  proof (cases it)
    case (Some p)
    obtain sl m3 where ts: "take_slice now peer hint p (the (map_of (cm_active_chunks_feed m1) p)) m1 = (sl, m3)"
      by (metis surj_pair)
    then show ?thesis
      using gd None s sc sc' Some take_shared_slice [OF i1 sc'(2) [OF Some] ts] back1
      by (auto simp: getDataChunk_def)
  next
    case it: None
    obtain c fl m3 where a: "getAvailableChunk now rnd peer m1 = (c, fl, m3)" by (metis prod_cases3)
    have g1: "geometry m1" using i1 by (simp add: chunkmap_inv_def)
    obtain y where m3: "m3 = m1\<lparr>cm_peers_chunks_availability := y\<rparr>"
      and out: "\<not> ucast c \<ge> map_size m3 \<longrightarrow> unat c < length (cm_map m1) \<and> cm_map m1 ! unat c = CHUNK_OUTSTANDING"
      using getAvailableChunk_frame [OF g1 a] by blast
    have i3: "chunkmap_inv m3" using i1 by (simp add: m3)
    have back3: "asked_slice m peer hint sl"
      if "slice_fresh m3 sl \<and> slice_size hint sl \<and> ft_peer_id sl = peer \<and>
        (\<exists>n < length (cm_map m3). slice_in m3 n sl \<and> source_has sci n)" for sl
      using that by (intro back1) (auto simp: slice_fresh_def slice_in_def m3 chunk_bytes_def)
    show ?thesis
    proof (cases "ucast c \<ge> map_size m3")
      case full: True
      show ?thesis
      proof (cases fs)
        case None
        then show ?thesis using gd \<open>map_of _ peer = None\<close> s sc sc' it a full i3 by (auto simp: getDataChunk_def)
      next
        case (Some p)
        obtain sl m4 where ts: "take_slice now peer hint p (the (map_of (cm_active_chunks_feed m3) p)) m3 = (sl, m4)"
          by (metis surj_pair)
        have "shareable m3 sci p" using sc'(3) [OF Some] by (simp add: shareable_def m3)
        from take_shared_slice [OF i3 this ts] show ?thesis
          using gd None s sc sc' it a full Some ts back3 by (auto simp: getDataChunk_def)
      qed
    next
      case False
      then have c: "unat c < length (cm_map m3)" "cm_map m3 ! unat c = CHUNK_OUTSTANDING"
        using out by (simp_all add: m3)
      have p3: "map_of (cm_active_chunks_feed m3) peer = None" using None by (simp add: m3 m1)
      obtain ck m4 where al: "allocate_chunk peer c m3 = (ck, m4)" by (cases "allocate_chunk peer c m3")
      obtain sl m5 where ts: "take_slice now peer hint peer ck m4 = (sl, m5)"
        by (cases "take_slice now peer hint peer ck m4")
      have "source_has sci (unat c)"
        using getAvailableChunk_has [OF g1 a _ getSourceChunksInfo_again [OF s]] c(1) by (simp add: m3)
      note T = allocated_slice [OF i3 c p3 this al ts]
      then have "asked_slice m peer hint sl" by (intro back3) blast
      moreover have "r = Some sl" "m' = m5"
        using gd None s sc sc'(1) it a False al ts by (simp_all add: getDataChunk_def)
      ultimately show ?thesis using T by simp
    qed
  qed
qed

text \<open>The shape of a call: without a slice only the sources may change; with one, a slice is cut from the
  active chunk of some peer, which may have been allocated just before.\<close>

lemma getDataChunk_shape:
  assumes i: "chunkmap_inv m" and gd: "getDataChunk slow now rnd peer hint needed m = (r, needed', m')"
  shows "case r of
      None \<Rightarrow> \<exists>x. m' = m\<lparr>cm_peers_chunks_availability := x\<rparr>
    | Some sl \<Rightarrow> \<exists>x p ck m1. chunkmap_inv m1 \<and> map_of (cm_active_chunks_feed m1) p = Some ck \<and>
        take_slice now peer hint p ck m1 = (sl, m') \<and>
        (m1 = m\<lparr>cm_peers_chunks_availability := x\<rparr> \<or>
         (\<exists>c. unat c < length (cm_map m) \<and> cm_map m ! unat c = CHUNK_OUTSTANDING \<and>
            map_of (cm_active_chunks_feed m) peer = None \<and>
            allocate_chunk peer c (m\<lparr>cm_peers_chunks_availability := x\<rparr>) = (ck, m1)))"
proof -
  have fin: ?thesis if "r = Some sl" "map_of (cm_active_chunks_feed m) p = Some ck"
      "take_slice now peer hint p ck (m\<lparr>cm_peers_chunks_availability := z\<rparr>) = (sl, m')" for sl p ck z
    using i that by (simp, intro exI [of _ z] exI [of _ p] exI [of _ ck]
      exI [of _ "m\<lparr>cm_peers_chunks_availability := z\<rparr>"]) simp
  show ?thesis
  proof (cases "map_of (cm_active_chunks_feed m) peer")
    case (Some ck)
    obtain sl m1 where ts: "take_slice now peer hint peer ck m = (sl, m1)" by (cases "take_slice now peer hint peer ck m")
    then have "r = Some sl" "m' = m1" using gd Some by (simp_all add: getDataChunk_def)
    then show ?thesis using fin [of sl peer ck "cm_peers_chunks_availability m"] Some ts by simp
  next
    case None
    obtain sci m1 where s: "getSourceChunksInfo peer m = (sci, m1)" by (cases "getSourceChunksInfo peer m")
    obtain x where m1: "m1 = m\<lparr>cm_peers_chunks_availability := x\<rparr>" by (rule getSourceChunksInfo_frame [OF s])
    have i1: "chunkmap_inv m1" using i by (simp add: m1)
    obtain it fs m2 where sc: "scan_feed slow hint sci (cm_active_chunks_feed m1) None m1 = (it, fs, m2)"
      by (metis prod_cases3)
    note F = scan_feed_frame [OF i1 subset_refl sc]
    obtain c fl m3 where a: "getAvailableChunk now rnd peer m1 = (c, fl, m3)" by (metis prod_cases3)
    have g1: "geometry m1" using i1 by (simp add: chunkmap_inv_def)
    obtain y where m3: "m3 = m1\<lparr>cm_peers_chunks_availability := y\<rparr>"
      and out: "\<not> ucast c \<ge> map_size m3 \<longrightarrow> unat c < length (cm_map m1) \<and> cm_map m1 ! unat c = CHUNK_OUTSTANDING"
      using getAvailableChunk_frame [OF g1 a] by blast
    have i3: "chunkmap_inv m3" using i1 by (simp add: m3)
    have shared: "map_of (cm_active_chunks_feed m) p \<noteq> None" if "shareable m1 sci p" for p
      using that by (auto simp: shareable_def m1)
    note unfolded = getDataChunk_def None option.case s sc a case_prod_beta fst_conv snd_conv Let_def
    show ?thesis
    proof (cases it)
      case it: (Some p)
      then obtain ck where ck: "map_of (cm_active_chunks_feed m) p = Some ck" using F shared by fastforce
      obtain sl m4 where ts: "take_slice now peer hint p ck m1 = (sl, m4)" by (cases "take_slice now peer hint p ck m1")
      have "map_of (cm_active_chunks_feed m1) p = Some ck" using ck by (simp add: m1)
      then have "r = Some sl" "m' = m4" using gd it F ts by (simp_all add: unfolded)
      then show ?thesis using fin [of sl p ck x] ck ts by (simp add: m1)
    next
      case it: None
      show ?thesis
      proof (cases "ucast c \<ge> map_size m3")
        case True
        show ?thesis
        proof (cases fs)
          case fs: None
          then have "r = None" "m' = m3" using gd it True F by (simp_all add: unfolded)
          then show ?thesis by (auto simp: m3 m1)
        next
          case fs: (Some p)
          then obtain ck where ck: "map_of (cm_active_chunks_feed m) p = Some ck" using F shared by fastforce
          obtain sl m4 where ts: "take_slice now peer hint p ck m3 = (sl, m4)" by (cases "take_slice now peer hint p ck m3")
          have "map_of (cm_active_chunks_feed m3) p = Some ck" using ck by (simp add: m3 m1)
          then have "r = Some sl" "m' = m4" using gd it fs True F ts by (simp_all add: unfolded)
          then show ?thesis using fin [of sl p ck y] ck ts by (simp add: m3 m1)
        qed
      next
        case False
        then have c: "unat c < length (cm_map m3)" "cm_map m3 ! unat c = CHUNK_OUTSTANDING"
          using out by (simp_all add: m3)
        have p3: "map_of (cm_active_chunks_feed m3) peer = None" using None by (simp add: m3 m1)
        obtain ck m4 where al: "allocate_chunk peer c m3 = (ck, m4)" by (cases "allocate_chunk peer c m3")
        obtain sl m5 where ts: "take_slice now peer hint peer ck m4 = (sl, m5)" by (cases "take_slice now peer hint peer ck m4")
        have "r = Some sl" "m' = m5" using gd it False F al ts by (simp_all add: unfolded)
        moreover have "m3 = m\<lparr>cm_peers_chunks_availability := y\<rparr>" by (simp add: m3 m1)
        ultimately show ?thesis using allocate_chunk_inv [OF i3 c p3 al] c p3 al ts
          by (simp, intro exI [of _ y] exI [of _ peer] exI [of _ ck] exI [of _ m4]) blast
      qed
    qed
  qed
qed

end
