(* ===== verification/Chunk_Run.thy ===== *)
theory Chunk_Run
  imports Chunk_Ask
begin

text \<open>
  Runs of \<^verbatim>\<open>ftChunkMap\<close>: every call keeps the accounting of Chunk_Inv, as a step relation, and what
  holds of all reachable states.
\<close>

subsection \<open>The total\<close>

lemma fold_add_word:
  "foldl (\<lambda>t i. if P i then t + f i else t) (a :: u64) is = a + of_nat (\<Sum>i \<leftarrow> is. if P i then unat (f i) else 0)"
  by (induction "is" arbitrary: a) (simp_all add: algebra_simps)

lemma chunk_index: "geometry m \<Longrightarrow> i < length (cm_map m) \<Longrightarrow> unat (sizeOfChunk m (of_nat i)) = chunk_bytes m i"
  using sizeOfChunk_bytes [of m "of_nat i"] by (simp add: unat_of_nat_chunk)

lemma sum_upt: "(\<Sum>i \<leftarrow> [0..<n]. f i) = (\<Sum>i < n. f i :: nat)"
  by (simp add: sum_list_distinct_conv_sum_set lessThan_atLeast0)

lemma raw_total:
  assumes "geometry m"
  shows "foldl (\<lambda>t i. if P i then t + ucast (sizeOfChunk m (of_nat i)) else t) (0 :: u64) [0..<length (cm_map m)] =
    of_nat (\<Sum>i < length (cm_map m). if P i then chunk_bytes m i else 0)"
  unfolding fold_add_word sum_upt
  using chunk_index [OF assms] by (auto intro!: arg_cong [of _ _ word_of_nat] sum.cong)

lemma active_total:
  assumes "geometry m" "slices_ok m" "set es \<subseteq> set (cm_slices_to_download m)"
  shows "foldl (\<lambda>t (n, itc).
      (if cm_map m ! unat n = CHUNK_CHECKING then t - ucast (sizeOfChunk m n) else t) +
      ucast (sizeOfChunk m n - cdi_remains itc)) (a :: u64) es =
    a + of_nat (entry_sum (\<lambda>n cdi. chunk_bytes m (unat n) - unat (cdi_remains cdi)) es)"
  using assms(3)
proof (induction es arbitrary: a)
  case (Cons e es)
  obtain n cdi where e: "e = (n, cdi)" by (cases e)
  have ok: "chunk_ok m (unat n) cdi" using Cons.prems e slices_entry [OF assms(2)] by simp
  then have lt: "unat n < length (cm_map m)" and "cm_map m ! unat n = CHUNK_ACTIVE"
    and rem: "unat (cdi_remains cdi) \<le> chunk_bytes m (unat n)" by (simp_all add: chunk_ok_def)
  have "unat (sizeOfChunk m n - cdi_remains cdi) = chunk_bytes m (unat n) - unat (cdi_remains cdi)"
    using sizeOfChunk_bytes [OF assms(1) lt] rem by (subst unat_sub) (simp_all add: word_le_nat_alt)
  then have "(ucast (sizeOfChunk m n - cdi_remains cdi) :: u64) =
      of_nat (chunk_bytes m (unat n) - unat (cdi_remains cdi))"
    by (metis of_nat_unat)
  then show ?case using Cons \<open>cm_map m ! unat n = CHUNK_ACTIVE\<close> by (simp add: e)
qed simp

lemma updateTotalDownloaded_is:
  assumes "geometry m" "slices_ok m"
  shows "updateTotalDownloaded m = m\<lparr>cm_total_downloaded := of_nat (done_bytes m + active_bytes m),
    cm_file_is_complete := list_all (\<lambda>st. st = CHUNK_DONE) (cm_map m)\<rparr>"
  unfolding updateTotalDownloaded_def Let_def raw_total [OF assms(1)] active_total [OF assms subset_refl]
  by (simp add: done_bytes_def active_bytes_def)

lemma fits_total:
  assumes "geometry m" "slices_ok m"
  shows "unat (of_nat (done_bytes m + active_bytes m) :: u64) = done_bytes m + active_bytes m"
proof -
  have "done_bytes m + active_bytes m < 18446744073709551616"
    using total_le_file [OF assms] unat_u64_less [of "cm_file_size m"] by linarith
  then show ?thesis by (simp only: unat_of_nat) simp
qed

lemma updateTotalDownloaded_inv:
  assumes "geometry m" "slices_ok m" "feed_ok m"
  shows "chunkmap_inv (updateTotalDownloaded m)"
proof -
  let ?m = "updateTotalDownloaded m"
  note u = updateTotalDownloaded_is [OF assms(1,2)]
  have "done_bytes ?m = done_bytes m" by (rule done_bytes_cong) (simp_all add: u)
  moreover have "active_bytes ?m = active_bytes m" by (simp add: active_bytes_def chunk_bytes_def u cong: if_cong)
  ultimately have "total_ok ?m" using fits_total [OF assms(1,2)] by (simp only: total_ok_def) (simp add: u)
  moreover have "geometry ?m" "complete_ok ?m" "slices_ok ?m" "feed_ok ?m"
    using assms by (simp_all add: u inv_defs cong: if_cong)
  ultimately show ?thesis by (simp add: chunkmap_inv_def)
qed

subsection \<open>Leaving and changing chunks\<close>

lemma map_erase_put [simp]: "map_erase k (map_put k v m) = map_erase k m"
  by (induction k v m rule: map_put.induct) (auto simp: map_erase_def)

lemma map_wf_unique: "map_wf m \<Longrightarrow> (k, v) \<in> set m \<Longrightarrow> (k, w) \<in> set m \<Longrightarrow> w = v"
  by (metis map_of_iff option.inject)

lemma rest_filter:
  assumes "cm_active_chunks_feed m' = filter (\<lambda>(p, ck). unat (ck_start ck) \<noteq> n * csz) (cm_active_chunks_feed m)"
    and "k \<noteq> n"
  shows "rest m' k = rest m k"
proof -
  let ?f = "\<lambda>p ck. if unat (ck_start ck) = k * csz then unat (ck_end ck) - unat (ck_offset ck) else 0"
  have "entry_sum ?f (filter (\<lambda>(p, ck). unat (ck_start ck) \<noteq> n * csz) es) = entry_sum ?f es" for es
    using assms(2) by (induction es) auto
  then show ?thesis by (simp only: rest_def assms(1))
qed

lemma feed_ok_sub:
  assumes fo: "feed_ok m" and wf: "map_wf (cm_active_chunks_feed m')"
    and sub: "set (cm_active_chunks_feed m') \<subseteq> set (cm_active_chunks_feed m)"
    and same: "length (cm_map m') = length (cm_map m)" "cm_file_size m' = cm_file_size m"
    and keys: "\<And>p ck n. (p, ck) \<in> set (cm_active_chunks_feed m') \<Longrightarrow> unat (ck_start ck) = n * csz \<Longrightarrow>
      n < length (cm_map m) \<Longrightarrow> of_nat n \<in> fst ` set (cm_slices_to_download m) \<Longrightarrow>
      of_nat n \<in> fst ` set (cm_slices_to_download m')"
  shows "feed_ok m'"
proof -
  have b: "chunk_bytes m' k = chunk_bytes m k" for k using same by (intro chunk_bytes_cong)
  have "\<exists>n < length (cm_map m). unat (ck_start ck) = n * csz \<and>
      unat (ck_end ck) = n * csz + chunk_bytes m n \<and> unat (ck_start ck) \<le> unat (ck_offset ck) \<and>
      unat (ck_offset ck) < unat (ck_end ck) \<and> of_nat n \<in> fst ` set (cm_slices_to_download m')"
    if "(p, ck) \<in> set (cm_active_chunks_feed m')" for p ck
    using feed_okD [OF fo subsetD [OF sub that]] keys [OF that] by blast
  moreover have "p = q" if "(p, ck) \<in> set (cm_active_chunks_feed m')"
      "(q, dk) \<in> set (cm_active_chunks_feed m')" "ck_start ck = ck_start dk" for p ck q dk
    using feed_ok_inj [OF fo subsetD [OF sub that(1)] subsetD [OF sub that(2)] that(3)] .
  ultimately show ?thesis unfolding feed_ok_def same b using wf by (intro conjI ballI) (blast, blast, blast)
qed

lemma leave_chunk:
  assumes i: "chunkmap_inv m" and e: "(n, cdi) \<in> set (cm_slices_to_download m)"
    and s: "s \<noteq> CHUNK_ACTIVE"
    and m': "cm_map m' = (cm_map m)[unat n := s]" "cm_slices_to_download m' = map_erase n (cm_slices_to_download m)"
      "cm_active_chunks_feed m' = filter (\<lambda>(p, ck). unat (ck_start ck) \<noteq> unat n * csz) (cm_active_chunks_feed m)"
      "cm_file_size m' = cm_file_size m" "cm_chunk_size m' = cm_chunk_size m"
  shows "geometry m' \<and> feed_ok m' \<and> slices_ok m' \<and>
    done_bytes m' = done_bytes m + (if is_done_or_checking s then chunk_bytes m (unat n) else 0) \<and>
    active_bytes m' + (chunk_bytes m (unat n) - unat (cdi_remains cdi)) = active_bytes m"
proof -
  have fo: "feed_ok m" and g: "geometry m" and so: "slices_ok m"
    using i by (simp_all add: chunkmap_inv_def)
  have wff: "map_wf (cm_active_chunks_feed m)" and wfs: "map_wf (cm_slices_to_download m)"
    using fo so by (simp_all add: feed_ok_def slices_ok_def)
  have ok: "chunk_ok m (unat n) cdi" using slices_entry [OF so e] .
  then have n: "unat n < length (cm_map m)" "cm_map m ! unat n = CHUNK_ACTIVE" by (simp_all add: chunk_ok_def)
  have len: "length (cm_map m') = length (cm_map m)" by (simp add: m')
  have bytes: "chunk_bytes m' k = chunk_bytes m k" for k by (rule chunk_bytes_cong) (simp_all add: m')
  have "geometry m'" using g by (simp add: geometry_def m')
  moreover have "feed_ok m'"
  proof (rule feed_ok_sub [OF fo _ _ len m'(4)])
    fix p ck k assume "(p, ck) \<in> set (cm_active_chunks_feed m')" "unat (ck_start ck) = k * csz"
      "k < length (cm_map m)" "of_nat k \<in> fst ` set (cm_slices_to_download m)"
    moreover from this have "of_nat k \<noteq> n" using unat_of_nat_chunk [OF g, of k] by (auto simp: m')
    ultimately show "of_nat k \<in> fst ` set (cm_slices_to_download m')" by (simp add: m')
  qed (use wff in \<open>auto simp: m'\<close>)
  moreover have "slices_ok m'"
    unfolding slices_ok_def
  proof (intro conjI)
    show "map_wf (cm_slices_to_download m')" using wfs by (simp add: m')
    show "\<forall>(k, d) \<in> set (cm_slices_to_download m'). chunk_ok m' (unat k) d"
    proof clarify
      fix k d assume "(k, d) \<in> set (cm_slices_to_download m')"
      then have k: "k \<noteq> n" "(k, d) \<in> set (cm_slices_to_download m)" by (simp_all add: m')
      then have "unat k \<noteq> unat n" by (simp add: word_unat_eq_iff)
      with chunk_ok_cong [OF slices_entry [OF so k(2)] _ len _ m'(4)] rest_filter [OF m'(3)]
      show "chunk_ok m' (unat k) d" by (simp add: m')
    qed
    show "\<forall>j < length (cm_map m'). cm_map m' ! j = CHUNK_ACTIVE \<longrightarrow>
        of_nat j \<in> fst ` set (cm_slices_to_download m')"
    proof (intro allI impI)
      fix j assume j: "j < length (cm_map m')" "cm_map m' ! j = CHUNK_ACTIVE"
      then have "j \<noteq> unat n" "cm_map m ! j = CHUNK_ACTIVE" using s n by (auto simp: m' nth_list_update split: if_splits)
      moreover have "unat (of_nat j :: u32) = j" using unat_of_nat_chunk [OF g] j len by simp
      ultimately show "of_nat j \<in> fst ` set (cm_slices_to_download m')"
        using so j len by (auto simp: m' slices_ok_def)
    qed
  qed
  moreover have "done_bytes m' = done_bytes m + (if is_done_or_checking s then chunk_bytes m (unat n) else 0)"
    using done_bytes_update [OF n(1) m'(1,4)] n(2) by (simp add: is_done_or_checking_def)
  moreover have "active_bytes m' + (chunk_bytes m (unat n) - unat (cdi_remains cdi)) = active_bytes m"
    using entry_sum_erase [OF wfs, of "\<lambda>n cdi. chunk_bytes m (unat n) - unat (cdi_remains cdi)" n] e
    by (simp add: active_bytes_def bytes m' map_of_iff [OF wfs, THEN iffD2])
  ultimately show ?thesis by blast
qed

text \<open>A chunk that is not active changes to another state that is not active.\<close>

lemma change_state:
  assumes i: "chunkmap_inv m" and n: "n < length (cm_map m)" "cm_map m ! n \<noteq> CHUNK_ACTIVE" and s: "s \<noteq> CHUNK_ACTIVE"
    and m': "cm_map m' = (cm_map m)[n := s]" "cm_slices_to_download m' = cm_slices_to_download m"
      "cm_active_chunks_feed m' = cm_active_chunks_feed m" "cm_file_size m' = cm_file_size m"
      "cm_chunk_size m' = cm_chunk_size m"
  shows "geometry m' \<and> feed_ok m' \<and> slices_ok m' \<and> active_bytes m' = active_bytes m"
proof -
  have fo: "feed_ok m" and g: "geometry m" and so: "slices_ok m"
    using i by (simp_all add: chunkmap_inv_def)
  have len: "length (cm_map m') = length (cm_map m)" by (simp add: m')
  have bytes: "chunk_bytes m' k = chunk_bytes m k" for k by (rule chunk_bytes_cong) (simp_all add: m')
  have rest': "rest m' k = rest m k" for k by (simp add: rest_def m')
  have "feed_ok m'" using fo by (intro feed_ok_sub [OF fo]) (auto simp: m' feed_ok_def)
  moreover have "slices_ok m'"
    unfolding slices_ok_def
  proof (intro conjI)
    show "map_wf (cm_slices_to_download m')" using so by (simp add: m' slices_ok_def)
    show "\<forall>(k, d) \<in> set (cm_slices_to_download m'). chunk_ok m' (unat k) d"
    proof clarify
      fix k d assume "(k, d) \<in> set (cm_slices_to_download m')"
      then have ok: "chunk_ok m (unat k) d" using slices_entry [OF so] by (simp add: m')
      then have "unat k \<noteq> n" using n by (auto simp: chunk_ok_def)
      then show "chunk_ok m' (unat k) d"
        using chunk_ok_cong [OF ok rest' len _ m'(4)] by (simp add: m')
    qed
    show "\<forall>j < length (cm_map m'). cm_map m' ! j = CHUNK_ACTIVE \<longrightarrow>
        of_nat j \<in> fst ` set (cm_slices_to_download m')"
      using so s n by (auto simp: m' slices_ok_def nth_list_update split: if_splits)
  qed
  moreover have "active_bytes m' = active_bytes m" by (simp add: active_bytes_def bytes m'(2))
  moreover have "geometry m'" using g by (simp add: geometry_def m')
  ultimately show ?thesis by blast
qed

subsection \<open>Data received\<close>

text \<open>Some of the bytes of an active chunk arrive and others are still missing.\<close>

lemma received_record:
  assumes ok: "chunk_ok m n cdi" and c: "map_of (cdi_slices cdi) cid = Some r" and more: "cdi_remains cdi - sri_size r \<noteq> 0"
    and same: "cm_map m' = cm_map m" "cm_file_size m' = cm_file_size m" "rest m' n = rest m n"
    and cdi': "cdi' = cdi\<lparr>cdi_remains := cdi_remains cdi - sri_size r,
      cdi_slices := map_erase cid (cdi_slices cdi), cdi_last_data_received := now\<rparr>"
  shows "chunk_ok m' n cdi' \<and> unat (cdi_remains cdi') + unat (sri_size r) = unat (cdi_remains cdi)"
proof -
  note o = chunk_okD [OF ok]
  have pend: "pending cdi' + unat (sri_size r) = pending cdi"
    using entry_sum_erase [OF o(3), of "\<lambda>i r. unat (sri_size r)" cid] c by (simp add: pending_def cdi')
  then have rem: "unat (cdi_remains cdi') + unat (sri_size r) = unat (cdi_remains cdi)"
    using o(4) by (simp add: cdi' unat_sub word_le_nat_alt)
  have bytes: "chunk_bytes m' n = chunk_bytes m n" by (rule chunk_bytes_cong) (simp_all add: same)
  have sub: "(j, q) \<in> set (cdi_slices cdi)" if "(j, q) \<in> set (cdi_slices cdi')" for j q
    using that by (simp add: cdi')
  have "map_wf (cdi_slices cdi')" "0 < unat (cdi_remains cdi')" using o(3) more by (simp_all add: cdi' unat_gt_0)
  then have "chunk_ok m' n cdi'"
    using o pend rem slice_below_cut [OF ok sub] slice_apart [OF ok sub sub]
    unfolding chunk_ok_def bytes same by auto
  then show ?thesis using rem by simp
qed

lemma receive_slice:
  assumes i: "chunkmap_inv m" and n: "map_of (cm_slices_to_download m) n = Some cdi"
    and c: "map_of (cdi_slices cdi) cid = Some r" and more: "cdi_remains cdi - sri_size r \<noteq> 0"
    and m': "m' = m\<lparr>cm_total_downloaded := cm_total_downloaded m + ucast (sri_size r),
      cm_slices_to_download := map_put n (cdi\<lparr>cdi_remains := cdi_remains cdi - sri_size r,
        cdi_slices := map_erase cid (cdi_slices cdi), cdi_last_data_received := now\<rparr>) (cm_slices_to_download m)\<rparr>"
  shows "chunkmap_inv m'"
proof -
  have fo: "feed_ok m" and g: "geometry m" and so: "slices_ok m" and t: "total_ok m"
    using i by (simp_all add: chunkmap_inv_def)
  have wfs: "map_wf (cm_slices_to_download m)" using so by (simp add: slices_ok_def)
  define cdi' where "cdi' = cdi\<lparr>cdi_remains := cdi_remains cdi - sri_size r,
    cdi_slices := map_erase cid (cdi_slices cdi), cdi_last_data_received := now\<rparr>"
  have ok: "chunk_ok m (unat n) cdi" using slices_entry [OF so] n by (simp add: map_of_iff [OF wfs])
  have rest': "rest m' k = rest m k" for k by (simp add: rest_def m')
  have bytes: "chunk_bytes m' k = chunk_bytes m k" for k by (rule chunk_bytes_cong) (simp_all add: m')
  have "chunk_ok m' (unat n) cdi' \<and> unat (cdi_remains cdi') + unat (sri_size r) = unat (cdi_remains cdi)"
    by (rule received_record [OF ok c more _ _ rest' cdi'_def]) (simp_all add: m')
  then have ok': "chunk_ok m' (unat n) cdi'"
    and rem: "unat (cdi_remains cdi') + unat (sri_size r) = unat (cdi_remains cdi)" by simp_all
  have sl': "cm_slices_to_download m' = map_put n cdi' (cm_slices_to_download m)" by (simp add: m' cdi'_def)
  have "slices_ok m'" by (rule slices_ok_put [OF so ok' sl']) (simp_all add: rest', simp_all add: m')
  moreover have "feed_ok m'" using fo by (intro feed_ok_sub [OF fo]) (simp_all add: m' feed_ok_def)
  moreover have "active_bytes m' = active_bytes m + unat (sri_size r)"
  proof -
    have "active_bytes m' + (chunk_bytes m (unat n) - unat (cdi_remains cdi)) =
        active_bytes m + (chunk_bytes m (unat n) - unat (cdi_remains cdi'))"
      using entry_sum_put [OF wfs, of "\<lambda>n cdi. chunk_bytes m (unat n) - unat (cdi_remains cdi)" n cdi'] n
      by (simp add: active_bytes_def bytes sl')
    moreover have "unat (cdi_remains cdi) \<le> chunk_bytes m (unat n)" using ok by (simp add: chunk_ok_def)
    ultimately show ?thesis using rem by linarith
  qed
  moreover have "done_bytes m' = done_bytes m" by (rule done_bytes_cong) (simp_all add: m')
  moreover have "geometry m'" "complete_ok m'"
    using i by (simp_all add: chunkmap_inv_def geometry_def complete_ok_def m')
  moreover have "unat (cm_total_downloaded m') = unat (cm_total_downloaded m) + unat (sri_size r)"
  proof -
    have "done_bytes m + active_bytes m + unat (sri_size r) < 18446744073709551616"
      using total_le_file [OF \<open>geometry m'\<close> \<open>slices_ok m'\<close>] calculation(3,4)
        unat_u64_less [of "cm_file_size m'"] by linarith
    then show ?thesis using t by (simp add: m' total_ok_def unat_word_ariths)
  qed
  ultimately show ?thesis using t by (simp add: chunkmap_inv_def total_ok_def)
qed

lemma dataReceived_inv:
  assumes i: "chunkmap_inv m"
  shows "chunkmap_inv (dataReceived now cid m)"
proof -
  let ?n = "ucast (cid div ucast (cm_chunk_size m)) :: u32"
  consider "dataReceived now cid m = m"
    | cdi r where "map_of (cm_slices_to_download m) ?n = Some cdi" "map_of (cdi_slices cdi) cid = Some r"
  proof (cases "map_of (cm_slices_to_download m) ?n")
    case None
    then show thesis using that(1) by (simp add: dataReceived_def Let_def)
  next
    case (Some cdi)
    then show thesis using that by (cases "map_of (cdi_slices cdi) cid") (simp_all add: dataReceived_def Let_def)
  qed
  then show ?thesis
  proof cases
    case 1
    then show ?thesis using i by simp
  next
    case 2
    define n where "n = ?n"
    note n = 2 [folded n_def]
    have so: "slices_ok m" and fo: "feed_ok m" using i by (simp_all add: chunkmap_inv_def)
    show ?thesis
    proof (cases "cdi_remains cdi - sri_size r = 0")
      case False
      then show ?thesis
        using receive_slice [OF i n False refl] n by (simp add: dataReceived_def Let_def flip: n_def)
    next
      case True
      have e: "(n, cdi) \<in> set (cm_slices_to_download m)" using n by (auto dest: map_of_SomeD)
      then have ok: "chunk_ok m (unat n) cdi" using slices_entry [OF so] by blast
      then have "unat (sri_size r) \<le> pending cdi"
        using entry_sum_member [of cid r "cdi_slices cdi" "\<lambda>i r. unat (sri_size r)"] n
        by (simp add: pending_def map_of_SomeD)
      then have z: "rest m (unat n) = 0" using ok True by (simp add: chunk_ok_def)
      have feed: "filter (\<lambda>(p, ck). unat (ck_start ck) \<noteq> unat n * csz) (cm_active_chunks_feed m) =
          cm_active_chunks_feed m"
      proof (rule filter_True, clarify)
        fix p ck assume p: "(p, ck) \<in> set (cm_active_chunks_feed m)" "unat (ck_start ck) = unat n * csz"
        show False using rest_member [OF fo p] z feed_okD [OF fo p(1)] by auto
      qed
      define q where "q = (if 0 <s n \<or> cm_file_size m > ucast CHUNKMAP_FIXED_CHUNK_SIZE
        then cm_chunks_checking_queue m @ [n] else cm_chunks_checking_queue m)"
      define s where "s = (if 0 <s n \<or> cm_file_size m > ucast CHUNKMAP_FIXED_CHUNK_SIZE
        then CHUNK_CHECKING else CHUNK_DONE)"
      define m2 where "m2 = m\<lparr>cm_total_downloaded := cm_total_downloaded m + ucast (sri_size r),
        cm_slices_to_download := map_erase n (cm_slices_to_download m),
        cm_map := (cm_map m)[unat n := s], cm_chunks_checking_queue := q\<rparr>"
      have "dataReceived now cid m = updateTotalDownloaded m2"
        using n True
        by (auto simp: dataReceived_def Let_def q_def s_def m2_def simp flip: n_def
            intro!: arg_cong [of _ _ updateTotalDownloaded] ChunkMap.equality)
      moreover have "geometry m2 \<and> feed_ok m2 \<and> slices_ok m2"
        using leave_chunk [OF i e, of s m2] feed by (simp add: m2_def s_def)
      ultimately show ?thesis using updateTotalDownloaded_inv by simp
    qed
  qed
qed

subsection \<open>The other calls\<close>

lemma not_all_done: "n < length st \<Longrightarrow> st ! n \<noteq> CHUNK_DONE \<Longrightarrow> \<not> list_all (\<lambda>s. s = CHUNK_DONE) st"
  by (auto simp: list_all_length)

lemma setChunkCheckingResult_inv:
  assumes i: "chunkmap_inv m" and n: "unat n < length (cm_map m)"
  shows "chunkmap_inv (setChunkCheckingResult n ok m)"
proof (cases "cm_map m ! unat n = CHUNK_CHECKING")
  case False
  then show ?thesis using i by (simp add: setChunkCheckingResult_def)
next
  case True
  let ?m = "setChunkCheckingResult n ok m"
  define s where "s = (if ok then CHUNK_DONE else CHUNK_OUTSTANDING)"
  have f: "cm_map ?m = (cm_map m)[unat n := s]" "cm_file_size ?m = cm_file_size m"
    "cm_chunk_size ?m = cm_chunk_size m" "cm_slices_to_download ?m = cm_slices_to_download m"
    "cm_active_chunks_feed ?m = cm_active_chunks_feed m"
    "cm_total_downloaded ?m = (if ok then cm_total_downloaded m
      else cm_total_downloaded m - ucast (sizeOfChunk m n))"
    using True by (simp_all add: setChunkCheckingResult_def Let_def s_def)
  have g: "geometry m" and t: "total_ok m" using i by (simp_all add: chunkmap_inv_def)
  have c: "geometry ?m \<and> feed_ok ?m \<and> slices_ok ?m \<and> active_bytes ?m = active_bytes m"
    using True by (intro change_state [OF i n _ _ f(1)] f(2-5)) (simp_all add: s_def)
  have d: "done_bytes ?m + chunk_bytes m (unat n) = done_bytes m + (if ok then chunk_bytes m (unat n) else 0)"
    using done_bytes_update [OF n f(1,2)] True by (simp add: is_done_or_checking_def s_def split: if_splits)
  have "total_ok ?m"
  proof (cases ok)
    case True
    then show ?thesis using t c d f(6) by (simp add: total_ok_def)
  next
    case False
    then have "unat (ucast (sizeOfChunk m n) :: u64) \<le> unat (cm_total_downloaded m)"
      using d t sizeOfChunk_bytes [OF g n] by (simp add: total_ok_def)
    then have "unat (cm_total_downloaded ?m) = unat (cm_total_downloaded m) - chunk_bytes m (unat n)"
      using False sizeOfChunk_bytes [OF g n] f(6) by (simp add: unat_sub word_le_nat_alt)
    then show ?thesis using False t c d by (simp add: total_ok_def)
  qed
  moreover have "complete_ok ?m"
  proof -
    have "\<not> list_all (\<lambda>s. s = CHUNK_DONE) (cm_map m)" using not_all_done [OF n] True by simp
    moreover have "\<not> ok \<longrightarrow> \<not> list_all (\<lambda>s. s = CHUNK_DONE) ((cm_map m)[unat n := s])"
      using n by (intro impI not_all_done [of "unat n"]) (simp_all add: s_def)
    ultimately show ?thesis
      using i True n by (auto simp: chunkmap_inv_def complete_ok_def setChunkCheckingResult_def Let_def s_def)
  qed
  ultimately show ?thesis using c by (simp add: chunkmap_inv_def)
qed

lemma remove_chunk_feed:
  assumes i: "chunkmap_inv m" and e: "(n, cdi) \<in> set (cm_slices_to_download m)"
  shows "cm_active_chunks_feed (remove_chunk n cdi m) =
    filter (\<lambda>(p, ck). unat (ck_start ck) \<noteq> unat n * csz) (cm_active_chunks_feed m)"
proof -
  have g: "geometry m" and so: "slices_ok m" using i by (simp_all add: chunkmap_inv_def)
  have "unat n * csz < 18446744073709551616"
    using geometry_bounds [OF g chunk_okD(1) [OF slices_entry [OF so e]]] unat_u64_less [of "cm_file_size m"] by linarith
  moreover have "cm_chunk_size m = 0x100000" using g by (simp add: geometry_def)
  ultimately have "unat (ucast (cm_chunk_size m) * ucast n :: u64) = unat n * csz"
    by (simp add: unat_word_ariths mult.commute)
  then show ?thesis by (auto simp: remove_chunk_def word_unat_eq_iff intro!: filter_cong)
qed

lemma remove_chunk_inv:
  assumes i: "chunkmap_inv m" and e: "(n, cdi) \<in> set (cm_slices_to_download m)"
  shows "chunkmap_inv (remove_chunk n cdi m)"
proof -
  let ?m = "remove_chunk n cdi m"
  have g: "geometry m" and t: "total_ok m" and so: "slices_ok m" using i by (simp_all add: chunkmap_inv_def)
  have ok: "chunk_ok m (unat n) cdi" using slices_entry [OF so e] .
  then have n: "unat n < length (cm_map m)" "cm_map m ! unat n = CHUNK_ACTIVE"
    and rem: "unat (cdi_remains cdi) \<le> chunk_bytes m (unat n)" by (simp_all add: chunk_ok_def)
  note feed = remove_chunk_feed [OF i e]
  have l: "geometry ?m \<and> feed_ok ?m \<and> slices_ok ?m \<and> done_bytes ?m = done_bytes m \<and>
      active_bytes ?m + (chunk_bytes m (unat n) - unat (cdi_remains cdi)) = active_bytes m"
    using leave_chunk [OF i e, of CHUNK_OUTSTANDING ?m] feed
    by (simp add: remove_chunk_def is_done_or_checking_def)
  have diff: "unat (sizeOfChunk m n - cdi_remains cdi) = chunk_bytes m (unat n) - unat (cdi_remains cdi)"
    using sizeOfChunk_bytes [OF g n(1)] rem by (simp add: unat_sub word_le_nat_alt)
  have "unat (cm_total_downloaded ?m) =
      unat (cm_total_downloaded m) - (chunk_bytes m (unat n) - unat (cdi_remains cdi))"
    using t l diff by (simp add: remove_chunk_def total_ok_def) (subst unat_sub; simp add: word_le_nat_alt)
  then have "total_ok ?m" using t l unfolding total_ok_def by linarith
  moreover have "complete_ok ?m"
    using i n not_all_done [OF n(1)] not_all_done [of "unat n" "cm_map ?m"]
    by (auto simp: chunkmap_inv_def complete_ok_def remove_chunk_def)
  ultimately show ?thesis using l by (simp add: chunkmap_inv_def)
qed

definition inactive :: "rstime_t \<Rightarrow> u32 \<times> ChunkDownloadInfo \<Rightarrow> bool" where
  "inactive now e = (now - cdi_last_data_received (snd e) > INACTIVE_CHUNK_TIME_LAPSE)"

text \<open>The loop, with any property that the removal of a chunk keeps.\<close>

lemma removeInactiveChunks_fold:
  assumes keeps: "\<And>m n cdi. chunkmap_inv m \<Longrightarrow> Q m \<Longrightarrow> (n, cdi) \<in> set (cm_slices_to_download m) \<Longrightarrow>
      Q (remove_chunk n cdi m)"
    and "chunkmap_inv m" "Q m" "set es \<subseteq> set (cm_slices_to_download m)" "distinct (map fst es)"
    "foldl (\<lambda>(to_remove, m') (n, cdi).
       if now - cdi_last_data_received cdi > INACTIVE_CHUNK_TIME_LAPSE
       then (to_remove @ map fst (cdi_slices cdi), remove_chunk n cdi m')
       else (to_remove, m')) (t, m) es = (t', m')"
  shows "chunkmap_inv m' \<and> Q m' \<and>
    t' = t @ concat (map (\<lambda>(n, cdi). map fst (cdi_slices cdi)) (filter (inactive now) es)) \<and>
    set (cm_slices_to_download m') = set (cm_slices_to_download m) - set (filter (inactive now) es)"
  using assms(2-)
proof (induction es arbitrary: t m)
  case (Cons e es)
  obtain n cdi where e: "e = (n, cdi)" by (cases e)
  show ?case
  proof (cases "inactive now e")
    case True
    let ?m = "remove_chunk n cdi m"
    have in_m: "(n, cdi) \<in> set (cm_slices_to_download m)" using Cons.prems e by simp
    have wf: "map_wf (cm_slices_to_download m)" using Cons.prems by (simp add: chunkmap_inv_def slices_ok_def)
    have sl: "set (cm_slices_to_download ?m) = set (cm_slices_to_download m) - {e}"
      using in_m by (auto simp: remove_chunk_def e dest: map_wf_unique [OF wf in_m])
    have "set es \<subseteq> set (cm_slices_to_download ?m)" using Cons.prems sl e by (auto simp: image_iff)
    moreover have "distinct (map fst es)" using Cons.prems by simp
    ultimately show ?thesis
      using Cons.IH [OF remove_chunk_inv [OF Cons.prems(1) in_m] keeps [OF Cons.prems(1,2) in_m], of "t @ map fst (cdi_slices cdi)"]
        Cons.prems(5) True sl by (auto simp: e inactive_def)
  next
    case False
    then show ?thesis using Cons.IH [OF Cons.prems(1,2)] Cons.prems by (simp add: e inactive_def)
  qed
qed simp

lemma removeInactiveChunks_keeps:
  assumes "chunkmap_inv m" "Q m" "removeInactiveChunks now m = (t, m')"
    and "\<And>m n cdi. chunkmap_inv m \<Longrightarrow> Q m \<Longrightarrow> (n, cdi) \<in> set (cm_slices_to_download m) \<Longrightarrow> Q (remove_chunk n cdi m)"
  shows "Q m'"
proof -
  have "distinct (map fst (cm_slices_to_download m))"
    using assms(1) by (simp add: chunkmap_inv_def slices_ok_def map_wf_distinct)
  from removeInactiveChunks_fold [where Q = Q, OF assms(4,1,2) subset_refl this
      assms(3) [unfolded removeInactiveChunks_def]]
  show ?thesis by blast
qed

lemma removeInactiveChunks_facts:
  assumes i: "chunkmap_inv m" and r: "removeInactiveChunks now m = (t, m')"
  shows "chunkmap_inv m' \<and>
    t = concat (map (\<lambda>(n, cdi). map fst (cdi_slices cdi)) (filter (inactive now) (cm_slices_to_download m))) \<and>
    set (cm_slices_to_download m') = set (cm_slices_to_download m) - {e. inactive now e}"
proof -
  have "distinct (map fst (cm_slices_to_download m))"
    using i by (simp add: chunkmap_inv_def slices_ok_def map_wf_distinct)
  from removeInactiveChunks_fold [where Q = "\<lambda>_. True", OF _ i _ subset_refl this r [unfolded removeInactiveChunks_def]]
  show ?thesis by auto
qed

lemma find_in: "find P xs = Some x \<Longrightarrow> x \<in> set xs"
  by (auto simp: find_Some_iff)

lemma asked_again_record:
  assumes ok: "chunk_ok m n cdi" and q: "(sid, q) \<in> set (cdi_slices cdi)" and size: "sri_size q' = sri_size q"
    and same: "cm_map m' = cm_map m" "cm_file_size m' = cm_file_size m" "rest m' n = rest m n"
    and cdi': "cdi' = cdi\<lparr>cdi_slices := map_put sid q' (cdi_slices cdi)\<rparr>"
  shows "chunk_ok m' n cdi'"
proof -
  note o = chunk_okD [OF ok]
  have pend: "pending cdi' = pending cdi"
    using entry_sum_put [OF o(3), of "\<lambda>i r. unat (sri_size r)" sid q'] q
    by (simp add: pending_def cdi' size map_of_iff [OF o(3), THEN iffD2])
  have old: "\<exists>r0. (j, r0) \<in> set (cdi_slices cdi) \<and> sri_size r0 = sri_size r"
    if "(j, r) \<in> set (cdi_slices cdi')" for j r
    using that q size o(3) by (cases "j = sid") (auto simp: cdi')
  have bytes: "chunk_bytes m' n = chunk_bytes m n" by (rule chunk_bytes_cong) (simp_all add: same)
  have "n * csz \<le> unat j \<and> unat j < n * csz + chunk_bytes m n \<and>
      unat j + unat (sri_size r) + rest m n \<le> n * csz + chunk_bytes m n"
    if "(j, r) \<in> set (cdi_slices cdi')" for j r
    using old [OF that] slice_below_cut [OF ok] by metis
  moreover have "unat j + unat (sri_size r) \<le> unat k"
    if "(j, r) \<in> set (cdi_slices cdi')" "(k, r2) \<in> set (cdi_slices cdi')" "j < k" for j r k r2
    using old [OF that(1)] old [OF that(2)] slice_apart [OF ok _ _ that(3)] by metis
  moreover have "map_wf (cdi_slices cdi')" "cdi_remains cdi' = cdi_remains cdi" using o(3) by (simp_all add: cdi')
  ultimately show ?thesis using o unfolding chunk_ok_def bytes same pend by auto
qed

lemma reAskPendingChunk_shape:
  assumes r: "reAskPendingChunk now peer m = (x, m')" and ne: "m' \<noteq> m"
  obtains n cdi sid q q' where "(n, cdi) \<in> set (cm_slices_to_download m)" "(sid, q) \<in> set (cdi_slices cdi)"
    "sri_size q' = sri_size q"
    "m' = m\<lparr>cm_slices_to_download :=
       map_put n (cdi\<lparr>cdi_slices := map_put sid q' (cdi_slices cdi)\<rparr>) (cm_slices_to_download m)\<rparr>"
proof -
  let ?all = "concat (map (\<lambda>(n, cdi). map (\<lambda>(sid, r). (n, cdi, sid, r)) (cdi_slices cdi)) (cm_slices_to_download m))"
  obtain n cdi sid q where f: "find (\<lambda>(n, cdi, sid, r). reaskable now peer r) ?all = Some (n, cdi, sid, q)"
    using r ne by (auto simp: reAskPendingChunk_def split: if_splits option.splits)
  define q' where "q' = q\<lparr>sri_request_time := now, sri_peers := set_insert peer (sri_peers q)\<rparr>"
  have "m' = m\<lparr>cm_slices_to_download :=
       map_put n (cdi\<lparr>cdi_slices := map_put sid q' (cdi_slices cdi)\<rparr>) (cm_slices_to_download m)\<rparr>"
    using r f ne by (auto simp: reAskPendingChunk_def q'_def split: if_splits)
  moreover have "(n, cdi, sid, q) \<in> set ?all" by (rule find_in [OF f])
  then have "(n, cdi) \<in> set (cm_slices_to_download m)" "(sid, q) \<in> set (cdi_slices cdi)" by auto
  moreover have "sri_size q' = sri_size q" by (simp add: q'_def)
  ultimately show thesis using that by blast
qed

lemma reAskPendingChunk_inv:
  assumes i: "chunkmap_inv m" and r: "reAskPendingChunk now peer m = (x, m')"
  shows "chunkmap_inv m'"
proof (cases "m' = m")
  case True
  then show ?thesis using i by simp
next
  case False
  obtain n cdi sid q q' where n: "(n, cdi) \<in> set (cm_slices_to_download m)" and q: "(sid, q) \<in> set (cdi_slices cdi)"
    and q': "sri_size q' = sri_size q"
    and e: "m' = m\<lparr>cm_slices_to_download :=
       map_put n (cdi\<lparr>cdi_slices := map_put sid q' (cdi_slices cdi)\<rparr>) (cm_slices_to_download m)\<rparr>"
    by (rule reAskPendingChunk_shape [OF r False])
  define cdi' where "cdi' = cdi\<lparr>cdi_slices := map_put sid q' (cdi_slices cdi)\<rparr>"
  have m': "m' = m\<lparr>cm_slices_to_download := map_put n cdi' (cm_slices_to_download m)\<rparr>" by (simp add: e cdi'_def)
  have so: "slices_ok m" using i by (simp add: chunkmap_inv_def)
  then have wfs: "map_wf (cm_slices_to_download m)" by (simp add: slices_ok_def)
  have bytes: "chunk_bytes m' k = chunk_bytes m k" for k by (rule chunk_bytes_cong) (simp_all add: m')
  have rest': "rest m' k = rest m k" for k by (simp add: rest_def m')
  have "chunk_ok m' (unat n) cdi'"
    by (rule asked_again_record [OF slices_entry [OF so n] q q' _ _ rest' cdi'_def]) (simp_all add: m')
  then have "slices_ok m'"
    by (rule slices_ok_put [OF so]) (simp_all add: rest', simp_all add: m')
  moreover have "feed_ok m'"
    by (rule feed_ok_sub [of m]) (use i in \<open>simp_all add: m' chunkmap_inv_def feed_ok_def\<close>)
  moreover have "active_bytes m' = active_bytes m"
    using entry_sum_put [OF wfs, of "\<lambda>n cdi. chunk_bytes m (unat n) - unat (cdi_remains cdi)" n cdi'] n
    by (simp add: active_bytes_def bytes map_of_iff [OF wfs, THEN iffD2]) (simp add: m' cdi'_def)
  moreover have "done_bytes m' = done_bytes m" by (rule done_bytes_cong) (simp_all add: m')
  ultimately show ?thesis
    using i by (simp add: chunkmap_inv_def total_ok_def complete_ok_def geometry_def m')
qed

text \<open>While nothing is being downloaded, all states can be replaced.\<close>

lemma idle_feed: "chunkmap_inv m \<Longrightarrow> cm_slices_to_download m = [] \<Longrightarrow> cm_active_chunks_feed m = []"
  using feed_okD [of m] by (cases "cm_active_chunks_feed m") (fastforce simp: chunkmap_inv_def)+

lemma idle_ok:
  assumes "geometry m" "cm_slices_to_download m = []" "cm_active_chunks_feed m = []" "CHUNK_ACTIVE \<notin> set (cm_map m)"
  shows "feed_ok m \<and> slices_ok m \<and> active_bytes m = 0"
  using assms by (auto simp: feed_ok_def slices_ok_def active_bytes_def in_set_conv_nth)

lemma setAvailabilityMap_inv:
  assumes i: "chunkmap_inv m" and idle: "cm_slices_to_download m = []"
  shows "chunkmap_inv (setAvailabilityMap cmap m)"
proof (cases "drop_bit 5 (int (length (cm_map m)) - 1) \<ge> int (length cmap)")
  case True
  then show ?thesis using i by (simp add: setAvailabilityMap_def)
next
  case False
  let ?m = "setAvailabilityMap cmap m" and ?l = "length (cm_map m)"
  let ?has = "\<lambda>i. cmap_index cmap (of_nat i)"
  have g: "geometry m" using i by (simp add: chunkmap_inv_def)
  have f: "cm_map ?m = map (\<lambda>i. if ?has i then CHUNK_DONE else CHUNK_OUTSTANDING) [0..<?l]"
    "cm_file_size ?m = cm_file_size m" "cm_chunk_size ?m = cm_chunk_size m" "cm_slices_to_download ?m = []"
    "cm_active_chunks_feed ?m = []" "cm_file_is_complete ?m = list_all ?has [0..<?l]"
    "cm_total_downloaded ?m = of_nat (\<Sum>i < ?l. if ?has i then chunk_bytes m i else 0)"
    using False raw_total [OF g, of ?has] idle idle_feed [OF i idle] by (simp_all add: setAvailabilityMap_def)
  have g': "geometry ?m" using g by (simp add: geometry_def f)
  have o: "feed_ok ?m \<and> slices_ok ?m \<and> active_bytes ?m = 0"
    using f by (intro idle_ok [OF g']) auto
  have d: "done_bytes ?m = (\<Sum>i < ?l. if ?has i then chunk_bytes m i else 0)"
    unfolding done_bytes_def
    by (rule sum.cong) (auto simp: f is_done_or_checking_def chunk_bytes_def)
  have "total_ok ?m" using fits_total [OF g'] o d by (simp add: total_ok_def f)
  moreover have "complete_ok ?m" by (auto simp: complete_ok_def f list_all_iff)
  ultimately show ?thesis using o g' by (simp add: chunkmap_inv_def)
qed

lemma forceCheck_inv:
  assumes i: "chunkmap_inv m" and idle: "cm_slices_to_download m = []"
  shows "chunkmap_inv (forceCheck m)"
proof -
  let ?m = "m\<lparr>cm_map := replicate (length (cm_map m)) CHUNK_CHECKING,
    cm_chunks_checking_queue := cm_chunks_checking_queue m @ map of_nat [0..<length (cm_map m)]\<rparr>"
  have g: "geometry ?m" using i by (simp add: chunkmap_inv_def geometry_def)
  have "feed_ok ?m \<and> slices_ok ?m \<and> active_bytes ?m = 0"
    using idle idle_feed [OF i idle] by (intro idle_ok [OF g]) auto
  then show ?thesis using g by (simp add: forceCheck_def updateTotalDownloaded_inv)
qed

lemma div_round_up: "0 < b \<Longrightarrow> (a + (b - 1)) div b = a div b + (if a mod b = 0 then 0 else 1 :: nat)"
proof -
  assume b: "0 < b"
  have e: "a + (b - 1) = b * (a div b) + (a mod b + (b - 1))" by (simp add: mult_div_mod_eq flip: add.assoc)
  then have "(a + (b - 1)) div b = a div b + (a mod b + (b - 1)) div b"
    using b by (subst e, subst div_mult_self4) simp_all
  moreover have "a mod b < b" using b by simp
  then have "(a mod b + (b - 1)) div b = (if a mod b = 0 then 0 else 1)"
    by (auto intro!: div_nat_eqI)
  ultimately show ?thesis by simp
qed

lemma make_ChunkMap_inv:
  assumes "unat s < 2 ^ 51"
  shows "chunkmap_inv (make_ChunkMap s av)"
proof -
  let ?m = "make_ChunkMap s av"
  have n: "unat (s div 0x100000 + (if s mod 0x100000 \<noteq> 0 then 1 else 0)) = (unat s + (csz - 1)) div csz"
  proof -
    have "unat (s mod 0x100000) = unat s mod csz" "unat (s div 0x100000) = unat s div csz"
      by (simp_all add: unat_mod unat_div)
    moreover have "(unat s + (csz - 1)) div csz = unat s div csz + (if unat s mod csz = 0 then 0 else 1)"
      by (rule div_round_up) simp
    ultimately show ?thesis using assms by (auto simp: unat_word_ariths word_unat_eq_iff)
  qed
  have g: "geometry ?m"
    using assms n by (simp add: geometry_def make_ChunkMap_def Let_def)
  have "feed_ok ?m \<and> slices_ok ?m \<and> active_bytes ?m = 0"
    by (intro idle_ok [OF g]) (auto simp: make_ChunkMap_def Let_def)
  moreover have "done_bytes ?m = 0"
    by (simp add: done_bytes_def make_ChunkMap_def Let_def is_done_or_checking_def)
  moreover have "complete_ok ?m" by (auto simp: complete_ok_def make_ChunkMap_def Let_def list_all_iff)
  ultimately show ?thesis
    using g by (simp add: chunkmap_inv_def total_ok_def) (simp add: make_ChunkMap_def Let_def)
qed

end
