(* ===== verification/Chunk_Props.thy ===== *)
theory Chunk_Props
  imports Chunk_Run "HOL-Library.Multiset"
begin

text \<open>
  What holds of \<^verbatim>\<open>ftChunkMap\<close> for its callers: the step relation of its calls, the accounting of every
  reachable state, the slices that are asked, the choice of chunks, and the compressed maps.
\<close>

subsection \<open>Compressed maps\<close>

lemma low5: "unat (i AND 31 :: u32) = unat i mod 32"
proof -
  have "i AND 31 = take_bit 5 i" by (simp add: take_bit_eq_mask mask_eq_exp_minus_1)
  then show ?thesis by (simp only: unsigned_take_bit_eq) (simp add: take_bit_eq_mod)
qed

lemma high5: "unat (drop_bit 5 i :: u32) = unat i div 32"
  by (simp add: drop_bit_eq_div unat_div)

lemma cmap_index_bit: "cmap_index m i = bit (m ! (unat i div 32)) (unat i mod 32)"
  by (simp add: cmap_index_def high5 low5 word_gt_0 push_bit_of_1 and_exp_eq_0_iff_not_bit)

lemma length_cmap_set [simp]: "length (cmap_set j m) = length m"
  by (simp add: cmap_set_def)

lemma cmap_index_set:
  assumes "unat j div 32 < length m" "unat i div 32 < length m"
  shows "cmap_index (cmap_set j m) i = (i = j \<or> cmap_index m i)"
proof -
  have "i = j \<longleftrightarrow> unat i div 32 = unat j div 32 \<and> unat i mod 32 = unat j mod 32"
    by (metis div_mult_mod_eq word_unat_eq_iff)
  then show ?thesis
    using assms by (auto simp: cmap_index_bit cmap_set_def high5 low5 nth_list_update bit_or_iff bit_push_bit_iff
        push_bit_of_1 bit_exp_iff)
qed

lemma cmap_index_reset:
  assumes "unat j div 32 < length m" "unat i div 32 < length m"
  shows "cmap_index (cmap_reset j m) i = (i \<noteq> j \<and> cmap_index m i)"
proof -
  have "i = j \<longleftrightarrow> unat i div 32 = unat j div 32 \<and> unat i mod 32 = unat j mod 32"
    by (metis div_mult_mod_eq word_unat_eq_iff)
  then show ?thesis
    using assms by (auto simp: cmap_index_bit cmap_reset_def high5 low5 nth_list_update bit_and_iff bit_not_iff
        push_bit_of_1 bit_exp_iff)
qed

lemma unat_getCompressedSize: "unat (getCompressedSize n) = (unat n + 31) div 32"
proof -
  have "unat n div 32 < 134217728" using unat_u32_less [of n] by simp
  then have "unat (getCompressedSize n) = unat n div 32 + (if unat n mod 32 = 0 then 0 else 1)"
    using low5 [of n] high5 [of n] by (auto simp: getCompressedSize_def unat_word_ariths word_unat_eq_iff)
  then show ?thesis using div_round_up [of 32 "unat n"] by simp
qed

lemma word_index:
  assumes "length st < 4294967296" "i < length st"
  shows "i div 32 < (length st + 31) div 32" "unat (of_nat i :: u32) = i"
  using assms by (auto simp: unat_of_nat)

lemma cmap_of_states_prefix:
  assumes "length st < 4294967296" "n \<le> length st"
  defines "m \<equiv> fold (\<lambda>i m. if st ! i = CHUNK_DONE then cmap_set (of_nat i) m else m) [0..<n]
    (replicate ((length st + 31) div 32) 0)"
  shows "length m = (length st + 31) div 32 \<and>
    (\<forall>i < length st. cmap_index m (of_nat i) = (i < n \<and> st ! i = CHUNK_DONE))"
  using assms(2) unfolding m_def
proof (induction n)
  case 0
  then show ?case using word_index [OF assms(1)] by (simp add: cmap_index_bit)
next
  case (Suc n)
  then show ?case
    using word_index [OF assms(1)]
    by (auto simp: cmap_index_set less_Suc_eq word_unat_eq_iff)
qed

text \<open>A compressed map made from the states of the chunks answers for each chunk whether it is done:
  compressing loses nothing that is read back, for any number of chunks a 32-bit word can count.\<close>

theorem compressed_map_round_trip:
  assumes "length st < 4294967296" "i < length st"
  shows "cmap_index (cmap_of_states st) (of_nat i) = (st ! i = CHUNK_DONE)"
  using cmap_of_states_prefix [OF assms(1) le_refl] assms
  by (simp add: cmap_of_states_def unat_getCompressedSize unat_of_nat)

lemma compressed_map_round_trip_witness:
  "cmap_index (cmap_of_states [CHUNK_DONE, CHUNK_ACTIVE, CHUNK_DONE]) (of_nat 2) = True"
  using compressed_map_round_trip [of "[CHUNK_DONE, CHUNK_ACTIVE, CHUNK_DONE]" 2] by simp

subsection \<open>Choosing a chunk\<close>

lemma count_available_counts:
  fixes m :: ChunkMap and sci :: SourceChunksInfo
  defines "f \<equiv> \<lambda>(avail, before) i. if cm_map m ! i = CHUNK_OUTSTANDING
    then (if sci_is_full sci \<or> cmap_index (sci_cmap sci) (of_nat i) then avail + 1 else avail, before)
    else (avail, avail :: u32)"
  shows "unat a + length is < 4294967296 \<Longrightarrow> unat b \<le> unat a \<Longrightarrow> foldl f (a, b) is = (a', b') \<Longrightarrow>
    unat a' = unat a + length (filter (chunk_wanted m sci) is) \<and> unat b' \<le> unat a'"
proof (induction "is" arbitrary: a b)
  case (Cons i "is")
  obtain a1 b1 where s: "f (a, b) i = (a1, b1)" by (cases "f (a, b) i")
  have "unat (a + 1) = Suc (unat a)" using Cons.prems by (simp add: unat_word_ariths)
  then have a1: "unat a1 = unat a + (if chunk_wanted m sci i then 1 else 0)" "unat b1 \<le> unat a1"
    using s Cons.prems(2) by (auto simp: f_def chunk_wanted_def split: if_splits)
  then have "unat a1 + length is < 4294967296" using Cons.prems by auto
  from Cons.IH [OF this a1(2)] Cons.prems(3) s a1 show ?case by auto
qed simp

lemma nth_wanted_complete:
  "unat j + length is < 4294967296 \<Longrightarrow> unat j \<le> unat chosen \<Longrightarrow>
   unat chosen < unat j + length (filter (chunk_wanted m sci) is) \<Longrightarrow> \<exists>i. nth_wanted m sci chosen j is = Some i"
proof (induction "is" arbitrary: j)
  case (Cons i "is")
  have j: "unat (j + 1) = Suc (unat j)" using Cons.prems(1) by (simp add: unat_word_ariths)
  show ?case
  proof (cases "chunk_wanted m sci i \<and> j \<noteq> chosen")
    case True
    then have "unat j \<noteq> unat chosen" by (simp add: word_unat_eq_iff)
    then show ?thesis using True Cons.IH [of "j + 1"] Cons.prems j by simp
  next
    case False
    then show ?thesis using Cons.IH [of j] Cons.prems by auto
  qed
qed simp

lemma choose_chunk_less:
  assumes "0 < available" "unat before \<le> unat available" "unat available < 4294967246"
  shows "unat (choose_chunk rnd s available before) < unat available"
proof -
  have m: "unat (rnd mod k) < unat k" if "0 < k" for k :: u32
    using that by (simp add: unat_mod word_less_nat_alt)
  have "unat (before + 50) = unat before + 50" using assms by (simp add: unat_word_ariths)
  then have "0 < min available (before + 50)" using assms(1) by (simp add: min_def word_less_nat_alt)
  from m [OF this] have "unat (rnd mod min available (before + 50)) < unat available"
    by (rule less_le_trans) (simp add: min_def word_le_nat_alt)
  then show ?thesis using assms(1) m [of available] by (cases s) (simp_all add: choose_chunk_def word_less_nat_alt)
qed

lemma getAvailableChunk_complete:
  assumes g: "geometry m" and a: "getAvailableChunk now rnd p m = (c, fl, m')"
    and sci: "sci = fst (getSourceChunksInfo p m)"
  shows "if \<exists>i < length (cm_map m). chunk_wanted m sci i then chunk_wanted m sci (unat c) \<and> unat c < length (cm_map m)
    else unat c = length (cm_map m)"
proof -
  let ?all = "[0..<length (cm_map m)]"
  obtain m1 where s: "getSourceChunksInfo p m = (sci, m1)" using sci by (cases "getSourceChunksInfo p m") simp
  obtain x where m1: "m1 = m\<lparr>cm_peers_chunks_availability := x\<rparr>" by (rule getSourceChunksInfo_frame [OF s])
  have len: "length (cm_map m) \<le> 2147483648" using geometry_length [OF g] by simp
  have wanted: "chunk_wanted (m\<lparr>cm_peers_chunks_availability := y\<rparr>) = chunk_wanted m" for y
    by (intro ext) (simp add: chunk_wanted_def)
  have nth: "nth_wanted (m\<lparr>cm_peers_chunks_availability := y\<rparr>) sci k j is = nth_wanted m sci k j is" for y k j "is"
    by (induction "is" arbitrary: j) (simp_all add: wanted)
  obtain av bf where cnt: "count_available m sci = (av, bf)" by (cases "count_available m sci")
  have cnt': "count_available (m\<lparr>cm_peers_chunks_availability := y\<rparr>) sci = (av, bf)" for y
    using cnt by (simp add: count_available_def)
  have av: "unat av = length (filter (chunk_wanted m sci) ?all)" "unat bf \<le> unat av"
    using count_available_counts [of 0 ?all 0 m sci av bf] cnt len by (simp_all add: count_available_def)
  have some: "(\<exists>i < length (cm_map m). chunk_wanted m sci i) \<longleftrightarrow> 0 < av"
    using av(1) by (auto simp: word_less_nat_alt filter_empty_conv)
  define k where "k = choose_chunk rnd (cm_strategy m) av bf"
  have c: "c = (case if 0 < av then nth_wanted m sci k 0 ?all else None of
      Some i \<Rightarrow> of_nat i | None \<Rightarrow> of_nat (length (cm_map m)))"
    using a by (auto simp: getAvailableChunk_def s m1 Let_def cnt' nth k_def split: if_splits cong: option.case_cong)
  show ?thesis
  proof (cases "0 < av")
    case True
    have "length (filter (chunk_wanted m sci) ?all) \<le> length ?all" by (rule length_filter_le)
    then have "unat av \<le> length (cm_map m)" using av(1) by simp
    then have "unat k < unat av" using True av(2) len by (auto simp: k_def intro!: choose_chunk_less)
    then obtain i where i: "nth_wanted m sci k 0 ?all = Some i"
      using nth_wanted_complete [of 0 ?all k m sci] av len by auto
    from nth_wanted_sound [OF this] have "i < length (cm_map m)" "chunk_wanted m sci i" by auto
    moreover from this have "unat c = i" using c i True len by (simp add: unat_of_nat)
    ultimately show ?thesis using some True by auto
  next
    case False
    then show ?thesis using c some len by (simp add: unat_of_nat)
  qed
qed

subsection \<open>The queue of chunks to check\<close>

declare take_checks.simps [simp del]

lemma take_checks_empty [simp]: "take_checks [] out = out"
  by (subst take_checks.simps) simp

lemma take_checks_mset: "mset (take_checks q out) = mset q + mset out"
proof (induction q out rule: take_checks.induct)
  case (1 q out)
  show ?case
  proof (cases "q = []")
    case True
    then show ?thesis by (subst take_checks.simps) simp
  next
    case False
    have "mset (butlast (q[0 := last q])) + {#hd q#} = mset q"
    proof (cases q rule: rev_cases)
      case (snoc q' x)
      then show ?thesis by (cases q') simp_all
    qed (use False in simp)
    with 1 False show ?thesis by (subst take_checks.simps) (simp flip: add.assoc)
  qed
qed

text \<open>The loop of \<^verbatim>\<open>getChunksToCheck\<close>, which takes the front of the queue and moves the back to the
  front, ends with the queue empty and has handed out every queued chunk exactly as often as it was
  queued.\<close>

theorem getChunksToCheck_drains:
  "case getChunksToCheck m of (cs, m') \<Rightarrow>
     mset cs = mset (cm_chunks_checking_queue m) \<and> cm_chunks_checking_queue m' = [] \<and>
     getChunksToCheck m' = ([], m')"
  by (simp add: getChunksToCheck_def take_checks_mset)

subsection \<open>Calls\<close>

datatype chunkmap_call =
    GetDataChunk "u32 \<Rightarrow> u32 \<Rightarrow> bool" rstime_t u32 RsPeerId u32
  | DataReceived rstime_t u64
  | ReAskPendingChunk rstime_t RsPeerId
  | RemoveInactiveChunks rstime_t
  | GetChunksToCheck
  | SetChunkCheckingResult u32 bool
  | SetPeerAvailabilityMap rstime_t RsPeerId CompressedChunkMap
  | RemoveFileSource RsPeerId
  | SetStrategy ChunkStrategy
  | SetAvailabilityMap CompressedChunkMap
  | ForceCheck

fun chunkmap_do :: "chunkmap_call \<Rightarrow> ChunkMap \<Rightarrow> ChunkMap" where
  "chunkmap_do (GetDataChunk slow now rnd p hint) m = snd (snd (getDataChunk slow now rnd p hint False m))"
| "chunkmap_do (DataReceived now cid) m = dataReceived now cid m"
| "chunkmap_do (ReAskPendingChunk now p) m = snd (reAskPendingChunk now p m)"
| "chunkmap_do (RemoveInactiveChunks now) m = snd (removeInactiveChunks now m)"
| "chunkmap_do GetChunksToCheck m = snd (getChunksToCheck m)"
| "chunkmap_do (SetChunkCheckingResult n ok) m = setChunkCheckingResult n ok m"
| "chunkmap_do (SetPeerAvailabilityMap now p cmap) m = setPeerAvailabilityMap now p cmap m"
| "chunkmap_do (RemoveFileSource p) m = removeFileSource p m"
| "chunkmap_do (SetStrategy s) m = setStrategy s m"
| "chunkmap_do (SetAvailabilityMap cmap) m = setAvailabilityMap cmap m"
| "chunkmap_do ForceCheck m = forceCheck m"

text \<open>What the callers have to respect: a checking result is for a chunk of the file, and all states are
  replaced only while nothing is being downloaded.\<close>

fun chunkmap_allowed :: "chunkmap_call \<Rightarrow> ChunkMap \<Rightarrow> bool" where
  "chunkmap_allowed (SetChunkCheckingResult n ok) m = (unat n < length (cm_map m))"
| "chunkmap_allowed (SetAvailabilityMap cmap) m = (cm_slices_to_download m = [])"
| "chunkmap_allowed ForceCheck m = (cm_slices_to_download m = [])"
| "chunkmap_allowed c m = True"

inductive chunkmap_step :: "ChunkMap \<Rightarrow> chunkmap_call \<Rightarrow> ChunkMap \<Rightarrow> bool" where
  call: "chunkmap_allowed c m \<Longrightarrow> chunkmap_step m c (chunkmap_do c m)"

inductive_cases chunkmap_stepE: "chunkmap_step m c m'"

inductive chunkmap_new :: "ChunkMap \<Rightarrow> bool" where
  new: "unat s < 2 ^ 51 \<Longrightarrow> chunkmap_new (make_ChunkMap s availability)"

inductive_cases chunkmap_newE: "chunkmap_new m"

lemma chunkmap_do_inv:
  assumes "chunkmap_inv m" "chunkmap_allowed c m"
  shows "chunkmap_inv (chunkmap_do c m)"
proof (cases c)
  case (GetDataChunk slow now rnd p hint)
  obtain r nd m' where "getDataChunk slow now rnd p hint False m = (r, nd, m')" by (metis prod_cases3)
  with getDataChunk_inv [OF assms(1) this] GetDataChunk show ?thesis by simp
next
  case (ReAskPendingChunk now p)
  then show ?thesis using reAskPendingChunk_inv [OF assms(1)] by (simp add: prod_eq_iff)
next
  case (RemoveInactiveChunks now)
  then show ?thesis using removeInactiveChunks_facts [OF assms(1)] by (metis chunkmap_do.simps(4) surjective_pairing)
qed (use assms in \<open>simp_all add: dataReceived_inv setChunkCheckingResult_inv setAvailabilityMap_inv
    forceCheck_inv getChunksToCheck_def setPeerAvailabilityMap_def removeFileSource_def setStrategy_def Let_def\<close>)

text \<open>The words in which a source's map is indexed: their number is that of the file's chunks, so reading
  the bit of a chunk never leaves the vector.\<close>

definition source_maps_fit :: "ChunkMap \<Rightarrow> bool" where
  "source_maps_fit m =
     list_all (\<lambda>(p, sci). length (sci_cmap sci) = (length (cm_map m) + 31) div 32)
       (cm_peers_chunks_availability m)"

lemma fit_put: "list_all Q es \<Longrightarrow> Q (p, sci) \<Longrightarrow> list_all Q (map_put p sci es)"
  by (induction p sci es rule: map_put.induct) auto

lemma fit_erase: "list_all Q es \<Longrightarrow> list_all Q (map_erase p es)"
  by (auto simp: map_erase_def list_all_iff)

lemma fit_frame:
  "source_maps_fit m \<Longrightarrow> length (cm_map m') = length (cm_map m) \<Longrightarrow>
   cm_peers_chunks_availability m' = cm_peers_chunks_availability m \<Longrightarrow> source_maps_fit m'"
  by (simp add: source_maps_fit_def)

lemma getSourceChunksInfo_fit:
  assumes f: "source_maps_fit m" and l: "length (cm_map m) \<le> 2 ^ 31" and s: "getSourceChunksInfo p m = (sci, m')"
  shows "source_maps_fit m' \<and> length (sci_cmap sci) = (length (cm_map m) + 31) div 32"
proof (cases "map_of (cm_peers_chunks_availability m) p")
  case None
  have "unat (of_nat (length (cm_map m)) :: u32) = length (cm_map m)" using l by (simp add: unat_of_nat)
  then have "length (sci_cmap sci) = (length (cm_map m) + 31) div 32"
    using s None by (auto simp: getSourceChunksInfo_def Let_def unat_getCompressedSize split: if_splits)
  then show ?thesis
    using f s None by (auto simp: getSourceChunksInfo_def Let_def source_maps_fit_def intro!: fit_put)
next
  case (Some x)
  then show ?thesis
    using f s by (auto simp: getSourceChunksInfo_def source_maps_fit_def list_all_iff dest!: map_of_SomeD)
qed

lemma foldl_keeps: "P s \<Longrightarrow> (\<And>s e. P s \<Longrightarrow> P (f s e)) \<Longrightarrow> P (foldl f s es)"
  by (induction es arbitrary: s) auto

lemma scan_feed_peers:
  "cm_peers_chunks_availability (snd (snd (scan_feed slow hint sci pits fs m))) = cm_peers_chunks_availability m \<and>
   cm_map (snd (snd (scan_feed slow hint sci pits fs m))) = cm_map m"
  by (induction slow hint sci pits fs m rule: scan_feed.induct) (auto simp: Let_def)

lemma take_slice_peers:
  "cm_peers_chunks_availability (snd (take_slice now p hint q ck m)) = cm_peers_chunks_availability m \<and>
   cm_map (snd (take_slice now p hint q ck m)) = cm_map m"
  by (simp add: take_slice_def Let_def split: prod.split)

lemma allocate_chunk_peers:
  "cm_peers_chunks_availability (snd (allocate_chunk p c m)) = cm_peers_chunks_availability m \<and>
   length (cm_map (snd (allocate_chunk p c m))) = length (cm_map m)"
  by (simp add: allocate_chunk_def Let_def)

lemma getAvailableChunk_fit:
  assumes f: "source_maps_fit m" and l: "length (cm_map m) \<le> 2 ^ 31" and a: "getAvailableChunk now rnd p m = (c, fl, m')"
  shows "source_maps_fit m' \<and> length (cm_map m') = length (cm_map m)"
proof -
  obtain sci m1 where s: "getSourceChunksInfo p m = (sci, m1)" by (cases "getSourceChunksInfo p m")
  obtain x where m1: "m1 = m\<lparr>cm_peers_chunks_availability := x\<rparr>" by (rule getSourceChunksInfo_frame [OF s])
  from getSourceChunksInfo_fit [OF f l s] show ?thesis
    using a by (auto simp: getAvailableChunk_def s m1 Let_def source_maps_fit_def fit_put
        split: if_splits prod.splits)
qed

lemma getDataChunk_fit:
  assumes f: "source_maps_fit m" and l: "length (cm_map m) \<le> 2 ^ 31"
  shows "source_maps_fit (snd (snd (getDataChunk slow now rnd p hint needed m))) \<and>
    length (cm_map (snd (snd (getDataChunk slow now rnd p hint needed m)))) = length (cm_map m)"
proof -
  let ?ok = "\<lambda>m'. source_maps_fit m' \<and> length (cm_map m') = length (cm_map m)"
  have ts: "?ok (snd (take_slice now p hint q ck m'))" if "?ok m'" for q ck m'
    using that take_slice_peers [of now p hint q ck m'] fit_frame by metis
  have al: "?ok (snd (allocate_chunk p c m'))" if "?ok m'" for c m'
    using that allocate_chunk_peers [of p c m'] fit_frame by metis
  obtain sci m1 where s: "getSourceChunksInfo p m = (sci, m1)" by (cases "getSourceChunksInfo p m")
  obtain x where "m1 = m\<lparr>cm_peers_chunks_availability := x\<rparr>" by (rule getSourceChunksInfo_frame [OF s])
  with getSourceChunksInfo_fit [OF f l s] have 1: "?ok m1" by simp
  obtain it fs m2 where sc: "scan_feed slow hint sci (cm_active_chunks_feed m1) None m1 = (it, fs, m2)"
    by (metis prod_cases3)
  have 2: "?ok m2" using 1 scan_feed_peers [of slow hint sci "cm_active_chunks_feed m1" None m1] fit_frame [of m1 m2] sc
    by simp
  obtain c fl m3 where a: "getAvailableChunk now rnd p m2 = (c, fl, m3)" by (metis prod_cases3)
  have 3: "?ok m3" using getAvailableChunk_fit [OF _ _ a] 2 l by simp
  show ?thesis
  proof (cases "map_of (cm_active_chunks_feed m) p")
    case (Some ck)
    then show ?thesis using ts [of m p ck] f by (simp add: getDataChunk_def case_prod_beta)
  next
    case None
    note unfolded = getDataChunk_def None option.case s sc a case_prod_beta fst_conv snd_conv Let_def
    show ?thesis
    proof (cases it)
      case (Some q)
      then show ?thesis using ts [OF 2] by (simp add: unfolded)
    next
      case it: None
      show ?thesis
        using ts [OF 3] ts [OF al [OF 3]] 3 by (cases fs) (simp_all add: unfolded it)
    qed
  qed
qed

lemma chunkmap_do_fit:
  assumes f: "source_maps_fit m" and l: "length (cm_map m) \<le> 2 ^ 31"
  shows "source_maps_fit (chunkmap_do c m) \<and> length (cm_map (chunkmap_do c m)) = length (cm_map m)"
proof (cases c)
  case (GetDataChunk slow now rnd p hint)
  then show ?thesis using getDataChunk_fit [OF assms] by simp
next
  case (DataReceived now cid)
  then show ?thesis
    using f by (auto simp: dataReceived_def updateTotalDownloaded_def Let_def source_maps_fit_def split: option.splits)
next
  case (ReAskPendingChunk now p)
  then show ?thesis using f by (auto simp: reAskPendingChunk_def source_maps_fit_def split: option.splits)
next
  case (RemoveInactiveChunks now)
  have "case removeInactiveChunks now m of (t, m') \<Rightarrow> source_maps_fit m' \<and> length (cm_map m') = length (cm_map m)"
    unfolding removeInactiveChunks_def
    by (rule foldl_keeps [where P = "\<lambda>(t, m'). source_maps_fit m' \<and> length (cm_map m') = length (cm_map m)"])
      (use f in \<open>auto simp: remove_chunk_def source_maps_fit_def split: prod.splits\<close>)
  then show ?thesis using RemoveInactiveChunks by (simp add: case_prod_beta)
next
  case (SetPeerAvailabilityMap now p cmap)
  have "n div 32 + (if n mod 32 \<noteq> 0 then 1 else 0) = (n + 31) div 32" for n :: nat
    using div_round_up [of 32 n] by simp
  then show ?thesis
    using f SetPeerAvailabilityMap by (auto simp: setPeerAvailabilityMap_def Let_def source_maps_fit_def intro!: fit_put)
next
  case (RemoveFileSource p)
  then show ?thesis using f by (simp add: removeFileSource_def source_maps_fit_def fit_erase)
qed (use f in \<open>auto simp: setChunkCheckingResult_def setAvailabilityMap_def forceCheck_def updateTotalDownloaded_def
    getChunksToCheck_def setStrategy_def Let_def source_maps_fit_def\<close>)

interpretation chunkmap: inductive_invariant chunkmap_new chunkmap_step "\<lambda>m. chunkmap_inv m \<and> source_maps_fit m"
proof unfold_locales
  show "chunkmap_inv m \<and> source_maps_fit m" if "chunkmap_new m" for m
    using that by (auto elim!: chunkmap_newE simp: make_ChunkMap_inv)
      (simp add: make_ChunkMap_def Let_def source_maps_fit_def)
  show "chunkmap_inv m' \<and> source_maps_fit m'" if "chunkmap_inv m \<and> source_maps_fit m" "chunkmap_step m c m'" for m c m'
  proof -
    have "length (cm_map m) \<le> 2 ^ 31" using that(1) geometry_length by (simp add: chunkmap_inv_def)
    then show ?thesis
      using that chunkmap_do_inv [of m c] chunkmap_do_fit [of m c] by (auto elim!: chunkmap_stepE)
  qed
qed

subsection \<open>The accounting\<close>

text \<open>The bytes of a chunk that have arrived.\<close>

definition chunk_got :: "ChunkMap \<Rightarrow> nat \<Rightarrow> nat" where
  "chunk_got m i =
     (case cm_map m ! i of
        CHUNK_OUTSTANDING \<Rightarrow> 0
      | CHUNK_ACTIVE \<Rightarrow>
          unat (sizeOfChunk m (of_nat i)) - unat (cdi_remains (map_get default_cdi (of_nat i) (cm_slices_to_download m)))
      | CHUNK_CHECKING \<Rightarrow> unat (sizeOfChunk m (of_nat i))
      | CHUNK_DONE \<Rightarrow> unat (sizeOfChunk m (of_nat i)))"

lemma entry_sum_as_sum:
  "map_wf m \<Longrightarrow> entry_sum f m = (\<Sum>k \<in> fst ` set m. f k (the (map_of m k)))"
proof (induction m)
  case (Cons e m)
  obtain k v where e: "e = (k, v)" by (cases e)
  have k: "k \<notin> fst ` set m" using Cons.prems e by auto
  then have "(\<Sum>j \<in> fst ` set m. f j (the (map_of (e # m) j))) = (\<Sum>j \<in> fst ` set m. f j (the (map_of m j)))"
    by (intro sum.cong) (auto simp: e)
  then show ?case using Cons e k by simp
qed simp

lemma slices_keys:
  assumes "geometry m" "slices_ok m"
  shows "unat ` fst ` set (cm_slices_to_download m) = {i. i < length (cm_map m) \<and> cm_map m ! i = CHUNK_ACTIVE}"
proof (intro equalityI subsetI)
  fix i assume "i \<in> unat ` fst ` set (cm_slices_to_download m)"
  then show "i \<in> {i. i < length (cm_map m) \<and> cm_map m ! i = CHUNK_ACTIVE}"
    using slices_entry [OF assms(2)] chunk_okD(1,2) by fastforce
next
  fix i assume i: "i \<in> {i. i < length (cm_map m) \<and> cm_map m ! i = CHUNK_ACTIVE}"
  then have "of_nat i \<in> fst ` set (cm_slices_to_download m)" using assms(2) by (simp add: slices_ok_def)
  moreover have "unat (of_nat i :: u32) = i" using unat_of_nat_chunk [OF assms(1)] i by simp
  ultimately show "i \<in> unat ` fst ` set (cm_slices_to_download m)" by (metis imageI)
qed

lemma total_is_got:
  assumes i: "chunkmap_inv m"
  shows "unat (cm_total_downloaded m) = (\<Sum>i < length (cm_map m). chunk_got m i)"
proof -
  let ?l = "length (cm_map m)" and ?A = "\<lambda>i. cm_map m ! i = CHUNK_ACTIVE"
  have g: "geometry m" and so: "slices_ok m" and t: "total_ok m" using i by (simp_all add: chunkmap_inv_def)
  have wf: "map_wf (cm_slices_to_download m)" using so by (simp add: slices_ok_def)
  let ?f = "\<lambda>i. chunk_bytes m i - unat (cdi_remains (the (map_of (cm_slices_to_download m) (of_nat i))))"
  have "active_bytes m = (\<Sum>k \<in> fst ` set (cm_slices_to_download m). ?f (unat k))"
    unfolding active_bytes_def entry_sum_as_sum [OF wf] by simp
  also have "\<dots> = (\<Sum>i \<in> unat ` fst ` set (cm_slices_to_download m). ?f i)"
    by (subst sum.reindex) (auto simp: inj_on_def word_unat_eq_iff)
  also have "\<dots> = (\<Sum>i < ?l. if ?A i then ?f i else 0)"
    unfolding slices_keys [OF g so] by (simp add: sum.inter_filter [symmetric] lessThan_def)
  finally have "unat (cm_total_downloaded m) =
      (\<Sum>i < ?l. (if is_done_or_checking (cm_map m ! i) then chunk_bytes m i else 0) + (if ?A i then ?f i else 0))"
    using t by (simp add: total_ok_def done_bytes_def sum.distrib)
  also have "\<dots> = (\<Sum>i < ?l. chunk_got m i)"
  proof (rule sum.cong [OF refl])
    fix j assume j: "j \<in> {..<?l}"
    have "map_of (cm_slices_to_download m) (of_nat j) \<noteq> None" if "?A j"
      using so j that by (auto simp: slices_ok_def map_of_eq_None_iff)
    then show "(if is_done_or_checking (cm_map m ! j) then chunk_bytes m j else 0) + (if ?A j then ?f j else 0) =
        chunk_got m j"
      using chunk_index [OF g, of j] j
      by (auto simp: chunk_got_def is_done_or_checking_def map_get_def split: ChunkState.split option.split)
  qed
  finally show ?thesis .
qed

lemma got_less:
  assumes i: "chunkmap_inv m" and j: "j < length (cm_map m)"
  shows "chunk_got m j \<le> chunk_bytes m j \<and> (chunk_got m j = chunk_bytes m j \<longleftrightarrow> is_done_or_checking (cm_map m ! j))"
proof -
  have g: "geometry m" and so: "slices_ok m" using i by (simp_all add: chunkmap_inv_def)
  note b = geometry_bounds [OF g j] chunk_index [OF g j]
  show ?thesis
  proof (cases "cm_map m ! j = CHUNK_ACTIVE")
    case True
    have wf: "map_wf (cm_slices_to_download m)" using so by (simp add: slices_ok_def)
    have "(of_nat j :: u32) \<in> fst ` set (cm_slices_to_download m)" using True so j by (simp add: slices_ok_def)
    then obtain cdi where c: "map_of (cm_slices_to_download m) (of_nat j) = Some cdi"
      "(of_nat j, cdi) \<in> set (cm_slices_to_download m)" using key_has_value [OF wf] by blast
    have "chunk_ok m j cdi" using slices_entry [OF so c(2)] unat_of_nat_chunk [OF g j] by simp
    from chunk_okD(5,6) [OF this] show ?thesis
      using True b c(1) by (simp add: chunk_got_def map_get_def is_done_or_checking_def)
  next
    case False
    then show ?thesis
      using b by (cases "cm_map m ! j") (simp_all add: chunk_got_def is_done_or_checking_def)
  qed
qed

lemma reach_chunkmap:
  assumes "reach chunkmap_new chunkmap_step m"
  shows "chunkmap_inv m" "source_maps_fit m" "geometry m"
  using chunkmap.reach_inv [OF assms] by (simp_all add: chunkmap_inv_def)

lemma full_iff:
  assumes i: "chunkmap_inv m"
  shows "unat (cm_total_downloaded m) \<le> unat (cm_file_size m) \<and>
    (cm_total_downloaded m = cm_file_size m \<longleftrightarrow> list_all is_done_or_checking (cm_map m))"
proof -
  have g: "geometry m" using i by (simp add: chunkmap_inv_def)
  let ?l = "{..<length (cm_map m)}"
  have le: "chunk_got m j \<le> chunk_bytes m j" if "j \<in> ?l" for j using got_less [OF i, of j] that by simp
  have t: "unat (cm_total_downloaded m) = sum (chunk_got m) ?l" "unat (cm_file_size m) = sum (chunk_bytes m) ?l"
    using total_is_got [OF i] sum_chunk_bytes [OF g] by simp_all
  have "sum (chunk_got m) ?l = sum (chunk_bytes m) ?l \<longleftrightarrow> (\<forall>j \<in> ?l. chunk_got m j = chunk_bytes m j)"
  proof
    assume "sum (chunk_got m) ?l = sum (chunk_bytes m) ?l"
    then show "\<forall>j \<in> ?l. chunk_got m j = chunk_bytes m j"
      using le by (intro ballI sum_mono_inv [of "chunk_got m" ?l "chunk_bytes m"]) simp_all
  qed simp
  also have "\<dots> \<longleftrightarrow> list_all is_done_or_checking (cm_map m)"
    using got_less [OF i] by (auto simp: list_all_length)
  finally show ?thesis using t le by (auto simp: word_unat_eq_iff intro: sum_mono)
qed

text \<open>C5. After any calls on a new map for a file below 2^51 bytes, in which \<^verbatim>\<open>forceCheck\<close> and \<^verbatim>\<open>setAvailabilityMap\<close> are
  called only while no slice is pending (a forced check during a download makes the total wrap, as
  \<open>forced_check_wraps_total\<close> shows) and results of checks are for chunks of the file, the total the code
  keeps by increments and decrements of a 64-bit word is the sum over all chunks of the bytes that have arrived, never exceeds the file, and equals it
  exactly when every chunk is done or being checked; a file that is not empty is complete exactly when
  every chunk is done.\<close>

theorem total_downloaded_is_exact:
  assumes "reach chunkmap_new chunkmap_step m"
  shows "unat (cm_total_downloaded m) = (\<Sum>i < length (cm_map m). chunk_got m i) \<and>
    cm_total_downloaded m \<le> cm_file_size m \<and>
    (cm_total_downloaded m = cm_file_size m \<longleftrightarrow> list_all is_done_or_checking (cm_map m)) \<and>
    (cm_map m = [] \<or> cm_file_is_complete m = list_all (\<lambda>st. st = CHUNK_DONE) (cm_map m))"
proof -
  have i: "chunkmap_inv m" by (rule reach_chunkmap(1) [OF assms])
  then have "complete_ok m" by (simp add: chunkmap_inv_def)
  then show ?thesis
    using total_is_got [OF i] full_iff [OF i] by (simp add: word_le_nat_alt complete_ok_def) blast
qed

text \<open>A map for two chunks after one slice of 1000 bytes has been asked and received.\<close>

definition sample_map :: ChunkMap where
  "sample_map = chunkmap_do (DataReceived 5 0)
     (chunkmap_do (GetDataChunk (\<lambda>_ _. False) 4 0 [1] 1000) (make_ChunkMap 0x100001 True))"

lemma sample_reach: "reach chunkmap_new chunkmap_step sample_map"
proof -
  have "chunkmap_new (make_ChunkMap 0x100001 True)" by (rule new) simp
  then have 0: "reach chunkmap_new chunkmap_step (make_ChunkMap 0x100001 True)" by (rule reach_init)
  show ?thesis
    unfolding sample_map_def by (rule reach_step [OF reach_step [OF 0 call] call]) simp_all
qed

lemma total_downloaded_is_exact_witness:
  "unat (cm_total_downloaded sample_map) = (\<Sum>i < length (cm_map sample_map). chunk_got sample_map i) \<and>
   cm_total_downloaded sample_map = 1000"
proof -
  have "cm_total_downloaded sample_map = 1000" by code_simp
  then show ?thesis using total_downloaded_is_exact [OF sample_reach] by simp
qed



text \<open>C31. A peer is never left idle while it has a chunk that is missing: then \<^verbatim>\<open>getDataChunk\<close> returns a slice,
  whatever the random number, the strategy and the speed of the other peers.\<close>

theorem wanted_chunk_gives_slice:
  assumes "reach chunkmap_new chunkmap_step m"
    and "i < length (cm_map m)" "chunk_wanted m (fst (getSourceChunksInfo peer m)) i"
  shows "fst (getDataChunk slow now rnd peer hint needed m) \<noteq> None"
proof (cases "map_of (cm_active_chunks_feed m) peer")
  case (Some ck)
  then show ?thesis by (simp add: getDataChunk_def case_prod_beta)
next
  case None
  note g = reach_chunkmap(3) [OF assms(1)]
  obtain sci m1 where s: "getSourceChunksInfo peer m = (sci, m1)" by (cases "getSourceChunksInfo peer m")
  obtain x where m1: "m1 = m\<lparr>cm_peers_chunks_availability := x\<rparr>" by (rule getSourceChunksInfo_frame [OF s])
  obtain it fs m2 where sc: "scan_feed slow hint sci (cm_active_chunks_feed m1) None m1 = (it, fs, m2)"
    by (metis prod_cases3)
  have "chunkmap_inv m1" using reach_chunkmap(1) [OF assms(1)] by (simp add: m1)
  from scan_feed_frame [OF this subset_refl sc] have m2: "m2 = m1" by simp
  obtain c fl m3 where a: "getAvailableChunk now rnd peer m1 = (c, fl, m3)" by (metis prod_cases3)
  have g1: "geometry m1" using g by (simp add: m1 geometry_def)
  have sci: "sci = fst (getSourceChunksInfo peer m1)" using getSourceChunksInfo_again [OF s] by simp
  have "chunk_wanted m1 sci i" using assms(3) s by (simp add: m1 chunk_wanted_def)
  then have "unat c < length (cm_map m1)" using getAvailableChunk_complete [OF g1 a sci] assms(2)
    by (auto simp: m1 split: if_splits)
  moreover obtain y where "m3 = m1\<lparr>cm_peers_chunks_availability := y\<rparr>"
    using getAvailableChunk_frame [OF g1 a] by blast
  moreover have "length (cm_map m1) < 18446744073709551616" using geometry_length [OF g1] by simp
  ultimately have "\<not> ucast c \<ge> map_size m3" by (simp add: map_size_def word_le_nat_alt unat_of_nat)
  then show ?thesis
    by (cases it) (simp_all add: getDataChunk_def None s sc a m2 case_prod_beta)
qed

lemma wanted_chunk_gives_slice_witness:
  "fst (getDataChunk (\<lambda>_ _. False) 6 77 [2] 500 False sample_map) \<noteq> None"
proof (rule wanted_chunk_gives_slice [OF sample_reach])
  show "1 < length (cm_map sample_map)" by code_simp
  show "chunk_wanted sample_map (fst (getSourceChunksInfo [2] sample_map)) 1" by code_simp
qed

text \<open>C37. In every reachable state the map of each source has exactly the words that the chunks of the file
  need, so the tests of single bits never read outside it.\<close>

theorem source_maps_have_the_right_size:
  assumes "reach chunkmap_new chunkmap_step m"
  shows "source_maps_fit m"
  using reach_chunkmap(2) [OF assms] .

lemma source_maps_have_the_right_size_witness: "source_maps_fit sample_map \<and> cm_peers_chunks_availability sample_map \<noteq> []"
proof -
  have "cm_peers_chunks_availability sample_map \<noteq> []" by code_simp
  then show ?thesis using source_maps_have_the_right_size [OF sample_reach] by simp
qed

text \<open>For every file below 2^51 bytes the sizes of the chunks add up to the size of the file and are
  between one byte and one megabyte, although the start of the last chunk is computed in 32 bits and
  wraps for files above four gigabytes.\<close>

theorem chunk_sizes_tile_the_file:
  assumes "unat s < 2 ^ 51" "m = make_ChunkMap s availability"
  shows "(\<Sum>i < length (cm_map m). unat (sizeOfChunk m (of_nat i))) = unat s \<and>
    list_all (\<lambda>i. 0 < sizeOfChunk m (of_nat i) \<and> sizeOfChunk m (of_nat i) \<le> CHUNKMAP_FIXED_CHUNK_SIZE)
      [0..<length (cm_map m)]"
proof -
  have g: "geometry m" using make_ChunkMap_inv [OF assms(1)] assms(2) by (simp add: chunkmap_inv_def)
  have "(\<Sum>i < length (cm_map m). unat (sizeOfChunk m (of_nat i))) = (\<Sum>i < length (cm_map m). chunk_bytes m i)"
    using chunk_index [OF g] by (intro sum.cong) simp_all
  also have "\<dots> = unat (cm_file_size m)" by (rule sum_chunk_bytes [OF g])
  also have "cm_file_size m = s" by (simp add: assms(2) make_ChunkMap_def Let_def)
  finally show ?thesis
    using chunk_index [OF g] geometry_bounds [OF g]
    by (auto simp: list_all_iff word_less_nat_alt word_le_nat_alt)
qed

lemma chunk_sizes_tile_the_file_witness:
  "let m = make_ChunkMap 0x140000001 True in
     length (cm_map m) = 5121 \<and> (\<Sum>i < length (cm_map m). unat (sizeOfChunk m (of_nat i))) = 0x140000001 \<and>
     sizeOfChunk m 5120 = 1 \<and> 5120 * cm_chunk_size m = 0x40000000"
  using chunk_sizes_tile_the_file [of "0x140000001" _ True, OF _ refl]
  by (simp add: Let_def make_ChunkMap_def sizeOfChunk_def map_size_def)

text \<open>\<^verbatim>\<open>removeInactiveChunks\<close> gives up exactly the chunks for which nothing arrived for an hour: it returns
  the slices pending in them, keeps the records of all others, and no peer feeds any longer on a chunk
  without a record, so its peers are free for other chunks.\<close>

theorem removeInactiveChunks_frees:
  assumes "reach chunkmap_new chunkmap_step m" "removeInactiveChunks now m = (removed, m')"
  shows "removed = concat (map (\<lambda>(n, cdi). map fst (cdi_slices cdi))
      (filter (inactive now) (cm_slices_to_download m))) \<and>
    set (cm_slices_to_download m') = {e \<in> set (cm_slices_to_download m). \<not> inactive now e} \<and>
    {i. i < length (cm_map m') \<and> cm_map m' ! i = CHUNK_ACTIVE} = unat ` fst ` set (cm_slices_to_download m') \<and>
    (\<lambda>e. chunk_number m' (ck_start (snd e))) ` set (cm_active_chunks_feed m') \<subseteq> fst ` set (cm_slices_to_download m')"
proof -
  note r = removeInactiveChunks_facts [OF reach_chunkmap(1) [OF assms(1)] assms(2)]
  then have i: "geometry m'" "slices_ok m'" "feed_ok m'" by (simp_all add: chunkmap_inv_def)
  have "chunk_number m' (ck_start ck) \<in> fst ` set (cm_slices_to_download m')"
    if p: "(p, ck) \<in> set (cm_active_chunks_feed m')" for p ck
  proof -
    obtain n where n: "n < length (cm_map m')" "unat (ck_start ck) = n * csz"
      "of_nat n \<in> fst ` set (cm_slices_to_download m')" using feed_okD [OF i(3) p] by blast
    then show ?thesis
      using chunk_number_of [OF i(1) n(1), of "ck_start ck"] geometry_bounds [OF i(1) n(1)] by simp
  qed
  then show ?thesis using r slices_keys [OF i(1,2)] by auto
qed

lemma removeInactiveChunks_frees_witness:
  "\<exists>m'. removeInactiveChunks 4000 sample_map = ([], m') \<and> cm_slices_to_download m' = []"
proof -
  have e: "fst (removeInactiveChunks 4000 sample_map) = []"
    "list_all (inactive 4000) (cm_slices_to_download sample_map)" by code_simp+
  obtain m' where r: "removeInactiveChunks 4000 sample_map = ([], m')"
    using e(1) by (cases "removeInactiveChunks 4000 sample_map") simp
  from removeInactiveChunks_frees [OF sample_reach r] e(2) have "set (cm_slices_to_download m') = {}"
    by (auto simp: list_all_iff)
  with r show ?thesis by auto
qed

subsection \<open>Ranges that leave the file\<close>

lemma states_are_inside:
  "list_all (\<lambda>i. i < length st) is \<Longrightarrow> states_are st s is = Some (list_all (\<lambda>i. st ! i = s) is)"
  by (induction "is") auto

lemma chunk_start:
  assumes "geometry m" "unat (off :: u64) < 2 ^ 51"
  shows "unat (ucast (off div ucast (cm_chunk_size m)) :: u32) = unat off div csz"
proof -
  have "cm_chunk_size m = 0x100000" using assms(1) by (simp add: geometry_def)
  moreover have "unat off div csz < 2 ^ 31" using assms(2) by (simp add: less_mult_imp_div_less)
  moreover have "unat (off div 0x100000) = unat off div csz" by (simp add: unat_div)
  ultimately show ?thesis using unat_ucast_64_32 [of "off div 0x100000"] by simp
qed

lemma hasChunkState_range:
  assumes g: "geometry m" and e: "unat off + unat sz < 2 ^ 51"
  shows "hasChunkState m off sz st =
    states_are (cm_map m) st [unat off div csz..<(unat off + unat sz + (csz - 1)) div csz]"
proof -
  have cs: "cm_chunk_size m = 0x100000" using g by (simp add: geometry_def)
  have sum: "unat (off + ucast sz) = unat off + unat sz"
    using e by (simp add: unat_word_ariths)
  have n: "unat (off + ucast sz) div csz < 2 ^ 31" using e sum by (simp add: less_mult_imp_div_less)
  have md: "(off + ucast sz) mod 0x100000 \<noteq> 0 \<longleftrightarrow> (unat off + unat sz) mod csz \<noteq> 0"
    by (simp add: word_unat_eq_iff unat_mod sum)
  have ds: "unat (ucast ((off + ucast sz) div 0x100000) :: u32) = (unat off + unat sz) div csz"
    using chunk_start [OF g, of "off + ucast sz"] e sum by (simp add: cs)
  have "unat (ucast ((off + ucast sz) div 0x100000) + (if (off + ucast sz) mod 0x100000 \<noteq> 0 then 1 else 0) :: u32) =
      (unat off + unat sz + (csz - 1)) div csz"
    using n ds md div_round_up [of csz "unat off + unat sz"] sum by (auto simp: unat_word_ariths)
  then show ?thesis
    using chunk_start [OF g, of off] e by (simp add: hasChunkState_def Let_def cs)
qed

text \<open>\<^verbatim>\<open>hasChunkState\<close> answers rightly for a range inside the file, and reads outside the vector of chunk
  states for a range that starts at or after the last chunk's end: no caller checks the offset that a
  peer sends in a data request.\<close>

theorem hasChunkState_bounds:
  assumes "reach chunkmap_new chunkmap_step m" "sz \<noteq> 0" "unat off + unat sz < 2 ^ 51"
  shows "if unat off + unat sz \<le> unat (cm_file_size m)
    then hasChunkState m off sz st =
      Some (list_all (\<lambda>i. cm_map m ! i = st) [unat off div csz..<(unat off + unat sz + (csz - 1)) div csz])
    else (unat off < length (cm_map m) * csz) \<or> hasChunkState m off sz st = None"
proof -
  note g = reach_chunkmap(3) [OF assms(1)]
  let ?is = "[unat off div csz..<(unat off + unat sz + (csz - 1)) div csz]"
  have "list_all (\<lambda>i. i < length (cm_map m)) ?is" if "unat off + unat sz \<le> unat (cm_file_size m)"
  proof -
    have "(unat off + unat sz + (csz - 1)) div csz \<le> length (cm_map m)"
      using that g unfolding geometry_def by (auto intro: div_le_mono)
    then show ?thesis by (auto simp: list_all_iff)
  qed
  moreover have "states_are (cm_map m) st ?is = None" if "length (cm_map m) * csz \<le> unat off"
  proof -
    have "unat off div csz \<ge> length (cm_map m)" using that div_le_mono [OF that, of csz] by simp
    moreover have "unat off div csz < (unat off + unat sz + (csz - 1)) div csz"
    proof -
      have "unat off div csz < (unat off + csz) div csz" by simp
      also have "\<dots> \<le> (unat off + unat sz + (csz - 1)) div csz"
        using assms(2) unat_gt_0 [of sz] by (intro div_le_mono) simp
      finally show ?thesis .
    qed
    ultimately show ?thesis by (simp add: upt_conv_Cons)
  qed
  ultimately show ?thesis
    unfolding hasChunkState_range [OF g assms(3)] using states_are_inside [of "cm_map m" ?is st]
    by (cases "unat off < length (cm_map m) * csz"; cases "unat off + unat sz \<le> unat (cm_file_size m)") auto
qed

lemma hasChunkState_bounds_witness:
  "isChunkAvailable sample_map 0x200000 1 = None \<and> isChunkOutstanding sample_map 0x100000 1 = Some True"
proof -
  have s: "cm_file_size sample_map = 0x100001" "length (cm_map sample_map) = 2"
    "cm_map sample_map ! Suc 0 = CHUNK_OUTSTANDING" by code_simp+
  show ?thesis
    using hasChunkState_bounds [OF sample_reach, of 1 "0x200000" CHUNK_DONE]
      hasChunkState_bounds [OF sample_reach, of 1 "0x100000" CHUNK_OUTSTANDING]
    by (simp add: isChunkAvailable_def isChunkOutstanding_def s upt_conv_Cons)
qed

subsection \<open>A forced check during a download\<close>

text \<open>\<^verbatim>\<open>forceCheck\<close> marks also the active chunks as being checked, without removing their records. When the
  check of such a chunk fails, its whole size is subtracted from a total in which only the arrived part
  is counted: the 64-bit total wraps.\<close>

lemma forced_check_wraps_total:
  "cm_total_downloaded (setChunkCheckingResult 0 False (forceCheck sample_map)) = 1001 - 0x100000"
  by code_simp

end
