(* ===== verification/File_Creator.thy ===== *)
theory File_Creator
  imports Chunk_Props
begin

text \<open>
  \<^verbatim>\<open>ft/ftfileprovider.cc\<close> and \<^verbatim>\<open>ft/ftfilecreator.cc\<close>: a file that is served to other peers, and one that is
  being downloaded. The creator extends the provider by the chunk map, by the table \<^verbatim>\<open>mChunks\<close> of the
  parts of slices still to arrive, keyed by their current offset, and by the number of slices asked from
  each peer. The parts into which a slice was split share a counter through the pointer \<^verbatim>\<open>ref_cnt\<close>: the
  counters live in a store, a pointer is an address in it. The content of the file is a byte list; what
  the operating system answers to an open, a seek, a read or a write is an argument. A read or write of
  memory outside its block is the fault \<open>None\<close>.
\<close>

abbreviation (input) CHUNK_MAX_AGE :: int where "CHUNK_MAX_AGE \<equiv> 120"
abbreviation (input) MAX_FTCHUNKS_PER_PEER :: u32 where "MAX_FTCHUNKS_PER_PEER \<equiv> 20"
abbreviation (input) UPLOAD_CHUNK_MAPS_TIME :: int where "UPLOAD_CHUNK_MAPS_TIME \<equiv> 20"

text \<open>The answers of the system: of the first and the second attempt to open the file, of the seek, and of
  the read or write (for a write that fails, how many bytes it has written).\<close>

record file_answers =
  fa_open :: bool
  fa_open_other :: bool
  fa_seek :: bool
  fa_read :: bool
  fa_write_fails :: "nat option"

subsection \<open>Providers\<close>

text \<open>\<^verbatim>\<open>transfer_rate\<close> is a float, here the pair whose quotient it is.\<close>

record PeerUploadInfo =
  pu_req_loc :: u64
  pu_req_size :: u32
  pu_lastTS_t :: rstime_t
  pu_lastTS :: rstime_t
  pu_transfer_rate :: "u32 \<times> int"
  pu_total_size :: u32
  pu_client_chunk_map :: CompressedChunkMap
  pu_client_chunk_map_stamp :: rstime_t

definition new_PeerUploadInfo :: PeerUploadInfo where
  "new_PeerUploadInfo = \<lparr>pu_req_loc = 0, pu_req_size = 1, pu_lastTS_t = 0, pu_lastTS = 0,
     pu_transfer_rate = (0, 1), pu_total_size = 0, pu_client_chunk_map = [], pu_client_chunk_map_stamp = 0\<rparr>"

record ftFileProvider =
  fp_size :: u64
  fp_fd :: bool
  fp_file :: bytes
  fp_uploading_peers :: "(RsPeerId, PeerUploadInfo) std_map"

definition updateStatus :: "u64 \<Rightarrow> u32 \<Rightarrow> rstime_t \<Rightarrow> PeerUploadInfo \<Rightarrow> PeerUploadInfo" where
  "updateStatus offset data_size now p =
     (let diff = now - pu_lastTS_t p;
          p1 = p\<lparr>pu_lastTS := now\<rparr>;
          p2 = (if diff > 3
                then p1\<lparr>pu_transfer_rate := (pu_total_size p1, diff), pu_lastTS_t := now, pu_total_size := 0\<rparr>
                else p1)
      in p2\<lparr>pu_req_loc := offset, pu_req_size := data_size, pu_total_size := pu_total_size p2 + data_size\<rparr>)"

definition purgeOldPeers :: "rstime_t \<Rightarrow> u32 \<Rightarrow> 'a ftFileProvider_scheme \<Rightarrow> bool \<times> 'a ftFileProvider_scheme" where
  "purgeOldPeers now max_duration f =
     (let old = (\<lambda>(p, u). pu_lastTS u + uint max_duration < uint (word_of_int now :: u32)) in
      (list_all old (fp_uploading_peers f),
       f\<lparr>fp_uploading_peers := filter (\<lambda>e. \<not> old e) (fp_uploading_peers f)\<rparr>))"

definition initializeFileAttrs :: "file_answers \<Rightarrow> 'a ftFileProvider_scheme \<Rightarrow> bool \<times> 'a ftFileProvider_scheme" where
  "initializeFileAttrs a f =
     (if fp_fd f then (True, f)
      else if fa_open a \<or> fa_open_other a then (True, f\<lparr>fp_fd := True\<rparr>)
      else (False, f))"

text \<open>Result: success, the size that was served, the caller's buffer, the state.\<close>

definition provider_getFileData :: "file_answers \<Rightarrow> rstime_t \<Rightarrow> RsPeerId \<Rightarrow> u64 \<Rightarrow> u32 \<Rightarrow> buf \<Rightarrow>
    'a ftFileProvider_scheme \<Rightarrow> (bool \<times> u32 \<times> buf \<times> 'a ftFileProvider_scheme) option" where
  "provider_getFileData a now peer_id offset chunk_size data f0 =
     (let (ok, f) = initializeFileAttrs a f0 in
      if \<not> ok then Some (False, chunk_size, data, f)
      else if offset \<ge> fp_size f then Some (False, chunk_size, data, f)
      else (let over = offset + ucast chunk_size > fp_size f;
                data_size = (if over then ucast (fp_size f - offset) else chunk_size) :: u32;
                pos = unat offset; n = unat data_size
            in if data_size > 0 \<and> data \<noteq> None then
                 (if \<not> fa_seek a \<or> \<not> fa_read a \<or> length (fp_file f) < pos + n
                  then Some (False, data_size, data, f)
                  else (case poke data 0 (take n (drop pos (fp_file f))) of
                          None \<Rightarrow> None
                        | Some data' \<Rightarrow>
                            Some (True, data_size, data',
                              f\<lparr>fp_uploading_peers := map_put peer_id
                                  (updateStatus offset data_size now
                                    (map_get new_PeerUploadInfo peer_id (fp_uploading_peers f)))
                                  (fp_uploading_peers f)\<rparr>)))
               else Some (False, data_size, data, f)))"

definition setClientMap :: "rstime_t \<Rightarrow> RsPeerId \<Rightarrow> CompressedChunkMap \<Rightarrow> 'a ftFileProvider_scheme \<Rightarrow>
    'a ftFileProvider_scheme" where
  "setClientMap now peer_id cmap f =
     f\<lparr>fp_uploading_peers := map_put peer_id
         ((map_get new_PeerUploadInfo peer_id (fp_uploading_peers f))
            \<lparr>pu_client_chunk_map := cmap, pu_client_chunk_map_stamp := now\<rparr>) (fp_uploading_peers f)\<rparr>"

definition getClientMap :: "rstime_t \<Rightarrow> RsPeerId \<Rightarrow> 'a ftFileProvider_scheme \<Rightarrow>
    CompressedChunkMap \<times> bool \<times> 'a ftFileProvider_scheme" where
  "getClientMap now peer_id f =
     (let pui = map_get new_PeerUploadInfo peer_id (fp_uploading_peers f);
          map_is_too_old = (now - pu_client_chunk_map_stamp pui > UPLOAD_CHUNK_MAPS_TIME);
          pui' = (if map_is_too_old then pui\<lparr>pu_client_chunk_map_stamp := now\<rparr> else pui)
      in (pu_client_chunk_map pui', map_is_too_old,
          f\<lparr>fp_uploading_peers := map_put peer_id pui' (fp_uploading_peers f)\<rparr>))"

definition provider_getAvailabilityMap :: "'a ftFileProvider_scheme \<Rightarrow> CompressedChunkMap" where
  "provider_getAvailabilityMap f = buildPlainMap (fp_size f)"

subsection \<open>Creators\<close>

record ftSlice = ftChunk +
  ft_ref_cnt :: nat

record ftFileCreator = ftFileProvider +
  fc_chunks :: "(u64, ftSlice) std_map"
  fc_refs :: "(nat, int) std_map"
  fc_chunks_per_peer :: "(RsPeerId, u32) std_map"
  fc_map :: ChunkMap
  fc_last_recv_time_t :: rstime_t
  fc_creation_time :: rstime_t

definition make_ftFileCreator :: "rstime_t \<Rightarrow> rstime_t option \<Rightarrow> bytes \<Rightarrow> u64 \<Rightarrow> bool \<Rightarrow> ftFileCreator" where
  "make_ftFileCreator now mtime content sz assume_availability =
     \<lparr>fp_size = sz, fp_fd = False, fp_file = content, fp_uploading_peers = [],
      fc_chunks = [], fc_refs = [], fc_chunks_per_peer = [], fc_map = make_ChunkMap sz assume_availability,
      fc_last_recv_time_t = (case mtime of Some t \<Rightarrow> t | None \<Rightarrow> now), fc_creation_time = now\<rparr>"

text \<open>The unverified parts that are still to arrive shorten the range that can be served, or forbid it.\<close>

definition shorten_request :: "u64 \<Rightarrow> (u64, ftSlice) std_map \<Rightarrow> u32 \<Rightarrow> bool \<times> u32" where
  "shorten_request offset chunks chunk_size =
     foldl (\<lambda>(have_it, sz) (k, c).
         let sz' = (if ft_offset c \<ge> offset \<and> ft_offset c < offset + ucast sz
                    then ucast (ft_offset c - offset) else sz)
         in (if ft_offset c + ft_size c \<ge> offset \<and> ft_offset c + ft_size c < offset + ucast sz'
             then False else have_it, sz'))
       (True, chunk_size) chunks"

definition creator_getFileData :: "file_answers \<Rightarrow> rstime_t \<Rightarrow> RsPeerId \<Rightarrow> u64 \<Rightarrow> u32 \<Rightarrow> buf \<Rightarrow> bool \<Rightarrow>
    ftFileCreator \<Rightarrow> (bool \<times> u32 \<times> buf \<times> ftFileCreator) option" where
  "creator_getFileData a now peer_id offset chunk_size data allow_unverified f =
     (case isChunkAvailable (fc_map f) offset chunk_size of
        None \<Rightarrow> None
      | Some True \<Rightarrow> provider_getFileData a now peer_id offset chunk_size data f
      | Some False \<Rightarrow>
          (if \<not> allow_unverified then Some (False, chunk_size, data, f)
           else (let (have_it, sz) = shorten_request offset (fc_chunks f) chunk_size in
                 case isChunkOutstanding (fc_map f) offset sz of
                   None \<Rightarrow> None
                 | Some out \<Rightarrow>
                     if have_it \<and> \<not> out then provider_getFileData a now peer_id offset sz data f
                     else Some (False, sz, data, f))))"

text \<open>The second attempt to open a file for writing empties it.\<close>

definition locked_initializeFileAttrs :: "file_answers \<Rightarrow> ftFileCreator \<Rightarrow> bool \<times> ftFileCreator" where
  "locked_initializeFileAttrs a f =
     (if fp_fd f then (True, f)
      else if fa_open a then (True, f\<lparr>fp_fd := True\<rparr>)
      else if fa_open_other a then (True, f\<lparr>fp_fd := True, fp_file := []\<rparr>)
      else (False, f))"

definition closeFile :: "ftFileCreator \<Rightarrow> ftFileCreator" where
  "closeFile f = f\<lparr>fp_fd := False\<rparr>"

definition getRecvd :: "ftFileCreator \<Rightarrow> u64" where
  "getRecvd f = cm_total_downloaded (fc_map f)"

subsection \<open>Data that arrives\<close>

text \<open>A part that contains the packet but starts before it: it is split, the first half stays in the table,
  the second is what the packet starts.\<close>

definition contains_packet :: "u64 \<Rightarrow> u32 \<Rightarrow> u64 \<times> ftSlice \<Rightarrow> bool" where
  "contains_packet offset chunk_size e =
     (ft_offset (snd e) < offset \<and> ft_size (snd e) + ft_offset (snd e) \<ge> ucast chunk_size + offset)"

definition locked_notifyReceived :: "rstime_t \<Rightarrow> u64 \<Rightarrow> u32 \<Rightarrow> ftFileCreator \<Rightarrow> bool \<times> ftFileCreator" where
  "locked_notifyReceived now offset chunk_size f =
     (let found = (case map_of (fc_chunks f) offset of
            Some c \<Rightarrow> Some (c, f\<lparr>fc_chunks := map_erase offset (fc_chunks f)\<rparr>)
          | None \<Rightarrow>
              (case find (contains_packet offset chunk_size) (fc_chunks f) of
                 None \<Rightarrow> None
               | Some (k, c) \<Rightarrow>
                   (let part1 = c\<lparr>ft_size := offset - ft_offset c\<rparr> in
                    Some (c\<lparr>ft_offset := offset, ft_size := ft_size c - ft_size part1\<rparr>,
                      f\<lparr>fc_chunks := map_put (ft_offset part1) part1 (fc_chunks f),
                        fc_refs := map_put (ft_ref_cnt c) (map_get 0 (ft_ref_cnt c) (fc_refs f) + 1) (fc_refs f)\<rparr>))))
      in case found of
           None \<Rightarrow> (False, f)
         | Some (c, f1) \<Rightarrow>
             (let f2 =
                (if ft_size c \<noteq> ucast chunk_size then
                   (let c' = c\<lparr>ft_size := ft_size c - ucast chunk_size, ft_offset := ft_offset c + ucast chunk_size\<rparr>
                    in f1\<lparr>fc_chunks := map_put (ft_offset c') c' (fc_chunks f1)\<rparr>)
                 else (let r = map_get 0 (ft_ref_cnt c) (fc_refs f1) - 1 in
                       if r = 0 then
                         f1\<lparr>fc_map := dataReceived now (ft_id c) (fc_map f1),
                            fc_chunks_per_peer := map_put (ft_peer_id c)
                              (map_get 0 (ft_peer_id c) (fc_chunks_per_peer f1) - 1) (fc_chunks_per_peer f1),
                            fc_refs := map_erase (ft_ref_cnt c) (fc_refs f1)\<rparr>
                       else f1\<lparr>fc_refs := map_put (ft_ref_cnt c) r (fc_refs f1)\<rparr>))
              in (True, f2\<lparr>fc_last_recv_time_t := now\<rparr>)))"

definition write_at :: "bytes \<Rightarrow> nat \<Rightarrow> bytes \<Rightarrow> bytes" where
  "write_at file pos xs =
     (if xs = [] then file
      else take pos file @ replicate (pos - length file) 0 @ xs @ drop (pos + length xs) file)"

definition addFileData :: "bool \<Rightarrow> file_answers \<Rightarrow> rstime_t \<Rightarrow> u64 \<Rightarrow> u32 \<Rightarrow> bytes \<Rightarrow> ftFileCreator \<Rightarrow>
    (bool \<times> ftFileCreator) option" where
  "addFileData disc_space a now offset chunk_size data f0 =
     (if \<not> disc_space then Some (False, f0)
      else (let (ok, f) = locked_initializeFileAttrs a f0 in
        if \<not> ok then Some (False, f)
        else (let sz = (if offset + ucast chunk_size > fp_size f then ucast (fp_size f - offset) else chunk_size) :: u32 in
          if \<not> fa_seek a then Some (False, f)
          else if unat sz > length data then None
          else (case if sz = 0 then Some 0 else fa_write_fails a of
                  Some k \<Rightarrow> Some (False, f\<lparr>fp_file := write_at (fp_file f) (unat offset) (take k (take (unat sz) data))\<rparr>)
                | None \<Rightarrow>
                    (let f1 = f\<lparr>fp_file := write_at (fp_file f) (unat offset) (take (unat sz) data)\<rparr>;
                         f2 = snd (locked_notifyReceived now offset sz f1)
                     in Some (True, if cm_file_is_complete (fc_map f2) then closeFile f2 else f2))))))"

subsection \<open>Slices that are asked and given up\<close>

definition fresh_ref :: "(nat, int) std_map \<Rightarrow> nat" where
  "fresh_ref refs = foldr max (map fst refs) 0 + 1"

text \<open>The first part in the table that is old and that the peer has; looking may create the peer's source
  record.\<close>

fun find_faulting :: "rstime_t \<Rightarrow> RsPeerId \<Rightarrow> (u64, ftSlice) std_map \<Rightarrow> ChunkMap \<Rightarrow>
    (u64 \<times> ftSlice) option \<times> ChunkMap" where
  "find_faulting now peer_id [] m = (None, m)"
| "find_faulting now peer_id ((k, c) # cs) m =
     (if ft_ts c + CHUNK_MAX_AGE < now then
        (let (sci, m') = getSourceChunksInfo peer_id m in
         if hasData sci (ft_offset c) CHUNKMAP_FIXED_CHUNK_SIZE then (Some (k, c), m')
         else find_faulting now peer_id cs m')
      else find_faulting now peer_id cs m)"

text \<open>Result: offset and size to ask for, if any, the flag \<^verbatim>\<open>source_chunk_map_needed\<close>, the state.\<close>

definition getMissingChunk :: "(u32 \<Rightarrow> u32 \<Rightarrow> bool) \<Rightarrow> rstime_t \<Rightarrow> u32 \<Rightarrow> RsPeerId \<Rightarrow> u32 \<Rightarrow> ftFileCreator \<Rightarrow>
    (u64 \<times> u32) option \<times> bool \<times> ftFileCreator" where
  "getMissingChunk slow now rnd peer_id size_hint f =
     (let (old, m1) = find_faulting now peer_id (fc_chunks f) (fc_map f) in
      case old of
        Some (k, c) \<Rightarrow>
          (Some (ft_offset c, ucast (ft_size c)), False,
           f\<lparr>fc_map := m1, fc_chunks := map_put k (c\<lparr>ft_ts := now\<rparr>) (fc_chunks f)\<rparr>)
      | None \<Rightarrow>
          (let cnt = map_get 0 peer_id (fc_chunks_per_peer f);
               f1 = f\<lparr>fc_map := m1, fc_chunks_per_peer := map_put peer_id cnt (fc_chunks_per_peer f)\<rparr>
           in if cnt \<ge> MAX_FTCHUNKS_PER_PEER then (None, False, f1)
              else (case getDataChunk slow now rnd peer_id size_hint False m1 of
                      (None, needed, m2) \<Rightarrow>
                        (let (again, m3) = reAskPendingChunk now peer_id m2
                         in (again, needed, f1\<lparr>fc_map := m3\<rparr>))
                    | (Some c, needed, m2) \<Rightarrow>
                        (let r = fresh_ref (fc_refs f1) in
                         (Some (ft_offset c, ucast (ft_size c)), needed,
                          f1\<lparr>fc_map := m2, fc_refs := map_put r 1 (fc_refs f1),
                             fc_chunks := map_put (ft_offset c) (ftChunk.extend c \<lparr>ft_ref_cnt = r\<rparr>) (fc_chunks f1),
                             fc_chunks_per_peer := map_put peer_id (cnt + 1) (fc_chunks_per_peer f1)\<rparr>)))))"

text \<open>All parts of one slice leave the table.\<close>

definition remove_part :: "u64 \<Rightarrow> ftSlice \<Rightarrow> ftFileCreator \<Rightarrow> ftFileCreator" where
  "remove_part k c f =
     (let r = map_get 0 (ft_ref_cnt c) (fc_refs f) - 1 in
      f\<lparr>fc_refs := (if r = 0 then map_erase (ft_ref_cnt c) (fc_refs f) else map_put (ft_ref_cnt c) r (fc_refs f)),
        fc_chunks_per_peer := map_put (ft_peer_id c) (map_get 0 (ft_peer_id c) (fc_chunks_per_peer f) - 1)
          (fc_chunks_per_peer f),
        fc_chunks := map_erase k (fc_chunks f)\<rparr>)"

definition remove_slice :: "u64 \<Rightarrow> ftFileCreator \<Rightarrow> ftFileCreator" where
  "remove_slice sid f = foldl (\<lambda>f (k, c). if ft_id c = sid then remove_part k c f else f) f (fc_chunks f)"

definition creator_removeInactiveChunks :: "rstime_t \<Rightarrow> ftFileCreator \<Rightarrow> ftFileCreator" where
  "creator_removeInactiveChunks now f =
     (let (to_remove, m) = removeInactiveChunks now (fc_map f)
      in foldl (\<lambda>f sid. remove_slice sid f) (f\<lparr>fc_map := m\<rparr>) to_remove)"

subsection \<open>Calls passed on to the chunk map\<close>

definition creator_removeFileSource :: "RsPeerId \<Rightarrow> ftFileCreator \<Rightarrow> ftFileCreator" where
  "creator_removeFileSource peer_id f = f\<lparr>fc_map := removeFileSource peer_id (fc_map f)\<rparr>"

definition getChunkStrategy :: "ftFileCreator \<Rightarrow> ChunkStrategy" where
  "getChunkStrategy f = cm_strategy (fc_map f)"

definition setChunkStrategy :: "ChunkStrategy \<Rightarrow> ftFileCreator \<Rightarrow> ftFileCreator" where
  "setChunkStrategy s f = f\<lparr>fc_map := setStrategy s (fc_map f)\<rparr>"

definition creator_setAvailabilityMap :: "CompressedChunkMap \<Rightarrow> ftFileCreator \<Rightarrow> ftFileCreator" where
  "creator_setAvailabilityMap cmap f = f\<lparr>fc_map := setAvailabilityMap cmap (fc_map f)\<rparr>"

definition creator_getAvailabilityMap :: "ftFileCreator \<Rightarrow> CompressedChunkMap" where
  "creator_getAvailabilityMap f = getAvailabilityMap (fc_map f)"

definition sourceIsComplete :: "RsPeerId \<Rightarrow> ftFileCreator \<Rightarrow> bool \<times> ftFileCreator" where
  "sourceIsComplete peer_id f =
     (let (sci, m) = getSourceChunksInfo peer_id (fc_map f) in (sci_is_full sci, f\<lparr>fc_map := m\<rparr>))"

definition setSourceMap :: "rstime_t \<Rightarrow> RsPeerId \<Rightarrow> CompressedChunkMap \<Rightarrow> ftFileCreator \<Rightarrow> ftFileCreator" where
  "setSourceMap now peer_id cmap f = f\<lparr>fc_map := setPeerAvailabilityMap now peer_id cmap (fc_map f)\<rparr>"

definition finished :: "ftFileCreator \<Rightarrow> bool" where
  "finished f = cm_file_is_complete (fc_map f)"

text \<open>The hash function is a parameter; the result is \<open>None\<close> while the file is not finished.\<close>

definition hashReceivedData :: "(bytes \<Rightarrow> bytes) \<Rightarrow> ftFileCreator \<Rightarrow> bytes option" where
  "hashReceivedData file_hash f = (if finished f then Some (file_hash (fp_file f)) else None)"

definition creator_forceCheck :: "ftFileCreator \<Rightarrow> ftFileCreator" where
  "creator_forceCheck f = f\<lparr>fc_map := forceCheck (fc_map f)\<rparr>"

definition creator_getSourcesList :: "u32 \<Rightarrow> ftFileCreator \<Rightarrow> RsPeerId list" where
  "creator_getSourcesList chunk_num f = getSourcesList (fc_map f) chunk_num"

definition creator_getChunksToCheck :: "ftFileCreator \<Rightarrow> u32 list \<times> ftFileCreator" where
  "creator_getChunksToCheck f = (let (cs, m) = getChunksToCheck (fc_map f) in (cs, f\<lparr>fc_map := m\<rparr>))"

definition verifyChunk :: "(bytes \<Rightarrow> bytes) \<Rightarrow> file_answers \<Rightarrow> u32 \<Rightarrow> bytes \<Rightarrow> ftFileCreator \<Rightarrow> bool \<times> ftFileCreator" where
  "verifyChunk sha1sum a chunk_no ref_sum f0 =
     (let (ok, f) = locked_initializeFileAttrs a f0 in
      if \<not> ok then (False, f)
      else (let buff = take csz (drop (unat chunk_no * csz) (fp_file f));
                good = (fa_seek a \<and> fa_read a \<and> buff \<noteq> [] \<and> sha1sum buff = ref_sum)
            in (True, f\<lparr>fc_map := setChunkCheckingResult chunk_no good (fc_map f)\<rparr>)))"

text \<open>The pending requests of \<^verbatim>\<open>getChunkMap\<close>: for each chunk, start (relative to the chunk), size and peer of
  the parts still to arrive.\<close>

definition pending_slices :: "ftFileCreator \<Rightarrow> (u32, (u32 \<times> u32 \<times> RsPeerId) list) std_map" where
  "pending_slices f =
     foldl (\<lambda>t (k, c).
         let n = ucast (ft_id c div ucast (cm_chunk_size (fc_map f))) :: u32
         in map_put n (map_get [] n t @
              [(ucast (ft_offset c - ucast (n * cm_chunk_size (fc_map f))), ucast (ft_size c), ft_peer_id c)]) t)
       [] (fc_chunks f)"

definition getChunkMap :: "ftFileCreator \<Rightarrow> FileChunksInfo \<times> (u32, (u32 \<times> u32 \<times> RsPeerId) list) std_map" where
  "getChunkMap f = (getChunksInfo (fc_map f), pending_slices f)"

end
