(* ===== verification/Chunk_Cover.thy ===== *)
theory Chunk_Cover
  imports Chunk_Props
begin

text \<open>
  Which bytes of a file \<^verbatim>\<open>ftChunkMap\<close> may count as downloaded. \<open>pend\<close> is the set of the slices that are
  awaited; \<open>cover got\<close> says of a set of file positions that every position the map has cut off a chunk is
  in the set or in an awaited slice. Each operation keeps it when the data of a slice is in the set by the
  time \<^verbatim>\<open>dataReceived\<close> is called for it; so a finished chunk has all its bytes in the set.
\<close>

definition pend :: "ChunkMap \<Rightarrow> (u64 \<times> nat) set" where
  "pend m = {(i, sz). 0 < sz \<and> (\<exists>(n, cdi) \<in> set (cm_slices_to_download m).
     \<exists>(j, r) \<in> set (cdi_slices cdi). j = i \<and> unat (sri_size r) = sz)}"

definition span :: "u64 \<times> nat \<Rightarrow> nat set" where
  "span s = {unat (fst s)..<unat (fst s) + snd s}"

definition cut_off :: "ChunkMap \<Rightarrow> nat \<Rightarrow> nat set" where
  "cut_off m n = {b. n * csz \<le> b \<and> b + rest m n < n * csz + chunk_bytes m n}"

definition cover :: "nat set \<Rightarrow> ChunkMap \<Rightarrow> bool" where
  "cover got m = (\<forall>n < length (cm_map m). cm_map m ! n \<noteq> CHUNK_OUTSTANDING \<longrightarrow>
     cut_off m n \<subseteq> got \<union> (\<Union>s \<in> pend m. span s))"

lemma in_pend:
  "(i, sz) \<in> pend m \<longleftrightarrow> 0 < sz \<and> (\<exists>n cdi r. (n, cdi) \<in> set (cm_slices_to_download m) \<and>
     (i, r) \<in> set (cdi_slices cdi) \<and> unat (sri_size r) = sz)"
  by (fastforce simp: pend_def)

lemma pend_home:
  assumes i: "chunkmap_inv m" and n: "(n, cdi) \<in> set (cm_slices_to_download m)" and r: "(j, r) \<in> set (cdi_slices cdi)"
    and b: "b \<in> span (j, unat (sri_size r))"
  shows "b \<in> cut_off m (unat n) \<and> b div csz = unat n"
proof -
  have g: "geometry m" and so: "slices_ok m" using i by (simp_all add: chunkmap_inv_def)
  note ok = slices_entry [OF so n]
  note B = slice_below_cut [OF ok r] geometry_bounds [OF g chunk_okD(1) [OF ok]]
  have "unat n * csz \<le> b" "b + rest m (unat n) < unat n * csz + chunk_bytes m (unat n)"
    using b B by (auto simp: span_def)
  moreover from this have "b div csz = unat n" using B by (intro div_nat_eqI) auto
  ultimately show ?thesis by (simp add: cut_off_def)
qed

lemma pend_eqI:
  assumes "\<And>j r. (\<exists>n d. (n, d) \<in> set (cm_slices_to_download m') \<and> (j, r) \<in> set (cdi_slices d)) \<longleftrightarrow>
    (\<exists>n d. (n, d) \<in> set (cm_slices_to_download m) \<and> (j, r) \<in> set (cdi_slices d))"
  shows "pend m' = pend m"
  using assms unfolding set_eq_iff split_paired_All in_pend by blast

text \<open>A slice that is awaited belongs to one chunk and has one size.\<close>

lemma pend_chunk:
  assumes i: "chunkmap_inv m" and p: "(j, sz) \<in> pend m"
  obtains cdi r where "map_of (cm_slices_to_download m) (of_nat (unat j div csz)) = Some cdi"
    "map_of (cdi_slices cdi) j = Some r" "unat (sri_size r) = sz" "0 < sz"
    "chunk_number m j = of_nat (unat j div csz)"
proof -
  have g: "geometry m" and so: "slices_ok m" using i by (simp_all add: chunkmap_inv_def)
  obtain n cdi r where n: "(n, cdi) \<in> set (cm_slices_to_download m)" "(j, r) \<in> set (cdi_slices cdi)"
    "unat (sri_size r) = sz" "0 < sz" using p by (auto simp: in_pend)
  note ok = slices_entry [OF so n(1)]
  have b: "unat j \<in> cut_off m (unat n) \<and> unat j div csz = unat n"
    using n by (intro pend_home [OF i n(1,2)]) (simp add: span_def)
  then have "of_nat (unat j div csz) = n" by simp
  moreover have "map_of (cm_slices_to_download m) n = Some cdi"
    using so n(1) by (simp add: slices_ok_def map_of_iff)
  moreover have "map_of (cdi_slices cdi) j = Some r" using chunk_okD(3) [OF ok] n(2) by (simp add: map_of_iff)
  moreover have "chunk_number m j = of_nat (unat n)"
    using b by (intro chunk_number_of [OF g chunk_okD(1) [OF ok]]) (auto simp: cut_off_def)
  ultimately show thesis using that n(3,4) by simp
qed

lemma cover_mono: "cover got m \<Longrightarrow> got \<subseteq> got' \<Longrightarrow> cover got' m"
  unfolding cover_def by blast

text \<open>An operation that cuts nothing off: it may only stop to await what is in the set.\<close>

lemma cover_sub:
  assumes "cover got m" "length (cm_map m') = length (cm_map m)" "cm_file_size m' = cm_file_size m"
    and st: "\<And>n. n < length (cm_map m) \<Longrightarrow> cm_map m' ! n \<noteq> CHUNK_OUTSTANDING \<Longrightarrow>
      cm_map m ! n \<noteq> CHUNK_OUTSTANDING \<and> rest m' n = rest m n"
    and sl: "\<And>n s. n < length (cm_map m) \<Longrightarrow> cm_map m' ! n \<noteq> CHUNK_OUTSTANDING \<Longrightarrow> s \<in> pend m \<Longrightarrow> s \<notin> pend m' \<Longrightarrow>
      cut_off m n \<inter> span s \<subseteq> got"
  shows "cover got m'"
  unfolding cover_def
proof (intro allI impI subsetI)
  fix n b assume n: "n < length (cm_map m')" "cm_map m' ! n \<noteq> CHUNK_OUTSTANDING" and b: "b \<in> cut_off m' n"
  have "chunk_bytes m' n = chunk_bytes m n" using assms(2,3) by (intro chunk_bytes_cong)
  then have "b \<in> cut_off m n" using b st n assms(2) by (simp add: cut_off_def)
  then show "b \<in> got \<union> (\<Union>s \<in> pend m'. span s)"
    using assms(1) st [of n] sl [of n] n assms(2) unfolding cover_def by fastforce
qed

lemma cover_same:
  assumes "cover got m" "pend m' = pend m" "length (cm_map m') = length (cm_map m)" "cm_file_size m' = cm_file_size m"
    and "\<And>n. n < length (cm_map m) \<Longrightarrow> cm_map m' ! n \<noteq> CHUNK_OUTSTANDING \<Longrightarrow>
      cm_map m ! n \<noteq> CHUNK_OUTSTANDING \<and> rest m' n = rest m n"
  shows "cover got m'"
  by (rule cover_sub [OF assms(1,3,4)]) (use assms(2,5) in auto)

lemma same_slices [simp]:
  "pend (m\<lparr>cm_peers_chunks_availability := x\<rparr>) = pend m" "cover got (m\<lparr>cm_peers_chunks_availability := x\<rparr>) = cover got m"
  "pend (m\<lparr>cm_strategy := st\<rparr>) = pend m" "cover got (m\<lparr>cm_strategy := st\<rparr>) = cover got m"
  "pend (m\<lparr>cm_chunks_checking_queue := q\<rparr>) = pend m" "cover got (m\<lparr>cm_chunks_checking_queue := q\<rparr>) = cover got m"
  by (simp_all add: pend_def cover_def cut_off_def rest_def chunk_bytes_def cong: if_cong)

subsection \<open>Cutting\<close>

lemma take_slice_pend:
  assumes i: "chunkmap_inv m" and of: "map_of (cm_active_chunks_feed m) p = Some ck"
    and ts: "take_slice now peer hint p ck m = (sl, m')" and h: "hint \<noteq> 0"
  shows "pend m' = insert (ft_id sl, unat (ft_size sl)) (pend m) \<and> (cover got m \<longrightarrow> cover got m')"
proof -
  have g: "geometry m" and so: "slices_ok m" using i by (simp_all add: chunkmap_inv_def)
  have wfs: "map_wf (cm_slices_to_download m)" using so by (simp add: slices_ok_def)
  obtain n cdi cdi' r' ck' where n: "n < length (cm_map m)"
    and cdi: "map_of (cm_slices_to_download m) (of_nat n) = Some cdi" "chunk_ok m n cdi"
    and sl: "unat (ft_offset sl) + rest m n = n * csz + chunk_bytes m n" "ft_id sl = ft_offset sl" "slice_size hint sl"
    and cdi': "cdi_slices cdi' = map_put (ft_offset sl) r' (cdi_slices cdi)" "unat (sri_size r') = unat (ft_size sl)"
    and m': "m' = m\<lparr>cm_slices_to_download := map_put (of_nat n) cdi' (cm_slices_to_download m),
       cm_active_chunks_feed := feed_cut p ck' (cm_active_chunks_feed m)\<rparr>"
    and rest': "\<forall>k. rest m' k + (if k = n then unat (ft_size sl) else 0) = rest m k"
    by (rule take_slice_effect [OF i of ts]) blast
  have wfc: "map_wf (cdi_slices cdi)" using chunk_okD(3) [OF cdi(2)] .
  have cdi_in: "(of_nat n, cdi) \<in> set (cm_slices_to_download m)" using cdi(1) by (rule map_of_SomeD)
  have size: "0 < unat (ft_size sl)" using sl(3) h by (simp add: slice_size_def)
  have old: "unat (sri_size r) = 0" if "(ft_offset sl, r) \<in> set (cdi_slices cdi)" for r
    using slice_below_cut [OF cdi(2) that] sl(1) by simp
  have pend': "pend m' = insert (ft_id sl, unat (ft_size sl)) (pend m)"
  proof (intro set_eqI iffI)
    fix s assume "s \<in> pend m'"
    then obtain j k d r where s: "s = (j, unat (sri_size r))" "0 < unat (sri_size r)"
      "(k, d) \<in> set (cm_slices_to_download m')" "(j, r) \<in> set (cdi_slices d)" by (cases s) (auto simp: in_pend)
    show "s \<in> insert (ft_id sl, unat (ft_size sl)) (pend m)"
      using s cdi' sl(2) cdi_in wfs wfc by (auto simp: m' in_pend split: if_splits)
  next
    fix s assume s: "s \<in> insert (ft_id sl, unat (ft_size sl)) (pend m)"
    show "s \<in> pend m'"
    proof (cases "s = (ft_id sl, unat (ft_size sl))")
      case True
      have "(of_nat n, cdi') \<in> set (cm_slices_to_download m')" using wfs by (simp add: m')
      moreover have "(ft_offset sl, r') \<in> set (cdi_slices cdi')" using wfc by (simp add: cdi')
      ultimately show ?thesis using True size sl(2) cdi'(2) by (auto simp: in_pend)
    next
      case False
      then obtain j k d r where e: "s = (j, unat (sri_size r))" "0 < unat (sri_size r)"
        "(k, d) \<in> set (cm_slices_to_download m)" "(j, r) \<in> set (cdi_slices d)" using s by (cases s) (auto simp: in_pend)
      show ?thesis
      proof (cases "k = of_nat n")
        case True
        then have "d = cdi" using map_wf_unique [OF wfs cdi_in] e(3) by blast
        then have "j \<noteq> ft_offset sl" using old e by auto
        then have "(j, r) \<in> set (cdi_slices cdi')" using e(4) \<open>d = cdi\<close> wfc by (simp add: cdi'(1))
        moreover have "(of_nat n, cdi') \<in> set (cm_slices_to_download m')" using wfs by (simp add: m')
        ultimately show ?thesis using e by (auto simp: in_pend)
      next
        case False
        then have "(k, d) \<in> set (cm_slices_to_download m')" using e(3) wfs by (simp add: m')
        then show ?thesis using e by (auto simp: in_pend)
      qed
    qed
  qed
  have "cut_off m' k \<subseteq> cut_off m k \<union> span (ft_id sl, unat (ft_size sl))" for k
  proof -
    have "chunk_bytes m' k = chunk_bytes m k" by (rule chunk_bytes_cong) (simp_all add: m')
    then show ?thesis using rest' [rule_format, of k] sl(1,2) by (auto simp: cut_off_def span_def split: if_splits)
  qed
  moreover have "cm_map m' = cm_map m" by (simp add: m')
  ultimately have "cover got m'" if "cover got m" using that unfolding cover_def pend' by simp blast
  then show ?thesis using pend' by blast
qed

lemma allocate_chunk_pend:
  assumes i: "chunkmap_inv m" and c: "unat c < length (cm_map m)" "cm_map m ! unat c = CHUNK_OUTSTANDING"
    and p: "map_of (cm_active_chunks_feed m) p = None" and al: "allocate_chunk p c m = (ck, m')"
  shows "pend m' = pend m \<and> (cover got m \<longrightarrow> cover got m')"
proof -
  define cdi where "cdi = default_cdi\<lparr>cdi_remains := sizeOfChunk m c\<rparr>"
  note A = allocate_chunk_effect [OF assms, folded cdi_def]
  have m': "m' = m\<lparr>cm_active_chunks_feed := map_put p ck (cm_active_chunks_feed m),
      cm_map := (cm_map m)[unat c := CHUNK_ACTIVE], cm_slices_to_download := map_put c cdi (cm_slices_to_download m)\<rparr>"
    and none: "map_of (cm_slices_to_download m) c = None"
    and rest': "\<And>k. rest m' k = rest m k + (if k = unat c then chunk_bytes m (unat c) else 0)"
    using A by blast+
  have wfs: "map_wf (cm_slices_to_download m)" using i by (simp add: chunkmap_inv_def slices_ok_def)
  have "(n, d) \<in> set (cm_slices_to_download m') \<longleftrightarrow> (n, d) = (c, cdi) \<or> (n, d) \<in> set (cm_slices_to_download m)" for n d
    using wfs none by (auto simp: m' map_of_eq_None_iff image_iff split: if_splits)
  moreover have "cdi_slices cdi = []" by (simp add: cdi_def default_cdi_def)
  ultimately have pend': "pend m' = pend m" by (intro pend_eqI) fastforce
  have bytes: "chunk_bytes m' k = chunk_bytes m k" for k by (rule chunk_bytes_cong) (simp_all add: m')
  have "cut_off m' (unat c) = {}" using rest' [of "unat c"] by (auto simp: cut_off_def bytes)
  moreover have "cut_off m' k = cut_off m k" if "k \<noteq> unat c" for k using rest' [of k] that by (simp add: cut_off_def bytes)
  moreover have "cm_map m' ! k = cm_map m ! k" if "k \<noteq> unat c" for k using that by (simp add: m')
  moreover have "length (cm_map m') = length (cm_map m)" by (simp add: m')
  ultimately have "cover got m'" if "cover got m" using that unfolding cover_def pend' by (metis empty_subsetI)
  then show ?thesis using pend' by blast
qed

lemma getDataChunk_pend:
  assumes i: "chunkmap_inv m" and gd: "getDataChunk slow now rnd peer hint needed m = (r, needed', m')" and h: "hint \<noteq> 0"
  shows "pend m' = (case r of None \<Rightarrow> pend m | Some sl \<Rightarrow> insert (ft_id sl, unat (ft_size sl)) (pend m)) \<and>
    (cover got m \<longrightarrow> cover got m')"
proof (cases r)
  case None
  then show ?thesis using getDataChunk_shape [OF i gd] by auto
next
  case (Some sl)
  then obtain x p ck m1 where m1: "chunkmap_inv m1" "map_of (cm_active_chunks_feed m1) p = Some ck"
    "take_slice now peer hint p ck m1 = (sl, m')"
    and or: "m1 = m\<lparr>cm_peers_chunks_availability := x\<rparr> \<or>
         (\<exists>c. unat c < length (cm_map m) \<and> cm_map m ! unat c = CHUNK_OUTSTANDING \<and>
            map_of (cm_active_chunks_feed m) peer = None \<and>
            allocate_chunk peer c (m\<lparr>cm_peers_chunks_availability := x\<rparr>) = (ck, m1))"
    using getDataChunk_shape [OF i gd] by (simp only: option.case) blast
  from or have "pend m1 = pend m \<and> (cover got m \<longrightarrow> cover got m1)"
  proof
    assume "\<exists>c. unat c < length (cm_map m) \<and> cm_map m ! unat c = CHUNK_OUTSTANDING \<and>
      map_of (cm_active_chunks_feed m) peer = None \<and>
      allocate_chunk peer c (m\<lparr>cm_peers_chunks_availability := x\<rparr>) = (ck, m1)"
    then obtain c where "unat c < length (cm_map m)" "cm_map m ! unat c = CHUNK_OUTSTANDING"
      "map_of (cm_active_chunks_feed m) peer = None"
      "allocate_chunk peer c (m\<lparr>cm_peers_chunks_availability := x\<rparr>) = (ck, m1)" by blast
    then show ?thesis
      using allocate_chunk_pend [of "m\<lparr>cm_peers_chunks_availability := x\<rparr>" c peer ck m1 got] i by simp
  qed simp
  then show ?thesis using take_slice_pend [OF m1 h, of got] Some by simp
qed

subsection \<open>Receiving and giving up\<close>

lemma dataReceived_cases:
  assumes i: "chunkmap_inv m" and p: "(cid, sz) \<in> pend m"
  obtains n cdi r where "(n, cdi) \<in> set (cm_slices_to_download m)" "(cid, r) \<in> set (cdi_slices cdi)" "unat (sri_size r) = sz"
    "cdi_remains cdi - sri_size r \<noteq> 0"
    "\<exists>t. dataReceived now cid m = m\<lparr>cm_total_downloaded := t,
       cm_slices_to_download := map_put n (cdi\<lparr>cdi_remains := cdi_remains cdi - sri_size r,
         cdi_slices := map_erase cid (cdi_slices cdi), cdi_last_data_received := now\<rparr>) (cm_slices_to_download m)\<rparr>"
  | n cdi r where "(n, cdi) \<in> set (cm_slices_to_download m)" "(cid, r) \<in> set (cdi_slices cdi)" "unat (sri_size r) = sz"
    "cdi_remains cdi - sri_size r = 0"
    "\<exists>t st q c. st \<noteq> CHUNK_OUTSTANDING \<and> st \<noteq> CHUNK_ACTIVE \<and> dataReceived now cid m = m\<lparr>cm_total_downloaded := t,
       cm_slices_to_download := map_erase n (cm_slices_to_download m), cm_map := (cm_map m)[unat n := st],
       cm_chunks_checking_queue := q, cm_file_is_complete := c\<rparr>"
proof -
  obtain cdi r where c: "map_of (cm_slices_to_download m) (of_nat (unat cid div csz)) = Some cdi"
    "map_of (cdi_slices cdi) cid = Some r" "unat (sri_size r) = sz"
    and cn: "chunk_number m cid = of_nat (unat cid div csz)" by (rule pend_chunk [OF i p])
  let ?d = "dataReceived now cid m"
  define n where "n = chunk_number m cid"
  have n: "ucast (cid div ucast (cm_chunk_size m)) = n" by (simp add: n_def chunk_number_def)
  have cdi: "map_of (cm_slices_to_download m) n = Some cdi" using c(1) cn by (simp add: n_def)
  show thesis
  proof (cases "cdi_remains cdi - sri_size r = 0")
    case False
    show thesis
      by (rule that(1) [of n cdi r])
        (use False cdi c n in \<open>auto dest: map_of_SomeD simp: dataReceived_def Let_def\<close>)
  next
    case True
    have "\<exists>t st q c. st \<noteq> CHUNK_OUTSTANDING \<and> st \<noteq> CHUNK_ACTIVE \<and> dataReceived now cid m = m\<lparr>cm_total_downloaded := t,
       cm_slices_to_download := map_erase n (cm_slices_to_download m), cm_map := (cm_map m)[unat n := st],
       cm_chunks_checking_queue := q, cm_file_is_complete := c\<rparr>"
    proof (cases "0 <s n \<or> cm_file_size m > ucast CHUNKMAP_FIXED_CHUNK_SIZE")
      case big: True
      then show ?thesis
        using True cdi c n
        by (intro exI [of _ "cm_total_downloaded ?d"] exI [of _ CHUNK_CHECKING] exI [of _ "cm_chunks_checking_queue ?d"]
            exI [of _ "cm_file_is_complete ?d"])
          (simp add: dataReceived_def Let_def updateTotalDownloaded_def)
    next
      case small: False
      then show ?thesis
        using True cdi c n
        by (intro exI [of _ "cm_total_downloaded ?d"] exI [of _ CHUNK_DONE] exI [of _ "cm_chunks_checking_queue ?d"]
            exI [of _ "cm_file_is_complete ?d"])
          (simp add: dataReceived_def Let_def updateTotalDownloaded_def)
    qed
    then show thesis
      by (intro that(2) [of n cdi r]) (use True cdi c in \<open>auto dest: map_of_SomeD\<close>)
  qed
qed

lemma pend_same_offset:
  assumes i: "chunkmap_inv m" and n: "(n, cdi) \<in> set (cm_slices_to_download m)" "(j, r) \<in> set (cdi_slices cdi)"
      "0 < unat (sri_size r)"
    and k: "(k, d) \<in> set (cm_slices_to_download m)" "(j, q) \<in> set (cdi_slices d)" "0 < unat (sri_size q)"
  shows "k = n \<and> d = cdi \<and> q = r"
proof -
  have so: "slices_ok m" using i by (simp add: chunkmap_inv_def)
  have "unat j div csz = unat n" "unat j div csz = unat k"
    using pend_home [OF i n(1,2), of "unat j"] pend_home [OF i k(1,2), of "unat j"] n(3) k(3)
    by (simp_all add: span_def)
  then have "k = n" by (simp add: word_unat_eq_iff)
  moreover from this have "d = cdi" using so n(1) k(1) map_wf_unique by (auto simp: slices_ok_def)
  moreover from this have "q = r"
    using n(2) k(2) map_wf_unique [OF chunk_okD(3) [OF slices_entry [OF so n(1)]]] by blast
  ultimately show ?thesis by simp
qed

lemma pend_erase:
  assumes i: "chunkmap_inv m" and n: "(n, cdi) \<in> set (cm_slices_to_download m)" "(cid, r) \<in> set (cdi_slices cdi)"
      "0 < unat (sri_size r)"
    and others: "\<And>k d j q. k \<noteq> n \<Longrightarrow> (k, d) \<in> set (cm_slices_to_download m') \<longleftrightarrow> (k, d) \<in> set (cm_slices_to_download m)"
    and same: "\<And>j q. 0 < unat (sri_size q) \<Longrightarrow>
      (\<exists>d. (n, d) \<in> set (cm_slices_to_download m') \<and> (j, q) \<in> set (cdi_slices d)) \<longleftrightarrow>
      j \<noteq> cid \<and> (j, q) \<in> set (cdi_slices cdi)"
  shows "pend m' = pend m - {(cid, unat (sri_size r))}"
proof -
  have wfs: "map_wf (cm_slices_to_download m)" using i by (simp add: chunkmap_inv_def slices_ok_def)
  have "(\<exists>k d. (k, d) \<in> set (cm_slices_to_download m') \<and> (j, q) \<in> set (cdi_slices d)) \<longleftrightarrow>
      j \<noteq> cid \<and> (\<exists>k d. (k, d) \<in> set (cm_slices_to_download m) \<and> (j, q) \<in> set (cdi_slices d))"
    if "0 < unat (sri_size q)" for j q
    using same [OF that, of j] others pend_same_offset [OF i n, of _ _ q] that n(1) map_wf_unique [OF wfs n(1)]
    by metis
  moreover have "sri_size q = sri_size r"
    if "(k, d) \<in> set (cm_slices_to_download m)" "(cid, q) \<in> set (cdi_slices d)" "0 < unat (sri_size q)" for k d q
    using pend_same_offset [OF i n that] by simp
  ultimately show ?thesis
    unfolding set_eq_iff split_paired_All in_pend Diff_iff singleton_iff prod.inject by metis
qed

lemma dataReceived_pend:
  assumes i: "chunkmap_inv m" and p: "(cid, sz) \<in> pend m"
  shows "pend (dataReceived now cid m) = pend m - {(cid, sz)} \<and>
    (cover got m \<and> span (cid, sz) \<subseteq> got \<longrightarrow> cover got (dataReceived now cid m))"
proof -
  let ?m = "dataReceived now cid m"
  have so: "slices_ok m" using i by (simp add: chunkmap_inv_def)
  have wfs: "map_wf (cm_slices_to_download m)" using so by (simp add: slices_ok_def)
  have pos: "0 < sz" using p by (simp add: in_pend)
  have fin: ?thesis if "pend ?m = pend m - {(cid, sz)}" "length (cm_map ?m) = length (cm_map m)"
      "cm_file_size ?m = cm_file_size m" "cm_active_chunks_feed ?m = cm_active_chunks_feed m"
      "\<And>k. k < length (cm_map m) \<Longrightarrow> cm_map ?m ! k \<noteq> CHUNK_OUTSTANDING \<Longrightarrow> cm_map m ! k \<noteq> CHUNK_OUTSTANDING"
    using that cover_sub [of got m ?m] by (auto simp: rest_def)
  from i p show ?thesis
  proof (cases rule: dataReceived_cases [where now = now])
    case (1 n cdi r)
    then have m': "cm_slices_to_download ?m = map_put n (cdi\<lparr>cdi_remains := cdi_remains cdi - sri_size r,
         cdi_slices := map_erase cid (cdi_slices cdi), cdi_last_data_received := now\<rparr>) (cm_slices_to_download m)"
      "cm_map ?m = cm_map m" "cm_file_size ?m = cm_file_size m" "cm_active_chunks_feed ?m = cm_active_chunks_feed m"
      by auto
    have "pend ?m = pend m - {(cid, unat (sri_size r))}"
      using pos 1(3) wfs by (intro pend_erase [OF i 1(1,2)]) (auto simp: m')
    then show ?thesis using fin 1(3) m' by simp
  next
    case (2 n cdi r)
    then obtain st where m': "cm_slices_to_download ?m = map_erase n (cm_slices_to_download m)"
      "cm_map ?m = (cm_map m)[unat n := st]" "cm_file_size ?m = cm_file_size m" "st \<noteq> CHUNK_OUTSTANDING"
      "cm_active_chunks_feed ?m = cm_active_chunks_feed m" by auto
    note ok = slices_entry [OF so 2(1)] and o = chunk_okD [OF slices_entry [OF so 2(1)]]
    have "entry_sum (\<lambda>i r. unat (sri_size r)) (map_erase cid (cdi_slices cdi)) + unat (sri_size r) = pending cdi"
      using entry_sum_erase [OF o(3), of "\<lambda>i r. unat (sri_size r)" cid] 2(2)
      by (simp add: pending_def map_of_iff [OF o(3), THEN iffD2])
    then have "entry_sum (\<lambda>i r. unat (sri_size r)) (map_erase cid (cdi_slices cdi)) = 0"
      using o(4) 2(4) by simp
    then have none: "unat (sri_size q) = 0" if "(j, q) \<in> set (cdi_slices cdi)" "j \<noteq> cid" for j q
      using that entry_sum_member [of j q "map_erase cid (cdi_slices cdi)" "\<lambda>i r. unat (sri_size r)"] by simp
    have "pend ?m = pend m - {(cid, unat (sri_size r))}"
      using pos 2(3) none by (intro pend_erase [OF i 2(1,2)]) (fastforce simp: m')+
    moreover have "cm_map m ! k \<noteq> CHUNK_OUTSTANDING"
      if "k < length (cm_map m)" "cm_map ?m ! k \<noteq> CHUNK_OUTSTANDING" for k
      using that o(2) by (cases "k = unat n") (simp_all add: m')
    ultimately show ?thesis using fin 2(3) m' by simp
  qed
qed

lemma remove_chunk_pend:
  assumes i: "chunkmap_inv m" and e: "(n, cdi) \<in> set (cm_slices_to_download m)"
  shows "pend (remove_chunk n cdi m) = {s \<in> pend m. unat (fst s) div csz \<noteq> unat n} \<and>
    (cover got m \<longrightarrow> cover got (remove_chunk n cdi m))"
proof -
  let ?m = "remove_chunk n cdi m"
  have g: "geometry m" and so: "slices_ok m" using i by (simp_all add: chunkmap_inv_def)
  have home: "unat j div csz = unat k" if "(k, d) \<in> set (cm_slices_to_download m)" "(j, r) \<in> set (cdi_slices d)"
      "0 < unat (sri_size r)" for j k d r
    using pend_home [OF i that(1,2), of "unat j"] that(3) by (simp add: span_def)
  have pend': "pend ?m = {s \<in> pend m. unat (fst s) div csz \<noteq> unat n}"
    unfolding set_eq_iff split_paired_All in_pend mem_Collect_eq fst_conv remove_chunk_def
    using home by (auto simp: word_unat_eq_iff) metis+
  have n: "unat n < length (cm_map m)" using chunk_okD(1) [OF slices_entry [OF so e]] .
  have "cover got ?m" if c: "cover got m"
  proof (rule cover_sub [OF c])
    fix k assume k: "k < length (cm_map m)" "cm_map ?m ! k \<noteq> CHUNK_OUTSTANDING"
    have kn: "k \<noteq> unat n" using k n by (auto simp: remove_chunk_def)
    have "cm_active_chunks_feed ?m = filter (\<lambda>(p, ck). unat (ck_start ck) \<noteq> unat n * csz) (cm_active_chunks_feed m)"
      by (rule remove_chunk_feed [OF i e])
    then show "cm_map m ! k \<noteq> CHUNK_OUTSTANDING \<and> rest ?m k = rest m k"
      using rest_filter kn k by (simp add: remove_chunk_def)
    fix s assume s: "s \<in> pend m" "s \<notin> pend ?m"
    then have "unat (fst s) div csz = unat n" by (simp add: pend')
    moreover obtain l d r where "s = (fst s, unat (sri_size r))" "(l, d) \<in> set (cm_slices_to_download m)"
      "(fst s, r) \<in> set (cdi_slices d)" "0 < unat (sri_size r)" using s(1) by (cases s) (auto simp: in_pend)
    ultimately have "b div csz = unat n" if "b \<in> span s" for b
      using pend_home [OF i, of l d "fst s" r b] home that by metis
    moreover have "b div csz = k" if "b \<in> cut_off m k" for b
      using that geometry_bounds [OF g k(1)] by (intro div_nat_eqI) (auto simp: cut_off_def)
    ultimately show "cut_off m k \<inter> span s \<subseteq> got" using kn by fastforce
  qed (simp_all add: remove_chunk_def)
  then show ?thesis using pend' by blast
qed

lemma slice_chunk:
  assumes i: "chunkmap_inv m" and k: "(k, d) \<in> set (cm_slices_to_download m)" "(j, q) \<in> set (cdi_slices d)"
  shows "unat j div csz = unat k"
proof -
  have g: "geometry m" and so: "slices_ok m" using i by (simp_all add: chunkmap_inv_def)
  note ok = slices_entry [OF so k(1)]
  show ?thesis
    using slice_below_cut [OF ok k(2)] geometry_bounds [OF g chunk_okD(1) [OF ok]] by (intro div_nat_eqI) auto
qed

lemma removeInactiveChunks_cover:
  assumes "chunkmap_inv m" "cover got m" "removeInactiveChunks now m = (t, m')"
  shows "cover got m'"
  using removeInactiveChunks_keeps [where Q = "cover got", OF assms] remove_chunk_pend by blast

text \<open>The offsets that are returned are those of the slices no longer awaited.\<close>

lemma removeInactiveChunks_pend:
  assumes i: "chunkmap_inv m" and r: "removeInactiveChunks now m = (t, m')"
  shows "pend m' = {s \<in> pend m. fst s \<notin> set t}"
proof -
  note F = removeInactiveChunks_facts [OF i r]
  have t: "set t = {j. \<exists>k d q. inactive now (k, d) \<and> (k, d) \<in> set (cm_slices_to_download m) \<and> (j, q) \<in> set (cdi_slices d)}"
    using F by (force simp: image_iff)
  have sl: "set (cm_slices_to_download m') = {e \<in> set (cm_slices_to_download m). \<not> inactive now e}" using F by auto
  have home: "unat j div csz = unat k" if "(k, d) \<in> set (cm_slices_to_download m)" "(j, q) \<in> set (cdi_slices d)" for j k d q
    by (rule slice_chunk [OF i that])
  have "j \<in> set t \<longleftrightarrow> inactive now (k, d)"
    if k: "(k, d) \<in> set (cm_slices_to_download m)" "(j, r) \<in> set (cdi_slices d)" for j k d r
  proof
    assume "j \<in> set t"
    then obtain l e q where l: "inactive now (l, e)" "(l, e) \<in> set (cm_slices_to_download m)" "(j, q) \<in> set (cdi_slices e)"
      using t by blast
    then have "l = k" using home [OF k] home [OF l(2,3)] by (simp add: word_unat_eq_iff)
    moreover have "map_wf (cm_slices_to_download m)" using i by (simp add: chunkmap_inv_def slices_ok_def)
    ultimately show "inactive now (k, d)" using l k(1) map_wf_unique by metis
  qed (use k t in blast)
  then show ?thesis unfolding set_eq_iff split_paired_All in_pend mem_Collect_eq fst_conv sl by blast
qed

lemma reAskPendingChunk_pend:
  assumes i: "chunkmap_inv m" and r: "reAskPendingChunk now peer m = (x, m')"
  shows "pend m' = pend m \<and> (cover got m \<longrightarrow> cover got m')"
proof (cases "m' = m")
  case False
  obtain n cdi sid q q' where n: "(n, cdi) \<in> set (cm_slices_to_download m)" "(sid, q) \<in> set (cdi_slices cdi)"
    and q': "sri_size q' = sri_size q"
    and m': "m' = m\<lparr>cm_slices_to_download :=
       map_put n (cdi\<lparr>cdi_slices := map_put sid q' (cdi_slices cdi)\<rparr>) (cm_slices_to_download m)\<rparr>"
    by (rule reAskPendingChunk_shape [OF r False])
  have so: "slices_ok m" using i by (simp add: chunkmap_inv_def)
  then have wfs: "map_wf (cm_slices_to_download m)" by (simp add: slices_ok_def)
  have wfc: "map_wf (cdi_slices cdi)" using chunk_okD(3) [OF slices_entry [OF so n(1)]] .
  define Q where "Q = (\<lambda>j sz (d :: ChunkDownloadInfo). \<exists>r. (j, r) \<in> set (cdi_slices d) \<and> unat (sri_size r) = (sz :: nat))"
  define cdi' where "cdi' = cdi\<lparr>cdi_slices := map_put sid q' (cdi_slices cdi)\<rparr>"
  have "(j, r) \<in> set (cdi_slices cdi') \<longleftrightarrow> (if j = sid then r = q' else (j, r) \<in> set (cdi_slices cdi))" for j r
    using wfc by (simp add: cdi'_def)
  then have sizes: "Q j sz cdi' = Q j sz cdi" for j sz
    using n(2) q' unfolding Q_def by (cases "j = sid") (auto dest: map_wf_unique [OF wfc n(2)])
  have old: "(\<exists>k d. (k, d) \<in> set (cm_slices_to_download m) \<and> Q j sz d) \<longleftrightarrow>
      Q j sz cdi \<or> (\<exists>k d. k \<noteq> n \<and> (k, d) \<in> set (cm_slices_to_download m) \<and> Q j sz d)" for j sz
    using n(1) by (metis map_wf_unique [OF wfs n(1)])
  have "(k, d) \<in> set (cm_slices_to_download m') \<longleftrightarrow> (if k = n then d = cdi' else (k, d) \<in> set (cm_slices_to_download m))" for k d
    using wfs by (simp add: m' cdi'_def)
  then have new: "(\<exists>k d. (k, d) \<in> set (cm_slices_to_download m') \<and> Q j sz d) \<longleftrightarrow>
      Q j sz cdi' \<or> (\<exists>k d. k \<noteq> n \<and> (k, d) \<in> set (cm_slices_to_download m) \<and> Q j sz d)" for j sz
    by (metis (full_types))
  have p: "pend m' = pend m"
    using new [unfolded sizes, folded old] unfolding set_eq_iff split_paired_All in_pend Q_def by blast
  have "cover got m'" if "cover got m"
    by (rule cover_same [OF that p]) (simp_all add: m' rest_def)
  then show ?thesis using p by blast
qed simp

lemma setChunkCheckingResult_cover:
  assumes i: "chunkmap_inv m" and n: "unat n < length (cm_map m)"
  shows "pend (setChunkCheckingResult n ok m) = pend m \<and> (cover got m \<longrightarrow> cover got (setChunkCheckingResult n ok m))"
proof -
  let ?m = "setChunkCheckingResult n ok m"
  have p: "pend ?m = pend m" by (auto simp: setChunkCheckingResult_def Let_def pend_def)
  have "cover got ?m" if "cover got m"
    by (rule cover_same [OF that p])
      (use n in \<open>auto simp: setChunkCheckingResult_def Let_def rest_def nth_list_update split: if_splits\<close>)
  then show ?thesis using p by blast
qed

text \<open>A chunk that is finished has all its bytes in the set.\<close>

lemma cover_done:
  assumes i: "chunkmap_inv m" and c: "cover got m" and n: "n < length (cm_map m)" "is_done_or_checking (cm_map m ! n)"
  shows "{n * csz..<n * csz + chunk_bytes m n} \<subseteq> got"
proof
  fix b assume b: "b \<in> {n * csz..<n * csz + chunk_bytes m n}"
  have so: "slices_ok m" and g: "geometry m" using i by (simp_all add: chunkmap_inv_def)
  have "rest m n = 0" using no_rest [OF i] n(2) by (auto simp: is_done_or_checking_def)
  then have "b \<in> cut_off m n" using b by (simp add: cut_off_def)
  moreover have "cm_map m ! n \<noteq> CHUNK_OUTSTANDING" using n(2) by (auto simp: is_done_or_checking_def)
  ultimately have "b \<in> got \<union> (\<Union>s \<in> pend m. span s)" using c n(1) unfolding cover_def by blast
  moreover have "b \<notin> span s" if s: "s \<in> pend m" for s
  proof
    assume bs: "b \<in> span s"
    obtain k d r where k: "(k, d) \<in> set (cm_slices_to_download m)" "(fst s, r) \<in> set (cdi_slices d)" "s = (fst s, unat (sri_size r))"
      using s by (cases s) (auto simp: in_pend)
    have "b div csz = unat k" using pend_home [OF i k(1,2)] bs k(3) by simp
    moreover have "b div csz = n" using b geometry_bounds [OF g n(1)] by (intro div_nat_eqI) auto
    ultimately show False using chunk_okD(2) [OF slices_entry [OF so k(1)]] n(2) by (simp add: is_done_or_checking_def)
  qed
  ultimately show "b \<in> got" by blast
qed

lemma new_cover: "cover got (make_ChunkMap s av) \<and> pend (make_ChunkMap s av) = {}"
  by (auto simp: cover_def make_ChunkMap_def Let_def pend_def)

end
