(* ===== verification/Creator_Inv.thy ===== *)
theory Creator_Inv
  imports File_Creator Chunk_Cover
begin

text \<open>
  The table of the parts to arrive, \<^verbatim>\<open>mChunks\<close>, and its counters: the invariant that ties them to the
  awaited slices of the chunk map, and that every call of \<^verbatim>\<open>ftFileCreator\<close> keeps it. With it a byte that
  the chunk map counts as downloaded has been written to the file.
\<close>

subsection \<open>The table\<close>

type_synonym part_table = "(u64, ftSlice) std_map"

definition part_span :: "ftSlice \<Rightarrow> nat set" where
  "part_span c = {unat (ft_offset c)..<unat (ft_offset c) + unat (ft_size c)}"

definition parts :: "part_table \<Rightarrow> nat \<Rightarrow> (u64 \<times> ftSlice) set" where
  "parts t r = {e \<in> set t. ft_ref_cnt (snd e) = r}"

text \<open>\<open>P\<close> is the set of awaited slices. Parts are keyed by their offset, lie in the slice whose identifier
  they carry, do not overlap, share a counter exactly with the parts of their slice, and the counter
  counts them.\<close>

definition part_ok :: "(u64 \<times> nat) set \<Rightarrow> u64 \<times> ftSlice \<Rightarrow> bool" where
  "part_ok P e = (ft_offset (snd e) = fst e \<and> 0 < unat (ft_size (snd e)) \<and>
     (\<exists>sz. (ft_id (snd e), sz) \<in> P \<and> part_span (snd e) \<subseteq> span (ft_id (snd e), sz)))"

definition table_ok :: "(u64 \<times> nat) set \<Rightarrow> part_table \<Rightarrow> (nat, int) std_map \<Rightarrow> bool" where
  "table_ok P t refs =
     (map_wf t \<and> map_wf refs \<and> (\<forall>e \<in> set t. part_ok P e) \<and>
      (\<forall>e \<in> set t. \<forall>d \<in> set t. e \<noteq> d \<longrightarrow> part_span (snd e) \<inter> part_span (snd d) = {}) \<and>
      (\<forall>e \<in> set t. \<forall>d \<in> set t. ft_id (snd e) = ft_id (snd d) \<longleftrightarrow> ft_ref_cnt (snd e) = ft_ref_cnt (snd d)) \<and>
      (\<forall>e \<in> set t. map_of refs (ft_ref_cnt (snd e)) = Some (int (card (parts t (ft_ref_cnt (snd e)))))))"

lemma part_okD:
  assumes "part_ok P e"
  shows "ft_offset (snd e) = fst e" "0 < unat (ft_size (snd e))"
    "\<exists>sz. (ft_id (snd e), sz) \<in> P \<and> part_span (snd e) \<subseteq> span (ft_id (snd e), sz)"
  using assms by (simp_all add: part_ok_def)

lemma table_okD:
  assumes "table_ok P t refs"
  shows "map_wf t" "map_wf refs" "e \<in> set t \<Longrightarrow> part_ok P e"
    "e \<in> set t \<Longrightarrow> d \<in> set t \<Longrightarrow> e \<noteq> d \<Longrightarrow> part_span (snd e) \<inter> part_span (snd d) = {}"
    "e \<in> set t \<Longrightarrow> d \<in> set t \<Longrightarrow> ft_id (snd e) = ft_id (snd d) \<longleftrightarrow> ft_ref_cnt (snd e) = ft_ref_cnt (snd d)"
    "e \<in> set t \<Longrightarrow> map_of refs (ft_ref_cnt (snd e)) = Some (int (card (parts t (ft_ref_cnt (snd e)))))"
  using assms unfolding table_ok_def by blast+

lemma finite_parts [simp]: "finite (parts t r)"
  by (simp add: parts_def)

text \<open>Every awaited byte is in the file or in a part.\<close>

definition arriving :: "(u64 \<times> nat) set \<Rightarrow> nat set \<Rightarrow> part_table \<Rightarrow> bool" where
  "arriving P got t = (\<forall>s \<in> P. \<forall>b \<in> span s. b \<in> got \<or> (\<exists>e \<in> set t. ft_id (snd e) = fst s \<and> b \<in> part_span (snd e)))"

text \<open>A part \<open>e\<close> is replaced by the parts \<open>N\<close> of it: none, one, or two.\<close>

definition piece :: "u64 \<times> ftSlice \<Rightarrow> u64 \<times> ftSlice \<Rightarrow> bool" where
  "piece e d = (ft_offset (snd d) = fst d \<and> 0 < unat (ft_size (snd d)) \<and> ft_id (snd d) = ft_id (snd e) \<and>
     ft_ref_cnt (snd d) = ft_ref_cnt (snd e) \<and> part_span (snd d) \<subseteq> part_span (snd e))"

definition cut_into :: "u64 \<times> ftSlice \<Rightarrow> (u64 \<times> ftSlice) set \<Rightarrow> bool" where
  "cut_into e N = (finite N \<and> (\<forall>d \<in> N. piece e d) \<and>
     (\<forall>d \<in> N. \<forall>d' \<in> N. d \<noteq> d' \<longrightarrow> part_span (snd d) \<inter> part_span (snd d') = {}))"

lemma pieceD:
  assumes "piece e d"
  shows "ft_offset (snd d) = fst d" "0 < unat (ft_size (snd d))" "ft_id (snd d) = ft_id (snd e)"
    "ft_ref_cnt (snd d) = ft_ref_cnt (snd e)" "part_span (snd d) \<subseteq> part_span (snd e)" "part_span (snd d) \<noteq> {}"
  using assms by (auto simp: piece_def part_span_def)

lemma cut_intoD:
  assumes "cut_into e N"
  shows "finite N" "d \<in> N \<Longrightarrow> piece e d"
    "d \<in> N \<Longrightarrow> d' \<in> N \<Longrightarrow> d \<noteq> d' \<Longrightarrow> part_span (snd d) \<inter> part_span (snd d') = {}"
  using assms unfolding cut_into_def by blast+

lemma replaced_apart:
  assumes ok: "table_ok P t refs" and e: "e \<in> set t" and N: "cut_into e N" and t': "set t' = (set t - {e}) \<union> N"
    and d: "d \<in> set t'" "d' \<in> set t'" "d \<noteq> d'"
  shows "part_span (snd d) \<inter> part_span (snd d') = {}"
proof -
  have mix: "part_span (snd a) \<inter> part_span (snd b) = {}" if "a \<in> set t - {e}" "b \<in> N" for a b
  proof -
    have "part_span (snd a) \<inter> part_span (snd e) = {}" using that(1) e by (intro table_okD(4) [OF ok]) auto
    then show ?thesis using pieceD(5) [OF cut_intoD(2) [OF N that(2)]] by blast
  qed
  consider "d \<in> N" "d' \<in> N" | "d \<in> N" "d' \<in> set t - {e}" | "d \<in> set t - {e}" "d' \<in> N"
    | "d \<in> set t - {e}" "d' \<in> set t - {e}"
    using d(1,2) unfolding t' by blast
  then show ?thesis
  proof cases
    case 1
    then show ?thesis by (rule cut_intoD(3) [OF N _ _ d(3)])
  next
    case 2
    then show ?thesis using mix [of d' d] by (simp add: Int_commute)
  next
    case 3
    then show ?thesis by (rule mix)
  next
    case 4
    then show ?thesis by (intro table_okD(4) [OF ok _ _ d(3)]) simp_all
  qed
qed

text \<open>The counter counts the pieces instead; when none is left it may go.\<close>

lemma replaced_count:
  assumes ok: "table_ok P t refs" and e: "e \<in> set t" and N: "cut_into e N" and t': "set t' = (set t - {e}) \<union> N"
  shows "card (parts t' (ft_ref_cnt (snd e))) + 1 = card (parts t (ft_ref_cnt (snd e))) + card N"
    "r \<noteq> ft_ref_cnt (snd e) \<Longrightarrow> parts t' r = parts t r"
proof -
  have Nr: "ft_ref_cnt (snd d) = ft_ref_cnt (snd e)" if "d \<in> N" for d using pieceD(4) [OF cut_intoD(2) [OF N that]] .
  show "parts t' r = parts t r" if "r \<noteq> ft_ref_cnt (snd e)" using that Nr unfolding parts_def t' by blast
  let ?r = "ft_ref_cnt (snd e)"
  have eq: "parts t' ?r = (parts t ?r - {e}) \<union> N" using Nr unfolding parts_def t' by blast
  have "d \<notin> set t - {e}" if d: "d \<in> N" for d
  proof
    assume "d \<in> set t - {e}"
    then have "part_span (snd d) \<inter> part_span (snd e) = {}" using e by (intro table_okD(4) [OF ok]) auto
    then show False using pieceD(5,6) [OF cut_intoD(2) [OF N d]] by blast
  qed
  then have dj: "(parts t ?r - {e}) \<inter> N = {}" unfolding parts_def by blast
  have "e \<in> parts t ?r" using e by (simp add: parts_def)
  then have "card (parts t ?r - {e}) + 1 = card (parts t ?r)" using card.remove [of "parts t ?r" e] by simp
  then show "card (parts t' ?r) + 1 = card (parts t ?r) + card N"
    unfolding eq using card_Un_disjoint [OF _ cut_intoD(1) [OF N] dj] by simp
qed

lemma replace_part:
  assumes ok: "table_ok P t refs" and e: "e \<in> set t" and N: "cut_into e N"
    and wf: "map_wf t'" and t': "set t' = (set t - {e}) \<union> N"
    and refs': "map_wf refs'" "\<And>r. r \<noteq> ft_ref_cnt (snd e) \<Longrightarrow> map_of refs' r = map_of refs r"
      "parts t' (ft_ref_cnt (snd e)) \<noteq> {} \<Longrightarrow> map_of refs' (ft_ref_cnt (snd e)) =
         Some (int (card (parts t (ft_ref_cnt (snd e)))) - 1 + int (card N))"
  shows "table_ok P t' refs'"
proof -
  have origin: "\<exists>a \<in> set t. ft_id (snd d) = ft_id (snd a) \<and> ft_ref_cnt (snd d) = ft_ref_cnt (snd a)"
    if "d \<in> set t'" for d
    using that e pieceD(3,4) [OF cut_intoD(2) [OF N]] unfolding t' by blast
  have "part_ok P d" if d: "d \<in> set t'" for d
  proof (cases "d \<in> N")
    case True
    note q = pieceD [OF cut_intoD(2) [OF N True]]
    obtain sz where "(ft_id (snd e), sz) \<in> P" "part_span (snd e) \<subseteq> span (ft_id (snd e), sz)"
      using part_okD(3) [OF table_okD(3) [OF ok e]] by blast
    then have "(ft_id (snd d), sz) \<in> P \<and> part_span (snd d) \<subseteq> span (ft_id (snd d), sz)" using q(3,5) by simp
    then show ?thesis unfolding part_ok_def using q(1,2) by blast
  next
    case False
    then show ?thesis using d unfolding t' by (intro table_okD(3) [OF ok]) blast
  qed
  moreover have "ft_id (snd d) = ft_id (snd d') \<longleftrightarrow> ft_ref_cnt (snd d) = ft_ref_cnt (snd d')"
    if dd: "d \<in> set t'" "d' \<in> set t'" for d d'
  proof -
    obtain a where a: "a \<in> set t" "ft_id (snd d) = ft_id (snd a)" "ft_ref_cnt (snd d) = ft_ref_cnt (snd a)"
      using origin [OF dd(1)] by blast
    obtain b where b: "b \<in> set t" "ft_id (snd d') = ft_id (snd b)" "ft_ref_cnt (snd d') = ft_ref_cnt (snd b)"
      using origin [OF dd(2)] by blast
    show ?thesis using table_okD(5) [OF ok a(1) b(1)] a b by simp
  qed
  moreover have "map_of refs' (ft_ref_cnt (snd d)) = Some (int (card (parts t' (ft_ref_cnt (snd d)))))" if d: "d \<in> set t'" for d
  proof (cases "ft_ref_cnt (snd d) = ft_ref_cnt (snd e)")
    case False
    obtain a where a: "a \<in> set t" "ft_ref_cnt (snd d) = ft_ref_cnt (snd a)" using origin [OF d] by blast
    then show ?thesis
      using table_okD(6) [OF ok a(1)] refs'(2) [OF False] replaced_count(2) [OF ok e N t' False] by simp
  next
    case True
    have "parts t' (ft_ref_cnt (snd e)) \<noteq> {}" using d True unfolding parts_def by blast
    then show ?thesis using refs'(3) replaced_count(1) [OF ok e N t'] unfolding True by simp
  qed
  ultimately show ?thesis using wf refs'(1) replaced_apart [OF ok e N t'] unfolding table_ok_def by blast
qed

lemma replace_arriving:
  assumes a: "arriving P got t" and t': "set t' = (set t - {e}) \<union> N" and N: "cut_into e N"
    and c: "part_span (snd e) \<subseteq> got' \<union> (\<Union>d \<in> N. part_span (snd d))" and g: "got \<subseteq> got'"
  shows "arriving P got' t'"
  unfolding arriving_def
proof (intro ballI)
  fix s b assume s: "s \<in> P" "b \<in> span s"
  then consider "b \<in> got" | d where "d \<in> set t" "ft_id (snd d) = fst s" "b \<in> part_span (snd d)"
    using a unfolding arriving_def by blast
  then show "b \<in> got' \<or> (\<exists>e \<in> set t'. ft_id (snd e) = fst s \<and> b \<in> part_span (snd e))"
  proof cases
    case 2
    show ?thesis
    proof (cases "d = e")
      case True
      then consider "b \<in> got'" | d' where "d' \<in> N" "b \<in> part_span (snd d')" using 2(3) c by blast
      then show ?thesis using 2(2) True pieceD(3) [OF cut_intoD(2) [OF N]] unfolding t' by cases auto
    qed (use 2 t' in blast)
  qed (use g in blast)
qed

subsection \<open>A packet arrives\<close>

text \<open>What \<^verbatim>\<open>locked_notifyReceived\<close> does to the table for a packet \<open>{off..<off + sz}\<close>: it replaces one part
  by at most two, and calls \<^verbatim>\<open>dataReceived\<close> when that was the last part of its slice.\<close>

definition packet :: "u64 \<Rightarrow> u32 \<Rightarrow> nat set" where
  "packet off sz = {unat off..<unat off + unat sz}"

text \<open>The packets the code was written for: not empty, inside the file, no longer than the part that starts
  at their offset.\<close>

definition packet_ok :: "u64 \<Rightarrow> u32 \<Rightarrow> ftFileCreator \<Rightarrow> bool" where
  "packet_ok off sz f = (0 < sz \<and> unat off + unat sz \<le> unat (fp_size f) \<and>
     (case map_of (fc_chunks f) off of Some c \<Rightarrow> ucast sz \<le> ft_size c | None \<Rightarrow> True))"

lemma word_diff: "(b :: u64) \<le> a \<Longrightarrow> unat (a - b) = unat a - unat b"
  by (simp add: unat_sub word_le_nat_alt)

lemma word_sum: "unat (a :: u64) + unat b < 2 ^ 51 \<Longrightarrow> unat (a + b) = unat a + unat b"
  by (simp add: unat_word_ariths)

lemma set_map_put: "map_wf t \<Longrightarrow> set (map_put k v t) = {e \<in> set t. fst e \<noteq> k} \<union> {(k, v)}"
  by (auto split: if_splits)

lemma set_map_erase: "set (map_erase k t) = {e \<in> set t. fst e \<noteq> k}"
  by (auto simp: map_erase_def)

lemma part_bound:
  assumes "part_ok P e" and P: "\<And>s. s \<in> P \<Longrightarrow> unat (fst s) + snd s < 2 ^ 51"
  shows "unat (fst e) + unat (ft_size (snd e)) < 2 ^ 51"
proof -
  note p = part_okD [OF assms(1)]
  obtain sz where sz: "(ft_id (snd e), sz) \<in> P" "part_span (snd e) \<subseteq> span (ft_id (snd e), sz)" using p(3) by blast
  then show ?thesis using P [OF sz(1)] p(1,2) by (simp add: part_span_def span_def)
qed

text \<open>Inside a part no other part starts.\<close>

lemma other_key:
  assumes ok: "table_ok P t refs" and e: "e \<in> set t" "d \<in> set t" "unat (fst d) \<in> part_span (snd e)"
  shows "d = e"
proof (rule ccontr)
  assume "d \<noteq> e"
  then have "part_span (snd d) \<inter> part_span (snd e) = {}" by (intro table_okD(4) [OF ok e(2,1)])
  moreover have "unat (fst d) \<in> part_span (snd d)"
    using part_okD(1,2) [OF table_okD(3) [OF ok e(2)]] by (simp add: part_span_def)
  ultimately show False using e(3) by blast
qed

lemma same_key:
  assumes ok: "table_ok P t refs" and e: "e \<in> set t" "d \<in> set t" "fst d = fst e"
  shows "d = e"
  using part_okD(1,2) [OF table_okD(3) [OF ok e(1)]] e(3) by (intro other_key [OF ok e(1,2)]) (simp add: part_span_def)

lemma only_key:
  assumes "table_ok P t refs" "e \<in> set t"
  shows "{d \<in> set t. fst d \<noteq> fst e} = set t - {e}"
  using same_key [OF assms] by blast

lemma part_span_cut [simp]: "part_span (c\<lparr>ft_offset := p, ft_size := s\<rparr>) = {unat p..<unat p + unat s}"
  "part_span (c\<lparr>ft_size := s, ft_offset := p\<rparr>) = {unat p..<unat p + unat s}"
  "part_span (c\<lparr>ft_size := s\<rparr>) = {unat (ft_offset c)..<unat (ft_offset c) + unat s}"
  by (simp_all add: part_span_def)

lemma counter_zero:
  assumes ok: "table_ok P t refs" and e: "e \<in> set t"
  shows "map_get 0 (ft_ref_cnt (snd e)) refs = int (card (parts t (ft_ref_cnt (snd e))))"
    "int (card (parts t (ft_ref_cnt (snd e)))) - 1 = 0 \<longleftrightarrow> parts t (ft_ref_cnt (snd e)) = {e}"
    "0 < card (parts t (ft_ref_cnt (snd e)))"
proof -
  show "map_get 0 (ft_ref_cnt (snd e)) refs = int (card (parts t (ft_ref_cnt (snd e))))"
    using table_okD(6) [OF ok e] by (simp add: map_get_def)
  have p: "e \<in> parts t (ft_ref_cnt (snd e))" using e by (simp add: parts_def)
  then show "0 < card (parts t (ft_ref_cnt (snd e)))" by (auto simp: card_gt_0_iff)
  have "card (parts t (ft_ref_cnt (snd e))) = 1 \<longleftrightarrow> parts t (ft_ref_cnt (snd e)) = {e}"
    using p by (auto simp: card_1_singleton_iff)
  then show "int (card (parts t (ft_ref_cnt (snd e)))) - 1 = 0 \<longleftrightarrow> parts t (ft_ref_cnt (snd e)) = {e}" by auto
qed

lemma notify_effect:
  assumes ok: "table_ok P (fc_chunks f) (fc_refs f)" and P: "\<And>s. s \<in> P \<Longrightarrow> unat (fst s) + snd s < 2 ^ 51"
    and pk: "packet_ok off sz f" "unat (fp_size f) < 2 ^ 51"
    and n: "locked_notifyReceived now off sz f = (True, f')"
  obtains e N where "e \<in> set (fc_chunks f)" "cut_into e N" "set (fc_chunks f') = (set (fc_chunks f) - {e}) \<union> N"
    "map_wf (fc_chunks f')" "part_span (snd e) \<subseteq> packet off sz \<union> (\<Union>d \<in> N. part_span (snd d))"
    "map_wf (fc_refs f')" "\<And>r. r \<noteq> ft_ref_cnt (snd e) \<Longrightarrow> map_of (fc_refs f') r = map_of (fc_refs f) r"
    "parts (fc_chunks f') (ft_ref_cnt (snd e)) \<noteq> {} \<Longrightarrow> map_of (fc_refs f') (ft_ref_cnt (snd e)) =
       Some (int (card (parts (fc_chunks f) (ft_ref_cnt (snd e)))) - 1 + int (card N))"
    "fc_map f' = (if N = {} \<and> parts (fc_chunks f) (ft_ref_cnt (snd e)) = {e}
       then dataReceived now (ft_id (snd e)) (fc_map f) else fc_map f)"
    "fp_size f' = fp_size f" "fp_file f' = fp_file f"
proof -
  let ?t = "fc_chunks f" and ?sz = "ucast sz :: u64"
  have wf: "map_wf ?t" and wfr: "map_wf (fc_refs f)" using table_okD(1,2) [OF ok] by blast+
  have sz: "0 < unat sz" and fits: "unat off + unat sz < 2 ^ 51"
    using pk by (auto simp: packet_ok_def unat_gt_0)
  have off': "unat (off + ?sz) = unat off + unat sz" using fits by (intro word_sum [THEN trans]) simp_all
  show thesis
  proof (cases "map_of ?t off")
    case (Some c)
    define e where "e = (off, c)"
    have e: "e \<in> set ?t" using Some by (auto simp: e_def dest: map_of_SomeD)
    note p = part_okD [OF table_okD(3) [OF ok e]] and bd = part_bound [OF table_okD(3) [OF ok e] P]
    have le: "?sz \<le> ft_size c" using pk(1) Some by (simp add: packet_ok_def)
    then have le': "unat sz \<le> unat (ft_size c)" by (simp add: word_le_nat_alt)
    have pe: "part_span (snd e) = {unat off..<unat off + unat (ft_size c)}" using p(1) by (simp add: e_def part_span_def)
    have rest: "{d \<in> set ?t. fst d \<noteq> off} = set ?t - {e}" using only_key [OF ok e] by (simp add: e_def)
    show thesis
    proof (cases "ft_size c = ?sz")
      case False
      define c' where "c' = c\<lparr>ft_size := ft_size c - ?sz, ft_offset := off + ?sz\<rparr>"
      have size: "unat (ft_size c - ?sz) = unat (ft_size c) - unat sz" using word_diff [OF le] by simp
      have lt: "unat sz < unat (ft_size c)" using False le' by (metis le_neq_implies_less unat_ucast_32_64 word_unat_eq_iff)
      have f': "f' = f\<lparr>fc_chunks := map_put (off + ?sz) c' (map_erase off ?t), fc_last_recv_time_t := now\<rparr>"
        using n Some False p(1) by (simp add: locked_notifyReceived_def Let_def c'_def e_def)
      have key: "fst d \<noteq> off + ?sz" if "d \<in> set ?t - {e}" for d
        using other_key [OF ok e, of d] that lt off' by (auto simp: pe)
      have "set (fc_chunks f') = (set ?t - {e}) \<union> {(off + ?sz, c')}"
        using key wf by (auto simp: f' set_map_put set_map_erase rest)
      moreover have "cut_into e {(off + ?sz, c')}"
        using lt size off' by (auto simp: cut_into_def piece_def c'_def pe) (simp_all add: e_def)
      moreover have "part_span (snd e) \<subseteq> packet off sz \<union> (\<Union>d \<in> {(off + ?sz, c')}. part_span (snd d))"
        using size off' lt by (auto simp: pe packet_def c'_def)
      ultimately show thesis
        using that [OF e, of "{(off + ?sz, c')}"] wf wfr table_okD(6) [OF ok e] by (simp add: f')
    next
      case True
      let ?r = "map_get 0 (ft_ref_cnt c) (fc_refs f) - 1"
      note z = counter_zero [OF ok e]
      have f': "fc_chunks f' = map_erase off ?t" "fp_size f' = fp_size f" "fp_file f' = fp_file f"
        "fc_map f' = (if ?r = 0 then dataReceived now (ft_id c) (fc_map f) else fc_map f)"
        "fc_refs f' = (if ?r = 0 then map_erase (ft_ref_cnt c) (fc_refs f) else map_put (ft_ref_cnt c) ?r (fc_refs f))"
        using n Some True by (auto simp: locked_notifyReceived_def Let_def)
      have set: "set (fc_chunks f') = (set ?t - {e}) \<union> {}" by (simp add: f' set_map_erase rest)
      have r: "snd e = c" "?r = int (card (parts ?t (ft_ref_cnt c))) - 1" "?r = 0 \<longleftrightarrow> parts ?t (ft_ref_cnt c) = {e}"
        using z(1,2) by (simp_all add: e_def)
      have gone: "parts (fc_chunks f') (ft_ref_cnt c) = {}" if "parts ?t (ft_ref_cnt c) = {e}"
        using that unfolding parts_def set by blast
      show thesis
      proof (rule that [OF e _ set])
        show "cut_into e {}" by (simp add: cut_into_def)
        show "map_wf (fc_chunks f')" "map_wf (fc_refs f')" using wf wfr by (simp_all add: f')
        show "part_span (snd e) \<subseteq> packet off sz \<union> (\<Union>d \<in> {}. part_span (snd d))"
          using True by (simp add: pe packet_def)
        show "map_of (fc_refs f') q = map_of (fc_refs f) q" if "q \<noteq> ft_ref_cnt (snd e)" for q
          using that by (simp add: f' r(1))
        show "fc_map f' = (if {} = {} \<and> parts ?t (ft_ref_cnt (snd e)) = {e}
            then dataReceived now (ft_id (snd e)) (fc_map f) else fc_map f)"
          by (simp only: f'(4) r(1,3) simp_thms refl)
        show "map_of (fc_refs f') (ft_ref_cnt (snd e)) =
            Some (int (card (parts ?t (ft_ref_cnt (snd e)))) - 1 + int (card ({} :: (u64 \<times> ftSlice) set)))"
          if "parts (fc_chunks f') (ft_ref_cnt (snd e)) \<noteq> {}"
        proof -
          have "?r \<noteq> 0" using that gone r by blast
          then show ?thesis unfolding f'(5) r(1) by (simp add: r(2))
        qed
      qed (simp_all add: f')
    qed
  next
    case None
    obtain e where fnd: "find (contains_packet off sz) ?t = Some e"
      using n None by (auto simp: locked_notifyReceived_def Let_def split: option.splits)
    obtain k c where kc: "e = (k, c)" by (cases e)
    have e: "e \<in> set ?t" and con: "contains_packet off sz e" using fnd by (auto simp: find_Some_iff)
    note p = part_okD [OF table_okD(3) [OF ok e]] and bd = part_bound [OF table_okD(3) [OF ok e] P]
    have k: "ft_offset c = k" "unat k < unat off" using con p(1) by (auto simp: kc contains_packet_def word_less_nat_alt)
    have "unat (ft_size c + ft_offset c) = unat (ft_size c) + unat k" using bd k by (subst word_sum) (simp_all add: kc)
    moreover have "unat (?sz + off) = unat off + unat sz" using off' by (simp add: add.commute)
    ultimately have inside: "unat off + unat sz \<le> unat k + unat (ft_size c)"
      using con by (simp add: contains_packet_def kc word_le_nat_alt)
    have pe: "part_span (snd e) = {unat k..<unat k + unat (ft_size c)}" using k(1) by (simp add: kc part_span_def)
    have s1: "unat (off - k) = unat off - unat k" using k(2) by (intro word_diff) (simp add: word_le_nat_alt)
    have s2: "unat (ft_size c - (off - k)) = unat (ft_size c) - (unat off - unat k)"
      using s1 inside sz k(2) by (subst word_diff) (simp_all add: word_le_nat_alt)
    define c1 where "c1 = c\<lparr>ft_size := off - k\<rparr>"
    have rest: "{d \<in> set ?t. fst d \<noteq> k} = set ?t - {e}" using only_key [OF ok e] by (simp add: kc)
    have p1: "piece e (k, c1)" using s1 k inside by (auto simp: piece_def pe c1_def) (simp_all add: kc)
    note z = counter_zero [OF ok e]
    show thesis
    proof (cases "ft_size c - (off - k) = ?sz")
      case False
      define c' where "c' = c\<lparr>ft_size := ft_size c - (off - k) - ?sz, ft_offset := off + ?sz\<rparr>"
      define N where "N = {(k, c1), (off + ?sz, c')}"
      have s3: "unat (ft_size c - (off - k) - ?sz) = unat (ft_size c) - (unat off - unat k) - unat sz"
        using s2 inside k(2) by (subst word_diff) (simp_all add: word_le_nat_alt)
      have lt: "unat off + unat sz < unat k + unat (ft_size c)"
      proof -
        have "unat (ft_size c - (off - k)) \<noteq> unat sz" using False by (metis unat_ucast_32_64 word_unat_eq_iff)
        then show ?thesis using s2 inside k(2) by linarith
      qed
      have f': "f' = f\<lparr>fc_refs := map_put (ft_ref_cnt c) (map_get 0 (ft_ref_cnt c) (fc_refs f) + 1) (fc_refs f),
          fc_chunks := map_put (off + ?sz) c' (map_put k c1 ?t), fc_last_recv_time_t := now\<rparr>"
        using n None fnd False k(1) by (simp add: locked_notifyReceived_def Let_def c'_def c1_def kc)
      have key: "fst d \<noteq> off + ?sz" if "d \<in> set ?t - {e}" for d
        using other_key [OF ok e, of d] that lt off' k(2) by (auto simp: pe)
      have "off + ?sz \<noteq> k" using off' k(2) by auto
      then have "set (fc_chunks f') = (set ?t - {e}) \<union> N"
        using key wf by (auto simp: f' set_map_put rest N_def)
      moreover have "cut_into e N"
      proof -
        have p2: "piece e (off + ?sz, c')" unfolding piece_def pe using lt s3 off' k(2) by (auto simp: c'_def) (simp_all add: kc)
        have "part_span c1 = {unat k..<unat off}" using s1 k by (simp add: c1_def)
        moreover have "part_span c' = {unat off + unat sz..<unat k + unat (ft_size c)}"
          using s3 off' lt k(2) by (simp add: c'_def add.commute)
        ultimately have "part_span c1 \<inter> part_span c' = {}" by auto
        then show ?thesis using p1 p2 by (simp add: cut_into_def N_def Int_commute)
      qed
      moreover have "part_span (snd e) \<subseteq> packet off sz \<union> (\<Union>d \<in> N. part_span (snd d))"
        using s1 s3 off' k by (auto simp: pe packet_def c'_def c1_def N_def)
      moreover have "card N = 2" using \<open>off + ?sz \<noteq> k\<close> by (simp add: N_def)
      moreover have "N \<noteq> {}" by (simp add: N_def)
      ultimately show thesis
        using that [OF e, of N] wf wfr z(1) by (simp add: f' kc)
    next
      case True
      let ?r = "map_get 0 (ft_ref_cnt c) (fc_refs f)"
      have r: "?r \<noteq> 0" "?r = int (card (parts ?t (ft_ref_cnt (snd e))))" using z(1,3) by (auto simp: kc simp del: card_gt_0_iff)
      have f': "fc_chunks f' = map_put k c1 ?t" "fp_size f' = fp_size f" "fp_file f' = fp_file f" "fc_map f' = fc_map f"
          "fc_refs f' = map_put (ft_ref_cnt c) ?r (map_put (ft_ref_cnt c) (?r + 1) (fc_refs f))"
        using n None fnd True k(1) r(1) by (auto simp: locked_notifyReceived_def Let_def c1_def kc map_get_def)
      have "set (fc_chunks f') = (set ?t - {e}) \<union> {(k, c1)}" using wf by (auto simp: f' set_map_put rest)
      moreover have "cut_into e {(k, c1)}" using p1 by (simp add: cut_into_def)
      moreover have "part_span (snd e) \<subseteq> packet off sz \<union> (\<Union>d \<in> {(k, c1)}. part_span (snd d))"
        using s1 s2 k True inside unat_ucast_32_64 [of sz] by (auto simp: pe packet_def c1_def)
      ultimately show thesis
        using that [OF e, of "{(k, c1)}"] wf wfr r(2) by (simp add: f' kc)
    qed
  qed
qed

end
