(* ===== verification/Creator_Run.thy ===== *)
theory Creator_Run
  imports Creator_Inv
begin

text \<open>
  The invariant of \<^verbatim>\<open>ftFileCreator\<close> as a whole, that the calls of a download keep it, and what follows:
  when all data that arrives is that of the original file, a chunk that counts as finished has the
  original's bytes on disk.
\<close>

subsection \<open>The size of the file never changes\<close>

lemma updateTotalDownloaded_size [simp]: "cm_file_size (updateTotalDownloaded m) = cm_file_size m"
  by (simp add: updateTotalDownloaded_def Let_def)

lemma dataReceived_size [simp]: "cm_file_size (dataReceived now cid m) = cm_file_size m"
  by (simp add: dataReceived_def Let_def split: option.split)

lemma setChunkCheckingResult_size [simp]: "cm_file_size (setChunkCheckingResult n ok m) = cm_file_size m"
  by (simp add: setChunkCheckingResult_def Let_def)

lemma getDataChunk_size:
  assumes i: "chunkmap_inv m" and gd: "getDataChunk slow now rnd p hint needed m = (r, needed', m')"
  shows "cm_file_size m' = cm_file_size m"
proof (cases r)
  case None
  then show ?thesis using getDataChunk_shape [OF i gd] by auto
next
  case (Some sl)
  then obtain x q ck m1 where m1: "take_slice now p hint q ck m1 = (sl, m')"
    "m1 = m\<lparr>cm_peers_chunks_availability := x\<rparr> \<or> (\<exists>c. allocate_chunk p c (m\<lparr>cm_peers_chunks_availability := x\<rparr>) = (ck, m1))"
    using getDataChunk_shape [OF i gd] by (simp only: option.case) blast
  then show ?thesis by (auto simp: take_slice_def allocate_chunk_def Let_def split: prod.splits if_splits)
qed

lemma reAskPendingChunk_size: "reAskPendingChunk now p m = (x, m') \<Longrightarrow> cm_file_size m' = cm_file_size m"
  by (cases "m' = m") (auto elim: reAskPendingChunk_shape)

lemma removeInactiveChunks_size:
  assumes "chunkmap_inv m" "removeInactiveChunks now m = (t, m')"
  shows "cm_file_size m' = cm_file_size m"
  using removeInactiveChunks_keeps [where Q = "\<lambda>m'. cm_file_size m' = cm_file_size m", OF assms(1) refl assms(2)]
  by (simp add: remove_chunk_def)

subsection \<open>The invariant\<close>

text \<open>The positions of the file that already hold what the original has there.\<close>

definition good :: "bytes \<Rightarrow> bytes \<Rightarrow> nat set" where
  "good orig file = {b. b < length file \<and> b < length orig \<and> file ! b = orig ! b}"

definition creator_inv :: "bytes \<Rightarrow> ftFileCreator \<Rightarrow> bool" where
  "creator_inv orig f =
     (chunkmap_inv (fc_map f) \<and> cm_file_size (fc_map f) = fp_size f \<and> unat (fp_size f) = length orig \<and>
      cover (good orig (fp_file f)) (fc_map f) \<and>
      table_ok (pend (fc_map f)) (fc_chunks f) (fc_refs f) \<and>
      arriving (pend (fc_map f)) (good orig (fp_file f)) (fc_chunks f))"

lemma creator_invD:
  assumes "creator_inv orig f"
  shows "chunkmap_inv (fc_map f)" "cm_file_size (fc_map f) = fp_size f" "unat (fp_size f) = length orig"
    "cover (good orig (fp_file f)) (fc_map f)" "table_ok (pend (fc_map f)) (fc_chunks f) (fc_refs f)"
    "arriving (pend (fc_map f)) (good orig (fp_file f)) (fc_chunks f)" "unat (fp_size f) < 2 ^ 51"
  using assms by (auto simp: creator_inv_def chunkmap_inv_def geometry_def)

lemma arriving_mono: "arriving P got t \<Longrightarrow> got \<subseteq> got' \<Longrightarrow> arriving P got' t"
  unfolding arriving_def by blast

lemma arriving_sub: "arriving P got t \<Longrightarrow> P' \<subseteq> P \<Longrightarrow> arriving P' got t"
  unfolding arriving_def by blast

text \<open>A slice leaves the awaited ones when no part carries its identifier.\<close>

lemma table_other:
  assumes ok: "table_ok P t refs"
    and P': "\<And>e sz. e \<in> set t \<Longrightarrow> (ft_id (snd e), sz) \<in> P \<Longrightarrow> (ft_id (snd e), sz) \<in> P'"
  shows "table_ok P' t refs"
proof -
  have "part_ok P' e" if "e \<in> set t" for e
    using part_okD [OF table_okD(3) [OF ok that]] P' [OF that] unfolding part_ok_def by blast
  then show ?thesis using ok unfolding table_ok_def by blast
qed

lemma pend_bound:
  assumes i: "chunkmap_inv m" and s: "s \<in> pend m"
  shows "unat (fst s) + snd s \<le> unat (cm_file_size m)" "0 < snd s"
proof -
  have g: "geometry m" and so: "slices_ok m" using i by (simp_all add: chunkmap_inv_def)
  obtain k d r where k: "(k, d) \<in> set (cm_slices_to_download m)" "(fst s, r) \<in> set (cdi_slices d)" "snd s = unat (sri_size r)"
    "0 < snd s" using s by (cases s) (auto simp: in_pend)
  note ok = slices_entry [OF so k(1)]
  show "unat (fst s) + snd s \<le> unat (cm_file_size m)" "0 < snd s"
    using slice_below_cut [OF ok k(2)] geometry_bounds [OF g chunk_okD(1) [OF ok]] k(3,4) by auto
qed

lemma pend_one_size:
  assumes i: "chunkmap_inv m" and s: "(j, a) \<in> pend m" "(j, b) \<in> pend m"
  shows "a = b"
  using pend_same_offset [OF i] s unfolding in_pend by blast

subsection \<open>Writing and being told\<close>

lemma notify_inv:
  assumes c: "creator_inv orig f" and pk: "packet_ok off sz f" "packet off sz \<subseteq> good orig (fp_file f)"
  shows "creator_inv orig (snd (locked_notifyReceived now off sz f))"
proof -
  let ?m = "fc_map f" and ?t = "fc_chunks f" and ?g = "good orig (fp_file f)"
  note C = creator_invD [OF c]
  obtain r f' where n: "locked_notifyReceived now off sz f = (r, f')" by (cases "locked_notifyReceived now off sz f")
  show ?thesis
  proof (cases r)
    case False
    then have "f' = f" using n by (auto simp: locked_notifyReceived_def Let_def split: option.splits if_splits)
    then show ?thesis using c n by simp
  next
    case True
    have P: "unat (fst s) + snd s < 2 ^ 51" if "s \<in> pend ?m" for s using pend_bound(1) [OF C(1) that] C(2,7) by simp
    obtain e N where e: "e \<in> set ?t" "cut_into e N" "set (fc_chunks f') = (set ?t - {e}) \<union> N"
      "map_wf (fc_chunks f')" "part_span (snd e) \<subseteq> packet off sz \<union> (\<Union>d \<in> N. part_span (snd d))"
      "map_wf (fc_refs f')" "\<And>r. r \<noteq> ft_ref_cnt (snd e) \<Longrightarrow> map_of (fc_refs f') r = map_of (fc_refs f) r"
      "parts (fc_chunks f') (ft_ref_cnt (snd e)) \<noteq> {} \<Longrightarrow> map_of (fc_refs f') (ft_ref_cnt (snd e)) =
         Some (int (card (parts ?t (ft_ref_cnt (snd e)))) - 1 + int (card N))"
      "fc_map f' = (if N = {} \<and> parts ?t (ft_ref_cnt (snd e)) = {e} then dataReceived now (ft_id (snd e)) ?m else ?m)"
      "fp_size f' = fp_size f" "fp_file f' = fp_file f"
      by (rule notify_effect [OF C(5) P pk(1) C(7)]) (use n True in auto)
    have tab: "table_ok (pend ?m) (fc_chunks f') (fc_refs f')"
      by (rule replace_part [OF C(5) e(1,2,4,3,6,7,8)])
    have arr: "arriving (pend ?m) ?g (fc_chunks f')"
      using e(5) pk(2) by (intro replace_arriving [OF C(6) e(3,2)]) auto
    show ?thesis
    proof (cases "N = {} \<and> parts ?t (ft_ref_cnt (snd e)) = {e}")
      case False
      then show ?thesis using C e(9-11) tab arr by (simp add: creator_inv_def n if_not_P)
    next
      case True
      let ?i = "ft_id (snd e)"
      obtain sz' where sz': "(?i, sz') \<in> pend ?m" using part_okD(3) [OF table_okD(3) [OF C(5) e(1)]] by blast
      have none: "ft_id (snd d) \<noteq> ?i" if d: "d \<in> set (fc_chunks f')" for d
      proof
        assume "ft_id (snd d) = ?i"
        moreover have "d \<in> set ?t" "d \<noteq> e" using d e(3) True by auto
        ultimately have "d \<in> parts ?t (ft_ref_cnt (snd e))" using table_okD(5) [OF C(5) _ e(1), of d] by (simp add: parts_def)
        then show False using True \<open>d \<noteq> e\<close> by blast
      qed
      have m': "fc_map f' = dataReceived now ?i ?m" using e(9) True by simp
      have "span (?i, sz') \<subseteq> ?g" using arr sz' none unfolding arriving_def by fastforce
      then have pend': "pend (fc_map f') = pend ?m - {(?i, sz')}" "cover ?g (fc_map f')"
        using dataReceived_pend [OF C(1) sz'] C(4) unfolding m' by blast+
      moreover have "chunkmap_inv (fc_map f')" unfolding m' by (rule dataReceived_inv [OF C(1)])
      moreover have "cm_file_size (fc_map f') = fp_size f'"
        using C(2) e(10) by (simp add: m')
      moreover have "table_ok (pend (fc_map f')) (fc_chunks f') (fc_refs f')"
        using none by (intro table_other [OF tab]) (auto simp: pend'(1))
      moreover have "arriving (pend (fc_map f')) ?g (fc_chunks f')"
        by (rule arriving_sub [OF arr]) (auto simp: pend'(1))
      ultimately show ?thesis using C(3) e(10,11) by (simp add: creator_inv_def n)
    qed
  qed
qed

lemma length_write_at: "xs \<noteq> [] \<Longrightarrow> length (write_at file pos xs) = max (length file) (pos + length xs)"
  by (auto simp: write_at_def)

lemma nth_write_at:
  assumes "xs \<noteq> []" "b < length file \<or> pos \<le> b" "b < max (length file) (pos + length xs)"
  shows "write_at file pos xs ! b = (if pos \<le> b \<and> b < pos + length xs then xs ! (b - pos) else file ! b)"
  using assms by (auto simp: write_at_def nth_append min_def nth_Cons')

lemma good_write:
  assumes data: "take (length data) (drop pos orig) = data"
  shows "good orig file \<union> {pos..<pos + length data} \<subseteq> good orig (write_at file pos data)"
proof (cases "data = []")
  case False
  have len: "pos + length data \<le> length orig" using arg_cong [OF data, of length] False by (cases "pos \<le> length orig") (auto simp: min_def split: if_splits)
  have "data ! (b - pos) = orig ! b" if "pos \<le> b" "b < pos + length data" for b
    using arg_cong [OF data, of "\<lambda>xs. xs ! (b - pos)"] that len by simp
  then show ?thesis using len False by (auto simp: good_def length_write_at nth_write_at)
qed (simp add: write_at_def)

text \<open>The open file is written in place; a file that cannot be opened in place is created empty.\<close>

definition opens_in_place :: "file_answers \<Rightarrow> ftFileCreator \<Rightarrow> bool" where
  "opens_in_place a f = (fp_fd f \<or> fa_open a \<or> \<not> fa_open_other a \<or> fp_file f = [])"

lemma open_keeps:
  assumes "opens_in_place a f" "locked_initializeFileAttrs a f = (ok, f')"
  shows "creator_inv orig f' = creator_inv orig f \<and> fp_size f' = fp_size f \<and> fc_chunks f' = fc_chunks f \<and>
    fp_file f' = fp_file f \<and> fc_map f' = fc_map f"
  using assms by (auto simp: opens_in_place_def locked_initializeFileAttrs_def creator_inv_def split: if_splits)

lemma write_inv:
  assumes c: "creator_inv orig f" and data: "take (length data) (drop pos orig) = data"
  shows "creator_inv orig (f\<lparr>fp_file := write_at (fp_file f) pos data\<rparr>)"
  using creator_invD [OF c] good_write [OF data, of "fp_file f"]
  by (auto simp: creator_inv_def intro: cover_mono arriving_mono)

lemma take_own_length: "take (length (take k xs)) xs = take k xs"
  by (cases "k \<le> length xs") simp_all

text \<open>A packet that carries the original's bytes.\<close>

definition honest :: "bytes \<Rightarrow> u64 \<Rightarrow> u32 \<Rightarrow> bytes \<Rightarrow> bool" where
  "honest orig off sz data = (data = take (unat sz) (drop (unat off) orig))"

lemma addFileData_inv:
  assumes c: "creator_inv orig f" and pk: "packet_ok off sz f" and h: "honest orig off sz data"
    and op: "opens_in_place a f" and r: "addFileData disc a now off sz data f = Some (ok, f')"
  shows "creator_inv orig f'"
proof -
  note C = creator_invD [OF c]
  obtain o1 f1 where o1: "locked_initializeFileAttrs a f = (o1, f1)" by (cases "locked_initializeFileAttrs a f")
  note k = open_keeps [OF op o1]
  have c1: "creator_inv orig f1" using c k by blast
  have fits: "unat off + unat sz \<le> unat (fp_size f1)" "0 < sz" "packet_ok off sz f1"
    using pk k by (auto simp: packet_ok_def)
  then have "unat (off + ucast sz) = unat off + unat sz" using C(7) k by (intro word_sum [THEN trans]) auto
  then have over: "\<not> off + ucast sz > fp_size f1" using fits by (simp add: word_less_nat_alt)
  have len: "length data = unat sz" using h fits C(3) k by (simp add: honest_def)
  have pre: "take (length (take j data)) (drop (unat off) orig) = take j data" for j
    using h take_own_length [of "min j (unat sz)" "drop (unat off) orig"] by (simp add: honest_def)
  define f2 where "f2 = f1\<lparr>fp_file := write_at (fp_file f1) (unat off) data\<rparr>"
  have c2: "creator_inv orig f2" using write_inv [OF c1, of data "unat off"] pre [of "length data"] by (simp add: f2_def)
  have "packet off sz \<subseteq> good orig (fp_file f2)"
    using good_write [of data "unat off" orig "fp_file f1"] pre [of "length data"] len by (simp add: f2_def packet_def)
  moreover have "packet_ok off sz f2" using fits(3) by (simp add: packet_ok_def f2_def)
  ultimately have c3: "creator_inv orig (snd (locked_notifyReceived now off sz f2))" by (intro notify_inv [OF c2])
  have c4: "creator_inv orig (closeFile g) = creator_inv orig g" for g by (simp add: closeFile_def creator_inv_def)
  have c5: "creator_inv orig (f1\<lparr>fp_file := write_at (fp_file f1) (unat off) (take j data)\<rparr>)" for j
    using write_inv [OF c1, of "take j data" "unat off"] pre [of j] by simp
  have full: "take (unat sz) data = data" using len by simp
  show ?thesis
    using r c c1 c3 c4 c5 fits(2) over full
    by (auto simp: addFileData_def o1 Let_def f2_def split: if_splits option.splits)
qed

subsection \<open>Asking\<close>

lemma find_faulting_frame:
  "find_faulting now p cs m = (r, m') \<Longrightarrow>
     (\<exists>x. m' = m\<lparr>cm_peers_chunks_availability := x\<rparr>) \<and> (\<forall>e. r = Some e \<longrightarrow> e \<in> set cs)"
proof (induction now p cs m arbitrary: m' rule: find_faulting.induct)
  case (1 now p m)
  then show ?case by (auto intro: exI [of _ "cm_peers_chunks_availability m"])
next
  case (2 now p k c cs m)
  obtain sci m1 where s: "getSourceChunksInfo p m = (sci, m1)" by (cases "getSourceChunksInfo p m")
  obtain x where x: "m1 = m\<lparr>cm_peers_chunks_availability := x\<rparr>" by (rule getSourceChunksInfo_frame [OF s])
  show ?case
  proof (cases "ft_ts c + CHUNK_MAX_AGE < now")
    case False
    then show ?thesis using 2 by auto
  next
    case old: True
    show ?thesis
    proof (cases "hasData sci (ft_offset c) CHUNKMAP_FIXED_CHUNK_SIZE")
      case True
      then show ?thesis using 2(3) old s x by auto
    next
      case False
      then have "find_faulting now p cs m1 = (r, m')" using 2(3) old s by simp
      from 2(1) [OF old s [symmetric] refl False this] show ?thesis using x by auto
    qed
  qed
qed

lemma fresh_ref_new: "map_of refs r = Some v \<Longrightarrow> r < fresh_ref refs"
proof -
  have le: "r \<in> set rs \<Longrightarrow> r \<le> foldr max rs 0" for r :: nat and rs by (induction rs) auto
  show ?thesis if "map_of refs r = Some v"
    using le [of r "map fst refs"] map_of_SomeD [OF that] by (force simp: fresh_ref_def)
qed

text \<open>A new part that is a whole slice.\<close>

lemma add_part:
  assumes ok: "table_ok P t refs" and a: "arriving P got t"
    and e: "ft_offset c = ft_id c" "0 < unat (ft_size c)" "ft_ref_cnt c = fresh_ref refs"
    and fresh: "\<And>s. s \<in> P \<Longrightarrow> 0 < snd s \<and> span s \<inter> part_span c = {}"
  shows "table_ok (insert (ft_id c, unat (ft_size c)) P) (map_put (ft_offset c) c t) (map_put (ft_ref_cnt c) 1 refs) \<and>
    arriving (insert (ft_id c, unat (ft_size c)) P) got (map_put (ft_offset c) c t)"
proof -
  let ?e = "(ft_offset c, c)" and ?P = "insert (ft_id c, unat (ft_size c)) P"
    and ?t = "map_put (ft_offset c) c t" and ?refs = "map_put (ft_ref_cnt c) 1 refs"
  have wf: "map_wf t" and wfr: "map_wf refs" using table_okD(1,2) [OF ok] by blast+
  have cs: "part_span c = span (ft_id c, unat (ft_size c))" using e(1) by (simp add: part_span_def span_def)
  have start: "unat (ft_offset c) \<in> part_span c" using e(2) by (simp add: part_span_def)
  have old: "part_span (snd d) \<inter> part_span c = {} \<and> ft_id (snd d) \<noteq> ft_id c \<and> ft_ref_cnt (snd d) \<noteq> ft_ref_cnt c \<and>
      fst d \<noteq> ft_offset c" if d: "d \<in> set t" for d
  proof -
    note p = part_okD [OF table_okD(3) [OF ok d]]
    obtain sz where sz: "(ft_id (snd d), sz) \<in> P" "part_span (snd d) \<subseteq> span (ft_id (snd d), sz)" using p(3) by blast
    note f = fresh [OF sz(1)]
    have "unat (ft_id (snd d)) \<in> span (ft_id (snd d), sz)" using f by (simp add: span_def)
    then have "ft_id (snd d) \<noteq> ft_id c" using f start e(1) by auto
    moreover have "unat (fst d) \<in> part_span (snd d)" using p(1,2) by (simp add: part_span_def)
    then have "fst d \<noteq> ft_offset c" using f sz(2) start by auto
    moreover have "ft_ref_cnt (snd d) < fresh_ref refs" by (rule fresh_ref_new [OF table_okD(6) [OF ok d]])
    then have "ft_ref_cnt (snd d) \<noteq> ft_ref_cnt c" using e(3) by simp
    moreover have "part_span (snd d) \<inter> part_span c = {}" using f sz(2) by blast
    ultimately show ?thesis by simp
  qed
  have t': "set ?t = insert ?e (set t)" using old wf by (auto simp: set_map_put)
  have new: "part_ok ?P ?e" unfolding part_ok_def using e(1,2) cs by auto
  have more: "part_ok ?P d" if "part_ok P d" for d using that unfolding part_ok_def by blast
  have "part_ok ?P d" if "d \<in> set ?t" for d using that new more table_okD(3) [OF ok] unfolding t' by blast
  moreover have "part_span (snd d) \<inter> part_span (snd d') = {}" if dd: "d \<in> set ?t" "d' \<in> set ?t" "d \<noteq> d'" for d d'
  proof -
    consider "d \<in> set t" "d' \<in> set t" | "d = ?e" "d' \<in> set t" | "d \<in> set t" "d' = ?e" using dd unfolding t' by blast
    then show ?thesis
    proof cases
      case 1
      then show ?thesis by (rule table_okD(4) [OF ok _ _ dd(3)])
    next
      case 2
      then show ?thesis using old [of d'] by (simp add: Int_commute)
    next
      case 3
      then show ?thesis using old [of d] by simp
    qed
  qed
  moreover have "ft_id (snd d) = ft_id (snd d') \<longleftrightarrow> ft_ref_cnt (snd d) = ft_ref_cnt (snd d')"
    if dd: "d \<in> set ?t" "d' \<in> set ?t" for d d'
  proof -
    consider "d \<in> set t" "d' \<in> set t" | "d = ?e" "d' = ?e" | "d = ?e" "d' \<in> set t" | "d \<in> set t" "d' = ?e"
      using dd unfolding t' by blast
    then show ?thesis
    proof cases
      case 1
      then show ?thesis by (rule table_okD(5) [OF ok])
    next
      case 2
      then show ?thesis by simp
    next
      case 3
      then show ?thesis using old [of d'] by (metis snd_conv)
    next
      case 4
      then show ?thesis using old [of d] by simp
    qed
  qed
  moreover have "map_of ?refs (ft_ref_cnt (snd d)) = Some (int (card (parts ?t (ft_ref_cnt (snd d)))))" if d: "d \<in> set ?t" for d
  proof (cases "d = ?e")
    case True
    have "parts ?t (ft_ref_cnt c) = {?e}" using old unfolding parts_def t' by auto
    then show ?thesis using True by simp
  next
    case False
    then have "d \<in> set t" using d t' by blast
    moreover have "parts ?t (ft_ref_cnt (snd d)) = parts t (ft_ref_cnt (snd d))"
      using old [OF \<open>d \<in> set t\<close>] unfolding parts_def t' by auto
    ultimately show ?thesis using table_okD(6) [OF ok] old by simp
  qed
  ultimately have "table_ok ?P ?t ?refs" using wf wfr map_wf_put [of t] map_wf_put [of refs] unfolding table_ok_def by blast
  moreover have "arriving ?P got ?t" using a cs unfolding arriving_def t' by (simp, blast)
  ultimately show ?thesis by blast
qed

lemma touch_part:
  assumes c: "creator_inv orig f" and e: "(k, p) \<in> set (fc_chunks f)"
  shows "creator_inv orig (f\<lparr>fc_chunks := map_put k (p\<lparr>ft_ts := ts\<rparr>) (fc_chunks f)\<rparr>)"
proof -
  note C = creator_invD [OF c]
  note q = part_okD [OF table_okD(3) [OF C(5) e]]
  let ?N = "{(k, p\<lparr>ft_ts := ts\<rparr>)}" and ?t = "map_put k (p\<lparr>ft_ts := ts\<rparr>) (fc_chunks f)"
  have same: "part_span (p\<lparr>ft_ts := ts\<rparr>) = part_span p" by (simp add: part_span_def)
  have cut: "cut_into (k, p) ?N" using q(1,2) same by (simp add: cut_into_def piece_def)
  have t': "set ?t = (set (fc_chunks f) - {(k, p)}) \<union> ?N"
    using only_key [OF C(5) e] table_okD(1) [OF C(5)] by (simp add: set_map_put)
  have "table_ok (pend (fc_map f)) ?t (fc_refs f)"
    using table_okD(1,2) [OF C(5)] table_okD(6) [OF C(5) e] by (intro replace_part [OF C(5) e cut _ t']) simp_all
  moreover have "arriving (pend (fc_map f)) (good orig (fp_file f)) ?t"
    by (rule replace_arriving [OF C(6) t' cut _ subset_refl]) (simp add: same)
  ultimately show ?thesis using C by (simp add: creator_inv_def)
qed

lemma peers_only:
  assumes "creator_inv orig f"
  shows "creator_inv orig (f\<lparr>fc_map := (fc_map f)\<lparr>cm_peers_chunks_availability := x\<rparr>\<rparr>)"
    "creator_inv orig (f\<lparr>fc_chunks_per_peer := y\<rparr>)"
  using assms by (simp_all add: creator_inv_def)

lemma asked_span:
  assumes i: "chunkmap_inv m" and sl: "asked_slice m peer hint sl" and h: "hint \<noteq> 0" and s: "s \<in> pend m"
  shows "0 < snd s \<and> span s \<inter> span (ft_id sl, unat (ft_size sl)) = {}"
proof -
  obtain k d r where k: "(k, d) \<in> set (cm_slices_to_download m)" "(fst s, r) \<in> set (cdi_slices d)" "snd s = unat (sri_size r)"
    "0 < snd s" using s by (cases s) (auto simp: in_pend)
  have "ft_id sl = ft_offset sl" using sl by (auto simp: asked_slice_def slice_in_def)
  moreover have "unat (fst s) + snd s \<le> unat (ft_offset sl) \<or> unat (ft_offset sl) + unat (ft_size sl) \<le> unat (fst s)"
    using sl k(1,2) unfolding asked_slice_def slice_fresh_def k(3) by fastforce
  ultimately show ?thesis using k(4) by (auto simp: span_def)
qed

lemma getMissingChunk_inv:
  assumes c: "creator_inv orig f" and h: "hint \<noteq> 0"
    and g: "getMissingChunk slow now rnd peer hint f = (r, needed, f')"
  shows "creator_inv orig f'"
proof -
  obtain old m1 where ff: "find_faulting now peer (fc_chunks f) (fc_map f) = (old, m1)"
    by (cases "find_faulting now peer (fc_chunks f) (fc_map f)")
  from find_faulting_frame [OF ff] obtain x where x: "m1 = (fc_map f)\<lparr>cm_peers_chunks_availability := x\<rparr>"
    and oldin: "\<And>e. old = Some e \<Longrightarrow> e \<in> set (fc_chunks f)" by blast
  have c0: "creator_inv orig (f\<lparr>fc_map := m1\<rparr>)" unfolding x by (rule peers_only(1) [OF c])
  show ?thesis
  proof (cases old)
    case (Some e)
    obtain k p where e: "e = (k, p)" by (cases e)
    have "f' = f\<lparr>fc_map := m1, fc_chunks := map_put k (p\<lparr>ft_ts := now\<rparr>) (fc_chunks f)\<rparr>"
      using g Some by (simp add: getMissingChunk_def ff e)
    then show ?thesis using touch_part [OF c0, of k p now] oldin [OF Some] by (simp add: e)
  next
    case None
    define cnt where "cnt = map_get 0 peer (fc_chunks_per_peer f)"
    define f1 where "f1 = f\<lparr>fc_map := m1, fc_chunks_per_peer := map_put peer cnt (fc_chunks_per_peer f)\<rparr>"
    have c1: "creator_inv orig f1" unfolding f1_def by (rule peers_only(2) [OF c0])
    note C = creator_invD [OF c1]
    obtain sl nd m2 where gd: "getDataChunk slow now rnd peer hint False m1 = (sl, nd, m2)"
      by (cases "getDataChunk slow now rnd peer hint False m1")
    have m1: "fc_map f1 = m1" by (simp add: f1_def)
    note D = getDataChunk_inv [OF C(1) [unfolded m1] gd] getDataChunk_pend [OF C(1) [unfolded m1] gd h, of "good orig (fp_file f1)"]
      getDataChunk_size [OF C(1) [unfolded m1] gd]
    consider "f' = f1" | m3 a where "sl = None" "reAskPendingChunk now peer m2 = (a, m3)" "f' = f1\<lparr>fc_map := m3\<rparr>"
      | c2 where "sl = Some c2" "f' = f1\<lparr>fc_map := m2, fc_refs := map_put (fresh_ref (fc_refs f1)) 1 (fc_refs f1),
            fc_chunks := map_put (ft_offset c2) (ftChunk.extend c2 \<lparr>ft_ref_cnt = fresh_ref (fc_refs f1)\<rparr>) (fc_chunks f1),
            fc_chunks_per_peer := map_put peer (cnt + 1) (fc_chunks_per_peer f1)\<rparr>"
      using g by (cases sl)
        (auto simp: getMissingChunk_def ff None gd Let_def cnt_def [symmetric] f1_def [symmetric] split: if_splits prod.splits)
    then show ?thesis
    proof cases
      case 1
      then show ?thesis using c1 by simp
    next
      case 2
      have i2: "chunkmap_inv m2" using D(1) by blast
      note E = reAskPendingChunk_inv [OF i2 2(2)] reAskPendingChunk_pend [OF i2 2(2), of "good orig (fp_file f1)"]
        reAskPendingChunk_size [OF 2(2)]
      show ?thesis using C D E 2(1,3) by (simp add: creator_inv_def m1)
    next
      case 3
      define p where "p = ftChunk.extend c2 \<lparr>ft_ref_cnt = fresh_ref (fc_refs f1)\<rparr>"
      have p: "ft_offset p = ft_offset c2" "ft_id p = ft_id c2" "ft_size p = ft_size c2" "ft_ref_cnt p = fresh_ref (fc_refs f1)"
        by (simp_all add: p_def ftChunk.defs)
      have sl: "asked_slice m1 peer hint c2" using D(1) 3(1) by blast
      then have eq: "ft_offset c2 = ft_id c2" and pos: "0 < unat (ft_size c2)"
        using h by (auto simp: asked_slice_def slice_in_def slice_size_def)
      have ps: "part_span p = span (ft_id c2, unat (ft_size c2))" using p eq by (simp add: part_span_def span_def)
      have pend2: "pend m2 = insert (ft_id c2, unat (ft_size c2)) (pend m1)" using D(2) 3(1) by simp
      have "table_ok (pend m2) (map_put (ft_offset c2) p (fc_chunks f1)) (map_put (fresh_ref (fc_refs f1)) 1 (fc_refs f1)) \<and>
          arriving (pend m2) (good orig (fp_file f1)) (map_put (ft_offset c2) p (fc_chunks f1))"
        using add_part [OF C(5,6) [unfolded m1], of p] asked_span [OF C(1) [unfolded m1] sl h] p eq pos ps
        unfolding pend2 by simp
      then show ?thesis using C D 3(2) by (simp add: creator_inv_def m1 p_def)
    qed
  qed
qed

subsection \<open>Giving up\<close>

lemma remove_part_effect:
  assumes ok: "table_ok P (fc_chunks f) (fc_refs f)" and e: "e \<in> set (fc_chunks f)"
  defines "f' \<equiv> remove_part (fst e) (snd e) f"
  shows "table_ok P (fc_chunks f') (fc_refs f') \<and> set (fc_chunks f') = set (fc_chunks f) - {e} \<and>
    fc_map f' = fc_map f \<and> fp_size f' = fp_size f \<and> fp_file f' = fp_file f"
proof -
  let ?t = "fc_chunks f" and ?r = "map_get 0 (ft_ref_cnt (snd e)) (fc_refs f) - 1"
  note z = counter_zero [OF ok e]
  have f': "fc_chunks f' = map_erase (fst e) ?t" "fc_map f' = fc_map f" "fp_size f' = fp_size f" "fp_file f' = fp_file f"
    "fc_refs f' = (if ?r = 0 then map_erase (ft_ref_cnt (snd e)) (fc_refs f) else map_put (ft_ref_cnt (snd e)) ?r (fc_refs f))"
    by (simp_all add: f'_def remove_part_def Let_def)
  have cut: "cut_into e {}" by (simp add: cut_into_def)
  have t': "set (fc_chunks f') = (set ?t - {e}) \<union> {}" by (simp add: f' set_map_erase only_key [OF ok e])
  have "table_ok P (fc_chunks f') (fc_refs f')"
  proof (rule replace_part [OF ok e cut _ t'])
    show "map_wf (fc_chunks f')" "map_wf (fc_refs f')" using table_okD(1,2) [OF ok] by (simp_all add: f')
    show "map_of (fc_refs f') q = map_of (fc_refs f) q" if "q \<noteq> ft_ref_cnt (snd e)" for q using that by (simp add: f')
    assume some: "parts (fc_chunks f') (ft_ref_cnt (snd e)) \<noteq> {}"
    have "parts ?t (ft_ref_cnt (snd e)) \<noteq> {e}" using some unfolding parts_def t' by blast
    then have "?r \<noteq> 0" using z(1,2) by simp
    then show "map_of (fc_refs f') (ft_ref_cnt (snd e)) =
        Some (int (card (parts ?t (ft_ref_cnt (snd e)))) - 1 + int (card ({} :: (u64 \<times> ftSlice) set)))"
      using z(1) by (simp add: f'(5))
  qed
  then show ?thesis using t' f' by simp
qed

lemma remove_slice_fold:
  fixes sid :: u64
  assumes "table_ok P (fc_chunks f) (fc_refs f)" "set es \<subseteq> set (fc_chunks f)" "distinct es"
  defines "f' \<equiv> foldl (\<lambda>f (k, c). if ft_id c = sid then remove_part k c f else f) f es"
  shows "table_ok P (fc_chunks f') (fc_refs f') \<and> set (fc_chunks f') = set (fc_chunks f) - {e \<in> set es. ft_id (snd e) = sid} \<and>
    fc_map f' = fc_map f \<and> fp_size f' = fp_size f \<and> fp_file f' = fp_file f"
  using assms(1-3) unfolding f'_def
proof (induction es arbitrary: f)
  case (Cons e es)
  show ?case
  proof (cases "ft_id (snd e) = sid")
    case False
    then show ?thesis using Cons.IH [of f] Cons.prems by (cases e) auto
  next
    case True
    let ?f = "remove_part (fst e) (snd e) f"
    note R = remove_part_effect [OF Cons.prems(1), of e]
    have "set es \<subseteq> set (fc_chunks ?f)" using R Cons.prems(2,3) by auto
    then show ?thesis using Cons.IH [of ?f] R Cons.prems(2,3) True by (cases e) auto
  qed
qed simp

lemma remove_slice_effect:
  fixes sid :: u64
  assumes ok: "table_ok P (fc_chunks f) (fc_refs f)"
  defines "f' \<equiv> remove_slice sid f"
  shows "table_ok P (fc_chunks f') (fc_refs f') \<and> set (fc_chunks f') = {e \<in> set (fc_chunks f). ft_id (snd e) \<noteq> sid} \<and>
    fc_map f' = fc_map f \<and> fp_size f' = fp_size f \<and> fp_file f' = fp_file f"
proof -
  have "distinct (fc_chunks f)" using map_wf_distinct [OF table_okD(1) [OF ok]] by (simp add: distinct_map)
  from remove_slice_fold [OF ok subset_refl this, of sid] show ?thesis
    unfolding f'_def remove_slice_def by auto
qed

lemma remove_slices_effect:
  fixes t :: "u64 list"
  assumes "table_ok P (fc_chunks f) (fc_refs f)"
  defines "f' \<equiv> foldl (\<lambda>f sid. remove_slice sid f) f t"
  shows "table_ok P (fc_chunks f') (fc_refs f') \<and> set (fc_chunks f') = {e \<in> set (fc_chunks f). ft_id (snd e) \<notin> set t} \<and>
    fc_map f' = fc_map f \<and> fp_size f' = fp_size f \<and> fp_file f' = fp_file f"
  using assms(1) unfolding f'_def
proof (induction t arbitrary: f)
  case (Cons sid t)
  from Cons.IH [of "remove_slice sid f"] remove_slice_effect [OF Cons.prems, of sid] show ?case by auto
qed simp

lemma creator_removeInactiveChunks_inv:
  assumes c: "creator_inv orig f"
  shows "creator_inv orig (creator_removeInactiveChunks now f)"
proof -
  note C = creator_invD [OF c]
  obtain t m where r: "removeInactiveChunks now (fc_map f) = (t, m)" by (cases "removeInactiveChunks now (fc_map f)")
  let ?f = "f\<lparr>fc_map := m\<rparr>" and ?g = "good orig (fp_file f)"
  define f' where "f' = foldl (\<lambda>f sid. remove_slice sid f) ?f t"
  have f': "creator_removeInactiveChunks now f = f'" by (simp add: creator_removeInactiveChunks_def r f'_def)
  have "table_ok (pend (fc_map f)) (fc_chunks ?f) (fc_refs ?f)" using C(5) by simp
  note R = remove_slices_effect [OF this, of t, folded f'_def]
  have p: "pend m = {s \<in> pend (fc_map f). fst s \<notin> set t}" by (rule removeInactiveChunks_pend [OF C(1) r])
  have "table_ok (pend m) (fc_chunks f') (fc_refs f')"
  proof (rule table_other)
    show "table_ok (pend (fc_map f)) (fc_chunks f') (fc_refs f')" using R by blast
    show "(ft_id (snd e), sz) \<in> pend m" if "e \<in> set (fc_chunks f')" "(ft_id (snd e), sz) \<in> pend (fc_map f)" for e sz
      using that R unfolding p by simp
  qed
  moreover have "arriving (pend m) ?g (fc_chunks f')"
    unfolding arriving_def
  proof (intro ballI)
    fix s b assume s: "s \<in> pend m" "b \<in> span s"
    then have "s \<in> pend (fc_map f)" "fst s \<notin> set t" unfolding p by blast+
    moreover from this(1) s(2) have "b \<in> ?g \<or> (\<exists>e \<in> set (fc_chunks f). ft_id (snd e) = fst s \<and> b \<in> part_span (snd e))"
      using C(6) unfolding arriving_def by blast
    ultimately show "b \<in> ?g \<or> (\<exists>e \<in> set (fc_chunks f'). ft_id (snd e) = fst s \<and> b \<in> part_span (snd e))"
      using R by auto
  qed
  ultimately show ?thesis
    using C(2,3) R removeInactiveChunks_facts [OF C(1) r] removeInactiveChunks_cover [OF C(1,4) r] removeInactiveChunks_size [OF C(1) r]
    by (simp add: f' creator_inv_def)
qed

end
