(* ===== verification/Creator_Props.thy ===== *)
theory Creator_Props
  imports Creator_Run
begin

text \<open>
  The calls of a download as a step relation, for peers that send the original's bytes, and what holds
  in every reachable state; then what the calls do outside these bounds: packets that start beyond the
  end of the file, packets longer than what was asked, and slices that are given up in several parts.
\<close>

subsection \<open>The calls of a download\<close>

inductive creator_new :: "bytes \<Rightarrow> ftFileCreator \<Rightarrow> bool" for orig where
  created: "length orig < 2 ^ 51 \<Longrightarrow> unat sz = length orig \<Longrightarrow>
    creator_new orig (make_ftFileCreator now mtime content sz availability)"

datatype creator_event =
    Packet u64 u32
  | Ask RsPeerId u32
  | Expire rstime_t
  | Serve RsPeerId u64 u32
  | Verify u32
  | Sources RsPeerId
  | Settings

inductive creator_step :: "bytes \<Rightarrow> ftFileCreator \<Rightarrow> creator_event \<Rightarrow> ftFileCreator \<Rightarrow> bool" for orig where
  packet: "packet_ok off sz f \<Longrightarrow> honest orig off sz data \<Longrightarrow> opens_in_place a f \<Longrightarrow>
    addFileData disc a now off sz data f = Some (ok, f') \<Longrightarrow> creator_step orig f (Packet off sz) f'"
| ask: "hint \<noteq> 0 \<Longrightarrow> getMissingChunk slow now rnd p hint f = (r, needed, f') \<Longrightarrow> creator_step orig f (Ask p hint) f'"
| expire: "creator_step orig f (Expire now) (creator_removeInactiveChunks now f)"
| serve: "creator_getFileData a now p off sz data unverified f = Some (r, sz', data', f') \<Longrightarrow>
    creator_step orig f (Serve p off sz) f'"
| verify: "unat n < length (cm_map (fc_map f)) \<Longrightarrow> opens_in_place a f \<Longrightarrow> verifyChunk h a n s f = (ok, f') \<Longrightarrow>
    creator_step orig f (Verify n) f'"
| checks: "creator_getChunksToCheck f = (cs, f') \<Longrightarrow> creator_step orig f Settings f'"
| source_map: "creator_step orig f (Sources p) (setSourceMap now p cmap f)"
| source_full: "sourceIsComplete p f = (full, f') \<Longrightarrow> creator_step orig f (Sources p) f'"
| source_gone: "creator_step orig f (Sources p) (creator_removeFileSource p f)"
| client_map: "creator_step orig f (Sources p) (setClientMap now p cmap f)"
| client_known: "getClientMap now p f = (cmap, too_old, f') \<Longrightarrow> creator_step orig f (Sources p) f'"
| purge: "purgeOldPeers now age f = (idle, f') \<Longrightarrow> creator_step orig f Settings f'"
| strategy: "creator_step orig f Settings (setChunkStrategy st f)"
| close: "creator_step orig f Settings (closeFile f)"

lemma provider_frame:
  assumes "creator_inv orig f" "provider_getFileData a now p off sz data f = Some (r, sz', data', f')"
  shows "creator_inv orig f'"
  using assms
  by (auto simp: provider_getFileData_def initializeFileAttrs_def creator_inv_def Let_def split: if_splits option.splits)

lemma creator_new_inv: "creator_new orig f \<Longrightarrow> creator_inv orig f"
proof (erule creator_new.cases)
  fix sz now mtime content av
  assume f: "f = make_ftFileCreator now mtime content sz av" and l: "length orig < 2 ^ 51" "unat sz = length orig"
  then have "chunkmap_inv (fc_map f)" by (simp add: make_ftFileCreator_def make_ChunkMap_inv)
  moreover have "pend (fc_map f) = {}" "cover (good orig (fp_file f)) (fc_map f)"
    using new_cover by (simp_all add: f make_ftFileCreator_def)
  moreover have "cm_file_size (fc_map f) = sz" by (simp add: f make_ftFileCreator_def make_ChunkMap_def Let_def)
  ultimately show ?thesis
    using l by (simp add: creator_inv_def f make_ftFileCreator_def table_ok_def arriving_def)
qed

lemma creator_step_inv: "creator_inv orig f \<Longrightarrow> creator_step orig f e f' \<Longrightarrow> creator_inv orig f'"
proof (erule creator_step.cases, goal_cases)
  case (1 off sz f data a disc now ok f')
  then show ?case using addFileData_inv by blast
next
  case (2 hint slow now rnd p f r needed f')
  then show ?case using getMissingChunk_inv by blast
next
  case (3 f now)
  then show ?case using creator_removeInactiveChunks_inv by blast
next
  case (4 a now p off sz data unv f r sz' data' f')
  then show ?case
    by (auto simp: creator_getFileData_def Let_def split: option.splits bool.splits if_splits prod.splits intro: provider_frame)
next
  case (5 n f a h s ok f')
  obtain o1 f1 where o1: "locked_initializeFileAttrs a f = (o1, f1)" by (cases "locked_initializeFileAttrs a f")
  note k = open_keeps [OF 5(6) o1]
  have c1: "creator_inv orig f1" using k 5(1,2) by simp
  note C = creator_invD [OF c1]
  have "creator_inv orig (f1\<lparr>fc_map := setChunkCheckingResult n b (fc_map f1)\<rparr>)" for b
    using C setChunkCheckingResult_inv [OF C(1), of n b] setChunkCheckingResult_cover [OF C(1), of n b "good orig (fp_file f1)"]
      5(5) k by (simp add: creator_inv_def)
  then show ?case using 5 c1 by (auto simp: verifyChunk_def o1 Let_def split: if_splits)
qed (auto simp: creator_getChunksToCheck_def getChunksToCheck_def setSourceMap_def setPeerAvailabilityMap_def
    creator_removeFileSource_def removeFileSource_def setClientMap_def getClientMap_def purgeOldPeers_def
    setChunkStrategy_def setStrategy_def closeFile_def creator_inv_def sourceIsComplete_def Let_def
    elim!: getSourceChunksInfo_frame split: prod.splits if_splits)

interpretation creator: inductive_invariant "creator_new orig" "creator_step orig" "creator_inv orig" for orig
  by unfold_locales (fact creator_new_inv, fact creator_step_inv)


subsection \<open>What is finished is right\<close>

lemma good_range:
  assumes "{a..<a + n} \<subseteq> good orig file"
  shows "take n (drop a file) = take n (drop a orig)"
proof (cases n)
  case (Suc k)
  then have "a + k \<in> good orig file" using assms by auto
  then have "a + n \<le> length file" "a + n \<le> length orig" using Suc by (simp_all add: good_def)
  then show ?thesis using assms by (intro nth_equalityI) (auto simp: good_def subset_iff)
qed simp

lemma finished_good:
  assumes "creator_inv orig f" "n < length (cm_map (fc_map f))" "is_done_or_checking (cm_map (fc_map f) ! n)"
  shows "{n * csz..<n * csz + chunk_bytes (fc_map f) n} \<subseteq> good orig (fp_file f)"
  using creator_invD [OF assms(1)] assms(2,3) by (intro cover_done)

text \<open>C1. When the data that arrives is the original's, every chunk that the map counts as done or hands
  out for checking has exactly the original's bytes on disk, whatever the order in which slices were
  asked, split, given up, asked again and received.\<close>

theorem finished_chunk_is_original:
  assumes "reach (creator_new orig) (creator_step orig) f" "n < length (cm_map (fc_map f))"
    "is_done_or_checking (cm_map (fc_map f) ! n)"
  shows "take (chunk_bytes (fc_map f) n) (drop (n * csz) (fp_file f)) =
    take (chunk_bytes (fc_map f) n) (drop (n * csz) orig)"
  using finished_good [OF creator.reach_inv [OF assms(1)] assms(2,3)] by (rule good_range)






subsection \<open>What is asked is awaited\<close>

text \<open>A range is awaited in a map when it lies in a chunk that is being downloaded.\<close>

definition awaited :: "ChunkMap \<Rightarrow> nat set \<Rightarrow> bool" where
  "awaited m B = (\<exists>n < length (cm_map m). cm_map m ! n = CHUNK_ACTIVE \<and>
     B \<subseteq> {n * csz..<n * csz + chunk_bytes m n})"

lemma awaited_record:
  assumes i: "chunkmap_inv m" and k: "(k, d) \<in> set (cm_slices_to_download m)" "(j, r) \<in> set (cdi_slices d)"
    and B: "B \<subseteq> span (j, unat (sri_size r))"
  shows "awaited m B"
proof -
  have so: "slices_ok m" using i by (simp add: chunkmap_inv_def)
  note ok = slices_entry [OF so k(1)]
  have "B \<subseteq> cut_off m (unat k)" using pend_home [OF i k] B by auto
  then have "B \<subseteq> {unat k * csz..<unat k * csz + chunk_bytes m (unat k)}" by (auto simp: cut_off_def)
  then show ?thesis using chunk_okD(1,2) [OF ok] unfolding awaited_def by blast
qed

lemma awaited_slice: "chunkmap_inv m \<Longrightarrow> s \<in> pend m \<Longrightarrow> B \<subseteq> span s \<Longrightarrow> awaited m B"
  by (cases s) (auto simp: in_pend intro: awaited_record)

lemma slice_below_4g:
  assumes i: "chunkmap_inv m" and s: "s \<in> pend m"
  shows "snd s < 4294967296"
proof -
  obtain r where "snd s = unat (sri_size (r :: SliceRequestInfo))"
    using s by (cases s) (auto simp: in_pend)
  then show ?thesis using unat_u32_less [of "sri_size r"] by simp
qed

lemma awaited_part:
  assumes i: "chunkmap_inv m" and t: "table_ok (pend m) t refs" and e: "e \<in> set t"
  shows "awaited m (packet (ft_offset (snd e)) (ucast (ft_size (snd e))))"
proof -
  note p = part_okD [OF table_okD(3) [OF t e]]
  obtain sz where sz: "(ft_id (snd e), sz) \<in> pend m" "part_span (snd e) \<subseteq> span (ft_id (snd e), sz)" using p(3) by blast
  have "unat (ft_size (snd e)) \<le> sz" using sz(2) p(2) by (simp add: part_span_def span_def)
  then have u: "unat (ucast (ft_size (snd e)) :: u32) = unat (ft_size (snd e))"
    using slice_below_4g [OF i sz(1)] by (intro unat_ucast_64_32) simp
  then have "packet (ft_offset (snd e)) (ucast (ft_size (snd e))) = part_span (snd e)"
    by (simp add: packet_def part_span_def)
  then show ?thesis using awaited_slice [OF i sz] by simp
qed

text \<open>Every range that \<^verbatim>\<open>getMissingChunk\<close> returns lies in one chunk that is being downloaded: nothing that is finished is asked again, and nothing beyond the end.\<close>

theorem asked_range_is_awaited:
  assumes r: "reach (creator_new orig) (creator_step orig) f" and h: "hint \<noteq> 0"
    and g: "getMissingChunk slow now rnd peer hint f = (Some (off, sz), needed, f')"
  shows "awaited (fc_map f') (packet off sz)"
proof -
  have c: "creator_inv orig f" by (rule creator.reach_inv [OF r])
  have c': "creator_inv orig f'" by (rule getMissingChunk_inv [OF c h g])
  note C = creator_invD [OF c] and C' = creator_invD [OF c']
  have part: ?thesis if "e \<in> set (fc_chunks f')" "off = ft_offset (snd e)" "sz = ucast (ft_size (snd e))" for e
    using awaited_part [OF C'(1,5) that(1)] that(2,3) by simp
  obtain old m1 where ff: "find_faulting now peer (fc_chunks f) (fc_map f) = (old, m1)"
    by (cases "find_faulting now peer (fc_chunks f) (fc_map f)")
  show ?thesis
  proof (cases old)
    case (Some e)
    have wf: "map_wf (fc_chunks f)" using table_okD(1) [OF C(5)] .
    have "(fst e, (snd e)\<lparr>ft_ts := now\<rparr>) \<in> set (fc_chunks f') \<and> off = ft_offset (snd e) \<and> sz = ucast (ft_size (snd e))"
      using g Some wf by (auto simp: getMissingChunk_def ff set_map_put split: prod.splits)
    then show ?thesis by (intro part [of "(fst e, (snd e)\<lparr>ft_ts := now\<rparr>)"]) simp_all
  next
    case None
    obtain sl nd m2 where gd: "getDataChunk slow now rnd peer hint False m1 = (sl, nd, m2)"
      by (cases "getDataChunk slow now rnd peer hint False m1")
    show ?thesis
    proof (cases sl)
      case (Some c2)
      have wf: "map_wf (fc_chunks f)" using table_okD(1) [OF C(5)] .
      define e where "e = (ft_offset c2, ftChunk.extend c2 \<lparr>ft_ref_cnt = fresh_ref (fc_refs f)\<rparr>)"
      have "e \<in> set (fc_chunks f') \<and> off = ft_offset (snd e) \<and> sz = ucast (ft_size (snd e))"
        using g None gd Some wf by (auto simp: getMissingChunk_def ff Let_def e_def set_map_put ftChunk.defs split: if_splits)
      then show ?thesis by (intro part [of e]) simp_all
    next
      case none: None
      then obtain m3 where ra: "reAskPendingChunk now peer m2 = (Some (off, sz), m3)" "fc_map f' = m3"
        using g None gd by (auto simp: getMissingChunk_def ff Let_def split: if_splits prod.splits)
      from find_faulting_frame [OF ff] obtain x where x: "m1 = (fc_map f)\<lparr>cm_peers_chunks_availability := x\<rparr>" by blast
      have "chunkmap_inv m1" using C(1) by (simp add: x)
      then have i2: "chunkmap_inv m2" using getDataChunk_inv gd by blast
      note i3 = reAskPendingChunk_inv [OF i2 ra(1)]
      from ra(1) obtain k d q where k: "(k, d) \<in> set (cm_slices_to_download m2)" "(off, q) \<in> set (cdi_slices d)" "sz = sri_size q"
        unfolding reAskPendingChunk_def by (auto split: if_splits option.splits dest!: find_in)
      have "awaited m2 (packet off sz)" using k(3) by (intro awaited_record [OF i2 k(1,2)]) (simp add: packet_def span_def)
      moreover have "cm_map m3 = cm_map m2" "cm_file_size m3 = cm_file_size m2"
        using ra(1) by (auto simp: reAskPendingChunk_def split: if_splits option.splits)
      moreover from this have "chunk_bytes m3 = chunk_bytes m2" by (intro ext chunk_bytes_cong) simp_all
      ultimately show ?thesis by (simp add: awaited_def ra(2))
    qed
  qed
qed

subsection \<open>A sample download\<close>

definition good_disk :: file_answers where
  "good_disk = \<lparr>fa_open = True, fa_open_other = False, fa_seek = True, fa_read = True, fa_write_fails = None\<rparr>"

definition sample_new :: ftFileCreator where
  "sample_new = make_ftFileCreator 0 None [] 3 True"

definition sample_asked :: ftFileCreator where
  "sample_asked = snd (snd (getMissingChunk (\<lambda>_ _. False) 1 0 [1] 3 sample_new))"

definition sample_received :: "u64 \<Rightarrow> u32 \<Rightarrow> bytes \<Rightarrow> ftFileCreator" where
  "sample_received off sz data = snd (the (addFileData True good_disk 2 off sz data sample_asked))"

abbreviation sample_complete :: ftFileCreator where
  "sample_complete \<equiv> sample_received 0 3 [7, 8, 9]"

lemma sample_asked_reach: "reach (creator_new [7, 8, 9]) (creator_step [7, 8, 9]) sample_asked"
proof -
  have "creator_new [7, 8, 9] sample_new" unfolding sample_new_def by (rule created) simp_all
  then have "reach (creator_new [7, 8, 9]) (creator_step [7, 8, 9]) sample_new" by (rule reach_init)
  moreover have "creator_step [7, 8, 9] sample_new (Ask [1] 3) sample_asked"
    unfolding sample_asked_def by (rule ask [of 3]) (simp_all add: prod_eq_iff)
  ultimately show ?thesis by (rule reach_step)
qed

lemma sample_received_reach:
  assumes "packet_ok off sz sample_asked" "honest [7, 8, 9] off sz data"
    "addFileData True good_disk 2 off sz data sample_asked \<noteq> None"
  shows "reach (creator_new [7, 8, 9]) (creator_step [7, 8, 9]) (sample_received off sz data)"
proof (rule reach_step [OF sample_asked_reach packet [OF assms(1,2)]])
  show "opens_in_place good_disk sample_asked" by (simp add: opens_in_place_def good_disk_def)
  show "addFileData True good_disk 2 off sz data sample_asked =
      Some (fst (the (addFileData True good_disk 2 off sz data sample_asked)), sample_received off sz data)"
    using assms(3) by (auto simp: sample_received_def)
qed

lemma sample_complete_reach: "reach (creator_new [7, 8, 9]) (creator_step [7, 8, 9]) sample_complete"
  by (rule sample_received_reach) code_simp+

lemma finished_chunk_is_original_witness:
  "cm_map (fc_map sample_complete) = [CHUNK_DONE] \<and> take 3 (fp_file sample_complete) = [7, 8, 9]"
proof -
  have m: "cm_map (fc_map sample_complete) = [CHUNK_DONE]" "cm_file_size (fc_map sample_complete) = 3" by code_simp+
  then have "chunk_bytes (fc_map sample_complete) 0 = 3" by (simp add: chunk_bytes_def)
  show ?thesis
    using finished_chunk_is_original [OF sample_complete_reach, of 0] m(1) \<open>chunk_bytes _ 0 = 3\<close>
    by (simp add: is_done_or_checking_def)
qed



lemma asked_range_is_awaited_witness: "awaited (fc_map sample_asked) (packet 0 3)"
proof -
  let ?r = "getMissingChunk (\<lambda>_ _. False) 1 0 [1] 3 sample_new"
  have "creator_new [7, 8, 9] sample_new" unfolding sample_new_def by (rule created) simp_all
  then have r: "reach (creator_new [7, 8, 9]) (creator_step [7, 8, 9]) sample_new" by (rule reach_init)
  have "fst ?r = Some (0, 3)" by code_simp
  then have "?r = (Some (0, 3), fst (snd ?r), sample_asked)" by (simp add: sample_asked_def prod_eq_iff)
  from asked_range_is_awaited [OF r _ this] show ?thesis by simp
qed

subsection \<open>Packets outside these bounds\<close>

text \<open>A packet that starts beyond the end of the file makes \<^verbatim>\<open>addFileData\<close> read outside the packet's
  buffer: the size that is left is computed as an unsigned difference, and wraps. Packets that start
  inside the file are cut to it.\<close>

theorem addFileData_beyond_end:
  assumes "length data = unat csize" "csize \<noteq> 0" "unat off + unat csize < 2 ^ 64" "fst (locked_initializeFileAttrs a f)"
  shows "addFileData True a now off csize data f = None \<longleftrightarrow>
    fa_seek a \<and> unat (fp_size f) < unat off \<and>
    int (unat csize) < (int (unat (fp_size f)) - int (unat off)) mod 2 ^ 32"
proof -
  obtain f1 where f1: "locked_initializeFileAttrs a f = (True, f1)"
    using assms(4) by (cases "locked_initializeFileAttrs a f") simp
  have size: "fp_size f1 = fp_size f" using f1 by (auto simp: locked_initializeFileAttrs_def split: if_splits)
  define left where "left = (ucast (fp_size f - off) :: u32)"
  have sum: "unat (off + ucast csize) = unat off + unat csize"
    using assms(3) unat_add_lem [of off "ucast csize"] by simp
  have over: "off + ucast csize > fp_size f \<longleftrightarrow> unat (fp_size f) < unat off + unat csize"
    by (simp add: word_less_nat_alt sum)
  have "uint left = (uint (fp_size f) - uint off) mod 2 ^ 64 mod 2 ^ 32"
    by (simp add: left_def unsigned_ucast_eq take_bit_eq_mod uint_word_ariths)
  then have left: "int (unat left) = (int (unat (fp_size f)) - int (unat off)) mod 2 ^ 32"
    by (simp add: mod_mod_cancel flip: uint_nat)
  have inside: "unat left \<le> unat csize" if "unat off \<le> unat (fp_size f)" "unat (fp_size f) < unat off + unat csize"
  proof -
    have "unat (fp_size f - off) = unat (fp_size f) - unat off" using that(1) by (intro word_diff) (simp add: word_le_nat_alt)
    then show ?thesis using that unat_u32_less [of csize] by (simp add: left_def unat_ucast_64_32)
  qed
  have "addFileData True a now off csize data f = None \<longleftrightarrow>
      fa_seek a \<and> unat csize < unat (if off + ucast csize > fp_size f then left else csize)"
    using assms(1) by (auto simp: addFileData_def f1 Let_def size left_def split: option.split)
  also have "\<dots> \<longleftrightarrow> fa_seek a \<and> unat (fp_size f) < unat off \<and> unat csize < unat left"
    using inside over by (cases "unat off \<le> unat (fp_size f)") auto
  finally show ?thesis using left by (simp flip: of_nat_less_iff [where ?'a = int])
qed

lemma addFileData_beyond_end_witness: "addFileData True good_disk 2 10 1 [7] sample_asked = None"
proof -
  have f: "fst (locked_initializeFileAttrs good_disk sample_asked)" "fp_size sample_asked = 3" "fa_seek good_disk" by code_simp+
  show ?thesis
    by (rule addFileData_beyond_end [THEN iffD2]) (simp_all add: f)
qed

text \<open>A packet longer than the part that starts at its offset leaves, instead of nothing, a part of
  almost \<open>2 ^ 64\<close> bytes, and the slice is not counted as received.\<close>

theorem oversized_packet_wraps_part:
  assumes "map_of (fc_chunks f) off = Some c" "ft_offset c = off" "unat (ft_size c) < unat sz"
  shows "\<exists>c'. map_of (fc_chunks (snd (locked_notifyReceived now off sz f))) (off + ucast sz) = Some c' \<and>
      unat (ft_size c') = 2 ^ 64 - (unat sz - unat (ft_size c)) \<and>
      fc_map (snd (locked_notifyReceived now off sz f)) = fc_map f"
proof -
  have ne: "ft_size c \<noteq> ucast sz" using assms(3) by auto
  have "unat (ft_size c - ucast sz) = 2 ^ 64 - (unat sz - unat (ft_size c))"
    using assms(3) unat_sub_if' [of "ft_size c" "ucast sz"] by simp
  then show ?thesis using assms(1,2) ne by (simp add: locked_notifyReceived_def Let_def)
qed

lemma oversized_packet_wraps_part_witness:
  "\<exists>c'. map_of (fc_chunks (snd (locked_notifyReceived 2 0 4 sample_asked))) 4 = Some c' \<and>
      unat (ft_size c') = 0xFFFFFFFFFFFFFFFF \<and>
      fc_map (snd (locked_notifyReceived 2 0 4 sample_asked)) = fc_map sample_asked"
proof -
  obtain c where c: "map_of (fc_chunks sample_asked) 0 = Some c" "ft_offset c = 0" "unat (ft_size c) = 3"
  proof (rule that)
    show "map_of (fc_chunks sample_asked) 0 = Some (the (map_of (fc_chunks sample_asked) 0))"
      "ft_offset (the (map_of (fc_chunks sample_asked) 0)) = 0"
      "unat (ft_size (the (map_of (fc_chunks sample_asked) 0))) = 3" by code_simp+
  qed
  show ?thesis using oversized_packet_wraps_part [OF c(1,2), of 4 2] c(3) by simp
qed

text \<open>A packet that nobody asked for is written all the same: \<^verbatim>\<open>addFileData\<close> answers that all went well,
  the packet's bytes replace those on disk, and the map stays as it was, so a chunk that was verified
  still counts as done.\<close>

theorem unasked_packet_is_written:
  assumes "unat off + unat sz \<le> unat (fp_size f)" "sz \<noteq> 0" "unat (fp_size f) < 2 ^ 51" "length data = unat sz"
    "fst (locked_initializeFileAttrs a f)" "fa_seek a" "fa_write_fails a = None"
    "\<not> fst (locked_notifyReceived now off sz f)"
  shows "\<exists>f'. addFileData True a now off sz data f = Some (True, f') \<and>
    take (unat sz) (drop (unat off) (fp_file f')) = data \<and> fc_map f' = fc_map f \<and> fc_chunks f' = fc_chunks f"
proof -
  obtain f1 where f1: "locked_initializeFileAttrs a f = (True, f1)"
    using assms(5) by (cases "locked_initializeFileAttrs a f") simp
  have same: "fp_size f1 = fp_size f" "fc_map f1 = fc_map f" "fc_chunks f1 = fc_chunks f"
    using f1 by (auto simp: locked_initializeFileAttrs_def split: if_splits)
  define f2 where "f2 = f1\<lparr>fp_file := write_at (fp_file f1) (unat off) data\<rparr>"
  have "unat (off + ucast sz) = unat off + unat sz" using assms(1,3) by (intro word_sum [THEN trans]) simp_all
  then have over: "\<not> off + ucast sz > fp_size f" using assms(1) by (simp add: word_less_nat_alt)
  have refused: "snd (locked_notifyReceived now off sz g) = g" if "fc_chunks g = fc_chunks f" for g
    using assms(8) that
    by (auto simp: locked_notifyReceived_def Let_def split: option.splits if_splits)
  have ne: "data \<noteq> []" using assms(2,4) by (auto simp: unat_eq_0)
  have here: "take (unat sz) (drop (unat off) (write_at (fp_file f1) (unat off) data)) = data"
    using ne assms(4) by (intro nth_equalityI) (auto simp: length_write_at nth_write_at)
  define f' where "f' = (if cm_file_is_complete (fc_map f2) then closeFile f2 else f2)"
  have "addFileData True a now off sz data f = Some (True, f')"
    using assms(2,4,6,7) over refused [of f2] same
    by (simp add: addFileData_def f1 Let_def f2_def [symmetric] f'_def) (simp add: f2_def)
  moreover have "fp_file f' = write_at (fp_file f1) (unat off) data \<and> fc_map f' = fc_map f \<and> fc_chunks f' = fc_chunks f"
    using same by (simp add: f'_def f2_def closeFile_def)
  ultimately show ?thesis using here by auto
qed

lemma unasked_packet_is_written_witness:
  "\<exists>f'. addFileData True good_disk 3 0 3 [0, 0, 0] sample_complete = Some (True, f') \<and>
    take 3 (fp_file f') = [0, 0, 0] \<and> cm_map (fc_map f') = [CHUNK_DONE]"
proof -
  have m: "cm_map (fc_map sample_complete) = [CHUNK_DONE]" by code_simp
  have "\<exists>f'. addFileData True good_disk 3 0 3 [0, 0, 0] sample_complete = Some (True, f') \<and>
      take (unat (3 :: u32)) (drop (unat (0 :: u64)) (fp_file f')) = [0, 0, 0] \<and>
      fc_map f' = fc_map sample_complete \<and> fc_chunks f' = fc_chunks sample_complete"
  proof (rule unasked_packet_is_written)
    have f: "fp_size sample_complete = 3" by code_simp
    show "unat (0 :: u64) + unat (3 :: u32) \<le> unat (fp_size sample_complete)" "unat (fp_size sample_complete) < 2 ^ 51"
      by (simp_all add: f)
    show "fst (locked_initializeFileAttrs good_disk sample_complete)"
      "\<not> fst (locked_notifyReceived 3 0 3 sample_complete)" "fa_seek good_disk" "fa_write_fails good_disk = None" by code_simp+
  qed simp_all
  then show ?thesis using m by auto
qed

subsection \<open>A slice that is given up in several parts\<close>

text \<open>The count of slices asked from a peer goes up by one for a slice and down by one for each of its
  parts.\<close>

lemma remove_part_count:
  "map_get 0 p (fc_chunks_per_peer (remove_part k c f)) =
     map_get 0 p (fc_chunks_per_peer f) - (if ft_peer_id c = p then 1 else 0)"
  "fc_chunks_per_peer (remove_part k c f) = map_put (ft_peer_id c)
     (map_get 0 (ft_peer_id c) (fc_chunks_per_peer f) - 1) (fc_chunks_per_peer f)"
  by (auto simp: remove_part_def Let_def map_get_def)

lemma remove_slice_count:
  "map_get 0 p (fc_chunks_per_peer (remove_slice sid f)) = map_get 0 p (fc_chunks_per_peer f) -
     of_nat (length (filter (\<lambda>(k, c). ft_id c = sid \<and> ft_peer_id c = p) (fc_chunks f)))"
proof -
  have "map_get 0 p (fc_chunks_per_peer (foldl (\<lambda>f (k, c). if ft_id c = sid then remove_part k c f else f) f es)) =
      map_get 0 p (fc_chunks_per_peer f) - of_nat (length (filter (\<lambda>(k, c). ft_id c = sid \<and> ft_peer_id c = p) es))"
    for es by (induction es arbitrary: f) (auto simp: remove_part_count(1) split: prod.splits)
  then show ?thesis by (simp add: remove_slice_def)
qed

subsection \<open>A peer that is shut out\<close>

lemma remove_slice_chunks:
  assumes "map_wf (fc_chunks f)"
  shows "fc_chunks (remove_slice sid f) = filter (\<lambda>(k, c). ft_id c \<noteq> sid) (fc_chunks f)"
proof -
  have "fc_chunks (foldl (\<lambda>f (k, c). if ft_id c = sid then remove_part k c f else f) f es) =
      filter (\<lambda>e. fst e \<notin> fst ` {e \<in> set es. ft_id (snd e) = sid}) (fc_chunks f)" for es
  proof (induction es arbitrary: f)
    case (Cons e es)
    obtain k c where e: "e = (k, c)" by (cases e)
    have X: "fst ` {d \<in> set (e # es). ft_id (snd d) = sid} =
        (if ft_id c = sid then insert k (fst ` {d \<in> set es. ft_id (snd d) = sid}) else fst ` {d \<in> set es. ft_id (snd d) = sid})"
      by (auto simp: e image_iff)
    have chunks: "fc_chunks (remove_part k c f) = filter (\<lambda>d. fst d \<noteq> k) (fc_chunks f)"
      by (simp add: remove_part_def Let_def map_erase_def)
    show ?case
    proof (cases "ft_id c = sid")
      case True
      have "foldl (\<lambda>f (k, c). if ft_id c = sid then remove_part k c f else f) f (e # es) =
          foldl (\<lambda>f (k, c). if ft_id c = sid then remove_part k c f else f) (remove_part k c f) es"
        using True by (simp add: e)
      then show ?thesis unfolding X using True Cons.IH [of "remove_part k c f"] chunks by (simp add: conj_commute)
    next
      case False
      have "foldl (\<lambda>f (k, c). if ft_id c = sid then remove_part k c f else f) f (e # es) =
          foldl (\<lambda>f (k, c). if ft_id c = sid then remove_part k c f else f) f es"
        using False by (simp add: e)
      then show ?thesis unfolding X using False Cons.IH [of f] by simp
    qed
  qed simp
  moreover have "filter (\<lambda>e. fst e \<notin> fst ` {e \<in> set (fc_chunks f). ft_id (snd e) = sid}) (fc_chunks f) =
      filter (\<lambda>(k, c). ft_id c \<noteq> sid) (fc_chunks f)"
  proof (rule filter_cong [OF refl])
    fix e assume e: "e \<in> set (fc_chunks f)"
    have inj: "snd d = snd e" if "d \<in> set (fc_chunks f)" "fst d = fst e" for d
    proof -
      have "(fst e, snd d) \<in> set (fc_chunks f)" using that(1) unfolding that(2) [symmetric] prod.collapse .
      moreover have "(fst e, snd e) \<in> set (fc_chunks f)" using e by simp
      ultimately show ?thesis by (rule eq_key_imp_eq_value [OF map_wf_distinct [OF assms]])
    qed
    have "fst e \<in> fst ` {e \<in> set (fc_chunks f). ft_id (snd e) = sid} \<longleftrightarrow> ft_id (snd e) = sid"
    proof
      assume "fst e \<in> fst ` {e \<in> set (fc_chunks f). ft_id (snd e) = sid}"
      then obtain d where "fst e = fst d" "d \<in> {e \<in> set (fc_chunks f). ft_id (snd e) = sid}" by (rule imageE)
      then have "d \<in> set (fc_chunks f)" "fst d = fst e" "ft_id (snd d) = sid" by simp_all
      then show "ft_id (snd e) = sid" using inj by simp
    next
      assume "ft_id (snd e) = sid"
      then show "fst e \<in> fst ` {e \<in> set (fc_chunks f). ft_id (snd e) = sid}" using e by blast
    qed
    then show "(fst e \<notin> fst ` {e \<in> set (fc_chunks f). ft_id (snd e) = sid}) = (case e of (k, c) \<Rightarrow> ft_id c \<noteq> sid)"
      by (simp only: case_prod_beta simp_thms)
  qed
  ultimately show ?thesis by (simp add: remove_slice_def)
qed

lemma filter_given_up:
  "length (filter (\<lambda>(k, c). ft_id c \<in> set (sid # ids) \<and> Q c) t) =
   length (filter (\<lambda>(k, c). ft_id c = sid \<and> Q c) t) +
   length (filter (\<lambda>(k, c). ft_id c \<in> set ids \<and> Q c) (filter (\<lambda>(k, c). ft_id c \<noteq> sid) t))"
  by (induction t) auto

lemma remove_slices:
  "map_wf (fc_chunks f) \<Longrightarrow>
   fc_chunks (foldl (\<lambda>f sid. remove_slice sid f) f ids) = filter (\<lambda>(k, c). ft_id c \<notin> set ids) (fc_chunks f) \<and>
   map_get 0 p (fc_chunks_per_peer (foldl (\<lambda>f sid. remove_slice sid f) f ids)) = map_get 0 p (fc_chunks_per_peer f) -
     of_nat (length (filter (\<lambda>(k, c). ft_id c \<in> set ids \<and> ft_peer_id c = p) (fc_chunks f)))"
proof (induction ids arbitrary: f)
  case Nil
  have "filter (\<lambda>(k, c). True) t = t" for t :: "(u64 \<times> ftSlice) list" by (induction t) auto
  then show ?case by (simp add: case_prod_beta)
next
  case (Cons sid ids)
  note c = remove_slice_chunks [OF Cons.prems, of sid]
  have wf: "map_wf (fc_chunks (remove_slice sid f))" unfolding c using Cons.prems by simp
  have a: "filter (\<lambda>(k, c). ft_id c \<notin> set (sid # ids)) t =
      filter (\<lambda>(k, c). ft_id c \<notin> set ids) (filter (\<lambda>(k, c). ft_id c \<noteq> sid) t)" for t :: "(u64 \<times> ftSlice) list"
    by (induction t) auto
  show ?case
    using Cons.IH [OF wf] unfolding c remove_slice_count a filter_given_up [where Q = "\<lambda>c. ft_peer_id c = p"]
    by (simp add: algebra_simps)
qed

text \<open>A peer that is at its limit and of which no slice is outstanding.\<close>

definition shut_out :: "RsPeerId \<Rightarrow> ftFileCreator \<Rightarrow> bool" where
  "shut_out p f =
     (MAX_FTCHUNKS_PER_PEER \<le> map_get 0 p (fc_chunks_per_peer f) \<and> (\<forall>e \<in> set (fc_chunks f). ft_peer_id (snd e) \<noteq> p))"

lemma set_put_subset: "set (map_put k v m) \<subseteq> insert (k, v) (set m)"
  by (induction m) (auto split: if_splits)

lemma shut_out_put:
  "shut_out p f \<Longrightarrow> ft_peer_id c \<noteq> p \<Longrightarrow> fc_chunks_per_peer g = fc_chunks_per_peer f \<Longrightarrow>
   fc_chunks g = map_put k c (fc_chunks f) \<Longrightarrow> shut_out p g"
  using set_put_subset [of k c "fc_chunks f"] by (auto simp: shut_out_def)

lemma shut_out_less:
  "shut_out p f \<Longrightarrow> map_get 0 p (fc_chunks_per_peer g) = map_get 0 p (fc_chunks_per_peer f) \<Longrightarrow>
   set (fc_chunks g) \<subseteq> set (fc_chunks f) \<Longrightarrow> shut_out p g"
  by (auto simp: shut_out_def)

lemma map_get_put: "map_get d p (map_put q v m) = (if p = q then v else map_get d p m)"
  by (simp add: map_get_def)

lemma shut_out_received:
  assumes "shut_out p f"
  shows "shut_out p (snd (locked_notifyReceived now off sz f))"
proof -
  define finish where "finish = (\<lambda>(c :: ftSlice) (f1 :: ftFileCreator). (if ft_size c \<noteq> ucast sz then
        (let c' = c\<lparr>ft_size := ft_size c - ucast sz, ft_offset := ft_offset c + ucast sz\<rparr>
         in f1\<lparr>fc_chunks := map_put (ft_offset c') c' (fc_chunks f1)\<rparr>)
      else (let r = map_get 0 (ft_ref_cnt c) (fc_refs f1) - 1 in
            if r = 0 then
              f1\<lparr>fc_map := dataReceived now (ft_id c) (fc_map f1),
                 fc_chunks_per_peer := map_put (ft_peer_id c)
                   (map_get 0 (ft_peer_id c) (fc_chunks_per_peer f1) - 1) (fc_chunks_per_peer f1),
                 fc_refs := map_erase (ft_ref_cnt c) (fc_refs f1)\<rparr>
            else f1\<lparr>fc_refs := map_put (ft_ref_cnt c) r (fc_refs f1)\<rparr>)))"
  have fin: "shut_out p ((finish c f1)\<lparr>fc_last_recv_time_t := now\<rparr>)" if "shut_out p f1" "ft_peer_id c \<noteq> p" for c f1
  proof (cases "ft_size c \<noteq> ucast sz")
    case True
    show ?thesis
      by (rule shut_out_put [OF that(1), of "c\<lparr>ft_size := ft_size c - ucast sz, ft_offset := ft_offset c + ucast sz\<rparr>"])
        (use True that(2) in \<open>simp_all add: finish_def\<close>)
  next
    case False
    show ?thesis
      by (rule shut_out_less [OF that(1)])
        (use False that(2) in \<open>simp_all add: finish_def Let_def map_get_put\<close>)
  qed
  have n: "snd (locked_notifyReceived now off sz f) =
      (case (case map_of (fc_chunks f) off of
            Some c \<Rightarrow> Some (c, f\<lparr>fc_chunks := map_erase off (fc_chunks f)\<rparr>)
          | None \<Rightarrow>
              (case find (contains_packet off sz) (fc_chunks f) of
                 None \<Rightarrow> None
               | Some (k, c) \<Rightarrow>
                   (let part1 = c\<lparr>ft_size := off - ft_offset c\<rparr> in
                    Some (c\<lparr>ft_offset := off, ft_size := ft_size c - ft_size part1\<rparr>,
                      f\<lparr>fc_chunks := map_put (ft_offset part1) part1 (fc_chunks f),
                        fc_refs := map_put (ft_ref_cnt c) (map_get 0 (ft_ref_cnt c) (fc_refs f) + 1) (fc_refs f)\<rparr>)))) of
         None \<Rightarrow> f
       | Some (c, f1) \<Rightarrow> (finish c f1)\<lparr>fc_last_recv_time_t := now\<rparr>)"
    by (simp add: locked_notifyReceived_def finish_def Let_def split: option.split)
  show ?thesis
  proof (cases "map_of (fc_chunks f) off")
    case (Some c)
    have "(off, c) \<in> set (fc_chunks f)" by (rule map_of_SomeD [OF Some])
    then have "ft_peer_id c \<noteq> p" using assms by (force simp: shut_out_def)
    moreover have "shut_out p (f\<lparr>fc_chunks := map_erase off (fc_chunks f)\<rparr>)"
      by (rule shut_out_less [OF assms]) (auto simp: map_erase_def)
    ultimately show ?thesis unfolding n using Some fin by simp
  next
    case None
    show ?thesis
    proof (cases "find (contains_packet off sz) (fc_chunks f)")
      case None
      then show ?thesis unfolding n using \<open>map_of (fc_chunks f) off = None\<close> assms by simp
    next
      case (Some e)
      obtain k c where e: "e = (k, c)" by (cases e)
      have "(k, c) \<in> set (fc_chunks f)" using Some e by (auto simp: find_Some_iff)
      then have c: "ft_peer_id c \<noteq> p" using assms by (force simp: shut_out_def)
      let ?part = "c\<lparr>ft_size := off - ft_offset c\<rparr>"
      have "shut_out p (f\<lparr>fc_chunks := map_put (ft_offset ?part) ?part (fc_chunks f),
          fc_refs := map_put (ft_ref_cnt c) (map_get 0 (ft_ref_cnt c) (fc_refs f) + 1) (fc_refs f)\<rparr>)"
        by (rule shut_out_put [OF assms, of ?part]) (simp_all add: c)
      then show ?thesis unfolding n using Some e None fin c by simp
    qed
  qed
qed


lemma shut_out_asked:
  assumes c: "creator_inv orig f" and s: "shut_out p f" and g: "getMissingChunk slow now rnd q hint f = (r, needed, f')"
  shows "shut_out p f'"
proof -
  obtain old m1 where ff: "find_faulting now q (fc_chunks f) (fc_map f) = (old, m1)"
    by (cases "find_faulting now q (fc_chunks f) (fc_map f)")
  show ?thesis
  proof (cases old)
    case (Some e)
    then have e: "e \<in> set (fc_chunks f)" using find_faulting_frame [OF ff] by blast
    have "f' = f\<lparr>fc_map := m1, fc_chunks := map_put (fst e) ((snd e)\<lparr>ft_ts := now\<rparr>) (fc_chunks f)\<rparr>"
      using g Some ff by (auto simp: getMissingChunk_def split: prod.splits)
    then show ?thesis using e s by (intro shut_out_put [OF s, of "(snd e)\<lparr>ft_ts := now\<rparr>" _ "fst e"]) (auto simp: shut_out_def)
  next
    case None
    define cnt where "cnt = map_get 0 q (fc_chunks_per_peer f)"
    define f1 where "f1 = f\<lparr>fc_map := m1, fc_chunks_per_peer := map_put q cnt (fc_chunks_per_peer f)\<rparr>"
    have f1: "shut_out p f1" by (rule shut_out_less [OF s]) (simp_all add: f1_def map_get_put cnt_def)
    have r: "(if cnt \<ge> MAX_FTCHUNKS_PER_PEER then (None, False, f1)
        else (case getDataChunk slow now rnd q hint False m1 of
            (None, needed, m2) \<Rightarrow>
              (let (again, m3) = reAskPendingChunk now q m2 in (again, needed, f1\<lparr>fc_map := m3\<rparr>))
          | (Some c, needed, m2) \<Rightarrow>
              (let r = fresh_ref (fc_refs f1) in
               (Some (ft_offset c, ucast (ft_size c)), needed,
                f1\<lparr>fc_map := m2, fc_refs := map_put r 1 (fc_refs f1),
                   fc_chunks := map_put (ft_offset c) (ftChunk.extend c \<lparr>ft_ref_cnt = r\<rparr>) (fc_chunks f1),
                   fc_chunks_per_peer := map_put q (cnt + 1) (fc_chunks_per_peer f1)\<rparr>)))) = (r, needed, f')"
      using g unfolding getMissingChunk_def ff Let_def prod.case None option.case cnt_def [symmetric] f1_def [symmetric] .
    show ?thesis
    proof (cases "cnt \<ge> MAX_FTCHUNKS_PER_PEER")
      case True
      then show ?thesis using r f1 by simp
    next
      case False
      then have qp: "q \<noteq> p" using s by (auto simp: shut_out_def cnt_def)
      obtain sl nd m2 where gd: "getDataChunk slow now rnd q hint False m1 = (sl, nd, m2)"
        by (cases "getDataChunk slow now rnd q hint False m1")
      show ?thesis
      proof (cases sl)
        case None
        then have "\<exists>m3. f' = f1\<lparr>fc_map := m3\<rparr>" using r False gd by (auto simp: Let_def split: prod.splits)
        then show ?thesis using f1 by (auto simp: shut_out_def)
      next
        case (Some sc)
        obtain x where x: "m1 = (fc_map f)\<lparr>cm_peers_chunks_availability := x\<rparr>" using find_faulting_frame [OF ff] by blast
        have "chunkmap_inv m1" using creator_invD(1) [OF c] by (simp add: x)
        then have "ft_peer_id sc = q" using getDataChunk_inv [OF _ gd] Some by (simp add: asked_slice_def)
        define d where "d = ftChunk.extend sc \<lparr>ft_ref_cnt = fresh_ref (fc_refs f1)\<rparr>"
        have d: "ft_peer_id d = q" using \<open>ft_peer_id sc = q\<close> by (simp add: d_def ftChunk.defs)
        define f2 where "f2 = f1\<lparr>fc_chunks_per_peer := map_put q (cnt + 1) (fc_chunks_per_peer f1)\<rparr>"
        have f2: "shut_out p f2" by (rule shut_out_less [OF f1]) (use qp in \<open>simp_all add: f2_def map_get_put\<close>)
        have f': "fc_chunks f' = map_put (ft_offset sc) d (fc_chunks f2)" "fc_chunks_per_peer f' = fc_chunks_per_peer f2"
          using r False gd Some by (auto simp: Let_def d_def f2_def)
        show ?thesis using d qp f' by (intro shut_out_put [OF f2, of d]) simp_all
      qed
    qed
  qed
qed

lemma shut_out_expired:
  assumes c: "creator_inv orig f" and s: "shut_out p f"
  shows "shut_out p (creator_removeInactiveChunks now f)"
proof -
  obtain ids m where m: "removeInactiveChunks now (fc_map f) = (ids, m)" by (cases "removeInactiveChunks now (fc_map f)")
  have wf: "map_wf (fc_chunks (f\<lparr>fc_map := m\<rparr>))" using table_okD(1) [OF creator_invD(5) [OF c]] by simp
  have none: "filter (\<lambda>(k, c). ft_id c \<in> set ids \<and> ft_peer_id c = p) (fc_chunks f) = []"
    using s by (auto simp: shut_out_def filter_empty_conv)
  show ?thesis
    using remove_slices [OF wf, of ids p] s none
    by (auto simp: creator_removeInactiveChunks_def m shut_out_def)
qed

lemma shut_out_step:
  assumes c: "creator_inv orig f" and s: "shut_out p f" and step: "creator_step orig f e f'"
  shows "shut_out p f'"
  using step
proof (cases rule: creator_step.cases)
  case (packet off sz data a disc now ok)
  obtain o1 f1 where o1: "locked_initializeFileAttrs a f = (o1, f1)" by (cases "locked_initializeFileAttrs a f")
  have s1: "shut_out p f1" using s o1 by (auto simp: locked_initializeFileAttrs_def shut_out_def split: if_splits)
  have w: "shut_out p (f1\<lparr>fp_file := x\<rparr>)" for x using s1 by (simp add: shut_out_def)
  have cl: "shut_out p g \<Longrightarrow> shut_out p (closeFile g)" for g by (simp add: closeFile_def shut_out_def)
  show ?thesis
    using packet(5) s s1 w shut_out_received [OF w] cl
    by (auto simp: addFileData_def o1 Let_def split: if_splits option.splits)
next
  case (ask hint slow now rnd q r needed)
  then show ?thesis using shut_out_asked [OF c s] by blast
next
  case (expire now)
  then show ?thesis using shut_out_expired [OF c s] by simp
next
  case (serve a now q off sz data unverified r sz' data')
  then show ?thesis using s
    by (auto simp: creator_getFileData_def provider_getFileData_def initializeFileAttrs_def shut_out_def Let_def
      split: option.splits bool.splits if_splits prod.splits)
next
  case (verify n a h s' ok)
  then show ?thesis using s
    by (auto simp: verifyChunk_def locked_initializeFileAttrs_def shut_out_def Let_def split: if_splits)
qed (use s in \<open>auto simp: creator_getChunksToCheck_def setSourceMap_def creator_removeFileSource_def setClientMap_def
    getClientMap_def purgeOldPeers_def setChunkStrategy_def closeFile_def shut_out_def sourceIsComplete_def Let_def
    split: prod.splits if_splits\<close>)


text \<open>C38. A peer of which a slice was split, by a packet in its middle, is lost when its slices are given up: if
  the table has more parts of them than the count has slices, the count wraps below zero, above the limit
  of slices in flight, and no later call of the download, packets of others included, brings it down again.
  From then on \<^verbatim>\<open>getMissingChunk\<close> never gives the peer a slice of its own: at most it hands out an old part of
  another peer's slice. The hypotheses hold in states that honest packets lead to.\<close>

theorem given_up_split_slice_blocks_peer:
  assumes "reach (creator_new orig) (creator_step orig) f"
    and "\<forall>e \<in> set (fc_chunks f). ft_peer_id (snd e) = p \<longrightarrow> ft_id (snd e) \<in> set (fst (removeInactiveChunks now (fc_map f)))"
    and "n = length (filter (\<lambda>e. ft_peer_id (snd e) = p) (fc_chunks f))" "n < 2 ^ 31"
    and "unat (map_get 0 p (fc_chunks_per_peer f)) < n"
    and "reach (\<lambda>s. s = creator_removeInactiveChunks now f) (creator_step orig) g"
  shows "map_get 0 p (fc_chunks_per_peer (creator_removeInactiveChunks now f)) = map_get 0 p (fc_chunks_per_peer f) - of_nat n \<and>
    fst (getMissingChunk slow later rnd p hint g) =
      map_option (\<lambda>e. (ft_offset (snd e), ucast (ft_size (snd e)))) (fst (find_faulting later p (fc_chunks g) (fc_map g))) \<and>
    (\<nexists>e. fst (find_faulting later p (fc_chunks g) (fc_map g)) = Some e \<and> ft_peer_id (snd e) = p)"
proof -
  have c: "creator_inv orig f" by (rule creator.reach_inv [OF assms(1)])
  obtain ids m where m: "removeInactiveChunks now (fc_map f) = (ids, m)" by (cases "removeInactiveChunks now (fc_map f)")
  let ?f = "creator_removeInactiveChunks now f" and ?cnt = "map_get 0 p (fc_chunks_per_peer f)"
  have wf: "map_wf (fc_chunks (f\<lparr>fc_map := m\<rparr>))" using table_okD(1) [OF creator_invD(5) [OF c]] by simp
  have "filter (\<lambda>(k, c). ft_id c \<in> set ids \<and> ft_peer_id c = p) (fc_chunks f) = filter (\<lambda>e. ft_peer_id (snd e) = p) (fc_chunks f)"
    using assms(2) by (intro filter_cong) (auto simp: m)
  then have cnt: "map_get 0 p (fc_chunks_per_peer ?f) = ?cnt - of_nat n"
    and left: "fc_chunks ?f = filter (\<lambda>(k, c). ft_id c \<notin> set ids) (fc_chunks f)"
    using remove_slices [OF wf, of ids p] by (simp_all add: creator_removeInactiveChunks_def m assms(3))
  have u: "unat (of_nat n :: u32) = n" using assms(4) by (simp add: unat_of_nat)
  have "unat (?cnt - of_nat n) = unat ?cnt + 2 ^ 32 - n"
    using assms(4,5) u unat_sub_if' [of ?cnt "of_nat n"] by simp
  then have "MAX_FTCHUNKS_PER_PEER \<le> ?cnt - of_nat n" using assms(4) by (simp add: word_le_nat_alt)
  then have start: "shut_out p ?f" unfolding shut_out_def cnt left using assms(2) by (auto simp: m)
  have start_inv: "creator_inv orig ?f" by (rule creator_removeInactiveChunks_inv [OF c])
  have "creator_inv orig g \<and> shut_out p g"
    using assms(6) by induction (use start start_inv creator_step_inv shut_out_step in blast)+
  then have g: "MAX_FTCHUNKS_PER_PEER \<le> map_get 0 p (fc_chunks_per_peer g)" "\<And>e. e \<in> set (fc_chunks g) \<Longrightarrow> ft_peer_id (snd e) \<noteq> p"
    by (simp_all add: shut_out_def)
  obtain old m1 where ff: "find_faulting later p (fc_chunks g) (fc_map g) = (old, m1)"
    by (cases "find_faulting later p (fc_chunks g) (fc_map g)")
  then have "fst (getMissingChunk slow later rnd p hint g) = map_option (\<lambda>e. (ft_offset (snd e), ucast (ft_size (snd e)))) old"
    using g(1) by (cases old) (auto simp: getMissingChunk_def Let_def split: prod.splits)
  moreover have "\<nexists>e. old = Some e \<and> ft_peer_id (snd e) = p"
    using conjunct2 [OF find_faulting_frame [OF ff]] g(2) by blast
  ultimately show ?thesis using cnt ff by simp
qed

text \<open>A slice of three bytes, of which the one in the middle has come, is given up.\<close>

lemma given_up_split_slice_blocks_peer_witness:
  "map_get 0 [1] (fc_chunks_per_peer (creator_removeInactiveChunks 5000 (sample_received 1 1 [8]))) = - 1 \<and>
   fst (getMissingChunk (\<lambda>_ _. False) 6000 0 [1] 3 (creator_removeInactiveChunks 5000 (sample_received 1 1 [8]))) = None"
proof -
  let ?f = "sample_received 1 1 [8]" and ?g = "creator_removeInactiveChunks 5000 (sample_received 1 1 [8])"
  have r: "reach (creator_new [7, 8, 9]) (creator_step [7, 8, 9]) ?f" by (rule sample_received_reach) code_simp+
  have t: "list_all (\<lambda>e. ft_id (snd e) \<in> set (fst (removeInactiveChunks 5000 (fc_map ?f)))) (fc_chunks ?f)"
    "length (filter (\<lambda>e. ft_peer_id (snd e) = [1]) (fc_chunks ?f)) = 2" "map_get 0 [1] (fc_chunks_per_peer ?f) = 1"
    "fst (find_faulting 6000 [1] (fc_chunks ?g) (fc_map ?g)) = None"
    by code_simp+
  have a: "\<forall>e \<in> set (fc_chunks ?f). ft_peer_id (snd e) = [1] \<longrightarrow> ft_id (snd e) \<in> set (fst (removeInactiveChunks 5000 (fc_map ?f)))"
    using t(1) by (simp add: list_all_iff)
  have g: "reach (\<lambda>s. s = ?g) (creator_step [7, 8, 9]) ?g" by (rule reach_init) simp
  show ?thesis
    using given_up_split_slice_blocks_peer [OF r a refl _ _ g, of "\<lambda>_ _. False" 6000 0 3] t(2-4) by simp
qed

end
