(* ===== verification/Rs_Memory.thy ===== *)
theory Rs_Memory
  imports RS_Prelude
begin

text \<open>
  The ways in which a call can fail to return, and \<^verbatim>\<open>util/rsmemory.h\<close>: an allocation of zero bytes or of more than
  a gigabyte ends the process; smaller ones are taken to succeed. The other three are accesses for which
  C++ defines no behaviour: beyond the end of a block or vector, through a pointer that has been freed, and
  through a null pointer.
\<close>

datatype fault = Process_exit | Out_of_block | Use_after_free | Null_pointer

definition rs_malloc :: "nat \<Rightarrow> fault + unit" where
  "rs_malloc n = (if n = 0 \<or> n > 1024 * 1024 * 1024 then Inl Process_exit else Inr ())"

lemma rs_malloc_zero [simp]: "rs_malloc 0 = Inl Process_exit"
  by (simp add: rs_malloc_def)

text \<open>A loop that makes one value after the other and does not return from the first fault.\<close>

fun all_made :: "(fault + 'a) list \<Rightarrow> fault + 'a list" where
  "all_made [] = Inr []"
| "all_made (Inl e # xs) = Inl e"
| "all_made (Inr x # xs) = (case all_made xs of Inl e \<Rightarrow> Inl e | Inr ys \<Rightarrow> Inr (x # ys))"

lemma all_made_map [simp]: "all_made (map Inr ys) = Inr ys"
  by (induction ys) simp_all

lemma all_made_InrD: "all_made xs = Inr ys \<Longrightarrow> xs = map Inr ys"
  by (induction xs arbitrary: ys rule: all_made.induct) (auto split: sum.splits)

lemma rs_malloc_ok: "0 < n \<Longrightarrow> n \<le> 1073741824 \<Longrightarrow> rs_malloc n = Inr ()"
  by (simp add: rs_malloc_def)

end
