(* ===== verification/Qos_Queue.thy ===== *)
theory Qos_Queue
  imports Rs_Memory
begin

text \<open>
  \<^verbatim>\<open>pqi/pqiqos.cc\<close> and \<^verbatim>\<open>pqi/pqiqosstreamer.cc\<close>: the queue of the packets that wait to be sent to a peer. It
  has one list for each priority level; a packet larger than what may be sent at once leaves it in
  slices. Which level is served is decided by floating-point counters: their arithmetic is an argument
  of the definitions, and what is proved holds for any.
\<close>

record 'f float_ops =
  f_zero :: 'f
  f_one :: 'f
  f_mul :: "'f \<Rightarrow> 'f \<Rightarrow> 'f"
  f_add :: "'f \<Rightarrow> 'f \<Rightarrow> 'f"
  f_sub :: "'f \<Rightarrow> 'f \<Rightarrow> 'f"
  f_ge :: "'f \<Rightarrow> 'f \<Rightarrow> bool"

subsection \<open>Queues\<close>

record ItemRecord =
  ir_data :: bytes
  ir_current_offset :: u32
  ir_size :: u32
  ir_id :: u32

record 'f ItemQueue =
  iq_threshold :: 'f
  iq_counter :: 'f
  iq_inc :: 'f
  iq_items :: "ItemRecord list"

text \<open>What a call hands out through its result, the pointer \<open>so_data\<close>, and its reference arguments.\<close>

record slice_out =
  so_data :: "bytes option"
  so_size :: u32
  so_starts :: bool
  so_ends :: bool
  so_id :: u32

definition queue_pop :: "'f ItemQueue \<Rightarrow> bytes option \<times> 'f ItemQueue" where
  "queue_pop q = (case iq_items q of [] \<Rightarrow> (None, q) | r # rs \<Rightarrow> (Some (ir_data r), q\<lparr>iq_items := rs\<rparr>))"

definition queue_push :: "bytes \<Rightarrow> u32 \<Rightarrow> u32 \<Rightarrow> 'f ItemQueue \<Rightarrow> 'f ItemQueue" where
  "queue_push item sz pid q =
     q\<lparr>iq_items := iq_items q @ [\<lparr>ir_data = item, ir_current_offset = 0, ir_size = sz, ir_id = pid\<rparr>]\<rparr>"

definition queue_slice :: "u32 \<Rightarrow> slice_out \<Rightarrow> 'f ItemQueue \<Rightarrow> fault + slice_out \<times> 'f ItemQueue" where
  "queue_slice max_size out q =
     (case iq_items q of
        [] \<Rightarrow> Inr (out\<lparr>so_data := None\<rparr>, q)
      | r # rs \<Rightarrow>
          (let out1 = out\<lparr>so_id := ir_id r\<rparr> in
           if ir_current_offset r = 0 \<and> ir_size r < max_size then
             Inr (out1\<lparr>so_starts := True, so_ends := True, so_size := ir_size r, so_data := Some (ir_data r)\<rparr>,
                  q\<lparr>iq_items := rs\<rparr>)
           else
             (let starts = (ir_current_offset r = 0);
                  ends = (ir_current_offset r + max_size \<ge> ir_size r);
                  out2 = out1\<lparr>so_starts := starts, so_ends := ends\<rparr>
              in if ir_size r \<le> ir_current_offset r then Inr (out2\<lparr>so_data := None\<rparr>, q\<lparr>iq_items := rs\<rparr>)
                 else
                   (let sz = min max_size (ir_size r - ir_current_offset r);
                        off = unat (ir_current_offset r)
                    in case rs_malloc (unat sz) of
                         Inl e \<Rightarrow> Inl e
                       | Inr _ \<Rightarrow>
                           (if off + unat sz > length (ir_data r) then Inl Out_of_block
                            else Inr (out2\<lparr>so_size := sz, so_data := Some (take (unat sz) (drop off (ir_data r)))\<rparr>,
                              q\<lparr>iq_items := (if ends then rs
                                 else r\<lparr>ir_current_offset := ir_current_offset r + sz\<rparr> # rs)\<rparr>))))))"

subsection \<open>The levels\<close>

record 'f pqiQoS =
  qos_item_queues :: "'f ItemQueue list"
  qos_alpha :: 'f
  qos_nb_items :: u64
  qos_id_counter :: u32

definition MAX_PACKET_COUNTER_VALUE :: u32 where
  "MAX_PACKET_COUNTER_VALUE = push_bit 24 1"

text \<open>The levels from the highest down: the threshold grows by \<open>alpha\<close> with each level.\<close>

fun qos_levels :: "'f float_ops \<Rightarrow> 'f \<Rightarrow> 'f \<Rightarrow> nat \<Rightarrow> 'f ItemQueue list" where
  "qos_levels F alpha c 0 = []"
| "qos_levels F alpha c (Suc k) =
     \<lparr>iq_threshold = c, iq_counter = f_zero F, iq_inc = alpha, iq_items = []\<rparr> # qos_levels F alpha (f_mul F c alpha) k"

definition make_pqiQoS :: "'f float_ops \<Rightarrow> nat \<Rightarrow> 'f \<Rightarrow> 'f pqiQoS" where
  "make_pqiQoS F nb_levels alpha =
     \<lparr>qos_item_queues = rev (qos_levels F alpha (f_one F) nb_levels), qos_alpha = alpha, qos_nb_items = 0,
      qos_id_counter = 0\<rparr>"

definition qos_clear :: "('f, 'a) pqiQoS_scheme \<Rightarrow> ('f, 'a) pqiQoS_scheme" where
  "qos_clear s = s\<lparr>qos_item_queues := map (\<lambda>q. q\<lparr>iq_items := []\<rparr>) (qos_item_queues s), qos_nb_items := 0\<rparr>"

definition in_rsItem :: "bytes \<Rightarrow> u32 \<Rightarrow> u32 \<Rightarrow> ('f, 'a) pqiQoS_scheme \<Rightarrow> fault + ('f, 'a) pqiQoS_scheme" where
  "in_rsItem item sz priority s =
     (let n = length (qos_item_queues s);
          level = (if unat priority \<ge> n then n - 1 else unat priority);
          pid = qos_id_counter s
      in if n = 0 then Inl Out_of_block
         else Inr (s\<lparr>qos_item_queues := (qos_item_queues s)[level := queue_push item sz pid (qos_item_queues s ! level)],
                qos_nb_items := qos_nb_items s + 1,
                qos_id_counter := (if pid + 1 \<ge> MAX_PACKET_COUNTER_VALUE then 0 else pid + 1)\<rparr>))"

text \<open>The highest level that is not empty, or the lowest, and the increment of the counters.\<close>

fun qos_top :: "'f ItemQueue list \<Rightarrow> nat \<Rightarrow> 'f \<Rightarrow> nat \<times> 'f" where
  "qos_top qs 0 inc = (0, inc)"
| "qos_top qs (Suc i) inc =
     (if iq_items (qs ! Suc i) = [] then qos_top qs i (iq_inc (qs ! i)) else (Suc i, inc))"

text \<open>The loop over the levels below \<open>j\<close>: the last one that is due is served.\<close>

fun qos_scan :: "'f float_ops \<Rightarrow> 'f \<Rightarrow> nat \<Rightarrow> nat \<Rightarrow> 'f ItemQueue list \<Rightarrow> nat \<times> 'f ItemQueue list" where
  "qos_scan F inc 0 served qs = (served, qs)"
| "qos_scan F inc (Suc j) served qs =
     (let q = qs ! j in
      if iq_items q = [] then qos_scan F inc j served qs
      else (let c = f_add F (iq_counter q) inc in
            if f_ge F c (iq_threshold q)
            then qos_scan F inc j j (qs[j := q\<lparr>iq_counter := f_sub F c (iq_threshold q)\<rparr>])
            else qos_scan F inc j served (qs[j := q\<lparr>iq_counter := c\<rparr>])))"

definition out_rsItem :: "'f float_ops \<Rightarrow> u32 \<Rightarrow> slice_out \<Rightarrow> ('f, 'a) pqiQoS_scheme \<Rightarrow>
    fault + slice_out \<times> ('f, 'a) pqiQoS_scheme" where
  "out_rsItem F max_slice_size out s =
     (let qs = qos_item_queues s in
      if qos_nb_items s = 0 \<or> qs = [] then Inr (out\<lparr>so_data := None\<rparr>, s)
      else (let (i, inc) = qos_top qs (length qs - 1) (f_one F);
                (served, qs1) = qos_scan F inc (Suc i) i qs
            in case queue_slice max_slice_size out (qs1 ! served) of
                 Inl e \<Rightarrow> Inl e
               | Inr (out', q) \<Rightarrow>
                   Inr (out', s\<lparr>qos_item_queues := qs1[served := q],
                     qos_nb_items := (if so_ends out' then qos_nb_items s - 1 else qos_nb_items s)\<rparr>)))"

subsection \<open>The streamer's totals\<close>

record 'f pqiQoSstreamer = "'f pqiQoS" +
  qs_total_item_size :: u32
  qs_total_item_count :: u32

definition PQI_QOS_STREAMER_MAX_LEVELS :: nat where
  "PQI_QOS_STREAMER_MAX_LEVELS = 10"

definition make_pqiQoSstreamer :: "'f float_ops \<Rightarrow> 'f \<Rightarrow> 'f pqiQoSstreamer" where
  "make_pqiQoSstreamer F alpha = pqiQoS.extend (make_pqiQoS F PQI_QOS_STREAMER_MAX_LEVELS alpha)
     \<lparr>qs_total_item_size = 0, qs_total_item_count = 0\<rparr>"

definition qos_queue_size :: "('f, 'a) pqiQoS_scheme \<Rightarrow> u64" where
  "qos_queue_size s = qos_nb_items s"

definition locked_storeInOutputQueue :: "bytes \<Rightarrow> u32 \<Rightarrow> u32 \<Rightarrow> ('f, 'a) pqiQoSstreamer_scheme \<Rightarrow>
    fault + ('f, 'a) pqiQoSstreamer_scheme" where
  "locked_storeInOutputQueue item sz priority s =
     in_rsItem item sz priority
       (s\<lparr>qs_total_item_size := qs_total_item_size s + sz, qs_total_item_count := qs_total_item_count s + 1\<rparr>)"

definition locked_clear_out_queue :: "('f, 'a) pqiQoSstreamer_scheme \<Rightarrow> ('f, 'a) pqiQoSstreamer_scheme" where
  "locked_clear_out_queue s = (qos_clear s)\<lparr>qs_total_item_size := 0, qs_total_item_count := 0\<rparr>"

definition locked_pop_out_data :: "'f float_ops \<Rightarrow> u32 \<Rightarrow> slice_out \<Rightarrow> ('f, 'a) pqiQoSstreamer_scheme \<Rightarrow>
    fault + slice_out \<times> ('f, 'a) pqiQoSstreamer_scheme" where
  "locked_pop_out_data F max_slice_size out s =
     (case out_rsItem F max_slice_size out s of
        Inl e \<Rightarrow> Inl e
      | Inr (out', s') \<Rightarrow>
          Inr (out', if so_data out' = None then s'
            else s'\<lparr>qs_total_item_size := qs_total_item_size s' - so_size out',
                   qs_total_item_count := (if so_ends out' then qs_total_item_count s' - 1 else qs_total_item_count s')\<rparr>))"

end
