(* ===== verification/Qos_Inv.thy ===== *)
theory Qos_Inv
  imports Qos_Queue
begin

text \<open>
  What the queue of waiting packets keeps: records whose read position is inside their data, whose
  tails have not been touched, and counts that agree with the lists. The effect of one call of
  \<^verbatim>\<open>out_rsItem\<close> is stated on the lists of the levels alone, for any arithmetic of the counters.
\<close>

subsection \<open>The invariant\<close>

definition record_ok :: "ItemRecord \<Rightarrow> bool" where
  "record_ok r = (unat (ir_size r) = length (ir_data r) \<and> length (ir_data r) < 2 ^ 31 \<and>
     (ir_current_offset r = 0 \<or> unat (ir_current_offset r) < length (ir_data r)))"

definition level_ok :: "ItemRecord list \<Rightarrow> bool" where
  "level_ok rs = (list_all record_ok rs \<and> list_all (\<lambda>r. ir_current_offset r = 0) (tl rs))"

definition levels :: "('f, 'a) pqiQoS_scheme \<Rightarrow> ItemRecord list list" where
  "levels s = map iq_items (qos_item_queues s)"

definition waiting :: "ItemRecord list list \<Rightarrow> nat" where
  "waiting ls = sum_list (map length ls)"

definition qos_inv :: "('f, 'a) pqiQoS_scheme \<Rightarrow> bool" where
  "qos_inv s = (levels s \<noteq> [] \<and> list_all level_ok (levels s) \<and> unat (qos_nb_items s) = waiting (levels s))"

lemma length_levels [simp]: "length (levels s) = length (qos_item_queues s)"
  by (simp add: levels_def)

lemma levels_nth: "k < length (qos_item_queues s) \<Longrightarrow> levels s ! k = iq_items (qos_item_queues s ! k)"
  by (simp add: levels_def)

lemma levels_update: "map iq_items (qs[k := q]) = (map iq_items qs)[k := iq_items q]"
  by (simp add: map_update)

lemma qos_inv_level: "qos_inv s \<Longrightarrow> k < length (levels s) \<Longrightarrow> level_ok (levels s ! k)"
  by (simp add: qos_inv_def list_all_length)

lemma sum_list_replace:
  "k < length xs \<Longrightarrow> sum_list (xs[k := v]) + xs ! k = sum_list xs + (v :: nat)"
proof (induction xs arbitrary: k)
  case (Cons x xs)
  show ?case
  proof (cases k)
    case (Suc j)
    then show ?thesis using Cons.IH [of j] Cons.prems by simp
  qed simp
qed simp

lemma waiting_replace:
  "k < length ls \<Longrightarrow> waiting (ls[k := rs]) + length (ls ! k) = waiting ls + length rs"
  using sum_list_replace [of k "map length ls" "length rs"] by (simp add: waiting_def map_update)

lemma waiting_pos: "waiting ls \<noteq> 0 \<longleftrightarrow> (\<exists>k < length ls. ls ! k \<noteq> [])"
  unfolding waiting_def by (auto simp: in_set_conv_nth) (metis nth_mem)

subsection \<open>Which level is served\<close>

lemma qos_top_highest:
  "qos_top qs i inc = (i', inc') \<Longrightarrow>
     i' \<le> i \<and> (i' \<noteq> 0 \<longrightarrow> iq_items (qs ! i') \<noteq> []) \<and> (\<forall>k. i' < k \<and> k \<le> i \<longrightarrow> iq_items (qs ! k) = [])"
proof (induction qs i inc rule: qos_top.induct)
  case (2 qs i inc)
  show ?case
  proof (cases "iq_items (qs ! Suc i) = []")
    case True
    then have "qos_top qs i (iq_inc (qs ! i)) = (i', inc')" using 2(2) by simp
    from 2(1) [OF True this] show ?thesis using True by (auto simp: le_Suc_eq)
  qed (use 2(2) in auto)
qed auto

lemma qos_scan_serves:
  "qos_scan F inc n served qs = (served', qs') \<Longrightarrow> n \<le> length qs \<Longrightarrow>
     map iq_items qs' = map iq_items qs \<and> (served' = served \<or> served' < n \<and> iq_items (qs ! served') \<noteq> [])"
proof (induction F inc n served qs rule: qos_scan.induct)
  case (2 F inc j served qs)
  let ?q = "qs ! j"
  let ?c = "f_add F (iq_counter ?q) inc"
  have same: "map iq_items (qs[j := ?q\<lparr>iq_counter := c\<rparr>]) = map iq_items qs" for c
    using 2(5) by (simp add: map_update list_update_same_conv)
  have at: "iq_items (qs[j := ?q\<lparr>iq_counter := c\<rparr>] ! k) = iq_items (qs ! k)" if "k < length qs" for c k
    using that by (cases "k = j") simp_all
  show ?case
  proof (cases "iq_items ?q = []")
    case True
    then have "qos_scan F inc j served qs = (served', qs')" using 2(4) by simp
    from 2(1) [OF refl True this] show ?thesis using 2(5) by auto
  next
    case ne: False
    show ?thesis
    proof (cases "f_ge F ?c (iq_threshold ?q)")
      case True
      then have "qos_scan F inc j j (qs[j := ?q\<lparr>iq_counter := f_sub F ?c (iq_threshold ?q)\<rparr>]) = (served', qs')"
        using 2(4) ne by (simp add: Let_def)
      from 2(2) [OF refl ne refl True this] show ?thesis using 2(5) ne at same by auto
    next
      case False
      then have "qos_scan F inc j served (qs[j := ?q\<lparr>iq_counter := ?c\<rparr>]) = (served', qs')"
        using 2(4) ne by (simp add: Let_def)
      from 2(3) [OF refl ne refl False this] show ?thesis using 2(5) at same by auto
    qed
  qed
qed simp

subsection \<open>One slice\<close>

text \<open>The bytes of the next slice of a record, and what is left of its level.\<close>

definition next_slice :: "u32 \<Rightarrow> ItemRecord \<Rightarrow> bytes" where
  "next_slice ms r = take (unat ms) (drop (unat (ir_current_offset r)) (ir_data r))"

definition slice_ends :: "u32 \<Rightarrow> ItemRecord \<Rightarrow> bool" where
  "slice_ends ms r = (length (ir_data r) \<le> unat (ir_current_offset r) + unat ms)"

definition after_slice :: "u32 \<Rightarrow> ItemRecord list \<Rightarrow> ItemRecord list" where
  "after_slice ms rs = (if slice_ends ms (hd rs) then tl rs
     else (hd rs)\<lparr>ir_current_offset := ir_current_offset (hd rs) + ms\<rparr> # tl rs)"

definition is_slice :: "u32 \<Rightarrow> ItemRecord \<Rightarrow> slice_out \<Rightarrow> bool" where
  "is_slice ms r out = (so_data out = Some (next_slice ms r) \<and> unat (so_size out) = length (next_slice ms r) \<and>
     so_starts out = (ir_current_offset r = 0) \<and> so_ends out = slice_ends ms r \<and> so_id out = ir_id r)"

definition slice_limit :: "u32 \<Rightarrow> bool" where
  "slice_limit ms = (0 < unat ms \<and> unat ms \<le> 1024 * 1024 * 1024)"

lemma queue_slice_effect:
  assumes q: "iq_items q = r # rs" and r: "record_ok r" and ms: "slice_limit ms"
  shows "\<exists>out'. queue_slice ms out q = Inr (out', q\<lparr>iq_items := after_slice ms (r # rs)\<rparr>) \<and> is_slice ms r out'"
proof -
  let ?o = "ir_current_offset r" and ?d = "ir_data r"
  have sz: "unat (ir_size r) = length ?d" "length ?d < 2 ^ 31" and off: "?o = 0 \<or> unat ?o < length ?d"
    using r by (auto simp: record_ok_def)
  have lim: "0 < unat ms" "unat ms \<le> 1073741824" using ms by (simp_all add: slice_limit_def)
  have sum: "unat (?o + ms) = unat ?o + unat ms" using sz off lim by (intro unat_add_u32_id) auto
  have ends: "?o + ms \<ge> ir_size r \<longleftrightarrow> slice_ends ms r"
    by (simp add: word_le_nat_alt sum sz slice_ends_def)
  show ?thesis
  proof (cases "?o = 0 \<and> ir_size r < ms")
    case True
    then have "length ?d < unat ms" using sz by (simp add: word_less_nat_alt)
    then show ?thesis
      using True q sz by (simp add: queue_slice_def is_slice_def next_slice_def slice_ends_def after_slice_def)
  next
    case False
    then have lt: "unat ?o < length ?d"
      using off lim sz by (auto simp: word_less_nat_alt)
    then have nle: "\<not> ir_size r \<le> ?o" using sz by (simp add: word_le_nat_alt)
    define n where "n = min ms (ir_size r - ?o)"
    have left: "unat (ir_size r - ?o) = length ?d - unat ?o" using nle sz by (simp add: unat_sub)
    have n: "unat n = min (unat ms) (length ?d - unat ?o)"
      using left by (auto simp: n_def min_def word_le_nat_alt)
    have "rs_malloc (unat n) = Inr ()" using n lim lt by (auto simp: rs_malloc_def)
    moreover have "take (unat n) (drop (unat ?o) ?d) = next_slice ms r" by (simp add: n next_slice_def min_def)
    moreover have "length (next_slice ms r) = unat n" by (simp add: n next_slice_def)
    moreover have "unat ?o + unat n \<le> length ?d" using n lt by simp
    moreover have "n = ms" if "\<not> slice_ends ms r" using that n by (simp add: slice_ends_def word_unat_eq_iff)
    ultimately show ?thesis
      using q False nle ends
      by (auto simp: queue_slice_def is_slice_def after_slice_def Let_def n_def [symmetric])
  qed
qed

lemma after_slice_ok:
  assumes "level_ok rs" "rs \<noteq> []" "slice_limit ms"
  shows "level_ok (after_slice ms rs)"
proof -
  obtain r rs' where rs: "rs = r # rs'" using assms(2) by (cases rs) auto
  have r: "record_ok r" "list_all record_ok rs'" "list_all (\<lambda>r. ir_current_offset r = 0) rs'"
    using assms(1) by (simp_all add: level_ok_def rs)
  show ?thesis
  proof (cases "slice_ends ms r")
    case True
    have "list_all (\<lambda>r. ir_current_offset r = 0) (tl rs')" using r(3) by (cases rs') simp_all
    then show ?thesis using True r(2) by (simp add: after_slice_def rs level_ok_def)
  next
    case False
    have "unat (ir_current_offset r + ms) = unat (ir_current_offset r) + unat ms"
      using r(1) assms(3) by (intro unat_add_u32_id) (auto simp: record_ok_def slice_limit_def)
    then have "record_ok (r\<lparr>ir_current_offset := ir_current_offset r + ms\<rparr>)"
      using r(1) False by (auto simp: record_ok_def slice_ends_def)
    then show ?thesis using False r by (simp add: after_slice_def rs level_ok_def)
  qed
qed

text \<open>When something waits, \<^verbatim>\<open>out_rsItem\<close> takes the next slice of one level that is not empty.\<close>

lemma out_rsItem_effect:
  assumes i: "qos_inv s" and w: "waiting (levels s) \<noteq> 0" and ms: "slice_limit ms"
  obtains out' s' k where "out_rsItem F ms out s = Inr (out', s')" "k < length (levels s)" "levels s ! k \<noteq> []"
    "levels s' = (levels s)[k := after_slice ms (levels s ! k)]" "is_slice ms (hd (levels s ! k)) out'"
    "qos_nb_items s' = (if so_ends out' then qos_nb_items s - 1 else qos_nb_items s)"
    "qos_id_counter s' = qos_id_counter s" "pqiQoS.more s' = pqiQoS.more s"
proof -
  let ?qs = "qos_item_queues s"
  have ne: "?qs \<noteq> []" "qos_nb_items s \<noteq> 0" using i w by (auto simp: qos_inv_def levels_def unat_eq_0)
  obtain k0 where k0: "k0 < length ?qs" "levels s ! k0 \<noteq> []" using w unfolding waiting_pos by auto
  obtain t inc where t: "qos_top ?qs (length ?qs - 1) (f_one F) = (t, inc)"
    by (cases "qos_top ?qs (length ?qs - 1) (f_one F)")
  note T = qos_top_highest [OF t]
  have tl: "Suc t \<le> length ?qs" using T ne(1) by (cases ?qs) auto
  have top: "iq_items (?qs ! t) \<noteq> []"
  proof (cases "t = 0")
    case True
    have "k0 = 0"
    proof (rule ccontr)
      assume "k0 \<noteq> 0"
      then have "iq_items (?qs ! k0) = []" using T True k0(1) by simp
      then show False using k0 levels_nth [OF k0(1)] by simp
    qed
    then show ?thesis using k0 True levels_nth [OF k0(1)] by simp
  qed (use T in blast)
  obtain k qs1 where sc: "qos_scan F inc (Suc t) t ?qs = (k, qs1)" by (cases "qos_scan F inc (Suc t) t ?qs")
  from qos_scan_serves [OF sc tl] have same: "map iq_items qs1 = map iq_items ?qs"
    and kk: "k < length ?qs" "iq_items (?qs ! k) \<noteq> []" using top tl by auto
  have len: "length qs1 = length ?qs" using arg_cong [OF same, of length] by simp
  have at: "iq_items (qs1 ! k) = levels s ! k"
    using arg_cong [OF same, of "\<lambda>xs. xs ! k"] kk len by (simp add: levels_def)
  obtain r rs where r: "levels s ! k = r # rs" using kk by (cases "levels s ! k") (auto simp: levels_nth)
  have "level_ok (levels s ! k)" using i kk by (intro qos_inv_level) simp_all
  then have "record_ok r" by (simp add: r level_ok_def)
  from queue_slice_effect [OF at [unfolded r] this ms] obtain out' where
    sl: "queue_slice ms out (qs1 ! k) = Inr (out', (qs1 ! k)\<lparr>iq_items := after_slice ms (r # rs)\<rparr>)" "is_slice ms r out'" by blast
  define s' where "s' = s\<lparr>qos_item_queues := qs1[k := (qs1 ! k)\<lparr>iq_items := after_slice ms (r # rs)\<rparr>],
    qos_nb_items := (if so_ends out' then qos_nb_items s - 1 else qos_nb_items s)\<rparr>"
  show thesis
  proof (rule that)
    show "out_rsItem F ms out s = Inr (out', s')"
      unfolding out_rsItem_def Let_def t split_conv sc using ne sl(1) by (simp add: s'_def)
    show "levels s' = (levels s)[k := after_slice ms (levels s ! k)]"
      unfolding r by (simp add: s'_def levels_def map_update same)
  qed (use kk r sl(2) in \<open>simp_all add: s'_def levels_nth\<close>)
qed

lemma waiting_after:
  assumes "k < length ls" "ls ! k \<noteq> []"
  shows "waiting (ls[k := after_slice ms (ls ! k)]) + (if slice_ends ms (hd (ls ! k)) then 1 else 0) = waiting ls"
  using waiting_replace [OF assms(1), of "after_slice ms (ls ! k)"] assms(2)
  by (cases "ls ! k") (auto simp: after_slice_def)

lemma out_rsItem_inv:
  assumes "qos_inv s" "slice_limit ms" "out_rsItem F ms out s = Inr (out', s')"
  shows "qos_inv s'"
proof (cases "waiting (levels s) = 0")
  case True
  then have "qos_nb_items s = 0" using assms(1) by (simp add: qos_inv_def unat_eq_0)
  then show ?thesis using assms by (simp add: out_rsItem_def)
next
  case False
  obtain out1 s1 k where e: "out_rsItem F ms out s = Inr (out1, s1)" "k < length (levels s)" "levels s ! k \<noteq> []"
    "levels s1 = (levels s)[k := after_slice ms (levels s ! k)]" "is_slice ms (hd (levels s ! k)) out1"
    "qos_nb_items s1 = (if so_ends out1 then qos_nb_items s - 1 else qos_nb_items s)"
    by (rule out_rsItem_effect [OF assms(1) False assms(2), of F out])
  have s1: "s1 = s'" "out1 = out'" using e(1) assms(3) by simp_all
  have nb: "unat (qos_nb_items s) = waiting (levels s)" using assms(1) by (simp add: qos_inv_def)
  have "1 \<le> qos_nb_items s" using nb False by (simp add: word_le_nat_alt)
  then have "unat (qos_nb_items s1) + (if so_ends out1 then 1 else 0) = unat (qos_nb_items s)"
    using nb False by (simp add: e(6) unat_sub)
  moreover have "so_ends out1 = slice_ends ms (hd (levels s ! k))" using e(5) by (simp add: is_slice_def)
  ultimately have "unat (qos_nb_items s1) = waiting (levels s1)"
    using waiting_after [OF e(2,3), of ms] nb by (auto simp: e(4) split: if_splits)
  moreover have "level_ok (levels s ! k)" by (rule qos_inv_level [OF assms(1) e(2)])
  then have "list_all level_ok (levels s1)"
    using after_slice_ok [OF _ e(3) assms(2)] assms(1) e(2)
    by (auto simp: e(4) qos_inv_def list_all_iff dest: set_update_subset_insert [THEN subsetD])
  moreover have "levels s1 \<noteq> []" using e(2) by (simp add: e(4)) (auto simp: levels_def)
  ultimately show ?thesis by (simp add: qos_inv_def s1)
qed

subsection \<open>Putting in\<close>

definition new_record :: "bytes \<Rightarrow> u32 \<Rightarrow> ItemRecord" where
  "new_record item pid = \<lparr>ir_data = item, ir_current_offset = 0, ir_size = of_nat (length item), ir_id = pid\<rparr>"

definition level_of :: "u32 \<Rightarrow> ('f, 'a) pqiQoS_scheme \<Rightarrow> nat" where
  "level_of priority s = min (unat priority) (length (levels s) - 1)"

lemma in_rsItem_effect:
  assumes i: "qos_inv s" and l: "length item < 2 ^ 31" and n: "waiting (levels s) + 1 < 2 ^ 64"
  shows "\<exists>s'. in_rsItem item (of_nat (length item)) priority s = Inr s' \<and> qos_inv s' \<and>
    levels s' = (levels s)[level_of priority s := levels s ! level_of priority s @ [new_record item (qos_id_counter s)]] \<and>
    waiting (levels s') = waiting (levels s) + 1 \<and>
    qos_id_counter s' = (if qos_id_counter s + 1 \<ge> MAX_PACKET_COUNTER_VALUE then 0 else qos_id_counter s + 1) \<and>
    pqiQoS.more s' = pqiQoS.more s"
proof -
  let ?k = "level_of priority s" and ?qs = "qos_item_queues s"
  have ne: "?qs \<noteq> []" using i by (auto simp: qos_inv_def levels_def)
  then have k: "?k < length ?qs" by (cases ?qs) (auto simp: level_of_def)
  have lev: "(if unat priority \<ge> length ?qs then length ?qs - 1 else unat priority) = ?k"
    using ne by (cases ?qs) (auto simp: level_of_def min_def)
  define s' where "s' = s\<lparr>qos_item_queues := ?qs[?k := queue_push item (of_nat (length item)) (qos_id_counter s) (?qs ! ?k)],
    qos_nb_items := qos_nb_items s + 1,
    qos_id_counter := (if qos_id_counter s + 1 \<ge> MAX_PACKET_COUNTER_VALUE then 0 else qos_id_counter s + 1)\<rparr>"
  have "in_rsItem item (of_nat (length item)) priority s = Inr s'"
    unfolding in_rsItem_def Let_def lev using ne by (simp add: s'_def)
  moreover have lv: "levels s' = (levels s)[?k := levels s ! ?k @ [new_record item (qos_id_counter s)]]"
    using k by (simp add: s'_def levels_def map_update queue_push_def new_record_def)
  moreover have w: "waiting (levels s') = waiting (levels s) + 1"
    using waiting_replace [of ?k "levels s" "levels s ! ?k @ [new_record item (qos_id_counter s)]"] k by (simp add: lv)
  moreover have "qos_inv s'"
  proof -
    have rec: "record_ok (new_record item (qos_id_counter s))" "ir_current_offset (new_record item (qos_id_counter s)) = 0"
      using l by (simp_all add: record_ok_def new_record_def unat_of_nat)
    have lo: "level_ok (levels s ! ?k)" using i k by (intro qos_inv_level) simp_all
    have "level_ok (levels s ! ?k @ [new_record item (qos_id_counter s)])"
      using lo rec by (cases "levels s ! ?k") (simp_all add: level_ok_def)
    then have "list_all level_ok (levels s')"
      using i by (auto simp: lv qos_inv_def list_all_iff dest: set_update_subset_insert [THEN subsetD])
    moreover have "unat (qos_nb_items s') = waiting (levels s) + 1"
    proof -
      have "unat (qos_nb_items s) = waiting (levels s)" using i by (simp add: qos_inv_def)
      then show ?thesis using n by (simp add: s'_def unat_word_ariths)
    qed
    ultimately show ?thesis using ne w by (simp add: qos_inv_def levels_def s'_def)
  qed
  ultimately show ?thesis by (intro exI [of _ s']) (simp add: s'_def)
qed

lemma qos_clear_effect:
  assumes "qos_inv s"
  shows "qos_inv (qos_clear s)" "waiting (levels (qos_clear s)) = 0"
proof -
  have e: "levels (qos_clear s) = replicate (length (levels s)) []"
    by (simp add: qos_clear_def levels_def comp_def map_replicate_const)
  show "waiting (levels (qos_clear s)) = 0" by (simp add: e waiting_def)
  then show "qos_inv (qos_clear s)"
    using assms unfolding qos_inv_def e
    by (simp add: levels_def) (simp add: qos_clear_def list_all_iff level_ok_def)
qed

end
