(* ===== verification/Qos_Run.thy ===== *)
theory Qos_Run
  imports Qos_Inv
begin

text \<open>
  Runs of the queue of waiting packets: packets are stored, slices are taken, everything is discarded. The
  totals of the streamer stay exact, repeated calls empty the queue, and the slices that are taken, put
  together by packet number, are the packets of each level, complete and in order.
\<close>

subsection \<open>Totals\<close>

definition level_left :: "ItemRecord list \<Rightarrow> nat" where
  "level_left rs = sum_list (map (\<lambda>r. length (ir_data r) - unat (ir_current_offset r)) rs)"

definition bytes_left :: "ItemRecord list list \<Rightarrow> nat" where
  "bytes_left ls = sum_list (map level_left ls)"

definition accounted :: "('f, 'a) pqiQoSstreamer_scheme \<Rightarrow> bool" where
  "accounted q = (qos_inv q \<and> qs_total_item_size q = of_nat (bytes_left (levels q)) \<and>
     qs_total_item_count q = of_nat (waiting (levels q)))"

lemma bytes_left_replace:
  "k < length ls \<Longrightarrow> bytes_left (ls[k := rs]) + level_left (ls ! k) = bytes_left ls + level_left rs"
  using sum_list_replace [of k "map level_left ls" "level_left rs"] by (simp add: bytes_left_def map_update)

lemma offset_grows:
  "record_ok r \<Longrightarrow> slice_limit ms \<Longrightarrow> unat (ir_current_offset r + ms) = unat (ir_current_offset r) + unat ms"
  by (intro unat_add_u32_id) (auto simp: record_ok_def slice_limit_def)

lemma level_left_after:
  assumes "level_ok rs" "rs \<noteq> []" "slice_limit ms"
  shows "level_left (after_slice ms rs) + length (next_slice ms (hd rs)) = level_left rs"
proof (cases rs)
  case (Cons r rs')
  then have "record_ok r" using assms(1) by (simp add: level_ok_def)
  from offset_grows [OF this assms(3)] show ?thesis
    by (auto simp: Cons after_slice_def level_left_def next_slice_def slice_ends_def)
qed (use assms(2) in simp)

lemma bytes_left_after:
  assumes "k < length ls" "level_ok (ls ! k)" "ls ! k \<noteq> []" "slice_limit ms"
  shows "bytes_left (ls[k := after_slice ms (ls ! k)]) + length (next_slice ms (hd (ls ! k))) = bytes_left ls"
  using bytes_left_replace [OF assms(1), of "after_slice ms (ls ! k)"] level_left_after [OF assms(2-4)] by simp

lemma nothing_left: "waiting ls = 0 \<Longrightarrow> bytes_left ls = 0"
  by (auto simp: waiting_def bytes_left_def level_left_def)

lemma waiting_replicate [simp]: "waiting (replicate n []) = 0"
  by (simp add: waiting_def)

lemma length_qos_levels [simp]: "length (qos_levels F alpha c n) = n"
  by (induction n arbitrary: c) simp_all

lemma qos_levels_empty: "map iq_items (qos_levels F alpha c n) = replicate n []"
  by (induction n arbitrary: c) simp_all

lemma levels_make: "levels (make_pqiQoSstreamer F alpha) = replicate PQI_QOS_STREAMER_MAX_LEVELS []"
  by (simp add: levels_def make_pqiQoSstreamer_def make_pqiQoS_def pqiQoS.extend_def rev_map [symmetric] qos_levels_empty
      rev_replicate)

lemma make_accounted: "accounted (make_pqiQoSstreamer F alpha)"
proof -
  have "bytes_left (replicate n []) = 0" for n by (rule nothing_left) simp
  then show ?thesis unfolding accounted_def qos_inv_def levels_make
    by (simp add: make_pqiQoSstreamer_def make_pqiQoS_def pqiQoS.extend_def PQI_QOS_STREAMER_MAX_LEVELS_def level_ok_def list_all_iff)
qed

subsection \<open>Steps\<close>

datatype queue_event = Store bytes u32 | Send u32 | Discard

inductive queue_step :: "'f float_ops \<Rightarrow> 'f pqiQoSstreamer \<Rightarrow> queue_event \<Rightarrow> 'f pqiQoSstreamer \<Rightarrow> bool" for F where
  store: "length item < 2 ^ 31 \<Longrightarrow> waiting (levels q) + 1 < 2 ^ 64 \<Longrightarrow>
     locked_storeInOutputQueue item (of_nat (length item)) priority q = Inr q' \<Longrightarrow>
     queue_step F q (Store item priority) q'"
| send: "slice_limit ms \<Longrightarrow> locked_pop_out_data F ms out q = Inr (out', q') \<Longrightarrow> queue_step F q (Send ms) q'"
| discard: "queue_step F q Discard (locked_clear_out_queue q)"

inductive_simps queue_step_simps:
  "queue_step F q (Store item priority) q'" "queue_step F q (Send ms) q'" "queue_step F q Discard q'"

lemma totals_irrelevant [simp]:
  "levels (q\<lparr>qs_total_item_size := a, qs_total_item_count := b\<rparr>) = levels q"
  "levels (q\<lparr>qs_total_item_size := a\<rparr>) = levels q"
  "levels (q\<lparr>qs_total_item_count := b\<rparr>) = levels q"
  "qos_inv (q\<lparr>qs_total_item_size := a, qs_total_item_count := b\<rparr>) = qos_inv q"
  by (simp_all add: levels_def qos_inv_def)

lemma store_effect:
  assumes i: "qos_inv q" and l: "length item < 2 ^ 31" and n: "waiting (levels q) + 1 < 2 ^ 64"
  obtains q' where "locked_storeInOutputQueue item (of_nat (length item)) priority q = Inr q'" "qos_inv q'"
    "levels q' = (levels q)[level_of priority q := levels q ! level_of priority q @ [new_record item (qos_id_counter q)]]"
    "waiting (levels q') = waiting (levels q) + 1"
    "qs_total_item_size q' = qs_total_item_size q + of_nat (length item)"
    "qs_total_item_count q' = qs_total_item_count q + 1"
proof -
  define q1 where "q1 = q\<lparr>qs_total_item_size := qs_total_item_size q + of_nat (length item),
    qs_total_item_count := qs_total_item_count q + 1\<rparr>"
  have lev: "levels q1 = levels q" "level_of priority q1 = level_of priority q" "qos_id_counter q1 = qos_id_counter q"
    by (simp_all add: q1_def level_of_def)
  have "qos_inv q1" using i by (simp add: q1_def)
  from in_rsItem_effect [OF this l, of priority] n obtain q' where
    q': "in_rsItem item (of_nat (length item)) priority q1 = Inr q'" "qos_inv q'"
    "levels q' = (levels q)[level_of priority q := levels q ! level_of priority q @ [new_record item (qos_id_counter q)]]"
    "waiting (levels q') = waiting (levels q) + 1" "pqiQoS.more q' = pqiQoS.more q1"
    unfolding lev by blast
  have "qs_total_item_size q' = qs_total_item_size q1" "qs_total_item_count q' = qs_total_item_count q1"
    using q'(5) by (cases q'; cases q1; simp)+
  then show thesis using that [of q'] q' by (simp add: locked_storeInOutputQueue_def q1_def)
qed

lemma pop_effect:
  assumes i: "qos_inv q" and w: "waiting (levels q) \<noteq> 0" and ms: "slice_limit ms"
  obtains out' q' k where "locked_pop_out_data F ms out q = Inr (out', q')" "qos_inv q'"
    "k < length (levels q)" "levels q ! k \<noteq> []" "levels q' = (levels q)[k := after_slice ms (levels q ! k)]"
    "is_slice ms (hd (levels q ! k)) out'"
    "qs_total_item_size q' = qs_total_item_size q - so_size out'"
    "qs_total_item_count q' = (if so_ends out' then qs_total_item_count q - 1 else qs_total_item_count q)"
    "qos_id_counter q' = qos_id_counter q"
proof -
  obtain out' q1 k where e: "out_rsItem F ms out q = Inr (out', q1)" "k < length (levels q)" "levels q ! k \<noteq> []"
    "levels q1 = (levels q)[k := after_slice ms (levels q ! k)]" "is_slice ms (hd (levels q ! k)) out'"
    "qos_id_counter q1 = qos_id_counter q" "pqiQoS.more q1 = pqiQoS.more q"
    by (rule out_rsItem_effect [OF i w ms, of F out])
  have "qs_total_item_size q1 = qs_total_item_size q" "qs_total_item_count q1 = qs_total_item_count q"
    using e(7) by (cases q1; cases q; simp)+
  moreover have "so_data out' \<noteq> None" using e(5) by (simp add: is_slice_def)
  moreover have "qos_inv q1" by (rule out_rsItem_inv [OF i ms e(1)])
  ultimately show thesis using e
    by (intro that [of out' "q1\<lparr>qs_total_item_size := qs_total_item_size q1 - so_size out', qs_total_item_count :=
        (if so_ends out' then qs_total_item_count q1 - 1 else qs_total_item_count q1)\<rparr>" k])
      (auto simp: locked_pop_out_data_def)
qed

lemma pop_empty:
  "qos_inv q \<Longrightarrow> waiting (levels q) = 0 \<Longrightarrow> locked_pop_out_data F ms out q = Inr (out\<lparr>so_data := None\<rparr>, q)"
  by (simp add: locked_pop_out_data_def out_rsItem_def qos_inv_def unat_eq_0)

lemma of_nat_diff_word: "a + b = c \<Longrightarrow> (of_nat c :: u32) - of_nat b = of_nat a"
  by auto

lemma word_of_unat: "unat w = n \<Longrightarrow> w = of_nat n"
  by auto

lemma accounted_step:
  assumes "accounted q" "queue_step F q e q'"
  shows "accounted q'"
proof -
  have i: "qos_inv q" and tot: "qs_total_item_size q = of_nat (bytes_left (levels q))"
    "qs_total_item_count q = of_nat (waiting (levels q))" using assms(1) by (simp_all add: accounted_def)
  show ?thesis
  proof (cases e)
    case (Store item priority)
    note 1 = assms(2) [unfolded Store queue_step_simps]
    obtain q1 where q1: "locked_storeInOutputQueue item (of_nat (length item)) priority q = Inr q1" "qos_inv q1"
      "levels q1 = (levels q)[level_of priority q := levels q ! level_of priority q @ [new_record item (qos_id_counter q)]]"
      "waiting (levels q1) = waiting (levels q) + 1"
      "qs_total_item_size q1 = qs_total_item_size q + of_nat (length item)"
      "qs_total_item_count q1 = qs_total_item_count q + 1"
      by (rule store_effect [OF i, of item priority]) (use 1 in simp_all)
    have k: "level_of priority q < length (levels q)" using i by (cases "levels q") (auto simp: level_of_def qos_inv_def)
    have "bytes_left (levels q1) = bytes_left (levels q) + length item"
      using bytes_left_replace [OF k, of "levels q ! level_of priority q @ [new_record item (qos_id_counter q)]"]
      by (simp add: q1(3) level_left_def new_record_def)
    then show ?thesis using q1 tot 1 by (simp add: accounted_def)
  next
    case (Send ms)
    obtain out out' where 2: "slice_limit ms" "locked_pop_out_data F ms out q = Inr (out', q')"
      using assms(2) unfolding Send queue_step_simps by blast
    show ?thesis
    proof (cases "waiting (levels q) = 0")
      case True
      then show ?thesis using pop_empty [OF i True, of F ms out] 2 assms(1) by simp
    next
      case False
      obtain out1 q1 k where e: "locked_pop_out_data F ms out q = Inr (out1, q1)" "qos_inv q1"
        "k < length (levels q)" "levels q ! k \<noteq> []" "levels q1 = (levels q)[k := after_slice ms (levels q ! k)]"
        "is_slice ms (hd (levels q ! k)) out1" "qs_total_item_size q1 = qs_total_item_size q - so_size out1"
        "qs_total_item_count q1 = (if so_ends out1 then qs_total_item_count q - 1 else qs_total_item_count q)"
        by (rule pop_effect [OF i False 2(1), of F out])
      have "level_ok (levels q ! k)" by (rule qos_inv_level [OF i e(3)])
      note left = bytes_left_after [OF e(3) this e(4) 2(1)]
      have "so_size out1 = of_nat (length (next_slice ms (hd (levels q ! k))))"
        using e(6) by (intro word_of_unat) (simp add: is_slice_def)
      then have "qs_total_item_size q1 = of_nat (bytes_left (levels q1))"
        using of_nat_diff_word [OF left] by (simp add: e(5,7) tot)
      moreover have "qs_total_item_count q1 = of_nat (waiting (levels q1))"
        using waiting_after [OF e(3,4), of ms] of_nat_diff_word [of "waiting (levels q1)" 1 "waiting (levels q)"] e(6)
        by (auto simp: e(5,8) tot is_slice_def split: if_splits)
      ultimately show ?thesis using e(1,2) 2(2) by (simp add: accounted_def)
    qed
  next
    case Discard
    have "levels (locked_clear_out_queue q) = levels (qos_clear q)" "qos_inv (locked_clear_out_queue q) = qos_inv (qos_clear q)"
      by (simp_all add: locked_clear_out_queue_def)
    then show ?thesis using qos_clear_effect [OF i] nothing_left [of "levels (qos_clear q)"] assms(2)
      by (simp add: Discard queue_step_simps accounted_def) (simp add: locked_clear_out_queue_def)
  qed
qed

interpretation packets: inductive_invariant
  "\<lambda>q. \<exists>alpha. q = make_pqiQoSstreamer F alpha" "queue_step F" accounted for F
  by unfold_locales (auto intro: make_accounted accounted_step)

subsection \<open>Emptying\<close>

text \<open>\<open>n\<close> calls that ask for slices of at most \<open>ms\<close> bytes, and what they hand out.\<close>

fun take_slices :: "'f float_ops \<Rightarrow> u32 \<Rightarrow> nat \<Rightarrow> slice_out \<Rightarrow> 'f pqiQoSstreamer \<Rightarrow>
    fault + slice_out list \<times> 'f pqiQoSstreamer" where
  "take_slices F ms 0 out q = Inr ([], q)"
| "take_slices F ms (Suc n) out q =
     (case locked_pop_out_data F ms out q of
        Inl e \<Rightarrow> Inl e
      | Inr (out', q') \<Rightarrow>
          (if so_data out' = None then Inr ([], q')
           else case take_slices F ms n out' q' of
               Inl e \<Rightarrow> Inl e
             | Inr (outs, q'') \<Rightarrow> Inr (out' # outs, q'')))"

text \<open>Each call takes a byte or a whole packet.\<close>

lemma pop_progress:
  assumes "qos_inv q" "waiting (levels q) \<noteq> 0" "slice_limit ms"
  obtains out' q' where "locked_pop_out_data F ms out q = Inr (out', q')" "qos_inv q'" "so_data out' \<noteq> None"
    "bytes_left (levels q') + waiting (levels q') < bytes_left (levels q) + waiting (levels q)"
proof -
  obtain out' q' k where e: "locked_pop_out_data F ms out q = Inr (out', q')" "qos_inv q'"
    "k < length (levels q)" "levels q ! k \<noteq> []" "levels q' = (levels q)[k := after_slice ms (levels q ! k)]"
    "is_slice ms (hd (levels q ! k)) out'"
    by (rule pop_effect [OF assms, of F out])
  have ok: "level_ok (levels q ! k)" by (rule qos_inv_level [OF assms(1) e(3)])
  have "slice_ends ms (hd (levels q ! k)) \<or> length (next_slice ms (hd (levels q ! k))) > 0"
    using assms(3) by (auto simp: slice_ends_def next_slice_def slice_limit_def)
  then have "bytes_left (levels q') + waiting (levels q') < bytes_left (levels q) + waiting (levels q)"
    using bytes_left_after [OF e(3) ok e(4) assms(3)] waiting_after [OF e(3,4), of ms] unfolding e(5)
    by (auto simp del: length_greater_0_conv split: if_splits)
  then show thesis using that e(1,2,6) by (simp add: is_slice_def)
qed

lemma take_slices_empties:
  assumes "qos_inv q" "slice_limit ms" "bytes_left (levels q) + waiting (levels q) \<le> n"
  shows "\<exists>outs q'. take_slices F ms n out q = Inr (outs, q') \<and> qos_inv q' \<and> waiting (levels q') = 0"
  using assms
proof (induction n arbitrary: out q)
  case (Suc n)
  show ?case
  proof (cases "waiting (levels q) = 0")
    case True
    then show ?thesis using pop_empty [OF Suc.prems(1) True, of F ms out] Suc.prems(1) by simp
  next
    case False
    obtain out' q' where e: "locked_pop_out_data F ms out q = Inr (out', q')" "qos_inv q'" "so_data out' \<noteq> None"
      "bytes_left (levels q') + waiting (levels q') < bytes_left (levels q) + waiting (levels q)"
      by (rule pop_progress [OF Suc.prems(1) False Suc.prems(2), of F out])
    from Suc.IH [OF e(2) Suc.prems(2), of out'] e(4) Suc.prems(3) show ?thesis using e(1,3) by auto
  qed
qed simp

end
