(* ===== verification/Qos_Join.thy ===== *)
theory Qos_Join
  imports Qos_Run
begin

text \<open>
  What the slices that leave the queue mean: \<open>join\<close> is the specification of the receiving side, a table
  from packet numbers to the bytes that have come so far. Along any run of the sender the table holds the
  parts of the packets that have been started, and the packets that come out of it are those of each
  level, complete and in the order in which they were stored.
\<close>

definition join :: "slice_out \<Rightarrow> (u32 \<rightharpoonup> bytes) \<Rightarrow> bytes option \<times> (u32 \<rightharpoonup> bytes)" where
  "join out t = (case so_data out of
      None \<Rightarrow> (None, t)
    | Some d \<Rightarrow>
        (if so_starts out \<and> so_ends out then (Some d, t)
         else if so_starts out then (None, t(so_id out \<mapsto> d))
         else case t (so_id out) of
             None \<Rightarrow> (None, t)
           | Some x \<Rightarrow> (if so_ends out then (Some (x @ d), t(so_id out := None)) else (None, t(so_id out \<mapsto> x @ d)))))"

text \<open>Slices and packets are tagged with the level of the queue they belong to.\<close>

fun join_all :: "(nat \<times> slice_out) list \<Rightarrow> (u32 \<rightharpoonup> bytes) \<times> (nat \<times> bytes) list \<Rightarrow> (u32 \<rightharpoonup> bytes) \<times> (nat \<times> bytes) list" where
  "join_all [] r = r"
| "join_all ((k, out) # outs) (t, got) =
     (case join out t of
        (None, t') \<Rightarrow> join_all outs (t', got)
      | (Some d, t') \<Rightarrow> join_all outs (t', got @ [(k, d)]))"

definition joined :: "(nat \<times> slice_out) list \<Rightarrow> (u32 \<rightharpoonup> bytes) \<times> (nat \<times> bytes) list" where
  "joined outs = join_all outs (Map.empty, [])"

lemma join_all_append: "join_all (xs @ ys) r = join_all ys (join_all xs r)"
proof (induction xs arbitrary: r)
  case (Cons x xs)
  obtain k out t got where "x = (k, out)" "r = (t, got)" by (cases x; cases r)
  then show ?case using Cons by (auto split: prod.split option.split)
qed simp

lemma joined_snoc:
  "joined (outs @ [(k, out)]) = (let (t, got) = joined outs; (r, t') = join out t in
     (t', got @ (case r of None \<Rightarrow> [] | Some d \<Rightarrow> [(k, d)])))"
  by (cases "joined outs") (auto simp: joined_def join_all_append split: prod.split option.split)

subsection \<open>The sender\<close>

definition ids :: "ItemRecord list \<Rightarrow> u32 set" where
  "ids rs = ir_id ` set rs"

lemma in_ids: "r \<in> set rs \<Longrightarrow> ir_id r \<in> ids rs"
  by (simp add: ids_def)

text \<open>The level of the packet with a number.\<close>

definition level_holding :: "u32 \<Rightarrow> ItemRecord list list \<Rightarrow> nat" where
  "level_holding pid ls = length (takeWhile (\<lambda>rs. pid \<notin> ids rs) ls)"

text \<open>A run of the sender, with the packets that were stored and the slices that were taken. A number is not
  given to a packet while another one that waits has it: there are \<open>2 ^ 24\<close> numbers.\<close>

inductive sender :: "'f float_ops \<Rightarrow> 'f pqiQoSstreamer \<Rightarrow> (nat \<times> bytes) list \<Rightarrow> (nat \<times> slice_out) list \<Rightarrow> bool" for F where
  start: "sender F (make_pqiQoSstreamer F alpha) [] []"
| put: "sender F q puts outs \<Longrightarrow> length item < 2 ^ 31 \<Longrightarrow> waiting (levels q) + 1 < 2 ^ 64 \<Longrightarrow>
     list_all (\<lambda>rs. qos_id_counter q \<notin> ids rs) (levels q) \<Longrightarrow>
     locked_storeInOutputQueue item (of_nat (length item)) priority q = Inr q' \<Longrightarrow>
     sender F q' (puts @ [(level_of priority q, item)]) outs"
| pop: "sender F q puts outs \<Longrightarrow> slice_limit ms \<Longrightarrow> locked_pop_out_data F ms out q = Inr (out', q') \<Longrightarrow>
     so_data out' \<noteq> None \<Longrightarrow> sender F q' puts (outs @ [(level_holding (so_id out') (levels q), out')])"

definition level_data :: "nat \<Rightarrow> (nat \<times> bytes) list \<Rightarrow> bytes list" where
  "level_data k ps = map snd (filter (\<lambda>p. fst p = k) ps)"

lemma level_data_append [simp]: "level_data k (xs @ ys) = level_data k xs @ level_data k ys"
  and level_data_Nil [simp]: "level_data k [] = []"
  and level_data_single [simp]: "level_data k [(j, d)] = (if j = k then [d] else [])"
  by (simp_all add: level_data_def)

definition ids_ok :: "ItemRecord list list \<Rightarrow> bool" where
  "ids_ok ls = ((\<forall>k < length ls. distinct (map ir_id (ls ! k))) \<and>
     (\<forall>j < length ls. \<forall>k < length ls. j \<noteq> k \<longrightarrow> ids (ls ! j) \<inter> ids (ls ! k) = {}))"

definition table_ok :: "(u32 \<rightharpoonup> bytes) \<Rightarrow> ItemRecord list list \<Rightarrow> bool" where
  "table_ok t ls = ((\<forall>k < length ls. \<forall>r \<in> set (ls ! k).
       t (ir_id r) = (if ir_current_offset r = 0 then None else Some (take (unat (ir_current_offset r)) (ir_data r)))) \<and>
     (\<forall>pid. t pid \<noteq> None \<longrightarrow> (\<exists>k < length ls. pid \<in> ids (ls ! k))))"

definition history_ok :: "(nat \<times> bytes) list \<Rightarrow> (nat \<times> bytes) list \<Rightarrow> ItemRecord list list \<Rightarrow> bool" where
  "history_ok puts got ls = (list_all (\<lambda>p. fst p < length ls) puts \<and> list_all (\<lambda>p. fst p < length ls) got \<and>
     (\<forall>k < length ls. level_data k got @ map ir_data (ls ! k) = level_data k puts))"

lemma level_holding_unique:
  assumes "ids_ok ls" "k < length ls" "pid \<in> ids (ls ! k)"
  shows "level_holding pid ls = k"
proof -
  have "pid \<notin> ids (ls ! j)" if "j < k" for j
    using assms that unfolding ids_ok_def by (metis Int_iff empty_iff less_irrefl order.strict_trans)
  then have "takeWhile (\<lambda>rs. pid \<notin> ids rs) ls = take k ls"
    using assms(2,3) by (intro takeWhile_eq_take_P_nth) auto
  then show ?thesis using assms(2) by (simp add: level_holding_def)
qed

lemma ids_after: "rs \<noteq> [] \<Longrightarrow> ids (after_slice ms rs) \<subseteq> ids rs"
  by (cases rs) (auto simp: ids_def after_slice_def)

lemma distinct_after: "rs \<noteq> [] \<Longrightarrow> distinct (map ir_id rs) \<Longrightarrow> distinct (map ir_id (after_slice ms rs))"
  by (cases rs) (auto simp: after_slice_def)

lemma ids_okD:
  assumes "ids_ok ls"
  shows "k < length ls \<Longrightarrow> distinct (map ir_id (ls ! k))"
    and "j < length ls \<Longrightarrow> k < length ls \<Longrightarrow> pid \<in> ids (ls ! j) \<Longrightarrow> pid \<in> ids (ls ! k) \<Longrightarrow> j = k"
  using assms unfolding ids_ok_def by blast+

lemma ids_ok_update:
  assumes i: "ids_ok ls" and k: "k < length ls" and d: "distinct (map ir_id rs)"
    and x: "\<And>pid j. pid \<in> ids rs \<Longrightarrow> j < length ls \<Longrightarrow> pid \<in> ids (ls ! j) \<Longrightarrow> j = k"
  shows "ids_ok (ls[k := rs])"
  unfolding ids_ok_def
proof (intro conjI allI impI)
  fix j assume j: "j < length (ls[k := rs])"
  then show "distinct (map ir_id (ls[k := rs] ! j))"
    using d ids_okD(1) [OF i, of j] by (cases "j = k") simp_all
  fix m assume m: "m < length (ls[k := rs])" "j \<noteq> m"
  show "ids (ls[k := rs] ! j) \<inter> ids (ls[k := rs] ! m) = {}"
  proof (cases "j = k \<or> m = k")
    case True
    then show ?thesis using x j m k by auto
  next
    case False
    then show ?thesis using ids_okD(2) [OF i, of j m] j m by auto
  qed
qed

lemma ids_ok_after:
  assumes "ids_ok ls" "k < length ls" "ls ! k \<noteq> []"
  shows "ids_ok (ls[k := after_slice ms (ls ! k)])"
  using ids_after [OF assms(3), of ms] ids_okD [OF assms(1)] assms(2)
  by (intro ids_ok_update [OF assms(1,2)] distinct_after [OF assms(3)]) blast+

lemma ids_ok_put:
  assumes "ids_ok ls" "k < length ls" "list_all (\<lambda>rs. ir_id r \<notin> ids rs) ls"
  shows "ids_ok (ls[k := ls ! k @ [r]])"
proof (rule ids_ok_update [OF assms(1,2)])
  have n: "ir_id r \<notin> ids (ls ! j)" if "j < length ls" for j using assms(3) that by (simp add: list_all_length)
  then show "distinct (map ir_id (ls ! k @ [r]))"
    using ids_okD(1) [OF assms(1,2)] assms(2) by (auto simp: ids_def)
  show "j = k" if "pid \<in> ids (ls ! k @ [r])" "j < length ls" "pid \<in> ids (ls ! j)" for pid j
  proof -
    have "ids (ls ! k @ [r]) = insert (ir_id r) (ids (ls ! k))" by (auto simp: ids_def)
    then have "pid \<in> ids (ls ! k)" using that n [OF that(2)] by auto
    then show ?thesis by (rule ids_okD(2) [OF assms(1) that(2) assms(2) that(3)])
  qed
qed

subsection \<open>The table of parts\<close>

text \<open>The entry of a packet after its next slice.\<close>

definition part_after :: "u32 \<Rightarrow> ItemRecord \<Rightarrow> bytes option" where
  "part_after ms r = (if slice_ends ms r then None
     else Some (take (unat (ir_current_offset r) + unat ms) (ir_data r)))"

lemma part_grows:
  "take (unat (ir_current_offset r)) (ir_data r) @ next_slice ms r = take (unat (ir_current_offset r) + unat ms) (ir_data r)"
  by (simp add: next_slice_def take_add)

lemma join_next_slice:
  assumes t: "t (ir_id r) = (if ir_current_offset r = 0 then None
      else Some (take (unat (ir_current_offset r)) (ir_data r)))"
    and s: "is_slice ms r out"
  shows "join out t = (if slice_ends ms r then Some (ir_data r) else None, t(ir_id r := part_after ms r))"
proof (cases "ir_current_offset r = 0")
  case True
  then have "t(ir_id r := None) = t" using t by auto
  then show ?thesis using True s by (simp add: is_slice_def join_def part_after_def next_slice_def slice_ends_def)
next
  case False
  then show ?thesis using t s part_grows [of r ms]
    by (auto simp: is_slice_def join_def part_after_def slice_ends_def)
qed

lemma part_tableD:
  assumes "table_ok t ls"
  shows "k < length ls \<Longrightarrow> r \<in> set (ls ! k) \<Longrightarrow>
      t (ir_id r) = (if ir_current_offset r = 0 then None else Some (take (unat (ir_current_offset r)) (ir_data r)))"
    and "t pid \<noteq> None \<Longrightarrow> \<exists>k < length ls. pid \<in> ids (ls ! k)"
  using assms unfolding table_ok_def by blast+

lemma table_ok_after:
  assumes t: "table_ok t ls" and i: "ids_ok ls" and k: "k < length ls" and rs: "ls ! k = r # rs"
    and ok: "record_ok r" and ms: "slice_limit ms"
  shows "table_ok (t(ir_id r := part_after ms r)) (ls[k := after_slice ms (r # rs)])"
  unfolding table_ok_def
proof (intro conjI allI impI ballI)
  let ?t = "t(ir_id r := part_after ms r)" and ?ls = "ls[k := after_slice ms (r # rs)]"
  have here: "x \<in> set (ls ! j) \<Longrightarrow> j < length ls \<Longrightarrow> ir_id x = ir_id r \<Longrightarrow> j = k" for x j
  proof (rule ids_okD(2) [OF i _ k, of j "ir_id r"])
    show "ir_id r \<in> ids (ls ! j)" if "x \<in> set (ls ! j)" "ir_id x = ir_id r"
      using that by (metis ids_def image_eqI)
  qed (use rs in \<open>simp_all add: ids_def\<close>)
  have d: "ir_id r \<notin> ids rs" using ids_okD(1) [OF i k] by (simp add: rs ids_def)
  have old: "?t (ir_id x) = (if ir_current_offset x = 0 then None else Some (take (unat (ir_current_offset x)) (ir_data x)))"
    if "x \<in> set (ls ! j)" "j < length ls" "ir_id x \<noteq> ir_id r" for x j
    using part_tableD(1) [OF t that(2,1)] that(3) by simp
  show "?t (ir_id x) = (if ir_current_offset x = 0 then None else Some (take (unat (ir_current_offset x)) (ir_data x)))"
    if j: "j < length ?ls" and x: "x \<in> set (?ls ! j)" for x j
  proof (cases "j = k")
    case False
    then show ?thesis using old [of x j] here [of x j] j x by auto
  next
    case True
    consider "x \<in> set rs" | "\<not> slice_ends ms r" "x = r\<lparr>ir_current_offset := ir_current_offset r + ms\<rparr>"
      using x True k by (auto simp: after_slice_def split: if_splits)
    then show ?thesis
    proof cases
      case 1
      then have "ir_id x \<noteq> ir_id r" using d in_ids [of x rs] by auto
      then show ?thesis using old [of x k] 1 rs k by simp
    next
      case 2
      have "ir_current_offset r + ms \<noteq> 0"
        using offset_grows [OF ok ms] ms by (auto simp: slice_limit_def word_unat_eq_iff)
      then show ?thesis using 2 offset_grows [OF ok ms] by (simp add: part_after_def)
    qed
  qed
  show "\<exists>j < length ?ls. pid \<in> ids (?ls ! j)" if p: "?t pid \<noteq> None" for pid
  proof (cases "pid = ir_id r")
    case True
    then have "\<not> slice_ends ms r" using p by (simp add: part_after_def split: if_splits)
    then show ?thesis using True k by (intro exI [of _ k]) (simp add: after_slice_def ids_def)
  next
    case False
    then obtain j where j: "j < length ls" "pid \<in> ids (ls ! j)" using p part_tableD(2) [OF t, of pid] by auto
    then show ?thesis using False k rs
      by (intro exI [of _ j]) (cases "j = k"; auto simp: after_slice_def ids_def)
  qed
qed

lemma table_ok_put:
  assumes t: "table_ok t ls" and k: "k < length ls" and r: "list_all (\<lambda>rs. ir_id r \<notin> ids rs) ls"
    and o0: "ir_current_offset r = 0"
  shows "table_ok t (ls[k := ls ! k @ [r]])"
  unfolding table_ok_def
proof (intro conjI allI impI ballI)
  have new: "t (ir_id r) = None"
    using part_tableD(2) [OF t, of "ir_id r"] r by (cases "t (ir_id r)") (auto simp: list_all_length)
  show "t (ir_id x) = (if ir_current_offset x = 0 then None else Some (take (unat (ir_current_offset x)) (ir_data x)))"
    if "j < length (ls[k := ls ! k @ [r]])" "x \<in> set (ls[k := ls ! k @ [r]] ! j)" for x j
    using that part_tableD(1) [OF t, of j x] new o0 by (cases "j = k") auto
  show "\<exists>j < length (ls[k := ls ! k @ [r]]). pid \<in> ids (ls[k := ls ! k @ [r]] ! j)" if p: "t pid \<noteq> None" for pid
  proof -
    obtain j where "j < length ls" "pid \<in> ids (ls ! j)" using part_tableD(2) [OF t p] by blast
    then show ?thesis by (intro exI [of _ j]) (cases "j = k"; auto simp: ids_def)
  qed
qed

subsection \<open>The run\<close>

definition sender_inv :: "'f pqiQoSstreamer \<Rightarrow> (nat \<times> bytes) list \<Rightarrow> (nat \<times> slice_out) list \<Rightarrow> bool" where
  "sender_inv q puts outs = (qos_inv q \<and> ids_ok (levels q) \<and> table_ok (fst (joined outs)) (levels q) \<and>
     history_ok puts (snd (joined outs)) (levels q))"

lemma history_put:
  "history_ok puts got ls \<Longrightarrow> k < length ls \<Longrightarrow>
     history_ok (puts @ [(k, ir_data r)]) got (ls[k := ls ! k @ [r]])"
  unfolding history_ok_def by (auto simp: nth_list_update)

lemma history_after:
  assumes "history_ok puts got ls" "k < length ls" "ls ! k = r # rs"
  shows "history_ok puts (got @ (if slice_ends ms r then [(k, ir_data r)] else [])) (ls[k := after_slice ms (r # rs)])"
  using assms unfolding history_ok_def by (auto simp: nth_list_update after_slice_def)

lemma sender_step_pop:
  assumes i: "sender_inv q puts outs" and ms: "slice_limit ms"
    and p: "locked_pop_out_data F ms out q = Inr (out', q')" "so_data out' \<noteq> None"
  shows "sender_inv q' puts (outs @ [(level_holding (so_id out') (levels q), out')])"
proof -
  obtain t got where tg: "joined outs = (t, got)" by (cases "joined outs")
  have I: "qos_inv q" "ids_ok (levels q)" "table_ok t (levels q)" "history_ok puts got (levels q)"
    using i by (simp_all add: sender_inv_def tg)
  have w: "waiting (levels q) \<noteq> 0"
  proof
    assume "waiting (levels q) = 0"
    from pop_empty [OF I(1) this, of F ms out] p show False by simp
  qed
  obtain out1 q1 k where e: "locked_pop_out_data F ms out q = Inr (out1, q1)" "qos_inv q1"
    "k < length (levels q)" "levels q ! k \<noteq> []" "levels q1 = (levels q)[k := after_slice ms (levels q ! k)]"
    "is_slice ms (hd (levels q ! k)) out1"
    by (rule pop_effect [OF I(1) w ms, of F out])
  obtain r rs where rs: "levels q ! k = r # rs" using e(4) by (cases "levels q ! k") auto
  have "level_ok (levels q ! k)" by (rule qos_inv_level [OF I(1) e(3)])
  then have ok: "record_ok r" by (simp add: rs level_ok_def)
  have out: "out1 = out'" "q1 = q'" using e(1) p(1) by simp_all
  have s: "is_slice ms r out'" using e(6) by (simp add: rs out)
  have "level_holding (so_id out') (levels q) = k"
    using s by (intro level_holding_unique [OF I(2) e(3)]) (simp add: rs ids_def is_slice_def)
  moreover have "join out' t = (if slice_ends ms r then Some (ir_data r) else None, t(ir_id r := part_after ms r))"
    using part_tableD(1) [OF I(3) e(3), of r] by (intro join_next_slice s) (simp add: rs)
  ultimately have "joined (outs @ [(level_holding (so_id out') (levels q), out')]) =
      (t(ir_id r := part_after ms r), got @ (if slice_ends ms r then [(k, ir_data r)] else []))"
    by (simp add: joined_snoc tg)
  moreover have "levels q' = (levels q)[k := after_slice ms (r # rs)]" using e(5) by (simp add: rs out)
  ultimately show ?thesis
    using ids_ok_after [OF I(2) e(3,4), of ms] table_ok_after [OF I(3,2) e(3) rs ok ms]
      history_after [OF I(4) e(3) rs, of ms] e(2) by (simp add: sender_inv_def rs out)
qed

lemma sender_step_put:
  assumes i: "sender_inv q puts outs" and l: "length item < 2 ^ 31" and n: "waiting (levels q) + 1 < 2 ^ 64"
    and fresh: "list_all (\<lambda>rs. qos_id_counter q \<notin> ids rs) (levels q)"
    and s: "locked_storeInOutputQueue item (of_nat (length item)) priority q = Inr q'"
  shows "sender_inv q' (puts @ [(level_of priority q, item)]) outs"
proof -
  have I: "qos_inv q" "ids_ok (levels q)" "table_ok (fst (joined outs)) (levels q)"
    "history_ok puts (snd (joined outs)) (levels q)" using i by (simp_all add: sender_inv_def)
  let ?r = "new_record item (qos_id_counter q)" and ?k = "level_of priority q"
  obtain q1 where q1: "locked_storeInOutputQueue item (of_nat (length item)) priority q = Inr q1" "qos_inv q1"
    "levels q1 = (levels q)[?k := levels q ! ?k @ [?r]]"
    by (rule store_effect [OF I(1) l n, of priority])
  have k: "?k < length (levels q)" using I(1) by (cases "levels q") (auto simp: level_of_def qos_inv_def)
  have r: "list_all (\<lambda>rs. ir_id ?r \<notin> ids rs) (levels q)" "ir_current_offset ?r = 0" "ir_data ?r = item"
    using fresh by (simp_all add: new_record_def)
  show ?thesis
    using ids_ok_put [OF I(2) k r(1)] table_ok_put [OF I(3) k r(1,2)] history_put [OF I(4) k, of ?r] q1 s r(3)
    by (simp add: sender_inv_def)
qed

lemma sender_inv_make: "sender_inv (make_pqiQoSstreamer F alpha) [] []"
  using make_accounted [of F alpha] unfolding sender_inv_def levels_make
  by (simp add: accounted_def joined_def ids_ok_def ids_def table_ok_def history_ok_def)

lemma sender_keeps: "sender F q puts outs \<Longrightarrow> sender_inv q puts outs"
  by (induction rule: sender.induct) (auto intro: sender_inv_make sender_step_put sender_step_pop)

end
