(* ===== verification/Pqi_Streamer.thy ===== *)
theory Pqi_Streamer
  imports Qos_Inv Raw_Serial Std_Map
begin

text \<open>
  \<^verbatim>\<open>pqi/pqistreamer.cc\<close>, the stream of packets to and from a peer: \<^verbatim>\<open>handleoutgoing_locked\<close> takes packets and
  slices of packets from the queue and packs them into a block that is sent, \<^verbatim>\<open>handleincoming\<close> reads them
  back, and \<^verbatim>\<open>addPartialPacket\<close> puts the slices together. What the binary interface answers to each call is
  an argument, as are the deserialiser and the number of bytes that may be sent or read in one turn.
  A read or write outside a block, a use of memory that was freed, and an allocation that ends the
  process are faults.
\<close>

abbreviation (input) PQISTREAM_OPTIMAL_PACKET_SIZE :: u32 where "PQISTREAM_OPTIMAL_PACKET_SIZE \<equiv> 512"
abbreviation (input) PQISTREAM_SLICE_FLAG_STARTS :: u8 where "PQISTREAM_SLICE_FLAG_STARTS \<equiv> 0x01"
abbreviation (input) PQISTREAM_SLICE_FLAG_ENDS :: u8 where "PQISTREAM_SLICE_FLAG_ENDS \<equiv> 0x02"
abbreviation (input) PQISTREAM_SLICE_PROTOCOL_VERSION_ID_01 :: u8 where "PQISTREAM_SLICE_PROTOCOL_VERSION_ID_01 \<equiv> 0x10"
abbreviation (input) PQISTREAM_PARTIAL_PACKET_HEADER_SIZE :: u32 where "PQISTREAM_PARTIAL_PACKET_HEADER_SIZE \<equiv> 8"
abbreviation (input) PQISTREAM_PACKET_SLICING_PROBE_DELAY :: int where "PQISTREAM_PACKET_SLICING_PROBE_DELAY \<equiv> 60"

definition PACKET_SLICING_PROBE_BYTES :: bytes where
  "PACKET_SLICING_PROBE_BYTES = [0x02, 0xaa, 0xbb, 0xcc, 0x00, 0x00, 0x00, 0x08]"

definition MAX_SERIAL_SIZE :: u32 where
  "MAX_SERIAL_SIZE = 262143"

definition getRsPktMaxSize :: u32 where
  "getRsPktMaxSize = MAX_SERIAL_SIZE"

definition getRsPktBaseSize :: u32 where
  "getRsPktBaseSize = 8"

definition getRsItemSize :: "bytes \<Rightarrow> u32" where
  "getRsItemSize data = (case getRawUInt32 (Some data) 8 4 of Some (off, Some v) \<Rightarrow> v | _ \<Rightarrow> 0)"

subsection \<open>The state\<close>

record PartialPacketRecord =
  pr_mem :: bytes
  pr_size :: u32

text \<open>The block that waits to be sent; after the error path of \<^verbatim>\<open>handleoutgoing_locked\<close> the pointer is kept
  although the block was freed.\<close>

datatype wpending = No_block | Block bytes | Freed_block

record 'i streamer =
  ps_wpending :: wpending
  ps_wpending_size :: u32
  ps_accepts :: bool
  ps_last_probe :: rstime_t
  ps_rpending :: bytes
  ps_started :: bool
  ps_failed :: int
  ps_partial :: "(u32, PartialPacketRecord) std_map"
  ps_incoming :: "'i list"
  ps_closed :: bool

subsection \<open>Putting slices together\<close>

text \<open>\<^verbatim>\<open>realloc\<close> to \<open>n\<close> bytes keeps what fits.\<close>

definition resized :: "bytes \<Rightarrow> nat \<Rightarrow> bytes" where
  "resized mem n = take n mem @ replicate (n - length mem) 0"

text \<open>Result: the bytes that are handed to the deserialiser, if any, and the table.\<close>

definition addPartialPacket :: "bytes \<Rightarrow> u32 \<Rightarrow> u32 \<Rightarrow> bool \<Rightarrow> bool \<Rightarrow> (u32, PartialPacketRecord) std_map \<Rightarrow>
    fault + bytes option \<times> (u32, PartialPacketRecord) std_map" where
  "addPartialPacket block len slice_packet_id is_packet_starting is_packet_ending t =
     (if is_packet_starting \<and> is_packet_ending then Inr (None, t)
      else
        (let slice_length = len - PQISTREAM_PARTIAL_PACKET_HEADER_SIZE;
             n = unat slice_length
         in case map_of t slice_packet_id of
              None \<Rightarrow>
                (if \<not> is_packet_starting then Inr (None, t)
                 else case rs_malloc n of
                     Inl e \<Rightarrow> Inl e
                   | Inr _ \<Rightarrow>
                       (case peek (Some block) 8 n of
                          None \<Rightarrow> Inl Out_of_block
                        | Some slice_data \<Rightarrow>
                            Inr (None, map_put slice_packet_id \<lparr>pr_mem = slice_data, pr_size = slice_length\<rparr> t)))
            | Some rec0 \<Rightarrow>
                (let rec = (if is_packet_starting then \<lparr>pr_mem = [], pr_size = 0\<rparr> else rec0);
                     mem = resized (pr_mem rec) (unat (pr_size rec + slice_length))
                 in case peek (Some block) 8 n of
                      None \<Rightarrow> Inl Out_of_block
                    | Some slice_data \<Rightarrow>
                        (case poke (Some mem) (unat (pr_size rec)) slice_data of
                           Some (Some mem') \<Rightarrow>
                             (if is_packet_ending then Inr (Some mem', map_erase slice_packet_id t)
                              else Inr (None, map_put slice_packet_id
                                     \<lparr>pr_mem = mem', pr_size = pr_size rec + slice_length\<rparr> t))
                         | _ \<Rightarrow> Inl Out_of_block))))"

subsection \<open>Sending\<close>

definition slice_header :: "slice_out \<Rightarrow> bytes" where
  "slice_header out =
     (let flags = (if so_starts out then PQISTREAM_SLICE_FLAG_STARTS else 0) OR
            (if so_ends out then PQISTREAM_SLICE_FLAG_ENDS else 0);
          pid = so_id out; sz = so_size out
      in [PQISTREAM_SLICE_PROTOCOL_VERSION_ID_01, flags, ucast (drop_bit 24 pid), ucast (drop_bit 16 pid),
          ucast (drop_bit 8 pid), ucast pid, ucast (drop_bit 8 sz), ucast sz])"

definition pending_bytes :: "'i streamer \<Rightarrow> bytes" where
  "pending_bytes st = (case ps_wpending st of Block b \<Rightarrow> b | _ \<Rightarrow> [])"

text \<open>One packet or slice is appended to the block. The result is false after the protocol error.\<close>

definition append_slice :: "slice_out \<Rightarrow> bytes \<Rightarrow> 'i streamer \<Rightarrow> fault + bool \<times> 'i streamer" where
  "append_slice out dta st =
     (if unat (so_size out) > length dta then Inl Out_of_block
      else (let xs = take (unat (so_size out)) dta in
        if so_starts out \<and> so_ends out then
          Inr (True, st\<lparr>ps_wpending := Block (pending_bytes st @ xs),
            ps_wpending_size := ps_wpending_size st + so_size out\<rparr>)
        else if so_size out > 0xffff \<or> \<not> ps_accepts st then
          Inr (False, st\<lparr>ps_wpending := (if ps_wpending st = No_block then No_block else Freed_block),
            ps_wpending_size := 0\<rparr>)
        else
          Inr (True, st\<lparr>ps_wpending := Block (pending_bytes st @ slice_header out @ xs),
            ps_wpending_size := ps_wpending_size st + so_size out + PQISTREAM_PARTIAL_PACKET_HEADER_SIZE\<rparr>)))"

text \<open>The loop that fills the block. \<open>None\<close>: it does not end.\<close>

partial_function (option) fill_block :: "'f float_ops \<Rightarrow> u32 \<Rightarrow> slice_out \<Rightarrow> 'f pqiQoSstreamer \<Rightarrow> 'i streamer \<Rightarrow>
    (fault + bool \<times> 'f pqiQoSstreamer \<times> 'i streamer) option" where
  "fill_block F maxbytes out q st =
     (case locked_pop_out_data F (if ps_accepts st then PQISTREAM_OPTIMAL_PACKET_SIZE else getRsPktMaxSize) out q of
        Inl e \<Rightarrow> Some (Inl e)
      | Inr (out', q') \<Rightarrow>
          (case so_data out' of
             None \<Rightarrow> Some (Inr (True, q', st))
           | Some dta \<Rightarrow>
               (case append_slice out' dta st of
                  Inl e \<Rightarrow> Some (Inl e)
                | Inr (good, st') \<Rightarrow>
                    (if \<not> good then Some (Inr (False, q', st'))
                     else if ps_wpending_size st' < maxbytes \<and> ps_wpending_size st' < PQISTREAM_OPTIMAL_PACKET_SIZE
                     then fill_block F maxbytes out' q' st'
                     else Some (Inr (True, q', st'))))))"

definition no_slice :: slice_out where
  "no_slice = \<lparr>so_data = None, so_size = 0, so_starts = True, so_ends = True, so_id = 0\<rparr>"

definition insert_probe :: "rstime_t \<Rightarrow> 'i streamer \<Rightarrow> 'i streamer" where
  "insert_probe now st =
     (if now > ps_last_probe st + PQISTREAM_PACKET_SLICING_PROBE_DELAY
      then st\<lparr>ps_wpending := Block PACKET_SLICING_PROBE_BYTES, ps_wpending_size := 8, ps_last_probe := now\<rparr>
      else st)"

text \<open>The outer loop; the list has, for each round, the answers to \<^verbatim>\<open>cansend\<close> and \<^verbatim>\<open>senddata\<close>, and the interface
  cannot send when it is exhausted. The bytes that were sent are returned beside the result.\<close>

fun outgoing_loop :: "'f float_ops \<Rightarrow> rstime_t \<Rightarrow> int \<Rightarrow> (bool \<times> int) list \<Rightarrow> u32 \<Rightarrow> bytes \<Rightarrow> 'f pqiQoSstreamer \<Rightarrow>
    'i streamer \<Rightarrow> (fault + int \<times> bytes \<times> 'f pqiQoSstreamer \<times> 'i streamer) option" where
  "outgoing_loop F now maxbytes [] sentbytes sent q st = Some (Inr (0, sent, q, st))"
| "outgoing_loop F now maxbytes ((cansend, ss) # answers) sentbytes sent q st =
     (if \<not> cansend \<or> maxbytes < sint sentbytes then Some (Inr (0, sent, q, st))
      else case (if ps_wpending st = No_block
                 then fill_block F (word_of_int maxbytes) no_slice q (insert_probe now (st\<lparr>ps_wpending_size := 0\<rparr>))
                 else Some (Inr (True, q, st))) of
          None \<Rightarrow> None
        | Some (Inl e) \<Rightarrow> Some (Inl e)
        | Some (Inr (good, q', st')) \<Rightarrow>
            (if \<not> good then Some (Inr (-1, sent, q', st'))
             else case ps_wpending st' of
                 No_block \<Rightarrow> Some (Inr (1, sent, q', st'))
               | Freed_block \<Rightarrow> Some (Inl Use_after_free)
               | Block b \<Rightarrow>
                   (if ps_wpending_size st' \<noteq> word_of_int ss then Some (Inr (-1, sent, q', st'))
                    else outgoing_loop F now maxbytes answers (sentbytes + ps_wpending_size st')
                           (sent @ take (unat (ps_wpending_size st')) b) q'
                           (st'\<lparr>ps_wpending := No_block, ps_wpending_size := 0\<rparr>))))"

definition handleoutgoing_locked :: "'f float_ops \<Rightarrow> rstime_t \<Rightarrow> bool \<Rightarrow> int \<Rightarrow> (bool \<times> int) list \<Rightarrow>
    'f pqiQoSstreamer \<Rightarrow> 'i streamer \<Rightarrow> (fault + int \<times> bytes \<times> 'f pqiQoSstreamer \<times> 'i streamer) option" where
  "handleoutgoing_locked F now active maxbytes answers q st =
     (if \<not> active then
        (if ps_wpending st = Freed_block then Some (Inl Use_after_free)
         else Some (Inr (0, [], locked_clear_out_queue q,
           if ps_wpending st = No_block then st\<lparr>ps_accepts := False\<rparr>
           else st\<lparr>ps_accepts := False, ps_wpending := No_block, ps_wpending_size := 0\<rparr>)))
      else outgoing_loop F now maxbytes answers 0 [] q st)"

subsection \<open>Reading\<close>

text \<open>An answer of \<^verbatim>\<open>readdata\<close>: bytes that it puts into the block, at most as many as were asked for, or a number that says
  that it did not. When the list is exhausted nothing can be read. The number of bytes asked for is an \<^verbatim>\<open>int\<close>:
  for a negative one the interfaces write nothing (\<^verbatim>\<open>SSL_read\<close> fails in \<^verbatim>\<open>pqissl\<close>, which answers -1; the loop of
  \<^verbatim>\<open>RsFdBinInterface\<close> is not entered, which answers 0) and what has arrived stays to be read.\<close>

datatype bio_read = Delivers bytes | Returns int

fun readdata :: "nat \<Rightarrow> int \<Rightarrow> bio_read list \<Rightarrow> bytes \<Rightarrow> fault + int \<times> bio_read list \<times> bytes" where
  "readdata pos len [] block = Inr (-1, [], block)"
| "readdata pos len (Returns n # reads) block = Inr (n, reads, block)"
| "readdata pos len (Delivers bs # reads) block =
     (if len < 0 then Inr (-1, Delivers bs # reads, block)
      else let got = take (nat len) bs in
      case poke (Some block) pos got of
        Some (Some block') \<Rightarrow> Inr (int (length got), reads, block')
      | _ \<Rightarrow> Inl Out_of_block)"

text \<open>The part from \<^verbatim>\<open>start_packet_read\<close>. A number is what \<^verbatim>\<open>handleincoming\<close> returns at once.\<close>

definition start_packet :: "bio_read list \<Rightarrow> 'i streamer \<Rightarrow> fault + int option \<times> bio_read list \<times> 'i streamer" where
  "start_packet reads st =
     (case poke (Some (ps_rpending st)) 0 (replicate 8 0) of
        Some (Some block) \<Rightarrow>
          (case readdata 0 8 reads block of
             Inl e \<Rightarrow> Inl e
           | Inr (tmplen, reads', block') \<Rightarrow>
               (let st1 = st\<lparr>ps_rpending := block'\<rparr> in
                if tmplen \<noteq> 8 then Inr (Some (if tmplen \<le> 0 then 0 else -1), reads', st1)
                else if take 8 block' = PACKET_SLICING_PROBE_BYTES
                then Inr (Some 0, reads', st1\<lparr>ps_accepts := True, ps_started := False, ps_failed := 0\<rparr>)
                else Inr (None, reads', st1\<lparr>ps_started := True, ps_failed := 0\<rparr>)))
      | _ \<Rightarrow> Inl Out_of_block)"

definition is_slice_header :: "bytes \<Rightarrow> bool" where
  "is_slice_header block =
     (block ! 0 = PQISTREAM_SLICE_PROTOCOL_VERSION_ID_01 \<and>
      (block ! 1 = PQISTREAM_SLICE_FLAG_STARTS \<or> block ! 1 = 0 \<or> block ! 1 = PQISTREAM_SLICE_FLAG_ENDS))"

definition header_extralen :: "bytes \<Rightarrow> u32" where
  "header_extralen block =
     (if is_slice_header block then push_bit 8 (ucast (block ! 6)) + ucast (block ! 7)
      else getRsItemSize block - getRsPktBaseSize)"

definition header_packet_id :: "bytes \<Rightarrow> u32" where
  "header_packet_id block = push_bit 24 (ucast (block ! 2)) + push_bit 16 (ucast (block ! 3)) +
     push_bit 8 (ucast (block ! 4)) + ucast (block ! 5)"

text \<open>A packet that is complete in the block.\<close>

definition finish_packet :: "(bytes \<Rightarrow> 'i option) \<Rightarrow> u32 \<Rightarrow> 'i streamer \<Rightarrow> fault + 'i streamer" where
  "finish_packet deserialise pktlen st =
     (let block = ps_rpending st;
          deliver = (\<lambda>x t. (case x of
              None \<Rightarrow> st\<lparr>ps_partial := t, ps_started := False, ps_failed := 0\<rparr>
            | Some pkt \<Rightarrow> st\<lparr>ps_partial := t, ps_incoming := ps_incoming st @ [pkt], ps_started := False, ps_failed := 0\<rparr>))
      in if is_slice_header block then
           (case addPartialPacket block pktlen (header_packet_id block)
                   (block ! 1 = PQISTREAM_SLICE_FLAG_STARTS) (block ! 1 = PQISTREAM_SLICE_FLAG_ENDS) (ps_partial st) of
              Inl e \<Rightarrow> Inl e
            | Inr (None, t) \<Rightarrow> Inr (deliver None t)
            | Inr (Some mem, t) \<Rightarrow> Inr (deliver (deserialise mem) t))
         else Inr (deliver (deserialise (take (unat pktlen) block)) (ps_partial st)))"

definition max_failed_read_attempts :: int where
  "max_failed_read_attempts = 2000"

text \<open>The part from \<^verbatim>\<open>continue_packet\<close>. Beside the state, the number of further bytes that were read.\<close>

definition continue_packet :: "(bytes \<Rightarrow> 'i option) \<Rightarrow> bio_read list \<Rightarrow> 'i streamer \<Rightarrow>
    fault + (int option \<times> u32) \<times> bio_read list \<times> 'i streamer" where
  "continue_packet deserialise reads st =
     (let block = ps_rpending st;
          extralen = header_extralen block;
          st0 = (if is_slice_header block then st\<lparr>ps_accepts := True\<rparr> else st);
          close = st0\<lparr>ps_closed := True, ps_started := False, ps_failed := 0\<rparr>
      in if extralen + getRsPktBaseSize > of_nat (length block) then Inr ((Some (-1), 0), reads, close)
         else case (if extralen > 0 then readdata 8 (sint extralen) reads block else Inr (0, reads, block)) of
             Inl e \<Rightarrow> Inl e
           | Inr (tmplen, reads', block') \<Rightarrow>
               (let st1 = st0\<lparr>ps_rpending := block'\<rparr> in
                if extralen > 0 \<and> word_of_int tmplen \<noteq> extralen then
                  (if ps_failed st1 + 1 > max_failed_read_attempts
                   then Inr ((Some (-1), 0), reads', close\<lparr>ps_rpending := block'\<rparr>)
                   else Inr ((Some 0, 0), reads', st1\<lparr>ps_failed := ps_failed st1 + 1\<rparr>))
                else case finish_packet deserialise (getRsPktBaseSize + extralen) (st1\<lparr>ps_failed := 0\<rparr>) of
                    Inl e \<Rightarrow> Inl e
                  | Inr st2 \<Rightarrow> Inr ((None, extralen), reads', st2)))"

definition read_packet :: "(bytes \<Rightarrow> 'i option) \<Rightarrow> bio_read list \<Rightarrow> 'i streamer \<Rightarrow>
    fault + (int option \<times> u32) \<times> bio_read list \<times> 'i streamer" where
  "read_packet deserialise reads st =
     (if ps_started st then continue_packet deserialise reads st
      else case start_packet reads st of
          Inl e \<Rightarrow> Inl e
        | Inr (Some r, reads', st1) \<Rightarrow> Inr ((Some r, 0), reads', st1)
        | Inr (None, reads', st1) \<Rightarrow>
            (case continue_packet deserialise reads' st1 of
               Inl e \<Rightarrow> Inl e
             | Inr ((r, n), x) \<Rightarrow> Inr ((r, n + 8), x)))"

text \<open>The loop goes on while \<^verbatim>\<open>moretoread\<close> answers so; its answers are the list \<open>mores\<close>.\<close>

fun incoming_loop :: "(bytes \<Rightarrow> 'i option) \<Rightarrow> int \<Rightarrow> u32 \<Rightarrow> bool list \<Rightarrow> bio_read list \<Rightarrow> 'i streamer \<Rightarrow>
    fault + int \<times> bio_read list \<times> 'i streamer" where
  "incoming_loop deserialise maxin readbytes mores reads st =
     (case read_packet deserialise reads st of
        Inl e \<Rightarrow> Inl e
      | Inr ((Some r, n), reads', st') \<Rightarrow> Inr (r, reads', st')
      | Inr ((None, n), reads', st') \<Rightarrow>
          (case mores of
             [] \<Rightarrow> Inr (0, reads', st')
           | m # mores' \<Rightarrow>
               (if maxin > sint (readbytes + n) \<and> m then incoming_loop deserialise maxin (readbytes + n) mores' reads' st'
                else Inr (0, reads', st'))))"

declare incoming_loop.simps [simp del]

definition free_pend :: "'f pqiQoSstreamer \<Rightarrow> 'i streamer \<Rightarrow> fault + 'f pqiQoSstreamer \<times> 'i streamer" where
  "free_pend q st =
     (if ps_wpending st = Freed_block then Inl Use_after_free
      else Inr (locked_clear_out_queue q,
        st\<lparr>ps_rpending := [], ps_wpending := No_block, ps_wpending_size := 0, ps_partial := []\<rparr>))"

text \<open>An empty read block stands for the null pointer.\<close>

definition allocate_rpend :: "'i streamer \<Rightarrow> 'i streamer" where
  "allocate_rpend st =
     (if ps_rpending st \<noteq> [] then st else st\<lparr>ps_rpending := replicate (unat getRsPktMaxSize) 0\<rparr>)"

definition handleincoming :: "(bytes \<Rightarrow> 'i option) \<Rightarrow> bool \<Rightarrow> int \<Rightarrow> bool list \<Rightarrow> bio_read list \<Rightarrow> 'f pqiQoSstreamer \<Rightarrow>
    'i streamer \<Rightarrow> fault + int \<times> bio_read list \<times> 'f pqiQoSstreamer \<times> 'i streamer" where
  "handleincoming deserialise active maxin mores reads q st =
     (if \<not> active then
        (case free_pend q (st\<lparr>ps_started := False\<rparr>) of
           Inl e \<Rightarrow> Inl e
         | Inr (q', st') \<Rightarrow> Inr (0, reads, q', st'))
      else (case incoming_loop deserialise maxin 0 mores reads (allocate_rpend st) of
              Inl e \<Rightarrow> Inl e
            | Inr (r, reads', st') \<Rightarrow> Inr (r, reads', q, st')))"

subsection \<open>The calls of the stream's owner\<close>

definition make_pqistreamer :: "'i streamer" where
  "make_pqistreamer = \<lparr>ps_wpending = No_block, ps_wpending_size = 0, ps_accepts = False, ps_last_probe = 0,
     ps_rpending = [], ps_started = False, ps_failed = 0, ps_partial = [], ps_incoming = [], ps_closed = False\<rparr>"

definition GetItem :: "'i streamer \<Rightarrow> 'i option \<times> 'i streamer" where
  "GetItem st = (case ps_incoming st of [] \<Rightarrow> (None, st) | i # is \<Rightarrow> (Some i, st\<lparr>ps_incoming := is\<rparr>))"

text \<open>The serialiser is an argument: the size it announces, and what it writes into a block of that size,
  with the size that it leaves in its last parameter. The result is that of the call, with \<open>pktsize\<close>.\<close>

definition queue_outpqi_locked :: "('i \<Rightarrow> u32) \<Rightarrow> ('i \<Rightarrow> u32 \<Rightarrow> (bytes \<times> u32) option) \<Rightarrow> ('i \<Rightarrow> u32) \<Rightarrow> 'i \<Rightarrow>
    'f pqiQoSstreamer \<Rightarrow> fault + (int \<times> u32) \<times> 'f pqiQoSstreamer" where
  "queue_outpqi_locked ser_size serialise priority_level pqi q =
     (let pktsize = ser_size pqi in
      case rs_malloc (unat pktsize) of
        Inl e \<Rightarrow> Inl e
      | Inr _ \<Rightarrow>
          (case serialise pqi pktsize of
             None \<Rightarrow> Inr ((1, pktsize), q)
           | Some (ptr, pktsize') \<Rightarrow>
               (case locked_storeInOutputQueue ptr pktsize' (priority_level pqi) q of
                  Inl e \<Rightarrow> Inl e
                | Inr q' \<Rightarrow> Inr ((1, pktsize'), q'))))"

definition pqistreamer_reset :: "'f pqiQoSstreamer \<Rightarrow> 'i streamer \<Rightarrow> fault + 'f pqiQoSstreamer \<times> 'i streamer" where
  "pqistreamer_reset q st = free_pend q st"

text \<open>\<open>active\<close> is what \<^verbatim>\<open>isactive\<close> answers to \<^verbatim>\<open>handleincoming\<close>, \<open>active'\<close> what it answers afterwards.\<close>

definition tick_recv :: "(bytes \<Rightarrow> 'i option) \<Rightarrow> bool \<Rightarrow> bool \<Rightarrow> bool \<Rightarrow> int \<Rightarrow> bool list \<Rightarrow> bio_read list \<Rightarrow>
    'f pqiQoSstreamer \<Rightarrow> 'i streamer \<Rightarrow> fault + 'f pqiQoSstreamer \<times> 'i streamer" where
  "tick_recv deserialise moretoread active active' maxin mores reads q st =
     (case (if moretoread then handleincoming deserialise active maxin mores reads q st else Inr (0, reads, q, st)) of
        Inl e \<Rightarrow> Inl e
      | Inr (_, _, q1, st1) \<Rightarrow> (if active' then Inr (q1, st1) else free_pend q1 st1))"

definition tick_send :: "'f float_ops \<Rightarrow> rstime_t \<Rightarrow> bool \<Rightarrow> bool \<Rightarrow> bool \<Rightarrow> int \<Rightarrow> (bool \<times> int) list \<Rightarrow>
    'f pqiQoSstreamer \<Rightarrow> 'i streamer \<Rightarrow> (fault + int \<times> bytes \<times> 'f pqiQoSstreamer \<times> 'i streamer) option" where
  "tick_send F now active cansend active' maxbytes answers q st =
     (if \<not> active then
        (case free_pend q st of Inl e \<Rightarrow> Some (Inl e) | Inr (q', st') \<Rightarrow> Some (Inr (0, [], q', st')))
      else if \<not> cansend then Some (Inr (1, [], q, st))
      else (case handleoutgoing_locked F now active' maxbytes answers q st of
              Some (Inr (_, x)) \<Rightarrow> Some (Inr (1, x))
            | e \<Rightarrow> e))"

end
