(* ===== verification/Stream_Read.thy ===== *)
theory Stream_Read
  imports Qos_Join Pqi_Streamer
begin

text \<open>
  The wire format of \<^verbatim>\<open>pqistreamer\<close>: a slice or packet that \<^verbatim>\<open>handleoutgoing_locked\<close> puts into the block is
  read back by the loop of \<^verbatim>\<open>handleincoming\<close>, and \<^verbatim>\<open>addPartialPacket\<close> does with it what \<open>join\<close> says.
\<close>

subsection \<open>The header of a slice\<close>

lemma unat_widen: "unat (ucast (b :: u8) :: u32) = unat b"
  by (simp add: unsigned_ucast_eq take_bit_nat_eq_self unat_lt_pow [THEN order.strict_trans2])

lemma shifted_byte: "n \<le> 24 \<Longrightarrow> unat (push_bit n (ucast (b :: u8)) :: u32) = 2 ^ n * unat b"
proof -
  assume n: "n \<le> 24"
  have "unat b < 256" using unat_lt_pow [of b] by simp
  then have "2 ^ n * unat b < 2 ^ n * 256" by simp
  also have "\<dots> \<le> 2 ^ 24 * 256" using n by (intro mult_le_mono1 power_increasing) auto
  finally show ?thesis
    unfolding unsigned_push_bit_eq unat_widen by (simp add: take_bit_eq_mod push_bit_eq_mult mult.commute)
qed

lemma byte_of_shifted: "unat (ucast (drop_bit n (w :: u32)) :: u8) = unat w div 2 ^ n mod 256"
  unfolding unsigned_ucast_eq unsigned_drop_bit_eq using unat_lt_pow [of w] by (simp add: take_bit_eq_mod drop_bit_eq_div)

lemma byte_of: "unat (ucast (w :: u32) :: u8) = unat w mod 256"
  using byte_of_shifted [of 0 w] by simp

lemma bytes_of_word:
  assumes "n < 4294967296"
  shows "16777216 * (n div 16777216 mod 256) + 65536 * (n div 65536 mod 256) + 256 * (n div 256 mod 256) + n mod 256 = (n::nat)"
proof -
  define a b c where "a = n div 256" and "b = a div 256" and "c = b div 256"
  have d: "n div 65536 = b" "n div 16777216 = c" by (simp_all add: a_def b_def c_def flip: div_mult2_eq)
  have "n = 256 * a + n mod 256" "a = 256 * b + a mod 256" "b = 256 * c + b mod 256"
    unfolding a_def b_def c_def by (rule mult_div_mod_eq [symmetric])+
  moreover have "c mod 256 = c" using assms by (simp add: a_def b_def c_def)
  ultimately show ?thesis unfolding a_def [symmetric] d by linarith
qed

lemma size_bytes: "sz \<le> 0xffff \<Longrightarrow> push_bit 8 (ucast (ucast (drop_bit 8 sz) :: u8)) + ucast (ucast sz :: u8) = (sz :: u32)"
  unfolding word_unat_eq_iff unat_word_ariths unat_widen shifted_byte [of 8, simplified] byte_of_shifted
  unfolding byte_of by (simp add: word_le_nat_alt)

lemma id_bytes: "push_bit 24 (ucast (ucast (drop_bit 24 w) :: u8)) + push_bit 16 (ucast (ucast (drop_bit 16 w) :: u8)) +
    push_bit 8 (ucast (ucast (drop_bit 8 w) :: u8)) + ucast (ucast w :: u8) = (w :: u32)"
proof -
  note s = shifted_byte [of 24] shifted_byte [of 16] shifted_byte [of 8]
  note s = s [simplified]
  show ?thesis
  unfolding word_unat_eq_iff unat_word_ariths unat_widen s byte_of_shifted unfolding byte_of
  using bytes_of_word [of "unat w"] unat_lt_pow [of w] by simp
qed
subsection \<open>The table of partial packets\<close>

definition parts :: "(u32, PartialPacketRecord) std_map \<Rightarrow> u32 \<rightharpoonup> bytes" where
  "parts T = (\<lambda>pid. map_option pr_mem (map_of T pid))"

definition parts_ok :: "(u32, PartialPacketRecord) std_map \<Rightarrow> bool" where
  "parts_ok T = (\<forall>pid r. map_of T pid = Some r \<longrightarrow> unat (pr_size r) = length (pr_mem r))"

lemma parts_put [simp]: "parts (map_put k r T) = (parts T)(k \<mapsto> pr_mem r)"
  by (auto simp: parts_def)

lemma parts_erase [simp]: "parts (map_erase k T) = (parts T)(k := None)"
  by (auto simp: parts_def)

lemma parts_ok_put: "parts_ok T \<Longrightarrow> unat (pr_size r) = length (pr_mem r) \<Longrightarrow> parts_ok (map_put k r T)"
  by (simp add: parts_ok_def)

lemma parts_ok_erase: "parts_ok T \<Longrightarrow> parts_ok (map_erase k T)"
  by (simp add: parts_ok_def)

text \<open>A slice that is not a whole packet, as the sender makes them.\<close>

definition part_slice :: "slice_out \<Rightarrow> bytes \<Rightarrow> bool" where
  "part_slice out d = (so_data out = Some d \<and> \<not> (so_starts out \<and> so_ends out) \<and>
     0 < length d \<and> length d \<le> 0xffff \<and> unat (so_size out) = length d)"

lemma slice_rs_malloc: "0 < n \<Longrightarrow> n \<le> 0xffff \<Longrightarrow> rs_malloc n = Inr ()"
  by (simp add: rs_malloc_def)

lemma addPartialPacket_joins:
  assumes p: "part_slice out d" and b: "take (length d) (drop 8 block) = d" "length d + 8 \<le> length block"
    and T: "parts_ok T" and room: "\<And>x. parts T (so_id out) = Some x \<Longrightarrow> length x < 2 ^ 31"
  shows "\<exists>T'. addPartialPacket block (8 + so_size out) (so_id out) (so_starts out) (so_ends out) T =
      Inr (fst (join out (parts T)), T') \<and> parts T' = snd (join out (parts T)) \<and> parts_ok T'"
proof -
  have d: "so_data out = Some d" "\<not> (so_starts out \<and> so_ends out)" "0 < length d" "length d \<le> 0xffff"
    "unat (so_size out) = length d" using p by (simp_all add: part_slice_def)
  have pk: "peek (Some block) 8 (length d) = Some d" using b by simp
  note unfold = addPartialPacket_def Let_def add_diff_cancel_left' d(5) pk slice_rs_malloc [OF d(3,4)]
  show ?thesis
  proof (cases "map_of T (so_id out)")
    case None
    then have n: "parts T (so_id out) = None" by (simp add: parts_def)
    show ?thesis
    proof (cases "so_starts out")
      case True
      then show ?thesis using None d(1-4) T unfolding unfold by (simp add: join_def parts_ok_put d(5))
    next
      case False
      then show ?thesis using None n d T unfolding unfold by (simp add: join_def)
    qed
  next
    case (Some r0)
    define r where "r = (if so_starts out then \<lparr>pr_mem = [], pr_size = 0\<rparr> else r0)"
    have r: "unat (pr_size r) = length (pr_mem r)" "length (pr_mem r) < 2 ^ 31"
      using T Some room [of "pr_mem r0"] by (auto simp: r_def parts_ok_def parts_def)
    have sum: "unat (pr_size r + so_size out) = length (pr_mem r) + length d"
      using r d by (subst unat_add_u32_id) auto
    have m: "resized (pr_mem r) (length (pr_mem r) + length d) = pr_mem r @ replicate (length d) 0"
      by (simp add: resized_def)
    have pk': "poke (Some (pr_mem r @ replicate (length d) 0)) (length (pr_mem r)) d = Some (Some (pr_mem r @ d))"
      by (simp add: overwrite_def)
    have part: "parts T (so_id out) = Some (pr_mem r0)" using Some by (simp add: parts_def)
    have "addPartialPacket block (8 + so_size out) (so_id out) (so_starts out) (so_ends out) T =
      (if so_ends out then Inr (Some (pr_mem r @ d), map_erase (so_id out) T)
       else Inr (None, map_put (so_id out) \<lparr>pr_mem = pr_mem r @ d, pr_size = pr_size r + so_size out\<rparr> T))"
      unfolding unfold using d(2) Some sum m r(1) pk'
      by (cases "so_starts out") (simp_all add: r_def del: poke.simps)
    then show ?thesis using T d part sum
      by (cases "so_starts out") (auto simp: join_def r_def parts_ok_put parts_ok_erase)
  qed
qed

subsection \<open>Reading a packet\<close>

lemma header_prefix:
  assumes "take 8 b = take 8 w" "8 \<le> length b" "8 \<le> length w"
  shows "is_slice_header b = is_slice_header w" "header_extralen b = header_extralen w"
    "header_packet_id b = header_packet_id w" "b ! 1 = w ! 1"
proof -
  have n: "b ! i = w ! i" if "i < 8" for i using that assms(1) by (metis nth_take)
  show h: "is_slice_header b = is_slice_header w" "header_packet_id b = header_packet_id w" "b ! 1 = w ! 1"
    by (simp_all add: is_slice_header_def header_packet_id_def n)
  have "take 4 (drop 4 b) = take 4 (drop 4 w)"
    using arg_cong [OF assms(1), of "drop 4"] by (simp add: drop_take)
  then have "getRsItemSize b = getRsItemSize w"
    using assms(2,3) by (simp add: getRsItemSize_def getRawUInt32_def)
  then show "header_extralen b = header_extralen w" by (simp add: header_extralen_def h n)
qed

definition ready :: "'i streamer \<Rightarrow> bool" where
  "ready st = (\<not> ps_started st \<and> length (ps_rpending st) = unat getRsPktMaxSize)"

lemma max_size: "unat getRsPktMaxSize = 262143" "unat getRsPktBaseSize = 8"
  by (simp_all add: getRsPktMaxSize_def MAX_SERIAL_SIZE_def getRsPktBaseSize_def)

text \<open>The bytes of a packet or slice, whose header says how long it is.\<close>

definition unit_ok :: "bytes \<Rightarrow> bool" where
  "unit_ok w = (8 \<le> length w \<and> length w \<le> unat getRsPktMaxSize \<and> take 8 w \<noteq> PACKET_SLICING_PROBE_BYTES \<and>
     header_extralen w = of_nat (length w - 8))"

text \<open>Its header has been read.\<close>

definition started :: "bytes \<Rightarrow> 'i streamer \<Rightarrow> bool" where
  "started w st = (ps_started st \<and> length (ps_rpending st) = unat getRsPktMaxSize \<and> take 8 (ps_rpending st) = take 8 w)"

lemma start_blocked:
  assumes "ready st"
  shows "\<exists>st'. start_packet (Returns (-1) # rest) st = Inr (Some 0, rest, st') \<and> ready st' \<and>
    ps_partial st' = ps_partial st \<and> ps_incoming st' = ps_incoming st"
  using assms by (simp add: start_packet_def ready_def max_size)

lemma start_empty:
  assumes "ready st"
  shows "\<exists>st'. start_packet [] st = Inr (Some 0, [], st') \<and> ready st' \<and>
    ps_partial st' = ps_partial st \<and> ps_incoming st' = ps_incoming st"
  using assms by (simp add: start_packet_def ready_def max_size)

lemma start_probe:
  assumes "ready st"
  shows "\<exists>st'. start_packet (Delivers PACKET_SLICING_PROBE_BYTES # rest) st = Inr (Some 0, rest, st') \<and> ready st' \<and>
    ps_partial st' = ps_partial st \<and> ps_incoming st' = ps_incoming st"
  using assms by (simp add: start_packet_def ready_def max_size Let_def PACKET_SLICING_PROBE_BYTES_def overwrite_def)

lemma start_unit:
  assumes "ready st" "unit_ok w"
  shows "\<exists>st'. start_packet (Delivers (take 8 w) # rest) st = Inr (None, rest, st') \<and> started w st' \<and> ps_failed st' = 0 \<and>
    ps_partial st' = ps_partial st \<and> ps_incoming st' = ps_incoming st"
  using assms by (simp add: start_packet_def ready_def started_def unit_ok_def max_size Let_def overwrite_def)

lemma started_header:
  assumes "started w st" "unit_ok w"
  shows "header_extralen (ps_rpending st) = of_nat (length w - 8)"
    and "\<not> (of_nat (length w - 8) + getRsPktBaseSize > (of_nat (length (ps_rpending st)) :: u32))"
    and "unat (of_nat (length w - 8) :: u32) = length w - 8"
    and "getRsPktBaseSize + of_nat (length w - 8) = (of_nat (length w) :: u32)"
proof -
  have l: "8 \<le> length w" "length w \<le> 262143" "length (ps_rpending st) = 262143" and t: "take 8 (ps_rpending st) = take 8 w"
    using assms by (simp_all add: unit_ok_def started_def max_size)
  show "header_extralen (ps_rpending st) = of_nat (length w - 8)"
    using header_prefix(2) [OF t] l assms(2) by (simp add: unit_ok_def)
  show whole: "getRsPktBaseSize + of_nat (length w - 8) = (of_nat (length w) :: u32)"
    using l by (simp add: getRsPktBaseSize_def of_nat_diff)
  show "\<not> (of_nat (length w - 8) + getRsPktBaseSize > (of_nat (length (ps_rpending st)) :: u32))"
    unfolding add.commute [of _ getRsPktBaseSize] whole using l by (simp add: word_less_nat_alt unat_of_nat)
  show "unat (of_nat (length w - 8) :: u32) = length w - 8" using l by (simp add: unat_of_nat del: of_nat_diff)
qed

text \<open>A length that is not negative arrives at the interface as it is.\<close>

lemma shifted_sign:
  assumes "n < 4294967296"
  shows "(int n + 2147483648) mod 4294967296 - 2147483648 = (if n < 2147483648 then int n else int n - 4294967296)"
proof (cases "n < 2147483648")
  case False
  then have "(int n + 2147483648) mod 4294967296 = (int n + 2147483648 - 4294967296) mod 4294967296"
    by (simp only: minus_mod_self2)
  also have "\<dots> = int n + 2147483648 - 4294967296" using assms False by (intro mod_pos_pos_trivial) linarith+
  finally show ?thesis using False by simp
qed (use assms in \<open>simp add: mod_pos_pos_trivial\<close>)

lemma sint_of_length: "sint (e :: u32) = (if unat e < 2147483648 then int (unat e) else int (unat e) - 4294967296)"
proof -
  have "sint e = signed_take_bit 31 (uint e)" by (simp add: sint_uint)
  also have "\<dots> = take_bit 32 (uint e + 2147483648) - 2147483648"
    using signed_take_bit_eq_take_bit_shift [of 31 "uint e"] by simp
  also have "\<dots> = (int (unat e) + 2147483648) mod 4294967296 - 2147483648"
    unfolding take_bit_eq_mod by simp
  finally show ?thesis using shifted_sign [of "unat e"] unat_lt_pow [of e] by simp
qed

lemma continue_blocked:
  assumes s: "started w st" "unit_ok w" and l: "length w > 8" and f: "ps_failed st < max_failed_read_attempts"
    and reads: "reads = Returns (-1) # rest \<or> reads = [] \<and> rest = []"
  shows "\<exists>st'. continue_packet deserialise reads st = Inr ((Some 0, 0), rest, st') \<and> started w st' \<and>
    ps_failed st' = ps_failed st + 1 \<and> ps_partial st' = ps_partial st \<and> ps_incoming st' = ps_incoming st"
proof -
  define e :: u32 where "e = of_nat (length w - 8)"
  note h = started_header [OF s, folded e_def]
  have pos: "e > 0" using l h(3) by (simp add: word_less_nat_alt)
  have rd: "readdata 8 (sint e) reads (ps_rpending st) = Inr (-1, rest, ps_rpending st)" using reads by auto
  have "e \<noteq> -1"
  proof
    assume "e = -1"
    then have "unat e = 4294967295" by (simp add: unsigned_minus_1_eq_mask mask_eq_exp_minus_1)
    then show False using h(3) s(2) by (auto simp: unit_ok_def max_size)
  qed
  then show ?thesis
    using h(2) pos rd f s(1) by (simp add: continue_packet_def Let_def h(1) started_def)
qed

text \<open>The block with the whole packet in it.\<close>

definition holds :: "bytes \<Rightarrow> 'i streamer \<Rightarrow> bool" where
  "holds w st = (length (ps_rpending st) = unat getRsPktMaxSize \<and> take (length w) (ps_rpending st) = w)"

lemma continue_unit:
  assumes s: "started w st" "unit_ok w"
    and reads: "reads = (if length w > 8 then [Delivers (drop 8 w)] else []) @ rest"
  shows "\<exists>st1. continue_packet deserialise reads st =
      (case finish_packet deserialise (of_nat (length w)) st1 of
         Inl e \<Rightarrow> Inl e | Inr st' \<Rightarrow> Inr ((None, of_nat (length w - 8)), rest, st')) \<and>
    holds w st1 \<and> ps_partial st1 = ps_partial st \<and> ps_incoming st1 = ps_incoming st"
proof -
  define e :: u32 where "e = of_nat (length w - 8)"
  note h = started_header [OF s, folded e_def]
  let ?b = "ps_rpending st"
  define st0 where "st0 = (if is_slice_header ?b then st\<lparr>ps_accepts := True\<rparr> else st)"
  have st0: "ps_partial st0 = ps_partial st" "ps_incoming st0 = ps_incoming st" "ps_rpending st0 = ?b" by (simp_all add: st0_def)
  have l: "8 \<le> length w" "length w \<le> 262143" "length ?b = 262143" and t: "take 8 ?b = take 8 w"
    using s by (simp_all add: unit_ok_def started_def max_size)
  show ?thesis
  proof (cases "length w > 8")
    case True
    then have pos: "e > 0" using h(3) by (simp add: word_less_nat_alt)
    define b' where "b' = overwrite ?b 8 (drop 8 w)"
    have se: "sint e = int (length w - 8)" unfolding sint_of_length h(3) using l by simp
    have rd: "readdata 8 (sint e) reads ?b = Inr (int (length w - 8), rest, b')"
      using True l by (simp add: reads se b'_def Let_def)
    have b': "length b' = 262143" "take (length w) b' = w"
      using l t by (simp_all add: b'_def overwrite_def)
    show ?thesis
      using h(2) pos rd b' st0 unfolding e_def [symmetric]
      by (intro exI [of _ "st0\<lparr>ps_rpending := b', ps_failed := 0\<rparr>"])
        (simp add: continue_packet_def Let_def h(1,4) holds_def max_size st0_def [symmetric] e_def [symmetric] split: sum.split)
  next
    case False
    then have "length w = 8" "e = 0" using l by (simp_all add: e_def)
    then show ?thesis
      using h(2) st0 reads l t unfolding e_def [symmetric]
      by (intro exI [of _ "st0\<lparr>ps_rpending := ?b, ps_failed := 0\<rparr>"])
        (simp add: continue_packet_def Let_def h(1) holds_def max_size st0_def [symmetric] getRsPktBaseSize_def split: sum.split)
  qed
qed

subsection \<open>Reading a slice\<close>

definition wire :: "slice_out \<Rightarrow> bytes \<Rightarrow> bytes" where
  "wire out d = (if so_starts out \<and> so_ends out then d else slice_header out @ d)"

text \<open>A packet that can be sent as it is: its length field is right, it is not too long for the receiver, and
  it does not look like a slice or a probe.\<close>

definition packet_ok :: "bytes \<Rightarrow> bool" where
  "packet_ok d = (8 \<le> length d \<and> length d \<le> unat getRsPktMaxSize \<and> getRsItemSize d = of_nat (length d) \<and>
     \<not> is_slice_header d \<and> take 8 d \<noteq> PACKET_SLICING_PROBE_BYTES)"

definition good_slice :: "slice_out \<Rightarrow> bytes \<Rightarrow> bool" where
  "good_slice out d = (if so_starts out \<and> so_ends out then so_data out = Some d \<and> packet_ok d else part_slice out d)"

definition decoded :: "(bytes \<Rightarrow> 'i option) \<Rightarrow> bytes option \<Rightarrow> 'i list" where
  "decoded deserialise r = (case r of None \<Rightarrow> [] | Some d \<Rightarrow> (case deserialise d of None \<Rightarrow> [] | Some i \<Rightarrow> [i]))"

lemma length_slice_header [simp]: "length (slice_header out) = 8"
  by (simp add: slice_header_def Let_def)

lemma slice_header_reads:
  assumes "\<not> (so_starts out \<and> so_ends out)" "so_size out \<le> 0xffff"
  shows "is_slice_header (slice_header out @ d)" "header_extralen (slice_header out @ d) = so_size out"
    "header_packet_id (slice_header out @ d) = so_id out"
    "(slice_header out @ d) ! 1 = PQISTREAM_SLICE_FLAG_STARTS \<longleftrightarrow> so_starts out"
    "(slice_header out @ d) ! 1 = PQISTREAM_SLICE_FLAG_ENDS \<longleftrightarrow> so_ends out"
proof -
  show h: "is_slice_header (slice_header out @ d)" "(slice_header out @ d) ! 1 = PQISTREAM_SLICE_FLAG_STARTS \<longleftrightarrow> so_starts out"
    "(slice_header out @ d) ! 1 = PQISTREAM_SLICE_FLAG_ENDS \<longleftrightarrow> so_ends out"
    using assms(1) by (auto simp: is_slice_header_def slice_header_def Let_def)
  have e: "(slice_header out @ d) ! 2 = ucast (drop_bit 24 (so_id out))" "(slice_header out @ d) ! 3 = ucast (drop_bit 16 (so_id out))"
    "(slice_header out @ d) ! 4 = ucast (drop_bit 8 (so_id out))" "(slice_header out @ d) ! 5 = ucast (so_id out)"
    "(slice_header out @ d) ! 6 = ucast (drop_bit 8 (so_size out))" "(slice_header out @ d) ! 7 = ucast (so_size out)"
    by (simp_all add: slice_header_def Let_def)
  show "header_extralen (slice_header out @ d) = so_size out"
    unfolding header_extralen_def e size_bytes [OF assms(2)] using h(1) by simp
  show "header_packet_id (slice_header out @ d) = so_id out"
    unfolding header_packet_id_def e by (rule id_bytes)
qed

lemma good_slice_unit:
  assumes g: "good_slice out d"
  shows "unit_ok (wire out d)"
proof (cases "so_starts out \<and> so_ends out")
  case True
  then have "packet_ok d" "wire out d = d" using g by (simp_all add: good_slice_def wire_def)
  then show ?thesis by (simp add: packet_ok_def unit_ok_def header_extralen_def getRsPktBaseSize_def)
next
  case False
  then have p: "part_slice out d" "wire out d = slice_header out @ d" using g by (auto simp: good_slice_def wire_def)
  then have d: "length d \<le> 0xffff" "unat (so_size out) = length d" by (simp_all add: part_slice_def)
  have sz: "so_size out \<le> 0xffff" using d by (simp add: word_le_nat_alt)
  have "so_size out = of_nat (length d)" using d(2) by (rule word_of_unat)
  then show ?thesis
    using slice_header_reads(2) [OF False sz, of d] d(1)
    by (simp add: unit_ok_def p(2) max_size) (simp add: slice_header_def Let_def PACKET_SLICING_PROBE_BYTES_def)
qed

text \<open>What \<^verbatim>\<open>handleincoming\<close> does with a complete packet or slice is what \<open>join\<close> says.\<close>

lemma finish_slice:
  assumes h: "holds (wire out d) st" and T: "parts_ok (ps_partial st)" and g: "good_slice out d"
    and room: "\<And>x. parts (ps_partial st) (so_id out) = Some x \<Longrightarrow> length x < 2 ^ 31"
  shows "\<exists>st'. finish_packet deserialise (of_nat (length (wire out d))) st = Inr st' \<and> ready st' \<and>
      parts_ok (ps_partial st') \<and> parts (ps_partial st') = snd (join out (parts (ps_partial st))) \<and>
      ps_incoming st' = ps_incoming st @ decoded deserialise (fst (join out (parts (ps_partial st))))"
proof (cases "so_starts out \<and> so_ends out")
  case True
  then have d: "so_data out = Some d" "packet_ok d" "wire out d = d" using g by (simp_all add: good_slice_def wire_def)
  then have l: "8 \<le> length d" "length d \<le> 262143" and nh: "\<not> is_slice_header d" by (simp_all add: packet_ok_def max_size)
  define b where "b = ps_rpending st"
  have b: "take (length d) b = d" "length b = 262143" using h d(3) by (simp_all add: holds_def b_def max_size)
  have "take 8 b = take 8 (take (length d) b)" using l by simp
  then have "take 8 b = take 8 d" unfolding b(1) .
  then have nb: "\<not> is_slice_header b" using header_prefix(1) [of b d] nh b(2) l by simp
  have un: "unat (of_nat (length d) :: u32) = length d" using l by (simp add: unat_of_nat)
  have "join out (parts (ps_partial st)) = (Some d, parts (ps_partial st))" using True d by (simp add: join_def)
  moreover obtain st' where "finish_packet deserialise (of_nat (length d)) st = Inr st'"
    "ready st'" "ps_partial st' = ps_partial st" "ps_incoming st' = ps_incoming st @ decoded deserialise (Some d)"
    using nb b by (cases "deserialise d")
      (simp_all add: finish_packet_def Let_def un ready_def decoded_def max_size b_def [symmetric])
  ultimately show ?thesis unfolding d(3) using T by simp
next
  case False
  let ?w = "slice_header out @ d"
  have p: "part_slice out d" "wire out d = ?w" using g False by (auto simp: good_slice_def wire_def)
  then have d: "length d \<le> 0xffff" "unat (so_size out) = length d" by (simp_all add: part_slice_def)
  have sz: "so_size out \<le> 0xffff" using d by (simp add: word_le_nat_alt)
  note hd = slice_header_reads [OF False sz, of d]
  define b where "b = ps_rpending st"
  have b: "take (length ?w) b = ?w" "length b = 262143" using h p(2) by (simp_all add: holds_def b_def max_size)
  have b8: "take 8 b = take 8 ?w" using arg_cong [OF b(1), of "take 8"] by simp
  have bd: "take (length d) (drop 8 b) = d" using arg_cong [OF b(1), of "drop 8"] by (simp add: drop_take)
  have hb: "is_slice_header b = is_slice_header ?w" "header_packet_id b = header_packet_id ?w" "b ! 1 = ?w ! 1"
    using header_prefix [OF b8] b(2) by simp_all
  have len: "(of_nat (length ?w) :: u32) = 8 + so_size out" using word_of_unat [OF d(2)] by simp
  have "length d + 8 \<le> length b" using b(2) d(1) by simp
  from addPartialPacket_joins [OF p(1) bd this T room] obtain T' where
    T': "addPartialPacket b (8 + so_size out) (so_id out) (so_starts out) (so_ends out) (ps_partial st) =
      Inr (fst (join out (parts (ps_partial st))), T')" "parts T' = snd (join out (parts (ps_partial st)))" "parts_ok T'"
    by blast
  let ?r = "fst (join out (parts (ps_partial st)))"
  obtain st' where "finish_packet deserialise (of_nat (length ?w)) st = Inr st'"
    "ready st'" "ps_partial st' = T'" "ps_incoming st' = ps_incoming st @ decoded deserialise ?r"
    using T'(1) b(2) that
    unfolding finish_packet_def Let_def b_def [symmetric] hb hd len
    by (cases ?r; cases "deserialise (the ?r)") (auto simp: hd decoded_def ready_def max_size b_def [symmetric])
  then show ?thesis unfolding p(2) using T' by simp
qed

end
