(* ===== verification/Stream_Link.thy ===== *)
theory Stream_Link
  imports Stream_Read
begin

text \<open>
  A connection from one streamer to another. The sender is the queue and \<^verbatim>\<open>handleoutgoing_locked\<close>, which may
  be called with any limits and any answers of the interface; the receiver is \<^verbatim>\<open>handleincoming\<close>, called any
  number of times on what was sent. The stream is a sequence of units: probes, packets and slices.
\<close>

subsection \<open>What is sent\<close>

datatype wire_unit = Probe | Slice nat slice_out

definition slice_bytes :: "slice_out \<Rightarrow> bytes" where
  "slice_bytes out = (case so_data out of None \<Rightarrow> [] | Some d \<Rightarrow> wire out d)"

fun unit_bytes :: "wire_unit \<Rightarrow> bytes" where
  "unit_bytes Probe = PACKET_SLICING_PROBE_BYTES"
| "unit_bytes (Slice k out) = slice_bytes out"

fun unit_slices :: "wire_unit list \<Rightarrow> (nat \<times> slice_out) list" where
  "unit_slices [] = []"
| "unit_slices (Probe # us) = unit_slices us"
| "unit_slices (Slice k out # us) = (k, out) # unit_slices us"

definition stream_bytes :: "wire_unit list \<Rightarrow> bytes" where
  "stream_bytes us = concat (map unit_bytes us)"

lemma unit_slices_append [simp]: "unit_slices (us @ vs) = unit_slices us @ unit_slices vs"
  by (induction us rule: unit_slices.induct) simp_all

lemma stream_bytes_simps [simp]:
  "stream_bytes [] = []" "stream_bytes (u # us) = unit_bytes u @ stream_bytes us"
  "stream_bytes (us @ vs) = stream_bytes us @ stream_bytes vs"
  by (simp_all add: stream_bytes_def)

definition sendable :: "bytes \<Rightarrow> bool" where
  "sendable d = (packet_ok d \<and> length d < unat getRsPktMaxSize)"

definition whole_heads :: "ItemRecord list list \<Rightarrow> bool" where
  "whole_heads ls = list_all (list_all (\<lambda>r. ir_current_offset r = 0)) ls"

text \<open>A sender whose packets are sendable, and whose slices were; nothing is cut before the peer has said that
  it takes slices.\<close>

definition sending :: "'f float_ops \<Rightarrow> 'f pqiQoSstreamer \<Rightarrow> bool \<Rightarrow> (nat \<times> bytes) list \<Rightarrow> (nat \<times> slice_out) list \<Rightarrow> bool" where
  "sending F q acc puts outs = (sender F q puts outs \<and> list_all (\<lambda>p. sendable (snd p)) puts \<and>
     list_all (\<lambda>p. \<exists>d. good_slice (snd p) d) outs \<and> (acc \<or> whole_heads (levels q)))"

abbreviation (input) slice_max :: "bool \<Rightarrow> u32" where
  "slice_max acc \<equiv> (if acc then PQISTREAM_OPTIMAL_PACKET_SIZE else getRsPktMaxSize)"

lemma slice_limits: "slice_limit (slice_max acc)"
  by (simp add: slice_limit_def max_size)

lemma waiting_sendable:
  assumes "sending F q acc puts outs" "k < length (levels q)" "r \<in> set (levels q ! k)"
  shows "sendable (ir_data r)"
proof -
  have "history_ok puts (snd (joined outs)) (levels q)"
    using sender_keeps [of F q puts outs] assms(1) by (simp add: sending_def sender_inv_def)
  then have "set (map ir_data (levels q ! k)) \<subseteq> set (level_data k puts)"
    using assms(2) unfolding history_ok_def by (metis Un_upper2 set_append)
  then have "ir_data r \<in> set (level_data k puts)" using assms(3) by auto
  then show ?thesis using assms(1) by (auto simp: level_data_def sending_def list_all_iff)
qed

lemma slice_is_good:
  assumes s: "is_slice (slice_max acc) r out" and r: "record_ok r" and d: "sendable (ir_data r)"
    and a: "acc \<or> ir_current_offset r = 0"
  shows "good_slice out (next_slice (slice_max acc) r)" "acc \<or> so_starts out \<and> so_ends out"
    "length (wire out (next_slice (slice_max acc) r)) < unat getRsPktMaxSize"
    "acc \<Longrightarrow> length (wire out (next_slice (slice_max acc) r)) \<le> 520"
proof -
  let ?d = "next_slice (slice_max acc) r"
  have o: "so_data out = Some ?d" "unat (so_size out) = length ?d" "so_starts out = (ir_current_offset r = 0)"
    "so_ends out = slice_ends (slice_max acc) r" using s by (simp_all add: is_slice_def)
  have whole: "?d = ir_data r" if "so_starts out" "so_ends out"
    using that o by (simp add: next_slice_def slice_ends_def)
  have len: "8 \<le> length (ir_data r)" "length (ir_data r) < 262143" "packet_ok (ir_data r)"
    using d by (simp_all add: sendable_def packet_ok_def max_size)
  show sm: "acc \<or> so_starts out \<and> so_ends out" using a o len by (auto simp: slice_ends_def max_size)
  have pos: "0 < length ?d" using r len by (cases acc) (auto simp: next_slice_def record_ok_def max_size)
  have small: "acc \<Longrightarrow> length ?d \<le> 512" by (simp add: next_slice_def)
  show "good_slice out ?d"
  proof (cases "so_starts out \<and> so_ends out")
    case True
    then show ?thesis using o whole len(3) by (simp add: good_slice_def)
  next
    case False
    then have "length ?d \<le> 512" using small sm by blast
    then show ?thesis using False o pos by (auto simp: good_slice_def part_slice_def)
  qed
  show "acc \<Longrightarrow> length (wire out ?d) \<le> 520" using small by (simp add: wire_def)
  show "length (wire out ?d) < unat getRsPktMaxSize"
    using sm small whole len(2) by (cases acc) (auto simp: wire_def max_size)
qed

text \<open>One call of \<^verbatim>\<open>locked_pop_out_data\<close> with the limit that \<^verbatim>\<open>handleoutgoing_locked\<close> uses.\<close>

lemma sending_pop:
  assumes s: "sending F q acc puts outs" and w: "waiting (levels q) \<noteq> 0"
  obtains out' q' d k where "locked_pop_out_data F (slice_max acc) out q = Inr (out', q')" "so_data out' = Some d"
    "unat (so_size out') = length d" "acc \<or> so_starts out' \<and> so_ends out'" "good_slice out' d"
    "length (wire out' d) < unat getRsPktMaxSize" "acc \<longrightarrow> length (wire out' d) \<le> 520"
    "sending F q' acc puts (outs @ [(k, out')])"
    "bytes_left (levels q') + waiting (levels q') < bytes_left (levels q) + waiting (levels q)"
proof -
  have i: "qos_inv q" using s sender_keeps [of F q puts outs] by (simp add: sending_def sender_inv_def)
  obtain out' q' k where e: "locked_pop_out_data F (slice_max acc) out q = Inr (out', q')"
    "k < length (levels q)" "levels q ! k \<noteq> []" "levels q' = (levels q)[k := after_slice (slice_max acc) (levels q ! k)]"
    "is_slice (slice_max acc) (hd (levels q ! k)) out'"
    by (rule pop_effect [OF i w slice_limits, of F acc out])
  obtain out1 q1 where pr: "locked_pop_out_data F (slice_max acc) out q = Inr (out1, q1)"
    "bytes_left (levels q1) + waiting (levels q1) < bytes_left (levels q) + waiting (levels q)"
    by (rule pop_progress [OF i w slice_limits, of F acc out])
  obtain r rs where rs: "levels q ! k = r # rs" using e(3) by (cases "levels q ! k") auto
  have ok: "record_ok r" using qos_inv_level [OF i e(2)] by (simp add: rs level_ok_def)
  have d: "sendable (ir_data r)" using waiting_sendable [OF s e(2), of r] rs by simp
  have a: "acc \<or> list_all (\<lambda>r. ir_current_offset r = 0) (levels q ! k)"
    using s e(2) by (auto simp: sending_def whole_heads_def list_all_length)
  then have ah: "acc \<or> ir_current_offset r = 0" by (auto simp: rs)
  have sl: "is_slice (slice_max acc) r out'" using e(5) by (simp add: rs)
  note g = slice_is_good [OF sl ok d ah]
  have sd: "so_data out' = Some (next_slice (slice_max acc) r)" "unat (so_size out') = length (next_slice (slice_max acc) r)"
    "so_ends out' = slice_ends (slice_max acc) r" using sl by (simp_all add: is_slice_def)
  have "sender F q' puts (outs @ [(level_holding (so_id out') (levels q), out')])"
    using s slice_limits [of acc] e(1) sd(1) by (intro sender.pop) (auto simp: sending_def)
  moreover have "acc \<or> whole_heads (levels q')"
  proof (rule disjCI)
    assume "\<not> whole_heads (levels q')"
    show acc
    proof (rule ccontr)
      assume "\<not> acc"
      then have "slice_ends (slice_max acc) r" "whole_heads (levels q)" using g(2) sd(3) s by (simp_all add: sending_def)
      moreover have "list_all (\<lambda>r. ir_current_offset r = 0) rs"
        using a \<open>\<not> acc\<close> by (simp add: rs)
      ultimately have "whole_heads (levels q')"
        unfolding e(4) rs by (auto simp: whole_heads_def after_slice_def list_all_iff dest: set_update_subset_insert [THEN subsetD])
      then show False using \<open>\<not> whole_heads (levels q')\<close> by simp
    qed
  qed
  ultimately have "sending F q' acc puts (outs @ [(level_holding (so_id out') (levels q), out')])"
    using s g(1) by (auto simp: sending_def)
  then show thesis using that [OF e(1) sd(1,2) g(2,1,3)] g(4) e(1) pr by auto
qed

subsection \<open>Filling the block\<close>

definition wp_ok :: "'i streamer \<Rightarrow> bool" where
  "wp_ok st = (case ps_wpending st of
      No_block \<Rightarrow> ps_wpending_size st = 0
    | Block b \<Rightarrow> unat (ps_wpending_size st) = length b
    | Freed_block \<Rightarrow> False)"

lemma wp_ok_size: "wp_ok st \<Longrightarrow> unat (ps_wpending_size st) = length (pending_bytes st)"
  by (auto simp: wp_ok_def pending_bytes_def split: wpending.splits)

lemma append_good:
  assumes g: "good_slice out d" and a: "ps_accepts st \<or> so_starts out \<and> so_ends out" and d: "unat (so_size out) = length d"
  shows "append_slice out d st = Inr (True, st\<lparr>ps_wpending := Block (pending_bytes st @ wire out d),
    ps_wpending_size := ps_wpending_size st + of_nat (length (wire out d))\<rparr>)"
proof -
  have size: "so_size out = of_nat (length d)" using d by (rule word_of_unat)
  show ?thesis
  proof (cases "so_starts out \<and> so_ends out")
    case True
    then show ?thesis by (simp add: append_slice_def d wire_def) (simp add: size)
  next
    case False
    then have "length d \<le> 0xffff" "ps_accepts st" using g a by (auto simp: good_slice_def part_slice_def)
    moreover have "\<not> so_size out > 0xffff" using calculation by (simp add: word_less_nat_alt d)
    ultimately show ?thesis using False by (auto simp: append_slice_def d wire_def Let_def, simp_all add: size add_ac)
  qed
qed

definition as_units :: "(nat \<times> slice_out) list \<Rightarrow> wire_unit list" where
  "as_units outs = map (\<lambda>(k, out). Slice k out) outs"

lemma as_units_simps [simp]: "as_units [] = []" "as_units ((k, out) # outs) = Slice k out # as_units outs"
  "unit_slices (as_units outs) = outs"
proof -
  show "unit_slices (as_units outs) = outs" by (induction outs) (auto simp: as_units_def)
qed (simp_all add: as_units_def)

text \<open>The loop ends, whatever the arithmetic of the counters, and what is in the block is what was taken.\<close>

definition filled_with :: "(nat \<times> slice_out) list \<Rightarrow> 'i streamer \<Rightarrow> 'i streamer \<Rightarrow> bool" where
  "filled_with new st st' = (wp_ok st' \<and> pending_bytes st' = pending_bytes st @ stream_bytes (as_units new) \<and>
     length (pending_bytes st') < 512 + unat getRsPktMaxSize \<and> (ps_accepts st \<longrightarrow> length (pending_bytes st') < 512 + 520) \<and>
     (ps_wpending st' = No_block \<longrightarrow> new = [] \<and> ps_wpending st = No_block) \<and>
     st' = st\<lparr>ps_wpending := ps_wpending st', ps_wpending_size := ps_wpending_size st'\<rparr>)"

lemma fill_block_sends:
  assumes "sending F q (ps_accepts st) puts outs" "wp_ok st" "length (pending_bytes st) < 512"
  shows "\<exists>new q' st'. fill_block F mb out q st = Some (Inr (True, q', st')) \<and>
    sending F q' (ps_accepts st) puts (outs @ new) \<and> filled_with new st st'"
  using assms
proof (induction "bytes_left (levels q) + waiting (levels q)" arbitrary: q st outs out rule: less_induct)
  case less
  have i: "qos_inv q" using less.prems(1) sender_keeps [of F q puts outs] by (simp add: sending_def sender_inv_def)
  show ?case
  proof (cases "waiting (levels q) = 0")
    case True
    have "filled_with [] st st" using less.prems(2,3) by (simp add: filled_with_def)
    then show ?thesis
      using pop_empty [OF i True, of F "slice_max (ps_accepts st)" out] less.prems(1)
      by (subst fill_block.simps) (auto simp: intro!: exI [of _ "[]"])
  next
    case False
    obtain out' q' d k where e: "locked_pop_out_data F (slice_max (ps_accepts st)) out q = Inr (out', q')"
      "so_data out' = Some d" "unat (so_size out') = length d" "ps_accepts st \<or> so_starts out' \<and> so_ends out'"
      "good_slice out' d" "length (wire out' d) < unat getRsPktMaxSize" "ps_accepts st \<longrightarrow> length (wire out' d) \<le> 520"
      "sending F q' (ps_accepts st) puts (outs @ [(k, out')])"
      "bytes_left (levels q') + waiting (levels q') < bytes_left (levels q) + waiting (levels q)"
      by (rule sending_pop [OF less.prems(1) False, of out])
    define st1 where "st1 = st\<lparr>ps_wpending := Block (pending_bytes st @ wire out' d),
      ps_wpending_size := ps_wpending_size st + of_nat (length (wire out' d))\<rparr>"
    have a: "append_slice out' d st = Inr (True, st1)" unfolding st1_def by (rule append_good [OF e(5,4,3)])
    have p1: "pending_bytes st1 = pending_bytes st @ wire out' d" by (simp add: st1_def pending_bytes_def)
    have w1: "unat (ps_wpending_size st1) = length (pending_bytes st1)"
    proof -
      have "unat (of_nat (length (wire out' d)) :: u32) = length (wire out' d)"
        using e(6) by (simp add: unat_of_nat max_size)
      then show ?thesis unfolding p1 using wp_ok_size [OF less.prems(2)] less.prems(3) e(6)
        by (simp add: st1_def max_size) (subst unat_add_u32_id, auto)
    qed
    then have ok1: "wp_ok st1" by (simp add: wp_ok_def st1_def pending_bytes_def)
    have f1: "filled_with [(k, out')] st st1"
      unfolding filled_with_def using ok1 p1 less.prems(3) e(2,6,7) by (auto simp: slice_bytes_def st1_def)
    have unf: "fill_block F mb out q st =
      (if ps_wpending_size st1 < mb \<and> ps_wpending_size st1 < PQISTREAM_OPTIMAL_PACKET_SIZE
       then fill_block F mb out' q' st1 else Some (Inr (True, q', st1)))"
      by (subst fill_block.simps) (simp add: e(1,2) a)
    show ?thesis
    proof (cases "ps_wpending_size st1 < mb \<and> ps_wpending_size st1 < PQISTREAM_OPTIMAL_PACKET_SIZE")
      case False
      then show ?thesis using e(8) f1 unfolding unf by auto
    next
      case True
      then have "length (pending_bytes st1) < 512" using w1 by (simp add: word_less_nat_alt)
      moreover have acc: "ps_accepts st1 = ps_accepts st" by (simp add: st1_def)
      ultimately obtain new q2 st2 where IH: "fill_block F mb out' q' st1 = Some (Inr (True, q2, st2))"
        "sending F q2 (ps_accepts st) puts ((outs @ [(k, out')]) @ new)" "filled_with new st1 st2"
        using less.hyps [OF e(9), of st1 "outs @ [(k, out')]" out'] e(8) ok1 by auto
      have "filled_with ((k, out') # new) st st2"
        using IH(3) unfolding filled_with_def acc p1 by (auto simp: slice_bytes_def e(2) st1_def split: wpending.splits)
      then show ?thesis using IH(1,2) True unfolding unf by auto
    qed
  qed
qed

subsection \<open>Sending\<close>

text \<open>What was sent and what is in the block are the units whose slices were taken from the queue.\<close>

definition link_ok :: "'f float_ops \<Rightarrow> 'f pqiQoSstreamer \<Rightarrow> 'i streamer \<Rightarrow> (nat \<times> bytes) list \<Rightarrow> wire_unit list \<Rightarrow>
    bytes \<Rightarrow> bool" where
  "link_ok F q st puts us s = (sending F q (ps_accepts st) puts (unit_slices us) \<and> wp_ok st \<and>
     length (pending_bytes st) < 512 + unat getRsPktMaxSize \<and> s @ pending_bytes st = stream_bytes us)"

lemma next_block:
  assumes l: "link_ok F q st puts us s" and n: "ps_wpending st = No_block"
  shows "\<exists>us' q' st'. fill_block F mb no_slice q (insert_probe now (st\<lparr>ps_wpending_size := 0\<rparr>)) = Some (Inr (True, q', st')) \<and>
    link_ok F q' st' puts (us @ us') s \<and> ps_accepts st' = ps_accepts st"
proof -
  define st1 where "st1 = insert_probe now (st\<lparr>ps_wpending_size := 0\<rparr>)"
  define ps where "ps = (if ps_wpending st1 = No_block then [] else [Probe])"
  have st1: "ps_accepts st1 = ps_accepts st" "wp_ok st1" "length (pending_bytes st1) < 512"
    "pending_bytes st1 = stream_bytes ps" "unit_slices ps = []"
    using n by (simp_all add: st1_def insert_probe_def wp_ok_def pending_bytes_def ps_def PACKET_SLICING_PROBE_BYTES_def)
  have "sending F q (ps_accepts st1) puts (unit_slices us)" using l st1(1) by (simp add: link_ok_def)
  from fill_block_sends [OF this st1(2,3), of mb no_slice] obtain new q' st' where
    f: "fill_block F mb no_slice q st1 = Some (Inr (True, q', st'))"
    "sending F q' (ps_accepts st) puts (unit_slices us @ new)" "filled_with new st1 st'"
    unfolding st1(1) by blast
  have acc: "ps_accepts st' = ps_accepts st"
    using f(3) st1(1) unfolding filled_with_def by (metis streamer.select_convs(3) streamer.surjective streamer.update_convs(1,2))
  have "wp_ok st'" "pending_bytes st' = stream_bytes ps @ stream_bytes (as_units new)"
    "length (pending_bytes st') < 512 + unat getRsPktMaxSize"
    using f(3) unfolding filled_with_def st1(4) by blast+
  moreover have "s = stream_bytes us" using l n by (simp add: link_ok_def pending_bytes_def)
  ultimately have "link_ok F q' st' puts (us @ ps @ as_units new) s"
    using f(2) st1(5) by (simp add: link_ok_def acc)
  then show ?thesis using f(1) acc unfolding st1_def by blast
qed

lemma sent_block:
  assumes "link_ok F q st puts us s" "ps_wpending st = Block b"
  shows "link_ok F q (st\<lparr>ps_wpending := No_block, ps_wpending_size := 0\<rparr>) puts us
    (s @ take (unat (ps_wpending_size st)) b)"
  using assms by (simp add: link_ok_def wp_ok_def pending_bytes_def)

lemma outgoing_loop_sends:
  assumes "link_ok F q st puts us (s @ sent)"
  shows "\<exists>r sent' q' st' us'. outgoing_loop F now mb answers sb sent q st = Some (Inr (r, sent', q', st')) \<and>
    link_ok F q' st' puts (us @ us') (s @ sent') \<and> ps_accepts st' = ps_accepts st"
  using assms
proof (induction answers arbitrary: sb sent q st us)
  case Nil
  then show ?case by (auto intro: exI [of _ "[]"])
next
  case (Cons ans answers)
  obtain can ss where ans: "ans = (can, ss)" by (cases ans)
  show ?case
  proof (cases "\<not> can \<or> mb < sint sb")
    case True
    then show ?thesis using Cons.prems by (auto simp: ans intro: exI [of _ "[]"])
  next
    case False
    obtain q1 st1 us1 where f: "(if ps_wpending st = No_block
        then fill_block F (word_of_int mb) no_slice q (insert_probe now (st\<lparr>ps_wpending_size := 0\<rparr>))
        else Some (Inr (True, q, st))) = Some (Inr (True, q1, st1))"
      "link_ok F q1 st1 puts (us @ us1) (s @ sent)" "ps_accepts st1 = ps_accepts st"
    proof (cases "ps_wpending st = No_block")
      case True
      then show ?thesis using next_block [OF Cons.prems True, of "word_of_int mb" now] that True by auto
    next
      case F: False
      then show ?thesis using Cons.prems that [of q st "[]"] by simp
    qed
    show ?thesis
    proof (cases "ps_wpending st1")
      case No_block
      then show ?thesis using f False by (auto simp: ans)
    next
      case Freed_block
      then show ?thesis using f(2) by (simp add: link_ok_def wp_ok_def)
    next
      case (Block b)
      show ?thesis
      proof (cases "ps_wpending_size st1 = word_of_int ss")
        case ne: False
        then show ?thesis using f False Block by (auto simp: ans)
      next
        case True
        let ?st2 = "st1\<lparr>ps_wpending := No_block, ps_wpending_size := 0\<rparr>"
        have "link_ok F q1 ?st2 puts (us @ us1) (s @ (sent @ take (unat (ps_wpending_size st1)) b))"
          using sent_block [OF f(2) Block] by simp
        from Cons.IH [OF this, of "sb + ps_wpending_size st1"] show ?thesis
          using f(1,3) False Block True unfolding ans append_assoc by auto
      qed
    qed
  qed
qed

end
