(* ===== verification/Stream_Recv.thy ===== *)
theory Stream_Recv
  imports Stream_Link
begin

text \<open>
  The receiver of a stream of units: \<^verbatim>\<open>handleincoming\<close> is called again and again, and each read of a header
  or of the rest of a packet may fail for a while before the bytes are there.
\<close>

subsection \<open>What the interface answers\<close>

text \<open>The answers of \<^verbatim>\<open>readdata\<close> to a receiver of the units. The rest of a packet is waited for at most 2000
  times: the code closes the connection at the next failure.\<close>

inductive arrives :: "wire_unit list \<Rightarrow> bio_read list \<Rightarrow> bool" where
  no_more: "arrives [] []"
| wait: "arrives us reads \<Longrightarrow> arrives us (Returns (-1) # reads)"
| probe: "arrives us reads \<Longrightarrow> arrives (Probe # us) (Delivers PACKET_SLICING_PROBE_BYTES # reads)"
| slice: "arrives us reads \<Longrightarrow> int n \<le> max_failed_read_attempts \<Longrightarrow>
     arrives (Slice k out # us) (Delivers (take 8 (slice_bytes out)) #
       (if length (slice_bytes out) > 8 then replicate n (Returns (-1)) @ [Delivers (drop 8 (slice_bytes out))] else []) @ reads)"

definition decoded_all :: "(bytes \<Rightarrow> 'i option) \<Rightarrow> (nat \<times> bytes) list \<Rightarrow> 'i list" where
  "decoded_all deserialise got = concat (map (\<lambda>p. decoded deserialise (Some (snd p))) got)"

text \<open>The receiver has dealt with the units \<open>dn\<close>, except that it may have read the header of the first of \<open>us\<close>.\<close>

definition dealt_with :: "(bytes \<Rightarrow> 'i option) \<Rightarrow> wire_unit list \<Rightarrow> 'i streamer \<Rightarrow> bool" where
  "dealt_with deserialise dn st = (parts_ok (ps_partial st) \<and> parts (ps_partial st) = fst (joined (unit_slices dn)) \<and>
     ps_incoming st = decoded_all deserialise (snd (joined (unit_slices dn))))"

definition midway :: "wire_unit list \<Rightarrow> bio_read list \<Rightarrow> 'i streamer \<Rightarrow> bool" where
  "midway us reads st = (\<exists>k out us' n reads'. us = Slice k out # us' \<and> started (slice_bytes out) st \<and>
     length (slice_bytes out) > 8 \<and> ps_failed st + int n \<le> max_failed_read_attempts \<and>
     reads = replicate n (Returns (-1)) @ Delivers (drop 8 (slice_bytes out)) # reads' \<and> arrives us' reads')"

lemma midwayI:
  "started (slice_bytes out) st \<Longrightarrow> length (slice_bytes out) > 8 \<Longrightarrow> ps_failed st + int n \<le> max_failed_read_attempts \<Longrightarrow>
     arrives us reads \<Longrightarrow>
     midway (Slice k out # us) (replicate n (Returns (-1)) @ Delivers (drop 8 (slice_bytes out)) # reads) st"
  unfolding midway_def by blast

definition receiving :: "(bytes \<Rightarrow> 'i option) \<Rightarrow> wire_unit list \<Rightarrow> wire_unit list \<Rightarrow> bio_read list \<Rightarrow> 'i streamer \<Rightarrow> bool" where
  "receiving deserialise dn us reads st = (dealt_with deserialise dn st \<and>
     (ready st \<and> arrives us reads \<or> midway us reads st))"

text \<open>Units a sender makes: no part of a packet grows beyond what a sender stores.\<close>

definition good_units :: "wire_unit list \<Rightarrow> bool" where
  "good_units us = (list_all (\<lambda>p. \<exists>d. good_slice (snd p) d) (unit_slices us) \<and>
     (\<forall>n pid x. fst (joined (take n (unit_slices us))) pid = Some x \<longrightarrow> length x < 2 ^ 31))"

lemma good_units_at:
  assumes "good_units (dn @ Slice k out # us)"
  obtains d where "good_slice out d" "slice_bytes out = wire out d"
    "\<forall>x. fst (joined (unit_slices dn)) (so_id out) = Some x \<longrightarrow> length x < 2 ^ 31"
proof -
  obtain d where d: "good_slice out d" using assms by (auto simp: good_units_def)
  have "slice_bytes out = wire out d"
    using d by (auto simp: slice_bytes_def good_slice_def part_slice_def split: if_splits)
  moreover have "length x < 2 ^ 31" if "fst (joined (unit_slices dn)) (so_id out) = Some x" for x
  proof -
    have "take (length (unit_slices dn)) (unit_slices (dn @ Slice k out # us)) = unit_slices dn" by simp
    then show ?thesis using assms that unfolding good_units_def by metis
  qed
  ultimately show thesis using that d by blast
qed

lemma dealt_with_slice:
  assumes "dealt_with deserialise dn st" "parts_ok (ps_partial st')"
    "parts (ps_partial st') = snd (join out (parts (ps_partial st)))"
    "ps_incoming st' = ps_incoming st @ decoded deserialise (fst (join out (parts (ps_partial st))))"
  shows "dealt_with deserialise (dn @ [Slice k out]) st'"
proof -
  obtain t got where tg: "joined (unit_slices dn) = (t, got)" by (cases "joined (unit_slices dn)")
  obtain r t' where j: "join out t = (r, t')" by (cases "join out t")
  show ?thesis using assms unfolding dealt_with_def
    by (cases r) (simp_all add: tg j joined_snoc decoded_all_def decoded_def)
qed

text \<open>One turn of the loop of \<^verbatim>\<open>handleincoming\<close> uses an answer, and never fails.\<close>

definition advanced :: "(bytes \<Rightarrow> 'i option) \<Rightarrow> wire_unit list \<Rightarrow> wire_unit list \<Rightarrow> bio_read list \<Rightarrow> bio_read list \<Rightarrow>
    'i streamer \<Rightarrow> bool" where
  "advanced deserialise dn us reads reads' st' = (length reads' \<le> length reads - 1 \<and>
     (\<exists>dn' us'. dn' @ us' = dn @ us \<and> receiving deserialise dn' us' reads' st'))"

lemma continue_slice:
  assumes d: "dealt_with deserialise dn st" and g: "good_units (dn @ Slice k out # us)"
    and s: "started (slice_bytes out) st" and a: "arrives us rest"
    and reads: "reads = (if length (slice_bytes out) > 8 then [Delivers (drop 8 (slice_bytes out))] else []) @ rest"
  shows "\<exists>n st'. continue_packet deserialise reads st = Inr ((None, n), rest, st') \<and>
    receiving deserialise (dn @ [Slice k out]) us rest st'"
proof -
  obtain x where x: "good_slice out x" "slice_bytes out = wire out x"
    "\<forall>y. fst (joined (unit_slices dn)) (so_id out) = Some y \<longrightarrow> length y < 2 ^ 31"
    by (rule good_units_at [OF g])
  have u: "unit_ok (slice_bytes out)" unfolding x(2) by (rule good_slice_unit [OF x(1)])
  from continue_unit [OF s u reads] obtain st1 where
    c: "continue_packet deserialise reads st =
      (case finish_packet deserialise (of_nat (length (slice_bytes out))) st1 of
         Inl e \<Rightarrow> Inl e | Inr st' \<Rightarrow> Inr ((None, of_nat (length (slice_bytes out) - 8)), rest, st'))"
    "holds (slice_bytes out) st1" "ps_partial st1 = ps_partial st" "ps_incoming st1 = ps_incoming st" by blast
  have d1: "dealt_with deserialise dn st1" using d c(3,4) by (simp add: dealt_with_def)
  then have p: "parts_ok (ps_partial st1)" "parts (ps_partial st1) = fst (joined (unit_slices dn))"
    by (simp_all add: dealt_with_def)
  from finish_slice [OF c(2) [unfolded x(2)] p(1) x(1), of deserialise] x(3) obtain st' where
    f: "finish_packet deserialise (of_nat (length (wire out x))) st1 = Inr st'" "ready st'"
    "parts_ok (ps_partial st')" "parts (ps_partial st') = snd (join out (parts (ps_partial st1)))"
    "ps_incoming st' = ps_incoming st1 @ decoded deserialise (fst (join out (parts (ps_partial st1))))"
    unfolding p(2) by blast
  show ?thesis
    using c(1) f(1,2) dealt_with_slice [OF d1 f(3-5), of k] a by (simp add: x(2) receiving_def)
qed

lemma advancedI:
  "length reads' < length reads \<or> reads = [] \<and> reads' = [] \<Longrightarrow> dn' @ us' = dn @ us \<Longrightarrow>
     receiving deserialise dn' us' reads' st' \<Longrightarrow> advanced deserialise dn us reads reads' st'"
  by (auto simp: advanced_def)

lemma read_midway:
  assumes d: "dealt_with deserialise dn st" and g: "good_units (dn @ us)" and m: "midway us reads st"
  shows "\<exists>r n reads' st'. continue_packet deserialise reads st = Inr ((r, n), reads', st') \<and>
    advanced deserialise dn us reads reads' st'"
proof -
  obtain k out us' n rest where u: "us = Slice k out # us'" "started (slice_bytes out) st" "length (slice_bytes out) > 8"
    "ps_failed st + int n \<le> max_failed_read_attempts"
    "reads = replicate n (Returns (-1)) @ Delivers (drop 8 (slice_bytes out)) # rest" "arrives us' rest"
    using m unfolding midway_def by blast
  show ?thesis
  proof (cases n)
    case 0
    from continue_slice [OF d g [unfolded u(1)] u(2,6)] u(3,5) 0 obtain m st' where
      "continue_packet deserialise reads st = Inr ((None, m), rest, st')"
      "receiving deserialise (dn @ [Slice k out]) us' rest st'" by auto
    then show ?thesis using advancedI [of rest reads "dn @ [Slice k out]" us' dn us] u(1,5) 0 by fastforce
  next
    case (Suc m)
    obtain x where x: "good_slice out x" "slice_bytes out = wire out x" using good_units_at [OF g [unfolded u(1)]] by metis
    have ok: "unit_ok (slice_bytes out)" unfolding x(2) by (rule good_slice_unit [OF x(1)])
    let ?reads' = "replicate m (Returns (-1)) @ Delivers (drop 8 (slice_bytes out)) # rest"
    have "ps_failed st < max_failed_read_attempts" using u(4) Suc by simp
    from continue_blocked [OF u(2) ok u(3) this, of reads ?reads'] u(5) Suc obtain st' where
      c: "continue_packet deserialise reads st = Inr ((Some 0, 0), ?reads', st')" "started (slice_bytes out) st'"
      "ps_failed st' = ps_failed st + 1" "ps_partial st' = ps_partial st" "ps_incoming st' = ps_incoming st" by auto
    have "ps_failed st' + int m \<le> max_failed_read_attempts" using u(4) c(3) Suc by simp
    then have "midway us ?reads' st'" unfolding u(1) using c(2) u(3,6) by (intro midwayI) simp_all
    moreover have "dealt_with deserialise dn st'" using d c(4,5) by (simp add: dealt_with_def)
    ultimately have "receiving deserialise dn us ?reads' st'" by (simp add: receiving_def)
    then have "advanced deserialise dn us reads ?reads' st'" using u(5) Suc by (intro advancedI) auto
    then show ?thesis using c(1) by blast
  qed
qed

lemma midway_started: "midway us reads st \<Longrightarrow> ps_started st"
  by (auto simp: midway_def started_def)

lemma dealt_with_same:
  "dealt_with deserialise dn st \<Longrightarrow> ps_partial st' = ps_partial st \<Longrightarrow> ps_incoming st' = ps_incoming st \<Longrightarrow>
     dealt_with deserialise dn st'"
  by (simp add: dealt_with_def)

lemma read_stalls:
  assumes "ready st" "start_packet reads st = Inr (Some 0, reads', st')"
  shows "read_packet deserialise reads st = Inr ((Some 0, 0), reads', st')"
  using assms by (simp add: read_packet_def ready_def)

lemma read_ready:
  assumes d: "dealt_with deserialise dn st" and g: "good_units (dn @ us)" and r: "ready st" and a: "arrives us reads"
  shows "\<exists>r n reads' st'. read_packet deserialise reads st = Inr ((r, n), reads', st') \<and>
    advanced deserialise dn us reads reads' st'"
  using a
proof (cases rule: arrives.cases)
  case no_more
  from start_empty [OF r] obtain st' where s: "start_packet [] st = Inr (Some 0, [], st')" "ready st'"
    "ps_partial st' = ps_partial st" "ps_incoming st' = ps_incoming st" by blast
  have rd: "reads = []" using no_more by simp
  have "receiving deserialise dn us [] st'" using dealt_with_same [OF d s(3,4)] s(2) a rd by (simp add: receiving_def)
  then have "advanced deserialise dn us reads [] st'" using rd by (intro advancedI) simp_all
  then show ?thesis using read_stalls [OF r s(1)] unfolding rd by blast
next
  case (wait rest)
  from start_blocked [OF r] obtain st' where s: "start_packet (Returns (-1) # rest) st = Inr (Some 0, rest, st')" "ready st'"
    "ps_partial st' = ps_partial st" "ps_incoming st' = ps_incoming st" by blast
  have "receiving deserialise dn us rest st'" using dealt_with_same [OF d s(3,4)] s(2) wait by (simp add: receiving_def)
  then have "advanced deserialise dn us reads rest st'" using wait by (intro advancedI) simp_all
  then show ?thesis using read_stalls [OF r s(1)] unfolding wait(1) by blast
next
  case (probe us' rest)
  from start_probe [OF r] obtain st' where
    s: "start_packet (Delivers PACKET_SLICING_PROBE_BYTES # rest) st = Inr (Some 0, rest, st')" "ready st'"
    "ps_partial st' = ps_partial st" "ps_incoming st' = ps_incoming st" by blast
  have "dealt_with deserialise (dn @ [Probe]) st'" using dealt_with_same [OF d s(3,4)] by (simp add: dealt_with_def)
  then have "receiving deserialise (dn @ [Probe]) us' rest st'" using s(2) probe by (simp add: receiving_def)
  then have "advanced deserialise dn us reads rest st'" using probe by (intro advancedI) simp_all
  then show ?thesis using read_stalls [OF r s(1)] unfolding probe(2) by blast
next
  case (slice us' rest n k out)
  let ?w = "slice_bytes out"
  let ?tl = "(if length ?w > 8 then replicate n (Returns (-1)) @ [Delivers (drop 8 ?w)] else []) @ rest"
  obtain x where x: "good_slice out x" "?w = wire out x" using good_units_at [OF g [unfolded slice(1)]] by metis
  have ok: "unit_ok ?w" unfolding x(2) by (rule good_slice_unit [OF x(1)])
  from start_unit [OF r ok, of ?tl] obtain st1 where
    s: "start_packet (Delivers (take 8 ?w) # ?tl) st = Inr (None, ?tl, st1)" "started ?w st1" "ps_failed st1 = 0"
    "ps_partial st1 = ps_partial st" "ps_incoming st1 = ps_incoming st" by blast
  have reads: "reads = Delivers (take 8 ?w) # ?tl" using slice by simp
  have rp: "read_packet deserialise reads st = (case continue_packet deserialise ?tl st1 of
      Inl e \<Rightarrow> Inl e | Inr ((r, n), y) \<Rightarrow> Inr ((r, n + 8), y))"
    using r s(1) unfolding reads by (simp add: read_packet_def ready_def)
  have d1: "dealt_with deserialise dn st1" by (rule dealt_with_same [OF d s(4,5)])
  obtain r' n' reads' st' where c: "continue_packet deserialise ?tl st1 = Inr ((r', n'), reads', st')"
    "advanced deserialise dn us (Delivers [] # ?tl) reads' st'"
  proof (cases "length ?w > 8")
    case True
    then have tl: "?tl = replicate n (Returns (-1)) @ Delivers (drop 8 ?w) # rest" by simp
    have m: "midway us ?tl st1" unfolding tl slice(1) using slice s(2,3) True by (intro midwayI) simp_all
    from read_midway [OF d1 g m] obtain r' n' reads' st' where
      "continue_packet deserialise ?tl st1 = Inr ((r', n'), reads', st')" "advanced deserialise dn us ?tl reads' st'" by blast
    then show thesis using that by (auto simp: advanced_def)
  next
    case False
    from continue_slice [OF d1 g [unfolded slice(1)] s(2) slice(3), of ?tl] False obtain m st' where
      "continue_packet deserialise ?tl st1 = Inr ((None, m), rest, st')"
      "receiving deserialise (dn @ [Slice k out]) us' rest st'" by auto
    then show thesis using that advancedI [of rest "Delivers [] # ?tl" "dn @ [Slice k out]" us' dn us] slice(1) False by auto
  qed
  then show ?thesis unfolding rp by (auto simp: advanced_def reads)
qed

lemma read_packet_advances:
  assumes "receiving deserialise dn us reads st" "good_units (dn @ us)"
  shows "\<exists>r n reads' st'. read_packet deserialise reads st = Inr ((r, n), reads', st') \<and>
    advanced deserialise dn us reads reads' st'"
proof -
  have d: "dealt_with deserialise dn st" using assms(1) by (simp add: receiving_def)
  consider "ready st" "arrives us reads" | "midway us reads st" using assms(1) unfolding receiving_def by blast
  then show ?thesis
  proof cases
    case 1
    then show ?thesis by (rule read_ready [OF d assms(2)])
  next
    case 2
    then show ?thesis using read_midway [OF d assms(2) 2] midway_started [OF 2] by (simp add: read_packet_def)
  qed
qed

subsection \<open>Calls of \<^verbatim>\<open>handleincoming\<close>\<close>

lemma advanced_trans:
  assumes "dn1 @ us1 = dn @ us" "length reads1 \<le> length reads - 1" "advanced deserialise dn1 us1 reads1 reads2 st2"
  shows "advanced deserialise dn us reads reads2 st2"
  using assms unfolding advanced_def by auto

lemma incoming_loop_advances:
  assumes "receiving deserialise dn us reads st" "good_units (dn @ us)"
  shows "\<exists>r reads' st'. incoming_loop deserialise maxin rb mores reads st = Inr (r, reads', st') \<and>
    advanced deserialise dn us reads reads' st'"
  using assms
proof (induction mores arbitrary: rb dn us reads st)
  case Nil
  from read_packet_advances [OF Nil] show ?case
    by (subst incoming_loop.simps) (auto split: option.splits)
next
  case (Cons m mores)
  from read_packet_advances [OF Cons.prems] obtain r n reads1 st1 where
    rp: "read_packet deserialise reads st = Inr ((r, n), reads1, st1)" "advanced deserialise dn us reads reads1 st1" by blast
  obtain dn1 us1 where a: "length reads1 \<le> length reads - 1" "dn1 @ us1 = dn @ us" "receiving deserialise dn1 us1 reads1 st1"
    using rp(2) unfolding advanced_def by blast
  from Cons.IH [OF a(3), of "rb + n"] a(2) Cons.prems(2) obtain r2 reads2 st2 where
    l: "incoming_loop deserialise maxin (rb + n) mores reads1 st1 = Inr (r2, reads2, st2)"
    "advanced deserialise dn1 us1 reads1 reads2 st2" by auto
  have "advanced deserialise dn us reads reads2 st2" by (rule advanced_trans [OF a(2,1) l(2)])
  then show ?case using rp l(1)
    by (subst incoming_loop.simps) (cases r; cases "maxin > sint (rb + n) \<and> m"; auto)
qed

lemma receiving_allocated: "receiving deserialise dn us reads st \<Longrightarrow> allocate_rpend st = st"
  by (auto simp: receiving_def ready_def midway_def started_def allocate_rpend_def max_size)

text \<open>One call after the other, each with its limit and the answers of \<^verbatim>\<open>moretoread\<close>.\<close>

fun receive :: "(bytes \<Rightarrow> 'i option) \<Rightarrow> (int \<times> bool list) list \<Rightarrow> bio_read list \<Rightarrow> 'f pqiQoSstreamer \<Rightarrow> 'i streamer \<Rightarrow>
    fault + bio_read list \<times> 'i streamer" where
  "receive deserialise [] reads q st = Inr (reads, st)"
| "receive deserialise ((maxin, mores) # calls) reads q st =
     (case handleincoming deserialise True maxin mores reads q st of
        Inl e \<Rightarrow> Inl e
      | Inr (_, reads', q', st') \<Rightarrow> receive deserialise calls reads' q' st')"

lemma receive_all:
  assumes "receiving deserialise dn us reads (allocate_rpend st)" "good_units (dn @ us)" "length reads \<le> length calls"
    "calls \<noteq> []"
  shows "\<exists>st'. receive deserialise calls reads q st = Inr ([], st') \<and> receiving deserialise (dn @ us) [] [] st'"
  using assms
proof (induction calls arbitrary: dn us reads st)
  case (Cons c calls)
  obtain maxin mores where c: "c = (maxin, mores)" by (cases c)
  from incoming_loop_advances [OF Cons.prems(1,2), of maxin 0 mores] obtain r reads1 st1 where
    l: "incoming_loop deserialise maxin 0 mores reads (allocate_rpend st) = Inr (r, reads1, st1)"
    "advanced deserialise dn us reads reads1 st1" by blast
  obtain dn1 us1 where a: "length reads1 \<le> length reads - 1" "dn1 @ us1 = dn @ us" "receiving deserialise dn1 us1 reads1 st1"
    using l(2) unfolding advanced_def by blast
  have h: "handleincoming deserialise True maxin mores reads q st = Inr (r, reads1, q, st1)"
    by (simp add: handleincoming_def l(1))
  show ?case
  proof (cases "calls = []")
    case True
    then have e: "reads1 = []" using a(1) Cons.prems(3) by simp
    have "us1 = []" if "receiving deserialise dn1 us1 [] st1" using that
      by (auto simp: receiving_def midway_def elim: arrives.cases)
    then show ?thesis using True h a(2,3) by (auto simp: c e)
  next
    case False
    have "length reads1 \<le> length calls" using a(1) Cons.prems(3) by simp
    then show ?thesis using Cons.IH [of dn1 us1 reads1 st1] a(2,3) Cons.prems(2) False h receiving_allocated [OF a(3)]
      by (simp add: c)
  qed
qed simp

lemma receiving_start:
  assumes "arrives us reads"
  shows "receiving deserialise [] us reads (allocate_rpend make_pqistreamer)"
  using assms by (simp add: receiving_def dealt_with_def ready_def allocate_rpend_def make_pqistreamer_def max_size
      parts_ok_def parts_def joined_def decoded_all_def)

subsection \<open>Reading a stream of bytes\<close>

text \<open>The same from the bytes of the stream: the interface hands out eight bytes, then as many as the header of
  a packet or slice announces.\<close>

inductive comes :: "bytes \<Rightarrow> bio_read list \<Rightarrow> bool" where
  no_bytes: "comes [] []"
| hold: "comes s reads \<Longrightarrow> comes s (Returns (-1) # reads)"
| probe_bytes: "comes s reads \<Longrightarrow> comes (PACKET_SLICING_PROBE_BYTES @ s) (Delivers PACKET_SLICING_PROBE_BYTES # reads)"
| packet_bytes: "comes s reads \<Longrightarrow> unit_ok w \<Longrightarrow> int n \<le> max_failed_read_attempts \<Longrightarrow>
     comes (w @ s) (Delivers (take 8 w) #
       (if length w > 8 then replicate n (Returns (-1)) @ [Delivers (drop 8 w)] else []) @ reads)"

lemma length_probe [simp]: "length PACKET_SLICING_PROBE_BYTES = 8"
  by (simp add: PACKET_SLICING_PROBE_BYTES_def)

lemma unit_prefix:
  assumes "unit_ok w" "unit_ok v" "w @ s = v @ t"
  shows "w = v \<and> s = t"
proof -
  have l: "8 \<le> length w" "8 \<le> length v" "length w \<le> 262143" "length v \<le> 262143"
    using assms(1,2) by (simp_all add: unit_ok_def max_size)
  have "take 8 w = take 8 v" using arg_cong [OF assms(3), of "take 8"] l by simp
  then have "header_extralen w = header_extralen v" using header_prefix(2) l by blast
  then have "(of_nat (length w - 8) :: u32) = of_nat (length v - 8)" using assms(1,2) by (simp add: unit_ok_def)
  then have "unat (of_nat (length w - 8) :: u32) = unat (of_nat (length v - 8) :: u32)" by simp
  then have "length w = length v" using l by (simp add: unat_of_nat del: of_nat_diff)
  then show ?thesis using assms(3) by simp
qed

lemma good_slice_bytes:
  assumes "good_slice out d"
  shows "unit_ok (slice_bytes out)"
proof -
  have "slice_bytes out = wire out d"
    using assms by (auto simp: slice_bytes_def good_slice_def part_slice_def split: if_splits)
  then show ?thesis using good_slice_unit [OF assms] by simp
qed

lemma take_unit: "unit_ok w \<Longrightarrow> take 8 (w @ s) = take 8 w \<and> take 8 w \<noteq> PACKET_SLICING_PROBE_BYTES"
  by (simp add: unit_ok_def)

lemma comes_arrives:
  assumes "comes s reads" "s = stream_bytes us" "list_all (\<lambda>p. \<exists>d. good_slice (snd p) d) (unit_slices us)"
  shows "arrives us reads"
  using assms
proof (induction arbitrary: us)
  case no_bytes
  have "us = []"
  proof (cases us rule: unit_slices.cases)
    case (3 k out vs)
    then obtain d where "good_slice out d" using no_bytes(2) by auto
    from good_slice_bytes [OF this] show ?thesis using no_bytes(1) 3 by (simp add: unit_ok_def)
  qed (use no_bytes in \<open>simp_all add: PACKET_SLICING_PROBE_BYTES_def\<close>)
  then show ?case by (simp add: arrives.no_more)
next
  case (hold s reads)
  then show ?case by (simp add: arrives.wait)
next
  case (probe_bytes s reads)
  show ?case
  proof (cases us rule: unit_slices.cases)
    case 1
    then show ?thesis using probe_bytes(3) by (simp add: PACKET_SLICING_PROBE_BYTES_def)
  next
    case (2 vs)
    then show ?thesis using probe_bytes by (simp add: arrives.probe)
  next
    case (3 k out vs)
    then obtain d where "good_slice out d" using probe_bytes(4) by auto
    from take_unit [OF good_slice_bytes [OF this], of "stream_bytes vs"]
    have "take 8 (stream_bytes us) \<noteq> PACKET_SLICING_PROBE_BYTES" using 3 by (simp del: take_append)
    then show ?thesis using arg_cong [OF probe_bytes(3), of "take 8"] by simp
  qed
next
  case (packet_bytes s reads w n)
  note w = take_unit [OF packet_bytes(2), of s]
  show ?case
  proof (cases us rule: unit_slices.cases)
    case 1
    then show ?thesis using packet_bytes(2,5) by (simp add: unit_ok_def)
  next
    case (2 vs)
    then have "take 8 (w @ s) = PACKET_SLICING_PROBE_BYTES" unfolding packet_bytes(5) by simp
    then have False using w by metis
    then show ?thesis by blast
  next
    case (3 k out vs)
    then obtain d where "good_slice out d" using packet_bytes(6) by auto
    from unit_prefix [OF packet_bytes(2) good_slice_bytes [OF this], of s "stream_bytes vs"]
    have e: "w = slice_bytes out" "s = stream_bytes vs" using packet_bytes(5) 3 by simp_all
    then have "arrives vs reads" using packet_bytes.IH [of vs] packet_bytes(6) 3 by simp
    then show ?thesis unfolding 3 e(1) using packet_bytes(3) by (rule arrives.slice)
  qed
qed

end
