(* ===== verification/Stream_Props.thy ===== *)
theory Stream_Props
  imports Stream_Recv
begin

text \<open>
  The connection of two streamers: what was stored at one end is what the other end delivers. Then the
  inputs for which the code leaves its memory or ends the process.
\<close>

subsection \<open>A connection\<close>

text \<open>What the sender's end goes through until its connection is lost, with what was stored and the bytes that
  were sent: packets are stored, \<^verbatim>\<open>handleoutgoing_locked\<close> is called with any limit and answers, and its own
  reader runs, which may find out that the peer takes slices.\<close>

inductive link :: "'f float_ops \<Rightarrow> 'f pqiQoSstreamer \<Rightarrow> 'i streamer \<Rightarrow> (nat \<times> bytes) list \<Rightarrow> bytes \<Rightarrow> bool" for F where
  connected: "link F (make_pqiQoSstreamer F alpha) make_pqistreamer [] []"
| submit: "link F q st puts s \<Longrightarrow> sendable item \<Longrightarrow> waiting (levels q) + 1 < 2 ^ 64 \<Longrightarrow>
     list_all (\<lambda>rs. qos_id_counter q \<notin> ids rs) (levels q) \<Longrightarrow>
     locked_storeInOutputQueue item (of_nat (length item)) priority q = Inr q' \<Longrightarrow>
     link F q' st (puts @ [(level_of priority q, item)]) s"
| transmit: "link F q st puts s \<Longrightarrow>
     handleoutgoing_locked F now True maxbytes answers q st = Some (Inr (r, sent, q', st')) \<Longrightarrow>
     link F q' st' puts (s @ sent)"
| listen: "link F q st puts s \<Longrightarrow>
     handleincoming deserialise True maxin mores reads q st = Inr (r, reads', q', st') \<Longrightarrow> link F q' st' puts s"

text \<open>Reading leaves the block that is sent alone, and never withdraws the permission to cut packets.\<close>

definition same_side :: "'i streamer \<Rightarrow> 'i streamer \<Rightarrow> bool" where
  "same_side st st' = (ps_wpending st' = ps_wpending st \<and> ps_wpending_size st' = ps_wpending_size st \<and>
     (ps_accepts st \<longrightarrow> ps_accepts st'))"

lemma same_side_trans: "same_side st st' \<Longrightarrow> same_side st' st'' \<Longrightarrow> same_side st st''"
  by (simp add: same_side_def)

lemma start_same: "start_packet reads st = Inr (r, reads', st') \<Longrightarrow> same_side st st'"
  by (auto simp: start_packet_def same_side_def Let_def split: sum.splits option.splits if_splits)

lemma finish_same: "finish_packet deserialise n st = Inr st' \<Longrightarrow> same_side st st'"
  by (auto simp: finish_packet_def same_side_def Let_def split: sum.splits option.splits if_splits)

lemma continue_same: "continue_packet deserialise reads st = Inr (r, reads', st') \<Longrightarrow> same_side st st'"
  unfolding continue_packet_def Let_def
  by (auto split: sum.splits if_splits dest!: finish_same) (auto simp: same_side_def)

lemma read_packet_same: "read_packet deserialise reads st = Inr (r, reads', st') \<Longrightarrow> same_side st st'"
  unfolding read_packet_def
  by (auto split: sum.splits option.splits if_splits dest!: start_same continue_same intro: same_side_trans)

lemma incoming_loop_same: "incoming_loop deserialise maxin rb mores reads st = Inr (r, reads', st') \<Longrightarrow> same_side st st'"
proof (induction deserialise maxin rb mores reads st rule: incoming_loop.induct)
  case (1 deserialise maxin rb mores reads st)
  obtain r1 n reads1 st1 where rp: "read_packet deserialise reads st = Inr ((r1, n), reads1, st1)"
    using 1(2) by (subst (asm) incoming_loop.simps) (auto split: sum.splits)
  have s: "same_side st st1" by (rule read_packet_same [OF rp])
  show ?case
  proof (cases "r1 = None \<and> (\<exists>m mores'. mores = m # mores' \<and> maxin > sint (rb + n) \<and> m)")
    case True
    then obtain m mores' where m: "r1 = None" "mores = m # mores'" "maxin > sint (rb + n) \<and> m" by blast
    then have "incoming_loop deserialise maxin (rb + n) mores' reads1 st1 = Inr (r, reads', st')"
      using 1(2) rp by (subst (asm) incoming_loop.simps) simp
    then show ?thesis using 1(1) [OF rp refl refl m(1) refl m(2) m(3)] s same_side_trans by blast
  next
    case False
    then have "st' = st1" using 1(2) rp by (subst (asm) incoming_loop.simps) (auto split: option.splits list.splits if_splits)
    then show ?thesis using s by simp
  qed
qed

lemma handleincoming_same:
  "handleincoming deserialise True maxin mores reads q st = Inr (r, reads', q', st') \<Longrightarrow> same_side st st' \<and> q' = q"
  by (auto simp: handleincoming_def allocate_rpend_def split: sum.splits if_splits dest!: incoming_loop_same)
    (auto simp: same_side_def)

lemma handleoutgoing_active:
  "handleoutgoing_locked F now True maxbytes answers q st = outgoing_loop F now maxbytes answers 0 [] q st"
  by (simp add: handleoutgoing_locked_def)

lemma link_keeps: "link F q st puts s \<Longrightarrow> \<exists>us. link_ok F q st puts us s"
proof (induction rule: link.induct)
  case (connected alpha)
  have "sending F (make_pqiQoSstreamer F alpha) False [] []"
    by (simp add: sending_def sender.start levels_make whole_heads_def list_all_iff)
  then have "link_ok F (make_pqiQoSstreamer F alpha) make_pqistreamer [] [] []"
    by (simp add: link_ok_def make_pqistreamer_def wp_ok_def pending_bytes_def)
  then show ?case by blast
next
  case (submit q st puts s item priority q')
  then obtain us where l: "link_ok F q st puts us s" by blast
  have len: "length item < 2 ^ 31" using submit(2) by (simp add: sendable_def max_size)
  have s: "sender F q puts (unit_slices us)" using l by (simp add: link_ok_def sending_def)
  have "sender F q' (puts @ [(level_of priority q, item)]) (unit_slices us)"
    using sender.put [OF s len submit(3-5)] .
  moreover have i: "qos_inv q" using sender_keeps [OF s] by (simp add: sender_inv_def)
  obtain q1 where "locked_storeInOutputQueue item (of_nat (length item)) priority q = Inr q1"
    "levels q1 = (levels q)[level_of priority q := levels q ! level_of priority q @ [new_record item (qos_id_counter q)]]"
    by (rule store_effect [OF i len submit(3), of priority])
  then have "whole_heads (levels q')" if "whole_heads (levels q)"
    using that submit(5) i
    by (cases "level_of priority q < length (levels q)")
      (auto simp: whole_heads_def list_all_length nth_list_update new_record_def nth_append)
  ultimately have "link_ok F q' st (puts @ [(level_of priority q, item)]) us s"
    using l submit(2) by (auto simp: link_ok_def sending_def)
  then show ?case by blast
next
  case (transmit q st puts s now maxbytes answers r sent q' st')
  then obtain us where "link_ok F q st puts us (s @ [])" by auto
  from outgoing_loop_sends [OF this, of now maxbytes answers 0] show ?case
    using transmit(2) unfolding handleoutgoing_active by auto
next
  case (listen q st puts s deserialise maxin mores reads r reads' q' st')
  then obtain us where "link_ok F q st puts us s" by blast
  moreover have ss: "same_side st st'" "q' = q" using handleincoming_same [OF listen(2)] by blast+
  moreover have "wp_ok st' = wp_ok st" "pending_bytes st' = pending_bytes st"
    using ss(1) by (cases "ps_wpending st"; simp add: same_side_def wp_ok_def pending_bytes_def)+
  ultimately have "link_ok F q' st' puts us s" by (auto simp: link_ok_def sending_def same_side_def)
  then show ?case by blast
qed

subsection \<open>Delivery\<close>

lemma sender_parts_bounded: "sender F q puts outs \<Longrightarrow> fst (joined (take n outs)) pid = Some x \<Longrightarrow> length x < 2 ^ 31"
proof (induction arbitrary: n rule: sender.induct)
  case (start alpha)
  then show ?case by (simp add: joined_def)
next
  case (put q puts outs item priority q')
  then show ?case by blast
next
  case (pop q puts outs ms out out' q')
  show ?case
  proof (cases "n \<le> length outs")
    case True
    then show ?thesis using pop.IH [of n] pop.prems by simp
  next
    case False
    let ?outs = "outs @ [(level_holding (so_id out') (levels q), out')]"
    have t: "fst (joined ?outs) pid = Some x" using pop.prems False by simp
    have i: "sender_inv q' puts ?outs" by (rule sender_keeps [OF sender.pop [OF pop.hyps(1-4)]])
    then have T: "table_ok (fst (joined ?outs)) (levels q')" "qos_inv q'" by (simp_all add: sender_inv_def)
    obtain k r where k: "k < length (levels q')" "r \<in> set (levels q' ! k)" "ir_id r = pid"
      using part_tableD(2) [OF T(1), of pid] t by (auto simp: ids_def)
    have "level_ok (levels q' ! k)" by (rule qos_inv_level [OF T(2) k(1)])
    then have "record_ok r" using k(2) by (auto simp: level_ok_def list_all_iff)
    moreover have "x = take (unat (ir_current_offset r)) (ir_data r)"
      using part_tableD(1) [OF T(1) k(1,2)] t k(3) by (simp split: if_splits)
    ultimately show ?thesis by (auto simp: record_ok_def min_def)
  qed
qed

lemma link_good: "link_ok F q st puts us s \<Longrightarrow> good_units us"
  unfolding link_ok_def sending_def good_units_def using sender_parts_bounded by blast

lemma link_delivers:
  assumes l: "link F q st puts s" and p: "ps_wpending st = No_block" and c: "comes s reads"
    and n: "length reads \<le> length calls" "calls \<noteq> []"
  shows "\<exists>st' got. receive deserialise calls reads q2 make_pqistreamer = Inr ([], st') \<and>
    ps_incoming st' = decoded_all deserialise got \<and> history_ok puts got (levels q)"
proof -
  obtain us where us: "link_ok F q st puts us s" using link_keeps [OF l] by blast
  have s: "s = stream_bytes us" using us p by (simp add: link_ok_def pending_bytes_def)
  have g: "good_units us" by (rule link_good [OF us])
  have "arrives us reads" using comes_arrives [OF c s] g by (simp add: good_units_def)
  then have "receiving deserialise [] us reads (allocate_rpend make_pqistreamer)" by (rule receiving_start)
  from receive_all [OF this _ n, of q2] g obtain st' where
    r: "receive deserialise calls reads q2 make_pqistreamer = Inr ([], st')" "receiving deserialise us [] [] st'" by auto
  have "history_ok puts (snd (joined (unit_slices us))) (levels q)"
    using us sender_keeps by (auto simp: link_ok_def sending_def sender_inv_def)
  then show ?thesis using r by (auto simp: receiving_def dealt_with_def)
qed

subsection \<open>Properties\<close>

text \<open>An arithmetic for the examples, and a queue with one packet.\<close>

definition nat_floats :: "nat float_ops" where
  "nat_floats = \<lparr>f_zero = 0, f_one = 1, f_mul = (*), f_add = (+), f_sub = (-), f_ge = (\<ge>)\<rparr>"

definition demo_item :: bytes where
  "demo_item = [0x02, 0, 0, 0, 0, 0, 0, 9, 42]"

definition demo_queue :: "nat pqiQoSstreamer" where
  "demo_queue = (case locked_storeInOutputQueue demo_item 9 3 (make_pqiQoSstreamer nat_floats 2) of
     Inr q \<Rightarrow> q | Inl _ \<Rightarrow> make_pqiQoSstreamer nat_floats 2)"

declare fill_block.simps [code]

lemma demo_stored: "locked_storeInOutputQueue demo_item 9 3 (make_pqiQoSstreamer nat_floats 2) = Inr demo_queue"
  by code_simp

lemma demo_levels: "levels demo_queue = (replicate 10 [])[3 := [\<lparr>ir_data = demo_item, ir_current_offset = 0, ir_size = 9, ir_id = 0\<rparr>]]"
  by code_simp

lemma demo_counts: "bytes_left (levels demo_queue) = 9" "waiting (levels demo_queue) = 1"
  by (simp_all add: demo_levels bytes_left_def level_left_def waiting_def demo_item_def eval_nat_numeral)

lemma demo_reached: "reach (\<lambda>q. \<exists>alpha. q = make_pqiQoSstreamer nat_floats alpha) (queue_step nat_floats) demo_queue"
proof (rule reach_step)
  show "reach (\<lambda>q. \<exists>alpha. q = make_pqiQoSstreamer nat_floats alpha) (queue_step nat_floats) (make_pqiQoSstreamer nat_floats 2)"
    by (rule reach_init) blast
  show "queue_step nat_floats (make_pqiQoSstreamer nat_floats 2) (Store demo_item 3) demo_queue"
    using demo_stored by (intro queue_step.store) (simp_all add: demo_item_def levels_make)
qed

lemma demo_sendable: "sendable demo_item"
  by (simp add: sendable_def packet_ok_def max_size demo_item_def getRsItemSize_def getRawUInt32_def of_be32_def be_dec_def
      is_slice_header_def PACKET_SLICING_PROBE_BYTES_def)

lemma demo_linked: "link nat_floats demo_queue make_pqistreamer [(3, demo_item)] []"
proof -
  have "level_of 3 (make_pqiQoSstreamer nat_floats 2) = 3" by code_simp
  moreover have "locked_storeInOutputQueue demo_item (of_nat (length demo_item)) 3 (make_pqiQoSstreamer nat_floats 2) = Inr demo_queue"
    using demo_stored by (simp add: demo_item_def)
  ultimately show ?thesis
    using link.submit [OF link.connected demo_sendable, of nat_floats 2 3 demo_queue]
    by (simp add: levels_make ids_def list_all_iff)
qed

lemma demo_sent: "\<exists>q st. handleoutgoing_locked nat_floats 100 True 1000 [(True, 17)] demo_queue (make_pqistreamer :: bytes streamer) =
  Some (Inr (0, PACKET_SLICING_PROBE_BYTES @ demo_item, q, st)) \<and> ps_wpending st = No_block"
proof -
  have "(case handleoutgoing_locked nat_floats 100 True 1000 [(True, 17)] demo_queue (make_pqistreamer :: bytes streamer) of
    Some (Inr (r, sent, q, st)) \<Rightarrow> r = 0 \<and> sent = PACKET_SLICING_PROBE_BYTES @ demo_item \<and> ps_wpending st = No_block
    | _ \<Rightarrow> False)"
    by code_simp
  then show ?thesis by (auto split: option.splits sum.splits)
qed

lemma demo_comes: "comes (PACKET_SLICING_PROBE_BYTES @ demo_item)
    [Returns (-1), Delivers PACKET_SLICING_PROBE_BYTES, Delivers (take 8 demo_item), Returns (-1), Delivers [42]]"
proof -
  have "unit_ok demo_item"
    using demo_sendable by (simp add: sendable_def packet_ok_def unit_ok_def header_extralen_def getRsPktBaseSize_def)
  from comes.packet_bytes [OF comes.no_bytes this, of 1] have
    "comes demo_item [Delivers (take 8 demo_item), Returns (-1), Delivers [42]]"
    by (simp add: demo_item_def max_failed_read_attempts_def)
  then show ?thesis by (intro comes.hold comes.probe_bytes)
qed

text \<open>C11. The totals of the streamer are exact in every state that its calls can produce: the bytes that
  wait to be sent, slices that have left counted out, and the number of packets, both modulo
  \<open>2 ^ 32\<close>; every read position is inside its packet.\<close>

theorem queue_totals_exact:
  assumes "reach (\<lambda>q. \<exists>alpha. q = make_pqiQoSstreamer F alpha) (queue_step F) q"
  shows "qos_inv q \<and> qs_total_item_size q = of_nat (bytes_left (levels q)) \<and>
    qs_total_item_count q = of_nat (waiting (levels q))"
  using packets.reach_inv [OF assms] by (simp add: accounted_def)

theorem queue_totals_exact_witness:
  "qos_inv demo_queue \<and> qs_total_item_size demo_queue = 9 \<and> qs_total_item_count demo_queue = 1"
  using queue_totals_exact [OF demo_reached]
  by (simp add: demo_counts)

text \<open>C25. No packet waits for ever: whatever the arithmetic of the counters, the calls that take slices of any
  positive size up to a gigabyte empty the queue, and none of them fails.\<close>

theorem queue_is_emptied:
  assumes "reach (\<lambda>q. \<exists>alpha. q = make_pqiQoSstreamer F alpha) (queue_step F) q"
    and "0 < unat ms" "unat ms \<le> 1024 * 1024 * 1024" and "bytes_left (levels q) + waiting (levels q) \<le> n"
  shows "\<exists>outs q'. take_slices F ms n out q = Inr (outs, q') \<and> waiting (levels q') = 0"
proof -
  have "qos_inv q" using packets.reach_inv [OF assms(1)] by (simp add: accounted_def)
  then show ?thesis using take_slices_empties [of q ms n F out] assms(2-4) by (auto simp: slice_limit_def)
qed

theorem queue_is_emptied_witness:
  "\<exists>outs q'. take_slices nat_floats 4 10 no_slice demo_queue = Inr (outs, q') \<and> waiting (levels q') = 0"
  by (rule queue_is_emptied [OF demo_reached])
    (simp_all add: demo_counts)

text \<open>C3. The packets that the reader at the other end hands to the deserialiser, once it has read all that was
  sent, are for each priority level those that were stored at that level, complete and in order, but for
  the ones that still wait. The limits, the number of slices in a block, the failed reads and the way the
  calls of \<^verbatim>\<open>handleincoming\<close> cut the stream do not matter. The packets that are stored are well-formed and
  shorter than the reader's block, no two packets that wait have the same id, and the reader waits for no
  packet more than two thousand times.\<close>

theorem stream_delivers_in_order:
  assumes "link F q st puts s" "ps_wpending st = No_block" "comes s reads" "length reads < length calls"
  shows "\<exists>st' got. receive deserialise calls reads q2 make_pqistreamer = Inr ([], st') \<and>
    ps_incoming st' = decoded_all deserialise got \<and> history_ok puts got (levels q)"
  using link_delivers [OF assms(1-3), of calls deserialise q2] assms(4) by fastforce

theorem stream_delivers_in_order_witness:
  "\<exists>q st st' got. link nat_floats q (st :: bytes streamer) [(3, demo_item)] (PACKET_SLICING_PROBE_BYTES @ demo_item) \<and>
    receive (Some :: bytes \<Rightarrow> bytes option) (replicate 6 (1000, [True]))
      [Returns (-1), Delivers PACKET_SLICING_PROBE_BYTES, Delivers (take 8 demo_item), Returns (-1), Delivers [42]]
      demo_queue make_pqistreamer = Inr ([], st') \<and>
    ps_incoming st' = decoded_all Some got \<and> history_ok [(3, demo_item)] got (levels q)"
proof -
  obtain q and st :: "bytes streamer" where
    s: "handleoutgoing_locked nat_floats 100 True 1000 [(True, 17)] demo_queue make_pqistreamer =
      Some (Inr (0, PACKET_SLICING_PROBE_BYTES @ demo_item, q, st))" "ps_wpending st = No_block"
    using demo_sent by blast
  have l: "link nat_floats q st [(3, demo_item)] (PACKET_SLICING_PROBE_BYTES @ demo_item)"
    using link.transmit [OF demo_linked s(1)] by simp
  show ?thesis
    using l stream_delivers_in_order [OF l s(2) demo_comes, of "replicate 6 (1000, [True])" Some demo_queue] by simp blast
qed

text \<open>C19. On a connection whose packets are well-formed and shorter than the reader's block,
  \<^verbatim>\<open>handleoutgoing_locked\<close> ends in every state, with no fault, and what it leaves to be sent is bounded.\<close>

theorem outgoing_always_ends:
  assumes "link F q st puts s"
  shows "\<exists>r sent q' st'. handleoutgoing_locked F now True maxbytes answers q st = Some (Inr (r, sent, q', st')) \<and>
    length (pending_bytes st') < 262655"
proof -
  obtain us where "link_ok F q st puts us (s @ [])" using link_keeps [OF assms] by auto
  from outgoing_loop_sends [OF this, of now maxbytes answers 0] show ?thesis
    unfolding handleoutgoing_active link_ok_def by (fastforce simp: max_size)
qed

theorem outgoing_always_ends_witness:
  "\<exists>r sent q' st'. handleoutgoing_locked nat_floats 100 True 1000 [(True, 17)] demo_queue (make_pqistreamer :: bytes streamer) =
    Some (Inr (r, sent, q', st')) \<and> length (pending_bytes st') < 262655"
  by (rule outgoing_always_ends [OF demo_linked])

end
