(* ===== verification/Stream_Faults.thy ===== *)
theory Stream_Faults
  imports Stream_Props
begin

text \<open>
  The inputs and sequences of calls for which \<^verbatim>\<open>pqistreamer\<close> ends the process, stops reading, or uses memory
  that it has freed.
\<close>

subsection \<open>What a peer can send\<close>

definition can_start :: "'i streamer \<Rightarrow> bool" where
  "can_start st = (\<not> ps_started st \<and> (ps_rpending st = [] \<or> length (ps_rpending st) = unat getRsPktMaxSize))"

lemma can_start_ready: "can_start st \<Longrightarrow> ready (allocate_rpend st) \<and> ps_partial (allocate_rpend st) = ps_partial st"
  by (auto simp: can_start_def ready_def allocate_rpend_def max_size)

lemma fault_propagates:
  assumes "read_packet deserialise reads (allocate_rpend st) = Inl e"
  shows "handleincoming deserialise True maxin mores reads q st = Inl e"
  using assms by (simp add: handleincoming_def) (subst incoming_loop.simps, simp)

lemma start_header:
  assumes "ready st" "length w = 8" "w \<noteq> PACKET_SLICING_PROBE_BYTES"
  shows "\<exists>st'. start_packet (Delivers w # rest) st = Inr (None, rest, st') \<and> started w st' \<and>
    ps_partial st' = ps_partial st"
  using assms by (simp add: start_packet_def ready_def started_def max_size Let_def overwrite_def)

text \<open>C18. A slice that starts a packet and carries no bytes makes the reader ask for a block of no bytes,
  for which \<^verbatim>\<open>rs_malloc\<close> ends the process: any peer can stop the program with eight bytes.\<close>

theorem empty_starting_slice_exits:
  assumes "can_start st" and "map_of (ps_partial st) (header_packet_id [0x10, 0x01, a, b, c, d, 0, 0]) = None"
  shows "handleincoming deserialise True maxin mores (Delivers [0x10, 0x01, a, b, c, d, 0, 0] # reads) q st =
    Inl Process_exit"
proof (rule fault_propagates)
  let ?w = "[0x10, 0x01, a, b, c, d, 0, 0] :: bytes"
  note r = can_start_ready [OF assms(1), THEN conjunct1]
  have w: "unit_ok ?w" "is_slice_header ?w"
    by (simp_all add: unit_ok_def max_size PACKET_SLICING_PROBE_BYTES_def header_extralen_def is_slice_header_def)
  from start_unit [OF r w(1), of reads] obtain st1 where
    s: "start_packet (Delivers ?w # reads) (allocate_rpend st) = Inr (None, reads, st1)" "started ?w st1"
    "ps_partial st1 = ps_partial (allocate_rpend st)" by auto
  from continue_unit [OF s(2) w(1), of reads reads deserialise] obtain st2 n where
    c: "continue_packet deserialise reads st1 = (case finish_packet deserialise 8 st2 of
         Inl e \<Rightarrow> Inl e | Inr st' \<Rightarrow> Inr ((None, n), reads, st'))" "holds ?w st2" "ps_partial st2 = ps_partial st1" by auto
  define bl where "bl = ps_rpending st2"
  have l: "length ?w = 8" "take 8 ?w = ?w" by simp_all
  have "take 8 bl = take 8 ?w" "8 \<le> length bl" using c(2) unfolding holds_def l bl_def by (simp_all add: max_size)
  note h = header_prefix [OF this, simplified]
  have "map_of (ps_partial st2) (header_packet_id bl) = None"
    using assms(2) c(3) s(3) can_start_ready [OF assms(1)] by (simp add: h)
  then have "finish_packet deserialise 8 st2 = Inl Process_exit"
    using w(2) by (simp add: finish_packet_def Let_def bl_def [symmetric] h addPartialPacket_def rs_malloc_def)
  then show "read_packet deserialise (Delivers ?w # reads) (allocate_rpend st) = Inl Process_exit"
    using r s(1) c(1) by (simp add: read_packet_def ready_def)
qed

theorem empty_starting_slice_exits_witness:
  "handleincoming (Some :: bytes \<Rightarrow> bytes option) True 1000 [] [Delivers [0x10, 0x01, 0, 0, 0, 7, 0, 0]] demo_queue make_pqistreamer =
    Inl Process_exit"
  by (rule empty_starting_slice_exits) (simp_all add: can_start_def make_pqistreamer_def)

subsection \<open>A length that has wrapped\<close>

text \<open>A reader in the middle of a packet whose length field is below that of the header: what is left to
  read is negative. It is not one that \<^verbatim>\<open>-1\<close>, the answer of a read that failed, is equal to.\<close>

definition stalled :: "'i streamer \<Rightarrow> bool" where
  "stalled st = (ps_started st \<and> length (ps_rpending st) = unat getRsPktMaxSize \<and> \<not> is_slice_header (ps_rpending st) \<and>
     getRsItemSize (ps_rpending st) < 7)"

text \<open>Whatever the interface holds, it can answer a negative length only in these ways.\<close>

fun refuses :: "bio_read list \<Rightarrow> bool" where
  "refuses (Returns n # reads) = (n = -1 \<or> n = 0)"
| "refuses reads = True"

lemma wrapped_length:
  assumes "\<not> is_slice_header b" "getRsItemSize b < 8"
  shows "unat (header_extralen b) = unat (getRsItemSize b) + 4294967288"
proof -
  have "header_extralen b = getRsItemSize b + 4294967288" using assms(1) by (simp add: header_extralen_def getRsPktBaseSize_def)
  then show ?thesis using assms(2) by simp (subst unat_add_u32_id, simp_all add: word_less_nat_alt)
qed

lemma wrapped_length_passes:
  assumes "\<not> is_slice_header b" "getRsItemSize b < 8" "length b = unat getRsPktMaxSize"
  shows "\<not> header_extralen b + getRsPktBaseSize > of_nat (length b)" "header_extralen b > 0" "sint (header_extralen b) < 0"
proof -
  have "header_extralen b + getRsPktBaseSize = getRsItemSize b" using assms(1) by (simp add: header_extralen_def)
  then show "\<not> header_extralen b + getRsPktBaseSize > of_nat (length b)"
    using assms(2,3) by (simp add: word_less_nat_alt max_size)
  show "header_extralen b > 0" using wrapped_length [OF assms(1,2)] by (simp add: word_less_nat_alt)
  have "unat (getRsItemSize b) < 8" using assms(2) by (simp add: word_less_nat_alt)
  then have w: "\<not> unat (header_extralen b) < 2147483648" "unat (header_extralen b) < 4294967296"
    using wrapped_length [OF assms(1,2)] by linarith+
  show "sint (header_extralen b) < 0" unfolding sint_of_length if_not_P [OF w(1)] using w(2) by linarith
qed

lemma refused_read:
  assumes "refuses reads" "len < 0"
  obtains n rest where "readdata pos len reads b = Inr (n, rest, b)" "n = -1 \<or> n = 0"
  using assms by (cases reads rule: refuses.cases) auto

lemma wrapped_is_no_answer:
  assumes "\<not> is_slice_header b" "getRsItemSize b < 7" "n = -1 \<or> n = (0::int)"
  shows "word_of_int n \<noteq> header_extralen b"
proof -
  have lt: "unat (getRsItemSize b) < 7" "getRsItemSize b < 8" using assms(2) by (simp_all add: word_less_nat_alt)
  have "unat (- 1 :: u32) = 4294967295" by (simp add: unsigned_minus_1_eq_mask mask_eq_exp_minus_1)
  then have "header_extralen b \<noteq> -1" "header_extralen b \<noteq> 0"
    using wrapped_length [OF assms(1) lt(2)] lt(1) by auto
  then show ?thesis using assms(3) by auto
qed

text \<open>One call: the read fails and is counted, until there have been 2000 of them.\<close>

lemma stalled_continue:
  assumes "stalled st" "refuses reads"
  shows "\<exists>rest. continue_packet deserialise reads st =
    Inr (if ps_failed st < 2000 then ((Some 0, 0), rest, st\<lparr>ps_failed := ps_failed st + 1\<rparr>)
         else ((Some (-1), 0), rest, st\<lparr>ps_closed := True, ps_started := False, ps_failed := 0\<rparr>))"
proof -
  let ?b = "ps_rpending st"
  have b: "\<not> is_slice_header ?b" "getRsItemSize ?b < 7" "length ?b = unat getRsPktMaxSize"
    using assms(1) by (simp_all add: stalled_def)
  have "getRsItemSize ?b < 8" using b(2) by (simp add: word_less_nat_alt)
  note w = wrapped_length_passes [OF b(1) this b(3)]
  obtain n rest where r: "readdata 8 (sint (header_extralen ?b)) reads ?b = Inr (n, rest, ?b)" "n = -1 \<or> n = 0"
    by (rule refused_read [OF assms(2) w(3)])
  show ?thesis
    using w(1,2) r wrapped_is_no_answer [OF b(1,2) r(2)] b(1)
    by (intro exI [of _ rest]) (simp add: continue_packet_def Let_def max_failed_read_attempts_def)
qed

lemma stalled_call:
  assumes "stalled st" "refuses reads"
  shows "\<exists>rest. handleincoming deserialise True maxin mores reads q st =
    Inr (if ps_failed st < 2000 then (0, rest, q, st\<lparr>ps_failed := ps_failed st + 1\<rparr>)
         else (-1, rest, q, st\<lparr>ps_closed := True, ps_started := False, ps_failed := 0\<rparr>))"
proof -
  have s: "allocate_rpend st = st" "ps_started st" using assms(1) by (auto simp: stalled_def allocate_rpend_def max_size)
  obtain rest where "continue_packet deserialise reads st =
    Inr (if ps_failed st < 2000 then ((Some 0, 0), rest, st\<lparr>ps_failed := ps_failed st + 1\<rparr>)
         else ((Some (-1), 0), rest, st\<lparr>ps_closed := True, ps_started := False, ps_failed := 0\<rparr>))"
    using stalled_continue [OF assms] by blast
  then show ?thesis
    unfolding handleincoming_def s by (intro exI [of _ rest]) (subst incoming_loop.simps, simp add: read_packet_def s(2))
qed

text \<open>Calls of \<^verbatim>\<open>handleincoming\<close> one after the other, with what it returns to each.\<close>

fun incoming_calls :: "(bytes \<Rightarrow> 'i option) \<Rightarrow> (int \<times> bool list \<times> bio_read list) list \<Rightarrow> 'f pqiQoSstreamer \<Rightarrow> 'i streamer \<Rightarrow>
    fault + int list \<times> 'f pqiQoSstreamer \<times> 'i streamer" where
  "incoming_calls deserialise [] q st = Inr ([], q, st)"
| "incoming_calls deserialise ((maxin, mores, reads) # calls) q st =
     (case handleincoming deserialise True maxin mores reads q st of
        Inl e \<Rightarrow> Inl e
      | Inr (r, _, q1, st1) \<Rightarrow>
          (case incoming_calls deserialise calls q1 st1 of
             Inl e \<Rightarrow> Inl e
           | Inr (rs, x) \<Rightarrow> Inr (r # rs, x)))"

lemma stalled_calls:
  assumes "stalled st" "list_all (\<lambda>(_, _, reads). refuses reads) calls"
    and "0 \<le> ps_failed st" "length calls = nat (2000 - ps_failed st) + 1" "ps_failed st \<le> 2000"
  shows "incoming_calls deserialise calls q st = Inr (replicate (length calls - 1) 0 @ [-1], q,
    st\<lparr>ps_closed := True, ps_started := False, ps_failed := 0\<rparr>)"
  using assms
proof (induction calls arbitrary: st)
  case (Cons c calls)
  obtain maxin mores reads where c: "c = (maxin, mores, reads)" by (cases c)
  have r: "refuses reads" using Cons.prems(2) by (simp add: c)
  obtain rest where h: "handleincoming deserialise True maxin mores reads q st =
    Inr (if ps_failed st < 2000 then (0, rest, q, st\<lparr>ps_failed := ps_failed st + 1\<rparr>)
         else (-1, rest, q, st\<lparr>ps_closed := True, ps_started := False, ps_failed := 0\<rparr>))"
    using stalled_call [OF Cons.prems(1) r] by blast
  show ?case
  proof (cases "ps_failed st < 2000")
    case True
    let ?st = "st\<lparr>ps_failed := ps_failed st + 1\<rparr>"
    have "length calls = nat (2000 - ps_failed ?st) + 1" using Cons.prems(3,4) True by simp
    moreover have "stalled ?st" using Cons.prems(1) by (simp add: stalled_def)
    ultimately have "incoming_calls deserialise calls q ?st =
      Inr (replicate (length calls - 1) 0 @ [-1], q, ?st\<lparr>ps_closed := True, ps_started := False, ps_failed := 0\<rparr>)"
      using Cons.prems(2,3) True by (intro Cons.IH) auto
    moreover have "length calls = Suc (length calls - 1)" using Cons.prems(3,4) True by simp
    ultimately show ?thesis using True h by (simp add: c flip: replicate_Suc)
  next
    case False
    then have "calls = []" using Cons.prems(4,5) by simp
    then show ?thesis using False h by (simp add: c)
  qed
qed simp

text \<open>A header with such a length field.\<close>

lemma short_header_read:
  assumes "can_start st" and "length h = 8" "\<not> is_slice_header h" "getRsItemSize h < 8"
  obtains st1 where "start_packet (Delivers h # reads) (allocate_rpend st) = Inr (None, reads, st1)"
    "st1 = (allocate_rpend st)\<lparr>ps_rpending := h @ drop 8 (ps_rpending (allocate_rpend st)), ps_started := True, ps_failed := 0\<rparr>"
    "length (ps_rpending st1) = unat getRsPktMaxSize" "\<not> is_slice_header (ps_rpending st1)"
    "getRsItemSize (ps_rpending st1) = getRsItemSize h" "\<not> ps_started (allocate_rpend st)"
proof -
  let ?a = "allocate_rpend st"
  let ?b = "h @ drop 8 (ps_rpending ?a)"
  have r: "length (ps_rpending ?a) = unat getRsPktMaxSize" "\<not> ps_started ?a"
    using can_start_ready [OF assms(1)] by (simp_all add: ready_def)
  have "getRsItemSize PACKET_SLICING_PROBE_BYTES = 8"
    by (simp add: getRsItemSize_def getRawUInt32_def PACKET_SLICING_PROBE_BYTES_def of_be32_def be_dec_def)
  then have np: "h \<noteq> PACKET_SLICING_PROBE_BYTES" using assms(4) by auto
  have "start_packet (Delivers h # reads) ?a = Inr (None, reads, ?a\<lparr>ps_rpending := ?b, ps_started := True, ps_failed := 0\<rparr>)"
    using r assms(2) np by (simp add: start_packet_def max_size Let_def overwrite_def)
  moreover have "length ?b = unat getRsPktMaxSize" using r(1) assms(2) by (simp add: max_size)
  moreover have "\<not> is_slice_header ?b" using header_prefix(1) [of ?b h] assms(2,3) by simp
  moreover have "getRsItemSize ?b = getRsItemSize h"
    using assms(2) by (simp add: getRsItemSize_def getRawUInt32_def)
  ultimately show thesis using that r(2) by simp
qed

text \<open>C26. A packet whose length field is below seven passes the check for packets that are too big, because
  the length of the header is subtracted from it and the difference wraps. It is not refused: as an \<^verbatim>\<open>int\<close> the
  difference is negative, no interface reads a negative number of bytes, and the reader waits for it in
  vain. As long as the interface stays open (\<^verbatim>\<open>pqissl\<close> may reset itself after such a read, \<^verbatim>\<open>RsFdBinInterface\<close>
  does not) and whatever has arrived, 2000 calls of \<^verbatim>\<open>handleincoming\<close> return as if there was nothing to read yet and
  leave it there; the next one gives up and closes the connection. Nothing is delivered, and of the block
  only the header is written.\<close>

theorem short_length_field_stalls:
  assumes "can_start st" and "length h = 8" "\<not> is_slice_header h" "getRsItemSize h < 7"
    and "refuses reads" "list_all (\<lambda>(_, _, reads). refuses reads) calls" "length calls = 2000"
  shows "\<exists>st'. incoming_calls deserialise ((maxin, mores, Delivers h # reads) # calls) q st =
      Inr (replicate 2000 0 @ [-1], q, st') \<and> ps_closed st' \<and> \<not> ps_started st' \<and> ps_incoming st' = ps_incoming st \<and>
      ps_partial st' = ps_partial st \<and> ps_rpending st' = h @ drop 8 (ps_rpending (allocate_rpend st))"
proof -
  have h8: "getRsItemSize h < 8" using assms(4) by (simp add: word_less_nat_alt)
  obtain st1 where s: "start_packet (Delivers h # reads) (allocate_rpend st) = Inr (None, reads, st1)"
    "st1 = (allocate_rpend st)\<lparr>ps_rpending := h @ drop 8 (ps_rpending (allocate_rpend st)), ps_started := True, ps_failed := 0\<rparr>"
    "length (ps_rpending st1) = unat getRsPktMaxSize" "\<not> is_slice_header (ps_rpending st1)"
    "getRsItemSize (ps_rpending st1) = getRsItemSize h" "\<not> ps_started (allocate_rpend st)"
    by (rule short_header_read [OF assms(1-3) h8])
  have st1: "stalled st1" "ps_failed st1 = 0" using s(2-5) assms(4) by (simp_all add: stalled_def)
  define st2 where "st2 = st1\<lparr>ps_failed := 1\<rparr>"
  obtain rest where "continue_packet deserialise reads st1 = Inr ((Some 0, 0), rest, st2)"
    using stalled_continue [OF st1(1) assms(5), of deserialise] st1(2) by (auto simp: st2_def)
  then have c: "handleincoming deserialise True maxin mores (Delivers h # reads) q st = Inr (0, rest, q, st2)"
    unfolding handleincoming_def by (subst incoming_loop.simps) (simp add: read_packet_def s(1,6))
  have st2: "stalled st2" "ps_failed st2 = 1" using st1(1) by (simp_all add: stalled_def st2_def)
  have "incoming_calls deserialise calls q st2 = Inr (replicate (length calls - 1) 0 @ [-1], q,
      st2\<lparr>ps_closed := True, ps_started := False, ps_failed := 0\<rparr>)"
    by (rule stalled_calls) (simp_all add: st2 assms(6,7))
  moreover have "replicate 2000 (0::int) = 0 # replicate 1999 0" by (simp flip: replicate_Suc)
  moreover have "ps_incoming (allocate_rpend st) = ps_incoming st" "ps_partial (allocate_rpend st) = ps_partial st"
    by (simp_all add: allocate_rpend_def)
  ultimately show ?thesis using c assms(7) by (simp add: st2_def s(2))
qed

theorem short_length_field_stalls_witness:
  "\<exists>st'. incoming_calls (Some :: bytes \<Rightarrow> bytes option) ((1000, [], [Delivers [0x02, 0, 0, 0, 0, 0, 0, 5], Delivers [1, 2, 3]]) #
      replicate 2000 (1000, [], [Delivers [1, 2, 3]])) demo_queue make_pqistreamer =
      Inr (replicate 2000 0 @ [-1], demo_queue, st') \<and> ps_closed st'"
  using short_length_field_stalls [of "make_pqistreamer :: bytes streamer" "[0x02, 0, 0, 0, 0, 0, 0, 5]" "[Delivers [1, 2, 3]]"
      "replicate 2000 (1000, [], [Delivers [1, 2, 3]])" Some 1000 "[]" demo_queue]
  by (auto simp: can_start_def make_pqistreamer_def is_slice_header_def getRsItemSize_def getRawUInt32_def of_be32_def be_dec_def
      list_all_length)

text \<open>With a length field of seven, what is left to read is \<^verbatim>\<open>0xffffffff\<close>, which the answer -1 of a read that
  failed is equal to: the first seven bytes of the header are handed to the serialiser as a packet.\<close>

lemma length_field_seven_completes:
  assumes "can_start st" and "length h = 8" "\<not> is_slice_header h" "getRsItemSize h = 7"
  shows "\<exists>st'. read_packet deserialise (Delivers h # Returns (-1) # reads) (allocate_rpend st) = Inr ((None, 7), reads, st') \<and>
    ps_incoming st' = ps_incoming st @ decoded deserialise (Some (take 7 h)) \<and> \<not> ps_started st'"
proof -
  obtain st1 where s: "start_packet (Delivers h # Returns (-1) # reads) (allocate_rpend st) = Inr (None, Returns (-1) # reads, st1)"
    "st1 = (allocate_rpend st)\<lparr>ps_rpending := h @ drop 8 (ps_rpending (allocate_rpend st)), ps_started := True, ps_failed := 0\<rparr>"
    "length (ps_rpending st1) = unat getRsPktMaxSize" "\<not> is_slice_header (ps_rpending st1)"
    "getRsItemSize (ps_rpending st1) = getRsItemSize h" "\<not> ps_started (allocate_rpend st)"
    by (rule short_header_read [OF assms(1-3)]) (simp add: assms(4))
  let ?b = "ps_rpending st1"
  have e: "header_extralen ?b = -1" using s(4,5) assms(4) by (simp add: header_extralen_def getRsPktBaseSize_def)
  have t: "take 7 ?b = take 7 h" using assms(2) s(2) by simp
  have i: "ps_incoming st1 = ps_incoming st" using s(2) by (simp add: allocate_rpend_def)
  have w: "(0::u32) < -1" "\<not> of_nat (length ?b) < (7::u32)"
    using s(3) by (simp add: word_greater_zero_iff, simp add: word_less_nat_alt max_size)
  have "\<exists>st'. continue_packet deserialise (Returns (-1) # reads) st1 = Inr ((None, -1), reads, st') \<and>
    ps_incoming st' = ps_incoming st1 @ decoded deserialise (Some (take 7 h)) \<and> \<not> ps_started st'"
    using w s(4) t
    by (cases "deserialise (take 7 h)") (simp_all add: continue_packet_def Let_def e finish_packet_def decoded_def getRsPktBaseSize_def)
  then show ?thesis using s(1,6) i by (auto simp: read_packet_def)
qed

subsection \<open>What is not reset\<close>

text \<open>When a connection is lost in the middle of a packet, \<^verbatim>\<open>free_pend\<close> releases the block but leaves the
  reading state. The next connection goes on with a block of zeros, takes its length for minus eight, and
  reads nothing of what arrives.\<close>

lemma reading_state_survives_reset:
  assumes "ps_started st" "ps_wpending st \<noteq> Freed_block" "refuses reads" "ps_failed st < 2000"
  shows "\<exists>q1 st1 rest. pqistreamer_reset q st = Inr (q1, st1) \<and>
    handleincoming deserialise True maxin mores reads q1 st1 =
      Inr (0, rest, q1, (allocate_rpend st1)\<lparr>ps_failed := ps_failed st + 1\<rparr>) \<and> ps_started st1"
proof -
  define st1 where "st1 = st\<lparr>ps_rpending := [], ps_wpending := No_block, ps_wpending_size := 0, ps_partial := []\<rparr>"
  let ?q = "locked_clear_out_queue q"
  have f: "pqistreamer_reset q st = Inr (?q, st1)"
    using assms(2) by (simp add: pqistreamer_reset_def free_pend_def st1_def)
  let ?a = "allocate_rpend st1"
  have b: "ps_rpending ?a = replicate (unat getRsPktMaxSize) 0" by (simp add: allocate_rpend_def st1_def)
  have z: "getRsItemSize (ps_rpending ?a) = 0"
    by (simp add: b max_size getRsItemSize_def getRawUInt32_def of_be32_def) (simp add: be_dec_def eval_nat_numeral)
  have a: "ps_started ?a" "ps_failed ?a = ps_failed st" "allocate_rpend ?a = ?a"
    using assms(1) by (simp_all add: allocate_rpend_def st1_def max_size)
  have "stalled ?a" using a(1) z by (simp add: stalled_def b is_slice_header_def max_size)
  from stalled_call [OF this assms(3), of deserialise maxin mores ?q] obtain rest where
    "handleincoming deserialise True maxin mores reads ?q ?a = Inr (0, rest, ?q, ?a\<lparr>ps_failed := ps_failed st + 1\<rparr>)"
    using assms(4) a(2) by auto
  then have "handleincoming deserialise True maxin mores reads ?q st1 = Inr (0, rest, ?q, ?a\<lparr>ps_failed := ps_failed st + 1\<rparr>)"
    by (simp add: handleincoming_def a(3))
  moreover have "ps_started st1" using assms(1) by (simp add: st1_def)
  ultimately show ?thesis using f by blast
qed

text \<open>C39. When the first packet that waits is too long for a peer that does not take slices, and the probe has
  been put into the block before it, the block is freed and its pointer kept. The next call sends the
  block that was freed; closing the connection frees it again.\<close>

theorem oversized_packet_leaves_freed_block:
  assumes "locked_pop_out_data F getRsPktMaxSize no_slice q = Inr (out, q')" "so_data out = Some d"
    and "\<not> (so_starts out \<and> so_ends out)" "unat (so_size out) \<le> length d"
    and "ps_wpending st = No_block" "\<not> ps_accepts st" "ps_last_probe st + 60 < now" "0 \<le> maxbytes"
  shows "\<exists>st'. handleoutgoing_locked F now True maxbytes ((True, ss) # answers) q st = Some (Inr (-1, [], q', st')) \<and>
    handleoutgoing_locked F now' True maxbytes ((True, ss') # answers') q2 st' = Some (Inl Use_after_free) \<and>
    pqistreamer_reset q2 st' = Inl Use_after_free"
proof -
  define st1 where "st1 = insert_probe now (st\<lparr>ps_wpending_size := 0\<rparr>)"
  have st1: "ps_wpending st1 = Block PACKET_SLICING_PROBE_BYTES" "\<not> ps_accepts st1"
    using assms(6,7) by (simp_all add: st1_def insert_probe_def)
  define st2 where "st2 = st1\<lparr>ps_wpending := Freed_block, ps_wpending_size := 0\<rparr>"
  have "append_slice out d st1 = Inr (False, st2)"
    using assms(3,4) st1 by (auto simp: append_slice_def Let_def st2_def)
  then have "fill_block F (word_of_int maxbytes) no_slice q st1 = Some (Inr (False, q', st2))"
    using assms(1,2) st1(2) by (subst fill_block.simps) simp
  then show ?thesis
    using assms(5,8) by (auto simp: handleoutgoing_locked_def st1_def [symmetric] st2_def pqistreamer_reset_def free_pend_def)
qed

lemma oversized_waits:
  "\<exists>(q :: nat pqiQoSstreamer) out q' d. locked_pop_out_data nat_floats getRsPktMaxSize no_slice q = Inr (out, q') \<and> so_data out = Some d \<and>
     \<not> (so_starts out \<and> so_ends out) \<and> unat (so_size out) \<le> length d"
proof -
  define item :: bytes where "item = replicate 262144 1"
  let ?q0 = "make_pqiQoSstreamer nat_floats 2 :: nat pqiQoSstreamer"
  have i: "qos_inv ?q0" using make_accounted [of nat_floats 2] by (simp add: accounted_def)
  have len: "length item < 2 ^ 31" "length item = 262144" by (simp_all add: item_def)
  have w0: "waiting (levels ?q0) + 1 < 2 ^ 64" by (simp add: levels_make)
  obtain q where "locked_storeInOutputQueue item (of_nat (length item)) 0 ?q0 = Inr q" and q: "qos_inv q" "levels q = (levels ?q0)[level_of 0 ?q0 := levels ?q0 ! level_of 0 ?q0 @ [new_record item (qos_id_counter ?q0)]]"
    "waiting (levels q) = waiting (levels ?q0) + 1"
    by (rule store_effect [OF i len(1) w0, of 0])
  have lv: "levels q = (replicate 10 [])[level_of 0 ?q0 := [new_record item (qos_id_counter ?q0)]]"
    using q(2) by (simp add: levels_make PQI_QOS_STREAMER_MAX_LEVELS_def level_of_def)
  have lim: "slice_limit getRsPktMaxSize" "waiting (levels q) \<noteq> 0" using q(3) by (simp_all add: slice_limit_def max_size)
  obtain out q' k where e: "locked_pop_out_data nat_floats getRsPktMaxSize no_slice q = Inr (out, q')" "k < length (levels q)"
    "levels q ! k \<noteq> []" "is_slice getRsPktMaxSize (hd (levels q ! k)) out"
    by (rule pop_effect [OF q(1) lim(2,1), of nat_floats no_slice])
  have "levels q ! k = [new_record item (qos_id_counter ?q0)]"
    using e(2,3) unfolding length_levels [symmetric] lv
    by (cases "k = level_of 0 ?q0") simp_all
  then show ?thesis
    using e(1,4) len(2) by (intro exI [of _ q] exI [of _ out] exI [of _ q'])
      (auto simp: is_slice_def slice_ends_def new_record_def max_size)
qed

theorem oversized_packet_leaves_freed_block_witness:
  "\<exists>q q' st'. handleoutgoing_locked nat_floats 100 True 1000 [(True, 8)] q (make_pqistreamer :: bytes streamer) =
      Some (Inr (-1, [], q', st')) \<and>
    handleoutgoing_locked nat_floats 101 True 1000 [(True, 8)] q' st' = Some (Inl Use_after_free) \<and>
    pqistreamer_reset q' st' = Inl Use_after_free"
proof -
  obtain q :: "nat pqiQoSstreamer" and out q' d where e: "locked_pop_out_data nat_floats getRsPktMaxSize no_slice q = Inr (out, q')" "so_data out = Some d"
    "\<not> (so_starts out \<and> so_ends out)" "unat (so_size out) \<le> length d"
    using oversized_waits by blast
  show ?thesis
    using oversized_packet_leaves_freed_block [OF e, of "make_pqistreamer :: bytes streamer" 100 1000 8 "[]" 101 8 "[]" q']
    by (auto simp: make_pqistreamer_def)
qed

end
