(* ===== verification/Tcp_Packet.thy ===== *)
theory Tcp_Packet
  imports RS_Prelude
begin

text \<open>
  \<^verbatim>\<open>tcponudp/tcppacket.cc\<close>: the packets of the reliable stream over UDP, a TCP header of twenty bytes without
  ports, checksum and options, and the data. A packet is read from and written into a datagram; the
  size of a datagram is below the limit of \<^verbatim>\<open>rs_malloc\<close>, whose failure is not modelled here.
\<close>

abbreviation (input) TCP_PSEUDO_HDR_SIZE :: nat where "TCP_PSEUDO_HDR_SIZE \<equiv> 20"
abbreviation (input) TCP_ACK_BIT :: u16 where "TCP_ACK_BIT \<equiv> 0x0008"
abbreviation (input) TCP_RST_BIT :: u16 where "TCP_RST_BIT \<equiv> 0x0020"
abbreviation (input) TCP_SYN_BIT :: u16 where "TCP_SYN_BIT \<equiv> 0x0040"
abbreviation (input) TCP_FIN_BIT :: u16 where "TCP_FIN_BIT \<equiv> 0x0080"

text \<open>\<^verbatim>\<open>data\<close> and \<^verbatim>\<open>datasize\<close> are one list; \<open>'d\<close> is the type of \<^verbatim>\<open>double\<close> times.\<close>

record 'd TcpPacket =
  tp_data :: bytes
  tp_seqno :: u32
  tp_ackno :: u32
  tp_hlen_flags :: u16
  tp_winsize :: u16
  tp_ts :: 'd
  tp_retrans :: u16

definition make_TcpPacket :: "'d \<Rightarrow> bytes \<Rightarrow> 'd TcpPacket" where
  "make_TcpPacket zero dta = \<lparr>tp_data = dta, tp_seqno = 0, tp_ackno = 0, tp_hlen_flags = 0, tp_winsize = 0,
     tp_ts = zero, tp_retrans = 0\<rparr>"

definition hasSyn :: "'d TcpPacket \<Rightarrow> bool" where "hasSyn p = (tp_hlen_flags p AND TCP_SYN_BIT \<noteq> 0)"
definition hasFin :: "'d TcpPacket \<Rightarrow> bool" where "hasFin p = (tp_hlen_flags p AND TCP_FIN_BIT \<noteq> 0)"
definition hasAck :: "'d TcpPacket \<Rightarrow> bool" where "hasAck p = (tp_hlen_flags p AND TCP_ACK_BIT \<noteq> 0)"
definition hasRst :: "'d TcpPacket \<Rightarrow> bool" where "hasRst p = (tp_hlen_flags p AND TCP_RST_BIT \<noteq> 0)"

definition setSyn :: "'d TcpPacket \<Rightarrow> 'd TcpPacket" where
  "setSyn p = p\<lparr>tp_hlen_flags := tp_hlen_flags p OR TCP_SYN_BIT\<rparr>"
definition setFin :: "'d TcpPacket \<Rightarrow> 'd TcpPacket" where
  "setFin p = p\<lparr>tp_hlen_flags := tp_hlen_flags p OR TCP_FIN_BIT\<rparr>"
definition setRst :: "'d TcpPacket \<Rightarrow> 'd TcpPacket" where
  "setRst p = p\<lparr>tp_hlen_flags := tp_hlen_flags p OR TCP_RST_BIT\<rparr>"
definition setAckFlag :: "'d TcpPacket \<Rightarrow> 'd TcpPacket" where
  "setAckFlag p = p\<lparr>tp_hlen_flags := tp_hlen_flags p OR TCP_ACK_BIT\<rparr>"
definition setAck :: "u32 \<Rightarrow> 'd TcpPacket \<Rightarrow> 'd TcpPacket" where
  "setAck val p = (setAckFlag p)\<lparr>tp_ackno := val\<rparr>"

text \<open>The bytes that are left in a buffer of \<open>sz\<close> bytes, none when the packet does not fit.\<close>

definition writePacket :: "'d TcpPacket \<Rightarrow> nat \<Rightarrow> bytes" where
  "writePacket p sz =
     (if sz < TCP_PSEUDO_HDR_SIZE + length (tp_data p) then []
      else be16 0 @ be16 0 @ be32 (tp_seqno p) @ be32 (tp_ackno p) @ be16 (tp_hlen_flags p) @ be16 (tp_winsize p) @
        be16 0 @ be16 0 @ tp_data p)"

definition readPacket :: "bytes \<Rightarrow> 'd TcpPacket \<Rightarrow> 'd TcpPacket option" where
  "readPacket buf p =
     (if length buf < TCP_PSEUDO_HDR_SIZE then None
      else Some (p\<lparr>tp_seqno := of_be32 (take 4 (drop 4 buf)), tp_ackno := of_be32 (take 4 (drop 8 buf)),
        tp_hlen_flags := of_be16 (take 2 (drop 12 buf)), tp_winsize := of_be16 (take 2 (drop 14 buf)),
        tp_data := drop 20 buf\<rparr>))"

subsection \<open>Flags\<close>

named_theorems packet_simps "fields and flags of packets"

lemma setters [packet_simps]:
  "tp_data (setAck v p) = tp_data p" "tp_seqno (setAck v p) = tp_seqno p" "tp_ackno (setAck v p) = v"
  "tp_winsize (setAck v p) = tp_winsize p"
  "tp_data (setFin p) = tp_data p" "tp_data (setSyn p) = tp_data p" "tp_data (make_TcpPacket z dta) = dta"
  by (simp_all add: setAck_def setAckFlag_def setFin_def setSyn_def make_TcpPacket_def)

lemma flags_of_setters [packet_simps]:
  "hasSyn (setAck v p) = hasSyn p" "hasFin (setAck v p) = hasFin p" "hasAck (setAck v p)"
  "hasSyn (setFin p) = hasSyn p" "hasFin (setFin p)" "hasSyn (setSyn p)" "hasFin (setSyn p) = hasFin p"
  "\<not> hasSyn (make_TcpPacket z dta)" "\<not> hasFin (make_TcpPacket z dta)" "\<not> hasAck (make_TcpPacket z dta)"
  by (simp_all add: hasSyn_def hasFin_def hasAck_def setAck_def setAckFlag_def setFin_def setSyn_def make_TcpPacket_def
      bit.conj_disj_distrib2)

lemma flags_of_updates [packet_simps]:
  "hasFin (p\<lparr>tp_winsize := w\<rparr>) = hasFin p" "hasFin (p\<lparr>tp_seqno := n\<rparr>) = hasFin p"
  "hasFin (p\<lparr>tp_ts := t\<rparr>) = hasFin p" "hasFin (p\<lparr>tp_retrans := m\<rparr>) = hasFin p"
  "hasFin (p\<lparr>tp_data := d\<rparr>) = hasFin p"
  by (simp_all add: hasFin_def)

subsection \<open>The form in a datagram\<close>

lemma take_drop_be:
  "take 4 (drop 4 (be16 a @ be16 b @ be32 s @ r)) = be32 s"
  "take 4 (drop 8 (be16 a @ be16 b @ be32 s @ be32 t @ r)) = be32 t"
  "take 2 (drop 12 (be16 a @ be16 b @ be32 s @ be32 t @ be16 f @ r)) = be16 f"
  "take 2 (drop 14 (be16 a @ be16 b @ be32 s @ be32 t @ be16 f @ be16 w @ r)) = be16 w"
  "drop 20 (be16 a @ be16 b @ be32 s @ be32 t @ be16 f @ be16 w @ be16 c @ be16 d @ r) = r"
  by simp_all

text \<open>What is read back from a datagram is what was written.\<close>

definition wire_fields :: "'d TcpPacket \<Rightarrow> bytes \<times> u32 \<times> u32 \<times> u16 \<times> u16" where
  "wire_fields p = (tp_data p, tp_seqno p, tp_ackno p, tp_hlen_flags p, tp_winsize p)"

lemma packet_read_back:
  assumes "20 + length (tp_data p) \<le> sz"
  shows "\<exists>p'. readPacket (writePacket p sz) q = Some p' \<and> wire_fields p' = wire_fields p"
  using assms by (simp add: readPacket_def writePacket_def take_drop_be wire_fields_def)

end
