(* ===== verification/Tcp_Stream.thy ===== *)
theory Tcp_Stream
  imports Tcp_Packet
begin

text \<open>
  \<^verbatim>\<open>tcponudp/tcpstream.cc\<close>: a reliable stream over UDP. An application writes and reads, \<^verbatim>\<open>tick\<close> sends what the
  windows allow, and \<^verbatim>\<open>recvPkt\<close> is called with each datagram that arrives. The arithmetic of \<^verbatim>\<open>double\<close> times
  is an argument of the definitions, so are the clock, which is read once in each call, and the random
  initial sequence number. What is handed to the UDP layer is kept in the state, with its TTL. A buffer
  and the number of bytes in it are one list; results that no caller looks at are left out.
\<close>

record 'd double_ops =
  d_int :: "int \<Rightarrow> 'd"
  d_alpha :: 'd
  d_add :: "'d \<Rightarrow> 'd \<Rightarrow> 'd"
  d_sub :: "'d \<Rightarrow> 'd \<Rightarrow> 'd"
  d_mul :: "'d \<Rightarrow> 'd \<Rightarrow> 'd"
  d_fabs :: "'d \<Rightarrow> 'd"
  d_less :: "'d \<Rightarrow> 'd \<Rightarrow> bool"

abbreviation (input) MAX_SEG :: nat where "MAX_SEG \<equiv> 1000"
abbreviation (input) MAX_SEG32 :: u32 where "MAX_SEG32 \<equiv> 1000"
abbreviation (input) TCP_MAX_SEQ :: u32 where "TCP_MAX_SEQ \<equiv> 0xffffffff"
abbreviation (input) TCP_MAX_WIN :: u32 where "TCP_MAX_WIN \<equiv> 65500"
abbreviation (input) TCP_ALIVE_TIMEOUT :: u32 where "TCP_ALIVE_TIMEOUT \<equiv> 15"
abbreviation (input) TCP_RETRANS_TIMEOUT :: int where "TCP_RETRANS_TIMEOUT \<equiv> 1"
abbreviation (input) TCP_RETRANS_MAX_TIMEOUT :: int where "TCP_RETRANS_MAX_TIMEOUT \<equiv> 15"
abbreviation (input) kNoPktTimeout :: int where "kNoPktTimeout \<equiv> 60"
abbreviation (input) kMaxQueueSize :: nat where "kMaxQueueSize \<equiv> 300"
abbreviation (input) kMaxPktRetransmit :: u16 where "kMaxPktRetransmit \<equiv> 10"
abbreviation (input) kMaxSynPktRetransmit :: u16 where "kMaxSynPktRetransmit \<equiv> 100"
abbreviation (input) TCP_STD_TTL :: int where "TCP_STD_TTL \<equiv> 64"
abbreviation (input) TCP_DEFAULT_FIREWALL_TTL :: int where "TCP_DEFAULT_FIREWALL_TTL \<equiv> 4"

abbreviation (input) TCP_CLOSED :: u8 where "TCP_CLOSED \<equiv> 0"
abbreviation (input) TCP_LISTEN :: u8 where "TCP_LISTEN \<equiv> 1"
abbreviation (input) TCP_SYN_SENT :: u8 where "TCP_SYN_SENT \<equiv> 2"
abbreviation (input) TCP_SYN_RCVD :: u8 where "TCP_SYN_RCVD \<equiv> 3"
abbreviation (input) TCP_ESTABLISHED :: u8 where "TCP_ESTABLISHED \<equiv> 4"
abbreviation (input) TCP_FIN_WAIT_1 :: u8 where "TCP_FIN_WAIT_1 \<equiv> 5"
abbreviation (input) TCP_FIN_WAIT_2 :: u8 where "TCP_FIN_WAIT_2 \<equiv> 6"
abbreviation (input) TCP_TIMED_WAIT :: u8 where "TCP_TIMED_WAIT \<equiv> 7"
abbreviation (input) TCP_CLOSING :: u8 where "TCP_CLOSING \<equiv> 8"
abbreviation (input) TCP_CLOSE_WAIT :: u8 where "TCP_CLOSE_WAIT \<equiv> 9"
abbreviation (input) TCP_LAST_ACK :: u8 where "TCP_LAST_ACK \<equiv> 10"

datatype errno = No_error | EAGAIN | EBADF | EFAULT

record 'd TcpStream =
  inData :: bytes
  outDataRead :: bytes
  outDataNet :: bytes
  inQueue :: "bytes list"
  outQueue :: "bytes list"
  inPkt :: "'d TcpPacket list"
  outPkt :: "'d TcpPacket list"
  ts_state :: u8
  inStreamActive :: bool
  outStreamActive :: bool
  outSeqno :: u32
  outAcked :: u32
  outWinSize :: u32
  inAckno :: u32
  inWinSize :: u32
  maxWinSize :: u32
  keepAliveTimeout :: u32
  retransTimerOn :: bool
  retransTimeout :: 'd
  retransTimerTs :: 'd
  keepAliveTimer :: 'd
  lastIncomingPkt :: 'd
  lastSentAck :: u32
  lastSentWinSize :: u32
  initOurSeqno :: u32
  initPeerSeqno :: u32
  lastWriteTF :: u32
  lastReadTF :: u32
  wcount :: u16
  rcount :: u16
  errorState :: errno
  rtt_est :: 'd
  rtt_dev :: 'd
  congestThreshold :: u32
  congestWinSize :: u32
  congestUpdate :: u32
  ttl :: int
  mTTL_period :: 'd
  mTTL_start :: 'd
  mTTL_end :: 'd
  peerKnown :: bool
  udp_sent :: "(bytes \<times> int) list"

definition make_TcpStream :: "'d double_ops \<Rightarrow> 'd TcpStream" where
  "make_TcpStream D = \<lparr>inData = [], outDataRead = [], outDataNet = [], inQueue = [], outQueue = [], inPkt = [],
     outPkt = [], ts_state = TCP_CLOSED, inStreamActive = False, outStreamActive = False, outSeqno = 0, outAcked = 0,
     outWinSize = 0, inAckno = 0, inWinSize = 0, maxWinSize = TCP_MAX_WIN, keepAliveTimeout = TCP_ALIVE_TIMEOUT,
     retransTimerOn = False, retransTimeout = d_int D TCP_RETRANS_TIMEOUT, retransTimerTs = d_int D 0,
     keepAliveTimer = d_int D 0, lastIncomingPkt = d_int D 0, lastSentAck = 0, lastSentWinSize = 0, initOurSeqno = 0,
     initPeerSeqno = 0, lastWriteTF = 0, lastReadTF = 0, wcount = 0, rcount = 0, errorState = No_error,
     rtt_est = d_int D TCP_RETRANS_TIMEOUT, rtt_dev = d_int D 0, congestThreshold = TCP_MAX_WIN,
     congestWinSize = MAX_SEG32, congestUpdate = 0, ttl = 0, mTTL_period = d_int D 0, mTTL_start = d_int D 0,
     mTTL_end = d_int D 0, peerKnown = False, udp_sent = []\<rparr>"

definition isOldSequence :: "u32 \<Rightarrow> u32 \<Rightarrow> bool" where
  "isOldSequence tst cur = (sint (tst - cur) < 0)"

subsection \<open>Timers\<close>

definition startRetransmitTimer :: "'d \<Rightarrow> 'd TcpStream \<Rightarrow> 'd TcpStream" where
  "startRetransmitTimer cts st =
     (if retransTimerOn st then st else st\<lparr>retransTimerTs := cts, retransTimerOn := True\<rparr>)"

definition stopRetransmitTimer :: "'d TcpStream \<Rightarrow> 'd TcpStream" where
  "stopRetransmitTimer st = (if \<not> retransTimerOn st then st else st\<lparr>retransTimerOn := False\<rparr>)"

definition restartRetransmitTimer :: "'d \<Rightarrow> 'd TcpStream \<Rightarrow> 'd TcpStream" where
  "restartRetransmitTimer cts st = startRetransmitTimer cts (stopRetransmitTimer st)"

definition resetRetransmitTimer :: "'d double_ops \<Rightarrow> 'd TcpStream \<Rightarrow> 'd TcpStream" where
  "resetRetransmitTimer D st = st\<lparr>retransTimerOn := False,
     retransTimeout := d_mul D (d_int D 2) (d_add D (rtt_est st) (d_mul D (d_int D 4) (rtt_dev st)))\<rparr>"

definition incRetransmitTimeout :: "'d double_ops \<Rightarrow> 'd TcpStream \<Rightarrow> 'd TcpStream" where
  "incRetransmitTimeout D st =
     (let t = d_mul D (d_int D 2) (retransTimeout st)
      in st\<lparr>retransTimeout := (if d_less D (d_int D TCP_RETRANS_MAX_TIMEOUT) t then d_int D TCP_RETRANS_MAX_TIMEOUT else t)\<rparr>)"

subsection \<open>Sending a packet\<close>

definition int_read_pending :: "'d TcpStream \<Rightarrow> nat" where
  "int_read_pending st = length (outDataRead st) + length (outQueue st) * MAX_SEG + length (outDataNet st)"

definition UpdateInWinSize :: "'d TcpStream \<Rightarrow> 'd TcpStream" where
  "UpdateInWinSize st =
     (let queuedData = of_nat (int_read_pending st)
      in st\<lparr>inWinSize := (if queuedData < maxWinSize st then maxWinSize st
           else if queuedData < 2 * maxWinSize st then 2 * maxWinSize st - queuedData else 0)\<rparr>)"

text \<open>The packet with the fields that \<^verbatim>\<open>toSend\<close> fills in, and the next sequence number.\<close>

definition stamp :: "'d TcpStream \<Rightarrow> 'd TcpPacket \<Rightarrow> 'd TcpPacket \<times> u32" where
  "stamp st pkt =
     (let pkt1 = pkt\<lparr>tp_winsize := ucast (inWinSize st), tp_seqno := outSeqno st\<rparr>;
          next_seqno = outSeqno st + of_nat (length (tp_data pkt))
      in if hasSyn pkt then (pkt1, next_seqno + 1) else (setAck (inAckno st) pkt1, next_seqno))"

definition toSend :: "'d \<Rightarrow> 'd TcpPacket \<Rightarrow> bool \<Rightarrow> 'd TcpStream \<Rightarrow> 'd TcpStream" where
  "toSend cts pkt retrans st =
     (if \<not> peerKnown st then st
      else (let (pkt1, next_seqno) = stamp st pkt;
                st1 = st\<lparr>outSeqno := next_seqno, lastSentAck := tp_ackno pkt1, lastSentWinSize := ucast (tp_winsize pkt1),
                  keepAliveTimer := cts,
                  udp_sent := udp_sent st @ [(writePacket pkt1 (MAX_SEG + TCP_PSEUDO_HDR_SIZE), ttl st)]\<rparr>
            in if retrans
               then (let st2 = startRetransmitTimer cts st1
                     in st2\<lparr>outPkt := outPkt st2 @ [pkt1\<lparr>tp_ts := cts, tp_retrans := 0\<rparr>]\<rparr>)
               else st1))"

definition sendAck :: "'d double_ops \<Rightarrow> 'd \<Rightarrow> 'd TcpStream \<Rightarrow> 'd TcpStream" where
  "sendAck D cts st = toSend cts (make_TcpPacket (d_int D 0) []) False st"

definition cleanup :: "'d TcpStream \<Rightarrow> 'd TcpStream" where
  "cleanup st = st\<lparr>outStreamActive := False, inStreamActive := False, ts_state := TCP_CLOSED, ttl := TCP_STD_TTL,
     inData := [], inQueue := [], outPkt := [], outDataRead := [], outDataNet := [], outQueue := [], inPkt := []\<rparr>"

subsection \<open>The application's side\<close>

definition tcp_connect :: "'d double_ops \<Rightarrow> 'd \<Rightarrow> u32 \<Rightarrow> u32 \<Rightarrow> 'd TcpStream \<Rightarrow> int \<times> 'd TcpStream" where
  "tcp_connect D cts rnd conn_period st0 =
     (let st = st0\<lparr>peerKnown := True\<rparr> in
      if ts_state st \<noteq> TCP_CLOSED then
        (if ts_state st = TCP_ESTABLISHED then (0, st)
         else if ts_state st < TCP_ESTABLISHED then (-1, st\<lparr>errorState := EAGAIN\<rparr>)
         else (-1, st\<lparr>errorState := EFAULT\<rparr>))
      else (let st1 = st\<lparr>outSeqno := rnd, initOurSeqno := rnd, outAcked := rnd, inWinSize := maxWinSize st,
                  congestThreshold := TCP_MAX_WIN, congestWinSize := MAX_SEG32, congestUpdate := rnd + MAX_SEG32,
                  ttl := 1, mTTL_start := cts, mTTL_period := d_int D (uint conn_period),
                  mTTL_end := d_add D cts (d_int D (uint conn_period))\<rparr>;
                st2 = toSend cts (setSyn (make_TcpPacket (d_int D 0) [])) True st1
            in (-1, st2\<lparr>ts_state := TCP_SYN_SENT, errorState := EAGAIN\<rparr>)))"

definition listenfor :: "'d TcpStream \<Rightarrow> int \<times> 'd TcpStream" where
  "listenfor st0 =
     (let st = st0\<lparr>peerKnown := True\<rparr> in
      if ts_state st \<noteq> TCP_CLOSED then
        (if ts_state st = TCP_ESTABLISHED then (0, st)
         else if ts_state st < TCP_ESTABLISHED then (-1, st\<lparr>errorState := EAGAIN\<rparr>)
         else (-1, st\<lparr>errorState := EFAULT\<rparr>))
      else (-1, st\<lparr>errorState := EAGAIN\<rparr>))"

definition tcp_close :: "'d TcpStream \<Rightarrow> int \<times> 'd TcpStream" where
  "tcp_close st = (0, cleanup st)"

definition closeWrite :: "'d TcpStream \<Rightarrow> int \<times> 'd TcpStream" where
  "closeWrite st =
     (let st1 = st\<lparr>outStreamActive := False\<rparr> in
      if ts_state st = TCP_CLOSED then (0, st1) else (-1, st1\<lparr>errorState := EAGAIN\<rparr>))"

definition isConnected :: "'d TcpStream \<Rightarrow> bool" where
  "isConnected st = (ts_state st = TCP_ESTABLISHED)"

definition write_allowed :: "'d TcpStream \<Rightarrow> int \<times> 'd TcpStream" where
  "write_allowed st =
     (if ts_state st = TCP_CLOSED then (-1, st\<lparr>errorState := EBADF\<rparr>)
      else if ts_state st < TCP_ESTABLISHED then (-1, st\<lparr>errorState := EAGAIN\<rparr>)
      else if \<not> outStreamActive st then (-1, st\<lparr>errorState := EBADF\<rparr>)
      else ((int kMaxQueueSize - int (length (inQueue st))) * int MAX_SEG, st))"

definition read_pending :: "'d TcpStream \<Rightarrow> int \<times> 'd TcpStream" where
  "read_pending st =
     (if ts_state st = TCP_CLOSED then (-1, st\<lparr>errorState := EBADF\<rparr>)
      else if ts_state st < TCP_ESTABLISHED then (-1, st\<lparr>errorState := EAGAIN\<rparr>)
      else (int (int_read_pending st), st))"

text \<open>Whole segments of what is written, and the rest.\<close>

function segments :: "bytes \<Rightarrow> bytes list \<times> bytes" where
  "segments dta = (if length dta < MAX_SEG then ([], dta)
     else (let (segs, rst) = segments (drop MAX_SEG dta) in (take MAX_SEG dta # segs, rst)))"
  by pat_completeness auto
termination by (relation "measure length") auto

declare segments.simps [simp del]

definition tcp_write :: "bytes \<Rightarrow> 'd TcpStream \<Rightarrow> int \<times> 'd TcpStream" where
  "tcp_write dta st =
     (if ts_state st = TCP_CLOSED then (-1, st\<lparr>errorState := EBADF\<rparr>)
      else if ts_state st < TCP_ESTABLISHED then (-1, st\<lparr>errorState := EAGAIN\<rparr>)
      else if length (inQueue st) > kMaxQueueSize then (-1, st\<lparr>errorState := EAGAIN\<rparr>)
      else if \<not> outStreamActive st then (-1, st\<lparr>errorState := EBADF\<rparr>)
      else if length dta + length (inData st) < MAX_SEG then (int (length dta), st\<lparr>inData := inData st @ dta\<rparr>)
      else (let k = MAX_SEG - length (inData st);
                (segs, rst) = segments (drop k dta)
            in (int (length dta), st\<lparr>inQueue := inQueue st @ [inData st @ take k dta] @ segs, inData := rst\<rparr>)))"

text \<open>The loop over \<^verbatim>\<open>outQueue\<close>: \<open>rem\<close> bytes are still wanted. The last component is what goes into
  \<^verbatim>\<open>outDataRead\<close> when a segment is used in part.\<close>

fun read_queue :: "nat \<Rightarrow> bytes list \<Rightarrow> bytes \<times> nat \<times> bytes list \<times> bytes option" where
  "read_queue rm [] = ([], rm, [], None)"
| "read_queue rm (db # q) =
     (if rm = 0 then ([], 0, db # q, None)
      else if rm < MAX_SEG then (take rm db, 0, q, Some (drop rm db))
      else (let (got, rm', q', rst) = read_queue (rm - MAX_SEG) q in (db @ got, rm', q', rst)))"

definition tcp_read :: "nat \<Rightarrow> 'd TcpStream \<Rightarrow> int \<times> bytes \<times> 'd TcpStream" where
  "tcp_read sz0 st =
     (let maxread = int_read_pending st in
      if ts_state st = TCP_CLOSED then (-1, [], st\<lparr>errorState := EBADF\<rparr>)
      else if ts_state st < TCP_ESTABLISHED then (-1, [], st\<lparr>errorState := EAGAIN\<rparr>)
      else if \<not> inStreamActive st \<and> maxread = 0 then (0, [], st)
      else if maxread = 0 then (-1, [], st\<lparr>errorState := EAGAIN\<rparr>)
      else
        (let sz = min maxread sz0 in
         if sz < length (outDataRead st) then
           (int sz, take sz (outDataRead st), UpdateInWinSize (st\<lparr>outDataRead := drop sz (outDataRead st)\<rparr>))
         else
           (let (got, rm, q, rst) = read_queue (sz - length (outDataRead st)) (outQueue st);
                head = outDataRead st @ got
            in case rst of
                 Some r \<Rightarrow> (int sz, head, UpdateInWinSize (st\<lparr>outDataRead := r, outQueue := q\<rparr>))
               | None \<Rightarrow>
                   (if rm > 0 then
                      (int sz, head @ take rm (outDataNet st),
                       UpdateInWinSize (st\<lparr>outDataRead := drop rm (outDataNet st), outQueue := q, outDataNet := []\<rparr>))
                    else (int sz, head, UpdateInWinSize (st\<lparr>outDataRead := [], outQueue := q\<rparr>))))))"

definition TcpState :: "'d TcpStream \<Rightarrow> u8" where "TcpState st = ts_state st"
definition TcpErrorState :: "'d TcpStream \<Rightarrow> errno" where "TcpErrorState st = errorState st"
definition int_wbytes :: "'d TcpStream \<Rightarrow> u32" where "int_wbytes st = outSeqno st - initOurSeqno st - 1"
definition int_rbytes :: "'d TcpStream \<Rightarrow> u32" where "int_rbytes st = inAckno st - initPeerSeqno st - 1"

abbreviation (input) ilevel :: u16 where "ilevel \<equiv> 100"

definition widle :: "'d TcpStream \<Rightarrow> bool \<times> 'd TcpStream" where
  "widle st =
     (if lastWriteTF st = 0 then (False, st\<lparr>lastWriteTF := int_wbytes st\<rparr>)
      else if lastWriteTF st = int_wbytes st \<and> inData st = [] \<and> inQueue st = []
      then (wcount st + 1 > ilevel, st\<lparr>wcount := wcount st + 1\<rparr>)
      else (False, st\<lparr>wcount := 0, lastWriteTF := int_wbytes st\<rparr>))"

definition ridle :: "'d TcpStream \<Rightarrow> bool \<times> 'd TcpStream" where
  "ridle st =
     (if lastReadTF st = 0 then (False, st\<lparr>lastReadTF := int_rbytes st\<rparr>)
      else if lastReadTF st = int_rbytes st \<and> length (outDataRead st) + length (outQueue st) + length (outDataNet st) = 0
      then (rcount st + 1 > ilevel, st\<lparr>rcount := rcount st + 1\<rparr>)
      else (False, st\<lparr>rcount := 0, lastReadTF := int_rbytes st\<rparr>))"

subsection \<open>Datagrams that arrive\<close>

text \<open>The scan of \<^verbatim>\<open>inPkt\<close>: the first packet with the expected number, and the list without it and without the
  old ones before it.\<close>

fun scan_InPkts :: "u32 \<Rightarrow> 'd TcpPacket list \<Rightarrow> 'd TcpPacket option \<times> 'd TcpPacket list" where
  "scan_InPkts ackno [] = (None, [])"
| "scan_InPkts ackno (p # ps) =
     (if tp_seqno p = ackno then (Some p, ps)
      else if isOldSequence (tp_seqno p) ackno then scan_InPkts ackno ps
      else (let (r, ps') = scan_InPkts ackno ps in (r, p # ps')))"

text \<open>The bytes of a packet that fills the buffer: the segment that is completed, the whole segments after it,
  which are all copied from the same place, and the rest.\<close>

definition push_data :: "bytes \<Rightarrow> 'd TcpStream \<Rightarrow> 'd TcpStream" where
  "push_data dta st =
     (if length (outDataNet st) + length dta < MAX_SEG then st\<lparr>outDataNet := outDataNet st @ dta\<rparr>
      else (let remSpace = MAX_SEG - length (outDataNet st);
                remData = length dta - remSpace
            in st\<lparr>outQueue := outQueue st @ [outDataNet st @ take remSpace dta] @
                   replicate (remData div MAX_SEG) (take MAX_SEG (drop remSpace dta)),
                 outDataNet := drop (length dta - remData mod MAX_SEG) dta\<rparr>))"

text \<open>What is done with the packet that was found.\<close>

definition late_ack :: "'d TcpPacket \<Rightarrow> 'd TcpStream \<Rightarrow> 'd TcpStream" where
  "late_ack pkt st =
     (if hasAck pkt \<and> isOldSequence (outAcked st) (tp_ackno pkt)
      then st\<lparr>outAcked := tp_ackno pkt, outWinSize := ucast (tp_winsize pkt)\<rparr> else st)"

definition take_fin :: "'d double_ops \<Rightarrow> 'd \<Rightarrow> 'd TcpPacket \<Rightarrow> 'd TcpStream \<Rightarrow> 'd TcpStream" where
  "take_fin D cts pkt st =
     (if \<not> hasFin pkt then st
      else (let st1 = (sendAck D cts st)\<lparr>inStreamActive := False\<rparr> in
        if ts_state st1 = TCP_ESTABLISHED then st1\<lparr>ts_state := TCP_CLOSE_WAIT\<rparr>
        else if ts_state st1 = TCP_FIN_WAIT_1 then st1\<lparr>ts_state := TCP_CLOSING\<rparr>
        else if ts_state st1 = TCP_FIN_WAIT_2 then cleanup (st1\<lparr>ts_state := TCP_TIMED_WAIT\<rparr>)
        else st1))"

definition take_fin_ack :: "'d TcpPacket \<Rightarrow> 'd TcpStream \<Rightarrow> 'd TcpStream" where
  "take_fin_ack pkt st =
     (if hasAck pkt \<and> \<not> outStreamActive st \<and> tp_ackno pkt = outSeqno st
      then (if ts_state st = TCP_FIN_WAIT_1 then st\<lparr>ts_state := TCP_FIN_WAIT_2\<rparr>
            else if ts_state st = TCP_LAST_ACK then cleanup (st\<lparr>ts_state := TCP_CLOSED\<rparr>)
            else if ts_state st = TCP_CLOSING then cleanup (st\<lparr>ts_state := TCP_TIMED_WAIT\<rparr>)
            else st)
      else st)"

definition take_InPkt :: "'d double_ops \<Rightarrow> 'd \<Rightarrow> 'd TcpPacket \<Rightarrow> 'd TcpStream \<Rightarrow> 'd TcpStream" where
  "take_InPkt D cts pkt st =
     take_fin_ack pkt (take_fin D cts pkt (UpdateInWinSize (push_data (tp_data pkt) (late_ack pkt
       (st\<lparr>inAckno := tp_seqno pkt + of_nat (length (tp_data pkt))\<rparr>)))))"

text \<open>What each step leaves of the packets that wait.\<close>

lemma toSend_inPkt [simp]: "inPkt (toSend cts pkt r st) = inPkt st"
  by (simp add: toSend_def startRetransmitTimer_def Let_def split: prod.split)

lemma sendAck_inPkt [simp]: "inPkt (sendAck D cts st) = inPkt st"
  by (simp add: sendAck_def)

lemma late_ack_inPkt [simp]: "inPkt (late_ack pkt st) = inPkt st"
  by (simp add: late_ack_def)

lemma push_data_inPkt [simp]: "inPkt (push_data dta st) = inPkt st"
  by (simp add: push_data_def Let_def)

lemma UpdateInWinSize_inPkt [simp]: "inPkt (UpdateInWinSize st) = inPkt st"
  by (simp add: UpdateInWinSize_def Let_def)

lemma take_fin_inPkt: "length (inPkt (take_fin D cts pkt st)) \<le> length (inPkt st)"
  by (simp add: take_fin_def cleanup_def Let_def)

lemma take_fin_ack_inPkt: "length (inPkt (take_fin_ack pkt st)) \<le> length (inPkt st)"
  by (simp add: take_fin_ack_def cleanup_def)

lemma take_InPkt_shorter: "length (inPkt (take_InPkt D cts pkt st)) \<le> length (inPkt st)"
proof -
  let ?s = "UpdateInWinSize (push_data (tp_data pkt) (late_ack pkt
    (st\<lparr>inAckno := tp_seqno pkt + of_nat (length (tp_data pkt))\<rparr>)))"
  have "length (inPkt (take_InPkt D cts pkt st)) \<le> length (inPkt (take_fin D cts pkt ?s))"
    unfolding take_InPkt_def by (rule take_fin_ack_inPkt)
  also have "\<dots> \<le> length (inPkt ?s)" by (rule take_fin_inPkt)
  also have "\<dots> = length (inPkt st)" by simp
  finally show ?thesis .
qed

lemma scan_InPkts_shorter: "scan_InPkts a ps = (Some p, ps') \<Longrightarrow> length ps' < length ps"
proof (induction ps arbitrary: ps')
  case (Cons q ps)
  obtain r rs where "scan_InPkts a ps = (r, rs)" by (cases "scan_InPkts a ps")
  then show ?case using Cons by (fastforce split: if_splits)
qed simp

function check_InPkts :: "'d double_ops \<Rightarrow> 'd \<Rightarrow> 'd TcpStream \<Rightarrow> 'd TcpStream" where
  "check_InPkts D cts st =
     (case scan_InPkts (inAckno st) (inPkt st) of
        (None, ps) \<Rightarrow> st\<lparr>inPkt := ps\<rparr>
      | (Some pkt, ps) \<Rightarrow> check_InPkts D cts (take_InPkt D cts pkt (st\<lparr>inPkt := ps\<rparr>)))"
  by pat_completeness auto
termination
proof (relation "measure (\<lambda>(D, cts, st). length (inPkt st))", goal_cases)
  case (2 D cts st p ps pkt)
  then have "scan_InPkts (inAckno st) (inPkt st) = (Some pkt, ps)" by simp
  then show ?case
    using scan_InPkts_shorter take_InPkt_shorter [of D cts pkt "st\<lparr>inPkt := ps\<rparr>"] by fastforce
qed simp

declare check_InPkts.simps [simp del]

definition incoming_Established :: "'d double_ops \<Rightarrow> 'd \<Rightarrow> 'd TcpPacket \<Rightarrow> 'd TcpStream \<Rightarrow> 'd TcpStream" where
  "incoming_Established D cts pkt st =
     (let st1 = (if \<not> isOldSequence (tp_seqno pkt) (inAckno st) \<and> isOldSequence (tp_seqno pkt) (inAckno st + maxWinSize st)
            then st\<lparr>outAcked := (if hasAck pkt then tp_ackno pkt else outAcked st), outWinSize := ucast (tp_winsize pkt)\<rparr>
            else sendAck D cts st);
          ps = inPkt st1 @ [pkt]
      in check_InPkts D cts (st1\<lparr>inPkt := (if length ps > kMaxQueueSize then tl ps else ps)\<rparr>))"

definition incoming_Closed :: "'d double_ops \<Rightarrow> 'd \<Rightarrow> u32 \<Rightarrow> 'd TcpPacket \<Rightarrow> 'd TcpStream \<Rightarrow> 'd TcpStream" where
  "incoming_Closed D cts rnd pkt st =
     (if hasSyn pkt \<and> \<not> hasAck pkt then
        (let st1 = st\<lparr>initPeerSeqno := tp_seqno pkt, inAckno := tp_seqno pkt + 1, outWinSize := ucast (tp_winsize pkt),
               inWinSize := maxWinSize st\<rparr>;
             rsp = make_TcpPacket (d_int D 0) [];
             (rsp1, st2) = (if ts_state st = TCP_CLOSED
               then (setSyn rsp, st1\<lparr>outSeqno := rnd, initOurSeqno := rnd, outAcked := rnd,
                      congestThreshold := TCP_MAX_WIN, congestWinSize := MAX_SEG32, congestUpdate := rnd + MAX_SEG32\<rparr>)
               else (rsp, st1));
             st3 = toSend cts (setAck (inAckno st2) rsp1) True (st2\<lparr>ttl := TCP_STD_TTL\<rparr>)
         in st3\<lparr>ts_state := TCP_SYN_RCVD\<rparr>)
      else st)"

definition incoming_SynSent :: "'d double_ops \<Rightarrow> 'd \<Rightarrow> u32 \<Rightarrow> 'd TcpPacket \<Rightarrow> 'd TcpStream \<Rightarrow> 'd TcpStream" where
  "incoming_SynSent D cts rnd pkt st =
     (if hasSyn pkt \<and> hasAck pkt then
        (if tp_ackno pkt \<noteq> outSeqno st then st
         else (sendAck D cts (st\<lparr>initPeerSeqno := tp_seqno pkt, inAckno := tp_seqno pkt + 1,
                 outWinSize := ucast (tp_winsize pkt), outAcked := tp_ackno pkt, ttl := TCP_STD_TTL\<rparr>))
              \<lparr>ts_state := TCP_ESTABLISHED, outStreamActive := True, inStreamActive := True\<rparr>)
      else incoming_Closed D cts rnd pkt st)"

definition incoming_SynRcvd :: "'d double_ops \<Rightarrow> 'd \<Rightarrow> 'd TcpPacket \<Rightarrow> 'd TcpStream \<Rightarrow> 'd TcpStream" where
  "incoming_SynRcvd D cts pkt st =
     (if hasRst pkt then st\<lparr>ts_state := TCP_CLOSED\<rparr>
      else if \<not> hasAck pkt \<or> tp_ackno pkt \<noteq> outSeqno st then st
      else (let st1 = st\<lparr>inAckno := tp_seqno pkt, outWinSize := ucast (tp_winsize pkt), outAcked := tp_ackno pkt,
                  ttl := TCP_STD_TTL, ts_state := TCP_ESTABLISHED, outStreamActive := True, inStreamActive := True\<rparr>
            in if tp_data pkt \<noteq> [] then incoming_Established D cts pkt st1 else st1))"

definition tcp_handleIncoming :: "'d double_ops \<Rightarrow> 'd \<Rightarrow> u32 \<Rightarrow> 'd TcpPacket \<Rightarrow> 'd TcpStream \<Rightarrow> 'd TcpStream" where
  "tcp_handleIncoming D cts rnd pkt st =
     (if ts_state st = TCP_CLOSED \<or> ts_state st = TCP_LISTEN then incoming_Closed D cts rnd pkt st
      else if ts_state st = TCP_SYN_SENT then incoming_SynSent D cts rnd pkt st
      else if ts_state st = TCP_SYN_RCVD then incoming_SynRcvd D cts pkt st
      else if ts_state st = TCP_ESTABLISHED \<or> ts_state st = TCP_FIN_WAIT_1 \<or> ts_state st = TCP_FIN_WAIT_2 \<or>
        ts_state st = TCP_CLOSING \<or> ts_state st = TCP_CLOSE_WAIT \<or> ts_state st = TCP_LAST_ACK
      then incoming_Established D cts pkt st
      else if ts_state st = TCP_TIMED_WAIT then st\<lparr>ts_state := TCP_CLOSED\<rparr>
      else st)"

definition recvPkt :: "'d double_ops \<Rightarrow> 'd \<Rightarrow> u32 \<Rightarrow> bytes \<Rightarrow> 'd TcpStream \<Rightarrow> 'd TcpStream" where
  "recvPkt D cts rnd input st =
     (case readPacket input (make_TcpPacket (d_int D 0) []) of
        None \<Rightarrow> st
      | Some pkt \<Rightarrow> tcp_handleIncoming D cts rnd pkt (st\<lparr>lastIncomingPkt := cts\<rparr>))"

subsection \<open>The tick\<close>

definition recv_check :: "'d double_ops \<Rightarrow> 'd \<Rightarrow> 'd TcpStream \<Rightarrow> 'd TcpStream" where
  "recv_check D cts st =
     (if ts_state st > TCP_SYN_RCVD \<and> d_less D (d_int D kNoPktTimeout) (d_sub D cts (lastIncomingPkt st))
      then cleanup (st\<lparr>outStreamActive := False, inStreamActive := False, ts_state := TCP_CLOSED\<rparr>)
      else st)"

definition raise_congestion :: "'d TcpStream \<Rightarrow> 'd TcpStream" where
  "raise_congestion st =
     (if isOldSequence (outAcked st) (congestUpdate st) then st
      else (let w = (if congestWinSize st < congestThreshold st then congestWinSize st * 2 else congestWinSize st + MAX_SEG32);
                w' = (if w > maxWinSize st then maxWinSize st else w)
            in st\<lparr>congestWinSize := w', congestUpdate := outAcked st + w'\<rparr>))"

definition update_rtt :: "'d double_ops \<Rightarrow> 'd \<Rightarrow> 'd TcpPacket \<Rightarrow> 'd TcpStream \<Rightarrow> 'd TcpStream" where
  "update_rtt D cts pkt st =
     (let ack_time = d_sub D cts (tp_ts pkt);
          beta = d_sub D (d_int D 1) (d_alpha D);
          est = d_add D (d_mul D (d_alpha D) (rtt_est st)) (d_mul D beta ack_time);
          dev = d_add D (d_mul D (d_alpha D) (rtt_dev st)) (d_mul D beta (d_fabs D (d_sub D est ack_time)))
      in st\<lparr>rtt_est := est, rtt_dev := dev, retransTimeout := d_add D est (d_mul D (d_int D 4) dev)\<rparr>)"

text \<open>The loop of \<^verbatim>\<open>acknowledge\<close> over \<^verbatim>\<open>outPkt\<close>.\<close>

fun ack_packets :: "'d double_ops \<Rightarrow> 'd \<Rightarrow> bool \<Rightarrow> 'd TcpPacket list \<Rightarrow> 'd TcpStream \<Rightarrow> 'd TcpStream" where
  "ack_packets D cts updateRTT [] st = st\<lparr>outPkt := []\<rparr>"
| "ack_packets D cts updateRTT (pkt # ps) st =
     (if \<not> isOldSequence (tp_seqno pkt) (outAcked st) then st\<lparr>outPkt := pkt # ps\<rparr>
      else (let st1 = raise_congestion st;
                u = (updateRTT \<and> tp_retrans pkt = 0)
            in ack_packets D cts u ps (if u then update_rtt D cts pkt st1 else st1)))"

definition acknowledge :: "'d double_ops \<Rightarrow> 'd \<Rightarrow> 'd TcpStream \<Rightarrow> 'd TcpStream" where
  "acknowledge D cts st =
     (let st1 = ack_packets D cts True (outPkt st) st in
      if outPkt st1 = [] then resetRetransmitTimer D st1
      else if length (outPkt st1) < length (outPkt st) then startRetransmitTimer cts (resetRetransmitTimer D st1)
      else st1)"

definition too_often :: "'d TcpPacket \<Rightarrow> bool" where
  "too_often pkt = (hasSyn pkt \<and> tp_retrans pkt > kMaxSynPktRetransmit \<or> \<not> hasSyn pkt \<and> tp_retrans pkt > kMaxPktRetransmit)"

definition tcp_retrans :: "'d double_ops \<Rightarrow> 'd \<Rightarrow> 'd TcpStream \<Rightarrow> 'd TcpStream" where
  "tcp_retrans D cts st =
     (if \<not> peerKnown st \<or> \<not> retransTimerOn st \<or> d_less D (d_sub D cts (retransTimerTs st)) (retransTimeout st) then st
      else case outPkt st of
          [] \<Rightarrow> resetRetransmitTimer D st
        | pkt # ps \<Rightarrow>
            (let st1 = st\<lparr>congestThreshold := congestWinSize st div 2, congestWinSize := MAX_SEG32,
                   congestUpdate := outAcked st + MAX_SEG32\<rparr>;
                 (pkt1, st2) = (if hasSyn pkt then (pkt, st1)
                   else (setAck (inAckno st) pkt, st1\<lparr>lastSentAck := inAckno st\<rparr>));
                 pkt2 = pkt1\<lparr>tp_winsize := ucast (inWinSize st)\<rparr>;
                 st3 = st2\<lparr>lastSentWinSize := ucast (tp_winsize pkt2), keepAliveTimer := cts\<rparr>;
                 st4 = (if hasSyn pkt \<and> ttl st < TCP_STD_TTL
                   then st3\<lparr>ttl := (if d_less D cts (mTTL_end st) then TCP_DEFAULT_FIREWALL_TTL else ttl st + 1)\<rparr> else st3)
             in if too_often pkt
                then cleanup (st4\<lparr>outStreamActive := False, inStreamActive := False, ts_state := TCP_CLOSED\<rparr>)
                else
                  (let st5 = st4\<lparr>udp_sent := udp_sent st4 @ [(writePacket pkt2 (MAX_SEG + TCP_PSEUDO_HDR_SIZE), ttl st4)],
                         outPkt := pkt2\<lparr>tp_ts := cts, tp_retrans := tp_retrans pkt2 + 1\<rparr> # ps\<rparr>
                   in if hasSyn pkt then startRetransmitTimer cts (resetRetransmitTimer D st5)
                      else restartRetransmitTimer cts (incRetransmitTimeout D st5))))"

text \<open>How much may be sent now.\<close>

definition send_room :: "'d TcpStream \<Rightarrow> u32" where
  "send_room st =
     (let maxsend = (if outWinSize st < congestWinSize st then outWinSize st else congestWinSize st);
          inTransit = (if outSeqno st < outAcked st then (TCP_MAX_SEQ - outAcked st) + outSeqno st else outSeqno st - outAcked st)
      in if maxsend > inTransit then maxsend - inTransit else 0)"

fun send_segments :: "'d double_ops \<Rightarrow> 'd \<Rightarrow> bytes list \<Rightarrow> u32 \<Rightarrow> 'd TcpStream \<Rightarrow> u32 \<times> 'd TcpStream" where
  "send_segments D cts [] maxsend st = (maxsend, st\<lparr>inQueue := []\<rparr>)"
| "send_segments D cts (db # q) maxsend st =
     (if maxsend \<ge> MAX_SEG32
      then send_segments D cts q (maxsend - MAX_SEG32) (toSend cts (make_TcpPacket (d_int D 0) db) True st)
      else (maxsend, st\<lparr>inQueue := db # q\<rparr>))"

definition send_fin :: "'d double_ops \<Rightarrow> 'd \<Rightarrow> 'd TcpStream \<Rightarrow> 'd TcpStream" where
  "send_fin D cts st =
     (let st1 = toSend cts (setFin (make_TcpPacket (d_int D 0) [])) False st
      in if ts_state st1 = TCP_ESTABLISHED then st1\<lparr>ts_state := TCP_FIN_WAIT_1\<rparr>
         else if ts_state st1 = TCP_CLOSE_WAIT then st1\<lparr>ts_state := TCP_LAST_ACK\<rparr>
         else st1)"

definition needs_ack :: "'d double_ops \<Rightarrow> 'd \<Rightarrow> 'd TcpStream \<Rightarrow> bool" where
  "needs_ack D cts st =
     (isOldSequence (lastSentAck st) (inAckno st) \<or>
      lastSentWinSize st < MAX_SEG32 \<and> inWinSize st > MAX_SEG32 \<or>
      d_less D (d_mul D (retransTimeout st) (d_int D 4)) (d_sub D cts (keepAliveTimer st)) \<and>
        inWinSize st > lastSentWinSize st + 4 * MAX_SEG32 \<or>
      d_less D (d_int D (uint (keepAliveTimeout st))) (d_sub D cts (keepAliveTimer st)))"

definition tcp_send :: "'d double_ops \<Rightarrow> 'd \<Rightarrow> 'd TcpStream \<Rightarrow> 'd TcpStream" where
  "tcp_send D cts st0 =
     (let st = tcp_retrans D cts (acknowledge D cts st0) in
      if ts_state st < TCP_ESTABLISHED then st
      else (let (maxsend, st1) = send_segments D cts (inQueue st) (send_room st) st in
        if length (inQueue st1) < length (inQueue st) then st1
        else if inQueue st1 = [] \<and> of_nat (length (inData st1)) \<le> maxsend \<and> inData st1 \<noteq> []
        then toSend cts (make_TcpPacket (d_int D 0) (inData st1)) True (st1\<lparr>inData := []\<rparr>)
        else if \<not> outStreamActive st1 \<and> length (inQueue st1) + length (inData st1) = 0 \<and>
          (ts_state st1 = TCP_ESTABLISHED \<or> ts_state st1 = TCP_CLOSE_WAIT)
        then send_fin D cts st1
        else if needs_ack D cts st1 then sendAck D cts st1 else st1))"

definition tcp_tick :: "'d double_ops \<Rightarrow> 'd \<Rightarrow> 'd TcpStream \<Rightarrow> 'd TcpStream" where
  "tcp_tick D cts st = tcp_send D cts (recv_check D cts st)"

end
