(* ===== verification/Tcp_Buffers.thy ===== *)
theory Tcp_Buffers
  imports Tcp_Stream
begin

text \<open>
  The buffers of a stream as queues of bytes: what was written and not yet put into a packet, and what
  has arrived and was not yet read. \<open>buffers_ok\<close> holds in every state: the segments of the two lists
  are full and the arrays before and behind them are not.
\<close>

definition wbuf :: "'d TcpStream \<Rightarrow> bytes" where
  "wbuf st = concat (inQueue st) @ inData st"

definition rbuf :: "'d TcpStream \<Rightarrow> bytes" where
  "rbuf st = outDataRead st @ concat (outQueue st) @ outDataNet st"

abbreviation (input) full :: "bytes list \<Rightarrow> bool" where "full q \<equiv> \<forall>s\<in>set q. length s = MAX_SEG"

definition buffers_ok :: "'d TcpStream \<Rightarrow> bool" where
  "buffers_ok st = (length (inData st) < MAX_SEG \<and> length (outDataRead st) < MAX_SEG \<and>
     length (outDataNet st) < MAX_SEG \<and> full (inQueue st) \<and> full (outQueue st))"

lemma concat_full: "full q \<Longrightarrow> length (concat q) = length q * MAX_SEG"
  by (induction q) auto

text \<open>The number that \<^verbatim>\<open>read_pending\<close> computes is the number of bytes that can be read.\<close>

lemma int_read_pending_rbuf: "buffers_ok st \<Longrightarrow> int_read_pending st = length (rbuf st)"
  by (simp add: buffers_ok_def int_read_pending_def rbuf_def concat_full)

subsection \<open>Writing\<close>

lemma segments_split:
  "segments dta = (segs, rst) \<Longrightarrow> concat segs @ rst = dta \<and> full segs \<and> length rst < MAX_SEG"
proof (induction dta arbitrary: segs rst rule: segments.induct)
  case (1 dta)
  show ?case
  proof (cases "length dta < MAX_SEG")
    case True
    then show ?thesis using "1.prems" by (simp add: segments.simps [of dta])
  next
    case False
    obtain s r where sr: "segments (drop MAX_SEG dta) = (s, r)" by fastforce
    then have eq: "segs = take MAX_SEG dta # s" "rst = r"
      using "1.prems" False by (simp_all add: segments.simps [of dta])
    from "1.IH" [OF False sr] have ih: "concat s @ r = drop MAX_SEG dta" "full s" "length r < MAX_SEG" by simp_all
    from ih(1) have "concat segs @ rst = dta" by (simp add: eq)
    then show ?thesis using False ih by (simp add: eq)
  qed
qed

text \<open>A write is either refused and leaves the buffers alone, or the bytes come behind those that wait.\<close>

lemma tcp_write_cases:
  assumes "buffers_ok st" and "tcp_write dta st = (n, st')"
  obtains (refused) e where "n = -1" "st' = st\<lparr>errorState := e\<rparr>"
  | (accepted) q r where "n = int (length dta)" "st' = st\<lparr>inQueue := q, inData := r\<rparr>" "wbuf st' = wbuf st @ dta"
      "buffers_ok st'" "4 \<le> ts_state st" "outStreamActive st"
proof -
  obtain segs rst where sr: "segments (drop (MAX_SEG - length (inData st)) dta) = (segs, rst)" by fastforce
  let ?k = "MAX_SEG - length (inData st)"
  let ?q = "inQueue st @ [inData st @ take ?k dta] @ segs"
  consider (err) "ts_state st = 0 \<or> ts_state st < 4 \<or> length (inQueue st) > kMaxQueueSize \<or> \<not> outStreamActive st"
    | (small) "4 \<le> ts_state st" "outStreamActive st" "length (inQueue st) \<le> kMaxQueueSize" "length dta + length (inData st) < MAX_SEG"
    | (large) "4 \<le> ts_state st" "outStreamActive st" "length (inQueue st) \<le> kMaxQueueSize" "MAX_SEG \<le> length dta + length (inData st)"
    by (meson not_le)
  then show thesis
  proof cases
    case err
    have "\<exists>e. n = -1 \<and> st' = st\<lparr>errorState := e\<rparr>"
      using assms(2) err unfolding tcp_write_def by (auto split: if_splits)
    then show thesis using refused by blast
  next
    case small
    then have "ts_state st \<noteq> 0" "\<not> ts_state st < 4" by auto
    with small assms have "n = int (length dta)" "st' = st\<lparr>inQueue := inQueue st, inData := inData st @ dta\<rparr>"
      by (simp_all add: tcp_write_def)
    then show thesis using accepted [of "inData st @ dta" "inQueue st"] small assms(1)
      by (simp add: wbuf_def buffers_ok_def)
  next
    case large
    then have "ts_state st \<noteq> 0" "\<not> ts_state st < 4" by auto
    with large assms sr have eq: "n = int (length dta)" "st' = st\<lparr>inQueue := ?q, inData := rst\<rparr>"
      by (simp_all add: tcp_write_def Let_def)
    have dta: "take ?k dta @ concat segs @ rst = dta" "full segs" "length rst < MAX_SEG"
      using segments_split [OF sr] by (metis append_take_drop_id, simp_all)
    then have "wbuf st' = wbuf st @ dta" by (simp add: eq wbuf_def)
    moreover have "buffers_ok st'" using dta large assms(1) by (auto simp: eq buffers_ok_def)
    ultimately show thesis using accepted eq large by blast
  qed
qed

subsection \<open>Reading\<close>

text \<open>Of the segments, a read takes the first bytes, and asks for the rest of the array behind them only when
  all segments are used.\<close>

lemma read_queue_split:
  assumes "full q" and "read_queue rm q = (got, rm', q', rst)"
  shows "full q' \<and> rm = length got + rm' \<and> concat q = got @ (case rst of None \<Rightarrow> [] | Some r \<Rightarrow> r) @ concat q' \<and>
    (rst \<noteq> None \<longrightarrow> rm' = 0 \<and> length (the rst) < MAX_SEG) \<and> (0 < rm' \<longrightarrow> q' = [])"
  using assms
proof (induction rm q arbitrary: got rm' q' rst rule: read_queue.induct)
  case (2 rm db q)
  consider "rm = 0" | "0 < rm" "rm < MAX_SEG" | (next_seg) "MAX_SEG \<le> rm" by linarith
  then show ?case
  proof cases
    case next_seg
    obtain g m q1 r where r: "read_queue (rm - MAX_SEG) q = (g, m, q1, r)" using prod_cases4 by blast
    with 2 next_seg show ?thesis by fastforce
  qed (use 2 in auto)
qed simp

text \<open>A read returns the oldest bytes, as many as are asked for when there are as many.\<close>

lemma UpdateInWinSize_buffers [simp]:
  "rbuf (UpdateInWinSize st) = rbuf st" "wbuf (UpdateInWinSize st) = wbuf st"
  "buffers_ok (UpdateInWinSize st) = buffers_ok st"
  by (simp_all add: UpdateInWinSize_def rbuf_def wbuf_def buffers_ok_def Let_def)

lemma tcp_read_cases:
  assumes "buffers_ok st" and "tcp_read sz0 st = (n, got, st')"
  obtains (refused) e where "n = -1" "got = []" "st' = st\<lparr>errorState := e\<rparr>" "ts_state st < 4 \<or> rbuf st = []"
  | (finished) "n = 0" "got = []" "st' = st" "\<not> inStreamActive st" "rbuf st = []" "4 \<le> ts_state st"
  | (delivered) r q d where "n = int (length got)" "length got = min (length (rbuf st)) sz0"
      "st' = UpdateInWinSize (st\<lparr>outDataRead := r, outQueue := q, outDataNet := d\<rparr>)" "rbuf st = got @ rbuf st'"
      "buffers_ok st'" "4 \<le> ts_state st" "rbuf st \<noteq> []"
proof -
  note len = int_read_pending_rbuf [OF assms(1)]
  consider (err) "ts_state st < 4" | (fin) "4 \<le> ts_state st" "rbuf st = []" "\<not> inStreamActive st"
    | (none) "4 \<le> ts_state st" "rbuf st = []" "inStreamActive st" | (some) "4 \<le> ts_state st" "rbuf st \<noteq> []"
    by (meson not_le)
  then show thesis
  proof cases
    case err
    then have "\<exists>e. n = -1 \<and> got = [] \<and> st' = st\<lparr>errorState := e\<rparr>"
      using assms(2) by (auto simp: tcp_read_def Let_def split: if_splits)
    then show thesis using err refused by blast
  next
    case fin
    moreover from fin have "ts_state st \<noteq> 0" "\<not> ts_state st < 4" by auto
    ultimately show thesis using finished assms(2) by (simp add: tcp_read_def len)
  next
    case none
    moreover from none have "ts_state st \<noteq> 0" "\<not> ts_state st < 4" by auto
    ultimately show thesis using refused [of EAGAIN] assms(2) by (simp add: tcp_read_def len)
  next
    case some
    then have nz: "ts_state st \<noteq> 0" "\<not> ts_state st < 4" by auto
    define sz where "sz = min (length (rbuf st)) sz0"
    have sz: "sz \<le> length (rbuf st)" by (simp add: sz_def)
    have deliver: thesis if "(n, got, st') = (int sz, x,
        UpdateInWinSize (st\<lparr>outDataRead := r, outQueue := q, outDataNet := d\<rparr>))"
      "length x = sz" "rbuf st = x @ r @ concat q @ d" "length r < MAX_SEG" "full q" "length d < MAX_SEG" for x r q d
    proof (rule delivered)
      have st': "st' = UpdateInWinSize (st\<lparr>outDataRead := r, outQueue := q, outDataNet := d\<rparr>)" and x: "got = x" "n = int sz"
        using that(1) by simp_all
      show "st' = UpdateInWinSize (st\<lparr>outDataRead := r, outQueue := q, outDataNet := d\<rparr>)" by (rule st')
      have "rbuf st' = r @ concat q @ d" unfolding st' UpdateInWinSize_buffers by (simp add: rbuf_def)
      then show "rbuf st = got @ rbuf st'" using that(3) x by simp
      show "buffers_ok st'" unfolding st' UpdateInWinSize_buffers using that(4-6) assms(1) by (simp add: buffers_ok_def)
      show "n = int (length got)" "length got = min (length (rbuf st)) sz0" using x that(2) by (simp_all add: sz_def)
    qed (use some in simp_all)
    show thesis
    proof (cases "sz < length (outDataRead st)")
      case True
      show thesis
      proof (rule deliver)
        show "(n, got, st') = (int sz, take sz (outDataRead st), UpdateInWinSize (st\<lparr>outDataRead := drop sz (outDataRead st),
            outQueue := outQueue st, outDataNet := outDataNet st\<rparr>))"
          using some nz assms(2) True by (simp add: tcp_read_def len sz_def [symmetric])
        show "rbuf st = take sz (outDataRead st) @ drop sz (outDataRead st) @ concat (outQueue st) @ outDataNet st"
          by (simp add: rbuf_def)
      qed (use True assms(1) in \<open>auto simp: buffers_ok_def\<close>)
    next
      case False
      obtain g m q' rst where rq: "read_queue (sz - length (outDataRead st)) (outQueue st) = (g, m, q', rst)"
        using prod_cases4 by blast
      have ok: "length (outDataNet st) < MAX_SEG" "full (outQueue st)" using assms(1) by (simp_all add: buffers_ok_def)
      note rs = read_queue_split [OF ok(2) rq]
      have parts: "sz = length (outDataRead st) + length g + m" using rs False by linarith
      from some nz False rq assms(2) have res: "(n, got, st') = (case rst of
          Some r \<Rightarrow> (int sz, outDataRead st @ g, UpdateInWinSize (st\<lparr>outDataRead := r, outQueue := q'\<rparr>))
        | None \<Rightarrow> (if m > 0 then (int sz, (outDataRead st @ g) @ take m (outDataNet st),
              UpdateInWinSize (st\<lparr>outDataRead := drop m (outDataNet st), outQueue := q', outDataNet := []\<rparr>))
            else (int sz, outDataRead st @ g, UpdateInWinSize (st\<lparr>outDataRead := [], outQueue := q'\<rparr>))))"
        by (simp add: tcp_read_def len sz_def [symmetric] Let_def del: prod.inject)
      consider r where "rst = Some r" | (net) "rst = None" "m > 0" | (queue) "rst = None" "m = 0" by (cases rst) auto
      then show thesis
      proof cases
        case (1 r)
        then show thesis using rs ok parts res by (intro deliver [of "outDataRead st @ g" "outDataNet st" q' r]) (simp_all add: rbuf_def)
      next
        case net
        have "m \<le> length (outDataNet st)" using net rs sz parts by (simp add: rbuf_def)
        then show thesis using net rs ok parts res
          by (intro deliver [of "(outDataRead st @ g) @ take m (outDataNet st)" "[]" q' "drop m (outDataNet st)"]) (simp_all add: rbuf_def)
      next
        case queue
        then show thesis using rs ok parts res
          by (intro deliver [of "outDataRead st @ g" "outDataNet st" q' "[]"]) (simp_all add: rbuf_def)
      qed
    qed
  qed
qed

end
