(* ===== verification/Tcp_Sender.thy ===== *)
theory Tcp_Sender
  imports Tcp_Buffers
begin

text \<open>
  What the packets of one side carry. \<open>W\<close> is everything the application has written since the connection was
  established, \<open>base\<close> the sequence number of its first byte, and \<open>f\<close> says that nothing more will be written. Every packet that
  waits for an acknowledgment, and every datagram that was ever handed to the UDP layer, carries the bytes that stand
  in \<open>W\<close> at its sequence number.
\<close>

definition carries :: "u32 \<Rightarrow> bytes \<Rightarrow> bool \<Rightarrow> bytes \<Rightarrow> u32 \<Rightarrow> bool \<Rightarrow> bool" where
  "carries base W f d s fin = (length d \<le> MAX_SEG \<and> (d = [] \<and> \<not> fin \<or>
     (\<exists>k \<le> length W. s = base + of_nat k \<and> k + length d \<le> length W \<and> d = take (length d) (drop k W) \<and> (fin \<longrightarrow> f \<and> k = length W))))"

abbreviation carries_pkt :: "u32 \<Rightarrow> bytes \<Rightarrow> bool \<Rightarrow> 'd TcpPacket \<Rightarrow> bool" where
  "carries_pkt base W f p \<equiv> carries base W f (tp_data p) (tp_seqno p) (hasFin p)"

text \<open>The same of a datagram, by the fields that \<^verbatim>\<open>readPacket\<close> finds in it.\<close>

definition wire_ok :: "u32 \<Rightarrow> bytes \<Rightarrow> bool \<Rightarrow> bytes \<Rightarrow> bool" where
  "wire_ok base W f b = (20 \<le> length b \<longrightarrow>
     carries base W f (drop 20 b) (of_be32 (take 4 (drop 4 b))) (of_be16 (take 2 (drop 12 b)) AND TCP_FIN_BIT \<noteq> 0))"

lemma carries_mono: "carries base W f d s fin \<Longrightarrow> (f \<longrightarrow> X = [] \<and> f') \<Longrightarrow> carries base (W @ X) f' d s fin"
proof -
  assume c: "carries base W f d s fin" and f: "f \<longrightarrow> X = [] \<and> f'"
  show "carries base (W @ X) f' d s fin"
  proof (cases "d = [] \<and> \<not> fin")
    case False
    then obtain k where k: "length d \<le> MAX_SEG" "k \<le> length W" "s = base + of_nat k" "k + length d \<le> length W"
      "d = take (length d) (drop k W)" "fin \<longrightarrow> f \<and> k = length W" using c unfolding carries_def by blast
    then have "k \<le> length (W @ X) \<and> s = base + of_nat k \<and> k + length d \<le> length (W @ X) \<and>
      d = take (length d) (drop k (W @ X)) \<and> (fin \<longrightarrow> f' \<and> k = length (W @ X))" using f by auto
    then show ?thesis unfolding carries_def using k(1) by blast
  qed (simp add: carries_def)
qed

lemma wire_ok_mono: "wire_ok base W f b \<Longrightarrow> (f \<longrightarrow> X = [] \<and> f') \<Longrightarrow> wire_ok base (W @ X) f' b"
  unfolding wire_ok_def using carries_mono by blast

lemma carries_nothing [simp]: "carries base W f [] s False"
  by (simp add: carries_def)

lemma carries_next:
  assumes "n + length d \<le> length W" "d = take (length d) (drop n W)" "length d \<le> MAX_SEG" "fin \<longrightarrow> f \<and> n = length W"
  shows "carries base W f d (base + of_nat n) fin"
proof -
  have "n \<le> length W" using assms(1) by linarith
  then show ?thesis using assms unfolding carries_def by blast
qed

lemma written_wire_ok:
  assumes "carries_pkt base W f p"
  shows "wire_ok base W f (writePacket p (MAX_SEG + TCP_PSEUDO_HDR_SIZE))"
proof -
  have "length (tp_data p) \<le> MAX_SEG" using assms by (simp add: carries_def)
  then show ?thesis using assms by (simp add: wire_ok_def writePacket_def take_drop_be hasFin_def)
qed

lemma read_wire_ok:
  assumes "wire_ok base W f b" and "readPacket b q = Some p"
  shows "carries_pkt base W f p"
  using assms by (auto simp: wire_ok_def readPacket_def hasFin_def split: if_splits)

subsection \<open>The invariant of the sending side\<close>

text \<open>\<open>n\<close> bytes of \<open>W\<close> have been put into packets.\<close>

definition emitted :: "u32 \<Rightarrow> bytes \<Rightarrow> bool \<Rightarrow> nat \<Rightarrow> 'd TcpStream \<Rightarrow> bool" where
  "emitted base W f n st = (n \<le> length W \<and> outSeqno st = base + of_nat n \<and>
     (\<forall>p\<in>set (outPkt st). carries_pkt base W f p) \<and> (\<forall>b\<in>fst ` set (udp_sent st). wire_ok base W f b))"

definition closedw :: "'d TcpStream \<Rightarrow> bool" where
  "closedw st = (\<not> outStreamActive st \<and> wbuf st = [])"

abbreviation (input) live :: "'d TcpStream \<Rightarrow> bool" where "live st \<equiv> 4 \<le> ts_state st"

definition sends :: "u32 \<Rightarrow> bytes \<Rightarrow> 'd TcpStream \<Rightarrow> bool" where
  "sends base W st = (peerKnown st \<and> (\<exists>n. emitted base W (closedw st) n st \<and> (live st \<longrightarrow> drop n W = wbuf st)))"

text \<open>What a packet that is sent leaves alone.\<close>

lemma toSend_frame [simp]:
  "inData (toSend cts pkt r st) = inData st" "inQueue (toSend cts pkt r st) = inQueue st"
  "outDataRead (toSend cts pkt r st) = outDataRead st" "outQueue (toSend cts pkt r st) = outQueue st"
  "outDataNet (toSend cts pkt r st) = outDataNet st" "inAckno (toSend cts pkt r st) = inAckno st"
  "ts_state (toSend cts pkt r st) = ts_state st" "inStreamActive (toSend cts pkt r st) = inStreamActive st"
  "outStreamActive (toSend cts pkt r st) = outStreamActive st" "peerKnown (toSend cts pkt r st) = peerKnown st"
  "inWinSize (toSend cts pkt r st) = inWinSize st" "maxWinSize (toSend cts pkt r st) = maxWinSize st"
  "outAcked (toSend cts pkt r st) = outAcked st"
  by (simp_all add: toSend_def startRetransmitTimer_def Let_def split: prod.split)

lemma toSend_bufs [simp]:
  "wbuf (toSend cts pkt r st) = wbuf st" "rbuf (toSend cts pkt r st) = rbuf st" "closedw (toSend cts pkt r st) = closedw st"
  "buffers_ok (toSend cts pkt r st) = buffers_ok st"
  by (simp_all add: wbuf_def rbuf_def closedw_def buffers_ok_def)

lemma stamp_first:
  "tp_data (fst (stamp st pkt)) = tp_data pkt" "tp_seqno (fst (stamp st pkt)) = outSeqno st"
  "hasFin (fst (stamp st pkt)) = hasFin pkt"
  by (cases "hasSyn pkt"; simp add: stamp_def Let_def packet_simps)+

lemma stamp_fields:
  assumes "stamp st pkt = (p, s)"
  shows "tp_data p = tp_data pkt" "tp_seqno p = outSeqno st" "hasFin p = hasFin pkt"
  using stamp_first [of st pkt] assms by simp_all

lemma stamp_next: "stamp st pkt = (p, s) \<Longrightarrow> \<not> hasSyn pkt \<Longrightarrow> s = outSeqno st + of_nat (length (tp_data pkt))"
  by (auto simp: stamp_def Let_def)

lemma toSend_emitted:
  assumes "emitted base W f n st" and "peerKnown st" and "\<not> hasSyn pkt" and "carries base W f (tp_data pkt) (base + of_nat n) (hasFin pkt)"
    and "n + length (tp_data pkt) \<le> length W"
  shows "emitted base W f (n + length (tp_data pkt)) (toSend cts pkt r st)"
proof -
  obtain p s where ps: "stamp st pkt = (p, s)" by fastforce
  have seq: "outSeqno st = base + of_nat n" using assms(1) by (simp add: emitted_def)
  have p: "carries_pkt base W f p" using assms(4) seq stamp_fields [OF ps] by simp
  then have w: "wire_ok base W f (writePacket p (MAX_SEG + TCP_PSEUDO_HDR_SIZE))" by (rule written_wire_ok)
  have "outSeqno (toSend cts pkt r st) = base + of_nat (n + length (tp_data pkt))"
    using assms(2,3) ps stamp_next [OF ps] seq by (simp add: toSend_def startRetransmitTimer_def Let_def)
  moreover have "carries_pkt base W f q" if "q \<in> set (outPkt (toSend cts pkt r st))" for q
    using that assms(1,2) ps p
    by (auto simp: toSend_def startRetransmitTimer_def Let_def emitted_def hasFin_def split: if_splits)
  moreover have "wire_ok base W f b" if "b \<in> fst ` set (udp_sent (toSend cts pkt r st))" for b
    using that assms(1,2) ps w
    by (auto simp: toSend_def startRetransmitTimer_def Let_def emitted_def split: if_splits)
  ultimately show ?thesis using assms(5) by (simp add: emitted_def)
qed

lemma sendAck_emitted: "emitted base W f n st \<Longrightarrow> peerKnown st \<Longrightarrow> emitted base W f n (sendAck D cts st)"
  using toSend_emitted [of base W f n st "make_TcpPacket (d_int D 0) []" cts False]
  by (simp add: sendAck_def packet_simps emitted_def)

lemma sendAck_frame [simp]:
  "inData (sendAck D cts st) = inData st" "inQueue (sendAck D cts st) = inQueue st"
  "outDataRead (sendAck D cts st) = outDataRead st" "outQueue (sendAck D cts st) = outQueue st"
  "outDataNet (sendAck D cts st) = outDataNet st" "inAckno (sendAck D cts st) = inAckno st"
  "ts_state (sendAck D cts st) = ts_state st" "inStreamActive (sendAck D cts st) = inStreamActive st"
  "outStreamActive (sendAck D cts st) = outStreamActive st" "peerKnown (sendAck D cts st) = peerKnown st"
  "wbuf (sendAck D cts st) = wbuf st" "rbuf (sendAck D cts st) = rbuf st" "closedw (sendAck D cts st) = closedw st"
  "inWinSize (sendAck D cts st) = inWinSize st" "maxWinSize (sendAck D cts st) = maxWinSize st"
  "buffers_ok (sendAck D cts st) = buffers_ok st"
  by (simp_all add: sendAck_def)

lemma sendAck_sends: "sends base W st \<Longrightarrow> sends base W (sendAck D cts st)"
  unfolding sends_def using sendAck_emitted by fastforce

text \<open>A change of other fields keeps the invariant; so does a \<^verbatim>\<open>cleanup\<close>.\<close>

lemma sends_cong:
  assumes "sends base W st" and "outSeqno st' = outSeqno st" "set (outPkt st') \<subseteq> set (outPkt st)" "udp_sent st' = udp_sent st"
    "peerKnown st' = peerKnown st" "wbuf st' = wbuf st" "outStreamActive st' = outStreamActive st" "live st' \<longrightarrow> live st"
  shows "sends base W st'"
  using assms unfolding sends_def emitted_def closedw_def by fastforce

lemma emitted_closed: "emitted base W f n st \<Longrightarrow> (f \<longrightarrow> f') \<Longrightarrow> emitted base W f' n st"
  unfolding emitted_def using carries_mono [of base W f _ _ _ "[]" f'] wire_ok_mono [of base W f _ "[]" f'] by simp

lemma cleanup_sends: "sends base W st \<Longrightarrow> sends base W (cleanup st)"
proof -
  assume "sends base W st"
  then obtain n where n: "peerKnown st" "emitted base W (closedw st) n st" by (auto simp: sends_def)
  have "emitted base W True n st" using emitted_closed [OF n(2)] by blast
  then have "emitted base W True n (cleanup st)" by (simp add: emitted_def cleanup_def)
  then show ?thesis using n(1) by (auto simp: sends_def cleanup_def closedw_def wbuf_def)
qed

end
