(* ===== verification/Tcp_Sends.thy ===== *)
theory Tcp_Sends
  imports Tcp_Sender
begin

text \<open>Every operation of the sending side keeps \<open>sends\<close>; only a write that is accepted extends what was written.\<close>

lemma tcp_write_sends:
  assumes "sends base W st" "buffers_ok st" "tcp_write dta st = (n, st')"
  shows "sends base (if n = -1 then W else W @ dta) st' \<and> buffers_ok st' \<and> rbuf st' = rbuf st \<and> (n \<noteq> -1 \<longrightarrow> live st \<and> outStreamActive st)"
  using assms(2,3)
proof (cases rule: tcp_write_cases)
  case (refused e)
  have "sends base W st'" using assms(1) by (rule sends_cong) (simp_all add: refused wbuf_def)
  then show ?thesis using refused assms(2) by (simp add: buffers_ok_def rbuf_def)
next
  case (accepted q r)
  obtain k where k: "peerKnown st" "emitted base W (closedw st) k st" "drop k W = wbuf st"
    using assms(1) accepted(5) by (auto simp: sends_def)
  have open_end: "\<not> closedw st" "\<not> closedw st'" using accepted(2,6) by (simp_all add: closedw_def)
  have "emitted base (W @ dta) False k st'"
    using k(2) open_end carries_mono [of base W False _ _ _ dta False] wire_ok_mono [of base W False _ dta False]
    by (simp add: emitted_def accepted(2))
  moreover have "drop k (W @ dta) = wbuf st'"
    using k(2,3) accepted(3) by (simp add: emitted_def)
  moreover have "peerKnown st'" using k(1) accepted(2) by simp
  ultimately have "sends base (W @ dta) st'" using open_end by (auto simp: sends_def)
  then show ?thesis using accepted by (simp add: rbuf_def)
qed

lemma UpdateInWinSize_frame [simp]:
  "outSeqno (UpdateInWinSize st) = outSeqno st" "outPkt (UpdateInWinSize st) = outPkt st"
  "udp_sent (UpdateInWinSize st) = udp_sent st" "peerKnown (UpdateInWinSize st) = peerKnown st"
  "outStreamActive (UpdateInWinSize st) = outStreamActive st" "ts_state (UpdateInWinSize st) = ts_state st"
  "inStreamActive (UpdateInWinSize st) = inStreamActive st" "inAckno (UpdateInWinSize st) = inAckno st"
  by (simp_all add: UpdateInWinSize_def Let_def)

lemma UpdateInWinSize_sends: "sends base W st \<Longrightarrow> sends base W (UpdateInWinSize st)"
  by (rule sends_cong [of base W st]) simp_all

lemma tcp_read_sends:
  assumes "sends base W st" "buffers_ok st" "tcp_read sz st = (n, got, st')"
  shows "sends base W st' \<and> buffers_ok st'"
  using assms(2,3)
proof (cases rule: tcp_read_cases)
  case (refused e)
  have "sends base W st'" using assms(1) by (rule sends_cong) (simp_all add: refused wbuf_def)
  then show ?thesis using refused assms(2) by (simp add: buffers_ok_def)
next
  case finished
  show ?thesis unfolding finished(3) using assms(1,2) by (rule conjI)
next
  case (delivered r q d)
  have "sends base W st'"
    unfolding delivered(3) by (rule UpdateInWinSize_sends, rule sends_cong [OF assms(1)]) (simp_all add: wbuf_def)
  then show ?thesis using delivered(5) by (rule conjI)
qed

lemma closeWrite_sends:
  assumes "sends base W st"
  shows "sends base W (snd (closeWrite st))"
proof -
  obtain n where n: "peerKnown st" "emitted base W (closedw st) n st" "live st \<longrightarrow> drop n W = wbuf st"
    using assms by (auto simp: sends_def)
  let ?s = "snd (closeWrite st)"
  have s: "outSeqno ?s = outSeqno st" "outPkt ?s = outPkt st" "udp_sent ?s = udp_sent st" "wbuf ?s = wbuf st"
    "ts_state ?s = ts_state st" "peerKnown ?s = peerKnown st" "\<not> outStreamActive ?s"
    by (simp_all add: closeWrite_def Let_def wbuf_def)
  have "emitted base W (closedw ?s) n st" using n(2) by (rule emitted_closed) (simp add: closedw_def s)
  then have "emitted base W (closedw ?s) n ?s" by (simp add: emitted_def s)
  then show ?thesis using n s by (auto simp: sends_def)
qed

subsection \<open>The tick\<close>

lemma recv_check_sends: "sends base W st \<Longrightarrow> sends base W (recv_check D cts st)"
  using cleanup_sends [of base W st] by (simp add: recv_check_def cleanup_def)

lemma ack_packets_frame:
  "set (outPkt (ack_packets D cts u ps st)) \<subseteq> set ps \<and> outSeqno (ack_packets D cts u ps st) = outSeqno st \<and>
   udp_sent (ack_packets D cts u ps st) = udp_sent st \<and> peerKnown (ack_packets D cts u ps st) = peerKnown st \<and>
   wbuf (ack_packets D cts u ps st) = wbuf st \<and> outStreamActive (ack_packets D cts u ps st) = outStreamActive st \<and>
   ts_state (ack_packets D cts u ps st) = ts_state st \<and> inQueue (ack_packets D cts u ps st) = inQueue st \<and>
   inData (ack_packets D cts u ps st) = inData st"
proof (induction D cts u ps st rule: ack_packets.induct)
  case (1 D cts u st)
  then show ?case by (simp add: wbuf_def)
next
  case (2 D cts u pkt ps st)
  show ?case
  proof (cases "isOldSequence (tp_seqno pkt) (outAcked st)")
    case True
    let ?s1 = "raise_congestion st"
    let ?s2 = "if u \<and> tp_retrans pkt = 0 then update_rtt D cts pkt ?s1 else ?s1"
    have s2: "outSeqno ?s2 = outSeqno st" "udp_sent ?s2 = udp_sent st" "peerKnown ?s2 = peerKnown st" "wbuf ?s2 = wbuf st"
      "outStreamActive ?s2 = outStreamActive st" "ts_state ?s2 = ts_state st" "inQueue ?s2 = inQueue st" "inData ?s2 = inData st"
      by (simp_all add: raise_congestion_def update_rtt_def wbuf_def Let_def)
    have "ack_packets D cts u (pkt # ps) st = ack_packets D cts (u \<and> tp_retrans pkt = 0) ps ?s2"
      using True by (simp add: Let_def)
    moreover note "2.IH" [of ?s1 "u \<and> tp_retrans pkt = 0"]
    ultimately show ?thesis using True s2 by auto
  qed (simp add: wbuf_def)
qed

lemma timer_frame [simp]:
  "outSeqno (startRetransmitTimer cts st) = outSeqno st" "outPkt (startRetransmitTimer cts st) = outPkt st"
  "udp_sent (startRetransmitTimer cts st) = udp_sent st" "peerKnown (startRetransmitTimer cts st) = peerKnown st"
  "inQueue (startRetransmitTimer cts st) = inQueue st" "inData (startRetransmitTimer cts st) = inData st"
  "outStreamActive (startRetransmitTimer cts st) = outStreamActive st" "ts_state (startRetransmitTimer cts st) = ts_state st"
  "outSeqno (stopRetransmitTimer st) = outSeqno st" "outPkt (stopRetransmitTimer st) = outPkt st"
  "udp_sent (stopRetransmitTimer st) = udp_sent st" "peerKnown (stopRetransmitTimer st) = peerKnown st"
  "inQueue (stopRetransmitTimer st) = inQueue st" "inData (stopRetransmitTimer st) = inData st"
  "outStreamActive (stopRetransmitTimer st) = outStreamActive st" "ts_state (stopRetransmitTimer st) = ts_state st"
  "outSeqno (resetRetransmitTimer D st) = outSeqno st" "outPkt (resetRetransmitTimer D st) = outPkt st"
  "udp_sent (resetRetransmitTimer D st) = udp_sent st" "peerKnown (resetRetransmitTimer D st) = peerKnown st"
  "inQueue (resetRetransmitTimer D st) = inQueue st" "inData (resetRetransmitTimer D st) = inData st"
  "outStreamActive (resetRetransmitTimer D st) = outStreamActive st" "ts_state (resetRetransmitTimer D st) = ts_state st"
  "outSeqno (incRetransmitTimeout D st) = outSeqno st" "outPkt (incRetransmitTimeout D st) = outPkt st"
  "udp_sent (incRetransmitTimeout D st) = udp_sent st" "peerKnown (incRetransmitTimeout D st) = peerKnown st"
  "inQueue (incRetransmitTimeout D st) = inQueue st" "inData (incRetransmitTimeout D st) = inData st"
  "outStreamActive (incRetransmitTimeout D st) = outStreamActive st" "ts_state (incRetransmitTimeout D st) = ts_state st"
  by (simp_all add: startRetransmitTimer_def stopRetransmitTimer_def resetRetransmitTimer_def incRetransmitTimeout_def Let_def)

lemma acknowledge_sends:
  assumes "sends base W st"
  shows "sends base W (acknowledge D cts st)"
proof -
  note f = ack_packets_frame [of D cts True "outPkt st" st]
  have "wbuf (acknowledge D cts st) = wbuf st"
    using f by (simp add: acknowledge_def wbuf_def Let_def)
  then show ?thesis
    by (rule sends_cong [OF assms, rotated 4]) (use f in \<open>simp_all add: acknowledge_def Let_def\<close>)
qed

lemma retrans_packet_sends:
  assumes "sends base W st" "outPkt st = pkt # ps" "tp_data pkt2 = tp_data pkt" "tp_seqno pkt2 = tp_seqno pkt"
    "hasFin pkt2 = hasFin pkt" "outSeqno st' = outSeqno st" "peerKnown st' = peerKnown st" "wbuf st' = wbuf st"
    "outStreamActive st' = outStreamActive st" "ts_state st' = ts_state st"
    "udp_sent st' = udp_sent st @ [(writePacket pkt2 (MAX_SEG + TCP_PSEUDO_HDR_SIZE), t)]"
    "outPkt st' = pkt2\<lparr>tp_ts := a, tp_retrans := b\<rparr> # ps"
  shows "sends base W st'"
proof -
  obtain n where n: "peerKnown st" "emitted base W (closedw st) n st" "live st \<longrightarrow> drop n W = wbuf st"
    using assms(1) by (auto simp: sends_def)
  have p: "carries_pkt base W (closedw st) pkt2"
    using n(2) assms(2-5) by (simp add: emitted_def)
  then have "wire_ok base W (closedw st) (writePacket pkt2 (MAX_SEG + TCP_PSEUDO_HDR_SIZE))" by (rule written_wire_ok)
  then have "emitted base W (closedw st) n st'"
    using n(2) p assms(2,6,11,12) by (auto simp: emitted_def packet_simps)
  moreover have "closedw st' = closedw st" using assms(8,9) by (simp add: closedw_def)
  ultimately show ?thesis using n assms(7,8,10) by (auto simp: sends_def)
qed

lemma tcp_retrans_sends:
  assumes "sends base W st"
  shows "sends base W (tcp_retrans D cts st)"
proof (cases "\<not> peerKnown st \<or> \<not> retransTimerOn st \<or> d_less D (d_sub D cts (retransTimerTs st)) (retransTimeout st)")
  case True
  then show ?thesis using assms by (simp add: tcp_retrans_def)
next
  case on: False
  show ?thesis
  proof (cases "outPkt st")
    case Nil
    have "wbuf (resetRetransmitTimer D st) = wbuf st" by (simp add: wbuf_def)
    then have "sends base W (resetRetransmitTimer D st)" by (rule sends_cong [OF assms, rotated 4]) simp_all
    then show ?thesis using on Nil by (simp add: tcp_retrans_def)
  next
    case (Cons pkt ps)
    let ?r = "tcp_retrans D cts st"
    show ?thesis
    proof (cases "too_often pkt")
      case True
      have "peerKnown ?r" "closedw ?r" "\<not> live ?r" "outSeqno ?r = outSeqno st" "outPkt ?r = []" "udp_sent ?r = udp_sent st"
        using on Cons True
        by (simp_all add: tcp_retrans_def Let_def cleanup_def closedw_def wbuf_def split: prod.split)
      then show ?thesis using assms emitted_closed [of base W "closedw st" _ st True] by (auto simp: sends_def emitted_def)
    next
      case False
      define pkt2 where "pkt2 = (if hasSyn pkt then pkt else setAck (inAckno st) pkt)\<lparr>tp_winsize := ucast (inWinSize st)\<rparr>"
      have pkt2: "tp_data pkt2 = tp_data pkt" "tp_seqno pkt2 = tp_seqno pkt" "hasFin pkt2 = hasFin pkt"
        by (simp_all add: pkt2_def packet_simps)
      have "outSeqno ?r = outSeqno st" "peerKnown ?r = peerKnown st" "wbuf ?r = wbuf st"
        "outStreamActive ?r = outStreamActive st" "ts_state ?r = ts_state st"
        using on Cons False by (cases "hasSyn pkt"; simp add: tcp_retrans_def restartRetransmitTimer_def Let_def wbuf_def)+
      moreover have "\<exists>t. udp_sent ?r = udp_sent st @ [(writePacket pkt2 (MAX_SEG + TCP_PSEUDO_HDR_SIZE), t)]"
        using on Cons False by (cases "hasSyn pkt") (simp_all add: tcp_retrans_def restartRetransmitTimer_def Let_def pkt2_def)
      moreover have "outPkt ?r = pkt2\<lparr>tp_ts := cts, tp_retrans := tp_retrans pkt2 + 1\<rparr> # ps"
        using on Cons False by (cases "hasSyn pkt") (simp_all add: tcp_retrans_def restartRetransmitTimer_def Let_def pkt2_def)
      ultimately show ?thesis using retrans_packet_sends [OF assms Cons pkt2] by blast
    qed
  qed
qed


subsection \<open>What is sent\<close>

lemma send_segments_emitted:
  assumes "emitted base W f n st" "peerKnown st" "drop n W = concat q @ d" "full q" "send_segments D cts q m st = (m', st')"
  shows "\<exists>k sent. emitted base W f k st' \<and> q = sent @ inQueue st' \<and> drop k W = concat (inQueue st') @ d"
  using assms
proof (induction q arbitrary: n m st)
  case Nil
  then show ?case by (auto simp: emitted_def)
next
  case (Cons db q)
  show ?case
  proof (cases "MAX_SEG32 \<le> m")
    case True
    let ?p = "make_TcpPacket (d_int D 0) db"
    let ?s = "toSend cts ?p True st"
    have len: "length db = MAX_SEG" using Cons.prems(4) by simp
    have W: "drop n W = db @ concat q @ d" using Cons.prems(3) by simp
    then have fits: "n + length db \<le> length W"
      using Cons.prems(1) by (metis add_diff_cancel_left' emitted_def le_add1 le_add_diff_inverse length_append length_drop nat_add_left_cancel_le)
    have "carries base W f db (base + of_nat n) False"
      using carries_next [of n db W False f base] fits len W by simp
    then have "emitted base W f (n + length db) ?s"
      using toSend_emitted [OF Cons.prems(1,2), of ?p] fits by (simp add: packet_simps)
    moreover have "drop (n + length db) W = concat q @ d" using W by (metis add.commute append_eq_conv_conj drop_drop)
    moreover have "send_segments D cts q (m - MAX_SEG32) ?s = (m', st')" using Cons.prems(5) True by simp
    ultimately obtain k sent where "emitted base W f k st'" "q = sent @ inQueue st'" "drop k W = concat (inQueue st') @ d"
      using Cons.IH [of "n + length db" ?s "m - MAX_SEG32"] Cons.prems(2,4) by auto
    then show ?thesis by (intro exI [of _ k] exI [of _ "db # sent"]) simp
  next
    case False
    then have "st' = st\<lparr>inQueue := db # q\<rparr>" using Cons.prems(5) by simp
    then show ?thesis using Cons.prems by (intro exI [of _ n] exI [of _ "[]"]) (simp add: emitted_def)
  qed
qed

lemma send_segments_frame:
  "inData (snd (send_segments D cts q m st)) = inData st \<and> outDataRead (snd (send_segments D cts q m st)) = outDataRead st \<and>
   outQueue (snd (send_segments D cts q m st)) = outQueue st \<and> outDataNet (snd (send_segments D cts q m st)) = outDataNet st \<and>
   ts_state (snd (send_segments D cts q m st)) = ts_state st \<and> outStreamActive (snd (send_segments D cts q m st)) = outStreamActive st \<and>
   inStreamActive (snd (send_segments D cts q m st)) = inStreamActive st \<and> peerKnown (snd (send_segments D cts q m st)) = peerKnown st \<and>
   inAckno (snd (send_segments D cts q m st)) = inAckno st \<and> inPkt (snd (send_segments D cts q m st)) = inPkt st \<and>
   inWinSize (snd (send_segments D cts q m st)) = inWinSize st"
  by (induction D cts q m st rule: send_segments.induct) auto

lemma send_segments_sends:
  assumes "sends base W st" "live st" "buffers_ok st" "send_segments D cts (inQueue st) m st = (m', st')"
  shows "sends base W st' \<and> buffers_ok st'"
proof -
  obtain n where n: "peerKnown st" "emitted base W (closedw st) n st" "drop n W = concat (inQueue st) @ inData st"
    using assms(1,2) by (auto simp: sends_def wbuf_def)
  have full: "full (inQueue st)" using assms(3) by (simp add: buffers_ok_def)
  obtain k sent where k: "emitted base W (closedw st) k st'" "inQueue st = sent @ inQueue st'"
    "drop k W = concat (inQueue st') @ inData st"
    using send_segments_emitted [OF n(2,1,3) full assms(4)] by blast
  have fr: "inData st' = inData st" "outDataRead st' = outDataRead st" "outQueue st' = outQueue st" "outDataNet st' = outDataNet st"
    "outStreamActive st' = outStreamActive st" "peerKnown st' = peerKnown st"
    using send_segments_frame [of D cts "inQueue st" m st] assms(4) by simp_all
  have "closedw st \<longrightarrow> closedw st'" using k(2) fr by (simp add: closedw_def wbuf_def)
  then have "emitted base W (closedw st') k st'" using emitted_closed [OF k(1)] by blast
  moreover have "drop k W = wbuf st'" using k(3) fr by (simp add: wbuf_def)
  moreover have "buffers_ok st'" using assms(3) k(2) fr by (simp add: buffers_ok_def)
  ultimately show ?thesis using n(1) fr by (auto simp: sends_def)
qed

text \<open>The rest of what was written goes out as one short packet.\<close>

lemma short_packet_sends:
  assumes "sends base W st" "live st" "buffers_ok st" "inQueue st = []" "inData st \<noteq> []"
  shows "sends base W (toSend cts (make_TcpPacket z (inData st)) True (st\<lparr>inData := []\<rparr>))"
proof -
  obtain n where n: "peerKnown st" "emitted base W (closedw st) n st" "drop n W = inData st"
    using assms(1,2,4) by (auto simp: sends_def wbuf_def)
  let ?s = "st\<lparr>inData := []\<rparr>" and ?p = "make_TcpPacket z (inData st)"
  have nW: "n + length (inData st) = length W"
    using n(2,3) by (metis emitted_def le_add_diff_inverse length_drop)
  have len: "length (inData st) \<le> MAX_SEG" using assms(3) by (simp add: buffers_ok_def)
  let ?f = "\<not> outStreamActive st"
  have "emitted base W ?f n ?s" using emitted_closed [OF n(2), of ?f] assms(5) by (simp add: emitted_def closedw_def)
  moreover have "carries base W ?f (inData st) (base + of_nat n) False"
    using nW n(3) len by (intro carries_next) simp_all
  ultimately have "emitted base W ?f (length W) (toSend cts ?p True ?s)"
    using toSend_emitted [of base W ?f n ?s ?p cts True] n(1) nW by (simp add: packet_simps)
  then show ?thesis using n(1) assms(4) by (auto simp: sends_def closedw_def wbuf_def)
qed

text \<open>A packet with the FIN flag is sent when all that was written is behind it.\<close>

lemma send_fin_sends:
  assumes "sends base W st" "live st" "closedw st"
  shows "sends base W (send_fin D cts st)"
proof -
  obtain n where n: "peerKnown st" "emitted base W True n st" "drop n W = []"
    using assms by (auto simp: sends_def closedw_def)
  have nW: "n = length W" using n(2,3) by (simp add: emitted_def)
  let ?p = "setFin (make_TcpPacket (d_int D 0) [])" and ?s = "toSend cts (setFin (make_TcpPacket (d_int D 0) [])) False st"
  have "carries base W True [] (base + of_nat n) True" using nW by (intro carries_next) simp_all
  then have "emitted base W True n ?s"
    using toSend_emitted [OF n(2,1), of ?p] nW by (simp add: packet_simps)
  then have "sends base W ?s" using n(1) nW assms(3) by (auto simp: sends_def closedw_def)
  then show ?thesis using assms(2)
    unfolding send_fin_def Let_def by (auto elim!: sends_cong simp: wbuf_def)
qed

text \<open>The fields that the other half of the stream is about.\<close>

definition rview :: "'d TcpStream \<Rightarrow> 'd TcpPacket list \<times> u32 \<times> bytes \<times> bytes list \<times> bytes \<times> bool \<times> u32" where
  "rview st = (inPkt st, inAckno st, outDataRead st, outQueue st, outDataNet st, inStreamActive st, inWinSize st)"

lemma timer_rview [simp]:
  "rview (startRetransmitTimer cts st) = rview st" "rview (stopRetransmitTimer st) = rview st"
  "rview (resetRetransmitTimer D st) = rview st" "rview (incRetransmitTimeout D st) = rview st"
  by (simp_all add: rview_def startRetransmitTimer_def stopRetransmitTimer_def resetRetransmitTimer_def
      incRetransmitTimeout_def Let_def)

lemma toSend_rview [simp]: "rview (toSend cts p r st) = rview st" "rview (sendAck D cts st) = rview st"
  by (simp_all add: rview_def)

lemma ack_packets_rview: "rview (ack_packets D cts u ps st) = rview st"
proof (induction D cts u ps st rule: ack_packets.induct)
  case (2 D cts u pkt ps st)
  have "rview (raise_congestion st) = rview st" "rview (update_rtt D cts pkt s) = rview s" for s
    by (simp_all add: rview_def raise_congestion_def update_rtt_def Let_def)
  then show ?case using 2 by (auto simp: Let_def rview_def)
qed (simp add: rview_def)

lemma acknowledge_frame:
  "rview (acknowledge D cts st) = rview st \<and> inQueue (acknowledge D cts st) = inQueue st \<and>
   inData (acknowledge D cts st) = inData st \<and> outStreamActive (acknowledge D cts st) = outStreamActive st \<and>
   ts_state (acknowledge D cts st) = ts_state st"
  using ack_packets_frame [of D cts True "outPkt st" st] ack_packets_rview [of D cts True "outPkt st" st]
  by (simp add: acknowledge_def Let_def)

lemma tcp_retrans_frame:
  "(rview (tcp_retrans D cts st) = rview st \<and> inQueue (tcp_retrans D cts st) = inQueue st \<and>
    inData (tcp_retrans D cts st) = inData st \<and> outStreamActive (tcp_retrans D cts st) = outStreamActive st \<and>
    ts_state (tcp_retrans D cts st) = ts_state st) \<or> (\<exists>s. tcp_retrans D cts st = cleanup s)"
proof (cases "\<not> peerKnown st \<or> \<not> retransTimerOn st \<or> d_less D (d_sub D cts (retransTimerTs st)) (retransTimeout st)")
  case True
  then show ?thesis by (simp add: tcp_retrans_def)
next
  case on: False
  show ?thesis
  proof (cases "outPkt st")
    case Nil
    then show ?thesis using on by (simp add: tcp_retrans_def)
  next
    case (Cons pkt ps)
    show ?thesis
    proof (cases "too_often pkt")
      case True
      then have "\<exists>s. tcp_retrans D cts st = cleanup s"
        using on Cons unfolding tcp_retrans_def Let_def by (auto split: prod.split)
      then show ?thesis by blast
    next
      case False
      then show ?thesis using on Cons
        by (cases "hasSyn pkt"; simp add: tcp_retrans_def restartRetransmitTimer_def Let_def; simp add: rview_def)
    qed
  qed
qed

lemma cleanup_simps [simp]: "buffers_ok (cleanup st)" "ts_state (cleanup st) = 0"
  by (simp_all add: cleanup_def buffers_ok_def)

lemma buffers_ok_rview:
  "rview st' = rview st \<Longrightarrow> inQueue st' = inQueue st \<Longrightarrow> inData st' = inData st \<Longrightarrow> buffers_ok st' = buffers_ok st"
  by (simp add: rview_def buffers_ok_def)

lemma send_fin_frame: "rview (send_fin D cts st) = rview st \<and> (live st \<longrightarrow> live (send_fin D cts st)) \<and>
    buffers_ok (send_fin D cts st) = buffers_ok st"
  by (simp add: send_fin_def Let_def rview_def buffers_ok_def)

lemma tcp_send_keeps:
  assumes "sends base W st" "buffers_ok st"
  shows "sends base W (tcp_send D cts st) \<and> buffers_ok (tcp_send D cts st) \<and>
    (live (tcp_send D cts st) \<longrightarrow> live st \<and> rview (tcp_send D cts st) = rview st)"
proof -
  define s1 where "s1 = tcp_retrans D cts (acknowledge D cts st)"
  have snd1: "sends base W s1" unfolding s1_def by (intro tcp_retrans_sends acknowledge_sends assms)
  have fr: "rview s1 = rview st \<and> ts_state s1 = ts_state st \<or> ts_state s1 = 0" and buf1: "buffers_ok s1"
    using tcp_retrans_frame [of D cts "acknowledge D cts st"] acknowledge_frame [of D cts st] assms(2)
      buffers_ok_rview [of s1 st] by (auto simp: s1_def)
  show ?thesis
  proof (cases "live s1")
    case False
    then have "tcp_send D cts st = s1" by (simp add: tcp_send_def s1_def [symmetric] Let_def)
    then show ?thesis using snd1 buf1 fr False by auto
  next
    case live: True
    then have notless: "\<not> ts_state s1 < 4" by simp
    obtain m s2 where sg: "send_segments D cts (inQueue s1) (send_room s1) s1 = (m, s2)" by fastforce
    have s2: "sends base W s2" "buffers_ok s2" using send_segments_sends [OF snd1 live buf1 sg] by simp_all
    have fr2: "rview s2 = rview s1" "ts_state s2 = ts_state s1"
      using send_segments_frame [of D cts "inQueue s1" "send_room s1" s1] sg by (simp_all add: rview_def)
    have "live st \<and> rview s1 = rview st" using fr live by auto
    moreover have "tcp_send D cts st = (
        if length (inQueue s2) < length (inQueue s1) then s2
        else if inQueue s2 = [] \<and> of_nat (length (inData s2)) \<le> m \<and> inData s2 \<noteq> []
        then toSend cts (make_TcpPacket (d_int D 0) (inData s2)) True (s2\<lparr>inData := []\<rparr>)
        else if \<not> outStreamActive s2 \<and> length (inQueue s2) + length (inData s2) = 0 \<and> (ts_state s2 = 4 \<or> ts_state s2 = 9)
        then send_fin D cts s2 else if needs_ack D cts s2 then sendAck D cts s2 else s2)"
      by (simp only: tcp_send_def Let_def s1_def [symmetric] sg prod.case if_not_P [OF notless])
    moreover have "sends base W (toSend cts (make_TcpPacket (d_int D 0) (inData s2)) True (s2\<lparr>inData := []\<rparr>)) \<and>
        buffers_ok (toSend cts (make_TcpPacket (d_int D 0) (inData s2)) True (s2\<lparr>inData := []\<rparr>)) \<and>
        rview (toSend cts (make_TcpPacket (d_int D 0) (inData s2)) True (s2\<lparr>inData := []\<rparr>)) = rview s2"
      if "inQueue s2 = []" "inData s2 \<noteq> []"
      using short_packet_sends [OF s2(1) _ s2(2) that] live fr2 s2(2) by (simp add: buffers_ok_def rview_def)
    moreover have "sends base W (send_fin D cts s2)" if "\<not> outStreamActive s2" "length (inQueue s2) + length (inData s2) = 0"
      using send_fin_sends [OF s2(1)] that live fr2 by (simp add: closedw_def wbuf_def)
    ultimately show ?thesis using s2 fr2 live sendAck_sends [OF s2(1)] send_fin_frame [of D cts s2] by auto
  qed
qed

lemma tcp_tick_keeps:
  assumes "sends base W st" "buffers_ok st"
  shows "sends base W (tcp_tick D cts st) \<and> buffers_ok (tcp_tick D cts st) \<and>
    (live (tcp_tick D cts st) \<longrightarrow> live st \<and> rview (tcp_tick D cts st) = rview st)"
proof -
  let ?s = "recv_check D cts st"
  have "sends base W ?s" using assms(1) by (rule recv_check_sends)
  moreover have "buffers_ok ?s" using assms(2) by (simp add: recv_check_def)
  moreover have "live ?s \<longrightarrow> ?s = st" by (simp add: recv_check_def)
  ultimately show ?thesis using tcp_send_keeps [of base W ?s D cts] by (auto simp: tcp_tick_def)
qed

end
