(* ===== verification/Tcp_Receiver.thy ===== *)
theory Tcp_Receiver
  imports Tcp_Sends
begin

text \<open>
  The receiving side. \<open>W\<close> is what the peer has written, \<open>f\<close> says that the peer has closed its side and all of it is in
  packets, and \<open>R\<close> is what the application has read. What was read and what can be read is a prefix of \<open>W\<close>, the next
  number that is expected is that of the first byte behind it, and every packet that waits carries bytes of \<open>W\<close>. The
  stream is closed for reading only when all of \<open>W\<close> has come.
\<close>

definition receives :: "u32 \<Rightarrow> bytes \<Rightarrow> bool \<Rightarrow> bytes \<Rightarrow> 'd TcpStream \<Rightarrow> bool" where
  "receives base W f R st = ((\<exists>n \<le> length W. R @ rbuf st = take n W \<and> inAckno st = base + of_nat n \<and>
     (\<not> inStreamActive st \<longrightarrow> f \<and> n = length W)) \<and> (\<forall>p\<in>set (inPkt st). carries_pkt base W f p))"

lemma receives_mono:
  assumes "receives base W f R st" "f \<longrightarrow> X = [] \<and> f'"
  shows "receives base (W @ X) f' R st"
proof -
  obtain n where n: "n \<le> length W" "R @ rbuf st = take n W" "inAckno st = base + of_nat n"
    "\<not> inStreamActive st \<longrightarrow> f \<and> n = length W" using assms(1) by (auto simp: receives_def)
  then have "n \<le> length (W @ X) \<and> R @ rbuf st = take n (W @ X) \<and> inAckno st = base + of_nat n \<and>
    (\<not> inStreamActive st \<longrightarrow> f' \<and> n = length (W @ X))" using assms(2) by auto
  then show ?thesis using assms carries_mono unfolding receives_def by blast
qed

lemma receives_rview: "rview st' = rview st \<Longrightarrow> receives base W f R st' = receives base W f R st"
  by (simp add: receives_def rview_def rbuf_def)

subsection \<open>The bytes of a packet\<close>

lemma push_data_rbuf:
  assumes "length dta \<le> MAX_SEG" "buffers_ok st"
  shows "rbuf (push_data dta st) = rbuf st @ dta"
proof (cases "length (outDataNet st) + length dta < MAX_SEG")
  case False
  let ?k = "MAX_SEG - length (outDataNet st)"
  have "length (outDataNet st) < MAX_SEG" using assms(2) by (simp add: buffers_ok_def)
  then have m: "length dta - ?k < MAX_SEG" "length dta - (length dta - ?k) = ?k" using assms(1) False by auto
  then show ?thesis using False by (simp add: push_data_def rbuf_def Let_def)
qed (simp add: push_data_def rbuf_def)

lemma push_data_buffers:
  assumes "buffers_ok st"
  shows "buffers_ok (push_data dta st)"
proof (cases "length (outDataNet st) + length dta < MAX_SEG")
  case False
  let ?k = "MAX_SEG - length (outDataNet st)"
  have "length (outDataNet st) < MAX_SEG" using assms by (simp add: buffers_ok_def)
  moreover have "(length dta - ?k) mod MAX_SEG < MAX_SEG" by simp
  moreover have "length (take MAX_SEG (drop ?k dta)) = MAX_SEG" if "(length dta - ?k) div MAX_SEG \<noteq> 0"
    using that by (simp add: div_eq_0_iff)
  ultimately show ?thesis
    using assms False by (auto simp: push_data_def buffers_ok_def Let_def)
qed (use assms in \<open>simp add: push_data_def buffers_ok_def\<close>)

lemma push_data_frame [simp]:
  "ts_state (push_data dta st) = ts_state st" "inStreamActive (push_data dta st) = inStreamActive st"
  "inAckno (push_data dta st) = inAckno st" "wbuf (push_data dta st) = wbuf st"
  "outSeqno (push_data dta st) = outSeqno st" "outPkt (push_data dta st) = outPkt st"
  "udp_sent (push_data dta st) = udp_sent st" "peerKnown (push_data dta st) = peerKnown st"
  "outStreamActive (push_data dta st) = outStreamActive st"
  by (simp_all add: push_data_def wbuf_def Let_def)

lemma late_ack_frame [simp]:
  "ts_state (late_ack p st) = ts_state st" "inStreamActive (late_ack p st) = inStreamActive st"
  "inAckno (late_ack p st) = inAckno st" "wbuf (late_ack p st) = wbuf st" "rbuf (late_ack p st) = rbuf st"
  "outSeqno (late_ack p st) = outSeqno st" "outPkt (late_ack p st) = outPkt st"
  "udp_sent (late_ack p st) = udp_sent st" "peerKnown (late_ack p st) = peerKnown st"
  "outStreamActive (late_ack p st) = outStreamActive st" "buffers_ok (late_ack p st) = buffers_ok st"
  by (simp_all add: late_ack_def wbuf_def rbuf_def buffers_ok_def)

text \<open>Two positions below \<open>2 ^ 32\<close> with the same sequence number are the same.\<close>

lemma seqno_inj:
  assumes "base + of_nat k = base + (of_nat n :: u32)" "k < 2 ^ 32" "n < 2 ^ 32"
  shows "k = n"
proof -
  have "(of_nat k :: u32) = of_nat n" using assms(1) by simp
  then have "unat (of_nat k :: u32) = unat (of_nat n :: u32)" by (rule arg_cong)
  then show ?thesis using assms(2,3) by (simp add: unat_of_nat take_bit_nat_eq_self)
qed

lemma expected_data:
  assumes "carries base W f d s fin" "length W < 2 ^ 32" "n \<le> length W" "s = base + of_nat n"
  shows "n + length d \<le> length W \<and> take n W @ d = take (n + length d) W \<and> (fin \<longrightarrow> f \<and> n + length d = length W) \<and> length d \<le> MAX_SEG"
proof (cases "d = [] \<and> \<not> fin")
  case False
  then obtain k where k: "length d \<le> MAX_SEG" "k \<le> length W" "s = base + of_nat k" "k + length d \<le> length W"
    "d = take (length d) (drop k W)" "fin \<longrightarrow> f \<and> k = length W" using assms(1) unfolding carries_def by blast
  have "k = n" by (rule seqno_inj [of base]) (use assms k in auto)
  then show ?thesis using k by (metis add_cancel_right_right le_add_same_cancel1 le_antisym take_add zero_le)
qed (use assms in simp)

lemma inAckno_bufs [simp]:
  "wbuf (st\<lparr>inAckno := a\<rparr>) = wbuf st" "rbuf (st\<lparr>inAckno := a\<rparr>) = rbuf st" "buffers_ok (st\<lparr>inAckno := a\<rparr>) = buffers_ok st"
  by (simp_all add: wbuf_def rbuf_def buffers_ok_def)

text \<open>What the packet with the expected number does to the data.\<close>

definition grown :: "'d TcpPacket \<Rightarrow> 'd TcpStream \<Rightarrow> 'd TcpStream" where
  "grown pkt st = UpdateInWinSize (push_data (tp_data pkt) (late_ack pkt
     (st\<lparr>inAckno := tp_seqno pkt + of_nat (length (tp_data pkt))\<rparr>)))"

lemma take_InPkt_grown: "take_InPkt D cts pkt st = take_fin_ack pkt (take_fin D cts pkt (grown pkt st))"
  by (simp add: take_InPkt_def grown_def)

lemma grown_frame [simp]:
  "ts_state (grown p st) = ts_state st" "inStreamActive (grown p st) = inStreamActive st"
  "inAckno (grown p st) = tp_seqno p + of_nat (length (tp_data p))" "inPkt (grown p st) = inPkt st"
  by (simp_all add: grown_def)

lemma grown_sends: "sends base W st \<Longrightarrow> sends base W (grown p st)"
  unfolding grown_def by (rule UpdateInWinSize_sends, rule sends_cong [of base W st]) simp_all

lemma grown_buffers: "buffers_ok st \<Longrightarrow> buffers_ok (grown p st)"
  unfolding grown_def UpdateInWinSize_buffers by (rule push_data_buffers) simp

lemma grown_receives:
  assumes "receives base W f R st" "carries_pkt base W f p" "tp_seqno p = inAckno st" "length W < 2 ^ 32" "buffers_ok st"
  shows "receives base W f R (grown p st)" "hasFin p \<longrightarrow> receives base W f R ((grown p st)\<lparr>inStreamActive := False\<rparr>)"
proof -
  obtain n where n: "n \<le> length W" "R @ rbuf st = take n W" "inAckno st = base + of_nat n"
    "\<not> inStreamActive st \<longrightarrow> f \<and> n = length W" using assms(1) by (auto simp: receives_def)
  have e: "n + length (tp_data p) \<le> length W" "take n W @ tp_data p = take (n + length (tp_data p)) W"
    "hasFin p \<longrightarrow> f \<and> n + length (tp_data p) = length W" "length (tp_data p) \<le> MAX_SEG"
    using expected_data [OF assms(2,4) n(1)] assms(3) n(3) by simp_all
  have "rbuf (grown p st) = rbuf st @ tp_data p"
    using e(4) assms(5) by (simp add: grown_def push_data_rbuf)
  then have r: "R @ rbuf (grown p st) = take (n + length (tp_data p)) W" using e(2) n(2) by (metis append.assoc)
  have a: "inAckno (grown p st) = base + of_nat (n + length (tp_data p))" using assms(3) n(3) by simp
  show "receives base W f R (grown p st)"
    unfolding receives_def using e r a n(4) assms(1) by (intro conjI exI [of _ "n + length (tp_data p)"]) (auto simp: receives_def)
  show "hasFin p \<longrightarrow> receives base W f R ((grown p st)\<lparr>inStreamActive := False\<rparr>)"
    unfolding receives_def using e r a assms(1)
    by (intro impI conjI exI [of _ "n + length (tp_data p)"]) (auto simp: receives_def rbuf_def)
qed

end
