(* ===== verification/Tcp_Arrivals.thy ===== *)
theory Tcp_Arrivals
  imports Tcp_Receiver
begin

text \<open>
  A datagram that carries bytes of the peer's stream keeps both invariants: \<open>side base' W' base W f R st\<close> says that
  \<open>st\<close> sends \<open>W'\<close> and, as long as it is not closed, receives \<open>W\<close>.
\<close>

definition side :: "u32 \<Rightarrow> bytes \<Rightarrow> u32 \<Rightarrow> bytes \<Rightarrow> bool \<Rightarrow> bytes \<Rightarrow> 'd TcpStream \<Rightarrow> bool" where
  "side base' W' base W f R st = (sends base' W' st \<and> buffers_ok st \<and> (live st \<longrightarrow> receives base W f R st))"

lemma sends_upd:
  "sends base W st \<Longrightarrow> sends base W (st\<lparr>inStreamActive := a\<rparr>)"
  "sends base W st \<Longrightarrow> sends base W (st\<lparr>inPkt := ps\<rparr>)"
  "sends base W st \<Longrightarrow> sends base W (st\<lparr>outAcked := v, outWinSize := w\<rparr>)"
  "sends base W st \<Longrightarrow> sends base W (st\<lparr>lastIncomingPkt := t\<rparr>)"
  "sends base W st \<Longrightarrow> sends base W (st\<lparr>outWinSize := w\<rparr>)"
  by (rule sends_cong [of base W st]; simp add: wbuf_def)+

lemma sends_state: "sends base W st \<Longrightarrow> live st \<Longrightarrow> sends base W (st\<lparr>ts_state := s\<rparr>)"
  by (rule sends_cong [of base W st]) (simp_all add: wbuf_def)

lemma buffers_upd [simp]:
  "buffers_ok (st\<lparr>inStreamActive := a\<rparr>) = buffers_ok st" "buffers_ok (st\<lparr>inPkt := ps\<rparr>) = buffers_ok st"
  "buffers_ok (st\<lparr>outAcked := v, outWinSize := w\<rparr>) = buffers_ok st" "buffers_ok (st\<lparr>ts_state := s\<rparr>) = buffers_ok st"
  "buffers_ok (st\<lparr>lastIncomingPkt := t\<rparr>) = buffers_ok st" "buffers_ok (st\<lparr>outAcked := v\<rparr>) = buffers_ok st"
  "buffers_ok (st\<lparr>outWinSize := w\<rparr>) = buffers_ok st"
  by (simp_all add: buffers_ok_def)

lemma receives_upd [simp]:
  "receives base W f R (st\<lparr>outAcked := v, outWinSize := w\<rparr>) = receives base W f R st"
  "receives base W f R (st\<lparr>ts_state := s\<rparr>) = receives base W f R st"
  "receives base W f R (st\<lparr>outWinSize := w\<rparr>) = receives base W f R st"
  "receives base W f R (st\<lparr>outAcked := v\<rparr>) = receives base W f R st"
  "receives base W f R (st\<lparr>lastIncomingPkt := t\<rparr>) = receives base W f R st"
  "receives base W f R (sendAck D cts st) = receives base W f R st"
  by (rule receives_rview, simp add: rview_def)+

lemma receives_fewer: "receives base W f R st \<Longrightarrow> (\<forall>p\<in>set ps. carries_pkt base W f p) \<Longrightarrow> receives base W f R (st\<lparr>inPkt := ps\<rparr>)"
  by (simp add: receives_def rbuf_def)

lemma cleanup_side: "sends base' W' st \<Longrightarrow> side base' W' base W f R (cleanup st)"
  by (simp add: side_def cleanup_sends)

lemma cleanup_state: "sends base' W' st \<Longrightarrow> live st \<Longrightarrow> side base' W' base W f R (cleanup (st\<lparr>ts_state := s\<rparr>))"
  by (intro cleanup_side sends_state)

subsection \<open>The packet that is expected\<close>

lemma take_fin_side:
  assumes "side base' W' base W f R st" "live st" "hasFin p \<longrightarrow> receives base W f R (st\<lparr>inStreamActive := False\<rparr>)"
  shows "side base' W' base W f R (take_fin D cts p st)"
proof (cases "hasFin p")
  case True
  let ?s = "(sendAck D cts st)\<lparr>inStreamActive := False\<rparr>"
  have s: "sends base' W' ?s" "buffers_ok ?s" "live ?s"
    using assms(1,2) by (auto simp: side_def intro: sends_upd sendAck_sends)
  have r: "receives base W f R ?s"
    using assms(3) True receives_rview [of ?s "st\<lparr>inStreamActive := False\<rparr>"] by (simp add: rview_def)
  have st: "side base' W' base W f R (?s\<lparr>ts_state := x\<rparr>)" for x
    using s r sends_state [OF s(1,3)] by (simp add: side_def)
  show ?thesis using True st cleanup_state [OF s(1,3)] s r by (auto simp: take_fin_def Let_def side_def)
qed (use assms in \<open>simp add: take_fin_def\<close>)

lemma take_fin_ack_side:
  assumes "side base' W' base W f R st"
  shows "side base' W' base W f R (take_fin_ack p st)"
proof -
  have "live st \<longrightarrow> side base' W' base W f R (st\<lparr>ts_state := x\<rparr>) \<and> side base' W' base W f R (cleanup (st\<lparr>ts_state := x\<rparr>))" for x
    using assms by (simp add: side_def cleanup_sends sends_state)
  then show ?thesis using assms unfolding take_fin_ack_def by auto
qed

lemma take_InPkt_side:
  assumes "side base' W' base W f R st" "live st" "carries_pkt base W f p" "tp_seqno p = inAckno st" "length W < 2 ^ 32"
  shows "side base' W' base W f R (take_InPkt D cts p st)"
proof -
  have "receives base W f R st" "buffers_ok st" "sends base' W' st" using assms(1,2) by (simp_all add: side_def)
  note g = grown_receives [OF this(1) assms(3,4,5) this(2)] grown_buffers [OF this(2)] grown_sends [OF this(3)]
  then have "side base' W' base W f R (grown p st)" by (simp add: side_def)
  then show ?thesis unfolding take_InPkt_grown by (intro take_fin_ack_side take_fin_side) (use g assms(2) in simp_all)
qed

lemma scan_InPkts_some:
  "scan_InPkts a ps = (Some p, ps') \<Longrightarrow> tp_seqno p = a \<and> p \<in> set ps \<and> set ps' \<subseteq> set ps"
proof (induction ps arbitrary: ps')
  case (Cons q ps)
  obtain r rs where "scan_InPkts a ps = (r, rs)" by (cases "scan_InPkts a ps")
  then show ?case using Cons by (fastforce split: if_splits)
qed simp

lemma scan_InPkts_none: "scan_InPkts a ps = (None, ps') \<Longrightarrow> set ps' \<subseteq> set ps"
proof (induction ps arbitrary: ps')
  case (Cons q ps)
  obtain r rs where "scan_InPkts a ps = (r, rs)" by (cases "scan_InPkts a ps")
  then show ?case using Cons by (fastforce split: if_splits)
qed simp

text \<open>A stream that is closed has no packets, and the loop ends.\<close>

lemma take_InPkt_dead:
  assumes "live st" "\<not> live (take_InPkt D cts p st)"
  shows "inPkt (take_InPkt D cts p st) = []"
  using assms unfolding take_InPkt_grown take_fin_ack_def take_fin_def
  by (auto simp: cleanup_def Let_def split: if_splits)

lemma check_InPkts_side:
  assumes "side base' W' base W f R st" "length W < 2 ^ 32" "live st \<or> inPkt st = []"
  shows "side base' W' base W f R (check_InPkts D cts st)"
  using assms
proof (induction D cts st rule: check_InPkts.induct)
  case (1 D cts st)
  obtain r ps where sc: "scan_InPkts (inAckno st) (inPkt st) = (r, ps)" by fastforce
  show ?case
  proof (cases r)
    case None
    have "live st \<longrightarrow> receives base W f R (st\<lparr>inPkt := ps\<rparr>)"
      using "1.prems"(1) scan_InPkts_none sc None by (fastforce simp: side_def receives_def rbuf_def)
    then have "side base' W' base W f R (st\<lparr>inPkt := ps\<rparr>)" using "1.prems"(1) by (simp add: side_def sends_upd)
    then show ?thesis using sc None by (simp add: check_InPkts.simps [of D cts st])
  next
    case (Some p)
    let ?s = "take_InPkt D cts p (st\<lparr>inPkt := ps\<rparr>)"
    have p: "tp_seqno p = inAckno st" "p \<in> set (inPkt st)" "set ps \<subseteq> set (inPkt st)"
      using scan_InPkts_some sc Some by blast+
    then have live: "live st" using "1.prems"(3) by auto
    have c: "\<forall>q\<in>set (inPkt st). carries_pkt base W f q" using "1.prems"(1) live by (simp add: side_def receives_def)
    then have cp: "carries_pkt base W f p" using p(2) by blast
    from c have "receives base W f R (st\<lparr>inPkt := ps\<rparr>)"
      using "1.prems"(1) p(3) live by (intro receives_fewer) (auto simp: side_def)
    then have "side base' W' base W f R (st\<lparr>inPkt := ps\<rparr>)" using "1.prems"(1) by (simp add: side_def sends_upd)
    then have "side base' W' base W f R ?s"
      by (rule take_InPkt_side) (use live p(1) cp "1.prems"(2) in simp_all)
    moreover have "live ?s \<or> inPkt ?s = []" using take_InPkt_dead [of "st\<lparr>inPkt := ps\<rparr>" D cts p] live by (cases "live ?s") simp_all
    ultimately have "side base' W' base W f R (check_InPkts D cts ?s)"
      using "1.IH" [OF sc [symmetric] Some] "1.prems"(2) by simp
    then show ?thesis using sc Some by (simp add: check_InPkts.simps [of D cts st])
  qed
qed

subsection \<open>A datagram\<close>

lemma incoming_Established_side:
  assumes "side base' W' base W f R st" "live st" "carries_pkt base W f p" "length W < 2 ^ 32"
  shows "side base' W' base W f R (incoming_Established D cts p st)"
proof -
  define s where "s = (if \<not> isOldSequence (tp_seqno p) (inAckno st) \<and> isOldSequence (tp_seqno p) (inAckno st + maxWinSize st)
    then st\<lparr>outAcked := (if hasAck p then tp_ackno p else outAcked st), outWinSize := ucast (tp_winsize p)\<rparr> else sendAck D cts st)"
  define ps where "ps = (if length (inPkt s @ [p]) > kMaxQueueSize then tl (inPkt s @ [p]) else inPkt s @ [p])"
  have s: "sends base' W' s" "buffers_ok s" "live s" "receives base W f R s" "inPkt s = inPkt st"
    using assms(1,2) by (auto simp: s_def side_def intro: sends_upd sendAck_sends)
  have "set ps \<subseteq> insert p (set (inPkt s))" unfolding ps_def by (cases "inPkt s") auto
  then have "receives base W f R (s\<lparr>inPkt := ps\<rparr>)"
    using s(4) assms(3) by (intro receives_fewer) (auto simp: receives_def)
  then have "side base' W' base W f R (s\<lparr>inPkt := ps\<rparr>)" using s by (simp add: side_def sends_upd)
  then have "side base' W' base W f R (check_InPkts D cts (s\<lparr>inPkt := ps\<rparr>))"
    using check_InPkts_side assms(4) s(3) by fastforce
  then show ?thesis unfolding incoming_Established_def Let_def s_def [symmetric] ps_def .
qed

lemma recvPkt_side:
  assumes "side base' W' base W f R st" "live st" "wire_ok base W f b" "length W < 2 ^ 32"
  shows "side base' W' base W f R (recvPkt D cts rnd b st)"
proof (cases "readPacket b (make_TcpPacket (d_int D 0) [])")
  case (Some p)
  let ?s = "st\<lparr>lastIncomingPkt := cts\<rparr>"
  have c: "carries_pkt base W f p" using assms(3) Some by (rule read_wire_ok)
  have s: "side base' W' base W f R ?s" using assms(1) by (simp add: side_def sends_upd)
  have e: "side base' W' base W f R (incoming_Established D cts p ?s)"
    using s c assms(2,4) by (intro incoming_Established_side) simp_all
  have cl: "side base' W' base W f R (?s\<lparr>ts_state := 0\<rparr>)"
    using s sends_state [of base' W' ?s 0] assms(2) by (simp add: side_def)
  have "ts_state st \<noteq> 0 \<and> ts_state st \<noteq> 1 \<and> ts_state st \<noteq> 2 \<and> ts_state st \<noteq> 3"
    using assms(2) by (auto simp: word_le_nat_alt)
  then show ?thesis using Some e cl s by (auto simp: recvPkt_def tcp_handleIncoming_def)
qed (use assms in \<open>simp add: recvPkt_def\<close>)

end
