(* ===== verification/Tcp_Link.thy ===== *)
theory Tcp_Link
  imports Tcp_Arrivals "HOL-Library.Sublist"
begin

text \<open>
  Two streams and the network between them. A side acts as long as it is not closed: its application writes, reads and
  closes, its tick comes, and a datagram arrives that the other side has sent at any time before. So the network may
  lose datagrams, repeat them and change their order. \<open>pr_wrote\<close> and \<open>pr_got\<close> are all bytes that the application
  has written and read.
\<close>

datatype tcp_event = Ev_write bytes | Ev_read nat | Ev_closeWrite | Ev_close | Ev_tick | Ev_recv bytes

record 'd peer =
  pr_stream :: "'d TcpStream"
  pr_wrote :: bytes
  pr_got :: bytes

fun peer_act :: "'d double_ops \<Rightarrow> 'd \<Rightarrow> u32 \<Rightarrow> tcp_event \<Rightarrow> 'd peer \<Rightarrow> 'd peer" where
  "peer_act D cts rnd (Ev_write dta) p =
     (let (n, st) = tcp_write dta (pr_stream p)
      in p\<lparr>pr_stream := st, pr_wrote := pr_wrote p @ (if n = -1 then [] else dta)\<rparr>)"
| "peer_act D cts rnd (Ev_read sz) p =
     (let (n, got, st) = tcp_read sz (pr_stream p) in p\<lparr>pr_stream := st, pr_got := pr_got p @ got\<rparr>)"
| "peer_act D cts rnd Ev_closeWrite p = p\<lparr>pr_stream := snd (closeWrite (pr_stream p))\<rparr>"
| "peer_act D cts rnd Ev_close p = p\<lparr>pr_stream := snd (tcp_close (pr_stream p))\<rparr>"
| "peer_act D cts rnd Ev_tick p = p\<lparr>pr_stream := tcp_tick D cts (pr_stream p)\<rparr>"
| "peer_act D cts rnd (Ev_recv b) p = p\<lparr>pr_stream := recvPkt D cts rnd b (pr_stream p)\<rparr>"

fun may_act :: "tcp_event \<Rightarrow> 'd peer \<Rightarrow> 'd peer \<Rightarrow> bool" where
  "may_act (Ev_recv b) p q = (live (pr_stream p) \<and> b \<in> fst ` set (udp_sent (pr_stream q)))"
| "may_act _ p q = live (pr_stream p)"

inductive link_reach :: "'d double_ops \<Rightarrow> 'd peer \<Rightarrow> 'd peer \<Rightarrow> 'd peer \<Rightarrow> 'd peer \<Rightarrow> bool" for D p0 q0 where
  link_begin: "link_reach D p0 q0 p0 q0"
| link_left: "link_reach D p0 q0 p q \<Longrightarrow> may_act e p q \<Longrightarrow> link_reach D p0 q0 (peer_act D cts rnd e p) q"
| link_right: "link_reach D p0 q0 p q \<Longrightarrow> may_act e q p \<Longrightarrow> link_reach D p0 q0 p (peer_act D cts rnd e q)"

text \<open>A side that has just been established: \<open>a\<close> is its next sequence number, \<open>b\<close> the one it expects. Of the packets of
  the handshake some may still be on their way.\<close>

definition fresh_side :: "u32 \<Rightarrow> u32 \<Rightarrow> 'd peer \<Rightarrow> bool" where
  "fresh_side a b p = (let st = pr_stream p in pr_wrote p = [] \<and> pr_got p = [] \<and> live st \<and> peerKnown st \<and>
     inStreamActive st \<and> outSeqno st = a \<and> inAckno st = b \<and> inPkt st = [] \<and> inData st = [] \<and>
     inQueue st = [] \<and> outDataRead st = [] \<and> outQueue st = [] \<and> outDataNet st = [] \<and>
     (\<forall>k\<in>set (outPkt st). carries_pkt a [] False k) \<and> (\<forall>d\<in>fst ` set (udp_sent st). wire_ok a [] False d))"

definition joined :: "u32 \<Rightarrow> u32 \<Rightarrow> 'd peer \<Rightarrow> 'd peer \<Rightarrow> bool" where
  "joined a b p q = (fresh_side a b p \<and> fresh_side b a q)"

subsection \<open>A side that is closed for writing stays so\<close>

lemma cleanup_closedw [simp]: "closedw (cleanup st)"
  by (simp add: cleanup_def closedw_def wbuf_def)

lemma closedw_same: "closedw st \<Longrightarrow> wbuf st' = wbuf st \<Longrightarrow> outStreamActive st' = outStreamActive st \<Longrightarrow> closedw st'"
  by (simp add: closedw_def)

lemma take_InPkt_closedw:
  assumes "closedw st"
  shows "closedw (take_InPkt D cts p st)"
proof -
  have g: "closedw (grown p st)" using assms by (rule closedw_same) (simp_all add: grown_def)
  then have f: "closedw (take_fin D cts p (grown p st))"
    by (auto simp: take_fin_def Let_def elim!: closedw_same simp: wbuf_def)
  show ?thesis unfolding take_InPkt_grown take_fin_ack_def using f by (auto elim!: closedw_same simp: wbuf_def)
qed

lemma check_InPkts_closedw: "closedw st \<Longrightarrow> closedw (check_InPkts D cts st)"
proof (induction D cts st rule: check_InPkts.induct)
  case (1 D cts st)
  obtain r ps where sc: "scan_InPkts (inAckno st) (inPkt st) = (r, ps)" by fastforce
  have c: "closedw (st\<lparr>inPkt := ps\<rparr>)" using 1(2) by (rule closedw_same) (simp_all add: wbuf_def)
  show ?case
  proof (cases r)
    case None
    then show ?thesis using sc c by (simp add: check_InPkts.simps [of D cts st])
  next
    case (Some p)
    then show ?thesis using sc 1(1) [OF sc [symmetric] Some] take_InPkt_closedw [OF c]
      by (simp add: check_InPkts.simps [of D cts st])
  qed
qed

lemma incoming_Established_closedw:
  assumes "closedw st"
  shows "closedw (incoming_Established D cts p st)"
  unfolding incoming_Established_def Let_def
  by (rule check_InPkts_closedw, rule closedw_same [OF assms]) (simp_all add: wbuf_def)

lemma recvPkt_closedw:
  assumes "closedw st" "live st"
  shows "closedw (recvPkt D cts rnd b st)"
proof (cases "readPacket b (make_TcpPacket (d_int D 0) [])")
  case (Some p)
  let ?s = "st\<lparr>lastIncomingPkt := cts\<rparr>"
  have s: "closedw ?s" "closedw (?s\<lparr>ts_state := 0\<rparr>)"
    by (rule closedw_same [OF assms(1)]; simp add: wbuf_def)+
  have "ts_state st \<noteq> 0 \<and> ts_state st \<noteq> 1 \<and> ts_state st \<noteq> 2 \<and> ts_state st \<noteq> 3"
    using assms(2) by (auto simp: word_le_nat_alt)
  then show ?thesis using Some s incoming_Established_closedw [OF s(1)] by (auto simp: recvPkt_def tcp_handleIncoming_def)
qed (use assms in \<open>simp add: recvPkt_def\<close>)

lemma send_fin_closedw: "closedw (send_fin D cts st) = closedw st"
  by (simp add: send_fin_def closedw_def wbuf_def Let_def)

lemma send_segments_suffix: "\<exists>sent. q = sent @ inQueue (snd (send_segments D cts q m st))"
proof (induction D cts q m st rule: send_segments.induct)
  case (2 D cts db q m st)
  show ?case
  proof (cases "MAX_SEG32 \<le> m")
    case True
    then obtain sent where "q = sent @ inQueue (snd (send_segments D cts (db # q) m st))" using 2 by auto
    then show ?thesis by (metis append_Cons)
  qed simp
qed simp

lemma tcp_send_closedw:
  assumes "closedw st"
  shows "closedw (tcp_send D cts st)"
proof -
  define s where "s = tcp_retrans D cts (acknowledge D cts st)"
  have "closedw (acknowledge D cts st)" using assms acknowledge_frame [of D cts st] by (simp add: closedw_def wbuf_def)
  then have s: "closedw s"
    using tcp_retrans_frame [of D cts "acknowledge D cts st"] by (auto simp: s_def closedw_def wbuf_def cleanup_def)
  obtain m s2 where sg: "send_segments D cts (inQueue s) (send_room s) s = (m, s2)" by fastforce
  obtain sent where sent: "inQueue s = sent @ inQueue s2"
    using send_segments_suffix [of "inQueue s" D cts "send_room s" s] sg by auto
  have "inData s2 = inData s" "outStreamActive s2 = outStreamActive s"
    using send_segments_frame [of D cts "inQueue s" "send_room s" s] sg by simp_all
  then have s2: "closedw s2" "inData s2 = []"
    using s arg_cong [OF sent, of concat] by (simp_all add: closedw_def wbuf_def del: concat_eq_Nil_conv)
  have "tcp_send D cts st = s \<or> tcp_send D cts st = s2 \<or> tcp_send D cts st = send_fin D cts s2 \<or>
      tcp_send D cts st = sendAck D cts s2"
    using s2(2) by (simp add: tcp_send_def s_def [symmetric] Let_def sg)
  then show ?thesis using s s2(1) send_fin_closedw [of D cts s2] by auto
qed

lemma tcp_tick_closedw: "closedw st \<Longrightarrow> closedw (tcp_tick D cts st)"
  unfolding tcp_tick_def by (rule tcp_send_closedw) (simp add: recv_check_def)

subsection \<open>One step of a side\<close>

abbreviation (input) peer_side :: "u32 \<Rightarrow> u32 \<Rightarrow> bytes \<Rightarrow> bool \<Rightarrow> 'd peer \<Rightarrow> bool" where
  "peer_side a b W f p \<equiv> side a (pr_wrote p) b W f (pr_got p) (pr_stream p)"

text \<open>What was read moves from the buffers of the stream to the application.\<close>

lemma tcp_read_receives:
  assumes "receives b W f R st" "buffers_ok st" "tcp_read sz st = (n, got, st')"
  shows "receives b W f (R @ got) st'"
  using assms(2,3)
proof (cases rule: tcp_read_cases)
  case (refused e)
  then show ?thesis using assms(1) by (simp add: receives_def rbuf_def)
next
  case finished
  show ?thesis unfolding finished(2,3) using assms(1) by simp
next
  case (delivered r q d)
  have "inAckno st' = inAckno st" "inStreamActive st' = inStreamActive st" "inPkt st' = inPkt st"
    unfolding delivered(3) by simp_all
  then show ?thesis using assms(1) delivered(4) by (simp add: receives_def)
qed

lemma tcp_read_closedw:
  assumes "closedw st" "buffers_ok st" "tcp_read sz st = (n, got, st')"
  shows "closedw st'"
  using assms(2,3)
proof (cases rule: tcp_read_cases)
  case (refused e)
  then show ?thesis using assms(1) by (simp add: closedw_def wbuf_def)
next
  case finished
  show ?thesis unfolding finished(3) by (rule assms(1))
next
  case (delivered r q d)
  show ?thesis using assms(1) unfolding delivered(3) closedw_def UpdateInWinSize_buffers UpdateInWinSize_frame
    by (simp add: wbuf_def)
qed

lemma tcp_read_live:
  assumes "buffers_ok st" "tcp_read sz st = (n, got, st')"
  shows "ts_state st' = ts_state st"
  using assms
proof (cases rule: tcp_read_cases)
  case (delivered r q d)
  show ?thesis unfolding delivered(3) by simp
qed simp_all

lemma peer_act_side:
  assumes "peer_side a b W f p" "may_act e p q" "length W < 2 ^ 32" "\<forall>d\<in>fst ` set (udp_sent (pr_stream q)). wire_ok b W f d"
  obtains X where "peer_side a b W f (peer_act D cts rnd e p)" "pr_wrote (peer_act D cts rnd e p) = pr_wrote p @ X"
    "closedw (pr_stream p) \<longrightarrow> X = [] \<and> closedw (pr_stream (peer_act D cts rnd e p))"
proof -
  let ?st = "pr_stream p"
  have s: "sends a (pr_wrote p) ?st" "buffers_ok ?st" and live: "live ?st" and r: "receives b W f (pr_got p) ?st"
    using assms(1,2) by (cases e; simp add: side_def)+
  show thesis
  proof (cases e)
    case (Ev_write dta)
    obtain n st' where w: "tcp_write dta ?st = (n, st')" by fastforce
    note ws = tcp_write_sends [OF s w]
    show thesis using s(2) w
    proof (cases rule: tcp_write_cases)
      case (refused e)
      then have "receives b W f (pr_got p) st'" using r by (simp add: receives_def rbuf_def)
      then show thesis using that [of "[]"] ws refused w Ev_write by (simp add: side_def closedw_def wbuf_def)
    next
      case (accepted q r')
      then have "receives b W f (pr_got p) st'" using r by (simp add: receives_def rbuf_def)
      then show thesis using that [of dta] ws accepted w Ev_write by (simp add: side_def closedw_def)
    qed
  next
    case (Ev_read sz)
    obtain n got st' where w: "tcp_read sz ?st = (n, got, st')" using prod_cases3 by blast
    note rd = tcp_read_sends [OF s w] tcp_read_receives [OF r s(2) w]
    have "closedw ?st \<longrightarrow> closedw st'" using tcp_read_closedw [OF _ s(2) w] by blast
    then show thesis using that [of "[]"] rd w Ev_read by (simp add: side_def)
  next
    case Ev_closeWrite
    let ?s = "snd (closeWrite ?st)"
    have "receives b W f (pr_got p) ?s" "buffers_ok ?s" "closedw ?st \<longrightarrow> closedw ?s"
      using r s(2) by (simp_all add: closeWrite_def Let_def receives_def rbuf_def buffers_ok_def closedw_def wbuf_def)
    then show thesis using that [of "[]"] closeWrite_sends [OF s(1)] Ev_closeWrite by (simp add: side_def)
  next
    case Ev_close
    then show thesis using that [of "[]"] cleanup_side [OF s(1)] by (simp add: tcp_close_def)
  next
    case Ev_tick
    have "live (tcp_tick D cts ?st) \<longrightarrow> receives b W f (pr_got p) (tcp_tick D cts ?st)"
      using tcp_tick_keeps [OF s, of D cts] r receives_rview by blast
    then show thesis using that [of "[]"] tcp_tick_keeps [OF s, of D cts] tcp_tick_closedw [of ?st D cts] Ev_tick
      by (simp add: side_def)
  next
    case (Ev_recv d)
    then have "wire_ok b W f d" using assms(2,4) by auto
    then have "peer_side a b W f (p\<lparr>pr_stream := recvPkt D cts rnd d ?st\<rparr>)"
      using recvPkt_side [OF assms(1) live _ assms(3)] by simp
    then show thesis using that [of "[]"] recvPkt_closedw [OF _ live, of D cts rnd d] Ev_recv by simp
  qed
qed

subsection \<open>Both sides\<close>

text \<open>What the link asks of its two sides. \<open>keeps a b p W f\<close> is what a side keeps towards one that has written \<open>W\<close> and,
  when \<open>f\<close> holds, will write no more; \<open>moves q p p'\<close> is a step of \<open>p\<close> that may use what \<open>q\<close> has sent.\<close>

locale byte_pipe =
  fixes keeps :: "'n \<Rightarrow> 'n \<Rightarrow> 'p \<Rightarrow> bytes \<Rightarrow> bool \<Rightarrow> bool"
    and wrote :: "'p \<Rightarrow> bytes"
    and ended :: "'p \<Rightarrow> bool"
    and moves :: "'p \<Rightarrow> 'p \<Rightarrow> 'p \<Rightarrow> bool"
  assumes keeps_more: "keeps a b p W f \<Longrightarrow> (f \<longrightarrow> X = [] \<and> f') \<Longrightarrow> keeps a b p (W @ X) f'"
    and keeps_move: "moves q p p' \<Longrightarrow> keeps a b p (wrote q) (ended q) \<Longrightarrow> keeps b a q (wrote p) (ended p) \<Longrightarrow>
      length (wrote q) < 2 ^ 32 \<Longrightarrow> keeps a b p' (wrote q) (ended q)"
    and move_writes: "moves q p p' \<Longrightarrow> keeps a b p (wrote q) (ended q) \<Longrightarrow> keeps b a q (wrote p) (ended p) \<Longrightarrow>
      length (wrote q) < 2 ^ 32 \<Longrightarrow> \<exists>X. wrote p' = wrote p @ X \<and> (ended p \<longrightarrow> X = [] \<and> ended p')"
begin

lemma pair_kept:
  assumes "keeps a b p (wrote q) (ended q)" "keeps b a q (wrote p) (ended p)" "moves q p p'" "length (wrote q) < 2 ^ 32"
  shows "keeps a b p' (wrote q) (ended q) \<and> keeps b a q (wrote p') (ended p')"
proof -
  obtain X where X: "wrote p' = wrote p @ X" "ended p \<longrightarrow> X = [] \<and> ended p'"
    using move_writes [OF assms(3,1,2,4)] by blast
  have "keeps b a q (wrote p @ X) (ended p')" by (rule keeps_more [OF assms(2) X(2)])
  then show ?thesis using keeps_move [OF assms(3,1,2,4)] X(1) by simp
qed

end

definition peer_keeps :: "u32 \<Rightarrow> u32 \<Rightarrow> 'd peer \<Rightarrow> bytes \<Rightarrow> bool \<Rightarrow> bool" where
  "peer_keeps a b p W f = peer_side a b W f p"

definition peer_closed :: "'d peer \<Rightarrow> bool" where
  "peer_closed p = closedw (pr_stream p)"

definition peer_moves :: "'d peer \<Rightarrow> 'd peer \<Rightarrow> 'd peer \<Rightarrow> bool" where
  "peer_moves q p p' = (\<exists>D cts rnd e. may_act e p q \<and> p' = peer_act D cts rnd e p)"

lemma side_mono:
  assumes "side a W' b W f R st" "f \<longrightarrow> X = [] \<and> f'"
  shows "side a W' b (W @ X) f' R st"
  using assms(1) receives_mono [OF _ assms(2), of b W R st] by (simp add: side_def)

lemma peer_moves_keeps:
  assumes "peer_moves q p p'" "peer_keeps a b p (pr_wrote q) (peer_closed q)" "peer_keeps b a q (pr_wrote p) (peer_closed p)"
    "length (pr_wrote q) < 2 ^ 32"
  shows "peer_keeps a b p' (pr_wrote q) (peer_closed q)"
    "\<exists>X. pr_wrote p' = pr_wrote p @ X \<and> (peer_closed p \<longrightarrow> X = [] \<and> peer_closed p')"
proof -
  obtain D cts rnd e where p': "may_act e p q" "p' = peer_act D cts rnd e p" using assms(1) by (auto simp: peer_moves_def)
  have "\<forall>d\<in>fst ` set (udp_sent (pr_stream q)). wire_ok b (pr_wrote q) (peer_closed q) d"
    using assms(3) by (auto simp: peer_keeps_def peer_closed_def side_def sends_def emitted_def)
  then obtain X where X: "peer_side a b (pr_wrote q) (peer_closed q) p'" "pr_wrote p' = pr_wrote p @ X"
    "closedw (pr_stream p) \<longrightarrow> X = [] \<and> closedw (pr_stream p')"
    using peer_act_side [of a p b "pr_wrote q" "peer_closed q" e q D cts rnd] assms(2,4) p' unfolding peer_keeps_def by blast
  show "peer_keeps a b p' (pr_wrote q) (peer_closed q)" using X(1) by (simp add: peer_keeps_def)
  show "\<exists>X. pr_wrote p' = pr_wrote p @ X \<and> (peer_closed p \<longrightarrow> X = [] \<and> peer_closed p')"
    using X(2,3) by (auto simp: peer_closed_def)
qed

interpretation tcp_pipe: byte_pipe peer_keeps pr_wrote peer_closed peer_moves
proof
  show "peer_keeps a b p (W @ X) f'" if "peer_keeps a b p W f" "f \<longrightarrow> X = [] \<and> f'" for a b W f X f' and p :: "'a peer"
    using that side_mono unfolding peer_keeps_def by blast
qed (fact peer_moves_keeps)+

definition link_inv :: "u32 \<Rightarrow> u32 \<Rightarrow> 'd peer \<Rightarrow> 'd peer \<Rightarrow> bool" where
  "link_inv a b p q = (peer_keeps a b p (pr_wrote q) (peer_closed q) \<and> peer_keeps b a q (pr_wrote p) (peer_closed p))"

lemma link_inv_sym: "link_inv a b p q = link_inv b a q p"
  by (auto simp: link_inv_def)

lemma joined_inv:
  assumes "joined a b p q"
  shows "link_inv a b p q"
proof -
  have one: "side a [] b [] f (pr_got p') (pr_stream p')" if "fresh_side a b p'" for a b f and p' :: "'a peer"
  proof -
    let ?st = "pr_stream p'"
    have "emitted a [] (closedw ?st) 0 ?st"
      using that carries_mono [of a "[]" False _ _ _ "[]" "closedw ?st"] wire_ok_mono [of a "[]" False _ "[]" "closedw ?st"]
      by (simp add: fresh_side_def Let_def emitted_def)
    then show ?thesis using that
      by (auto simp: fresh_side_def Let_def side_def sends_def wbuf_def buffers_ok_def receives_def rbuf_def)
  qed
  have "pr_wrote p = []" "pr_wrote q = []" using assms by (simp_all add: joined_def fresh_side_def Let_def)
  then show ?thesis using one assms by (simp add: link_inv_def joined_def peer_keeps_def)
qed

lemma link_inv_act:
  assumes "link_inv a b p q" "may_act e p q" "length (pr_wrote q) < 2 ^ 32"
  shows "link_inv a b (peer_act D cts rnd e p) q"
proof -
  have "peer_moves q p (peer_act D cts rnd e p)" using assms(2) by (auto simp: peer_moves_def)
  then show ?thesis using assms(1,3) tcp_pipe.pair_kept unfolding link_inv_def by blast
qed

lemma peer_act_wrote: "length (pr_wrote p) \<le> length (pr_wrote (peer_act D cts rnd e p))"
  by (cases e) (auto simp: Let_def split: prod.split)

lemma link_reach_inv:
  assumes "link_reach D p0 q0 p q" "joined a b p0 q0" "length (pr_wrote p) < 2 ^ 32" "length (pr_wrote q) < 2 ^ 32"
  shows "link_inv a b p q"
  using assms
proof (induction rule: link_reach.induct)
  case link_begin
  then show ?case by (intro joined_inv)
next
  case (link_left p q e cts rnd)
  then have "link_inv a b p q" using peer_act_wrote [of p D cts rnd e] by simp
  then show ?case using link_left.hyps(2) link_left.prems(3) by (rule link_inv_act)
next
  case (link_right p q e cts rnd)
  then have "link_inv b a q p" using peer_act_wrote [of q D cts rnd e] link_inv_sym [of a b p q] by simp
  then have "link_inv b a (peer_act D cts rnd e q) p" using link_right.hyps(2) link_right.prems(2) by (rule link_inv_act)
  then show ?case using link_inv_sym by blast
qed

end
