(* ===== verification/Tcp_Limits.thy ===== *)
theory Tcp_Limits
  imports Tcp_Link
begin

text \<open>
  The bounds of a stream, in every state that any calls, times and datagrams lead to: the arrays hold less than a
  segment and the lists whole segments, the window that is announced fits the sixteen bits of the packet, the congestion
  window does not pass the largest window, and at most 300 packets wait for the ones before them.
\<close>

definition limits :: "'d TcpStream \<Rightarrow> bool" where
  "limits st = (maxWinSize st = TCP_MAX_WIN \<and> inWinSize st \<le> TCP_MAX_WIN \<and> congestWinSize st \<le> TCP_MAX_WIN \<and>
     length (inPkt st) \<le> kMaxQueueSize)"

definition sound :: "'d TcpStream \<Rightarrow> bool" where
  "sound st = (buffers_ok st \<and> limits st)"

text \<open>What an operation may change when it keeps the bounds.\<close>

lemma sound_cong:
  assumes "sound st" "rview st' = rview st" "inQueue st' = inQueue st" "inData st' = inData st"
    "maxWinSize st' = maxWinSize st" "congestWinSize st' = congestWinSize st"
  shows "sound st'"
  using assms by (simp add: sound_def limits_def buffers_ok_def rview_def)

lemma UpdateInWinSize_limits:
  assumes "limits st"
  shows "limits (UpdateInWinSize st)"
proof -
  define q where "q = (of_nat (int_read_pending st) :: u32)"
  have "2 * 65500 - q \<le> 65500" if "\<not> q < 65500" "q < 131000" for q :: u32
    using that by unat_arith
  then show ?thesis using assms by (simp add: limits_def UpdateInWinSize_def q_def [symmetric] Let_def)
qed

lemma UpdateInWinSize_sound: "sound st \<Longrightarrow> sound (UpdateInWinSize st)"
  by (simp add: sound_def UpdateInWinSize_limits)

lemma toSend_congest [simp]:
  "congestWinSize (toSend cts p r st) = congestWinSize st" "congestWinSize (sendAck D cts st) = congestWinSize st"
  by (simp_all add: sendAck_def toSend_def startRetransmitTimer_def Let_def split: prod.split)

lemma toSend_sound: "sound st \<Longrightarrow> sound (toSend cts p r st)" "sound st \<Longrightarrow> sound (sendAck D cts st)"
  by (rule sound_cong [of st]; simp)+

lemma cleanup_sound: "limits st \<Longrightarrow> sound (cleanup st)"
  by (simp add: sound_def) (simp add: limits_def cleanup_def)

lemma timer_sound [simp]:
  "limits (startRetransmitTimer cts st) = limits st" "limits (stopRetransmitTimer st) = limits st"
  "limits (resetRetransmitTimer D st) = limits st" "limits (incRetransmitTimeout D st) = limits st"
  by (simp_all add: limits_def startRetransmitTimer_def stopRetransmitTimer_def resetRetransmitTimer_def
      incRetransmitTimeout_def Let_def)

subsection \<open>The application's calls\<close>

lemma tcp_write_sound: "sound st \<Longrightarrow> tcp_write dta st = (n, st') \<Longrightarrow> sound st'"
proof -
  assume s: "sound st" and w: "tcp_write dta st = (n, st')"
  have "buffers_ok st" using s by (simp add: sound_def)
  from this w show ?thesis
  proof (cases rule: tcp_write_cases)
    case (refused e)
    then show ?thesis using s by (simp add: sound_def limits_def buffers_ok_def)
  next
    case (accepted q r)
    have "limits st'" using s unfolding accepted(2) by (simp add: sound_def limits_def)
    then show ?thesis using accepted(4) by (simp add: sound_def)
  qed
qed

lemma tcp_read_sound: "sound st \<Longrightarrow> tcp_read sz st = (n, got, st') \<Longrightarrow> sound st'"
proof -
  assume s: "sound st" and w: "tcp_read sz st = (n, got, st')"
  have "buffers_ok st" using s by (simp add: sound_def)
  from this w show ?thesis
  proof (cases rule: tcp_read_cases)
    case (refused e)
    then show ?thesis using s by (simp add: sound_def limits_def buffers_ok_def)
  next
    case finished
    show ?thesis unfolding finished(3) by (rule s)
  next
    case (delivered r q d)
    have "limits st'" unfolding delivered(3) by (rule UpdateInWinSize_limits) (use s in \<open>simp add: sound_def limits_def\<close>)
    then show ?thesis using delivered(5) by (simp add: sound_def)
  qed
qed

lemma closeWrite_sound: "sound st \<Longrightarrow> sound (snd (closeWrite st))"
  by (rule sound_cong [of st]) (simp_all add: closeWrite_def rview_def Let_def)

lemma tcp_connect_sound:
  assumes "sound st"
  shows "sound (snd (tcp_connect D cts rnd period st))"
proof -
  have "sound (st\<lparr>peerKnown := True, errorState := e\<rparr>)" "sound (st\<lparr>peerKnown := True\<rparr>)" for e
    by (rule sound_cong [OF assms]; simp add: rview_def)+
  moreover have "sound (s\<lparr>ts_state := x, errorState := e\<rparr>)" if "sound s" for s :: "'a TcpStream" and x e
    using that by (rule sound_cong) (simp_all add: rview_def)
  moreover have "sound (st\<lparr>peerKnown := True, outSeqno := rnd, initOurSeqno := rnd, outAcked := rnd, inWinSize := maxWinSize st,
      congestThreshold := TCP_MAX_WIN, congestWinSize := MAX_SEG32, congestUpdate := rnd + MAX_SEG32, ttl := 1,
      mTTL_start := cts, mTTL_period := d_int D (uint period), mTTL_end := d_add D cts (d_int D (uint period))\<rparr>)"
    using assms by (simp add: sound_def limits_def buffers_ok_def)
  ultimately show ?thesis by (simp add: tcp_connect_def Let_def toSend_sound)
qed

lemma listenfor_sound: "sound st \<Longrightarrow> sound (snd (listenfor st))"
  by (rule sound_cong [of st]) (simp_all add: listenfor_def rview_def Let_def)

subsection \<open>The tick\<close>

lemma raise_congestion_limits: "limits st \<Longrightarrow> limits (raise_congestion st)"
  by (auto simp: limits_def raise_congestion_def Let_def not_less)

lemma ack_packets_limits: "limits st \<Longrightarrow> limits (ack_packets D cts u ps st)"
proof (induction D cts u ps st rule: ack_packets.induct)
  case (2 D cts u pkt ps st)
  have "limits (raise_congestion st)" using 2(2) by (rule raise_congestion_limits)
  moreover from this have "limits (update_rtt D cts pkt (raise_congestion st))"
    by (simp add: limits_def update_rtt_def Let_def)
  ultimately show ?case using 2 by (simp add: Let_def) (simp add: limits_def)
qed (simp add: limits_def)

lemma acknowledge_sound:
  assumes "sound st"
  shows "sound (acknowledge D cts st)"
proof -
  have "limits (ack_packets D cts True (outPkt st) st)" using assms by (simp add: sound_def ack_packets_limits)
  then have "limits (acknowledge D cts st)" by (simp add: acknowledge_def Let_def)
  then show ?thesis using assms buffers_ok_rview acknowledge_frame [of D cts st] by (simp add: sound_def buffers_ok_def rview_def)
qed

lemma tcp_retrans_sound:
  assumes "sound st"
  shows "sound (tcp_retrans D cts st)"
proof -
  have "limits (tcp_retrans D cts st)"
  proof (cases "\<not> peerKnown st \<or> \<not> retransTimerOn st \<or> d_less D (d_sub D cts (retransTimerTs st)) (retransTimeout st) \<or> outPkt st = []")
    case True
    then show ?thesis using assms by (cases "outPkt st") (auto simp: tcp_retrans_def sound_def)
  next
    case on: False
    then obtain pkt ps where "outPkt st = pkt # ps" by (cases "outPkt st") auto
    with on assms show ?thesis
      by (cases "hasSyn pkt"; cases "too_often pkt"; simp add: tcp_retrans_def restartRetransmitTimer_def Let_def cleanup_def;
          simp add: sound_def limits_def)
  qed
  moreover have "buffers_ok (tcp_retrans D cts st)"
    using tcp_retrans_frame [of D cts st] assms buffers_ok_rview [of "tcp_retrans D cts st" st] by (auto simp: sound_def)
  ultimately show ?thesis by (simp add: sound_def)
qed

lemma send_segments_limits: "limits st \<Longrightarrow> limits (snd (send_segments D cts q m st))"
  by (induction D cts q m st rule: send_segments.induct) (auto simp: limits_def)

lemma send_segments_sound:
  assumes "sound st"
  shows "sound (snd (send_segments D cts (inQueue st) m st))"
proof -
  obtain sent where "inQueue st = sent @ inQueue (snd (send_segments D cts (inQueue st) m st))"
    using send_segments_suffix [of "inQueue st" D cts m st] by blast
  then have "set (inQueue (snd (send_segments D cts (inQueue st) m st))) \<subseteq> set (inQueue st)"
    by (metis Un_upper2 set_append)
  then have "buffers_ok (snd (send_segments D cts (inQueue st) m st))"
    using assms send_segments_frame [of D cts "inQueue st" m st] by (auto simp: sound_def buffers_ok_def)
  then show ?thesis using assms by (simp add: sound_def send_segments_limits)
qed

lemma tcp_send_sound:
  assumes "sound st"
  shows "sound (tcp_send D cts st)"
proof -
  define s where "s = tcp_retrans D cts (acknowledge D cts st)"
  have s: "sound s" using assms unfolding s_def by (intro tcp_retrans_sound acknowledge_sound)
  obtain m s2 where sg: "send_segments D cts (inQueue s) (send_room s) s = (m, s2)" by fastforce
  have s2: "sound s2" using send_segments_sound [OF s, of D cts "send_room s"] sg by simp
  then have "sound (s2\<lparr>inData := []\<rparr>)" by (simp add: sound_def limits_def buffers_ok_def)
  moreover have "sound (send_fin D cts s2)"
    using s2 send_fin_frame [of D cts s2] by (simp add: sound_def) (simp add: limits_def rview_def send_fin_def Let_def)
  ultimately show ?thesis using s s2 by (simp add: tcp_send_def s_def [symmetric] sg Let_def toSend_sound)
qed

lemma tcp_tick_sound: "sound st \<Longrightarrow> sound (tcp_tick D cts st)"
  unfolding tcp_tick_def by (rule tcp_send_sound) (simp add: recv_check_def sound_def limits_def cleanup_def buffers_ok_def)

subsection \<open>Datagrams\<close>

lemma scan_InPkts_length: "length (snd (scan_InPkts a ps)) \<le> length ps"
  by (induction ps) (auto split: prod.splits)

lemma push_data_limits: "limits st \<Longrightarrow> limits (push_data d (late_ack p st))"
  by (simp add: limits_def push_data_def late_ack_def Let_def)

lemma take_InPkt_sound:
  assumes "sound st"
  shows "sound (take_InPkt D cts p st)"
proof -
  have "limits (st\<lparr>inAckno := a\<rparr>)" for a using assms by (simp add: sound_def limits_def)
  then have "limits (grown p st)" unfolding grown_def by (intro UpdateInWinSize_limits push_data_limits)
  then have "sound (grown p st)" using assms grown_buffers [of st p] by (simp add: sound_def)
  then have f: "sound (take_fin D cts p (grown p st))"
    unfolding take_fin_def Let_def using toSend_sound(2) [of "grown p st" D cts]
    by (auto simp: sound_def) (simp_all add: limits_def cleanup_def)
  show ?thesis unfolding take_InPkt_grown take_fin_ack_def using f
    by (auto simp: sound_def) (simp_all add: limits_def cleanup_def)
qed

lemma check_InPkts_sound: "sound st \<Longrightarrow> sound (check_InPkts D cts st)"
proof (induction D cts st rule: check_InPkts.induct)
  case (1 D cts st)
  obtain r ps where sc: "scan_InPkts (inAckno st) (inPkt st) = (r, ps)" by fastforce
  have c: "sound (st\<lparr>inPkt := ps\<rparr>)"
    using 1(2) scan_InPkts_length [of "inAckno st" "inPkt st"] sc by (simp add: sound_def limits_def)
  show ?case
  proof (cases r)
    case None
    then show ?thesis using sc c by (simp add: check_InPkts.simps [of D cts st])
  next
    case (Some p)
    then show ?thesis using sc 1(1) [OF sc [symmetric] Some] take_InPkt_sound [OF c]
      by (simp add: check_InPkts.simps [of D cts st])
  qed
qed

lemma incoming_Established_sound:
  assumes "sound st"
  shows "sound (incoming_Established D cts p st)"
proof -
  have "sound (st1\<lparr>inPkt := (if length ps > kMaxQueueSize then tl ps else ps)\<rparr>)" if "sound st1" "ps = inPkt st1 @ [p]"
    for st1 :: "'a TcpStream" and ps using that by (simp add: sound_def limits_def)
  moreover have "sound (st\<lparr>outAcked := v, outWinSize := w\<rparr>)" for v w
    using assms by (simp add: sound_def limits_def)
  ultimately show ?thesis unfolding incoming_Established_def Let_def
    by (intro check_InPkts_sound) (simp add: toSend_sound assms)
qed

lemma incoming_Closed_sound:
  assumes "sound st"
  shows "sound (incoming_Closed D cts rnd p st)"
proof -
  define s1 where "s1 = st\<lparr>initPeerSeqno := tp_seqno p, inAckno := tp_seqno p + 1, outWinSize := ucast (tp_winsize p),
    inWinSize := maxWinSize st\<rparr>"
  define s2 where "s2 = (if ts_state st = TCP_CLOSED then s1\<lparr>outSeqno := rnd, initOurSeqno := rnd, outAcked := rnd,
    congestThreshold := TCP_MAX_WIN, congestWinSize := MAX_SEG32, congestUpdate := rnd + MAX_SEG32\<rparr> else s1)"
  define rsp where "rsp = (if ts_state st = TCP_CLOSED then setSyn (make_TcpPacket (d_int D 0) []) else make_TcpPacket (d_int D 0) [])"
  define s3 where "s3 = toSend cts (setAck (inAckno s2) rsp) True (s2\<lparr>ttl := TCP_STD_TTL\<rparr>)"
  have "sound (s2\<lparr>ttl := TCP_STD_TTL\<rparr>)" using assms by (simp add: s2_def s1_def sound_def limits_def buffers_ok_def)
  then have "sound s3" unfolding s3_def by (rule toSend_sound)
  then have "sound (s3\<lparr>ts_state := TCP_SYN_RCVD\<rparr>)" by (rule sound_cong) (simp_all add: rview_def)
  moreover have "incoming_Closed D cts rnd p st = (if hasSyn p \<and> \<not> hasAck p then s3\<lparr>ts_state := TCP_SYN_RCVD\<rparr> else st)"
    by (simp add: incoming_Closed_def s1_def [symmetric] s2_def rsp_def s3_def Let_def)
  ultimately show ?thesis using assms by simp
qed

lemma incoming_SynSent_sound:
  assumes "sound st"
  shows "sound (incoming_SynSent D cts rnd p st)"
proof -
  let ?s = "st\<lparr>initPeerSeqno := tp_seqno p, inAckno := tp_seqno p + 1, outWinSize := ucast (tp_winsize p),
    outAcked := tp_ackno p, ttl := TCP_STD_TTL\<rparr>"
  have "sound ?s" using assms by (simp add: sound_def limits_def buffers_ok_def)
  then have "sound (sendAck D cts ?s)" by (rule toSend_sound)
  then have "sound ((sendAck D cts ?s)\<lparr>ts_state := TCP_ESTABLISHED, outStreamActive := True, inStreamActive := True\<rparr>)"
    by (simp add: sound_def) (simp add: limits_def buffers_ok_def)
  then show ?thesis using assms incoming_Closed_sound by (auto simp: incoming_SynSent_def)
qed

lemma incoming_SynRcvd_sound:
  assumes "sound st"
  shows "sound (incoming_SynRcvd D cts p st)"
proof -
  have "sound (st\<lparr>inAckno := tp_seqno p, outWinSize := ucast (tp_winsize p), outAcked := tp_ackno p,
      ttl := TCP_STD_TTL, ts_state := TCP_ESTABLISHED, outStreamActive := True, inStreamActive := True\<rparr>)"
    "sound (st\<lparr>ts_state := TCP_CLOSED\<rparr>)"
    using assms by (simp_all add: sound_def limits_def buffers_ok_def)
  then show ?thesis using assms by (auto simp: incoming_SynRcvd_def Let_def intro: incoming_Established_sound)
qed

lemma recvPkt_sound:
  assumes "sound st"
  shows "sound (recvPkt D cts rnd b st)"
proof (cases "readPacket b (make_TcpPacket (d_int D 0) [])")
  case (Some p)
  let ?s = "st\<lparr>lastIncomingPkt := cts\<rparr>"
  have s: "sound ?s" "sound (?s\<lparr>ts_state := TCP_CLOSED\<rparr>)"
    using assms by (simp_all add: sound_def limits_def buffers_ok_def)
  then have "sound (tcp_handleIncoming D cts rnd p ?s)"
    unfolding tcp_handleIncoming_def
    by (simp add: incoming_Closed_sound incoming_SynSent_sound incoming_SynRcvd_sound incoming_Established_sound)
  then show ?thesis using Some by (simp add: recvPkt_def)
qed (use assms in \<open>simp add: recvPkt_def\<close>)

subsection \<open>All states\<close>

inductive stream_reach :: "'d double_ops \<Rightarrow> 'd TcpStream \<Rightarrow> bool" for D where
  reach_new: "stream_reach D (make_TcpStream D)"
| reach_connect: "stream_reach D st \<Longrightarrow> stream_reach D (snd (tcp_connect D cts rnd period st))"
| reach_listen: "stream_reach D st \<Longrightarrow> stream_reach D (snd (listenfor st))"
| reach_event: "stream_reach D (pr_stream p) \<Longrightarrow> stream_reach D (pr_stream (peer_act D cts rnd e p))"

lemma peer_act_sound:
  assumes "sound (pr_stream p)"
  shows "sound (pr_stream (peer_act D cts rnd e p))"
proof (cases e)
  case (Ev_write dta)
  then show ?thesis using tcp_write_sound [OF assms] by (simp split: prod.split)
next
  case (Ev_read sz)
  then show ?thesis using tcp_read_sound [OF assms] by (simp split: prod.split)
next
  case Ev_close
  have "limits (pr_stream p)" using assms by (simp add: sound_def)
  then show ?thesis using Ev_close cleanup_sound by (simp add: tcp_close_def)
qed (use assms closeWrite_sound tcp_tick_sound recvPkt_sound in auto)

lemma stream_reach_sound: "stream_reach D st \<Longrightarrow> sound st"
proof (induction rule: stream_reach.induct)
  case reach_new
  show ?case by (simp add: make_TcpStream_def sound_def limits_def buffers_ok_def)
qed (auto intro: tcp_connect_sound listenfor_sound peer_act_sound)

end
