(* ===== verification/Tcp_Handshake.thy ===== *)
theory Tcp_Handshake
  imports Tcp_Limits
begin

text \<open>
  The handshake with three datagrams, step by step, and single packets: the next one of an established stream, the first
  one of a side that still waits for the end of the handshake, and the last one of a side that has closed its half.
\<close>

subsection \<open>Three datagrams\<close>

definition new_peer :: "'d TcpStream \<Rightarrow> 'd peer" where
  "new_peer st = \<lparr>pr_stream = st, pr_wrote = [], pr_got = []\<rparr>"

definition newest :: "'d TcpStream \<Rightarrow> bytes" where
  "newest st = fst (last (udp_sent st))"

definition calling :: "'d double_ops \<Rightarrow> 'd \<Rightarrow> u32 \<Rightarrow> u32 \<Rightarrow> 'd TcpStream" where
  "calling D t rnd period = snd (tcp_connect D t rnd period (make_TcpStream D))"

definition answering :: "'d double_ops \<Rightarrow> 'd \<Rightarrow> u32 \<Rightarrow> 'd TcpStream \<Rightarrow> 'd TcpStream" where
  "answering D t rnd caller = recvPkt D t rnd (newest caller) (snd (listenfor (make_TcpStream D)))"

lemma recvPkt_written:
  assumes "length (tp_data p) \<le> MAX_SEG"
  shows "recvPkt D t rnd (writePacket p (MAX_SEG + TCP_PSEUDO_HDR_SIZE)) st =
    tcp_handleIncoming D t rnd (p\<lparr>tp_ts := d_int D 0, tp_retrans := 0\<rparr>) (st\<lparr>lastIncomingPkt := t\<rparr>)"
  using assms by (cases p) (simp add: recvPkt_def readPacket_def writePacket_def take_drop_be make_TcpPacket_def)

definition syn_pkt :: "'d double_ops \<Rightarrow> u32 \<Rightarrow> 'd TcpPacket" where
  "syn_pkt D rnd = \<lparr>tp_data = [], tp_seqno = rnd, tp_ackno = 0, tp_hlen_flags = TCP_SYN_BIT, tp_winsize = 65500,
     tp_ts = d_int D 0, tp_retrans = 0\<rparr>"

definition syn_ack_pkt :: "'d double_ops \<Rightarrow> u32 \<Rightarrow> u32 \<Rightarrow> 'd TcpPacket" where
  "syn_ack_pkt D rnd a = (syn_pkt D rnd)\<lparr>tp_ackno := a, tp_hlen_flags := TCP_SYN_BIT OR TCP_ACK_BIT\<rparr>"

definition ack_pkt :: "'d double_ops \<Rightarrow> u32 \<Rightarrow> u32 \<Rightarrow> 'd TcpPacket" where
  "ack_pkt D s a = (syn_pkt D s)\<lparr>tp_ackno := a, tp_hlen_flags := TCP_ACK_BIT\<rparr>"

lemma calling_eq:
  "calling D t a period = (make_TcpStream D)\<lparr>peerKnown := True, outSeqno := a + 1, initOurSeqno := a, outAcked := a,
     inWinSize := 65500, congestUpdate := a + 1000, ttl := 1, mTTL_start := t, mTTL_period := d_int D (uint period),
     mTTL_end := d_add D t (d_int D (uint period)), lastSentWinSize := 65500, keepAliveTimer := t,
     udp_sent := [(writePacket (syn_pkt D a) 1020, 1)], retransTimerTs := t, retransTimerOn := True,
     outPkt := [(syn_pkt D a)\<lparr>tp_ts := t\<rparr>], ts_state := TCP_SYN_SENT, errorState := EAGAIN\<rparr>"
  by (simp add: calling_def tcp_connect_def make_TcpStream_def toSend_def stamp_def hasSyn_def setSyn_def make_TcpPacket_def
      startRetransmitTimer_def syn_pkt_def Let_def)

lemma answering_eq:
  "answering D u b (calling D t a period) = (make_TcpStream D)\<lparr>peerKnown := True, errorState := EAGAIN,
     lastIncomingPkt := u, initPeerSeqno := a, inAckno := a + 1, outWinSize := 65500, inWinSize := 65500,
     outSeqno := b + 1, initOurSeqno := b, outAcked := b, congestUpdate := b + 1000, ttl := 64, lastSentAck := a + 1,
     lastSentWinSize := 65500, keepAliveTimer := u, udp_sent := [(writePacket (syn_ack_pkt D b (a + 1)) 1020, 64)],
     retransTimerTs := u, retransTimerOn := True, outPkt := [(syn_ack_pkt D b (a + 1))\<lparr>tp_ts := u\<rparr>],
     ts_state := TCP_SYN_RCVD\<rparr>"
proof -
  have "newest (calling D t a period) = writePacket (syn_pkt D a) (MAX_SEG + TCP_PSEUDO_HDR_SIZE)"
    by (simp add: newest_def calling_eq)
  then have "answering D u b (calling D t a period) =
      incoming_Closed D u b (syn_pkt D a) ((make_TcpStream D)\<lparr>peerKnown := True, errorState := EAGAIN, lastIncomingPkt := u\<rparr>)"
    using recvPkt_written [of "syn_pkt D a" D u b]
    by (simp add: answering_def listenfor_def make_TcpStream_def tcp_handleIncoming_def syn_pkt_def)
  also have "\<dots> = (make_TcpStream D)\<lparr>peerKnown := True, errorState := EAGAIN,
     lastIncomingPkt := u, initPeerSeqno := a, inAckno := a + 1, outWinSize := 65500, inWinSize := 65500,
     outSeqno := b + 1, initOurSeqno := b, outAcked := b, congestUpdate := b + 1000, ttl := 64, lastSentAck := a + 1,
     lastSentWinSize := 65500, keepAliveTimer := u, udp_sent := [(writePacket (syn_ack_pkt D b (a + 1)) 1020, 64)],
     retransTimerTs := u, retransTimerOn := True, outPkt := [(syn_ack_pkt D b (a + 1))\<lparr>tp_ts := u\<rparr>],
     ts_state := TCP_SYN_RCVD\<rparr>"
    by (simp add: incoming_Closed_def make_TcpStream_def toSend_def stamp_def hasSyn_def hasAck_def setSyn_def setAck_def
        setAckFlag_def make_TcpPacket_def startRetransmitTimer_def syn_pkt_def syn_ack_pkt_def Let_def)
  finally show ?thesis .
qed

text \<open>The caller takes the answer, and the other side the acknowledgment.\<close>

definition joined_caller :: "'d double_ops \<Rightarrow> 'd \<Rightarrow> u32 \<Rightarrow> 'd TcpStream \<Rightarrow> 'd TcpStream \<Rightarrow> 'd TcpStream" where
  "joined_caller D t rnd answerer caller = recvPkt D t rnd (newest answerer) caller"

lemma joined_caller_eq:
  assumes "caller = calling D t a period" "answerer = answering D u b caller"
  shows "joined_caller D v r answerer caller = caller\<lparr>lastIncomingPkt := v, initPeerSeqno := b, inAckno := b + 1,
     outWinSize := 65500, outAcked := a + 1, ttl := 64, lastSentAck := b + 1, lastSentWinSize := 65500, keepAliveTimer := v,
     udp_sent := [(writePacket (syn_pkt D a) 1020, 1), (writePacket (ack_pkt D (a + 1) (b + 1)) 1020, 64)],
     ts_state := TCP_ESTABLISHED, outStreamActive := True, inStreamActive := True\<rparr>"
proof -
  have "newest answerer = writePacket (syn_ack_pkt D b (a + 1)) (MAX_SEG + TCP_PSEUDO_HDR_SIZE)"
    by (simp add: newest_def assms answering_eq)
  then have "joined_caller D v r answerer caller =
      incoming_SynSent D v r (syn_ack_pkt D b (a + 1)) (caller\<lparr>lastIncomingPkt := v\<rparr>)"
    using recvPkt_written [of "syn_ack_pkt D b (a + 1)" D v r]
    by (simp add: joined_caller_def assms(1) calling_eq tcp_handleIncoming_def syn_pkt_def syn_ack_pkt_def)
  then show ?thesis
    by (simp add: incoming_SynSent_def assms(1) calling_eq make_TcpStream_def sendAck_def toSend_def stamp_def hasSyn_def
        hasAck_def setAck_def setAckFlag_def make_TcpPacket_def syn_pkt_def syn_ack_pkt_def ack_pkt_def Let_def)
qed

lemma joined_answerer_eq:
  assumes "caller = calling D t a period" "answerer = answering D u b caller"
  shows "recvPkt D w r (newest (joined_caller D v r' answerer caller)) answerer = answerer\<lparr>lastIncomingPkt := w,
     inAckno := a + 1, outWinSize := 65500, outAcked := b + 1, ts_state := TCP_ESTABLISHED, outStreamActive := True,
     inStreamActive := True\<rparr>"
proof -
  have "newest (joined_caller D v r' answerer caller) = writePacket (ack_pkt D (a + 1) (b + 1)) (MAX_SEG + TCP_PSEUDO_HDR_SIZE)"
    by (simp add: newest_def joined_caller_eq [OF assms])
  then have "recvPkt D w r (newest (joined_caller D v r' answerer caller)) answerer =
      incoming_SynRcvd D w (ack_pkt D (a + 1) (b + 1)) (answerer\<lparr>lastIncomingPkt := w\<rparr>)"
    using recvPkt_written [of "ack_pkt D (a + 1) (b + 1)" D w r]
    by (simp add: assms answering_eq tcp_handleIncoming_def syn_pkt_def ack_pkt_def)
  then show ?thesis
    by (simp add: incoming_SynRcvd_def assms answering_eq make_TcpStream_def hasSyn_def
        hasAck_def hasRst_def syn_pkt_def ack_pkt_def Let_def)
qed

lemma handshake_wire [simp]:
  "wire_ok c W f (writePacket (syn_pkt D a) 1020)" "wire_ok c W f (writePacket (syn_ack_pkt D a b) 1020)"
  "wire_ok c W f (writePacket (ack_pkt D a b) 1020)"
  by (simp_all add: wire_ok_def writePacket_def take_drop_be syn_pkt_def syn_ack_pkt_def ack_pkt_def)

lemma handshake_pkts [simp]:
  "tp_data (syn_pkt D a) = []" "tp_data (syn_ack_pkt D a b) = []" "\<not> hasFin ((syn_pkt D a)\<lparr>tp_ts := t\<rparr>)"
  "\<not> hasFin ((syn_ack_pkt D a b)\<lparr>tp_ts := t\<rparr>)"
  by (simp_all add: syn_pkt_def syn_ack_pkt_def hasFin_def)

definition shaken_caller :: "'d double_ops \<Rightarrow> 'd \<Rightarrow> u32 \<Rightarrow> u32 \<Rightarrow> 'd \<Rightarrow> u32 \<Rightarrow> 'd \<Rightarrow> 'd TcpStream" where
  "shaken_caller D t a period u b v = joined_caller D v 0 (answering D u b (calling D t a period)) (calling D t a period)"

definition shaken_answerer :: "'d double_ops \<Rightarrow> 'd \<Rightarrow> u32 \<Rightarrow> u32 \<Rightarrow> 'd \<Rightarrow> u32 \<Rightarrow> 'd \<Rightarrow> 'd \<Rightarrow> 'd TcpStream" where
  "shaken_answerer D t a period u b v w =
     recvPkt D w 0 (newest (shaken_caller D t a period u b v)) (answering D u b (calling D t a period))"

lemma shaken_caller_fresh:
  "fresh_side (a + 1) (b + 1) (new_peer (shaken_caller D t a period u b v)) \<and> isConnected (shaken_caller D t a period u b v)"
  unfolding shaken_caller_def joined_caller_eq [OF refl refl]
  by (simp add: calling_eq fresh_side_def new_peer_def make_TcpStream_def isConnected_def)

lemma shaken_answerer_fresh:
  "fresh_side (b + 1) (a + 1) (new_peer (shaken_answerer D t a period u b v w)) \<and>
   isConnected (shaken_answerer D t a period u b v w)"
  unfolding shaken_answerer_def shaken_caller_def joined_answerer_eq [OF refl refl]
  by (simp add: answering_eq fresh_side_def new_peer_def make_TcpStream_def isConnected_def)

subsection \<open>One packet\<close>

lemma check_InPkts_empty: "inPkt st = [] \<Longrightarrow> check_InPkts D cts st = st"
  by (simp add: check_InPkts.simps [of D cts st])

lemma take_InPkt_inPkt: "inPkt st = [] \<Longrightarrow> inPkt (take_InPkt D cts p st) = []"
  using take_InPkt_shorter [of D cts p st] by simp

lemma check_InPkts_single:
  assumes "inPkt st = [p]" "tp_seqno p = inAckno st"
  shows "check_InPkts D cts st = take_InPkt D cts p (st\<lparr>inPkt := []\<rparr>)"
  using assms check_InPkts_empty [OF take_InPkt_inPkt, of "st\<lparr>inPkt := []\<rparr>"]
  by (simp add: check_InPkts.simps [of D cts st])

text \<open>A packet with the expected number, when none waits.\<close>

lemma incoming_Established_next:
  assumes "maxWinSize st = TCP_MAX_WIN" "inPkt st = []" "tp_seqno p = inAckno st"
  shows "incoming_Established D cts p st = take_InPkt D cts p
    (st\<lparr>outAcked := (if hasAck p then tp_ackno p else outAcked st), outWinSize := ucast (tp_winsize p)\<rparr>)"
proof -
  have old: "\<not> isOldSequence a a" "isOldSequence a (a + 65500)" for a by (simp_all add: isOldSequence_def)
  define s where "s = st\<lparr>outAcked := (if hasAck p then tp_ackno p else outAcked st), outWinSize := ucast (tp_winsize p)\<rparr>"
  have same: "s\<lparr>inPkt := [p], inPkt := []\<rparr> = s" using assms(2) by (cases st) (simp add: s_def)
  have "check_InPkts D cts (s\<lparr>inPkt := [p]\<rparr>) = take_InPkt D cts p (s\<lparr>inPkt := [p], inPkt := []\<rparr>)"
    using assms(3) by (intro check_InPkts_single) (simp_all add: s_def)
  then have "check_InPkts D cts (s\<lparr>inPkt := [p]\<rparr>) = take_InPkt D cts p s" unfolding same .
  moreover have "inPkt s = []" using assms(2) by (simp add: s_def)
  ultimately show ?thesis
    unfolding incoming_Established_def Let_def s_def [symmetric] using assms(1,3) old by simp
qed

text \<open>A side that waits for the last packet of the handshake.\<close>

lemma late_first_packet:
  assumes "sound st" "ts_state st = TCP_SYN_RCVD" "inPkt st = []" "hasAck p" "\<not> hasRst p" "\<not> hasFin p"
    "tp_ackno p = outSeqno st" "tp_data p \<noteq> []" "length (tp_data p) \<le> MAX_SEG"
  shows "isConnected (tcp_handleIncoming D cts rnd p st) \<and> rbuf (tcp_handleIncoming D cts rnd p st) = rbuf st @ tp_data p \<and>
    inAckno (tcp_handleIncoming D cts rnd p st) = tp_seqno p + of_nat (length (tp_data p))"
proof -
  define s where "s = st\<lparr>inAckno := tp_seqno p, outWinSize := ucast (tp_winsize p), outAcked := tp_ackno p, ttl := TCP_STD_TTL,
    ts_state := TCP_ESTABLISHED, outStreamActive := True, inStreamActive := True\<rparr>"
  have sb: "buffers_ok s" "rbuf s = rbuf st" "maxWinSize s = TCP_MAX_WIN" "inPkt s = []" "inAckno s = tp_seqno p"
    "ts_state s = TCP_ESTABLISHED" "outStreamActive s"
    using assms(1,3) by (simp_all add: s_def sound_def limits_def buffers_ok_def rbuf_def)
  define s1 where "s1 = s\<lparr>outAcked := (if hasAck p then tp_ackno p else outAcked s), outWinSize := ucast (tp_winsize p)\<rparr>"
  have s1: "buffers_ok s1" "rbuf s1 = rbuf st" "ts_state s1 = TCP_ESTABLISHED" "outStreamActive s1"
    using sb by (simp_all add: s1_def buffers_ok_def rbuf_def)
  have "tcp_handleIncoming D cts rnd p st = incoming_Established D cts p s"
    using assms(2,4-8) by (simp add: tcp_handleIncoming_def incoming_SynRcvd_def s_def Let_def)
  also have "\<dots> = take_InPkt D cts p s1"
    unfolding s1_def using sb(3-5) by (intro incoming_Established_next) simp_all
  also have "\<dots> = grown p s1"
  proof -
    have "outStreamActive (grown p s1)" using s1(4) by (simp add: grown_def)
    then show ?thesis using assms(6) by (simp add: take_InPkt_grown take_fin_def take_fin_ack_def)
  qed
  finally have eq: "tcp_handleIncoming D cts rnd p st = grown p s1" .
  have "rbuf (grown p s1) = rbuf s1 @ tp_data p"
    using s1(1) assms(9) by (simp add: grown_def push_data_rbuf)
  then show ?thesis using s1(2,3) by (simp add: eq isConnected_def)
qed

text \<open>A side that has closed its half of the stream and waits for the end of the other half.\<close>

lemma fin_in_wait_2:
  assumes "sound st" "ts_state st = TCP_FIN_WAIT_2" "inPkt st = []" "hasFin p" "tp_seqno p = inAckno st"
  shows "\<exists>s. tcp_handleIncoming D cts rnd p st = cleanup s"
proof -
  define s where "s = st\<lparr>outAcked := (if hasAck p then tp_ackno p else outAcked st), outWinSize := ucast (tp_winsize p)\<rparr>"
  have "maxWinSize st = TCP_MAX_WIN" using assms(1) by (simp add: sound_def limits_def)
  then have "tcp_handleIncoming D cts rnd p st = take_InPkt D cts p s"
    using incoming_Established_next [OF _ assms(3,5), of D cts] assms(2) by (simp add: tcp_handleIncoming_def s_def)
  moreover have "ts_state (grown p s) = TCP_FIN_WAIT_2" using assms(2) by (simp add: s_def)
  then have "take_fin D cts p (grown p s) = cleanup ((sendAck D cts (grown p s))\<lparr>inStreamActive := False, ts_state := TCP_TIMED_WAIT\<rparr>)"
    using assms(4) by (simp add: take_fin_def Let_def)
  ultimately show ?thesis by (simp add: take_InPkt_grown take_fin_ack_def) metis
qed

end
