(* ===== verification/Tcp_Fin.thy ===== *)
theory Tcp_Fin
  imports Tcp_Link
begin

text \<open>
  The end of a stream. A side that has sent its FIN never sends it again: the packet is not among those that wait for an
  acknowledgment, and the states that follow have no step that sends one.
\<close>

definition fin_bit :: "bytes \<Rightarrow> bool" where
  "fin_bit b = (20 \<le> length b \<and> of_be16 (take 2 (drop 12 b)) AND TCP_FIN_BIT \<noteq> 0)"

definition after_fin :: "'d TcpStream \<Rightarrow> bool" where
  "after_fin st = (ts_state st \<in> {TCP_FIN_WAIT_1, TCP_FIN_WAIT_2, TCP_CLOSING, TCP_LAST_ACK})"

text \<open>No packet that waits has the flag, and no datagram behind \<open>X\<close> has it.\<close>

definition no_fin_since :: "(bytes \<times> int) list \<Rightarrow> 'd TcpStream \<Rightarrow> bool" where
  "no_fin_since X st = ((\<forall>p\<in>set (outPkt st). \<not> hasFin p) \<and> (\<exists>Y. udp_sent st = X @ Y \<and> (\<forall>d\<in>fst ` set Y. \<not> fin_bit d)))"

lemma no_fin_cong:
  "no_fin_since X st \<Longrightarrow> set (outPkt st') \<subseteq> set (outPkt st) \<Longrightarrow> udp_sent st' = udp_sent st \<Longrightarrow> no_fin_since X st'"
  by (auto simp: no_fin_since_def)

lemma written_no_fin: "\<not> hasFin p \<Longrightarrow> \<not> fin_bit (writePacket p sz)"
  by (simp add: fin_bit_def writePacket_def take_drop_be hasFin_def)

lemma no_fin_more:
  assumes "no_fin_since X st" "udp_sent st' = udp_sent st @ [(writePacket p sz, t)]" "\<not> hasFin p"
    "\<forall>q\<in>set (outPkt st'). \<not> hasFin q"
  shows "no_fin_since X st'"
proof -
  obtain Y where "udp_sent st = X @ Y" "\<forall>d\<in>fst ` set Y. \<not> fin_bit d" using assms(1) by (auto simp: no_fin_since_def)
  then have "udp_sent st' = X @ (Y @ [(writePacket p sz, t)]) \<and> (\<forall>d\<in>fst ` set (Y @ [(writePacket p sz, t)]). \<not> fin_bit d)"
    using assms(2) written_no_fin [OF assms(3)] by auto
  then show ?thesis using assms(4) unfolding no_fin_since_def by blast
qed

lemma toSend_no_fin:
  assumes "no_fin_since X st" "\<not> hasFin pkt"
  shows "no_fin_since X (toSend cts pkt r st)"
proof (cases "peerKnown st")
  case True
  obtain p s where ps: "stamp st pkt = (p, s)" by fastforce
  have p: "\<not> hasFin p" "\<not> hasFin (p\<lparr>tp_ts := cts, tp_retrans := 0\<rparr>)"
    using assms(2) stamp_fields [OF ps] by (simp_all add: hasFin_def)
  show ?thesis
  proof (rule no_fin_more [OF assms(1) _ p(1)])
    show "udp_sent (toSend cts pkt r st) = udp_sent st @ [(writePacket p (MAX_SEG + TCP_PSEUDO_HDR_SIZE), ttl st)]"
      using True ps by (simp add: toSend_def startRetransmitTimer_def Let_def)
    show "\<forall>q\<in>set (outPkt (toSend cts pkt r st)). \<not> hasFin q"
      using True ps p(2) assms(1) by (auto simp: toSend_def startRetransmitTimer_def Let_def no_fin_since_def)
  qed
qed (use assms in \<open>simp add: toSend_def\<close>)

lemma sendAck_no_fin: "no_fin_since X st \<Longrightarrow> no_fin_since X (sendAck D cts st)"
  unfolding sendAck_def by (rule toSend_no_fin) (simp_all add: packet_simps)

lemma cleanup_no_fin: "no_fin_since X st \<Longrightarrow> no_fin_since X (cleanup st)"
  by (rule no_fin_cong) (simp_all add: cleanup_def)

lemma acknowledge_no_fin: "no_fin_since X st \<Longrightarrow> no_fin_since X (acknowledge D cts st)"
  using ack_packets_frame [of D cts True "outPkt st" st]
  by (elim no_fin_cong) (simp_all add: acknowledge_def Let_def)

lemma tcp_retrans_no_fin:
  assumes "no_fin_since X st"
  shows "no_fin_since X (tcp_retrans D cts st)"
proof (cases "\<not> peerKnown st \<or> \<not> retransTimerOn st \<or> d_less D (d_sub D cts (retransTimerTs st)) (retransTimeout st)")
  case True
  then show ?thesis using assms by (simp add: tcp_retrans_def)
next
  case on: False
  show ?thesis
  proof (cases "outPkt st")
    case Nil
    then show ?thesis using on assms by (simp add: tcp_retrans_def no_fin_since_def)
  next
    case (Cons pkt ps)
    let ?r = "tcp_retrans D cts st"
    have fin: "\<not> hasFin pkt" "\<forall>q\<in>set ps. \<not> hasFin q" using assms Cons by (simp_all add: no_fin_since_def)
    show ?thesis
    proof (cases "too_often pkt")
      case True
      have "outPkt ?r = []" "udp_sent ?r = udp_sent st"
        using on Cons True by (simp_all add: tcp_retrans_def Let_def cleanup_def split: prod.split)
      then show ?thesis using assms by (simp add: no_fin_since_def)
    next
      case False
      define pkt2 where "pkt2 = (if hasSyn pkt then pkt else setAck (inAckno st) pkt)\<lparr>tp_winsize := ucast (inWinSize st)\<rparr>"
      have pkt2: "\<not> hasFin pkt2" using fin(1) by (simp add: pkt2_def packet_simps)
      have "\<exists>t. udp_sent ?r = udp_sent st @ [(writePacket pkt2 (MAX_SEG + TCP_PSEUDO_HDR_SIZE), t)]"
        using on Cons False by (cases "hasSyn pkt") (simp_all add: tcp_retrans_def restartRetransmitTimer_def Let_def pkt2_def)
      moreover have "outPkt ?r = pkt2\<lparr>tp_ts := cts, tp_retrans := tp_retrans pkt2 + 1\<rparr> # ps"
        using on Cons False by (cases "hasSyn pkt") (simp_all add: tcp_retrans_def restartRetransmitTimer_def Let_def pkt2_def)
      then have "\<forall>q\<in>set (outPkt ?r). \<not> hasFin q" using fin(2) pkt2 by (simp add: packet_simps)
      ultimately show ?thesis using no_fin_more [OF assms _ pkt2] by blast
    qed
  qed
qed

lemma send_segments_no_fin: "no_fin_since X st \<Longrightarrow> no_fin_since X (snd (send_segments D cts q m st))"
proof (induction D cts q m st rule: send_segments.induct)
  case (1 D cts m st)
  then show ?case by (simp add: no_fin_since_def)
next
  case (2 D cts db q m st)
  have "no_fin_since X (toSend cts (make_TcpPacket (d_int D 0) db) True st)"
    using "2.prems" by (rule toSend_no_fin) (simp add: packet_simps)
  then show ?case using 2 by (auto simp: no_fin_since_def)
qed

text \<open>Where a tick leads from a state behind the FIN.\<close>

lemma tcp_send_after_fin:
  assumes "no_fin_since X st" "after_fin st \<or> ts_state st = 0"
  shows "no_fin_since X (tcp_send D cts st) \<and> (after_fin (tcp_send D cts st) \<or> ts_state (tcp_send D cts st) = 0)"
proof -
  define s where "s = tcp_retrans D cts (acknowledge D cts st)"
  have s: "no_fin_since X s" using assms(1) unfolding s_def by (intro tcp_retrans_no_fin acknowledge_no_fin)
  have a: "after_fin s \<or> ts_state s = 0"
    using tcp_retrans_frame [of D cts "acknowledge D cts st"] acknowledge_frame [of D cts st] assms(2)
    by (auto simp: s_def after_fin_def)
  obtain m s2 where sg: "send_segments D cts (inQueue s) (send_room s) s = (m, s2)" by fastforce
  have s2: "no_fin_since X s2" using send_segments_no_fin [OF s, of D cts "inQueue s" "send_room s"] sg by simp
  have st2: "ts_state s2 = ts_state s" using send_segments_frame [of D cts "inQueue s" "send_room s" s] sg by simp
  have short: "no_fin_since X (toSend cts (make_TcpPacket (d_int D 0) d) True (s2\<lparr>inData := []\<rparr>))" for d
    using s2 by (intro toSend_no_fin) (simp_all add: no_fin_since_def packet_simps)
  have "ts_state s2 \<noteq> TCP_ESTABLISHED \<and> ts_state s2 \<noteq> TCP_CLOSE_WAIT" using a st2 by (auto simp: after_fin_def)
  then have "tcp_send D cts st \<in> {s, s2, toSend cts (make_TcpPacket (d_int D 0) (inData s2)) True (s2\<lparr>inData := []\<rparr>), sendAck D cts s2}"
    by (simp add: tcp_send_def s_def [symmetric] sg Let_def)
  then show ?thesis using s s2 a st2 short sendAck_no_fin [OF s2, of D cts] by (auto simp: after_fin_def)
qed

lemma tcp_tick_after_fin:
  assumes "no_fin_since X st" "after_fin st"
  shows "no_fin_since X (tcp_tick D cts st) \<and> (after_fin (tcp_tick D cts st) \<or> ts_state (tcp_tick D cts st) = 0)"
proof -
  have "no_fin_since X (recv_check D cts st)" "after_fin (recv_check D cts st) \<or> ts_state (recv_check D cts st) = 0"
    using assms by (auto simp: recv_check_def no_fin_since_def cleanup_def)
  then show ?thesis unfolding tcp_tick_def by (rule tcp_send_after_fin)
qed

subsection \<open>Datagrams\<close>

lemma take_InPkt_after_fin:
  assumes "no_fin_since X st" "after_fin st \<or> ts_state st = 0"
  shows "no_fin_since X (take_InPkt D cts p st) \<and> (after_fin (take_InPkt D cts p st) \<or> ts_state (take_InPkt D cts p st) = 0)"
proof -
  have g: "no_fin_since X (grown p st)" by (rule no_fin_cong [OF assms(1)]) (simp_all add: grown_def)
  have ga: "after_fin (grown p st) \<or> ts_state (grown p st) = 0" using assms(2) by (simp add: after_fin_def)
  let ?f = "take_fin D cts p (grown p st)"
  have f: "no_fin_since X ?f \<and> (after_fin ?f \<or> ts_state ?f = 0)"
    using g ga sendAck_no_fin [OF g, of D cts] unfolding take_fin_def Let_def
    by (auto simp: after_fin_def no_fin_since_def cleanup_def)
  then show ?thesis unfolding take_InPkt_grown take_fin_ack_def
    by (auto simp: after_fin_def no_fin_since_def cleanup_def)
qed

lemma check_InPkts_after_fin:
  assumes "no_fin_since X st" "after_fin st \<or> ts_state st = 0"
  shows "no_fin_since X (check_InPkts D cts st) \<and> (after_fin (check_InPkts D cts st) \<or> ts_state (check_InPkts D cts st) = 0)"
  using assms
proof (induction D cts st rule: check_InPkts.induct)
  case (1 D cts st)
  obtain r ps where sc: "scan_InPkts (inAckno st) (inPkt st) = (r, ps)" by fastforce
  have c: "no_fin_since X (st\<lparr>inPkt := ps\<rparr>)" "after_fin (st\<lparr>inPkt := ps\<rparr>) \<or> ts_state (st\<lparr>inPkt := ps\<rparr>) = 0"
    using "1.prems" by (auto simp: no_fin_since_def after_fin_def)
  show ?case
  proof (cases r)
    case None
    then show ?thesis using sc c by (simp add: check_InPkts.simps [of D cts st])
  next
    case (Some p)
    then show ?thesis using sc "1.IH" [OF sc [symmetric] Some] take_InPkt_after_fin [OF c]
      by (simp add: check_InPkts.simps [of D cts st])
  qed
qed

lemma incoming_Established_after_fin:
  assumes "no_fin_since X st" "after_fin st"
  shows "no_fin_since X (incoming_Established D cts p st) \<and>
    (after_fin (incoming_Established D cts p st) \<or> ts_state (incoming_Established D cts p st) = 0)"
proof -
  have q: "no_fin_since X (s\<lparr>inPkt := ps\<rparr>) \<and> (after_fin (s\<lparr>inPkt := ps\<rparr>) \<or> ts_state (s\<lparr>inPkt := ps\<rparr>) = 0)"
    if "no_fin_since X s" "after_fin s" for s :: "'a TcpStream" and ps
    using that by (simp add: no_fin_since_def after_fin_def)
  define s1 where "s1 = (if \<not> isOldSequence (tp_seqno p) (inAckno st) \<and> isOldSequence (tp_seqno p) (inAckno st + maxWinSize st)
    then st\<lparr>outAcked := (if hasAck p then tp_ackno p else outAcked st), outWinSize := ucast (tp_winsize p)\<rparr> else sendAck D cts st)"
  have "no_fin_since X (st\<lparr>outAcked := v, outWinSize := w\<rparr>)" "after_fin (st\<lparr>outAcked := v, outWinSize := w\<rparr>)" for v w
    using assms by (simp_all add: no_fin_since_def after_fin_def)
  moreover have "no_fin_since X (sendAck D cts st)" "after_fin (sendAck D cts st)"
    using assms(2) sendAck_no_fin [OF assms(1), of D cts] by (simp_all add: after_fin_def)
  ultimately have "no_fin_since X s1" "after_fin s1"
    unfolding s1_def by (cases "\<not> isOldSequence (tp_seqno p) (inAckno st) \<and> isOldSequence (tp_seqno p) (inAckno st + maxWinSize st)"; simp)+
  note q [OF this]
  then show ?thesis unfolding incoming_Established_def Let_def s1_def [symmetric] by (intro check_InPkts_after_fin) blast+
qed

lemma recvPkt_after_fin:
  assumes "no_fin_since X st" "after_fin st"
  shows "no_fin_since X (recvPkt D cts rnd b st) \<and> (after_fin (recvPkt D cts rnd b st) \<or> ts_state (recvPkt D cts rnd b st) = 0)"
proof (cases "readPacket b (make_TcpPacket (d_int D 0) [])")
  case (Some p)
  let ?s = "st\<lparr>lastIncomingPkt := cts\<rparr>"
  have s: "no_fin_since X ?s" "after_fin ?s" using assms by (simp_all add: no_fin_since_def after_fin_def)
  have "tcp_handleIncoming D cts rnd p ?s = incoming_Established D cts p ?s"
    using s(2) by (auto simp: tcp_handleIncoming_def after_fin_def)
  then show ?thesis using Some incoming_Established_after_fin [OF s, of D cts p] by (simp add: recvPkt_def)
qed (use assms in \<open>simp add: recvPkt_def\<close>)

subsection \<open>Any calls\<close>

text \<open>All that may happen to a side until it is closed, with any datagrams.\<close>

inductive acts_reach :: "'d double_ops \<Rightarrow> 'd peer \<Rightarrow> 'd peer \<Rightarrow> bool" for D p where
  acts_begin: "acts_reach D p p"
| acts_step: "acts_reach D p q \<Longrightarrow> ts_state (pr_stream q) \<noteq> TCP_CLOSED \<Longrightarrow> acts_reach D p (peer_act D cts rnd e q)"

lemma tcp_read_frame:
  "outPkt (snd (snd (tcp_read sz st))) = outPkt st" "udp_sent (snd (snd (tcp_read sz st))) = udp_sent st"
  "ts_state (snd (snd (tcp_read sz st))) = ts_state st"
  unfolding tcp_read_def Let_def
  by (simp_all split: prod.split option.split)

lemma tcp_write_frame:
  "outPkt (snd (tcp_write dta st)) = outPkt st" "udp_sent (snd (tcp_write dta st)) = udp_sent st"
  "ts_state (snd (tcp_write dta st)) = ts_state st"
  unfolding tcp_write_def Let_def
  by (simp_all split: prod.split)

lemma peer_act_after_fin:
  assumes "no_fin_since X (pr_stream p)" "after_fin (pr_stream p)"
  shows "no_fin_since X (pr_stream (peer_act D cts rnd e p)) \<and>
    (after_fin (pr_stream (peer_act D cts rnd e p)) \<or> ts_state (pr_stream (peer_act D cts rnd e p)) = 0)"
proof (cases e)
  case (Ev_write dta)
  obtain n st' where w: "tcp_write dta (pr_stream p) = (n, st')" by fastforce
  have "outPkt st' = outPkt (pr_stream p) \<and> udp_sent st' = udp_sent (pr_stream p) \<and> ts_state st' = ts_state (pr_stream p)"
    using tcp_write_frame [of dta "pr_stream p"] w by simp
  then show ?thesis using assms Ev_write w by (auto simp: no_fin_since_def after_fin_def)
next
  case (Ev_read sz)
  obtain n got st' where w: "tcp_read sz (pr_stream p) = (n, got, st')" using prod_cases3 by blast
  have "outPkt st' = outPkt (pr_stream p) \<and> udp_sent st' = udp_sent (pr_stream p) \<and> ts_state st' = ts_state (pr_stream p)"
    using tcp_read_frame [of sz "pr_stream p"] w by simp
  then show ?thesis using assms Ev_read w by (auto simp: no_fin_since_def after_fin_def)
next
  case Ev_closeWrite
  then show ?thesis using assms by (auto simp: closeWrite_def Let_def no_fin_since_def after_fin_def)
next
  case Ev_close
  then show ?thesis using assms cleanup_no_fin by (simp add: tcp_close_def)
next
  case Ev_tick
  then show ?thesis using tcp_tick_after_fin [OF assms] by simp
next
  case (Ev_recv b)
  then show ?thesis using recvPkt_after_fin [OF assms] by simp
qed

lemma acts_reach_no_fin:
  assumes "acts_reach D p q" "after_fin (pr_stream p)" "\<forall>k\<in>set (outPkt (pr_stream p)). \<not> hasFin k"
  shows "no_fin_since (udp_sent (pr_stream p)) (pr_stream q) \<and> (after_fin (pr_stream q) \<or> ts_state (pr_stream q) = 0)"
  using assms
proof (induction rule: acts_reach.induct)
  case acts_begin
  then show ?case by (simp add: no_fin_since_def)
next
  case (acts_step q cts rnd e)
  then show ?case using peer_act_after_fin [of "udp_sent (pr_stream p)" q D cts rnd e] by simp
qed

end
