(* ===== verification/Tcp_Demo.thy ===== *)
theory Tcp_Demo
  imports Tcp_Handshake Tcp_Fin
begin

text \<open>
  A short run, step by step: after the handshake the caller writes three bytes and closes its side, and the other
  one reads them and learns that the stream has ended. Times are integers, in thousandths of a second.
\<close>

definition milli :: "int double_ops" where
  "milli = \<lparr>d_int = \<lambda>i. 1000 * i, d_alpha = 875, d_add = (+), d_sub = (-), d_mul = (\<lambda>a b. a * b div 1000), d_fabs = abs,
     d_less = (<)\<rparr>"

definition caller0 :: "int TcpStream" where
  "caller0 = (make_TcpStream milli)\<lparr>peerKnown := True, outSeqno := 101, initOurSeqno := 100, outAcked := 101,
     inWinSize := 65500, congestUpdate := 1100, mTTL_period := 20000, mTTL_end := 20000, lastSentWinSize := 65500,
     outWinSize := 65500, keepAliveTimer := 20, lastIncomingPkt := 20, lastSentAck := 501, initPeerSeqno := 500, inAckno := 501,
     udp_sent := [(writePacket (syn_pkt milli 100) 1020, 1), (writePacket (ack_pkt milli 101 501) 1020, 64)],
     retransTimerOn := True, outPkt := [syn_pkt milli 100], ts_state := 4, errorState := EAGAIN, ttl := 64,
     outStreamActive := True, inStreamActive := True\<rparr>"

definition answerer0 :: "int TcpStream" where
  "answerer0 = (make_TcpStream milli)\<lparr>peerKnown := True, errorState := EAGAIN, lastIncomingPkt := 25, initPeerSeqno := 100,
     inAckno := 101, outWinSize := 65500, inWinSize := 65500, outSeqno := 501, initOurSeqno := 500, outAcked := 501,
     congestUpdate := 1500, ttl := 64, lastSentAck := 101, lastSentWinSize := 65500, keepAliveTimer := 10,
     udp_sent := [(writePacket (syn_ack_pkt milli 500 101) 1020, 64)], retransTimerTs := 10, retransTimerOn := True,
     outPkt := [(syn_ack_pkt milli 500 101)\<lparr>tp_ts := 10\<rparr>], ts_state := 4, outStreamActive := True, inStreamActive := True\<rparr>"

lemma shaken_demo_caller: "shaken_caller milli 0 100 20 10 500 20 = caller0"
  unfolding shaken_caller_def joined_caller_eq [OF refl refl]
  by (simp add: calling_eq caller0_def) (simp add: make_TcpStream_def milli_def syn_pkt_def ack_pkt_def)

lemma shaken_demo_answerer: "shaken_answerer milli 0 100 20 10 500 20 25 = answerer0"
  unfolding shaken_answerer_def shaken_caller_def joined_answerer_eq [OF refl refl]
  by (simp add: answering_eq answerer0_def)

lemmas shaken_demo = shaken_demo_caller shaken_demo_answerer

definition data_pkt :: "int TcpPacket" where
  "data_pkt = (ack_pkt milli 101 501)\<lparr>tp_data := [1, 2, 3]\<rparr>"

definition fin_pkt :: "int TcpPacket" where
  "fin_pkt = (ack_pkt milli 104 501)\<lparr>tp_hlen_flags := TCP_FIN_BIT OR TCP_ACK_BIT\<rparr>"

definition caller2 :: "int TcpStream" where
  "caller2 = caller0\<lparr>outPkt := [data_pkt\<lparr>tp_ts := 31\<rparr>], outSeqno := 104, retransTimeout := 2596, retransTimerTs := 31,
     keepAliveTimer := 31, rtt_est := 878, rtt_dev := 105,
     udp_sent := udp_sent caller0 @ [(writePacket data_pkt 1020, 64)]\<rparr>"

definition answerer1 :: "int TcpStream" where
  "answerer1 = answerer0\<lparr>outDataNet := [1, 2, 3], inAckno := 104, lastIncomingPkt := 32\<rparr>"

definition caller4 :: "int TcpStream" where
  "caller4 = caller2\<lparr>outStreamActive := False, ts_state := 5, keepAliveTimer := 41,
     udp_sent := udp_sent caller2 @ [(writePacket fin_pkt 1020, 64)]\<rparr>"

definition answerer3 :: "int TcpStream" where
  "answerer3 = answerer1\<lparr>outDataNet := [], ts_state := 9, inStreamActive := False, keepAliveTimer := 42, lastIncomingPkt := 42,
     lastSentAck := 104, udp_sent := udp_sent answerer0 @ [(writePacket (ack_pkt milli 501 104) 1020, 64)]\<rparr>"

lemmas demo_states = caller0_def answerer0_def caller2_def answerer1_def caller4_def answerer3_def make_TcpStream_def
  data_pkt_def fin_pkt_def syn_pkt_def syn_ack_pkt_def ack_pkt_def milli_def

lemmas run_stream = tcp_tick_def recv_check_def tcp_send_def acknowledge_def raise_congestion_def isOldSequence_def
  update_rtt_def resetRetransmitTimer_def startRetransmitTimer_def tcp_retrans_def send_room_def make_TcpPacket_def
  toSend_def stamp_def hasSyn_def hasFin_def hasAck_def setAck_def setFin_def setAckFlag_def needs_ack_def sendAck_def
  send_fin_def tcp_write_def closeWrite_def tcp_read_def int_read_pending_def UpdateInWinSize_def
  recvPkt_written [simplified] tcp_handleIncoming_def incoming_Established_next take_InPkt_def late_ack_def push_data_def
  take_fin_def take_fin_ack_def Let_def

lemma demo_write: "tcp_write [1, 2, 3] caller0 = (3, caller0\<lparr>inData := [1, 2, 3]\<rparr>)"
  by (simp add: demo_states run_stream)

lemma demo_tick: "tcp_tick milli 31 (caller0\<lparr>inData := [1, 2, 3]\<rparr>) = caller2"
  by (simp add: demo_states run_stream)

lemma demo_arrival: "recvPkt milli 32 0 (writePacket data_pkt 1020) answerer0 = answerer1"
  by (simp add: demo_states run_stream)

lemma demo_read: "tcp_read 10 answerer1 = (3, [1, 2, 3], answerer1\<lparr>outDataNet := []\<rparr>)"
  by (simp add: demo_states run_stream)

lemma demo_fin: "tcp_tick milli 41 (snd (closeWrite caller2)) = caller4"
  by (simp add: demo_states run_stream)

lemma demo_end: "recvPkt milli 42 0 (writePacket fin_pkt 1020) (answerer1\<lparr>outDataNet := []\<rparr>) = answerer3"
  by (simp add: demo_states run_stream)

text \<open>The run as steps of the link.\<close>

definition demo_p :: "int peer" where
  "demo_p = \<lparr>pr_stream = caller4, pr_wrote = [1, 2, 3], pr_got = []\<rparr>"

definition demo_q :: "int peer" where
  "demo_q = \<lparr>pr_stream = answerer3, pr_wrote = [], pr_got = [1, 2, 3]\<rparr>"

lemma demo_joined: "joined 101 501 (new_peer caller0) (new_peer answerer0)"
  using shaken_caller_fresh [of 100 500 milli 0 20 10 20] shaken_answerer_fresh [of 500 100 milli 0 20 10 20 25]
  by (simp add: joined_def shaken_demo)

lemma demo_reach: "link_reach milli (new_peer caller0) (new_peer answerer0) demo_p demo_q"
proof -
  let ?p0 = "new_peer caller0" and ?q0 = "new_peer answerer0"
  let ?p1 = "peer_act milli 30 0 (Ev_write [1, 2, 3]) ?p0"
  let ?p2 = "peer_act milli 31 0 Ev_tick ?p1"
  let ?q1 = "peer_act milli 32 0 (Ev_recv (writePacket data_pkt 1020)) ?q0"
  let ?q2 = "peer_act milli 33 0 (Ev_read 10) ?q1"
  let ?p3 = "peer_act milli 40 0 Ev_closeWrite ?p2"
  let ?p4 = "peer_act milli 41 0 Ev_tick ?p3"
  let ?q3 = "peer_act milli 42 0 (Ev_recv (writePacket fin_pkt 1020)) ?q2"
  have p: "pr_stream ?p1 = caller0\<lparr>inData := [1, 2, 3]\<rparr>" "pr_stream ?p2 = caller2" "pr_stream ?p4 = caller4"
    "pr_stream ?p3 = snd (closeWrite caller2)" "?p4 = demo_p"
    by (simp_all add: new_peer_def demo_write demo_tick demo_fin demo_p_def)
  have q: "pr_stream ?q1 = answerer1" "pr_stream ?q2 = answerer1\<lparr>outDataNet := []\<rparr>" "?q3 = demo_q"
    by (simp_all add: new_peer_def demo_arrival demo_read demo_end demo_q_def)
  have live: "live caller0" "live answerer0" "live caller2" "live (snd (closeWrite caller2))" "live answerer1"
    by (simp_all add: demo_states closeWrite_def Let_def)
  have sent: "writePacket data_pkt 1020 \<in> fst ` set (udp_sent caller2)" "writePacket fin_pkt 1020 \<in> fst ` set (udp_sent caller4)"
    by (simp_all add: caller2_def caller4_def)
  have "link_reach milli ?p0 ?q0 ?p1 ?q0" using link_begin by (rule link_left) (simp add: new_peer_def live)
  then have "link_reach milli ?p0 ?q0 ?p2 ?q0" by (rule link_left) (simp del: peer_act.simps add: p live)
  then have "link_reach milli ?p0 ?q0 ?p2 ?q1" by (rule link_right) (simp del: peer_act.simps add: p live sent; simp add: new_peer_def live)
  then have "link_reach milli ?p0 ?q0 ?p2 ?q2" by (rule link_right) (simp del: peer_act.simps add: q live)
  then have "link_reach milli ?p0 ?q0 ?p3 ?q2" by (rule link_left) (simp del: peer_act.simps add: p live)
  then have "link_reach milli ?p0 ?q0 ?p4 ?q2" by (rule link_left) (simp del: peer_act.simps add: p live)
  then have "link_reach milli ?p0 ?q0 ?p4 ?q3" by (rule link_right) (simp del: peer_act.simps add: p q live; simp add: demo_p_def sent)
  then show ?thesis by (simp only: p q)
qed

end
