(* ===== verification/Tcp_Props.thy ===== *)
theory Tcp_Props
  imports Tcp_Demo
begin

text \<open>
  The properties of the stream over UDP: what two applications see of each other over a network that loses, repeats and
  reorders datagrams, the handshake, the bounds, and four places where the stream does not do what it means to do.
\<close>

subsection \<open>What has been read\<close>

lemma peer_act_got:
  assumes "peer_side a b W f p" "may_act e p q"
  shows "pr_got (peer_act D cts rnd e p) = pr_got p \<or> live (pr_stream (peer_act D cts rnd e p))"
proof (cases e)
  case (Ev_read sz)
  obtain n got st' where w: "tcp_read sz (pr_stream p) = (n, got, st')" using prod_cases3 by blast
  have "buffers_ok (pr_stream p)" using assms(1) by (simp add: side_def)
  then have "ts_state st' = ts_state (pr_stream p)" using w by (rule tcp_read_live)
  then show ?thesis using assms(2) Ev_read w by simp
qed (simp_all add: Let_def split: prod.split)

lemma receives_prefix: "receives b W f R st \<Longrightarrow> prefix R W"
  by (metis receives_def append_prefixD take_is_prefix)

definition got_ok :: "'d peer \<Rightarrow> 'd peer \<Rightarrow> bool" where
  "got_ok p q = (prefix (pr_got p) (pr_wrote q) \<and> prefix (pr_got q) (pr_wrote p))"

lemma got_ok_act:
  assumes "link_inv a b p q" "may_act e p q" "got_ok p q" "length (pr_wrote q) < 2 ^ 32"
  shows "got_ok (peer_act D cts rnd e p) q"
proof -
  let ?p = "peer_act D cts rnd e p"
  have inv: "link_inv a b ?p q" using assms(1,2,4) by (rule link_inv_act)
  have "pr_got ?p = pr_got p \<or> live (pr_stream ?p)" 
    using peer_act_got [OF _ assms(2)] assms(1) unfolding link_inv_def peer_keeps_def by blast
  then have "prefix (pr_got ?p) (pr_wrote q)"
    using assms(3) inv receives_prefix by (auto simp: got_ok_def link_inv_def peer_keeps_def side_def)
  moreover have "prefix (pr_wrote p) (pr_wrote ?p)" by (cases e) (auto simp: Let_def split: prod.split)
  ultimately show ?thesis using assms(3) prefix_order.trans by (auto simp: got_ok_def)
qed

lemma link_reach_got_ok:
  assumes "link_reach D p0 q0 p q" "joined a b p0 q0" "length (pr_wrote p) < 2 ^ 32" "length (pr_wrote q) < 2 ^ 32"
  shows "got_ok p q"
  using assms
proof (induction rule: link_reach.induct)
  case link_begin
  then show ?case by (simp add: got_ok_def joined_def fresh_side_def Let_def)
next
  case (link_left p q e cts rnd)
  have len: "length (pr_wrote p) < 2 ^ 32" using link_left.prems peer_act_wrote [of p D cts rnd e] by simp
  show ?case using link_reach_inv [OF link_left.hyps(1) link_left.prems(1) len link_left.prems(3)] link_left.hyps(2)
      link_left.IH [OF link_left.prems(1) len link_left.prems(3)] link_left.prems(3) by (rule got_ok_act)
next
  case (link_right p q e cts rnd)
  have len: "length (pr_wrote q) < 2 ^ 32" using link_right.prems peer_act_wrote [of q D cts rnd e] by simp
  have "got_ok (peer_act D cts rnd e q) p"
    using link_reach_inv [OF link_right.hyps(1) link_right.prems(1,2) len]
      link_right.IH [OF link_right.prems(1,2) len] link_right.hyps(2) link_right.prems(2)
    by (intro got_ok_act [of b a]) (simp_all add: link_inv_sym [of b a] got_ok_def)
  then show ?case by (simp add: got_ok_def)
qed

text \<open>A read that returns zero, for a positive number of bytes, tells that the stream has ended.\<close>

lemma read_zero_all:
  assumes "link_inv a b p q" "fst (tcp_read sz (pr_stream q)) = 0" "0 < sz"
  shows "pr_got q = pr_wrote p"
proof -
  obtain n got st' where w: "tcp_read sz (pr_stream q) = (n, got, st')" using prod_cases3 by blast
  have "buffers_ok (pr_stream q)" using assms(1) by (simp add: link_inv_def peer_keeps_def side_def)
  from this w show ?thesis
  proof (cases rule: tcp_read_cases)
    case finished
    have "receives a (pr_wrote p) (peer_closed p) (pr_got q) (pr_stream q)"
      using assms(1) finished(6) by (simp add: link_inv_def peer_keeps_def side_def)
    then show ?thesis using finished(4,5) by (auto simp: receives_def)
  next
    case refused
    have "n \<noteq> 0" using refused(1) by simp
    then show ?thesis using assms(2) w by simp
  next
    case (delivered r x d)
    have "n \<noteq> 0" unfolding delivered(1,2) using delivered(7) assms(3) by simp
    then show ?thesis using assms(2) w by simp
  qed
qed

subsection \<open>States that calls lead to\<close>

lemma link_stream_reach:
  "link_reach D p0 q0 p q \<Longrightarrow> stream_reach D (pr_stream p0) \<Longrightarrow> stream_reach D (pr_stream q0) \<Longrightarrow>
   stream_reach D (pr_stream p) \<and> stream_reach D (pr_stream q)"
  by (induction rule: link_reach.induct) (auto intro: reach_event)

lemma recvPkt_reach: "stream_reach D st \<Longrightarrow> stream_reach D (recvPkt D cts rnd b st)"
  using reach_event [of D "new_peer st" cts rnd "Ev_recv b"] by (simp add: new_peer_def)

lemma answering_reach: "stream_reach D (answering D u b caller)"
  unfolding answering_def by (intro recvPkt_reach reach_listen reach_new)

lemma shaken_reach: "stream_reach D (shaken_caller D t a period u b v)" "stream_reach D (shaken_answerer D t a period u b v w)"
  unfolding shaken_caller_def shaken_answerer_def joined_caller_def calling_def
  by (intro recvPkt_reach reach_connect reach_new answering_reach)+

lemma demo_stream_reach: "stream_reach milli caller4" "stream_reach milli answerer3"
proof -
  have "stream_reach milli caller0" "stream_reach milli answerer0"
    using shaken_reach(1) [of milli 0 100 20 10 500 20] shaken_reach(2) [of milli 0 100 20 10 500 20 25]
    by (simp_all add: shaken_demo)
  then show "stream_reach milli caller4" "stream_reach milli answerer3"
    using link_stream_reach [OF demo_reach] by (simp_all add: new_peer_def demo_p_def demo_q_def)
qed

lemma split_first:
  assumes "xs = g @ r" "length g = min (length xs) k"
  shows "g = take k xs \<and> r = drop k xs"
proof (cases "k \<le> length xs")
  case True
  then have "length g = k" using assms(2) by simp
  then show ?thesis using assms(1) by simp
next
  case False
  then have "length g = length xs" using assms(2) by simp
  then have "r = []" using assms(1) by simp
  then show ?thesis using False assms(1) by simp
qed

subsection \<open>The link\<close>

text \<open>C2. The stream over UDP is reliable: what an application has read is always a prefix of what the other one has
  written, in both directions, whatever datagrams are lost, repeated or reordered and whatever the times, until the
  sides are closed. Both sides start with each other's sequence numbers, and both directions are shorter than the space
  of sequence numbers.\<close>

theorem stream_is_reliable:
  assumes "link_reach D p0 q0 p q" and "joined a b p0 q0" and "length (pr_wrote p) < 2 ^ 32" and "length (pr_wrote q) < 2 ^ 32"
  shows "prefix (pr_got q) (pr_wrote p) \<and> prefix (pr_got p) (pr_wrote q)"
  using link_reach_got_ok [OF assms] by (simp add: got_ok_def)

theorem stream_is_reliable_witness:
  "prefix (pr_got demo_q) (pr_wrote demo_p) \<and> pr_got demo_q = [1, 2, 3]"
  using stream_is_reliable [OF demo_reach demo_joined] by (simp add: demo_p_def demo_q_def)

text \<open>C8. The end of a stream is not told too early: when a read of a positive number of bytes returns zero, the
  application has read everything that the other one has written.\<close>

theorem end_of_stream_is_complete:
  assumes "link_reach D p0 q0 p q" and "joined a b p0 q0" and "length (pr_wrote p) < 2 ^ 32" and "length (pr_wrote q) < 2 ^ 32"
    and "fst (tcp_read sz (pr_stream q)) = 0" and "0 < sz"
  shows "pr_got q = pr_wrote p"
  using link_reach_inv [OF assms(1-4)] assms(5,6) by (rule read_zero_all)

theorem end_of_stream_is_complete_witness:
  "fst (tcp_read 5 (pr_stream demo_q)) = 0 \<and> pr_got demo_q = pr_wrote demo_p"
proof -
  have "fst (tcp_read 5 (pr_stream demo_q)) = 0"
    by (simp add: demo_q_def demo_states tcp_read_def int_read_pending_def)
  then show ?thesis
    using end_of_stream_is_complete [OF demo_reach demo_joined, of 5] by (simp add: demo_p_def demo_q_def)
qed

text \<open>C17. A handshake in which no datagram is lost establishes both sides, each with the sequence number of the first
  byte of the other and nothing else in its buffers, whatever the times and the initial sequence numbers.\<close>

theorem handshake_joins:
  "joined (a + 1) (b + 1) (new_peer (shaken_caller D t a period u b v)) (new_peer (shaken_answerer D t a period u b v w)) \<and>
   isConnected (shaken_caller D t a period u b v) \<and> isConnected (shaken_answerer D t a period u b v w)"
  by (simp add: joined_def shaken_caller_fresh shaken_answerer_fresh)

text \<open>C10. The arrays and lists of a stream are two queues of bytes: in every state a read takes the oldest bytes, as
  many as there are and are asked for, and a write that is accepted comes behind everything that was written.\<close>

theorem stream_refines_queues:
  assumes "stream_reach D st"
  shows "(case tcp_read sz st of (n, got, st') \<Rightarrow> wbuf st' = wbuf st \<and>
      (got, rbuf st') = (if n = -1 then ([], rbuf st) else (take sz (rbuf st), drop sz (rbuf st)))) \<and>
    (case tcp_write dta st of (n, st') \<Rightarrow> rbuf st' = rbuf st \<and> wbuf st' = (if n = -1 then wbuf st else wbuf st @ dta))"
proof -
  have ok: "buffers_ok st" using stream_reach_sound [OF assms] by (simp add: sound_def)
  obtain n got st1 where rd: "tcp_read sz st = (n, got, st1)" using prod_cases3 by blast
  obtain m st2 where wr: "tcp_write dta st = (m, st2)" by fastforce
  have "wbuf st1 = wbuf st \<and> (got, rbuf st1) = (if n = -1 then ([], rbuf st) else (take sz (rbuf st), drop sz (rbuf st)))"
    using ok rd
  proof (cases rule: tcp_read_cases)
    case (refused e)
    then show ?thesis by (simp add: wbuf_def rbuf_def)
  next
    case finished
    then show ?thesis by simp
  next
    case (delivered r q d)
    have "got = take sz (rbuf st)" "rbuf st1 = drop sz (rbuf st)"
      using split_first [OF delivered(4,2)] by simp_all
    moreover have "wbuf st1 = wbuf st" unfolding delivered(3) UpdateInWinSize_buffers by (simp add: wbuf_def)
    moreover have "n \<noteq> -1" unfolding delivered(1) by simp
    ultimately show ?thesis by simp
  qed
  moreover have "rbuf st2 = rbuf st \<and> wbuf st2 = (if m = -1 then wbuf st else wbuf st @ dta)"
    using ok wr by (cases rule: tcp_write_cases) (simp_all add: rbuf_def wbuf_def)
  ultimately show ?thesis using rd wr by simp
qed


text \<open>C20. In every state that any calls, times and datagrams lead to, the arrays are not overrun, the number of bytes
  that \<^verbatim>\<open>read_pending\<close> returns is right, the window that is announced fits its sixteen bits, the congestion
  window does not pass the largest window and at most 300 packets wait.\<close>

theorem stream_bounds:
  assumes "stream_reach D st"
  shows "buffers_ok st \<and> int_read_pending st = length (rbuf st) \<and>
    unat (ucast (inWinSize st) :: u16) = unat (inWinSize st) \<and> inWinSize st \<le> maxWinSize st \<and>
    congestWinSize st \<le> maxWinSize st \<and> length (inPkt st) \<le> kMaxQueueSize"
proof -
  have s: "buffers_ok st" "maxWinSize st = TCP_MAX_WIN" "inWinSize st \<le> TCP_MAX_WIN" "congestWinSize st \<le> TCP_MAX_WIN"
    "length (inPkt st) \<le> kMaxQueueSize"
    using stream_reach_sound [OF assms] by (simp_all add: sound_def limits_def)
  have "unat (inWinSize st) \<le> 65500" using s(3) by (simp add: word_le_nat_alt)
  then have "unat (ucast (inWinSize st) :: u16) = unat (inWinSize st)"
    by (simp add: unsigned_ucast_eq take_bit_nat_eq_self)
  then show ?thesis using s int_read_pending_rbuf [OF s(1)] by simp
qed

theorem stream_bounds_witness: "buffers_ok caller4 \<and> inWinSize caller4 \<le> maxWinSize caller4"
  using stream_bounds [OF demo_stream_reach(1)] by simp

subsection \<open>Faults\<close>

text \<open>C13. A side that waits for the end of the handshake forgets which byte it expects: the first packet with data and
  the right acknowledgment is taken as the next one, so when the \<open>k\<close> bytes before it were lost they are skipped, and
  their loss is never noticed.\<close>

theorem handshake_skips_lost_bytes:
  assumes "stream_reach D st" and "ts_state st = TCP_SYN_RCVD" and "inPkt st = []" and "hasAck p" and "\<not> hasRst p" and "\<not> hasFin p"
    and "tp_ackno p = outSeqno st" and "tp_data p \<noteq> []" and "length (tp_data p) \<le> MAX_SEG" and "tp_seqno p = inAckno st + of_nat k"
  shows "isConnected (tcp_handleIncoming D cts rnd p st) \<and>
    rbuf (tcp_handleIncoming D cts rnd p st) = rbuf st @ tp_data p \<and>
    inAckno (tcp_handleIncoming D cts rnd p st) = inAckno st + of_nat (k + length (tp_data p))"
  using late_first_packet [OF stream_reach_sound [OF assms(1)] assms(2-9), of D cts rnd] assms(10) by (simp add: algebra_simps)

definition lost_start :: "int TcpPacket" where
  "lost_start = (ack_pkt milli 104 501)\<lparr>tp_data := [4, 5]\<rparr>"

theorem handshake_skips_lost_bytes_witness:
  "rbuf (tcp_handleIncoming milli 30 0 lost_start (answering milli 10 500 (calling milli 0 100 20))) = [4, 5]"
proof -
  let ?s = "answering milli 10 500 (calling milli 0 100 20)"
  have s: "ts_state ?s = TCP_SYN_RCVD" "inPkt ?s = []" "outSeqno ?s = 501" "inAckno ?s = 101" "rbuf ?s = []"
    by (simp_all add: answering_eq make_TcpStream_def rbuf_def)
  have "hasAck lost_start" "\<not> hasRst lost_start" "\<not> hasFin lost_start" "tp_ackno lost_start = outSeqno ?s"
    "tp_data lost_start \<noteq> []" "length (tp_data lost_start) \<le> MAX_SEG" "tp_seqno lost_start = inAckno ?s + of_nat 3"
    by (simp_all add: s lost_start_def ack_pkt_def syn_pkt_def hasAck_def hasRst_def hasFin_def)
  from handshake_skips_lost_bytes [OF answering_reach s(1,2) this, of 30 0] show ?thesis
    by (simp add: s lost_start_def)
qed

text \<open>C21. The end of the other half closes a stream at once: when a side that has ended its own half takes the FIN of the
  other one, all that it has received and not yet read is thrown away, and the next read reports an error.\<close>

theorem half_close_discards_unread:
  assumes "stream_reach D st" and "ts_state st = TCP_FIN_WAIT_2" and "inPkt st = []" and "hasFin p" and "tp_seqno p = inAckno st"
  shows "rbuf (tcp_handleIncoming D cts rnd p st) = [] \<and> fst (tcp_read sz (tcp_handleIncoming D cts rnd p st)) = -1"
proof -
  obtain s where "tcp_handleIncoming D cts rnd p st = cleanup s"
    using fin_in_wait_2 [OF stream_reach_sound [OF assms(1)] assms(2-5)] by blast
  then show ?thesis by (simp add: cleanup_def rbuf_def tcp_read_def Let_def)
qed

definition reply_pkt :: "int TcpPacket" where
  "reply_pkt = (ack_pkt milli 501 104)\<lparr>tp_data := [7, 8]\<rparr>"

definition last_pkt :: "int TcpPacket" where
  "last_pkt = (ack_pkt milli 503 104)\<lparr>tp_hlen_flags := TCP_FIN_BIT OR TCP_ACK_BIT\<rparr>"

lemma reply_arrives: "recvPkt milli 50 0 (writePacket reply_pkt 1020) caller4 =
    caller4\<lparr>outDataNet := [7, 8], inAckno := 503, lastIncomingPkt := 50, outAcked := 104, ts_state := TCP_FIN_WAIT_2\<rparr>"
  by (simp add: demo_states run_stream reply_pkt_def)

theorem stream_refines_queues_witness:
  "rbuf (snd (snd (tcp_read 1 (recvPkt milli 50 0 (writePacket reply_pkt 1020) caller4)))) = [8]"
proof -
  let ?s = "recvPkt milli 50 0 (writePacket reply_pkt 1020) caller4"
  have r: "stream_reach milli ?s" by (intro recvPkt_reach demo_stream_reach)
  have b: "rbuf ?s = [7, 8]" unfolding reply_arrives by (simp add: demo_states rbuf_def)
  have "fst (tcp_read 1 ?s) \<noteq> -1"
    unfolding reply_arrives by (simp add: demo_states tcp_read_def int_read_pending_def)
  then show ?thesis using stream_refines_queues [OF r, of 1 "[]"] b by (auto split: prod.splits)
qed

theorem half_close_discards_unread_witness:
  "rbuf (recvPkt milli 50 0 (writePacket reply_pkt 1020) caller4) = [7, 8] \<and>
   rbuf (tcp_handleIncoming milli 60 0 last_pkt (recvPkt milli 50 0 (writePacket reply_pkt 1020) caller4)) = []"
proof -
  let ?s = "recvPkt milli 50 0 (writePacket reply_pkt 1020) caller4"
  have r: "stream_reach milli ?s" by (intro recvPkt_reach demo_stream_reach)
  have s: "ts_state ?s = TCP_FIN_WAIT_2" "inPkt ?s = []" "rbuf ?s = [7, 8]" "hasFin last_pkt" "tp_seqno last_pkt = inAckno ?s"
    unfolding reply_arrives by (simp_all add: demo_states rbuf_def last_pkt_def hasFin_def)
  show ?thesis using half_close_discards_unread [OF r s(1,2,4,5), of 60 0] s(3) by simp
qed

text \<open>C28. A side that has sent its FIN never sends it again, whatever datagrams come and whatever its application calls,
  so a FIN that is lost leaves the other side waiting.\<close>

theorem fin_is_never_repeated:
  assumes "acts_reach D p q" and "after_fin (pr_stream p)" and "\<forall>k\<in>set (outPkt (pr_stream p)). \<not> hasFin k"
    and "d \<in> set (drop (length (udp_sent (pr_stream p))) (udp_sent (pr_stream q)))"
  shows "\<not> fin_bit (fst d)"
proof -
  obtain Y where "udp_sent (pr_stream q) = udp_sent (pr_stream p) @ Y" "\<forall>d\<in>fst ` set Y. \<not> fin_bit d"
    using acts_reach_no_fin [OF assms(1-3)] by (auto simp: no_fin_since_def)
  then show ?thesis using assms(4) by simp
qed

lemma demo_repeat: "udp_sent (tcp_tick milli 5041 caller4) = udp_sent caller4 @ [(writePacket (data_pkt\<lparr>tp_ts := 31\<rparr>) 1020, 64)]"
  by (simp add: demo_states run_stream too_often_def restartRetransmitTimer_def stopRetransmitTimer_def incRetransmitTimeout_def)

theorem fin_is_never_repeated_witness: "fin_bit (writePacket fin_pkt 1020) \<and> \<not> fin_bit (writePacket (data_pkt\<lparr>tp_ts := 31\<rparr>) 1020)"
proof -
  let ?q = "peer_act milli 5041 0 Ev_tick demo_p"
  have q: "acts_reach milli demo_p ?q"
    using acts_begin by (rule acts_step) (simp add: demo_p_def demo_states)
  have a: "after_fin (pr_stream demo_p)" "\<forall>k\<in>set (outPkt (pr_stream demo_p)). \<not> hasFin k"
    by (simp_all add: demo_p_def after_fin_def demo_states hasFin_def)
  have "(writePacket (data_pkt\<lparr>tp_ts := 31\<rparr>) 1020, 64) \<in> set (drop (length (udp_sent (pr_stream demo_p))) (udp_sent (pr_stream ?q)))"
    by (simp add: demo_p_def demo_repeat)
  then have "\<not> fin_bit (writePacket (data_pkt\<lparr>tp_ts := 31\<rparr>) 1020)" using fin_is_never_repeated [OF q a] by fastforce
  then show ?thesis by (simp add: fin_bit_def writePacket_def take_drop_be fin_pkt_def ack_pkt_def syn_pkt_def)
qed

text \<open>How much \<^verbatim>\<open>send\<close> may send is the smaller window less the bytes in transit, except while the sequence number
  has wrapped and the acknowledged one has not: then one byte in transit is not counted.\<close>

theorem send_room_value:
  "unat (send_room st) = min (unat (outWinSize st)) (unat (congestWinSize st)) -
     (unat (outSeqno st - outAcked st) - (if outSeqno st < outAcked st then 1 else 0))"
proof -
  define t where "t = (if outSeqno st < outAcked st then (TCP_MAX_SEQ - outAcked st) + outSeqno st else outSeqno st - outAcked st)"
  have "TCP_MAX_SEQ - a + s = (s - a) - 1" for a s :: u32 by simp
  moreover have "unat (x - 1) = unat x - 1" if "x \<noteq> 0" for x :: u32 using that by (rule unat_minus_one)
  moreover have "outSeqno st - outAcked st \<noteq> 0" if "outSeqno st < outAcked st" using that by auto
  ultimately have t: "unat t = unat (outSeqno st - outAcked st) - (if outSeqno st < outAcked st then 1 else 0)"
    unfolding t_def by presburger
  have "unat (if m > x then m - x else 0) = unat m - unat x" for m x :: u32
    by (auto simp: unat_sub word_less_nat_alt word_le_nat_alt)
  then have "unat (send_room st) = unat (if outWinSize st < congestWinSize st then outWinSize st else congestWinSize st) - unat t"
    by (simp add: send_room_def t_def Let_def)
  then show ?thesis by (simp add: t min_def word_less_nat_alt)
qed

end
