(* ===== verification/Search_Expr.thy ===== *)
theory Search_Expr
  imports Tlv_Base
begin

text \<open>Search expressions (\<^verbatim>\<open>retroshare/rsexpr.h\<close>, \<^verbatim>\<open>util/rsexpr.cc\<close>): the tree a user builds, its evaluation on
  a file, its text, and the three vectors it is sent as. A peer rebuilds the tree from the vectors it
  has received. The operators are the numbers the enumerations name: \<^verbatim>\<open>toExpr\<close> casts whatever number
  the vectors hold, so every 32-bit value can occur. A number of type \<^verbatim>\<open>int\<close> is kept as its 32 bits and
  read with \<open>sint\<close>. A null pointer to a subexpression is \<open>None\<close>.\<close>

section \<open>Operators and tokens\<close>

abbreviation (input) AndOp :: u32 where "AndOp \<equiv> 0"
abbreviation (input) OrOp :: u32 where "OrOp \<equiv> 1"
abbreviation (input) XorOp :: u32 where "XorOp \<equiv> 2"

abbreviation (input) ContainsAnyStrings :: u32 where "ContainsAnyStrings \<equiv> 0"
abbreviation (input) ContainsAllStrings :: u32 where "ContainsAllStrings \<equiv> 1"
abbreviation (input) EqualsString :: u32 where "EqualsString \<equiv> 2"

abbreviation (input) EXPR_DATE :: u8 where "EXPR_DATE \<equiv> 0"
abbreviation (input) EXPR_POP :: u8 where "EXPR_POP \<equiv> 1"
abbreviation (input) EXPR_SIZE :: u8 where "EXPR_SIZE \<equiv> 2"
abbreviation (input) EXPR_HASH :: u8 where "EXPR_HASH \<equiv> 3"
abbreviation (input) EXPR_NAME :: u8 where "EXPR_NAME \<equiv> 4"
abbreviation (input) EXPR_PATH :: u8 where "EXPR_PATH \<equiv> 5"
abbreviation (input) EXPR_EXT :: u8 where "EXPR_EXT \<equiv> 6"
abbreviation (input) EXPR_COMP :: u8 where "EXPR_COMP \<equiv> 7"
abbreviation (input) EXPR_SIZE_MB :: u8 where "EXPR_SIZE_MB \<equiv> 8"

record LinearizedExpression =
  le_tokens :: "u8 list"
  le_ints :: "u32 list"
  le_strings :: "bytes list"

definition empty_linearized :: LinearizedExpression where
  "empty_linearized = \<lparr>le_tokens = [], le_ints = [], le_strings = []\<rparr>"

text \<open>What a file entry answers; the hash is the text \<^verbatim>\<open>toStdString\<close> gives.\<close>

record ExpFileEntry =
  file_name :: bytes
  file_size :: u64
  file_modtime :: rstime_t
  file_popularity :: u32
  file_parent_path :: bytes
  file_hash :: bytes

text \<open>The constructor of a hash expression sets \<^verbatim>\<open>IgnoreCase\<close> to true, so it has no field for it.\<close>

datatype Expression =
    DateExpression u32 u32 u32
  | PopExpression u32 u32 u32
  | SizeExpression u32 u32 u32
  | SizeExpressionMB u32 u32 u32
  | HashExpression u32 "bytes list"
  | NameExpression u32 "bytes list" bool
  | PathExpression u32 "bytes list" bool
  | ExtExpression u32 "bytes list" bool
  | CompoundExpression u32 "Expression option" "Expression option"

section \<open>Evaluation\<close>

definition evalRel :: "u32 \<Rightarrow> u32 \<Rightarrow> u32 \<Rightarrow> u32 \<Rightarrow> bool" where
  "evalRel op lower higher val =
     (if op = 0 then lower = val
      else if op = 1 then sint val \<le> sint lower
      else if op = 2 then sint val < sint lower
      else if op = 3 then sint lower \<le> sint val
      else if op = 4 then sint lower < sint val
      else if op = 5 then sint lower \<le> sint val \<and> sint val \<le> sint higher
      else False)"

text \<open>\<^verbatim>\<open>tolower\<close> in the C locale, which the library leaves set.\<close>

definition to_lower :: "u8 \<Rightarrow> u8" where
  "to_lower c = (if 0x41 \<le> c \<and> c \<le> 0x5a then c + 0x20 else c)"

definition CompareCharIC :: "u8 \<Rightarrow> u8 \<Rightarrow> bool" where
  "CompareCharIC a b = (to_lower a = to_lower b)"

text \<open>\<^verbatim>\<open>std::equal\<close> with three iterators, for ranges of which the second is at least as long, and the
  position \<^verbatim>\<open>std::search\<close> returns: the end of the text when there is no occurrence.\<close>

fun std_equal :: "(u8 \<Rightarrow> u8 \<Rightarrow> bool) \<Rightarrow> bytes \<Rightarrow> bytes \<Rightarrow> bool" where
  "std_equal P (x # xs) (y # ys) = (P x y \<and> std_equal P xs ys)"
| "std_equal P [] ys = True"
| "std_equal P (x # xs) [] = False"

fun std_search :: "(u8 \<Rightarrow> u8 \<Rightarrow> bool) \<Rightarrow> bytes \<Rightarrow> bytes \<Rightarrow> nat" where
  "std_search P [] pat = 0"
| "std_search P (x # xs) pat =
     (if std_equal (\<lambda>p c. P c p) pat (x # xs) then 0 else Suc (std_search P xs pat))"

definition StrEquals :: "bytes \<Rightarrow> bytes \<Rightarrow> bool \<Rightarrow> bool" where
  "StrEquals str1 str2 IgnoreCase =
     (if length str1 \<noteq> length str2 then False else std_equal (=) str1 str2)"

definition StrContains :: "bytes \<Rightarrow> bytes \<Rightarrow> bool \<Rightarrow> bool" where
  "StrContains str1 str2 IgnoreCase =
     (std_search (if IgnoreCase then CompareCharIC else (=)) str1 str2 \<noteq> length str1)"

definition evalStr :: "u32 \<Rightarrow> bytes list \<Rightarrow> bool \<Rightarrow> bytes \<Rightarrow> bool" where
  "evalStr op terms IgnoreCase str =
     (if op = ContainsAllStrings then list_all (\<lambda>t. StrContains str t IgnoreCase) terms
      else if op = ContainsAnyStrings then list_ex (\<lambda>t. StrContains str t IgnoreCase) terms
      else if op = EqualsString then list_ex (\<lambda>t. StrEquals str t IgnoreCase) terms
      else False)"

definition find_last_of :: "u8 \<Rightarrow> bytes \<Rightarrow> nat option" where
  "find_last_of c s = (case dropWhile (\<lambda>x. x \<noteq> c) (rev s) of [] \<Rightarrow> None | _ # before \<Rightarrow> Some (length before))"

definition cap_size :: "u64 \<Rightarrow> u32" where
  "cap_size n = ucast (min 0x7fffffff n)"

fun eval :: "ExpFileEntry \<Rightarrow> Expression \<Rightarrow> bool" where
  "eval file (DateExpression op lv hv) = evalRel op lv hv (word_of_int (file_modtime file))"
| "eval file (PopExpression op lv hv) = evalRel op lv hv (file_popularity file)"
| "eval file (SizeExpression op lv hv) = evalRel op lv hv (cap_size (file_size file))"
| "eval file (SizeExpressionMB op lv hv) = evalRel op lv hv (ucast (drop_bit 20 (file_size file)))"
| "eval file (HashExpression op terms) = evalStr op terms True (file_hash file)"
| "eval file (NameExpression op terms ic) = evalStr op terms ic (file_name file)"
| "eval file (PathExpression op terms ic) = evalStr op terms ic (file_parent_path file)"
| "eval file (ExtExpression op terms ic) =
     (case find_last_of 0x2e (file_name file) of
        None \<Rightarrow> False
      | Some index \<Rightarrow>
          (let ext = drop (Suc index) (file_name file) in
           if ext \<noteq> [] then evalStr op terms ic ext else False))"
| "eval file (CompoundExpression op (Some l) (Some r)) =
     (if op = AndOp then eval file l \<and> eval file r
      else if op = OrOp then eval file l \<or> eval file r
      else if op = XorOp then eval file l \<noteq> eval file r
      else False)"
| "eval file (CompoundExpression op l r) = False"

section \<open>Text\<close>

fun decimal :: "nat \<Rightarrow> bytes" where
  "decimal n = (if n < 10 then [0x30 + word_of_nat n] else decimal (n div 10) @ [0x30 + word_of_nat (n mod 10)])"

declare decimal.simps [simp del]

text \<open>The bound of a relation is an \<^verbatim>\<open>int\<close> that is passed to a function of a 64-bit unsigned number.\<close>

definition NumberToString :: "u32 \<Rightarrow> bytes" where
  "NumberToString v = decimal (unat (scast v :: u64))"

definition rel_toStdStringWithParam :: "bytes \<Rightarrow> u32 \<Rightarrow> u32 \<Rightarrow> u32 \<Rightarrow> bytes" where
  "rel_toStdStringWithParam typestr op lower higher =
     (let l = NumberToString lower in
      if op = 0 then typestr @ ascii '' = '' @ l
      else if op = 1 then typestr @ ascii '' <= '' @ l
      else if op = 2 then typestr @ ascii '' < '' @ l
      else if op = 3 then typestr @ ascii '' >= '' @ l
      else if op = 4 then typestr @ ascii '' > '' @ l
      else if op = 5 then l @ ascii '' <= '' @ typestr @ ascii '' <= '' @ NumberToString higher
      else [])"

definition str_toStdStringWithParam :: "bytes \<Rightarrow> u32 \<Rightarrow> bytes list \<Rightarrow> bytes" where
  "str_toStdStringWithParam varstr op terms =
     (let strlist = concat (map (\<lambda>t. t @ [0x20]) terms);
          strlist = (if strlist \<noteq> [] then take (length strlist - 1) strlist else strlist)
      in if op = ContainsAllStrings then varstr @ ascii '' CONTAINS ALL '' @ strlist
         else if op = ContainsAnyStrings
         then (if length terms = 1 then varstr @ ascii '' CONTAINS '' @ strlist
               else varstr @ ascii '' CONTAINS ONE OF '' @ strlist)
         else if op = EqualsString
         then (if length terms = 1 then varstr @ ascii '' IS '' @ strlist
               else varstr @ ascii '' IS ONE OF '' @ strlist)
         else [])"

text \<open>The text of a compound expression calls both subexpressions, whose pointers may be null: \<open>None\<close>
  is a null pointer that is used.\<close>

definition join_text :: "string \<Rightarrow> bytes \<Rightarrow> bytes \<Rightarrow> bytes" where
  "join_text op l r = ascii ''('' @ l @ ascii '') '' @ ascii op @ ascii '' ('' @ r @ ascii '')''"

fun toStdString :: "Expression \<Rightarrow> bytes option" where
  "toStdString (DateExpression op lv hv) = Some (rel_toStdStringWithParam (ascii ''DATE'') op lv hv)"
| "toStdString (PopExpression op lv hv) = Some (rel_toStdStringWithParam (ascii ''POPULARITY'') op lv hv)"
| "toStdString (SizeExpression op lv hv) = Some (rel_toStdStringWithParam (ascii ''SIZE'') op lv hv)"
| "toStdString (SizeExpressionMB op lv hv) = Some (rel_toStdStringWithParam (ascii ''SIZE'') op lv hv)"
| "toStdString (HashExpression op terms) = Some (str_toStdStringWithParam (ascii ''HASH'') op terms)"
| "toStdString (NameExpression op terms ic) = Some (str_toStdStringWithParam (ascii ''NAME'') op terms)"
| "toStdString (PathExpression op terms ic) = Some (str_toStdStringWithParam (ascii ''PATH'') op terms)"
| "toStdString (ExtExpression op terms ic) = Some (str_toStdStringWithParam (ascii ''EXTENSION'') op terms)"
| "toStdString (CompoundExpression op (Some l) (Some r)) =
     (if op = AndOp \<or> op = OrOp \<or> op = XorOp
      then (case toStdString l of
              None \<Rightarrow> None
            | Some ls \<Rightarrow>
                (case toStdString r of
                   None \<Rightarrow> None
                 | Some rs \<Rightarrow>
                     Some (join_text (if op = AndOp then ''AND'' else if op = OrOp then ''OR'' else ''XOR'') ls rs)))
      else Some [])"
| "toStdString (CompoundExpression op l r) =
     (if op = AndOp \<or> op = OrOp \<or> op = XorOp then None else Some [])"

section \<open>The vectors\<close>

definition push_token :: "u8 \<Rightarrow> LinearizedExpression \<Rightarrow> LinearizedExpression" where
  "push_token t e = e\<lparr>le_tokens := le_tokens e @ [t]\<rparr>"

definition push_int :: "u32 \<Rightarrow> LinearizedExpression \<Rightarrow> LinearizedExpression" where
  "push_int v e = e\<lparr>le_ints := le_ints e @ [v]\<rparr>"

definition push_string :: "bytes \<Rightarrow> LinearizedExpression \<Rightarrow> LinearizedExpression" where
  "push_string s e = e\<lparr>le_strings := le_strings e @ [s]\<rparr>"

definition rel_linearize :: "u8 \<Rightarrow> u32 \<Rightarrow> u32 \<Rightarrow> u32 \<Rightarrow> LinearizedExpression \<Rightarrow> LinearizedExpression" where
  "rel_linearize tok op lower higher e =
     push_int higher (push_int lower (push_int op (push_token tok e)))"

definition str_linearize :: "u8 \<Rightarrow> u32 \<Rightarrow> bytes list \<Rightarrow> bool \<Rightarrow> LinearizedExpression \<Rightarrow> LinearizedExpression" where
  "str_linearize tok op terms ic e =
     fold push_string terms
       (push_int (word_of_nat (length terms)) (push_int (if ic then 1 else 0) (push_int op (push_token tok e))))"

fun linearize :: "Expression \<Rightarrow> LinearizedExpression \<Rightarrow> LinearizedExpression option" where
  "linearize (DateExpression op lv hv) e = Some (rel_linearize EXPR_DATE op lv hv e)"
| "linearize (PopExpression op lv hv) e = Some (rel_linearize EXPR_POP op lv hv e)"
| "linearize (SizeExpression op lv hv) e = Some (rel_linearize EXPR_SIZE op lv hv e)"
| "linearize (SizeExpressionMB op lv hv) e = Some (rel_linearize EXPR_SIZE_MB op lv hv e)"
| "linearize (HashExpression op terms) e = Some (str_linearize EXPR_HASH op terms True e)"
| "linearize (NameExpression op terms ic) e = Some (str_linearize EXPR_NAME op terms ic e)"
| "linearize (PathExpression op terms ic) e = Some (str_linearize EXPR_PATH op terms ic e)"
| "linearize (ExtExpression op terms ic) e = Some (str_linearize EXPR_EXT op terms ic e)"
| "linearize (CompoundExpression op (Some l) (Some r)) e =
     (case linearize l (push_int op (push_token EXPR_COMP e)) of
        None \<Rightarrow> None
      | Some e1 \<Rightarrow> linearize r e1)"
| "linearize (CompoundExpression op l r) e = None"

section \<open>Rebuilding the tree\<close>

text \<open>\<^verbatim>\<open>toExpr\<close> keeps one position for each vector and indexes the vectors without a check: \<open>Fault\<close> is a
  read outside a vector. \<open>Deep\<close> is a call nested deeper than the given depth. The tree is \<open>None\<close> when the
  code returns a null pointer.\<close>

datatype 'a reading = Deep | Fault | Done 'a

record cursor =
  n_tok :: nat
  n_ints :: nat
  n_strings :: nat

definition vec_at :: "'a list \<Rightarrow> nat \<Rightarrow> 'a option" where
  "vec_at xs i = (if i < length xs then Some (xs ! i) else None)"

definition read_token :: "LinearizedExpression \<Rightarrow> cursor \<Rightarrow> (u8 \<times> cursor) reading" where
  "read_token e c =
     (case vec_at (le_tokens e) (n_tok c) of
        None \<Rightarrow> Fault | Some t \<Rightarrow> Done (t, c\<lparr>n_tok := Suc (n_tok c)\<rparr>))"

definition read_int :: "LinearizedExpression \<Rightarrow> cursor \<Rightarrow> (u32 \<times> cursor) reading" where
  "read_int e c =
     (case vec_at (le_ints e) (n_ints c) of
        None \<Rightarrow> Fault | Some v \<Rightarrow> Done (v, c\<lparr>n_ints := Suc (n_ints c)\<rparr>))"

fun read_strings :: "nat \<Rightarrow> LinearizedExpression \<Rightarrow> cursor \<Rightarrow> (bytes list \<times> cursor) reading" where
  "read_strings 0 e c = Done ([], c)"
| "read_strings (Suc n) e c =
     (case vec_at (le_strings e) (n_strings c) of
        None \<Rightarrow> Fault
      | Some s \<Rightarrow>
          (case read_strings n e (c\<lparr>n_strings := Suc (n_strings c)\<rparr>) of
             Done (ss, c') \<Rightarrow> Done (s # ss, c')
           | Fault \<Rightarrow> Fault
           | Deep \<Rightarrow> Deep))"

definition then_read :: "'a reading \<Rightarrow> ('a \<Rightarrow> 'b reading) \<Rightarrow> 'b reading" where
  "then_read m f = (case m of Deep \<Rightarrow> Deep | Fault \<Rightarrow> Fault | Done x \<Rightarrow> f x)"

definition read_rel ::
    "(u32 \<Rightarrow> u32 \<Rightarrow> u32 \<Rightarrow> Expression) \<Rightarrow> LinearizedExpression \<Rightarrow> cursor \<Rightarrow> (Expression option \<times> cursor) reading" where
  "read_rel mk e c =
     then_read (read_int e c) (\<lambda>(op, c1).
     then_read (read_int e c1) (\<lambda>(lv, c2).
     then_read (read_int e c2) (\<lambda>(hv, c3). Done (Some (mk op lv hv), c3))))"

text \<open>The number of strings is read into an \<^verbatim>\<open>int\<close>: the loop does not run for a negative one.\<close>

definition readStringExpr ::
    "LinearizedExpression \<Rightarrow> cursor \<Rightarrow> ((u32 \<times> bytes list \<times> bool) \<times> cursor) reading" where
  "readStringExpr e c =
     then_read (read_int e c) (\<lambda>(op, c1).
     then_read (read_int e c1) (\<lambda>(b, c2).
     then_read (read_int e c2) (\<lambda>(n, c3).
     then_read (read_strings (nat (sint n)) e c3) (\<lambda>(ss, c4). Done ((op, ss, b \<noteq> 0), c4)))))"

definition read_str ::
    "(u32 \<Rightarrow> bytes list \<Rightarrow> bool \<Rightarrow> Expression) \<Rightarrow> LinearizedExpression \<Rightarrow> cursor \<Rightarrow> (Expression option \<times> cursor) reading" where
  "read_str mk e c =
     then_read (readStringExpr e c) (\<lambda>((op, ss, b), c1). Done (Some (mk op ss b), c1))"

fun toExpr_from :: "nat \<Rightarrow> LinearizedExpression \<Rightarrow> cursor \<Rightarrow> (Expression option \<times> cursor) reading" where
  "toExpr_from 0 e c = Deep"
| "toExpr_from (Suc depth) e c =
     then_read (read_token e c) (\<lambda>(tok, c1).
       if tok = EXPR_DATE then read_rel DateExpression e c1
       else if tok = EXPR_POP then read_rel PopExpression e c1
       else if tok = EXPR_SIZE then read_rel SizeExpression e c1
       else if tok = EXPR_HASH then read_str (\<lambda>op ss b. HashExpression op ss) e c1
       else if tok = EXPR_NAME then read_str NameExpression e c1
       else if tok = EXPR_PATH then read_str ExtExpression e c1
       else if tok = EXPR_EXT then read_str ExtExpression e c1
       else if tok = EXPR_COMP then
         then_read (read_int e c1) (\<lambda>(op, c2).
         then_read (toExpr_from depth e c2) (\<lambda>(e1, c3).
         then_read (toExpr_from depth e c3) (\<lambda>(e2, c4). Done (Some (CompoundExpression op e1 e2), c4))))
       else if tok = EXPR_SIZE_MB then read_rel SizeExpressionMB e c1
       else Done (None, c1))"

declare toExpr_from.simps(2) [simp del]

definition start_cursor :: cursor where
  "start_cursor = \<lparr>n_tok = 0, n_ints = 0, n_strings = 0\<rparr>"

definition toExpr :: "nat \<Rightarrow> LinearizedExpression \<Rightarrow> Expression option reading" where
  "toExpr depth e = then_read (toExpr_from depth e start_cursor) (\<lambda>(x, c). Done x)"

definition GetStrings :: "LinearizedExpression \<Rightarrow> bytes" where
  "GetStrings e = concat (map (\<lambda>s. s @ [0x20]) (le_strings e))"

end
