(* ===== verification/Search_Read.thy ===== *)
theory Search_Read
  imports Search_Expr
begin

text \<open>What \<^verbatim>\<open>toExpr\<close> makes of the vectors of \<^verbatim>\<open>linearize\<close>, of vectors cut short, and of any vectors; how deep
  its calls nest.\<close>

section \<open>The vectors of a tree\<close>

text \<open>A tree without null pointers and with lists of terms whose length is an \<^verbatim>\<open>int\<close>.\<close>

fun whole :: "Expression \<Rightarrow> bool" where
  "whole (CompoundExpression op (Some l) (Some r)) = (whole l \<and> whole r)"
| "whole (CompoundExpression op l r) = False"
| "whole (HashExpression op terms) = (length terms < 2 ^ 31)"
| "whole (NameExpression op terms ic) = (length terms < 2 ^ 31)"
| "whole (PathExpression op terms ic) = (length terms < 2 ^ 31)"
| "whole (ExtExpression op terms ic) = (length terms < 2 ^ 31)"
| "whole (DateExpression op lv hv) = True"
| "whole (PopExpression op lv hv) = True"
| "whole (SizeExpression op lv hv) = True"
| "whole (SizeExpressionMB op lv hv) = True"

text \<open>The tree that arrives: a path expression comes back as an extension expression.\<close>

fun restored :: "Expression \<Rightarrow> Expression" where
  "restored (CompoundExpression op l r) = CompoundExpression op (map_option restored l) (map_option restored r)"
| "restored (PathExpression op terms ic) = ExtExpression op terms ic"
| "restored x = x"

fun has_path :: "Expression \<Rightarrow> bool" where
  "has_path (CompoundExpression op (Some l) (Some r)) = (has_path l \<or> has_path r)"
| "has_path (PathExpression op terms ic) = True"
| "has_path x = False"

fun nesting :: "Expression \<Rightarrow> nat" where
  "nesting (CompoundExpression op (Some l) (Some r)) = Suc (max (nesting l) (nesting r))"
| "nesting x = 1"

fun tokens_of :: "Expression \<Rightarrow> u8 list" where
  "tokens_of (DateExpression op lv hv) = [EXPR_DATE]"
| "tokens_of (PopExpression op lv hv) = [EXPR_POP]"
| "tokens_of (SizeExpression op lv hv) = [EXPR_SIZE]"
| "tokens_of (SizeExpressionMB op lv hv) = [EXPR_SIZE_MB]"
| "tokens_of (HashExpression op terms) = [EXPR_HASH]"
| "tokens_of (NameExpression op terms ic) = [EXPR_NAME]"
| "tokens_of (PathExpression op terms ic) = [EXPR_PATH]"
| "tokens_of (ExtExpression op terms ic) = [EXPR_EXT]"
| "tokens_of (CompoundExpression op (Some l) (Some r)) = EXPR_COMP # tokens_of l @ tokens_of r"
| "tokens_of (CompoundExpression op l r) = []"

definition str_ints :: "u32 \<Rightarrow> bytes list \<Rightarrow> bool \<Rightarrow> u32 list" where
  "str_ints op terms ic = [op, if ic then 1 else 0, word_of_nat (length terms)]"

fun ints_of :: "Expression \<Rightarrow> u32 list" where
  "ints_of (DateExpression op lv hv) = [op, lv, hv]"
| "ints_of (PopExpression op lv hv) = [op, lv, hv]"
| "ints_of (SizeExpression op lv hv) = [op, lv, hv]"
| "ints_of (SizeExpressionMB op lv hv) = [op, lv, hv]"
| "ints_of (HashExpression op terms) = str_ints op terms True"
| "ints_of (NameExpression op terms ic) = str_ints op terms ic"
| "ints_of (PathExpression op terms ic) = str_ints op terms ic"
| "ints_of (ExtExpression op terms ic) = str_ints op terms ic"
| "ints_of (CompoundExpression op (Some l) (Some r)) = op # ints_of l @ ints_of r"
| "ints_of (CompoundExpression op l r) = []"

fun strings_of :: "Expression \<Rightarrow> bytes list" where
  "strings_of (HashExpression op terms) = terms"
| "strings_of (NameExpression op terms ic) = terms"
| "strings_of (PathExpression op terms ic) = terms"
| "strings_of (ExtExpression op terms ic) = terms"
| "strings_of (CompoundExpression op (Some l) (Some r)) = strings_of l @ strings_of r"
| "strings_of x = []"

lemma fold_push_string:
  "fold push_string ss e = e\<lparr>le_strings := le_strings e @ ss\<rparr>"
  by (induction ss arbitrary: e) (simp_all add: push_string_def)

lemmas push_defs = rel_linearize_def str_linearize_def push_token_def push_int_def fold_push_string str_ints_def

lemma linearize_appends:
  "whole x \<Longrightarrow> linearize x e = Some (e\<lparr>le_tokens := le_tokens e @ tokens_of x, le_ints := le_ints e @ ints_of x,
     le_strings := le_strings e @ strings_of x\<rparr>)"
  by (induction x arbitrary: e rule: whole.induct) (simp_all add: push_defs)

definition vectors_of :: "Expression \<Rightarrow> LinearizedExpression" where
  "vectors_of x = \<lparr>le_tokens = tokens_of x, le_ints = ints_of x, le_strings = strings_of x\<rparr>"

lemma linearize_whole: "whole x \<Longrightarrow> linearize x empty_linearized = Some (vectors_of x)"
  by (simp add: linearize_appends empty_linearized_def vectors_of_def)

lemma restored_no_path: "whole x \<Longrightarrow> \<not> has_path x \<Longrightarrow> restored x = x"
  by (induction x rule: whole.induct) simp_all

lemma whole_restored: "whole x \<Longrightarrow> whole (restored x)"
  by (induction x rule: whole.induct) simp_all

lemma nesting_le_tokens: "whole x \<Longrightarrow> nesting x \<le> length (tokens_of x)"
  by (induction x rule: whole.induct) auto

section \<open>Reading\<close>

lemma then_read_simps [simp]:
  "then_read Deep f = Deep" "then_read Fault f = Fault" "then_read (Done x) f = f x"
  by (simp_all add: then_read_def)

lemma then_read_DoneE:
  assumes "then_read m f = Done y"
  obtains x where "m = Done x" "f x = Done y"
  using assms by (cases m) auto

text \<open>What lies ahead of the positions.\<close>

definition ahead :: "LinearizedExpression \<Rightarrow> cursor \<Rightarrow> u8 list \<Rightarrow> u32 list \<Rightarrow> bytes list \<Rightarrow> bool" where
  "ahead e c ts vs ss =
     (drop (n_tok c) (le_tokens e) = ts \<and> drop (n_ints c) (le_ints e) = vs \<and> drop (n_strings c) (le_strings e) = ss)"

lemma vec_at_drop: "vec_at xs i = (case drop i xs of [] \<Rightarrow> None | y # ys \<Rightarrow> Some y)"
  by (auto simp: vec_at_def Cons_nth_drop_Suc [symmetric])

lemma drop_Suc_tl: "drop i xs = y # ys \<Longrightarrow> drop (Suc i) xs = ys"
  by (metis drop_Suc tl_drop list.sel(3))

lemma read_token_ahead:
  "ahead e c (t # ts) vs ss \<Longrightarrow> \<exists>c'. read_token e c = Done (t, c') \<and> ahead e c' ts vs ss"
  by (auto simp: ahead_def read_token_def vec_at_drop dest: drop_Suc_tl)

lemma read_int_ahead:
  "ahead e c ts (v # vs) ss \<Longrightarrow> \<exists>c'. read_int e c = Done (v, c') \<and> ahead e c' ts vs ss"
  by (auto simp: ahead_def read_int_def vec_at_drop dest: drop_Suc_tl)

lemma read_strings_ahead:
  "ahead e c ts vs (terms @ ss) \<Longrightarrow>
   \<exists>c'. read_strings (length terms) e c = Done (terms, c') \<and> ahead e c' ts vs ss"
proof (induction terms arbitrary: c)
  case (Cons t terms)
  then have v: "vec_at (le_strings e) (n_strings c) = Some t"
    by (simp add: ahead_def vec_at_drop)
  have "ahead e (c\<lparr>n_strings := Suc (n_strings c)\<rparr>) ts vs (terms @ ss)"
    using Cons.prems by (auto simp: ahead_def dest: drop_Suc_tl)
  from Cons.IH [OF this] obtain c' where
    "read_strings (length terms) e (c\<lparr>n_strings := Suc (n_strings c)\<rparr>) = Done (terms, c')" "ahead e c' ts vs ss"
    by blast
  then show ?case using v by simp
qed simp

lemma read_rel_ahead:
  assumes "ahead e c ts (op # lv # hv # vs) ss"
  shows "\<exists>c'. read_rel mk e c = Done (Some (mk op lv hv), c') \<and> ahead e c' ts vs ss"
proof -
  from read_int_ahead [OF assms] obtain c1 where
    1: "read_int e c = Done (op, c1)" "ahead e c1 ts (lv # hv # vs) ss" by blast
  from read_int_ahead [OF 1(2)] obtain c2 where
    2: "read_int e c1 = Done (lv, c2)" "ahead e c2 ts (hv # vs) ss" by blast
  from read_int_ahead [OF 2(2)] obtain c3 where
    3: "read_int e c2 = Done (hv, c3)" "ahead e c3 ts vs ss" by blast
  then show ?thesis using 1 2 by (simp add: read_rel_def)
qed

lemma sint_count: "n < 2147483648 \<Longrightarrow> nat (sint (word_of_nat n :: u32)) = n"
  by (simp add: signed_of_nat signed_take_bit_int_eq_self)

lemma read_str_ahead:
  assumes "ahead e c ts (str_ints op terms ic @ vs) (terms @ ss)" and "length terms < 2147483648"
  shows "\<exists>c'. read_str mk e c = Done (Some (mk op terms ic), c') \<and> ahead e c' ts vs ss"
proof -
  from assms(1) have "ahead e c ts (op # (if ic then 1 else 0) # word_of_nat (length terms) # vs) (terms @ ss)"
    by (simp add: str_ints_def)
  from read_int_ahead [OF this] obtain c1 where
    1: "read_int e c = Done (op, c1)"
       "ahead e c1 ts ((if ic then 1 else 0) # word_of_nat (length terms) # vs) (terms @ ss)" by blast
  from read_int_ahead [OF 1(2)] obtain c2 where
    2: "read_int e c1 = Done (if ic then 1 else 0, c2)"
       "ahead e c2 ts (word_of_nat (length terms) # vs) (terms @ ss)" by blast
  from read_int_ahead [OF 2(2)] obtain c3 where
    3: "read_int e c2 = Done (word_of_nat (length terms), c3)" "ahead e c3 ts vs (terms @ ss)" by blast
  from read_strings_ahead [OF 3(2)] obtain c4 where
    4: "read_strings (length terms) e c3 = Done (terms, c4)" "ahead e c4 ts vs ss" by blast
  show ?thesis
    using 1(1) 2(1) 3(1) 4 sint_count [OF assms(2)] by (simp add: read_str_def readStringExpr_def)
qed

text \<open>Enough depth, and the vectors of a tree ahead: the tree is rebuilt and the rest stays ahead.\<close>

lemma toExpr_ahead:
  "whole x \<Longrightarrow> nesting x \<le> d \<Longrightarrow> ahead e c (tokens_of x @ ts) (ints_of x @ vs) (strings_of x @ ss) \<Longrightarrow>
   \<exists>c'. toExpr_from d e c = Done (Some (restored x), c') \<and> ahead e c' ts vs ss"
proof (induction x arbitrary: d c ts vs ss rule: whole.induct)
  case (1 op l r)
  from 1(4) obtain d' where d: "d = Suc d'" "nesting l \<le> d'" "nesting r \<le> d'" by (cases d) auto
  from 1(5) have "ahead e c (EXPR_COMP # tokens_of l @ tokens_of r @ ts) (op # ints_of l @ ints_of r @ vs)
      (strings_of l @ strings_of r @ ss)" by simp
  from read_token_ahead [OF this] obtain c1 where
    1: "read_token e c = Done (EXPR_COMP, c1)"
       "ahead e c1 (tokens_of l @ tokens_of r @ ts) (op # ints_of l @ ints_of r @ vs) (strings_of l @ strings_of r @ ss)"
    by blast
  from read_int_ahead [OF 1(2)] obtain c2 where
    2: "read_int e c1 = Done (op, c2)"
       "ahead e c2 (tokens_of l @ tokens_of r @ ts) (ints_of l @ ints_of r @ vs) (strings_of l @ strings_of r @ ss)"
    by blast
  from "1.IH"(1) [OF _ d(2) 2(2)] "1.prems"(1) obtain c3 where
    3: "toExpr_from d' e c2 = Done (Some (restored l), c3)"
       "ahead e c3 (tokens_of r @ ts) (ints_of r @ vs) (strings_of r @ ss)"
    by auto
  from "1.IH"(2) [OF _ d(3) 3(2)] "1.prems"(1) obtain c4 where
    4: "toExpr_from d' e c3 = Done (Some (restored r), c4)" "ahead e c4 ts vs ss"
    by auto
  show ?case using 1(1) 2(1) 3(1) 4 by (simp add: d toExpr_from.simps(2))
next
  case (3 op terms)
  then show ?case
    by (cases d) (auto simp: toExpr_from.simps(2)
      dest!: read_token_ahead read_str_ahead [rotated, where mk = "\<lambda>op ss b. HashExpression op ss"])
next
  case (4 op terms ic)
  then show ?case
    by (cases d) (auto simp: toExpr_from.simps(2) dest!: read_token_ahead read_str_ahead [rotated])
next
  case (5 op terms ic)
  then show ?case
    by (cases d) (auto simp: toExpr_from.simps(2) dest!: read_token_ahead read_str_ahead [rotated])
next
  case (6 op terms ic)
  then show ?case
    by (cases d) (auto simp: toExpr_from.simps(2) dest!: read_token_ahead read_str_ahead [rotated])
next
  case (7 op lv hv)
  then show ?case
    by (cases d) (auto simp: toExpr_from.simps(2) dest!: read_token_ahead intro!: read_rel_ahead)
next
  case (8 op lv hv)
  then show ?case
    by (cases d) (auto simp: toExpr_from.simps(2) dest!: read_token_ahead intro!: read_rel_ahead)
next
  case (9 op lv hv)
  then show ?case
    by (cases d) (auto simp: toExpr_from.simps(2) dest!: read_token_ahead intro!: read_rel_ahead)
next
  case (10 op lv hv)
  then show ?case
    by (cases d) (auto simp: toExpr_from.simps(2) dest!: read_token_ahead intro!: read_rel_ahead)
qed simp_all

section \<open>Vectors cut short\<close>

definition within :: "LinearizedExpression \<Rightarrow> cursor \<Rightarrow> bool" where
  "within e c = (n_tok c \<le> length (le_tokens e) \<and> n_ints c \<le> length (le_ints e) \<and>
                 n_strings c \<le> length (le_strings e))"

definition cut_of :: "LinearizedExpression \<Rightarrow> LinearizedExpression \<Rightarrow> bool" where
  "cut_of e' e = (prefix (le_tokens e') (le_tokens e) \<and> prefix (le_ints e') (le_ints e) \<and>
                  prefix (le_strings e') (le_strings e))"

definition not_before :: "cursor \<Rightarrow> cursor \<Rightarrow> bool" where
  "not_before c c' = (n_tok c \<le> n_tok c' \<and> n_ints c \<le> n_ints c' \<and> n_strings c \<le> n_strings c')"

lemma not_before_refl [simp]: "not_before c c"
  by (simp add: not_before_def)

lemma not_before_trans: "not_before a b \<Longrightarrow> not_before b c \<Longrightarrow> not_before a c"
  by (simp add: not_before_def)

lemma within_before: "within e c' \<Longrightarrow> not_before c c' \<Longrightarrow> within e c"
  by (simp add: within_def not_before_def)

text \<open>A read \<open>m\<close> of the whole vectors that succeeds moves the positions forward, and the same read \<open>m'\<close>
  of the cut vectors gives the same while it stays within them and is a fault otherwise.\<close>

definition follows :: "LinearizedExpression \<Rightarrow> cursor \<Rightarrow> ('a \<times> cursor) reading \<Rightarrow> ('a \<times> cursor) reading \<Rightarrow> bool" where
  "follows e' c m m' =
     (\<forall>x c'. m = Done (x, c') \<longrightarrow>
        not_before c c' \<and> (within e' c \<longrightarrow> m' = (if within e' c' then Done (x, c') else Fault)))"

lemma follows_then:
  assumes m: "follows e' c m m'"
    and f: "\<And>x c1. m = Done (x, c1) \<Longrightarrow> follows e' c1 (f (x, c1)) (g (x, c1))"
  shows "follows e' c (then_read m f) (then_read m' g)"
  unfolding follows_def
proof (intro allI impI)
  fix y c2
  assume "then_read m f = Done (y, c2)"
  then obtain x c1 where 1: "m = Done (x, c1)" and 2: "f (x, c1) = Done (y, c2)"
    by (auto elim: then_read_DoneE)
  have nb: "not_before c c1" and m': "within e' c \<Longrightarrow> m' = (if within e' c1 then Done (x, c1) else Fault)"
    using m 1 by (auto simp: follows_def)
  have nb2: "not_before c1 c2" and g: "within e' c1 \<Longrightarrow> g (x, c1) = (if within e' c2 then Done (y, c2) else Fault)"
    using f [OF 1] 2 by (auto simp: follows_def)
  show "not_before c c2 \<and> (within e' c \<longrightarrow> then_read m' g = (if within e' c2 then Done (y, c2) else Fault))"
    using not_before_trans [OF nb nb2] m' g within_before [OF _ nb2, of e'] by auto
qed

lemma follows_Done [simp]: "follows e' c (Done (x, c)) (Done (x, c))"
  by (simp add: follows_def)

lemma follows_Fault [simp]: "follows e' c Fault m" "follows e' c Deep m"
  by (simp_all add: follows_def)

lemma vec_at_prefix:
  "prefix ys xs \<Longrightarrow> vec_at xs i = Some v \<Longrightarrow> vec_at ys i = (if i < length ys then Some v else None)"
  by (auto simp: vec_at_def prefix_def nth_append split: if_splits)

lemma read_token_follows: "cut_of e' e \<Longrightarrow> follows e' c (read_token e c) (read_token e' c)"
  by (auto simp: follows_def read_token_def cut_of_def not_before_def within_def
    dest: vec_at_prefix split: option.splits)

lemma read_int_follows: "cut_of e' e \<Longrightarrow> follows e' c (read_int e c) (read_int e' c)"
  by (auto simp: follows_def read_int_def cut_of_def not_before_def within_def
    dest: vec_at_prefix split: option.splits)

lemma read_strings_eq:
  "read_strings (Suc n) e c =
     then_read (case vec_at (le_strings e) (n_strings c) of None \<Rightarrow> Fault
       | Some s \<Rightarrow> Done (s, c\<lparr>n_strings := Suc (n_strings c)\<rparr>))
     (\<lambda>(s, c1). then_read (read_strings n e c1) (\<lambda>(ss, c2). Done (s # ss, c2)))"
  by (auto simp: then_read_def split: option.splits reading.splits)

lemma read_strings_follows: "cut_of e' e \<Longrightarrow> follows e' c (read_strings n e c) (read_strings n e' c)"
proof (induction n arbitrary: c)
  case (Suc n)
  show ?case
    unfolding read_strings_eq
  proof (rule follows_then)
    show "follows e' c (case vec_at (le_strings e) (n_strings c) of None \<Rightarrow> Fault
          | Some s \<Rightarrow> Done (s, c\<lparr>n_strings := Suc (n_strings c)\<rparr>))
        (case vec_at (le_strings e') (n_strings c) of None \<Rightarrow> Fault
          | Some s \<Rightarrow> Done (s, c\<lparr>n_strings := Suc (n_strings c)\<rparr>))"
      using Suc.prems
      by (auto simp: follows_def cut_of_def not_before_def within_def dest: vec_at_prefix split: option.splits)
  qed (auto intro!: follows_then Suc)
qed simp

lemma read_rel_follows: "cut_of e' e \<Longrightarrow> follows e' c (read_rel mk e c) (read_rel mk e' c)"
  unfolding read_rel_def by (auto intro!: follows_then read_int_follows)

lemma read_str_follows: "cut_of e' e \<Longrightarrow> follows e' c (read_str mk e c) (read_str mk e' c)"
  unfolding read_str_def readStringExpr_def
  by (auto intro!: follows_then read_int_follows read_strings_follows)

lemma toExpr_follows: "cut_of e' e \<Longrightarrow> follows e' c (toExpr_from d e c) (toExpr_from d e' c)"
proof (induction d arbitrary: c)
  case (Suc d)
  note step = read_rel_follows [OF Suc.prems] read_str_follows [OF Suc.prems] read_int_follows [OF Suc.prems]
    Suc.IH [OF Suc.prems]
  show ?case
    unfolding toExpr_from.simps(2)
    by (rule follows_then [OF read_token_follows [OF Suc.prems]]) (auto intro!: follows_then step)
qed simp

lemma start_within [simp]: "within e start_cursor"
  by (simp add: within_def start_cursor_def)

lemma ahead_start: "ahead (vectors_of x) start_cursor (tokens_of x) (ints_of x) (strings_of x)"
  by (simp add: ahead_def vectors_of_def start_cursor_def)

lemma toExpr_vectors:
  assumes "whole x" "nesting x \<le> d"
  obtains c where "toExpr_from d (vectors_of x) start_cursor = Done (Some (restored x), c)"
    "ahead (vectors_of x) c [] [] []"
  using toExpr_ahead [OF assms, of "vectors_of x" start_cursor "[]" "[]" "[]"] ahead_start [of x] by auto

lemma toExpr_cut:
  assumes "whole x" "nesting x \<le> d" "cut_of e' (vectors_of x)" "e' \<noteq> vectors_of x"
  shows "toExpr d e' = Fault"
proof -
  obtain c where c: "toExpr_from d (vectors_of x) start_cursor = Done (Some (restored x), c)"
    "ahead (vectors_of x) c [] [] []" using toExpr_vectors [OF assms(1,2)] .
  have "\<not> within e' c"
  proof
    assume "within e' c"
    then have "length (le_tokens (vectors_of x)) \<le> length (le_tokens e')"
        "length (le_ints (vectors_of x)) \<le> length (le_ints e')"
        "length (le_strings (vectors_of x)) \<le> length (le_strings e')"
      using c(2) by (auto simp: within_def ahead_def)
    then have "e' = vectors_of x"
      using assms(3) by (auto simp: cut_of_def prefix_def)
    then show False using assms(4) by simp
  qed
  then have "toExpr_from d e' start_cursor = Fault"
    using toExpr_follows [OF assms(3), of start_cursor d] c(1) by (simp add: follows_def)
  then show ?thesis by (simp add: toExpr_def)
qed

section \<open>Depth\<close>

lemma toExpr_forward: "toExpr_from d e c = Done (x, c') \<Longrightarrow> not_before c c'"
  using toExpr_follows [of e e c d] by (simp add: follows_def cut_of_def)

lemma not_Deep_simps [simp]:
  "read_token e c \<noteq> Deep" "read_int e c \<noteq> Deep" "read_strings n e c \<noteq> Deep"
proof -
  show "read_strings n e c \<noteq> Deep"
    by (induction n arbitrary: c) (auto split: option.splits reading.splits)
qed (auto simp: read_token_def read_int_def split: option.splits)

lemma then_read_Deep: "then_read m f = Deep \<longleftrightarrow> m = Deep \<or> (\<exists>x. m = Done x \<and> f x = Deep)"
  by (cases m) auto

lemma read_not_Deep [simp]: "read_rel mk e c \<noteq> Deep" "read_str mk2 e c \<noteq> Deep"
  by (auto simp: read_rel_def read_str_def readStringExpr_def then_read_Deep)

text \<open>A call consumes a token before it calls itself, so the tokens bound the depth.\<close>

lemma toExpr_depth: "length (le_tokens e) - n_tok c < d \<Longrightarrow> toExpr_from d e c \<noteq> Deep"
proof (induction d arbitrary: c)
  case (Suc d)
  show ?case
  proof
    assume "toExpr_from (Suc d) e c = Deep"
    then obtain c1 op c2 where t: "read_token e c = Done (EXPR_COMP, c1)" and i: "read_int e c1 = Done (op, c2)"
      and r: "toExpr_from d e c2 = Deep \<or>
              (\<exists>e1 c3. toExpr_from d e c2 = Done (e1, c3) \<and> toExpr_from d e c3 = Deep)"
      by (auto simp: toExpr_from.simps(2) then_read_Deep split: if_splits)
    have n: "n_tok c < length (le_tokens e)" "n_tok c2 = Suc (n_tok c)"
      using t i by (auto simp: read_token_def read_int_def vec_at_def split: option.splits if_splits)
    then have "length (le_tokens e) - n_tok c2 < d" using Suc.prems by simp
    then show False
      using r Suc.IH [of c2] Suc.IH toExpr_forward [of d e c2] by (fastforce simp: not_before_def)
  qed
qed simp

text \<open>More depth changes nothing once there is enough.\<close>

definition deeper :: "'a reading \<Rightarrow> 'a reading \<Rightarrow> bool" where
  "deeper m m' = (m \<noteq> Deep \<longrightarrow> m' = m)"

lemma deeper_refl [simp]: "deeper m m"
  by (simp add: deeper_def)

lemma deeper_then:
  "deeper m m' \<Longrightarrow> (\<And>x. m = Done x \<Longrightarrow> deeper (f x) (g x)) \<Longrightarrow> deeper (then_read m f) (then_read m' g)"
  by (cases m) (auto simp: deeper_def)

lemma toExpr_deeper: "d \<le> d' \<Longrightarrow> deeper (toExpr_from d e c) (toExpr_from d' e c)"
proof (induction d arbitrary: c d')
  case (Suc d)
  then obtain k where d': "d' = Suc k" "d \<le> k" by (cases d') auto
  note step = Suc.IH [OF d'(2)]
  show ?case
    unfolding d'(1) toExpr_from.simps(2)
    by (rule deeper_then [OF deeper_refl]) (auto intro!: deeper_then step)
qed (simp add: deeper_def)

lemma toExpr_enough:
  assumes "toExpr d e = r" "r \<noteq> Deep"
  shows "toExpr (Suc (length (le_tokens e))) e = r"
proof -
  let ?k = "Suc (length (le_tokens e))"
  have n: "toExpr_from ?k e start_cursor \<noteq> Deep"
    by (rule toExpr_depth) (simp add: start_cursor_def)
  have "toExpr_from d e start_cursor \<noteq> Deep" using assms by (auto simp: toExpr_def)
  then have "toExpr_from (max d ?k) e start_cursor = toExpr_from d e start_cursor"
    using toExpr_deeper [of d "max d ?k" e start_cursor] by (simp add: deeper_def)
  moreover have "toExpr_from (max d ?k) e start_cursor = toExpr_from ?k e start_cursor"
    using toExpr_deeper [of ?k "max d ?k" e start_cursor] n by (simp add: deeper_def)
  ultimately show ?thesis using assms(1) by (simp add: toExpr_def)
qed

text \<open>A comb of compound tokens nests as deep as it is long.\<close>

lemma toExpr_comb:
  "ahead e c (replicate k EXPR_COMP @ ts) (replicate k v @ vs) ss \<Longrightarrow> d \<le> k \<Longrightarrow>
   toExpr_from d e c = Deep"
proof (induction k arbitrary: c d)
  case 0
  then show ?case by simp
next
  case (Suc k)
  show ?case
  proof (cases d)
    case (Suc d')
    from Suc.prems(1) have "ahead e c (EXPR_COMP # replicate k EXPR_COMP @ ts)
        (v # replicate k v @ vs) ss" by simp
    from read_token_ahead [OF this] obtain c1 where
      1: "read_token e c = Done (EXPR_COMP, c1)"
         "ahead e c1 (replicate k EXPR_COMP @ ts) (v # replicate k v @ vs) ss" by blast
    from read_int_ahead [OF 1(2)] obtain c2 where
      2: "read_int e c1 = Done (v, c2)" "ahead e c2 (replicate k EXPR_COMP @ ts) (replicate k v @ vs) ss"
      by blast
    from Suc.IH [OF 2(2)] Suc.prems(2) Suc have "toExpr_from d' e c2 = Deep" by simp
    then show ?thesis using 1(1) 2(1) Suc by (simp add: toExpr_from.simps(2))
  qed simp
qed

end
