(* ===== verification/Search_Item.thy ===== *)
theory Search_Item
  imports Search_Read
begin

text \<open>A linearised expression as bytes (\<^verbatim>\<open>turtle/rsturtleitem.cc\<close>): three vectors, each a count and its
  elements. Writing goes on after an element that does not fit; reading stops an element loop at the
  first failure, but still reads the counts that follow. A list of encoded elements is a codec when the
  elements are.\<close>

abbreviation (input) TLV_TYPE_STR_VALUE :: u16 where "TLV_TYPE_STR_VALUE \<equiv> 0x0054"

section \<open>Loops over elements\<close>

fun put_all ::
    "(buf \<Rightarrow> u32 \<Rightarrow> u32 \<Rightarrow> 'a \<Rightarrow> (bool \<times> buf \<times> u32) option) \<Rightarrow>
     buf \<Rightarrow> u32 \<Rightarrow> u32 \<Rightarrow> 'a list \<Rightarrow> (bool \<times> buf \<times> u32) option" where
  "put_all p data sz off [] = Some (True, data, off)"
| "put_all p data sz off (x # xs) =
     (case p data sz off x of
        None \<Rightarrow> None
      | Some (ok1, data1, off1) \<Rightarrow>
          (case put_all p data1 sz off1 xs of
             None \<Rightarrow> None
           | Some (ok2, data2, off2) \<Rightarrow> Some (ok1 \<and> ok2, data2, off2)))"

definition put_vec ::
    "(buf \<Rightarrow> u32 \<Rightarrow> u32 \<Rightarrow> 'a \<Rightarrow> (bool \<times> buf \<times> u32) option) \<Rightarrow>
     buf \<Rightarrow> u32 \<Rightarrow> u32 \<Rightarrow> 'a list \<Rightarrow> (bool \<times> buf \<times> u32) option" where
  "put_vec p data sz off xs = put_seq setRawUInt32 (put_all p) data sz off (word_of_nat (length xs), xs)"

fun get_loop ::
    "(buf \<Rightarrow> u32 \<Rightarrow> u32 \<Rightarrow> (u32 \<times> 'a option) option) \<Rightarrow>
     nat \<Rightarrow> buf \<Rightarrow> u32 \<Rightarrow> u32 \<Rightarrow> (u32 \<times> 'a list option) option" where
  "get_loop g 0 data sz off = Some (off, Some [])"
| "get_loop g (Suc n) data sz off =
     (case g data sz off of
        None \<Rightarrow> None
      | Some (off1, None) \<Rightarrow> Some (off1, None)
      | Some (off1, Some x) \<Rightarrow>
          (case get_loop g n data sz off1 of
             None \<Rightarrow> None
           | Some (off2, xs) \<Rightarrow> Some (off2, map_option (Cons x) xs)))"

definition get_vec ::
    "(buf \<Rightarrow> u32 \<Rightarrow> u32 \<Rightarrow> (u32 \<times> 'a option) option) \<Rightarrow>
     bool \<Rightarrow> buf \<Rightarrow> u32 \<Rightarrow> u32 \<Rightarrow> (u32 \<times> 'a list option) option" where
  "get_vec g ok data sz off =
     (case getRawUInt32 data sz off of
        None \<Rightarrow> None
      | Some (off1, None) \<Rightarrow> Some (off1, None)
      | Some (off1, Some n) \<Rightarrow> if ok then get_loop g (unat n) data sz off1 else Some (off1, None))"

section \<open>Expressions\<close>

definition linearized_serial_size :: "LinearizedExpression \<Rightarrow> u32" where
  "linearized_serial_size e =
     4 + sum_list (map GetTlvStringSize (le_strings e)) + 4 + 4 * word_of_nat (length (le_ints e)) +
     4 + word_of_nat (length (le_tokens e))"

definition linearized_serialize ::
    "buf \<Rightarrow> u32 \<Rightarrow> u32 \<Rightarrow> LinearizedExpression \<Rightarrow> (bool \<times> buf \<times> u32) option" where
  "linearized_serialize data sz off e =
     (case put_seq (put_vec setRawUInt8) (put_seq (put_vec setRawUInt32) (put_vec (SetTlvString TLV_TYPE_STR_VALUE)))
             data sz off (le_tokens e, le_ints e, le_strings e) of
        None \<Rightarrow> None
      | Some (ok, data1, off1) \<Rightarrow> Some (ok, data1, if ok then off1 else off))"

text \<open>On a failure the expression is half filled; its item is dropped, so it is not kept here.\<close>

definition linearized_deserialize :: "buf \<Rightarrow> u32 \<Rightarrow> u32 \<Rightarrow> (u32 \<times> LinearizedExpression option) option" where
  "linearized_deserialize data sz off =
     (case get_vec getRawUInt8 True data sz off of
        None \<Rightarrow> None
      | Some (off1, ts) \<Rightarrow>
          (case get_vec getRawUInt32 (ts \<noteq> None) data sz off1 of
             None \<Rightarrow> None
           | Some (off2, vs) \<Rightarrow>
               (case get_vec (GetTlvString TLV_TYPE_STR_VALUE) (ts \<noteq> None \<and> vs \<noteq> None) data sz off2 of
                  None \<Rightarrow> None
                | Some (off3, ss) \<Rightarrow>
                    (case ts of
                       None \<Rightarrow> Some (off, None)
                     | Some ts' \<Rightarrow>
                         (case vs of
                            None \<Rightarrow> Some (off, None)
                          | Some vs' \<Rightarrow>
                              (case ss of
                                 None \<Rightarrow> Some (off, None)
                               | Some ss' \<Rightarrow>
                                   Some (off3, Some \<lparr>le_tokens = ts', le_ints = vs', le_strings = ss'\<rparr>)))))))"

section \<open>Lists of a codec\<close>

locale codec_list = elem: codec putx getx encx wfx
  for putx :: "buf \<Rightarrow> u32 \<Rightarrow> u32 \<Rightarrow> 'a \<Rightarrow> (bool \<times> buf \<times> u32) option"
    and getx encx wfx
begin

definition enc_list :: "'a list \<Rightarrow> bytes" where
  "enc_list xs = concat (map encx xs)"

lemma put_all_fits:
  "list_all wfx xs \<Longrightarrow> fits d sz off (length (enc_list xs)) \<Longrightarrow>
   put_all putx (Some d) sz off xs =
     Some (True, Some (overwrite d (unat off) (enc_list xs)), off + word_of_nat (length (enc_list xs)))"
proof (induction xs arbitrary: d off)
  case (Cons x xs)
  let ?m = "length (encx x)"
  have l: "length (enc_list (x # xs)) = ?m + length (enc_list xs)" by (simp add: enc_list_def)
  have f: "fits d sz off ?m" using Cons.prems(2) l by (intro fits_weaken [OF Cons.prems(2)]) simp
  have f2: "fits d sz (off + word_of_nat ?m) (length (enc_list xs))"
    using fits_append [OF f] Cons.prems(2) l by simp
  have u: "unat (off + word_of_nat ?m) = unat off + ?m" using f by (rule fits_u32)
  have b: "unat off + ?m + length (enc_list xs) \<le> length d"
    using fits_length [OF Cons.prems(2)] l by simp
  have "putx (Some d) sz off x = Some (True, Some (overwrite d (unat off) (encx x)), off + word_of_nat ?m)"
    using Cons.prems(1) f by (intro elem.put_fits) simp_all
  moreover have "put_all putx (Some (overwrite d (unat off) (encx x))) sz (off + word_of_nat ?m) xs =
      Some (True, Some (overwrite (overwrite d (unat off) (encx x)) (unat off + ?m) (enc_list xs)),
        off + word_of_nat ?m + word_of_nat (length (enc_list xs)))"
    using Cons.IH [of "overwrite d (unat off) (encx x)" "off + word_of_nat ?m"] Cons.prems(1) f2 u
      fits_length [OF f] by simp
  ultimately show ?case
    using overwrite_overwrite_adjacent [of "unat off" "encx x" "enc_list xs" d] b
    by (simp add: enc_list_def add.assoc)
qed (simp add: enc_list_def)

lemma get_loop_enc:
  "list_all wfx xs \<Longrightarrow> fits d sz off (length (enc_list xs)) \<Longrightarrow>
   take (length (enc_list xs)) (drop (unat off) d) = enc_list xs \<Longrightarrow>
   get_loop getx (length xs) (Some d) sz off = Some (off + word_of_nat (length (enc_list xs)), Some xs)"
proof (induction xs arbitrary: off)
  case (Cons x xs)
  let ?m = "length (encx x)"
  have l: "length (enc_list (x # xs)) = ?m + length (enc_list xs)" by (simp add: enc_list_def)
  have f: "fits d sz off ?m" using Cons.prems(2) l by (intro fits_weaken [OF Cons.prems(2)]) simp
  have f2: "fits d sz (off + word_of_nat ?m) (length (enc_list xs))"
    using fits_append [OF f] Cons.prems(2) l by simp
  have u: "unat (off + word_of_nat ?m) = unat off + ?m" using f by (rule fits_u32)
  have "take ?m (drop (unat off) d) @ take (length (enc_list xs)) (drop (unat off + ?m) d) =
      encx x @ enc_list xs"
    using Cons.prems(3) l by (simp add: take_drop_split [of ?m] enc_list_def)
  moreover have "length (take ?m (drop (unat off) d)) = ?m" using fits_length [OF f] by simp
  ultimately have t: "take ?m (drop (unat off) d) = encx x"
      "take (length (enc_list xs)) (drop (unat off + ?m) d) = enc_list xs"
    using append_eq_append_conv by blast+
  have "getx (Some d) sz off = Some (off + word_of_nat ?m, Some x)"
    using Cons.prems(1) f t(1) by (intro elem.get_enc) simp_all
  moreover have "get_loop getx (length xs) (Some d) sz (off + word_of_nat ?m) =
      Some (off + word_of_nat ?m + word_of_nat (length (enc_list xs)), Some xs)"
    using Cons.prems(1) f2 t(2) u by (intro Cons.IH) simp_all
  ultimately show ?case by (simp add: enc_list_def add.assoc)
qed (simp add: enc_list_def)

definition enc_vec :: "'a list \<Rightarrow> bytes" where
  "enc_vec xs = be32 (word_of_nat (length xs)) @ enc_list xs"

definition wf_vec :: "'a list \<Rightarrow> bool" where
  "wf_vec xs = (list_all wfx xs \<and> length xs < 4294967296)"

sublocale vec: codec "put_vec putx" "get_vec getx True" enc_vec wf_vec
proof
  fix xs d and sz off :: u32
  assume w: "wf_vec xs" and f: "fits d sz off (length (enc_vec xs))"
  have f1: "fits d sz off 4" using f by (rule fits_weaken) (simp add: enc_vec_def)
  have f2: "fits d sz (off + 4) (length (enc_list xs))"
    using fits_append [OF f1, of "length (enc_list xs)"] f by (simp add: enc_vec_def)
  have u: "unat (off + 4) = unat off + 4" using fits_u32 [OF f1] by simp
  have b: "unat off + 4 + length (enc_list xs) \<le> length d" using fits_length [OF f] by (simp add: enc_vec_def)
  have n: "unat (word_of_nat (length xs) :: u32) = length xs"
    using w by (intro word_of_nat_less_u32) (simp add: wf_vec_def)
  let ?h = "be32 (word_of_nat (length xs))"
  have "setRawUInt32 (Some d) sz off (word_of_nat (length xs)) = Some (True, Some (overwrite d (unat off) ?h), off + 4)"
    using raw32.put_fits [where v = "word_of_nat (length xs)" and d = d and sz = sz and off = off] f1 by simp
  moreover have "put_all putx (Some (overwrite d (unat off) ?h)) sz (off + 4) xs =
      Some (True, Some (overwrite (overwrite d (unat off) ?h) (unat off + 4) (enc_list xs)),
        off + 4 + word_of_nat (length (enc_list xs)))"
    using put_all_fits [of xs "overwrite d (unat off) ?h" sz "off + 4"] w f2 u fits_length [OF f1]
    by (simp add: wf_vec_def)
  ultimately show "put_vec putx (Some d) sz off xs =
      Some (True, Some (overwrite d (unat off) (enc_vec xs)), off + word_of_nat (length (enc_vec xs)))"
    using overwrite_overwrite_adjacent [of "unat off" ?h "enc_list xs" d] b
    by (simp add: put_vec_def put_seq_def enc_vec_def add.assoc)
  assume t: "take (length (enc_vec xs)) (drop (unat off) d) = enc_vec xs"
  have "take 4 (drop (unat off) d) @ take (length (enc_list xs)) (drop (unat off + 4) d) = ?h @ enc_list xs"
    using t by (simp add: take_drop_split [of 4] enc_vec_def)
  moreover have "length (take 4 (drop (unat off) d)) = length ?h" using fits_length [OF f1] by simp
  ultimately have t1: "take 4 (drop (unat off) d) = ?h"
    and t2: "take (length (enc_list xs)) (drop (unat off + 4) d) = enc_list xs"
    using append_eq_append_conv by blast+
  have "getRawUInt32 (Some d) sz off = Some (off + 4, Some (word_of_nat (length xs)))"
    using raw32.get_enc [where v = "word_of_nat (length xs)" and d = d and sz = sz and off = off] f1 t1 by simp
  moreover have "get_loop getx (length xs) (Some d) sz (off + 4) =
      Some (off + 4 + word_of_nat (length (enc_list xs)), Some xs)"
    using get_loop_enc [of xs d sz "off + 4"] w f2 t2 u by (simp add: wf_vec_def)
  ultimately show "get_vec getx True (Some d) sz off = Some (off + word_of_nat (length (enc_vec xs)), Some xs)"
    using n by (simp add: get_vec_def enc_vec_def add.assoc)
qed

end

interpretation vec8: codec_list setRawUInt8 getRawUInt8 "\<lambda>v. [v]" "\<lambda>_. True"
  by unfold_locales

interpretation vec32: codec_list setRawUInt32 getRawUInt32 be32 "\<lambda>_. True"
  by unfold_locales

interpretation vecstr: codec_list "SetTlvString TLV_TYPE_STR_VALUE" "GetTlvString TLV_TYPE_STR_VALUE"
    "enc_tlv_string TLV_TYPE_STR_VALUE" "clean_string TLV_TYPE_STR_VALUE"
  by unfold_locales

interpretation ints_strings: codec_pair "put_vec setRawUInt32" "get_vec getRawUInt32 True" vec32.enc_vec vec32.wf_vec
    "put_vec (SetTlvString TLV_TYPE_STR_VALUE)" "get_vec (GetTlvString TLV_TYPE_STR_VALUE) True"
    vecstr.enc_vec vecstr.wf_vec
  by unfold_locales

interpretation three_vectors: codec_pair "put_vec setRawUInt8" "get_vec getRawUInt8 True" vec8.enc_vec vec8.wf_vec
    "put_seq (put_vec setRawUInt32) (put_vec (SetTlvString TLV_TYPE_STR_VALUE))"
    "get_seq (get_vec getRawUInt32 True) (get_vec (GetTlvString TLV_TYPE_STR_VALUE) True)"
    "\<lambda>v. vec32.enc_vec (fst v) @ vecstr.enc_vec (snd v)" "\<lambda>v. vec32.wf_vec (fst v) \<and> vecstr.wf_vec (snd v)"
  by unfold_locales

definition enc_linearized :: "LinearizedExpression \<Rightarrow> bytes" where
  "enc_linearized e = vec8.enc_vec (le_tokens e) @ vec32.enc_vec (le_ints e) @ vecstr.enc_vec (le_strings e)"

definition wf_linearized :: "LinearizedExpression \<Rightarrow> bool" where
  "wf_linearized e = (vec8.wf_vec (le_tokens e) \<and> vec32.wf_vec (le_ints e) \<and> vecstr.wf_vec (le_strings e))"

lemma get_seq_SomeD:
  "get_seq g h data sz off = Some (off2, Some (a, b)) \<Longrightarrow>
   \<exists>off1. g data sz off = Some (off1, Some a) \<and> h data sz off1 = Some (off2, Some b)"
  by (auto simp: get_seq_def pair_opt_def split: option.splits)

interpretation linearized: codec linearized_serialize linearized_deserialize enc_linearized wf_linearized
proof
  fix e d and sz off :: u32
  assume w: "wf_linearized e" and f: "fits d sz off (length (enc_linearized e))"
  let ?v = "(le_tokens e, le_ints e, le_strings e)"
  show "linearized_serialize (Some d) sz off e = Some (True, Some (overwrite d (unat off) (enc_linearized e)),
          off + word_of_nat (length (enc_linearized e)))"
    using three_vectors.put_seq_fits [of ?v d sz off] w f
    by (simp add: linearized_serialize_def enc_linearized_def wf_linearized_def del: length_append)
  assume t: "take (length (enc_linearized e)) (drop (unat off) d) = enc_linearized e"
  have "get_seq (get_vec getRawUInt8 True) (get_seq (get_vec getRawUInt32 True)
          (get_vec (GetTlvString TLV_TYPE_STR_VALUE) True)) (Some d) sz off =
        Some (off + word_of_nat (length (enc_linearized e)), Some ?v)"
    using three_vectors.get_seq_enc [of ?v d sz off] w f t
    by (simp add: enc_linearized_def wf_linearized_def del: length_append)
  then show "linearized_deserialize (Some d) sz off = Some (off + word_of_nat (length (enc_linearized e)), Some e)"
    by (auto simp: linearized_deserialize_def dest!: get_seq_SomeD)
qed

text \<open>The size the code computes is the length of the encoding, while it is a 32-bit number.\<close>

lemma linearized_size:
  "linearized_serial_size e = word_of_nat (length (enc_linearized e))"
proof -
  have s: "sum_list (map GetTlvStringSize ss) = (word_of_nat (length (vecstr.enc_list ss)) :: u32)" for ss
    by (induction ss) (simp_all add: vecstr.enc_list_def GetTlvStringSize_def)
  have i: "word_of_nat (length (vec32.enc_list vs)) = 4 * (word_of_nat (length vs) :: u32)" for vs
    by (induction vs) (simp_all add: vec32.enc_list_def algebra_simps)
  have t: "length (vec8.enc_list ts) = length ts" for ts
    by (induction ts) (simp_all add: vec8.enc_list_def)
  show ?thesis
    by (simp add: linearized_serial_size_def enc_linearized_def vec8.enc_vec_def vec32.enc_vec_def
      vecstr.enc_vec_def s i t)
qed

end
