(* ===== verification/Turtle_Search.thy ===== *)
theory Turtle_Search
  imports Search_Item Std_Map Rs_Memory
begin

text \<open>The search part of the turtle router (\<^verbatim>\<open>turtle/p3turtle.cc\<close>, \<^verbatim>\<open>turtle/rsturtleitem.h\<close>): requests that
  friends relay to each other and results that travel back the way the request came. The file database,
  the client services, the links and the clock are the environment of a call. A call that uses a null
  pointer, reads outside a vector or ends the process has the fault as its value.\<close>

section \<open>Items\<close>

type_synonym TurtlePeerId = nat
type_synonym TurtleRequestId = u32

record TurtleFileInfo =
  tf_hash :: bytes
  tf_name :: bytes
  tf_size :: u64

record DirDetails =
  dd_is_dir :: bool
  dd_info :: TurtleFileInfo

datatype request_body =
    StringSearch bytes
  | RegExpSearch LinearizedExpression
  | GenericSearch u16 u8 bytes

record SearchRequestItem =
  sr_peer :: TurtlePeerId
  sr_request_id :: TurtleRequestId
  sr_depth :: u16
  sr_body :: request_body

datatype result_body =
    FTResult "TurtleFileInfo list"
  | GenericResult bytes

record SearchResultItem =
  rr_peer :: TurtlePeerId
  rr_request_id :: TurtleRequestId
  rr_body :: result_body

abbreviation (input) RS_SERVICE_TYPE_FILE_TRANSFER :: u16 where "RS_SERVICE_TYPE_FILE_TRANSFER \<equiv> 0x0017"
abbreviation (input) TURTLE_MAX_SEARCH_DEPTH :: u16 where "TURTLE_MAX_SEARCH_DEPTH \<equiv> 6"
abbreviation (input) TURTLE_MAX_SEARCH_REQ_ACCEPTED_SERIAL_SIZE :: u32 where
  "TURTLE_MAX_SEARCH_REQ_ACCEPTED_SERIAL_SIZE \<equiv> 200"
abbreviation (input) MAX_ALLOWED_SR_IN_CACHE :: nat where "MAX_ALLOWED_SR_IN_CACHE \<equiv> 120"
abbreviation (input) TURTLE_SEARCH_RESULT_MAX_HITS_FILES :: u32 where "TURTLE_SEARCH_RESULT_MAX_HITS_FILES \<equiv> 5000"
abbreviation (input) TURTLE_SEARCH_RESULT_MAX_HITS_DEFAULT :: u32 where "TURTLE_SEARCH_RESULT_MAX_HITS_DEFAULT \<equiv> 100"
abbreviation (input) RSTURTLE_MAX_SEARCH_RESPONSE_SIZE :: u32 where "RSTURTLE_MAX_SEARCH_RESPONSE_SIZE \<equiv> 10000"
abbreviation (input) SEARCH_REQUESTS_LIFE_TIME :: rstime_t where "SEARCH_REQUESTS_LIFE_TIME \<equiv> 600"
abbreviation (input) SEARCH_REQUESTS_RESULT_TIME :: rstime_t where "SEARCH_REQUESTS_RESULT_TIME \<equiv> 20"
abbreviation (input) RS_NET_CONN_SPEED_TRICKLE :: u32 where "RS_NET_CONN_SPEED_TRICKLE \<equiv> 0x00010000"
abbreviation (input) RS_NET_CONN_SPEED_LOW :: u32 where "RS_NET_CONN_SPEED_LOW \<equiv> 0x00020000"

definition serviceId :: "request_body \<Rightarrow> u16" where
  "serviceId b = (case b of GenericSearch service _ _ \<Rightarrow> service | _ \<Rightarrow> RS_SERVICE_TYPE_FILE_TRANSFER)"

text \<open>The size the serialiser computes: eight bytes of header, the fields, and for a memory block its
  length in four bytes.\<close>

definition request_size :: "SearchRequestItem \<Rightarrow> u32" where
  "request_size item =
     (case sr_body item of
        StringSearch s \<Rightarrow> 8 + GetTlvStringSize s + 4 + 2
      | RegExpSearch e \<Rightarrow> 8 + 4 + 2 + linearized_serial_size e
      | GenericSearch service type search_data \<Rightarrow> 8 + 4 + 2 + 2 + 1 + 4 + word_of_nat (length search_data))"

definition hex_digit :: "u8 \<Rightarrow> u8" where
  "hex_digit v = (if v < 10 then 0x30 + v else 0x61 + (v - 10))"

definition BinToHex :: "bytes \<Rightarrow> nat \<Rightarrow> bytes" where
  "BinToHex arr max_len =
     concat (map (\<lambda>b. [hex_digit (drop_bit 4 b), hex_digit (take_bit 4 b)]) (take max_len arr)) @
     (if max_len < length arr then ascii ''...'' else [])"

text \<open>The tree of a request is rebuilt with a stack as deep as its tokens can need.\<close>

definition request_expr :: "LinearizedExpression \<Rightarrow> Expression option reading" where
  "request_expr e = toExpr (Suc (length (le_tokens e))) e"

definition GetKeywords :: "request_body \<Rightarrow> fault + bytes" where
  "GetKeywords b =
     (case b of
        StringSearch s \<Rightarrow> Inr s
      | RegExpSearch e \<Rightarrow>
          (case request_expr e of
             Done None \<Rightarrow> Inl Null_pointer
           | Done (Some x) \<Rightarrow> (case toStdString x of None \<Rightarrow> Inl Null_pointer | Some s \<Rightarrow> Inr s)
           | _ \<Rightarrow> Inl Out_of_block)
      | GenericSearch service type search_data \<Rightarrow> Inr (ascii ''Generic search : '' @ BinToHex search_data 10))"

text \<open>The copies that are sent on. That of generic data allocates as many bytes as the data has, which are none
  for the empty memory block that the serialiser accepts.\<close>

definition clone_request :: "SearchRequestItem \<Rightarrow> fault + SearchRequestItem" where
  "clone_request item =
     (case sr_body item of
        GenericSearch service type search_data \<Rightarrow>
          (case rs_malloc (length search_data) of Inl e \<Rightarrow> Inl e | Inr _ \<Rightarrow> Inr item)
      | _ \<Rightarrow> Inr item)"

definition duplicate_result :: "SearchResultItem \<Rightarrow> fault + SearchResultItem" where
  "duplicate_result item =
     (case rr_body item of
        GenericResult d \<Rightarrow> (case rs_malloc (length d) of Inl e \<Rightarrow> Inl e | Inr _ \<Rightarrow> Inr item)
      | FTResult _ \<Rightarrow> Inr item)"

definition result_count_of :: "result_body \<Rightarrow> u32" where
  "result_count_of b =
     (case b of FTResult fs \<Rightarrow> word_of_nat (length fs) | GenericResult d \<Rightarrow> word_of_nat (length d) div 50)"

definition result_pop :: "result_body \<Rightarrow> result_body" where
  "result_pop b = (case b of FTResult fs \<Rightarrow> FTResult (butlast fs) | GenericResult d \<Rightarrow> GenericResult d)"

section \<open>State and environment\<close>

record TurtleSearchRequestInfo =
  ri_origin :: TurtlePeerId
  ri_time_stamp :: u32
  ri_depth :: u16
  ri_result_count :: u32
  ri_keywords :: bytes
  ri_service_id :: u16
  ri_max_allowed_hits :: u32

record p3turtle =
  own_id :: TurtlePeerId
  random_bias :: u32
  search_requests_origins :: "(TurtleRequestId, TurtleSearchRequestInfo) std_map"

text \<open>What a call asks the rest of the program: the clock, the connected peers and their links, the two
  searches of the file database, whether a hash is banned, and the client services, of which one answers a
  search with its data, if it has any, and the number of hits it allows.\<close>

record turtle_env =
  te_now :: rstime_t
  te_online :: "TurtlePeerId list"
  te_linkType :: "TurtlePeerId \<Rightarrow> u32"
  te_SearchKeywords :: "bytes \<Rightarrow> DirDetails list"
  te_SearchBoolExp :: "Expression \<Rightarrow> DirDetails list"
  te_isHashBanned :: "bytes \<Rightarrow> bool"
  te_service :: "u16 \<Rightarrow> (bytes \<Rightarrow> u32 \<Rightarrow> bytes option \<times> u32) option"
  te_is_ftServer :: "u16 \<Rightarrow> bool"

datatype turtle_output =
    SendRequest SearchRequestItem
  | SendResult SearchResultItem
  | Notify u16 SearchResultItem

section \<open>Searching locally\<close>

definition local_files :: "turtle_env \<Rightarrow> request_body \<Rightarrow> fault + TurtleFileInfo list" where
  "local_files env b =
     (case b of
        StringSearch s \<Rightarrow> Inr (map dd_info (filter (\<lambda>d. \<not> dd_is_dir d) (te_SearchKeywords env s)))
      | RegExpSearch e \<Rightarrow>
          (case request_expr e of
             Done None \<Rightarrow> Inr []
           | Done (Some x) \<Rightarrow> Inr (map dd_info (filter (\<lambda>d. \<not> dd_is_dir d) (te_SearchBoolExp env x)))
           | _ \<Rightarrow> Inl Out_of_block)
      | GenericSearch _ _ _ \<Rightarrow> Inr [])"

text \<open>The loop that chops the files into items: the items so far, the last of them first and open for
  more while the size is given, and the number of hits. A file counts eight bytes for its size, twenty for
  its hash, and its name.\<close>

fun chop_results ::
    "TurtleFileInfo list \<Rightarrow> u32 \<Rightarrow> u32 \<Rightarrow> TurtleFileInfo list list \<Rightarrow> u32 option \<Rightarrow> TurtleFileInfo list list \<times> u32" where
  "chop_results [] max_hits n acc item_size = (rev acc, n)"
| "chop_results (f # fs) max_hits n acc item_size =
     (let acc1 = (case item_size of
                    None \<Rightarrow> [f] # acc
                  | Some _ \<Rightarrow> (case acc of [] \<Rightarrow> [[f]] | fs' # rest \<Rightarrow> (fs' @ [f]) # rest));
          n1 = n + 1;
          size1 = (case item_size of None \<Rightarrow> 0 | Some s \<Rightarrow> s) + (28 + word_of_nat (length (tf_name f)));
          open1 = (if size1 > RSTURTLE_MAX_SEARCH_RESPONSE_SIZE then None else Some size1)
      in if max_hits \<le> n1 then (rev acc1, n1) else chop_results fs max_hits n1 acc1 open1)"

definition performLocalSearch ::
    "turtle_env \<Rightarrow> request_body \<Rightarrow> u32 \<Rightarrow> fault + result_body list \<times> u32 \<times> u32" where
  "performLocalSearch env b max_hits =
     (case b of
        GenericSearch service type search_data \<Rightarrow>
          (case te_service env service of
             None \<Rightarrow> Inr ([], 0, max_hits)
           | Some search \<Rightarrow>
               (case search search_data max_hits of
                  (Some d, m) \<Rightarrow> Inr ([GenericResult d], 0, m)
                | (None, m) \<Rightarrow> Inr ([], 0, m)))
      | _ \<Rightarrow>
          (case local_files env b of
             Inl e \<Rightarrow> Inl e
           | Inr fs \<Rightarrow>
               (case chop_results fs TURTLE_SEARCH_RESULT_MAX_HITS_FILES 0 [] None of
                  (items, n) \<Rightarrow> Inr (map FTResult items, n, TURTLE_SEARCH_RESULT_MAX_HITS_FILES))))"

section \<open>Requests\<close>

definition slow_link :: "turtle_env \<Rightarrow> TurtlePeerId \<Rightarrow> bool" where
  "slow_link env p =
     (and (te_linkType env p) RS_NET_CONN_SPEED_TRICKLE \<noteq> 0 \<or> and (te_linkType env p) RS_NET_CONN_SPEED_LOW \<noteq> 0)"

definition bias_of :: "p3turtle \<Rightarrow> SearchRequestItem \<Rightarrow> u32" where
  "bias_of t item = and (xor (random_bias t) (sr_request_id item)) 7"

definition random_bypass :: "p3turtle \<Rightarrow> SearchRequestItem \<Rightarrow> bool" where
  "random_bypass t item = (TURTLE_MAX_SEARCH_DEPTH \<le> sr_depth item \<and> bias_of t item = 2)"

definition random_dshift :: "p3turtle \<Rightarrow> SearchRequestItem \<Rightarrow> bool" where
  "random_dshift t item = (sr_depth item = 1 \<and> bias_of t item = 6)"

definition forwarded_request :: "p3turtle \<Rightarrow> SearchRequestItem \<Rightarrow> TurtlePeerId \<Rightarrow> fault + SearchRequestItem" where
  "forwarded_request t item p =
     (case clone_request item of
        Inl e \<Rightarrow> Inl e
      | Inr fwd \<Rightarrow>
          Inr (fwd\<lparr>sr_depth := (if random_dshift t item then sr_depth fwd else sr_depth fwd + 1), sr_peer := p\<rparr>))"

definition forward_request :: "turtle_env \<Rightarrow> p3turtle \<Rightarrow> SearchRequestItem \<Rightarrow> fault + SearchRequestItem list" where
  "forward_request env t item =
     (if sr_depth item < TURTLE_MAX_SEARCH_DEPTH \<or> random_bypass t item
      then all_made (map (forwarded_request t item)
             (filter (\<lambda>p. \<not> slow_link env p \<and> p \<noteq> sr_peer item) (te_online env)))
      else Inr [])"

definition accepts_request :: "p3turtle \<Rightarrow> SearchRequestItem \<Rightarrow> bool" where
  "accepts_request t item =
     (\<not> TURTLE_MAX_SEARCH_REQ_ACCEPTED_SERIAL_SIZE < request_size item \<and>
      \<not> MAX_ALLOWED_SR_IN_CACHE < length (search_requests_origins t) \<and>
      map_of (search_requests_origins t) (sr_request_id item) = None)"

definition handleSearchRequest ::
    "turtle_env \<Rightarrow> SearchRequestItem \<Rightarrow> p3turtle \<Rightarrow> fault + p3turtle \<times> turtle_output list" where
  "handleSearchRequest env item t =
     (if \<not> accepts_request t item then Inr (t, [])
      else
        (case (if sr_peer item \<noteq> own_id t
               then performLocalSearch env (sr_body item) TURTLE_SEARCH_RESULT_MAX_HITS_DEFAULT
               else Inr ([], 0, TURTLE_SEARCH_RESULT_MAX_HITS_DEFAULT)) of
           Inl e \<Rightarrow> Inl e
         | Inr (results, n, max_hits) \<Rightarrow>
             (case GetKeywords (sr_body item) of
                Inl e \<Rightarrow> Inl e
              | Inr kw \<Rightarrow>
                  (let answers = map (\<lambda>b. SendResult \<lparr>rr_peer = sr_peer item,
                                     rr_request_id = sr_request_id item, rr_body = b\<rparr>) results;
                       req = \<lparr>ri_origin = sr_peer item, ri_time_stamp = word_of_int (te_now env),
                              ri_depth = sr_depth item, ri_result_count = n, ri_keywords = kw,
                              ri_service_id = serviceId (sr_body item), ri_max_allowed_hits = max_hits\<rparr>;
                       t1 = t\<lparr>search_requests_origins :=
                               map_put (sr_request_id item) req (search_requests_origins t)\<rparr>
                   in (case (if max_hits \<le> n then Inr [] else forward_request env t item) of
                         Inl e \<Rightarrow> Inl e
                       | Inr rs \<Rightarrow> Inr (t1, answers @ map SendRequest rs))))))"

definition turtleSearch ::
    "turtle_env \<Rightarrow> TurtleRequestId \<Rightarrow> request_body \<Rightarrow> p3turtle \<Rightarrow> fault + p3turtle \<times> turtle_output list" where
  "turtleSearch env rid b t =
     handleSearchRequest env \<lparr>sr_peer = own_id t, sr_request_id = rid, sr_depth = 0, sr_body = b\<rparr> t"

section \<open>Results\<close>

definition without_banned :: "turtle_env \<Rightarrow> result_body \<Rightarrow> result_body" where
  "without_banned env b =
     (case b of FTResult fs \<Rightarrow> FTResult (filter (\<lambda>f. \<not> te_isHashBanned env (tf_hash f)) fs) | GenericResult d \<Rightarrow> b)"

definition notify_client :: "turtle_env \<Rightarrow> u16 \<Rightarrow> SearchResultItem \<Rightarrow> turtle_output list" where
  "notify_client env service item =
     (if te_service env service = None then []
      else (case rr_body item of
              FTResult _ \<Rightarrow> if te_is_ftServer env service then [Notify service item] else []
            | GenericResult _ \<Rightarrow> [Notify service item]))"

definition handleSearchResult ::
    "turtle_env \<Rightarrow> SearchResultItem \<Rightarrow> p3turtle \<Rightarrow> fault + p3turtle \<times> turtle_output list" where
  "handleSearchResult env item0 t =
     (let item = item0\<lparr>rr_body := without_banned env (rr_body item0)\<rparr>; rid = rr_request_id item in
      if rr_body item = FTResult [] then Inr (t, [])
      else
        (case map_of (search_requests_origins t) rid of
           None \<Rightarrow> Inr (t, [])
         | Some info \<Rightarrow>
             if te_now env > uint (ri_time_stamp info) + SEARCH_REQUESTS_RESULT_TIME then Inr (t, [])
             else if ri_origin info = own_id t
             then Inr (t\<lparr>search_requests_origins := map_put rid
                       (info\<lparr>ri_result_count := ri_result_count info + result_count_of (rr_body item)\<rparr>)
                       (search_requests_origins t)\<rparr>,
                   notify_client env (ri_service_id info) item)
             else
               (let n = result_count_of (rr_body item) in
                if ri_max_allowed_hits info \<le> ri_result_count info then Inr (t, [])
                else
                  (let over = ri_max_allowed_hits info < ri_result_count info + n;
                       pops = (if over then unat (ri_result_count info + n) - unat (ri_max_allowed_hits info) else 0);
                       item1 = item\<lparr>rr_body := (result_pop ^^ pops) (rr_body item)\<rparr>;
                       info1 = info\<lparr>ri_result_count :=
                                 (if over then ri_max_allowed_hits info else ri_result_count info + n)\<rparr>
                   in (case duplicate_result item1 of
                         Inl e \<Rightarrow> Inl e
                       | Inr fwd \<Rightarrow>
                           Inr (t\<lparr>search_requests_origins := map_put rid info1 (search_requests_origins t)\<rparr>,
                             [SendResult (fwd\<lparr>rr_peer := ri_origin info\<rparr>)]))))))"

text \<open>The part of \<^verbatim>\<open>autoWash\<close> that forgets old search requests.\<close>

definition washed_searches ::
    "rstime_t \<Rightarrow> (TurtleRequestId, TurtleSearchRequestInfo) std_map \<Rightarrow> (TurtleRequestId, TurtleSearchRequestInfo) std_map" where
  "washed_searches now m = filter (\<lambda>(rid, info). \<not> now > uint (ri_time_stamp info) + SEARCH_REQUESTS_LIFE_TIME) m"

end
