(* ===== verification/Turtle_Origins.thy ===== *)
theory Turtle_Origins
  imports Main
begin

text \<open>Requests that peers relay to each other, seen from one request: every peer that remembers it has an
  origin, the peer itself or the one it got the request from. Ranks that decrease towards the origins are
  what makes the way back end.\<close>

definition ranked :: "('p \<Rightarrow> 'p option) \<Rightarrow> ('p \<Rightarrow> nat) \<Rightarrow> bool" where
  "ranked org rank = (\<forall>p q. org p = Some q \<longrightarrow> q \<noteq> p \<longrightarrow> org q \<noteq> None \<and> rank q < rank p)"

lemma rankedD: "ranked org rank \<Longrightarrow> org p = Some q \<Longrightarrow> q \<noteq> p \<Longrightarrow> org q \<noteq> None \<and> rank q < rank p"
  by (simp add: ranked_def)

lemma ranked_empty: "(\<And>p. org p = None) \<Longrightarrow> ranked org rank"
  by (simp add: ranked_def)

text \<open>A peer that gets the request for the first time is put above the one it came from; nobody has it as
  origin yet.\<close>

lemma ranked_new:
  assumes r: "ranked org rank" and new: "org p = None" and o: "q = p \<or> org q \<noteq> None"
  shows "ranked (org(p \<mapsto> q)) (rank(p := Suc (rank q)))"
  unfolding ranked_def
proof (intro allI impI)
  fix x y
  assume e: "(org(p \<mapsto> q)) x = Some y" and ne: "y \<noteq> x"
  show "(org(p \<mapsto> q)) y \<noteq> None \<and> (rank(p := Suc (rank q))) y < (rank(p := Suc (rank q))) x"
  proof (cases "x = p")
    case True
    then show ?thesis using e ne o by auto
  next
    case False
    then have "org y \<noteq> None" "rank y < rank x" using e ne rankedD [OF r, of x y] by auto
    then show ?thesis using False new by (cases "y = p") auto
  qed
qed

end
