(* ===== verification/Turtle_Net.thy ===== *)
theory Turtle_Net
  imports Turtle_Search Turtle_Origins
begin

text \<open>A network of turtle routers: every peer has a router, and requests are in flight between them. The
  environment of a call is arbitrary. A request that has been sent is delivered later, in any order, or
  lost. The entries that remember requests do not expire here: these are the first ten minutes.\<close>

section \<open>What a call does to the entries\<close>

abbreviation entry :: "p3turtle \<Rightarrow> TurtleRequestId \<Rightarrow> TurtleSearchRequestInfo option" where
  "entry t rid \<equiv> map_of (search_requests_origins t) rid"

fun requests_sent :: "turtle_output list \<Rightarrow> SearchRequestItem list" where
  "requests_sent [] = []"
| "requests_sent (SendRequest r # outs) = r # requests_sent outs"
| "requests_sent (_ # outs) = requests_sent outs"

lemma requests_sent_append [simp]: "requests_sent (xs @ ys) = requests_sent xs @ requests_sent ys"
  by (induction xs rule: requests_sent.induct) simp_all

lemma requests_sent_map [simp]:
  "requests_sent (map SendRequest rs) = rs" "requests_sent (map (\<lambda>b. SendResult (f b)) bs) = []"
  by (induction rs, simp_all) (induction bs, simp_all)

lemma accepted_request:
  assumes "handleSearchRequest env item t = Inr (t', outs)" "accepts_request t item"
  obtains req where "ri_origin req = sr_peer item"
    "t' = t\<lparr>search_requests_origins := map_put (sr_request_id item) req (search_requests_origins t)\<rparr>"
    "requests_sent outs = [] \<or> Inr (requests_sent outs) = forward_request env t item"
proof -
  let ?search = "if sr_peer item \<noteq> own_id t
    then performLocalSearch env (sr_body item) TURTLE_SEARCH_RESULT_MAX_HITS_DEFAULT
    else Inr ([], 0, TURTLE_SEARCH_RESULT_MAX_HITS_DEFAULT)"
  from assms obtain results n max_hits where s: "?search = Inr (results, n, max_hits)"
    by (cases "?search") (auto simp: handleSearchRequest_def)
  from assms s obtain kw where k: "GetKeywords (sr_body item) = Inr kw"
    by (cases "GetKeywords (sr_body item)") (auto simp: handleSearchRequest_def)
  from assms s k obtain rs where r: "(if max_hits \<le> n then Inr [] else forward_request env t item) = Inr rs"
    by (cases "if max_hits \<le> n then Inr [] else forward_request env t item") (auto simp: handleSearchRequest_def Let_def)
  then have "rs = [] \<or> Inr rs = forward_request env t item" by (auto split: if_splits)
  then show ?thesis
    using assms s k r
    by (intro that [of "\<lparr>ri_origin = sr_peer item, ri_time_stamp = word_of_int (te_now env),
        ri_depth = sr_depth item, ri_result_count = n, ri_keywords = kw,
        ri_service_id = serviceId (sr_body item), ri_max_allowed_hits = max_hits\<rparr>"])
      (auto simp: handleSearchRequest_def Let_def)
qed

lemma dropped_request: "\<not> accepts_request t item \<Longrightarrow> handleSearchRequest env item t = Inr (t, [])"
  by (simp add: handleSearchRequest_def)

lemma clone_request_same: "clone_request item = Inr fwd \<Longrightarrow> fwd = item"
  by (auto simp: clone_request_def split: request_body.splits sum.splits)

lemma forwarded_requests:
  assumes "Inr rs = forward_request env t item"
  shows "\<exists>ps. map (forwarded_request t item) ps = map Inr rs \<and> length ps \<le> length (te_online env) \<and>
    (\<forall>p \<in> set ps. p \<in> set (te_online env) \<and> p \<noteq> sr_peer item)"
proof (cases "sr_depth item < TURTLE_MAX_SEARCH_DEPTH \<or> random_bypass t item")
  case True
  let ?ps = "filter (\<lambda>p. \<not> slow_link env p \<and> p \<noteq> sr_peer item) (te_online env)"
  have "map (forwarded_request t item) ?ps = map Inr rs"
    using assms True by (intro all_made_InrD) (simp add: forward_request_def)
  then show ?thesis by (intro exI [of _ ?ps]) simp
next
  case False
  then show ?thesis using assms by (simp add: forward_request_def)
qed

lemma forward_request_length: "Inr rs = forward_request env t item \<Longrightarrow> length rs \<le> length (te_online env)"
  using forwarded_requests [of rs env t item] by (metis length_map)

lemma forward_requestD:
  assumes "Inr rs = forward_request env t item" "r \<in> set rs"
  shows "sr_request_id r = sr_request_id item \<and> sr_peer r \<in> set (te_online env) \<and> sr_peer r \<noteq> sr_peer item \<and>
   sr_body r = sr_body item"
proof -
  obtain ps where ps: "map (forwarded_request t item) ps = map Inr rs"
    "\<And>p. p \<in> set ps \<Longrightarrow> p \<in> set (te_online env) \<and> p \<noteq> sr_peer item"
    using forwarded_requests [OF assms(1)] by blast
  have "Inr r \<in> set (map (forwarded_request t item) ps)" unfolding ps(1) using assms(2) by simp
  then obtain p where "p \<in> set ps" "forwarded_request t item p = Inr r" by auto
  then show ?thesis using ps(2) [of p]
    by (auto simp: forwarded_request_def split: sum.splits dest: clone_request_same)
qed

text \<open>A request that is known is not handled again, and no call forgets one.\<close>

lemma known_request: "entry t (sr_request_id item) = Some info \<Longrightarrow> \<not> accepts_request t item"
  by (simp add: accepts_request_def)

lemma accepted_new: "accepts_request t item \<Longrightarrow> entry t (sr_request_id item) = None"
  by (simp add: accepts_request_def)

lemma handleSearchResult_entries:
  assumes "handleSearchResult env item t = Inr (t', outs)"
  shows "own_id t' = own_id t \<and> (\<forall>rid. map_option ri_origin (entry t' rid) = map_option ri_origin (entry t rid))"
  using assms by (auto simp: handleSearchResult_def Let_def split: if_splits option.splits sum.splits)

section \<open>The network\<close>

record turtle_net =
  routers :: "TurtlePeerId \<Rightarrow> p3turtle"
  in_flight :: "(TurtlePeerId \<times> SearchRequestItem) list"

text \<open>A request sent by \<open>p\<close> is addressed to the peer in the item and arrives with \<open>p\<close> in its place.\<close>

definition posted :: "TurtlePeerId \<Rightarrow> turtle_output list \<Rightarrow> (TurtlePeerId \<times> SearchRequestItem) list" where
  "posted p outs = map (\<lambda>r. (sr_peer r, r\<lparr>sr_peer := p\<rparr>)) (requests_sent outs)"

datatype net_event =
    Search TurtlePeerId TurtleRequestId request_body turtle_env
  | Deliver TurtlePeerId SearchRequestItem turtle_env
  | Lose
  | Result TurtlePeerId SearchResultItem turtle_env

inductive net_step :: "turtle_net \<Rightarrow> net_event \<Rightarrow> turtle_net \<Rightarrow> bool" where
  step_search:
    "turtleSearch env rid b (routers n p) = Inr (t', outs) \<Longrightarrow>
     net_step n (Search p rid b env)
       (n\<lparr>routers := (routers n)(p := t'), in_flight := in_flight n @ posted p outs\<rparr>)"
| step_deliver:
    "in_flight n = before @ (p, item) # after \<Longrightarrow>
     handleSearchRequest env item (routers n p) = Inr (t', outs) \<Longrightarrow>
     net_step n (Deliver p item env)
       (n\<lparr>routers := (routers n)(p := t'), in_flight := before @ after @ posted p outs\<rparr>)"
| step_lose:
    "in_flight n = before @ m # after \<Longrightarrow> net_step n Lose (n\<lparr>in_flight := before @ after\<rparr>)"
| step_result:
    "handleSearchResult env item (routers n p) = Inr (t', outs) \<Longrightarrow>
     net_step n (Result p item env) (n\<lparr>routers := (routers n)(p := t')\<rparr>)"

definition net_start :: "turtle_net \<Rightarrow> bool" where
  "net_start n = (in_flight n = [] \<and> (\<forall>p. own_id (routers n p) = p \<and> search_requests_origins (routers n p) = []))"

section \<open>Where a request came from\<close>

text \<open>Every remembered request came from the router itself or from a peer that remembers it and did so
  before; whoever has sent a request that is in flight remembers it.\<close>

definition origins :: "turtle_net \<Rightarrow> TurtleRequestId \<Rightarrow> TurtlePeerId \<Rightarrow> TurtlePeerId option" where
  "origins n rid p = map_option ri_origin (entry (routers n p) rid)"

definition net_inv :: "turtle_net \<Rightarrow> bool" where
  "net_inv n =
     ((\<forall>p. own_id (routers n p) = p) \<and>
      (\<forall>(q, item) \<in> set (in_flight n). entry (routers n (sr_peer item)) (sr_request_id item) \<noteq> None) \<and>
      (\<forall>rid. \<exists>rank. ranked (origins n rid) rank))"

lemma net_invD:
  assumes "net_inv n"
  shows "own_id (routers n p) = p"
    and "(q, item) \<in> set (in_flight n) \<Longrightarrow> entry (routers n (sr_peer item)) (sr_request_id item) \<noteq> None"
    and "\<exists>rank. ranked (origins n rid) rank"
  using assms unfolding net_inv_def by blast+

lemma net_start_inv: "net_start n \<Longrightarrow> net_inv n"
  by (auto simp: net_start_def net_inv_def origins_def intro!: exI [of "ranked _" "\<lambda>_. 0"] ranked_empty)

lemma origins_cong: "routers n' = routers n \<Longrightarrow> origins n' = origins n"
  by (auto simp: origins_def fun_eq_iff)

lemma handled_inv:
  assumes inv: "net_inv n" and sub: "set ms \<subseteq> set (in_flight n)"
    and src: "sr_peer item = p \<or> entry (routers n (sr_peer item)) (sr_request_id item) \<noteq> None"
    and h: "handleSearchRequest env item (routers n p) = Inr (t', outs)"
  shows "net_inv (n\<lparr>routers := (routers n)(p := t'), in_flight := ms @ posted p outs\<rparr>)"
proof (cases "accepts_request (routers n p) item")
  case False
  then have "t' = routers n p" "outs = []" using h by (simp_all add: dropped_request)
  then show ?thesis
    using inv sub by (auto simp: net_inv_def posted_def fun_upd_idem cong: origins_cong)
next
  case True
  let ?rid = "sr_request_id item"
  obtain req where req: "ri_origin req = sr_peer item"
    "t' = (routers n p)\<lparr>search_requests_origins := map_put ?rid req (search_requests_origins (routers n p))\<rparr>"
    "requests_sent outs = [] \<or> Inr (requests_sent outs) = forward_request env (routers n p) item"
    by (rule accepted_request [OF h True])
  let ?n = "n\<lparr>routers := (routers n)(p := t'), in_flight := ms @ posted p outs\<rparr>"
  have e: "entry t' rid = (if rid = ?rid then Some req else entry (routers n p) rid)" for rid
    using req(2) by simp
  have own: "own_id (routers ?n q) = q" for q using inv req(2) by (simp add: net_inv_def)
  have fl: "entry (routers ?n (sr_peer r)) (sr_request_id r) \<noteq> None" if m: "(q, r) \<in> set (in_flight ?n)" for q r
  proof (cases "(q, r) \<in> set ms")
    case True
    then have "entry (routers n (sr_peer r)) (sr_request_id r) \<noteq> None" using inv sub by (auto simp: net_inv_def)
    then show ?thesis using e by (auto split: if_splits)
  next
    case False
    then have "(q, r) \<in> set (posted p outs)" using m by simp
    then have "sr_peer r = p" "sr_request_id r = ?rid"
      using req(3) by (auto simp: posted_def dest: forward_requestD)
    then show ?thesis using e by simp
  qed
  have rk: "\<exists>rank. ranked (origins ?n rid) rank" for rid
  proof -
    obtain rank where rank: "ranked (origins n rid) rank" using net_invD(3) [OF inv] by blast
    show ?thesis
    proof (cases "rid = ?rid")
      case True
      have "origins n rid p = None" using accepted_new [OF \<open>accepts_request (routers n p) item\<close>] True
        by (simp add: origins_def)
      moreover have "sr_peer item = p \<or> origins n rid (sr_peer item) \<noteq> None" using src True by (auto simp: origins_def)
      moreover have "origins ?n rid = (origins n rid)(p \<mapsto> sr_peer item)"
        using e req(1) True by (auto simp: origins_def fun_eq_iff)
      ultimately show ?thesis using ranked_new [OF rank] by metis
    next
      case False
      then have "origins ?n rid = origins n rid" using e by (auto simp: origins_def fun_eq_iff)
      then show ?thesis using rank by metis
    qed
  qed
  show ?thesis unfolding net_inv_def using own fl rk by blast
qed

lemma net_step_inv:
  assumes inv: "net_inv n" and step: "net_step n ev n'"
  shows "net_inv n'"
  using step
proof cases
  case (step_search env rid b p t' outs)
  have "net_inv (n\<lparr>routers := (routers n)(p := t'), in_flight := in_flight n @ posted p outs\<rparr>)"
    by (rule handled_inv [OF inv order.refl _ step_search(3) [unfolded turtleSearch_def]])
      (use inv in \<open>simp add: net_inv_def\<close>)
  then show ?thesis using step_search(2) by simp
next
  case (step_deliver before p item after env t' outs)
  have "net_inv (n\<lparr>routers := (routers n)(p := t'), in_flight := (before @ after) @ posted p outs\<rparr>)"
    by (rule handled_inv [OF inv _ _ step_deliver(4)])
      (use inv step_deliver(3) in \<open>auto simp: net_inv_def\<close>)
  then show ?thesis using step_deliver(2) by simp
next
  case (step_lose before m after)
  then show ?thesis using inv by (auto simp: net_inv_def cong: origins_cong)
next
  case (step_result env item p t' outs)
  from handleSearchResult_entries [OF step_result(3)]
  have own: "own_id t' = p"
    and e: "\<And>rid. map_option ri_origin (entry t' rid) = map_option ri_origin (entry (routers n p) rid)"
    using inv by (simp_all add: net_inv_def)
  have none: "entry t' rid = None \<longleftrightarrow> entry (routers n p) rid = None" for rid
    using e [of rid] by (cases "entry t' rid"; cases "entry (routers n p) rid") simp_all
  have "origins n' rid = origins n rid" for rid using e step_result(2) by (auto simp: origins_def fun_eq_iff)
  then have rk: "\<exists>rank. ranked (origins n' rid) rank" for rid using net_invD(3) [OF inv] by metis
  have "own_id (routers n' q) = q" for q using inv own step_result(2) by (simp add: net_inv_def)
  moreover have "entry (routers n' (sr_peer r)) (sr_request_id r) \<noteq> None" if "(q, r) \<in> set (in_flight n')" for q r
    using net_invD(2) [OF inv, of q r] that none [of "sr_request_id r"] step_result(2) by (cases "sr_peer r = p") auto
  ultimately show ?thesis unfolding net_inv_def using rk by blast
qed

interpretation turtle_net: inductive_invariant net_start net_step net_inv
  by unfold_locales (rule net_start_inv, assumption, rule net_step_inv)

section \<open>Results travel home\<close>

text \<open>Passing a result on: a router that sends it to a peer hands it over there.\<close>

fun carry :: "nat \<Rightarrow> (TurtlePeerId \<Rightarrow> turtle_env) \<Rightarrow> TurtlePeerId \<Rightarrow> SearchResultItem \<Rightarrow> turtle_net \<Rightarrow>
    turtle_net \<times> (TurtlePeerId \<times> turtle_output) option" where
  "carry 0 env p item n = (n, None)"
| "carry (Suc k) env p item n =
     (case handleSearchResult (env p) item (routers n p) of
        Inl e \<Rightarrow> (n, None)
      | Inr (t', outs) \<Rightarrow>
          (let n' = n\<lparr>routers := (routers n)(p := t')\<rparr> in
           (case outs of
              [SendResult r] \<Rightarrow> carry k env (rr_peer r) (r\<lparr>rr_peer := p\<rparr>) n'
            | [Notify service r] \<Rightarrow> (n', Some (p, Notify service r))
            | _ \<Rightarrow> (n', None))))"

text \<open>A router lets a result pass: nothing in it is banned, the request is at most twenty seconds old
  and has hits left, and the client that asked is there.\<close>

definition lets_pass :: "turtle_env \<Rightarrow> result_body \<Rightarrow> TurtleSearchRequestInfo \<Rightarrow> bool" where
  "lets_pass env b info =
     (without_banned env b = b \<and> te_now env \<le> uint (ri_time_stamp info) + SEARCH_REQUESTS_RESULT_TIME \<and>
      ri_result_count info < ri_max_allowed_hits info \<and>
      \<not> ri_max_allowed_hits info < ri_result_count info + result_count_of b \<and>
      te_service env (ri_service_id info) \<noteq> None \<and> te_is_ftServer env (ri_service_id info))"

text \<open>A result that can be copied: not without content, and not beyond what a process may allocate.\<close>

definition whole_result :: "result_body \<Rightarrow> bool" where
  "whole_result b =
     (case b of FTResult fs \<Rightarrow> fs \<noteq> [] | GenericResult d \<Rightarrow> d \<noteq> [] \<and> length d \<le> 1024 * 1024 * 1024)"

lemma whole_result_copied: "whole_result (rr_body item) \<Longrightarrow> duplicate_result item = Inr item"
  by (auto simp: whole_result_def duplicate_result_def rs_malloc_ok split: result_body.splits)

lemma passes_on:
  assumes "entry t rid = Some info" "lets_pass env b info" "whole_result b" "rr_request_id item = rid" "rr_body item = b"
  shows "ri_origin info \<noteq> own_id t \<Longrightarrow>
      \<exists>t'. handleSearchResult env item t = Inr (t', [SendResult (item\<lparr>rr_peer := ri_origin info\<rparr>)])"
    and "ri_origin info = own_id t \<Longrightarrow>
      \<exists>t'. handleSearchResult env item t = Inr (t', [Notify (ri_service_id info) item])"
proof -
  have i: "item\<lparr>rr_body := b\<rparr> = item" using assms(5) by simp
  have ne: "b \<noteq> FTResult []" and d: "duplicate_result item = Inr item"
    using assms(3,5) whole_result_copied [of item] by (auto simp: whole_result_def)
  show "ri_origin info \<noteq> own_id t \<Longrightarrow>
      \<exists>t'. handleSearchResult env item t = Inr (t', [SendResult (item\<lparr>rr_peer := ri_origin info\<rparr>)])"
    using assms(1,2,4,5) i ne d by (auto simp: handleSearchResult_def Let_def lets_pass_def)
  show "ri_origin info = own_id t \<Longrightarrow>
      \<exists>t'. handleSearchResult env item t = Inr (t', [Notify (ri_service_id info) item])"
    using assms(1,2,4,5) i ne by (auto simp: handleSearchResult_def Let_def lets_pass_def notify_client_def split: result_body.splits)
qed

lemma carry_Suc:
  "handleSearchResult (env p) item (routers n p) = Inr (t', [SendResult r]) \<Longrightarrow>
   carry (Suc k) env p item n = carry k env (rr_peer r) (r\<lparr>rr_peer := p\<rparr>) (n\<lparr>routers := (routers n)(p := t')\<rparr>)"
  "handleSearchResult (env p) item (routers n p) = Inr (t', [Notify service r]) \<Longrightarrow>
   carry (Suc k) env p item n = (n\<lparr>routers := (routers n)(p := t')\<rparr>, Some (p, Notify service r))"
  by (simp_all add: Let_def)

text \<open>A result makes at most one output.\<close>

lemma handleSearchResult_outs:
  assumes "handleSearchResult env item t = Inr (t', outs)"
  obtains "outs = []" | r where "outs = [SendResult r]" | service r where "outs = [Notify service r]"
  using assms
  by (atomize_elim) (auto simp: handleSearchResult_def notify_client_def Let_def
    split: option.splits result_body.splits sum.splits if_splits)

lemma carry_more: "carry k env p item n = (n', Some x) \<Longrightarrow> k \<le> k' \<Longrightarrow> carry k' env p item n = (n', Some x)"
proof (induction k arbitrary: k' p item n)
  case (Suc k)
  then obtain j where j: "k' = Suc j" "k \<le> j" by (cases k') auto
  obtain t' outs where h: "handleSearchResult (env p) item (routers n p) = Inr (t', outs)"
    using Suc.prems(1) by (cases "handleSearchResult (env p) item (routers n p)") auto
  show ?case
  proof (cases rule: handleSearchResult_outs [OF h])
    case 1
    then show ?thesis using Suc.prems(1) h by (simp add: Let_def)
  next
    case (2 r)
    then have h2: "handleSearchResult (env p) item (routers n p) = Inr (t', [SendResult r])" using h by simp
    show ?thesis using Suc.prems(1) Suc.IH [OF _ j(2)] unfolding j(1) carry_Suc(1) [where env = env and p = p and item = item and n = n, OF h2] by blast
  next
    case (3 service r)
    then have h3: "handleSearchResult (env p) item (routers n p) = Inr (t', [Notify service r])" using h by simp
    show ?thesis using Suc.prems(1) unfolding j(1) carry_Suc(2) [where env = env and p = p and item = item and n = n and k = k, OF h3] carry_Suc(2) [where env = env and p = p and item = item and n = n and k = j, OF h3] .
  qed
qed simp

declare carry.simps(2) [simp del]

lemma carry_home:
  assumes "ranked (origins n rid) rank" "\<forall>p. own_id (routers n p) = p" "whole_result b"
    and "entry (routers n p) rid = Some info"
    and "\<forall>q info. rank q \<le> rank p \<longrightarrow> entry (routers n q) rid = Some info \<longrightarrow> lets_pass (env q) b info"
    and "rr_request_id item = rid" "rr_body item = b"
  shows "\<exists>n' home info' item'. carry (Suc (rank p)) env p item n = (n', Some (home, Notify (ri_service_id info') item')) \<and>
           rr_request_id item' = rid \<and> rr_body item' = b \<and>
           entry (routers n home) rid = Some info' \<and> ri_origin info' = home \<and> rank home \<le> rank p"
  using assms
proof (induction "rank p" arbitrary: p info item n rule: less_induct)
  case less
  note lp = less.prems(5) [rule_format, OF order.refl less.prems(4)]
  show ?case
  proof (cases "ri_origin info = p")
    case True
    then obtain t' where "handleSearchResult (env p) item (routers n p) = Inr (t', [Notify (ri_service_id info) item])"
      using passes_on(2) [OF less.prems(4) lp less.prems(3,6,7)] less.prems(2) by auto
    then show ?thesis using True less.prems(4,6,7) by (auto simp: carry_Suc)
  next
    case False
    let ?o = "ri_origin info"
    obtain t' where h: "handleSearchResult (env p) item (routers n p) = Inr (t', [SendResult (item\<lparr>rr_peer := ?o\<rparr>)])"
      using passes_on(1) [OF less.prems(4) lp less.prems(3,6,7)] less.prems(2) False by auto
    let ?n = "n\<lparr>routers := (routers n)(p := t')\<rparr>"
    have lower: "rank ?o < rank p" and eo: "entry (routers n ?o) rid \<noteq> None"
      using rankedD [OF less.prems(1), of p ?o] less.prems(4) False by (auto simp: origins_def)
    from handleSearchResult_entries [OF h]
    have own: "own_id t' = p" and e: "map_option ri_origin (entry t' rid) = map_option ri_origin (entry (routers n p) rid)"
      using less.prems(2) by simp_all
    from eo obtain infoo where "entry (routers ?n ?o) rid = Some infoo" using False by auto
    moreover have "origins ?n rid = origins n rid" using e by (auto simp: origins_def fun_eq_iff)
    then have "ranked (origins ?n rid) rank" using less.prems(1) by simp
    moreover have "\<forall>q. own_id (routers ?n q) = q" using less.prems(2) own by simp
    moreover have "\<forall>q info. rank q \<le> rank ?o \<longrightarrow> entry (routers ?n q) rid = Some info \<longrightarrow> lets_pass (env q) b info"
      using less.prems(5) lower by auto
    ultimately obtain n' home info' item' where
      c: "carry (Suc (rank ?o)) env ?o (item\<lparr>rr_peer := p\<rparr>) ?n = (n', Some (home, Notify (ri_service_id info') item'))"
      "rr_request_id item' = rid" "rr_body item' = b" "entry (routers ?n home) rid = Some info'" "ri_origin info' = home"
      "rank home \<le> rank ?o"
      using less.hyps [OF lower, of ?n infoo "item\<lparr>rr_peer := p\<rparr>"] less.prems(3,6,7) by auto
    have "carry (rank p) env ?o (item\<lparr>rr_peer := p\<rparr>) ?n = (n', Some (home, Notify (ri_service_id info') item'))"
      using carry_more [OF c(1), of "rank p"] lower by simp
    then have k: "carry (Suc (rank p)) env p item n = (n', Some (home, Notify (ri_service_id info') item'))"
      using h by (simp add: carry_Suc)
    have "home \<noteq> p" "rank home \<le> rank p" using c(6) lower by auto
    then show ?thesis using k c(2-5) by auto
  qed
qed

end
