(* ===== verification/Turtle_Bounds.thy ===== *)
theory Turtle_Bounds
  imports Turtle_Net
begin

text \<open>Two bounds: on the deliveries that the requests in flight can cause, and on the files that a router
  sends back for one request.\<close>

section \<open>Floods\<close>

inductive net_run :: "turtle_net \<Rightarrow> net_event list \<Rightarrow> turtle_net \<Rightarrow> bool" where
  net_run_Nil: "net_run n [] n"
| net_run_Cons: "net_step n ev m \<Longrightarrow> net_run m evs n' \<Longrightarrow> net_run n (ev # evs) n'"

inductive_cases net_run_ConsE: "net_run n (ev # evs) n'"

fun deliveries :: "net_event list \<Rightarrow> nat" where
  "deliveries [] = 0"
| "deliveries (Deliver p item env # evs) = Suc (deliveries evs)"
| "deliveries (_ # evs) = deliveries evs"

text \<open>No new search is started, and the peers a router finds online are at most \<open>F\<close> of the peers \<open>N\<close>.\<close>

fun relays_only :: "TurtlePeerId set \<Rightarrow> nat \<Rightarrow> net_event \<Rightarrow> bool" where
  "relays_only N F (Deliver p item env) = (set (te_online env) \<subseteq> N \<and> length (te_online env) \<le> F)"
| "relays_only N F Lose = True"
| "relays_only N F (Result p item env) = True"
| "relays_only N F (Search p rid b env) = False"

definition flight_within :: "TurtlePeerId set \<Rightarrow> TurtleRequestId set \<Rightarrow> turtle_net \<Rightarrow> bool" where
  "flight_within N ids n = (\<forall>(p, item) \<in> set (in_flight n). p \<in> N \<and> sr_request_id item \<in> ids)"

definition unaware :: "TurtlePeerId set \<Rightarrow> TurtleRequestId set \<Rightarrow> turtle_net \<Rightarrow> (TurtlePeerId \<times> TurtleRequestId) set" where
  "unaware N ids n = {(p, rid). p \<in> N \<and> rid \<in> ids \<and> entry (routers n p) rid = None}"

definition flood_rank :: "TurtlePeerId set \<Rightarrow> TurtleRequestId set \<Rightarrow> nat \<Rightarrow> turtle_net \<Rightarrow> nat" where
  "flood_rank N ids F n = length (in_flight n) + F * card (unaware N ids n)"

lemma finite_unaware: "finite N \<Longrightarrow> finite ids \<Longrightarrow> finite (unaware N ids n)"
  by (rule finite_subset [of _ "N \<times> ids"]) (auto simp: unaware_def)

lemma unaware_card: "finite N \<Longrightarrow> finite ids \<Longrightarrow> card (unaware N ids n) \<le> card N * card ids"
  using card_mono [of "N \<times> ids" "unaware N ids n"] by (auto simp: unaware_def card_cartesian_product)

lemma deliver_rank:
  assumes fin: "finite N" "finite ids" and fl: "flight_within N ids n"
    and ok: "set (te_online env) \<subseteq> N" "length (te_online env) \<le> F"
    and n: "in_flight n = before @ (p, item) # after"
    and h: "handleSearchRequest env item (routers n p) = Inr (t', outs)"
    and n': "n' = n\<lparr>routers := (routers n)(p := t'), in_flight := before @ after @ posted p outs\<rparr>"
  shows "flight_within N ids n' \<and> Suc (flood_rank N ids F n') \<le> flood_rank N ids F n"
proof (cases "accepts_request (routers n p) item")
  case False
  then have "t' = routers n p" "outs = []" using h by (simp_all add: dropped_request)
  then show ?thesis
    using fl n n' by (auto simp: flight_within_def flood_rank_def posted_def unaware_def)
next
  case True
  let ?rid = "sr_request_id item"
  obtain req where req: "ri_origin req = sr_peer item"
    "t' = (routers n p)\<lparr>search_requests_origins := map_put ?rid req (search_requests_origins (routers n p))\<rparr>"
    "requests_sent outs = [] \<or> Inr (requests_sent outs) = forward_request env (routers n p) item"
    by (rule accepted_request [OF h True])
  have pid: "p \<in> N" "?rid \<in> ids" using fl n by (auto simp: flight_within_def)
  have "unaware N ids n' = unaware N ids n - {(p, ?rid)}"
    using n' req(2) by (auto simp: unaware_def split: if_splits)
  moreover have "(p, ?rid) \<in> unaware N ids n"
    using pid accepted_new [OF True] by (simp add: unaware_def)
  ultimately have c: "Suc (card (unaware N ids n')) = card (unaware N ids n)"
    using card_Suc_Diff1 [OF finite_unaware [OF fin]] by simp
  have "length (posted p outs) \<le> F"
    using req(3) forward_request_length [of "requests_sent outs" env "routers n p" item] ok(2) by (auto simp: posted_def)
  moreover have "F * card (unaware N ids n) = F + F * card (unaware N ids n')"
    using c [symmetric] by simp
  ultimately have "Suc (flood_rank N ids F n') \<le> flood_rank N ids F n"
    using n n' by (simp add: flood_rank_def)
  moreover have "flight_within N ids n'"
    using fl n n' req(3) ok(1) pid
    by (auto simp: flight_within_def posted_def dest!: forward_requestD)
  ultimately show ?thesis by simp
qed

lemma other_rank:
  assumes "flight_within N ids n" "relays_only N F ev" "net_step n ev n'" "\<nexists>p item env. ev = Deliver p item env"
    and fin: "finite N" "finite ids"
  shows "flight_within N ids n' \<and> flood_rank N ids F n' \<le> flood_rank N ids F n"
  using assms(3)
proof cases
  case (step_result env item p t' outs)
  have "entry t' rid = None \<longleftrightarrow> entry (routers n p) rid = None" for rid
    using handleSearchResult_entries [OF step_result(3)] 
    by (metis map_option_is_None)
  then have "unaware N ids n' = unaware N ids n" using step_result(2) by (auto simp: unaware_def split: if_splits)
  then show ?thesis using assms(1) step_result(2) by (simp add: flood_rank_def flight_within_def)
next
  case (step_lose before m after)
  then show ?thesis using assms(1) by (auto simp: flood_rank_def flight_within_def unaware_def)
qed (use assms in auto)

lemma flood_run:
  assumes fin: "finite N" "finite ids"
  shows "net_run n evs n' \<Longrightarrow> flight_within N ids n \<Longrightarrow> list_all (relays_only N F) evs \<Longrightarrow>
    deliveries evs + flood_rank N ids F n' \<le> flood_rank N ids F n"
proof (induction rule: net_run.induct)
  case (net_run_Cons n ev m evs n')
  show ?case
  proof (cases "\<exists>p item env. ev = Deliver p item env")
    case True
    then obtain p item env where ev: "ev = Deliver p item env" by blast
    with net_run_Cons.hyps(1) obtain before after t' outs where s:
      "in_flight n = before @ (p, item) # after" "handleSearchRequest env item (routers n p) = Inr (t', outs)"
      "m = n\<lparr>routers := (routers n)(p := t'), in_flight := before @ after @ posted p outs\<rparr>"
      by (auto elim: net_step.cases)
    have "flight_within N ids m \<and> Suc (flood_rank N ids F m) \<le> flood_rank N ids F n"
      using net_run_Cons.prems ev by (intro deliver_rank [OF fin _ _ _ s]) simp_all
    then show ?thesis using net_run_Cons.IH net_run_Cons.prems ev by simp
  next
    case False
    then have "flight_within N ids m \<and> flood_rank N ids F m \<le> flood_rank N ids F n"
      using net_run_Cons by (intro other_rank [OF _ _ _ _ fin]) simp_all
    moreover have "deliveries (ev # evs) = deliveries evs" using False by (cases ev) simp_all
    ultimately show ?thesis using net_run_Cons.IH net_run_Cons.prems by simp
  qed
qed simp

section \<open>Hits\<close>

fun files_sent :: "TurtleRequestId \<Rightarrow> turtle_output list \<Rightarrow> nat" where
  "files_sent rid [] = 0"
| "files_sent rid (SendResult r # outs) =
     (case rr_body r of FTResult fs \<Rightarrow> if rr_request_id r = rid then length fs else 0 | GenericResult _ \<Rightarrow> 0) +
     files_sent rid outs"
| "files_sent rid (_ # outs) = files_sent rid outs"

lemma files_sent_append [simp]: "files_sent rid (xs @ ys) = files_sent rid xs + files_sent rid ys"
  by (induction xs rule: files_sent.induct) simp_all

lemma files_sent_requests [simp]: "files_sent rid (map SendRequest rs) = 0"
  by (induction rs) simp_all

lemma sum_length_rev [simp]: "sum_list (map length (rev xs)) = sum_list (map length xs)"
  by (simp add: rev_map [symmetric] sum_list_rev)

lemma chop_results_count:
  "chop_results fs m n acc s = (items, k) \<Longrightarrow> n < m \<Longrightarrow>
   unat n \<le> unat k \<and> unat k \<le> unat m \<and> sum_list (map length items) = sum_list (map length acc) + (unat k - unat n)"
proof (induction fs m n acc s rule: chop_results.induct)
  case (1 m n acc s)
  then show ?case by (auto simp: word_less_nat_alt)
next
  case (2 f fs m n acc s)
  have n1: "unat (n + 1) = Suc (unat n)"
    using 2(3) unat_u32_less [of m] by (subst unat_add_u32_id) (simp_all add: word_less_nat_alt)
  let ?acc = "case s of None \<Rightarrow> [f] # acc | Some _ \<Rightarrow> (case acc of [] \<Rightarrow> [[f]] | fs' # rest \<Rightarrow> (fs' @ [f]) # rest)"
  have a: "sum_list (map length ?acc) = Suc (sum_list (map length acc))"
    by (simp split: option.splits list.splits)
  show ?case
  proof (cases "m \<le> n + 1")
    case True
    then have "items = rev ?acc" "k = n + 1" using 2(2) by (simp_all add: Let_def)
    then show ?thesis using n1 a 2(3) by (simp add: word_less_nat_alt)
  next
    case False
    then have r: "chop_results fs m (n + 1) ?acc
        (let s1 = (case s of None \<Rightarrow> 0 | Some s \<Rightarrow> s) + (28 + word_of_nat (length (tf_name f)))
         in if s1 > RSTURTLE_MAX_SEARCH_RESPONSE_SIZE then None else Some s1) = (items, k)"
      using 2(2) by (simp add: Let_def)
    show ?thesis
      using "2.IH" [OF refl refl refl refl False] r False n1 a by (simp add: Let_def not_le, arith)
  qed
qed

text \<open>Calls with results, one after the other, at one router. A fault ends them.\<close>

fun run_results :: "(turtle_env \<times> SearchResultItem) list \<Rightarrow> p3turtle \<Rightarrow> p3turtle \<times> turtle_output list" where
  "run_results [] t = (t, [])"
| "run_results ((env, item) # calls) t =
     (case handleSearchResult env item t of
        Inl e \<Rightarrow> (t, [])
      | Inr (t1, outs) \<Rightarrow> (case run_results calls t1 of (t2, outs2) \<Rightarrow> (t2, outs @ outs2)))"

definition short_result :: "SearchResultItem \<Rightarrow> bool" where
  "short_result item = (case rr_body item of FTResult fs \<Rightarrow> length fs < 2147483648 | GenericResult _ \<Rightarrow> True)"

text \<open>A router that passes results on for another has not passed on more than the limit.\<close>

definition within_limit :: "p3turtle \<Rightarrow> TurtleRequestId \<Rightarrow> u32 \<Rightarrow> nat \<Rightarrow> bool" where
  "within_limit t rid m k =
     (\<exists>info. entry t rid = Some info \<and> ri_origin info \<noteq> own_id t \<and> ri_max_allowed_hits info = m \<and>
        unat (ri_result_count info) \<le> unat m \<and> k \<le> unat (ri_result_count info))"

lemma pops_length: "(result_pop ^^ k) (FTResult fs) = FTResult (take (length fs - k) fs)"
  by (induction k) (simp_all add: result_pop_def butlast_take)

lemma pops_generic: "(result_pop ^^ k) (GenericResult d) = GenericResult d"
  by (induction k) (simp_all add: result_pop_def)

lemma duplicate_result_same: "duplicate_result item = Inr fwd \<Longrightarrow> fwd = item"
  by (auto simp: duplicate_result_def split: result_body.splits sum.splits)

lemma result_within_limit:
  assumes w: "within_limit t rid m k" and m: "unat m < 2147483648" and short: "short_result item"
    and h: "handleSearchResult env item t = Inr (t', outs)"
  shows "within_limit t' rid m (k + files_sent rid outs)"
proof -
  obtain info where i: "entry t rid = Some info" "ri_origin info \<noteq> own_id t" "ri_max_allowed_hits info = m"
      "unat (ri_result_count info) \<le> unat m" "k \<le> unat (ri_result_count info)"
    using w by (auto simp: within_limit_def)
  show ?thesis
  proof (cases "rr_request_id item = rid")
    case False
    then show ?thesis
      using h i
      by (auto simp: handleSearchResult_def notify_client_def within_limit_def Let_def
        split: if_splits option.splits result_body.splits sum.splits dest!: duplicate_result_same)
  next
    case rid: True
    let ?b = "without_banned env (rr_body item)"
    let ?n = "result_count_of ?b"
    show ?thesis
    proof (cases "outs = []")
      case True
      then have "t' = t" using h i rid by (auto simp: handleSearchResult_def Let_def split: if_splits sum.splits)
      then show ?thesis using w True by simp
    next
      case False
      then have lt: "ri_result_count info < m"
        using h i rid by (auto simp: handleSearchResult_def Let_def split: if_splits)
      let ?over = "m < ri_result_count info + ?n"
      let ?pops = "if ?over then unat (ri_result_count info + ?n) - unat m else 0"
      let ?info = "info\<lparr>ri_result_count := if ?over then m else ri_result_count info + ?n\<rparr>"
      have t': "t' = t\<lparr>search_requests_origins := map_put rid ?info (search_requests_origins t)\<rparr>"
        and outs: "outs = [SendResult (item\<lparr>rr_body := (result_pop ^^ ?pops) ?b, rr_peer := ri_origin info\<rparr>)]"
        using h i rid lt False by (auto simp: handleSearchResult_def Let_def split: if_splits sum.splits dest!: duplicate_result_same)
      have sent: "k + files_sent rid outs \<le> unat (if ?over then m else ri_result_count info + ?n)"
      proof (cases ?b)
        case (FTResult fs)
        then have "length fs < 2147483648"
          using short by (auto simp: short_result_def without_banned_def split: result_body.splits
            intro: le_less_trans [OF length_filter_le])
        then have n: "unat ?n = length fs" using FTResult by (simp add: result_count_of_def word_of_nat_less_u32)
        then have "unat (ri_result_count info + ?n) = unat (ri_result_count info) + length fs"
          using \<open>length fs < 2147483648\<close> m i(4) by (simp add: unat_add_u32_id)
        then show ?thesis
          using outs FTResult rid i(5) lt by (auto simp: pops_length word_less_nat_alt)
      next
        case (GenericResult d)
        have "unat ?n < 85899346" using GenericResult unat_u32_less [of "word_of_nat (length d)"]
          by (simp add: result_count_of_def unat_div)
        then have "unat (ri_result_count info) \<le> unat (ri_result_count info + ?n)"
          using m i(4) by (simp add: unat_add_u32_id)
        then show ?thesis using outs GenericResult i(4,5) by (auto simp: pops_generic)
      qed
      show ?thesis
        using t' i sent by (auto simp: within_limit_def word_less_nat_alt split: if_splits)
    qed
  qed
qed

lemma run_within_limit:
  "within_limit t rid m k \<Longrightarrow> unat m < 2147483648 \<Longrightarrow> list_all (\<lambda>(env, item). short_result item) calls \<Longrightarrow>
   run_results calls t = (t', outs) \<Longrightarrow> within_limit t' rid m (k + files_sent rid outs)"
proof (induction calls arbitrary: t k outs)
  case (Cons c calls)
  obtain env item where c: "c = (env, item)" by fastforce
  show ?case
  proof (cases "handleSearchResult env item t")
    case (Inl e)
    then show ?thesis using Cons.prems(1,4) c by simp
  next
    case (Inr x)
    then obtain t1 outs1 where 1: "handleSearchResult env item t = Inr (t1, outs1)" by (cases x) simp
    obtain outs2 where 2: "run_results calls t1 = (t', outs2)" "outs = outs1 @ outs2"
      using Cons.prems(4) c 1 by (auto split: prod.splits)
    have "within_limit t1 rid m (k + files_sent rid outs1)"
      using result_within_limit [OF Cons.prems(1,2) _ 1] Cons.prems(3) c by simp
    from Cons.IH [OF this Cons.prems(2) _ 2(1)] show ?thesis using Cons.prems(3) 2(2) by (simp add: add.assoc)
  qed
qed simp

lemma request_within_limit:
  assumes h: "handleSearchRequest env item t = Inr (t', outs)" and a: "accepts_request t item"
    and other: "sr_peer item \<noteq> own_id t" and files: "\<nexists>service type d. sr_body item = GenericSearch service type d"
  shows "within_limit t' (sr_request_id item) TURTLE_SEARCH_RESULT_MAX_HITS_FILES (files_sent (sr_request_id item) outs)"
proof -
  let ?rid = "sr_request_id item"
  obtain fs where fs: "local_files env (sr_body item) = Inr fs"
    using h a other files by (cases "local_files env (sr_body item)")
      (auto simp: handleSearchRequest_def performLocalSearch_def split: request_body.splits)
  obtain items n where c: "chop_results fs TURTLE_SEARCH_RESULT_MAX_HITS_FILES 0 [] None = (items, n)" by fastforce
  have p: "performLocalSearch env (sr_body item) TURTLE_SEARCH_RESULT_MAX_HITS_DEFAULT =
      Inr (map FTResult items, n, TURTLE_SEARCH_RESULT_MAX_HITS_FILES)"
    using fs c files by (auto simp: performLocalSearch_def split: request_body.splits)
  from chop_results_count [OF c] have n: "unat n \<le> 5000" "sum_list (map length items) = unat n" by simp_all
  have s: "files_sent ?rid (map (\<lambda>b. SendResult \<lparr>rr_peer = q, rr_request_id = ?rid, rr_body = b\<rparr>) (map FTResult xss)) =
      sum_list (map length xss)" for q xss
    by (induction xss) simp_all
  show ?thesis
    using h a other p n s [of "sr_peer item" items]
    by (auto simp: handleSearchRequest_def within_limit_def Let_def split: option.splits if_splits sum.splits)
qed

end
