(* ===== verification/Search_Props.thy ===== *)
theory Search_Props
  imports Turtle_Bounds
begin

text \<open>The properties of search expressions and of the routers that pass them on.\<close>

section \<open>Matching strings\<close>

text \<open>What a comparison sees of a string.\<close>

definition seen :: "bool \<Rightarrow> bytes \<Rightarrow> bytes" where
  "seen ic s = (if ic then map to_lower s else s)"

definition contains :: "bool \<Rightarrow> bytes \<Rightarrow> bytes \<Rightarrow> bool" where
  "contains ic s t = (s \<noteq> [] \<and> sublist (seen ic t) (seen ic s))"

lemma std_equal_prefix: "std_equal (\<lambda>p c. f c = f p) pat s = prefix (map f pat) (map f s)"
proof (induction pat arbitrary: s)
  case (Cons p pat)
  then show ?case by (cases s) auto
qed simp

lemma std_search_found:
  "std_search (\<lambda>c p. f c = f p) s pat \<noteq> length s \<longleftrightarrow> s \<noteq> [] \<and> sublist (map f pat) (map f s)"
proof (induction s)
  case (Cons c s)
  have "sublist (map f pat) (map f (c # s)) \<longleftrightarrow> prefix (map f pat) (map f (c # s)) \<or> sublist (map f pat) (map f s)"
    by (simp add: sublist_Cons_right)
  moreover have "sublist (map f pat) (map f s) \<Longrightarrow> s = [] \<Longrightarrow> prefix (map f pat) (map f (c # s))" by simp
  ultimately show ?case using Cons std_equal_prefix [of f pat "c # s"] by auto
qed simp

lemma StrContains_contains: "StrContains s t ic = contains ic s t"
proof (cases ic)
  case True
  have "CompareCharIC = (\<lambda>c p. to_lower c = to_lower p)" by (intro ext) (simp add: CompareCharIC_def)
  then show ?thesis using True std_search_found [of to_lower s t] by (simp add: StrContains_def contains_def seen_def)
next
  case False
  have "(=) = (\<lambda>c p :: u8. id c = id p)" by (intro ext) simp
  then have "std_search (=) s t \<noteq> length s \<longleftrightarrow> s \<noteq> [] \<and> sublist (map id t) (map id s)"
    using std_search_found [of id s t] by metis
  then show ?thesis using False by (simp add: StrContains_def contains_def seen_def)
qed

lemma std_equal_same: "length s = length t \<Longrightarrow> std_equal (=) s t \<longleftrightarrow> s = t"
  by (induction s t rule: list_induct2) simp_all

text \<open>C24. Matching is what its names say: \<^verbatim>\<open>ContainsAllStrings\<close> and \<^verbatim>\<open>ContainsAnyStrings\<close> look for the terms as
  substrings of a string that is not empty, up to case when case is to be ignored; \<^verbatim>\<open>EqualsString\<close> compares
  byte by byte whatever the flag for the case says.\<close>

theorem string_match_spec:
  "evalStr op terms ic s =
     (if op = ContainsAllStrings then list_all (contains ic s) terms
      else if op = ContainsAnyStrings then list_ex (contains ic s) terms
      else op = EqualsString \<and> s \<in> set terms)"
proof -
  have "StrEquals s t ic = (s = t)" for t using std_equal_same [of s t] by (auto simp: StrEquals_def)
  then have "list_ex (\<lambda>t. StrEquals s t ic) terms = (s \<in> set terms)" by (auto simp: list_ex_iff)
  then show ?thesis by (simp add: evalStr_def StrContains_contains)
qed

section \<open>The way of an expression\<close>

lemma request_expr_whole: "whole x \<Longrightarrow> request_expr (vectors_of x) = Done (Some (restored x))"
  unfolding request_expr_def
  by (rule toExpr_enough [of "nesting x"]) (auto elim!: toExpr_vectors [of x "nesting x"] simp: toExpr_def)

text \<open>C15. An expression of any shape that is linearised, written to bytes, read from them and rebuilt comes
  back the same when it has no path expression: then the peer searches for what was asked. With path
  expressions, \<open>restored\<close> is what comes back. The three steps succeed whenever there is room and the terms
  are left alone by the filters of the strings.\<close>

theorem search_request_round_trip:
  assumes "whole x" and "wf_linearized (vectors_of x)" and "fits d sz off (length (enc_linearized (vectors_of x)))"
  shows "\<exists>e d' off'. linearize x empty_linearized = Some e \<and>
           linearized_serialize (Some d) sz off e = Some (True, Some d', off') \<and>
           linearized_deserialize (Some d') sz off = Some (off', Some e) \<and>
           request_expr e = Done (Some (restored x)) \<and> (has_path x \<or> restored x = x)"
proof -
  obtain d' where "linearized_serialize (Some d) sz off (vectors_of x) =
        Some (True, Some d', off + word_of_nat (length (enc_linearized (vectors_of x))))"
      "linearized_deserialize (Some d') sz off =
        Some (off + word_of_nat (length (enc_linearized (vectors_of x))), Some (vectors_of x))"
    using linearized.round_trip [OF assms(2,3)] by blast
  then show ?thesis
    using linearize_whole [OF assms(1)] request_expr_whole [OF assms(1)] restored_no_path [OF assms(1)] by blast
qed

definition sample_expr :: Expression where
  "sample_expr = CompoundExpression AndOp
     (Some (NameExpression ContainsAllStrings [[0x61, 0x62], [0x63]] True)) (Some (SizeExpression 3 1000 1000))"

lemma sample_clean: "clean_string TLV_TYPE_STR_VALUE [0x61, 0x62]" "clean_string TLV_TYPE_STR_VALUE [0x63]"
  by code_simp+

lemma sample_vectors:
  "vectors_of sample_expr =
     \<lparr>le_tokens = [7, 4, 2], le_ints = [0, 1, 1, 2, 3, 1000, 1000], le_strings = [[0x61, 0x62], [0x63]]\<rparr>"
  by (simp add: vectors_of_def sample_expr_def str_ints_def)

lemma sample_wf: "wf_linearized (vectors_of sample_expr)" "length (enc_linearized (vectors_of sample_expr)) = 58"
  by (simp_all add: sample_vectors sample_clean wf_linearized_def vec8.wf_vec_def vec32.wf_vec_def vecstr.wf_vec_def
    enc_linearized_def vec8.enc_vec_def vec32.enc_vec_def vecstr.enc_vec_def
    vec8.enc_list_def vec32.enc_list_def vecstr.enc_list_def)

lemma search_request_round_trip_witness:
  "\<exists>e d' off'. linearize sample_expr empty_linearized = Some e \<and>
     linearized_serialize (Some (replicate 60 0)) 60 0 e = Some (True, Some d', off') \<and>
     linearized_deserialize (Some d') 60 0 = Some (off', Some e) \<and>
     request_expr e = Done (Some (restored sample_expr)) \<and> (has_path sample_expr \<or> restored sample_expr = sample_expr)"
proof (rule search_request_round_trip)
  show "whole sample_expr" by (simp add: sample_expr_def)
  show "fits (replicate 60 0) 60 0 (length (enc_linearized (vectors_of sample_expr)))"
    by (simp add: sample_wf fits_def)
qed (rule sample_wf)

text \<open>C40. A search for a path is sent as a search for an extension: the peer finds no file whose name has no
  dot, whatever directory it is in.\<close>

theorem path_search_becomes_extension:
  assumes "find_last_of 0x2e (file_name f) = None" and "length terms < 2 ^ 31"
  shows "\<exists>e y. linearize (PathExpression op terms ic) empty_linearized = Some e \<and>
           request_expr e = Done (Some y) \<and> \<not> eval f y"
proof -
  have w: "whole (PathExpression op terms ic)" using assms(2) by simp
  show ?thesis
    using linearize_whole [OF w] request_expr_whole [OF w] assms(1) by auto
qed

definition sample_file :: ExpFileEntry where
  "sample_file = \<lparr>file_name = [0x78], file_size = 7, file_modtime = 9, file_popularity = 1,
     file_parent_path = [0x2f, 0x61, 0x62], file_hash = [0x30]\<rparr>"

lemma path_search_becomes_extension_witness:
  "eval sample_file (PathExpression ContainsAnyStrings [[0x61, 0x62]] False) \<and>
   (\<exists>e y. linearize (PathExpression ContainsAnyStrings [[0x61, 0x62]] False) empty_linearized = Some e \<and>
      request_expr e = Done (Some y) \<and> \<not> eval sample_file y)"
proof
  show "eval sample_file (PathExpression ContainsAnyStrings [[0x61, 0x62]] False)"
    by (simp add: sample_file_def evalStr_def StrContains_def)
  show "\<exists>e y. linearize (PathExpression ContainsAnyStrings [[0x61, 0x62]] False) empty_linearized = Some e \<and>
      request_expr e = Done (Some y) \<and> \<not> eval sample_file y"
    by (rule path_search_becomes_extension) (simp_all add: sample_file_def find_last_of_def)
qed

section \<open>Requests that break a router\<close>

text \<open>The first token is none that \<^verbatim>\<open>toExpr\<close> knows; or the vectors are those of an expression with some of
  them cut short.\<close>

definition unknown_first :: "LinearizedExpression \<Rightarrow> bool" where
  "unknown_first e = (case le_tokens e of tok # _ \<Rightarrow> 8 < tok | [] \<Rightarrow> False)"

definition cut_short :: "LinearizedExpression \<Rightarrow> bool" where
  "cut_short e = (\<exists>x. whole x \<and> cut_of e (vectors_of x) \<and> e \<noteq> vectors_of x)"

lemma unknown_first_expr:
  assumes "unknown_first e"
  shows "request_expr e = Done None"
proof -
  obtain tok ts where t: "le_tokens e = tok # ts" "8 < tok"
    using assms by (auto simp: unknown_first_def split: list.splits)
  have "\<not> 8 < (0 :: u8)" "\<not> 8 < (1 :: u8)" "\<not> 8 < (2 :: u8)" "\<not> 8 < (3 :: u8)" "\<not> 8 < (4 :: u8)"
    "\<not> 8 < (5 :: u8)" "\<not> 8 < (6 :: u8)" "\<not> 8 < (7 :: u8)" "\<not> 8 < (8 :: u8)" by simp_all
  then have "tok \<noteq> 0" "tok \<noteq> 1" "tok \<noteq> 2" "tok \<noteq> 3" "tok \<noteq> 4" "tok \<noteq> 5" "tok \<noteq> 6" "tok \<noteq> 7" "tok \<noteq> 8"
    using t(2) by metis+
  then show ?thesis
    using t(1) by (simp add: request_expr_def toExpr_def toExpr_from.simps(2) read_token_def vec_at_def start_cursor_def)
qed

lemma cut_short_expr:
  assumes "cut_short e"
  shows "request_expr e = Fault"
proof -
  obtain x where "whole x" "cut_of e (vectors_of x)" "e \<noteq> vectors_of x" using assms by (auto simp: cut_short_def)
  then have "toExpr (nesting x) e = Fault" by (intro toExpr_cut [of x]) simp_all
  then show ?thesis unfolding request_expr_def by (intro toExpr_enough) simp_all
qed

text \<open>C16. Reading a request from its bytes does not notice that its expression cannot be rebuilt, and the peer
  that accepts it does not either. If the first token is unknown, the tree is a null pointer, and its
  text is asked for through it. If the vectors are those of a well-formed expression with some of them cut
  short, a vector is read beyond its end. C++ defines neither; the first ends the process on every usual
  system.\<close>

theorem malformed_request_faults:
  assumes "accepts_request t item" and "sr_body item = RegExpSearch e" and "unknown_first e \<or> cut_short e"
    and "wf_linearized e" and "length (enc_linearized e) < 4294967296"
  shows "linearized_deserialize (Some (enc_linearized e)) (word_of_nat (length (enc_linearized e))) 0 =
           Some (word_of_nat (length (enc_linearized e)), Some e) \<and>
         handleSearchRequest env item t = Inl (if unknown_first e then Null_pointer else Out_of_block)"
proof
  let ?n = "length (enc_linearized e)"
  have "unat (word_of_nat ?n :: u32) = ?n" using assms(5) by (intro word_of_nat_less_u32) simp
  then have "fits (enc_linearized e) (word_of_nat ?n) 0 ?n" by (simp add: fits_def)
  from linearized.get_enc [OF assms(4) this]
  show "linearized_deserialize (Some (enc_linearized e)) (word_of_nat ?n) 0 = Some (word_of_nat ?n, Some e)" by simp
  show "handleSearchRequest env item t = Inl (if unknown_first e then Null_pointer else Out_of_block)"
  proof (cases "unknown_first e")
    case True
    then show ?thesis using assms(1,2) unknown_first_expr [OF True]
      by (simp add: handleSearchRequest_def GetKeywords_def performLocalSearch_def local_files_def)
  next
    case False
    then have "request_expr e = Fault" using assms(3) cut_short_expr by blast
    then show ?thesis using False assms(1,2)
      by (simp add: handleSearchRequest_def GetKeywords_def performLocalSearch_def local_files_def)
  qed
qed

definition sample_router :: p3turtle where
  "sample_router = \<lparr>own_id = 1, random_bias = 5, search_requests_origins = []\<rparr>"

definition sample_env :: turtle_env where
  "sample_env = \<lparr>te_now = 100, te_online = [0, 2], te_linkType = (\<lambda>_. 0), te_SearchKeywords = (\<lambda>_. []),
     te_SearchBoolExp = (\<lambda>_. []), te_isHashBanned = (\<lambda>_. False), te_service = (\<lambda>_. Some (\<lambda>d m. (None, m))),
     te_is_ftServer = (\<lambda>_. True)\<rparr>"

lemma malformed_request_faults_witness:
  "handleSearchRequest sample_env
     \<lparr>sr_peer = 2, sr_request_id = 7, sr_depth = 1,
      sr_body = RegExpSearch \<lparr>le_tokens = [9], le_ints = [], le_strings = []\<rparr>\<rparr> sample_router = Inl Null_pointer \<and>
   handleSearchRequest sample_env
     \<lparr>sr_peer = 2, sr_request_id = 7, sr_depth = 1,
      sr_body = RegExpSearch \<lparr>le_tokens = [EXPR_POP], le_ints = [1], le_strings = []\<rparr>\<rparr> sample_router = Inl Out_of_block"
proof
  note wf = wf_linearized_def vec8.wf_vec_def vec32.wf_vec_def vecstr.wf_vec_def enc_linearized_def vec8.enc_vec_def
    vec32.enc_vec_def vecstr.enc_vec_def vec8.enc_list_def vec32.enc_list_def vecstr.enc_list_def
  let ?e = "\<lparr>le_tokens = [9], le_ints = [], le_strings = []\<rparr>"
  let ?item = "\<lparr>sr_peer = 2, sr_request_id = 7, sr_depth = 1, sr_body = RegExpSearch ?e\<rparr>"
  have a: "accepts_request sample_router ?item"
    by (simp add: accepts_request_def sample_router_def request_size_def linearized_serial_size_def)
  have u: "unknown_first ?e" by (simp add: unknown_first_def)
  have "wf_linearized ?e" "length (enc_linearized ?e) < 4294967296" by (simp_all add: wf)
  then show "handleSearchRequest sample_env ?item sample_router = Inl Null_pointer"
    using malformed_request_faults [of sample_router ?item ?e sample_env] a u by simp
  let ?f = "\<lparr>le_tokens = [EXPR_POP], le_ints = [1], le_strings = []\<rparr>"
  let ?item = "\<lparr>sr_peer = 2, sr_request_id = 7, sr_depth = 1, sr_body = RegExpSearch ?f\<rparr>"
  have a: "accepts_request sample_router ?item"
    by (simp add: accepts_request_def sample_router_def request_size_def linearized_serial_size_def)
  have u: "\<not> unknown_first ?f" by (simp add: unknown_first_def)
  have c: "cut_short ?f"
    unfolding cut_short_def by (intro exI [of _ "PopExpression 1 2 3"]) (simp add: cut_of_def vectors_of_def)
  have "wf_linearized ?f" "length (enc_linearized ?f) < 4294967296" by (simp_all add: wf)
  then show "handleSearchRequest sample_env ?item sample_router = Inl Out_of_block"
    using malformed_request_faults [of sample_router ?item ?f sample_env] a u c by simp
qed

text \<open>Generic search data may be empty: the serialiser accepts a memory block of no bytes. To send such a
  request or result on, it is copied, and the allocation of no bytes ends the process.\<close>

lemma empty_generic_request_exits:
  assumes "accepts_request t item" "sr_body item = GenericSearch service type []"
    and "sr_peer item = own_id t \<or> te_service env service = None"
    and "sr_depth item < TURTLE_MAX_SEARCH_DEPTH" "p \<in> set (te_online env)" "\<not> slow_link env p" "p \<noteq> sr_peer item"
  shows "handleSearchRequest env item t = Inl Process_exit"
proof -
  define ps where "ps = filter (\<lambda>p. \<not> slow_link env p \<and> p \<noteq> sr_peer item) (te_online env)"
  have "p \<in> set ps" using assms(5-7) by (simp add: ps_def)
  then obtain q qs where ps: "ps = q # qs" by (cases ps) auto
  have "forward_request env t item = Inl Process_exit"
    using assms(2,4) unfolding forward_request_def ps_def [symmetric] ps
    by (simp add: forwarded_request_def clone_request_def)
  then show ?thesis
    using assms(1-3) by (auto simp: handleSearchRequest_def performLocalSearch_def GetKeywords_def Let_def)
qed

lemma empty_generic_result_exits:
  assumes "rr_body item = GenericResult []" "entry t (rr_request_id item) = Some info" "ri_origin info \<noteq> own_id t"
    and "te_now env \<le> uint (ri_time_stamp info) + SEARCH_REQUESTS_RESULT_TIME"
    and "ri_result_count info < ri_max_allowed_hits info"
  shows "handleSearchResult env item t = Inl Process_exit"
proof -
  have n: "\<not> ri_max_allowed_hits info \<le> ri_result_count info" "\<not> ri_max_allowed_hits info < ri_result_count info"
    using assms(5) by auto
  show ?thesis
    using assms(1-4) n by (simp add: handleSearchResult_def Let_def without_banned_def result_count_of_def duplicate_result_def)
qed

section \<open>The network\<close>

text \<open>C14. Floods end: without new searches, the requests in flight cause at most so many deliveries as there
  are requests in flight and, for every peer and every request it has not seen yet, connected peers of a
  router, whatever the order of the deliveries, the losses and the answers.\<close>

theorem search_flood_ends:
  assumes "finite N" and "finite ids" and "flight_within N ids n" and "net_run n evs n'"
    and "list_all (relays_only N F) evs"
  shows "deliveries evs \<le> length (in_flight n) + F * (card N * card ids)"
proof -
  have "deliveries evs \<le> flood_rank N ids F n"
    using flood_run [OF assms(1,2,4,3,5)] by simp
  also have "\<dots> \<le> length (in_flight n) + F * (card N * card ids)"
    using unaware_card [OF assms(1,2), of n] by (simp add: flood_rank_def mult_le_mono2)
  finally show ?thesis .
qed

text \<open>C6. Results find the way home: in every network that its calls can produce, a result for a request that
  a router remembers is passed on from router to router, unchanged, until it is handed to the client of a
  router that has made the search itself, while the routers that remember the request let it pass. The result
  must have content, files or data: one without data ends the process of a router that passes it on.\<close>

theorem search_result_comes_home:
  assumes "reach net_start net_step n" and "entry (routers n p) rid = Some info"
    and "\<forall>q info. entry (routers n q) rid = Some info \<longrightarrow> lets_pass (env q) b info"
    and "rr_request_id item = rid" and "rr_body item = b" and "whole_result b"
  shows "\<exists>k n' home info' item'. carry k env p item n = (n', Some (home, Notify (ri_service_id info') item')) \<and>
           rr_request_id item' = rid \<and> rr_body item' = b \<and>
           entry (routers n home) rid = Some info' \<and> ri_origin info' = home"
proof -
  have inv: "net_inv n" using assms(1) by (rule turtle_net.reach_inv)
  obtain rank where r: "ranked (origins n rid) rank" using net_invD(3) [OF inv] by blast
  have "\<forall>q. own_id (routers n q) = q" using net_invD(1) [OF inv] by blast
  from carry_home [OF r this assms(6,2) _ assms(4,5)] assms(3) show ?thesis by blast
qed

text \<open>C22. For one request of another peer that looks for files (no generic search), with no result of 2^31 files or
  more, a router sends back at most five thousand files: those it finds itself
  and those it passes on, whatever results arrive.\<close>

theorem search_hits_are_bounded:
  assumes "accepts_request t item" and "sr_peer item \<noteq> own_id t"
    and "\<nexists>service type d. sr_body item = GenericSearch service type d"
    and "handleSearchRequest env item t = Inr (t1, outs1)"
    and "run_results calls t1 = (t2, outs2)" and "list_all (\<lambda>(env, item). short_result item) calls"
  shows "files_sent (sr_request_id item) (outs1 @ outs2) \<le> 5000"
proof -
  have "within_limit t1 (sr_request_id item) TURTLE_SEARCH_RESULT_MAX_HITS_FILES
      (files_sent (sr_request_id item) outs1)"
    using assms(1-4) by (intro request_within_limit)
  from run_within_limit [OF this _ assms(6,5)]
  show ?thesis by (auto simp: within_limit_def)
qed

subsection \<open>A network of three\<close>

text \<open>Peer 0 searches, peer 1 relays the request to peer 2, and a result comes back from there.\<close>

definition demo_router :: "TurtlePeerId \<Rightarrow> p3turtle" where
  "demo_router p = \<lparr>own_id = p, random_bias = 0, search_requests_origins = []\<rparr>"

definition demo_env :: "TurtlePeerId \<Rightarrow> turtle_env" where
  "demo_env p = sample_env\<lparr>te_online := (if p = 1 then [0, 2] else [1])\<rparr>"

definition demo_body :: request_body where
  "demo_body = StringSearch [0x61]"

definition demo_info :: "TurtlePeerId \<Rightarrow> u16 \<Rightarrow> u32 \<Rightarrow> TurtleSearchRequestInfo" where
  "demo_info origin depth hits = \<lparr>ri_origin = origin, ri_time_stamp = 100, ri_depth = depth, ri_result_count = 0,
     ri_keywords = [0x61], ri_service_id = RS_SERVICE_TYPE_FILE_TRANSFER, ri_max_allowed_hits = hits\<rparr>"

definition demo_request :: "TurtlePeerId \<Rightarrow> u16 \<Rightarrow> SearchRequestItem" where
  "demo_request p depth = \<lparr>sr_peer = p, sr_request_id = 9, sr_depth = depth, sr_body = demo_body\<rparr>"

definition knows :: "TurtlePeerId \<Rightarrow> TurtleSearchRequestInfo \<Rightarrow> p3turtle" where
  "knows p info = (demo_router p)\<lparr>search_requests_origins := [(9, info)]\<rparr>"

definition demo0 :: turtle_net where
  "demo0 = \<lparr>routers = demo_router, in_flight = []\<rparr>"

definition demo1 :: turtle_net where
  "demo1 = \<lparr>routers = demo_router(0 := knows 0 (demo_info 0 0 100)), in_flight = [(1, demo_request 0 1)]\<rparr>"

definition demo2 :: turtle_net where
  "demo2 = \<lparr>routers = demo_router(0 := knows 0 (demo_info 0 0 100), 1 := knows 1 (demo_info 0 1 5000)),
     in_flight = [(2, demo_request 1 2)]\<rparr>"

definition demo3 :: turtle_net where
  "demo3 = \<lparr>routers = demo_router(0 := knows 0 (demo_info 0 0 100), 1 := knows 1 (demo_info 0 1 5000),
     2 := knows 2 (demo_info 1 2 5000)), in_flight = []\<rparr>"

lemmas demo_defs = demo_router_def demo_env_def demo_body_def demo_info_def demo_request_def knows_def sample_env_def
  demo0_def demo1_def demo2_def demo3_def

lemmas request_defs = handleSearchRequest_def turtleSearch_def accepts_request_def request_size_def GetTlvStringSize_def
  performLocalSearch_def local_files_def GetKeywords_def forward_request_def forwarded_request_def clone_request_def random_dshift_def
  bias_of_def slow_link_def serviceId_def

lemma demo_calls:
  "turtleSearch (demo_env 0) 9 demo_body (demo_router 0) =
     Inr (knows 0 (demo_info 0 0 100), [SendRequest (demo_request 1 1)])"
  "handleSearchRequest (demo_env 1) (demo_request 0 1) (demo_router 1) =
     Inr (knows 1 (demo_info 0 1 5000), [SendRequest (demo_request 2 2)])"
  "handleSearchRequest (demo_env 2) (demo_request 1 2) (demo_router 2) = Inr (knows 2 (demo_info 1 2 5000), [])"
  by (simp_all add: request_defs demo_defs)

lemma demo_posted: "posted p [SendRequest (demo_request q d)] = [(q, demo_request p d)]" "posted p [] = []"
  by (simp_all add: posted_def demo_request_def)

lemma demo_steps:
  "net_step demo0 (Search 0 9 demo_body (demo_env 0)) demo1"
  "net_step demo1 (Deliver 1 (demo_request 0 1) (demo_env 1)) demo2"
  "net_step demo2 (Deliver 2 (demo_request 1 2) (demo_env 2)) demo3"
proof -
  show "net_step demo0 (Search 0 9 demo_body (demo_env 0)) demo1"
    using step_search [of "demo_env 0" 9 demo_body demo0 0] demo_calls(1)
    by (simp add: demo0_def demo1_def demo_posted)
  show "net_step demo1 (Deliver 1 (demo_request 0 1) (demo_env 1)) demo2"
    using step_deliver [of demo1 "[]" 1 "demo_request 0 1" "[]" "demo_env 1"] demo_calls(2)
    by (simp add: demo1_def demo2_def demo_posted)
  show "net_step demo2 (Deliver 2 (demo_request 1 2) (demo_env 2)) demo3"
    using step_deliver [of demo2 "[]" 2 "demo_request 1 2" "[]" "demo_env 2"] demo_calls(3)
    by (simp add: demo2_def demo3_def demo_posted)
qed

lemma demo3_reach: "reach net_start net_step demo3"
proof -
  have "net_start demo0" by (simp add: net_start_def demo0_def demo_router_def)
  then have "reach net_start net_step demo0" by (rule reach_init)
  from reach_step [OF this demo_steps(1)] have "reach net_start net_step demo1" .
  from reach_step [OF this demo_steps(2)] have "reach net_start net_step demo2" .
  from reach_step [OF this demo_steps(3)] show ?thesis .
qed

lemma search_flood_ends_witness:
  "deliveries [Deliver 1 (demo_request 0 1) (demo_env 1), Deliver 2 (demo_request 1 2) (demo_env 2)]
     \<le> length (in_flight demo1) + 2 * (card {0 :: nat, 1, 2} * card {9 :: u32})"
proof (rule search_flood_ends)
  show "net_run demo1 [Deliver 1 (demo_request 0 1) (demo_env 1), Deliver 2 (demo_request 1 2) (demo_env 2)] demo3"
    by (rule net_run_Cons [OF demo_steps(2) net_run_Cons [OF demo_steps(3) net_run_Nil]])
qed (simp_all add: flight_within_def demo_defs)

definition demo_result :: SearchResultItem where
  "demo_result = \<lparr>rr_peer = 2, rr_request_id = 9,
     rr_body = FTResult [\<lparr>tf_hash = [1], tf_name = [0x61], tf_size = 3\<rparr>]\<rparr>"

lemma search_result_comes_home_witness:
  "\<exists>k n' service item'. carry k demo_env 2 demo_result demo3 = (n', Some (0, Notify service item')) \<and>
     rr_body item' = rr_body demo_result"
proof -
  have p: "\<forall>q info. entry (routers demo3 q) 9 = Some info \<longrightarrow> lets_pass (demo_env q) (rr_body demo_result) info"
    by (auto simp: demo_defs demo_result_def lets_pass_def without_banned_def result_count_of_def)
  obtain info where e: "entry (routers demo3 2) 9 = Some info" by (simp add: demo_defs)
  have "rr_request_id demo_result = 9" "whole_result (rr_body demo_result)" by (simp_all add: demo_result_def whole_result_def)
  from search_result_comes_home [OF demo3_reach e p this(1) refl this(2)] obtain k n' home info' item' where
    c: "carry k demo_env 2 demo_result demo3 = (n', Some (home, Notify (ri_service_id info') item'))"
      "rr_body item' = rr_body demo_result" "entry (routers demo3 home) 9 = Some info'" "ri_origin info' = home"
    by blast
  have "home = 0" using c(3,4) by (auto simp: demo_defs split: if_splits)
  then show ?thesis using c(1,2) by blast
qed

lemma search_hits_are_bounded_witness:
  "files_sent 9 ([SendRequest (demo_request 2 2)] @ snd (run_results [(demo_env 1, demo_result)] (knows 1 (demo_info 0 1 5000))))
     \<le> 5000 \<and> files_sent 9 (snd (run_results [(demo_env 1, demo_result)] (knows 1 (demo_info 0 1 5000)))) = 1"
proof
  have "handleSearchRequest (demo_env 1) (demo_request 0 1) (demo_router 1) =
      Inr (knows 1 (demo_info 0 1 5000), [SendRequest (demo_request 2 2)])" by (rule demo_calls)
  from search_hits_are_bounded [OF _ _ _ this, of "[(demo_env 1, demo_result)]"]
  show "files_sent 9 ([SendRequest (demo_request 2 2)] @
      snd (run_results [(demo_env 1, demo_result)] (knows 1 (demo_info 0 1 5000)))) \<le> 5000"
    by (auto simp: demo_result_def short_result_def prod_eq_iff accepts_request_def request_size_def
      GetTlvStringSize_def demo_router_def demo_request_def demo_body_def)
  show "files_sent 9 (snd (run_results [(demo_env 1, demo_result)] (knows 1 (demo_info 0 1 5000)))) = 1"
    by (simp add: handleSearchResult_def duplicate_result_def demo_defs demo_result_def without_banned_def result_count_of_def)
qed

end
