(* ===== verification/Turtle_Tunnel.thy ===== *)
theory Turtle_Tunnel
  imports Turtle_Search "HOL-Library.List_Lexorder"
begin

text \<open>The tunnels of the turtle router (\<^verbatim>\<open>turtle/p3turtle.cc\<close>): requests for a hash travel like searches, the
  router of a peer that has the hash answers with the id of a tunnel, each router on the way back notes the
  two ends the tunnel has for it, and items then travel along these notes in both directions. Client
  services are known by their ids; the pointer to one that a monitored hash has is \<open>None\<close> when it is null. The \<^verbatim>\<open>float\<close> speeds of the tunnels are not kept.\<close>

section \<open>State\<close>

type_synonym TurtleTunnelId = u32
type_synonym TurtleVirtualPeerId = bytes
type_synonym TurtleFileHash = bytes

record TurtleTunnel =
  tt_local_src :: TurtlePeerId
  tt_local_dst :: TurtlePeerId
  tt_time_stamp :: u32
  tt_transfered_bytes :: u32
  tt_hash :: TurtleFileHash
  tt_vpid :: TurtleVirtualPeerId

record TurtleTunnelRequestInfo =
  qi_origin :: TurtlePeerId
  qi_time_stamp :: u32
  qi_depth :: int
  qi_responses :: "TurtleTunnelId list"

record TurtleHashInfo =
  hi_tunnels :: "TurtleTunnelId list"
  hi_last_request :: TurtleRequestId
  hi_last_digg_time :: rstime_t
  hi_service :: "u16 option"
  hi_aggressive :: bool

record tunnel_router = p3turtle +
  incoming_file_hashes :: "(TurtleFileHash, TurtleHashInfo) std_map"
  local_tunnels :: "(TurtleTunnelId, TurtleTunnel) std_map"
  virtual_peers :: "(TurtleVirtualPeerId, TurtleTunnelId) std_map"
  tunnel_requests_origins :: "(TurtleRequestId, TurtleTunnelRequestInfo) std_map"
  outgoing_tunnel_client_services :: "(TurtleTunnelId, u16) std_map"
  hashes_to_remove :: "TurtleFileHash list"

record OpenTunnelItem =
  ot_peer :: TurtlePeerId
  ot_file_hash :: TurtleFileHash
  ot_request_id :: TurtleRequestId
  ot_partial_tunnel_id :: u32
  ot_depth :: u16

record TunnelOkItem =
  tk_peer :: TurtlePeerId
  tk_tunnel_id :: TurtleTunnelId
  tk_request_id :: TurtleRequestId

record GenericTunnelItem =
  gt_peer :: TurtlePeerId
  gt_tunnel_id :: TurtleTunnelId
  gt_direction :: u32
  gt_stamps :: bool
  gt_data :: bytes

abbreviation (input) DIRECTION_CLIENT :: u32 where "DIRECTION_CLIENT \<equiv> 0x001"
abbreviation (input) DIRECTION_SERVER :: u32 where "DIRECTION_SERVER \<equiv> 0x002"
abbreviation (input) TUNNEL_REQUESTS_LIFE_TIME :: rstime_t where "TUNNEL_REQUESTS_LIFE_TIME \<equiv> 600"
abbreviation (input) TUNNEL_REQUESTS_RESULT_TIME :: rstime_t where "TUNNEL_REQUESTS_RESULT_TIME \<equiv> 20"
abbreviation (input) REGULAR_TUNNEL_DIGGING_TIME :: rstime_t where "REGULAR_TUNNEL_DIGGING_TIME \<equiv> 300"
abbreviation (input) MAXIMUM_TUNNEL_IDLE_TIME :: rstime_t where "MAXIMUM_TUNNEL_IDLE_TIME \<equiv> 60"
abbreviation (input) EMPTY_TUNNELS_DIGGING_TIME :: rstime_t where "EMPTY_TUNNELS_DIGGING_TIME \<equiv> 50"

text \<open>What a call asks the rest of the program. The \<^verbatim>\<open>float\<close> probability of forwarding a request to a peer, drawn
  against a random number, is the choice \<open>tv_chosen\<close>; the time between two campaigns for a hash, which is
  computed from \<^verbatim>\<open>float\<close> speeds, is \<open>tv_digging_time\<close>.\<close>

record tunnel_env =
  tv_now :: rstime_t
  tv_online :: "TurtlePeerId list"
  tv_linkType :: "TurtlePeerId \<Rightarrow> u32"
  tv_chosen :: "TurtlePeerId \<Rightarrow> bool"
  tv_isHashBanned :: "TurtleFileHash \<Rightarrow> bool"
  tv_services :: "u16 list"
  tv_handleTunnelRequest :: "u16 \<Rightarrow> TurtleFileHash \<Rightarrow> TurtlePeerId \<Rightarrow> bool"
  tv_own_text :: "TurtlePeerId \<Rightarrow> bytes"
  tv_digging_time :: "TurtleFileHash \<Rightarrow> rstime_t"
  tv_size :: "GenericTunnelItem \<Rightarrow> u32"

datatype tunnel_output =
    SendOpen OpenTunnelItem
  | SendOk TunnelOkItem
  | SendGeneric GenericTunnelItem
  | AddVirtualPeer u16 TurtleFileHash TurtleVirtualPeerId u32
  | RemoveVirtualPeer u16 TurtleFileHash TurtleVirtualPeerId
  | ReceiveTurtleData u16 GenericTunnelItem TurtleFileHash TurtleVirtualPeerId u32
  | CallThroughNull

section \<open>Ids\<close>

text \<open>The print of a hash: the characters of the hash and of the own id, as text, are mixed into the seed.\<close>

definition hex_text :: "bytes \<Rightarrow> bytes" where
  "hex_text h = concat (map (\<lambda>b. [hex_digit (drop_bit 4 b), hex_digit (take_bit 4 b)]) h)"

fun mix_print :: "bool \<Rightarrow> bytes \<Rightarrow> u32 \<Rightarrow> u32 \<Rightarrow> u32" where
  "mix_print b [] res decal = res"
| "mix_print b (c # cs) res decal =
     (let res1 = res + (7 * scast c + decal) in
      mix_print b cs res1
        (if b then decal * 44497 + 15641 + (res1 mod 86243) else decal * 86243 + 15649 + (res1 mod 44497)))"

definition generatePersonalFilePrint :: "bytes \<Rightarrow> TurtleFileHash \<Rightarrow> u32 \<Rightarrow> bool \<Rightarrow> u32" where
  "generatePersonalFilePrint own_text hash seed b = mix_print b (hex_text hash @ own_text) seed 0"

text \<open>The virtual peer of a tunnel has the id of the tunnel in its first four bytes and zeros after.\<close>

definition vpid_of :: "TurtleTunnelId \<Rightarrow> TurtleVirtualPeerId" where
  "vpid_of tid = be32 tid @ replicate 12 0"

definition null_id :: bytes where
  "null_id = replicate 16 0"

definition null_hash :: bytes where
  "null_hash = replicate 20 0"

definition blank_tunnel :: TurtleTunnel where
  "blank_tunnel = \<lparr>tt_local_src = 0, tt_local_dst = 0, tt_time_stamp = 0, tt_transfered_bytes = 0,
     tt_hash = null_hash, tt_vpid = null_id\<rparr>"

definition locked_addDistantPeer :: "TurtleTunnelId \<Rightarrow> tunnel_router \<Rightarrow> tunnel_router" where
  "locked_addDistantPeer tid t =
     t\<lparr>virtual_peers := map_put (vpid_of tid) tid (virtual_peers t),
       local_tunnels := map_put tid
         ((map_get blank_tunnel tid (local_tunnels t))\<lparr>tt_vpid := vpid_of tid\<rparr>) (local_tunnels t)\<rparr>"

section \<open>Requests\<close>

definition performLocalHashSearch :: "tunnel_env \<Rightarrow> TurtleFileHash \<Rightarrow> TurtlePeerId \<Rightarrow> u16 option" where
  "performLocalHashSearch env hash p = find (\<lambda>s. tv_handleTunnelRequest env s hash p) (tv_services env)"

definition tunnel_bias :: "tunnel_router \<Rightarrow> OpenTunnelItem \<Rightarrow> u32" where
  "tunnel_bias t item = and (xor (random_bias t) (ot_partial_tunnel_id item)) 7"

definition slow_peer :: "tunnel_env \<Rightarrow> TurtlePeerId \<Rightarrow> bool" where
  "slow_peer env p =
     (and (tv_linkType env p) RS_NET_CONN_SPEED_TRICKLE \<noteq> 0 \<or> and (tv_linkType env p) RS_NET_CONN_SPEED_LOW \<noteq> 0)"

definition perturbed_id :: "tunnel_env \<Rightarrow> tunnel_router \<Rightarrow> OpenTunnelItem \<Rightarrow> u32" where
  "perturbed_id env t item =
     generatePersonalFilePrint (tv_own_text env (own_id t)) (ot_file_hash item)
       (xor (ot_partial_tunnel_id item) (random_bias t)) True"

definition forward_open :: "tunnel_env \<Rightarrow> tunnel_router \<Rightarrow> OpenTunnelItem \<Rightarrow> OpenTunnelItem list" where
  "forward_open env t item =
     (let bypass = (TURTLE_MAX_SEARCH_DEPTH \<le> ot_depth item \<and> tunnel_bias t item = 2);
          dshift = (ot_depth item = 1 \<and> tunnel_bias t item = 6);
          fwd = item\<lparr>ot_partial_tunnel_id := perturbed_id env t item,
                     ot_depth := (if dshift then ot_depth item else ot_depth item + 1)\<rparr>
      in if ot_depth item < TURTLE_MAX_SEARCH_DEPTH \<or> bypass
         then map (\<lambda>p. fwd\<lparr>ot_peer := p\<rparr>)
                (filter (\<lambda>p. \<not> slow_peer env p \<and> p \<noteq> ot_peer item \<and> tv_chosen env p) (tv_online env))
         else [])"

definition ending_tunnel :: "tunnel_env \<Rightarrow> tunnel_router \<Rightarrow> OpenTunnelItem \<Rightarrow> TurtleTunnel" where
  "ending_tunnel env t item =
     blank_tunnel\<lparr>tt_local_src := ot_peer item, tt_local_dst := own_id t, tt_hash := ot_file_hash item,
       tt_time_stamp := word_of_int (tv_now env)\<rparr>"

definition answered_id :: "tunnel_env \<Rightarrow> tunnel_router \<Rightarrow> OpenTunnelItem \<Rightarrow> TurtleTunnelId" where
  "answered_id env t item =
     xor (ot_partial_tunnel_id item)
       (generatePersonalFilePrint (tv_own_text env (own_id t)) (ot_file_hash item) (random_bias t) False)"

definition handleTunnelRequest ::
    "tunnel_env \<Rightarrow> OpenTunnelItem \<Rightarrow> tunnel_router \<Rightarrow> tunnel_router \<times> tunnel_output list" where
  "handleTunnelRequest env item t =
     (if tv_isHashBanned env (ot_file_hash item) then (t, [])
      else if map_of (tunnel_requests_origins t) (ot_request_id item) \<noteq> None then (t, [])
      else
        (let t1 = t\<lparr>tunnel_requests_origins := map_put (ot_request_id item)
                      \<lparr>qi_origin = ot_peer item, qi_time_stamp = word_of_int (tv_now env),
                       qi_depth = uint (ot_depth item), qi_responses = []\<rparr> (tunnel_requests_origins t)\<rparr>;
             found = (if ot_peer item \<noteq> own_id t
                      then performLocalHashSearch env (ot_file_hash item) (ot_peer item) else None)
         in (case found of
               Some service \<Rightarrow>
                 (let tid = answered_id env t item;
                      t2 = locked_addDistantPeer tid
                             (t1\<lparr>local_tunnels := map_put tid (ending_tunnel env t item) (local_tunnels t1)\<rparr>);
                      t3 = t2\<lparr>outgoing_tunnel_client_services := map_put tid service (outgoing_tunnel_client_services t2)\<rparr>
                  in (t3, [SendOk \<lparr>tk_peer = ot_peer item, tk_tunnel_id = tid, tk_request_id = ot_request_id item\<rparr>,
                           AddVirtualPeer service (ot_file_hash item) (vpid_of tid) DIRECTION_CLIENT]))
             | None \<Rightarrow> (t1, map SendOpen (forward_open env t item)))))"

definition blank_hash_info :: TurtleHashInfo where
  "blank_hash_info = \<lparr>hi_tunnels = [], hi_last_request = 0, hi_last_digg_time = 0, hi_service = None, hi_aggressive = False\<rparr>"

definition diggTunnel ::
    "tunnel_env \<Rightarrow> TurtleRequestId \<Rightarrow> TurtleFileHash \<Rightarrow> tunnel_router \<Rightarrow> tunnel_router \<times> tunnel_output list" where
  "diggTunnel env rid hash t =
     (let info = (map_get blank_hash_info hash (incoming_file_hashes t))
                   \<lparr>hi_last_request := rid, hi_last_digg_time := tv_now env\<rparr>;
          t1 = t\<lparr>incoming_file_hashes := map_put hash info (incoming_file_hashes t)\<rparr>
      in handleTunnelRequest env
           \<lparr>ot_peer = own_id t, ot_file_hash = hash, ot_request_id = rid,
            ot_partial_tunnel_id = generatePersonalFilePrint (tv_own_text env (own_id t)) hash (random_bias t) True,
            ot_depth = 0\<rparr> t1)"

definition forceReDiggTunnels ::
    "tunnel_env \<Rightarrow> TurtleRequestId \<Rightarrow> TurtleFileHash \<Rightarrow> tunnel_router \<Rightarrow> tunnel_router \<times> tunnel_output list" where
  "forceReDiggTunnels env rid hash t =
     (if map_of (incoming_file_hashes t) hash = None then (t, []) else diggTunnel env rid hash t)"

section \<open>Answers\<close>

text \<open>At the router that has asked, the loop over the hashes: each one whose last request is answered takes
  the tunnel; the last of them gives its name to the tunnel, and its service is told if it has one.\<close>

fun adopt_tunnel ::
    "TurtleRequestId \<Rightarrow> TurtleTunnelId \<Rightarrow> (TurtleFileHash \<times> TurtleHashInfo) list \<Rightarrow>
     tunnel_router \<Rightarrow> (u16 option \<times> TurtleFileHash) option \<Rightarrow>
     tunnel_router \<times> (u16 option \<times> TurtleFileHash) option" where
  "adopt_tunnel rid tid [] t found = (t, found)"
| "adopt_tunnel rid tid ((hash, info) # hs) t found =
     (if hi_last_request info = rid
      then
        (let info1 = info\<lparr>hi_tunnels := (if tid \<in> set (hi_tunnels info) then hi_tunnels info
                                         else hi_tunnels info @ [tid])\<rparr>;
             t1 = t\<lparr>incoming_file_hashes := map_put hash info1 (incoming_file_hashes t),
                    local_tunnels := map_put tid
                      ((map_get blank_tunnel tid (local_tunnels t))\<lparr>tt_hash := hash\<rparr>) (local_tunnels t)\<rparr>
         in adopt_tunnel rid tid hs (locked_addDistantPeer tid t1) (Some (hi_service info, hash)))
      else adopt_tunnel rid tid hs t found)"

text \<open>The pointer to the service that a hash has is null only for an entry that \<^verbatim>\<open>diggTunnel\<close> makes itself.\<close>

definition handleTunnelResult ::
    "tunnel_env \<Rightarrow> TunnelOkItem \<Rightarrow> tunnel_router \<Rightarrow> tunnel_router \<times> tunnel_output list" where
  "handleTunnelResult env item t =
     (let rid = tk_request_id item; tid = tk_tunnel_id item in
      (case map_of (tunnel_requests_origins t) rid of
         None \<Rightarrow> (t, [])
       | Some req \<Rightarrow>
           if tid \<in> set (qi_responses req) then (t, [])
           else
             (let t1 = t\<lparr>tunnel_requests_origins :=
                           map_put rid (req\<lparr>qi_responses := tid # qi_responses req\<rparr>) (tunnel_requests_origins t)\<rparr>;
                  t2 = (if map_of (local_tunnels t1) tid \<noteq> None then t1
                        else t1\<lparr>local_tunnels := map_put tid
                               (blank_tunnel\<lparr>tt_local_src := qi_origin req, tt_local_dst := tk_peer item,
                                  tt_time_stamp := word_of_int (tv_now env)\<rparr>) (local_tunnels t1)\<rparr>)
              in if tv_now env > uint (qi_time_stamp req) + TUNNEL_REQUESTS_RESULT_TIME then (t2, [])
                 else if qi_origin req = own_id t
                 then (case adopt_tunnel rid tid (incoming_file_hashes t2) t2 None of
                         (t3, Some (Some service, hash)) \<Rightarrow>
                           (t3, [AddVirtualPeer service hash (vpid_of tid) DIRECTION_SERVER])
                       | (t3, _) \<Rightarrow> (t3, []))
                 else (t2, [SendOk (item\<lparr>tk_peer := qi_origin req\<rparr>)]))))"

section \<open>Items in a tunnel\<close>

definition use_tunnel :: "tunnel_env \<Rightarrow> GenericTunnelItem \<Rightarrow> TurtleTunnel \<Rightarrow> TurtleTunnel" where
  "use_tunnel env item tun =
     tun\<lparr>tt_time_stamp := (if gt_stamps item then word_of_int (tv_now env) else tt_time_stamp tun),
         tt_transfered_bytes := tt_transfered_bytes tun + tv_size env item\<rparr>"

definition getTunnelServiceInfo ::
    "TurtleTunnelId \<Rightarrow> tunnel_router \<Rightarrow> (u16 option \<times> TurtleFileHash \<times> TurtleVirtualPeerId) option" where
  "getTunnelServiceInfo tid t =
     (case map_of (local_tunnels t) tid of
        None \<Rightarrow> None
      | Some tun \<Rightarrow>
          if tt_local_src tun = own_id t
          then map_option (\<lambda>info. (hi_service info, tt_hash tun, tt_vpid tun))
                 (map_of (incoming_file_hashes t) (tt_hash tun))
          else if tt_local_dst tun = own_id t
          then map_option (\<lambda>service. (Some service, tt_hash tun, tt_vpid tun))
                 (map_of (outgoing_tunnel_client_services t) tid)
          else None)"

definition handleRecvGenericTunnelItem :: "GenericTunnelItem \<Rightarrow> tunnel_router \<Rightarrow> tunnel_output list" where
  "handleRecvGenericTunnelItem item t =
     (case getTunnelServiceInfo (gt_tunnel_id item) t of
        None \<Rightarrow> []
      | Some (None, hash, vpid) \<Rightarrow> [CallThroughNull]
      | Some (Some service, hash, vpid) \<Rightarrow> [ReceiveTurtleData service item hash vpid (gt_direction item)])"

definition routeGenericTunnelItem ::
    "tunnel_env \<Rightarrow> GenericTunnelItem \<Rightarrow> tunnel_router \<Rightarrow> tunnel_router \<times> tunnel_output list" where
  "routeGenericTunnelItem env item t =
     (case map_of (local_tunnels t) (gt_tunnel_id item) of
        None \<Rightarrow> (t, [])
      | Some tun \<Rightarrow>
          (let t1 = t\<lparr>local_tunnels := map_put (gt_tunnel_id item) (use_tunnel env item tun) (local_tunnels t)\<rparr> in
           if gt_peer item = tt_local_dst tun
           then
             (let item1 = item\<lparr>gt_direction := DIRECTION_CLIENT\<rparr> in
              if tt_local_src tun \<noteq> own_id t then (t1, [SendGeneric (item1\<lparr>gt_peer := tt_local_src tun\<rparr>)])
              else if gt_peer item = tt_local_src tun \<and> tt_local_dst tun \<noteq> own_id t
              then (t1, [SendGeneric (item1\<lparr>gt_peer := tt_local_dst tun\<rparr>)])
              else (t1, handleRecvGenericTunnelItem item1 t1))
           else if gt_peer item = tt_local_src tun
           then
             (let item1 = item\<lparr>gt_direction := DIRECTION_SERVER\<rparr> in
              if tt_local_dst tun \<noteq> own_id t then (t1, [SendGeneric (item1\<lparr>gt_peer := tt_local_dst tun\<rparr>)])
              else (t1, handleRecvGenericTunnelItem item1 t1))
           else (t1, [])))"

definition sendTurtleData ::
    "tunnel_env \<Rightarrow> TurtleVirtualPeerId \<Rightarrow> GenericTunnelItem \<Rightarrow> tunnel_router \<Rightarrow> tunnel_router \<times> tunnel_output list" where
  "sendTurtleData env vpid item t =
     (case map_of (virtual_peers t) vpid of
        None \<Rightarrow> (t, [])
      | Some tid \<Rightarrow>
          (case map_of (local_tunnels t) tid of
             None \<Rightarrow> (t, [])
           | Some tun \<Rightarrow>
               (let item1 = item\<lparr>gt_tunnel_id := tid\<rparr>;
                    t1 = t\<lparr>local_tunnels := map_put tid (use_tunnel env item1 tun) (local_tunnels t)\<rparr>
                in if tt_local_src tun = own_id t
                   then (t1, [SendGeneric (item1\<lparr>gt_direction := DIRECTION_SERVER, gt_peer := tt_local_dst tun\<rparr>)])
                   else if tt_local_dst tun = own_id t
                   then (t1, [SendGeneric (item1\<lparr>gt_direction := DIRECTION_CLIENT, gt_peer := tt_local_src tun\<rparr>)])
                   else (t1, []))))"

definition isOnline :: "TurtleVirtualPeerId \<Rightarrow> tunnel_router \<Rightarrow> bool" where
  "isOnline vpid t = (map_of (virtual_peers t) vpid \<noteq> None)"

definition isTurtlePeer :: "TurtleVirtualPeerId \<Rightarrow> tunnel_router \<Rightarrow> bool" where
  "isTurtlePeer vpid t = (map_of (virtual_peers t) vpid \<noteq> None)"

text \<open>Asked for a tunnel that does not exist, the code reads through the end iterator: no value.\<close>

definition getTurtlePeerId :: "TurtleTunnelId \<Rightarrow> tunnel_router \<Rightarrow> TurtleVirtualPeerId option" where
  "getTurtlePeerId tid t = map_option tt_vpid (map_of (local_tunnels t) tid)"

definition getSourceVirtualPeersList :: "TurtleFileHash \<Rightarrow> tunnel_router \<Rightarrow> TurtleVirtualPeerId list" where
  "getSourceVirtualPeersList hash t =
     (case map_of (incoming_file_hashes t) hash of
        None \<Rightarrow> []
      | Some info \<Rightarrow> map tt_vpid (List.map_filter (map_of (local_tunnels t)) (hi_tunnels info)))"

section \<open>Maintenance\<close>

definition estimateTunnelSpeeds :: "tunnel_router \<Rightarrow> tunnel_router" where
  "estimateTunnelSpeeds t =
     t\<lparr>local_tunnels := map (\<lambda>(tid, tun). (tid, tun\<lparr>tt_transfered_bytes := 0\<rparr>)) (local_tunnels t)\<rparr>"

definition monitorTunnels :: "TurtleFileHash \<Rightarrow> u16 \<Rightarrow> bool \<Rightarrow> u32 \<Rightarrow> tunnel_router \<Rightarrow> tunnel_router" where
  "monitorTunnels hash service allow_multi random t =
     (let t1 = t\<lparr>hashes_to_remove := filter (\<lambda>h. h \<noteq> hash) (hashes_to_remove t)\<rparr> in
      if map_of (incoming_file_hashes t1) hash \<noteq> None then t1
      else t1\<lparr>incoming_file_hashes := map_put hash
             (blank_hash_info\<lparr>hi_aggressive := allow_multi, hi_last_digg_time := uint (random mod 10),
                hi_service := Some service\<rparr>) (incoming_file_hashes t1)\<rparr>)"

definition stopMonitoringTunnels :: "TurtleFileHash \<Rightarrow> tunnel_router \<Rightarrow> tunnel_router" where
  "stopMonitoringTunnels hash t =
     t\<lparr>hashes_to_remove := (if hash \<in> set (hashes_to_remove t) then hashes_to_remove t
                            else insort hash (hashes_to_remove t))\<rparr>"

text \<open>The loop that takes a tunnel out of the list of its hash: a match is replaced by the last entry.\<close>

function drop_tunnel :: "TurtleTunnelId \<Rightarrow> nat \<Rightarrow> TurtleTunnelId list \<Rightarrow> TurtleTunnelId list" where
  "drop_tunnel tid i ts =
     (if length ts \<le> i then ts
      else if ts ! i = tid then drop_tunnel tid i (butlast (ts[i := last ts]))
      else drop_tunnel tid (Suc i) ts)"
  by pat_completeness auto
termination
  by (relation "measure (\<lambda>(tid, i, ts). length ts - i)") auto

declare drop_tunnel.simps [simp del]

definition locked_closeTunnel :: "TurtleTunnelId \<Rightarrow> tunnel_router \<Rightarrow> tunnel_router \<times> tunnel_output list" where
  "locked_closeTunnel tid t =
     (case map_of (local_tunnels t) tid of
        None \<Rightarrow> (t, [])
      | Some tun \<Rightarrow>
          (let hash = tt_hash tun; vpid = tt_vpid tun;
               (t1, outs) =
                 (if tt_local_src tun = own_id t
                  then
                    (let ta = t\<lparr>virtual_peers := map_erase vpid (virtual_peers t)\<rparr> in
                     (case map_of (incoming_file_hashes ta) hash of
                        None \<Rightarrow> (ta, [])
                      | Some info \<Rightarrow>
                          (ta\<lparr>incoming_file_hashes := map_put hash
                                (info\<lparr>hi_tunnels := drop_tunnel tid 0 (hi_tunnels info)\<rparr>) (incoming_file_hashes ta)\<rparr>,
                           [case hi_service info of
                              None \<Rightarrow> CallThroughNull | Some service \<Rightarrow> RemoveVirtualPeer service hash vpid])))
                  else if tt_local_dst tun = own_id t
                  then
                    (case map_of (outgoing_tunnel_client_services t) tid of
                       None \<Rightarrow> (t, [])
                     | Some service \<Rightarrow>
                         (t\<lparr>outgoing_tunnel_client_services := map_erase tid (outgoing_tunnel_client_services t),
                            virtual_peers := map_erase vpid (virtual_peers t)\<rparr>,
                          [RemoveVirtualPeer service hash vpid]))
                  else (t, []))
           in (t1\<lparr>local_tunnels := map_erase tid (local_tunnels t1)\<rparr>, outs)))"

fun close_all :: "TurtleTunnelId list \<Rightarrow> tunnel_router \<Rightarrow> tunnel_router \<times> tunnel_output list" where
  "close_all [] t = (t, [])"
| "close_all (tid # tids) t =
     (case locked_closeTunnel tid t of
        (t1, outs1) \<Rightarrow> (case close_all tids t1 of (t2, outs2) \<Rightarrow> (t2, outs1 @ outs2)))"

fun remove_hashes :: "TurtleFileHash list \<Rightarrow> tunnel_router \<Rightarrow> tunnel_router \<times> tunnel_output list" where
  "remove_hashes [] t = (t, [])"
| "remove_hashes (h # hs) t =
     (case map_of (incoming_file_hashes t) h of
        None \<Rightarrow> remove_hashes hs t
      | Some info \<Rightarrow>
          (case close_all (hi_tunnels info) t of
             (t1, outs1) \<Rightarrow>
               (case remove_hashes hs (t1\<lparr>incoming_file_hashes := map_erase h (incoming_file_hashes t1)\<rparr>) of
                  (t2, outs2) \<Rightarrow> (t2, outs1 @ outs2))))"

definition autoWash :: "rstime_t \<Rightarrow> tunnel_router \<Rightarrow> tunnel_router \<times> tunnel_output list" where
  "autoWash now t =
     (case remove_hashes (hashes_to_remove t) t of
        (t1, outs1) \<Rightarrow>
          (let t2 = t1\<lparr>hashes_to_remove := [],
                       search_requests_origins := washed_searches now (search_requests_origins t1),
                       tunnel_requests_origins :=
                         filter (\<lambda>(rid, info). \<not> now > uint (qi_time_stamp info) + TUNNEL_REQUESTS_LIFE_TIME)
                           (tunnel_requests_origins t1)\<rparr>;
               old = map fst (filter (\<lambda>(tid, tun). now > uint (tt_time_stamp tun) + MAXIMUM_TUNNEL_IDLE_TIME)
                       (local_tunnels t2))
           in (case close_all old t2 of (t3, outs2) \<Rightarrow> (t3, outs1 @ outs2))))"

text \<open>Digging: the hash that has waited longest of those that need it, at most one in a call.\<close>

definition needs_digging :: "tunnel_env \<Rightarrow> TurtleFileHash \<times> TurtleHashInfo \<Rightarrow> bool" where
  "needs_digging env = (\<lambda>(hash, info).
     (hi_tunnels info = [] \<and> tv_now env \<ge> hi_last_digg_time info + EMPTY_TUNNELS_DIGGING_TIME) \<or>
     (hi_aggressive info \<and> tv_now env \<ge> hi_last_digg_time info + tv_digging_time env hash))"

text \<open>Summing the speeds looks the tunnels up with \<^verbatim>\<open>operator[]\<close>, which makes an entry when there is none.\<close>

definition touch_tunnels :: "TurtleTunnelId list \<Rightarrow> tunnel_router \<Rightarrow> tunnel_router" where
  "touch_tunnels tids t =
     t\<lparr>local_tunnels := fold (\<lambda>tid m. map_put tid (map_get blank_tunnel tid m) m) tids (local_tunnels t)\<rparr>"

definition manageTunnels :: "tunnel_env \<Rightarrow> TurtleRequestId \<Rightarrow> tunnel_router \<Rightarrow> tunnel_router \<times> tunnel_output list" where
  "manageTunnels env rid t =
     (let touched = touch_tunnels (concat (map (\<lambda>(hash, info). hi_tunnels info) (incoming_file_hashes t))) t in
      case sort_key (\<lambda>(hash, info). hi_last_digg_time info) (filter (needs_digging env) (incoming_file_hashes t)) of
        [] \<Rightarrow> (touched, [])
      | (hash, info) # _ \<Rightarrow> diggTunnel env rid hash touched)"

end
