(* ===== verification/Tunnel_Net.thy ===== *)
theory Tunnel_Net
  imports Turtle_Tunnel Turtle_Origins
begin

text \<open>A network of routers that dig tunnels. Every router has a way home for the requests it remembers; the
  answer to a request leaves a chain of notes behind, along which items travel in both directions.\<close>

section \<open>What the calls do\<close>

abbreviation request_of :: "tunnel_router \<Rightarrow> TurtleRequestId \<Rightarrow> TurtleTunnelRequestInfo option" where
  "request_of t rid \<equiv> map_of (tunnel_requests_origins t) rid"

text \<open>The two ends a tunnel has at a router.\<close>

definition tunnel_ends :: "tunnel_router \<Rightarrow> TurtleTunnelId \<Rightarrow> (TurtlePeerId \<times> TurtlePeerId) option" where
  "tunnel_ends t tid = map_option (\<lambda>tun. (tt_local_src tun, tt_local_dst tun)) (map_of (local_tunnels t) tid)"

lemma tunnel_ends_Some:
  "tunnel_ends t tid = Some (s, d) \<longleftrightarrow>
     (\<exists>tun. map_of (local_tunnels t) tid = Some tun \<and> tt_local_src tun = s \<and> tt_local_dst tun = d)"
  by (auto simp: tunnel_ends_def)

fun opens_sent :: "tunnel_output list \<Rightarrow> OpenTunnelItem list" where
  "opens_sent [] = []"
| "opens_sent (SendOpen r # outs) = r # opens_sent outs"
| "opens_sent (_ # outs) = opens_sent outs"

lemma opens_sent_map [simp]: "opens_sent (map SendOpen rs) = rs"
  by (induction rs) simp_all

lemma addDistantPeer_frame [simp]:
  "own_id (locked_addDistantPeer tid t) = own_id t"
  "tunnel_requests_origins (locked_addDistantPeer tid t) = tunnel_requests_origins t"
  "incoming_file_hashes (locked_addDistantPeer tid t) = incoming_file_hashes t"
  "outgoing_tunnel_client_services (locked_addDistantPeer tid t) = outgoing_tunnel_client_services t"
  "map_of (virtual_peers (locked_addDistantPeer tid t)) = (map_of (virtual_peers t))(vpid_of tid \<mapsto> tid)"
  by (simp_all add: locked_addDistantPeer_def)

lemma addDistantPeer_tunnel:
  "map_of (local_tunnels t) tid = Some tun \<Longrightarrow>
   map_of (local_tunnels (locked_addDistantPeer tid t)) = (map_of (local_tunnels t))(tid \<mapsto> tun\<lparr>tt_vpid := vpid_of tid\<rparr>)"
  by (simp add: locked_addDistantPeer_def map_get_def)

lemma forward_open_id: "r \<in> set (forward_open env t item) \<Longrightarrow> ot_request_id r = ot_request_id item"
  by (auto simp: forward_open_def Let_def split: if_splits)

lemma handleTunnelRequest_effect:
  assumes h: "handleTunnelRequest env item t = (t', outs)"
  shows "own_id t' = own_id t \<and>
    ((t' = t \<and> outs = []) \<or>
     (request_of t (ot_request_id item) = None \<and>
      (\<forall>rid. map_option qi_origin (request_of t' rid) =
        (if rid = ot_request_id item then Some (ot_peer item) else map_option qi_origin (request_of t rid))) \<and>
      (\<forall>r \<in> set (opens_sent outs). ot_request_id r = ot_request_id item)))"
proof (cases "tv_isHashBanned env (ot_file_hash item) \<or> request_of t (ot_request_id item) \<noteq> None")
  case True
  then show ?thesis using h by (auto simp: handleTunnelRequest_def split: if_splits)
next
  case False
  let ?found = "if ot_peer item \<noteq> own_id t
    then performLocalHashSearch env (ot_file_hash item) (ot_peer item) else None"
  show ?thesis
  proof (cases ?found)
    case None
    then show ?thesis using h False by (auto simp: handleTunnelRequest_def Let_def dest: forward_open_id)
  next
    case (Some service)
    then show ?thesis using h False by (auto simp: handleTunnelRequest_def Let_def)
  qed
qed

lemma adopt_tunnel_frame:
  "adopt_tunnel rid tid hs t found = (t', found') \<Longrightarrow>
   own_id t' = own_id t \<and> tunnel_requests_origins t' = tunnel_requests_origins t \<and>
   outgoing_tunnel_client_services t' = outgoing_tunnel_client_services t"
  by (induction rid tid hs t found rule: adopt_tunnel.induct) (auto simp: Let_def split: if_splits)

lemma adopt_tunnel_ends:
  "adopt_tunnel rid tid hs t found = (t', found') \<Longrightarrow> tunnel_ends t tid = Some e \<Longrightarrow> tunnel_ends t' tid = Some e"
proof (induction rid tid hs t found rule: adopt_tunnel.induct)
  case (2 rid tid hash info hs t found)
  then show ?case
    by (auto simp: Let_def tunnel_ends_def addDistantPeer_tunnel map_get_def split: if_splits)
qed simp

lemma handleTunnelResult_frame:
  assumes "handleTunnelResult env item t = (t', outs)"
  shows "own_id t' = own_id t \<and> (\<forall>rid. map_option qi_origin (request_of t' rid) = map_option qi_origin (request_of t rid)) \<and>
    opens_sent outs = []"
  using assms
  by (auto simp: handleTunnelResult_def Let_def split: if_splits option.splits prod.splits dest!: adopt_tunnel_frame)

section \<open>Services\<close>

text \<open>Every hash that a router monitors has a client service: no call makes an entry without one, because the
  callers of \<^verbatim>\<open>diggTunnel\<close> only give it hashes that have an entry.\<close>

definition served :: "(TurtleFileHash, TurtleHashInfo) std_map \<Rightarrow> bool" where
  "served m = (\<forall>(hash, info) \<in> set m. hi_service info \<noteq> None)"

lemma served_put: "served m \<Longrightarrow> hi_service info \<noteq> None \<Longrightarrow> served (map_put hash info m)"
  by (induction m) (auto simp: served_def split: if_splits)

lemma served_get: "served m \<Longrightarrow> map_of m hash = Some info \<Longrightarrow> hi_service info \<noteq> None"
  by (auto simp: served_def dest: map_of_SomeD)

lemma handleTunnelRequest_hashes:
  "handleTunnelRequest env item t = (t', outs) \<Longrightarrow> incoming_file_hashes t' = incoming_file_hashes t"
  by (auto simp: handleTunnelRequest_def Let_def split: if_splits option.splits)

lemma monitorTunnels_served:
  "served (incoming_file_hashes t) \<Longrightarrow> served (incoming_file_hashes (monitorTunnels hash service multi random t))"
  by (simp add: monitorTunnels_def Let_def served_put)

lemma monitorTunnels_frame:
  "own_id (monitorTunnels hash service multi random t) = own_id t"
  "tunnel_requests_origins (monitorTunnels hash service multi random t) = tunnel_requests_origins t"
  by (simp_all add: monitorTunnels_def Let_def)

lemma diggTunnel_served:
  assumes "diggTunnel env rid hash t = (t', outs)" "served (incoming_file_hashes t)"
    and "map_of (incoming_file_hashes t) hash \<noteq> None"
  shows "served (incoming_file_hashes t')"
  using handleTunnelRequest_hashes [OF assms(1) [unfolded diggTunnel_def Let_def]] assms(2,3) served_get [OF assms(2)]
  by (auto simp: map_get_def intro!: served_put)

lemma forceReDiggTunnels_served:
  assumes "forceReDiggTunnels env rid hash t = (t', outs)" "served (incoming_file_hashes t)"
  shows "served (incoming_file_hashes t')"
  using assms diggTunnel_served by (auto simp: forceReDiggTunnels_def split: if_splits)

lemma manageTunnels_cases:
  assumes "manageTunnels env rid t = (t', outs)"
  obtains tids where "t' = touch_tunnels tids t" "outs = []"
  | tids hash where "diggTunnel env rid hash (touch_tunnels tids t) = (t', outs)"
      "map_of (incoming_file_hashes t) hash \<noteq> None"
proof -
  define ks where "ks = sort_key (\<lambda>(hash :: TurtleFileHash, info). hi_last_digg_time info)
    (filter (needs_digging env) (incoming_file_hashes t))"
  let ?touched = "touch_tunnels (concat (map (\<lambda>(hash, info). hi_tunnels info) (incoming_file_hashes t))) t"
  have m: "(case ks of [] \<Rightarrow> (?touched, []) | (hash, info) # _ \<Rightarrow> diggTunnel env rid hash ?touched) = (t', outs)"
    using assms unfolding manageTunnels_def Let_def ks_def [symmetric] .
  show ?thesis
  proof (cases ks)
    case Nil
    then have "t' = ?touched" "outs = []" using m by simp_all
    then show ?thesis by (rule that(1))
  next
    case (Cons k ks')
    obtain hash info where k: "k = (hash, info)" by (cases k)
    have "(hash, info) \<in> set ks" using Cons k by simp
    then have "(hash, info) \<in> set (incoming_file_hashes t)" by (simp add: ks_def)
    then have "hash \<in> fst ` set (incoming_file_hashes t)" by force
    then have "map_of (incoming_file_hashes t) hash \<noteq> None" by (simp add: map_of_eq_None_iff)
    then show ?thesis using m that(2) Cons k by simp
  qed
qed

lemma touch_tunnels_frame [simp]:
  "own_id (touch_tunnels tids t) = own_id t" "tunnel_requests_origins (touch_tunnels tids t) = tunnel_requests_origins t"
  "incoming_file_hashes (touch_tunnels tids t) = incoming_file_hashes t"
  by (simp_all add: touch_tunnels_def)

lemma manageTunnels_served:
  assumes "manageTunnels env rid t = (t', outs)" "served (incoming_file_hashes t)"
  shows "served (incoming_file_hashes t')"
  using assms(1)
proof (cases rule: manageTunnels_cases)
  case (2 tids hash)
  then show ?thesis using diggTunnel_served [OF 2(1)] assms(2) by simp
qed (use assms(2) in simp)

lemma adopt_tunnel_served:
  "adopt_tunnel rid tid hs t found = (t', found') \<Longrightarrow> served hs \<Longrightarrow> served (incoming_file_hashes t) \<Longrightarrow>
   (\<forall>hash. found \<noteq> Some (None, hash)) \<Longrightarrow>
   served (incoming_file_hashes t') \<and> (\<forall>hash. found' \<noteq> Some (None, hash))"
proof (induction rid tid hs t found rule: adopt_tunnel.induct)
  case (2 rid tid hash info hs t found)
  show ?case
  proof (cases "hi_last_request info = rid")
    case True
    let ?info = "info\<lparr>hi_tunnels := (if tid \<in> set (hi_tunnels info) then hi_tunnels info else hi_tunnels info @ [tid])\<rparr>"
    let ?t = "t\<lparr>incoming_file_hashes := map_put hash ?info (incoming_file_hashes t),
      local_tunnels := map_put tid ((map_get blank_tunnel tid (local_tunnels t))\<lparr>tt_hash := hash\<rparr>) (local_tunnels t)\<rparr>"
    have r: "adopt_tunnel rid tid hs (locked_addDistantPeer tid ?t) (Some (hi_service info, hash)) = (t', found')"
      using "2.prems"(1) True by (simp add: Let_def)
    have s: "served hs" "hi_service info \<noteq> None" using "2.prems"(2) by (auto simp: served_def)
    have "served (incoming_file_hashes (locked_addDistantPeer tid ?t))"
      using served_put [OF "2.prems"(3), of ?info] s(2) by simp
    then show ?thesis using "2.IH"(1) [OF True refl refl r s(1)] s(2) by simp
  next
    case False
    moreover have "served hs" using "2.prems"(2) by (simp add: served_def)
    ultimately show ?thesis using "2.IH"(2) [OF False] "2.prems"(1,3,4) by simp
  qed
qed simp

lemma handleTunnelResult_served:
  assumes "handleTunnelResult env item t = (t', outs)" "served (incoming_file_hashes t)"
  shows "served (incoming_file_hashes t')"
proof -
  have "served (incoming_file_hashes t1)"
    if "adopt_tunnel rid tid (incoming_file_hashes t) u None = (t1, f)" "incoming_file_hashes u = incoming_file_hashes t"
    for rid tid u t1 f
    using adopt_tunnel_served [OF that(1) assms(2)] that(2) assms(2) by simp
  then show ?thesis
    using assms by (auto simp: handleTunnelResult_def Let_def split: if_splits option.splits prod.splits)
qed

section \<open>The network\<close>

record tunnel_net =
  trouters :: "TurtlePeerId \<Rightarrow> tunnel_router"
  opens :: "(TurtlePeerId \<times> OpenTunnelItem) list"

definition opens_posted :: "TurtlePeerId \<Rightarrow> tunnel_output list \<Rightarrow> (TurtlePeerId \<times> OpenTunnelItem) list" where
  "opens_posted p outs = map (\<lambda>r. (ot_peer r, r\<lparr>ot_peer := p\<rparr>)) (opens_sent outs)"

datatype tunnel_event =
    Monitor TurtlePeerId TurtleFileHash u16 bool u32
  | StopMonitoring TurtlePeerId TurtleFileHash
  | Digg TurtlePeerId TurtleRequestId TurtleFileHash tunnel_env
  | Manage TurtlePeerId TurtleRequestId tunnel_env
  | Open TurtlePeerId OpenTunnelItem tunnel_env
  | LoseOpen
  | Ok TurtlePeerId TunnelOkItem tunnel_env
  | Route TurtlePeerId GenericTunnelItem tunnel_env
  | Send TurtlePeerId TurtleVirtualPeerId GenericTunnelItem tunnel_env

inductive tunnel_step :: "tunnel_net \<Rightarrow> tunnel_event \<Rightarrow> tunnel_net \<Rightarrow> bool" where
  tstep_monitor:
    "tunnel_step n (Monitor p hash service multi random)
       (n\<lparr>trouters := (trouters n)(p := monitorTunnels hash service multi random (trouters n p))\<rparr>)"
| tstep_stop:
    "tunnel_step n (StopMonitoring p hash)
       (n\<lparr>trouters := (trouters n)(p := stopMonitoringTunnels hash (trouters n p))\<rparr>)"
| tstep_digg:
    "forceReDiggTunnels env rid hash (trouters n p) = (t', outs) \<Longrightarrow>
     tunnel_step n (Digg p rid hash env)
       (n\<lparr>trouters := (trouters n)(p := t'), opens := opens n @ opens_posted p outs\<rparr>)"
| tstep_manage:
    "manageTunnels env rid (trouters n p) = (t', outs) \<Longrightarrow>
     tunnel_step n (Manage p rid env)
       (n\<lparr>trouters := (trouters n)(p := t'), opens := opens n @ opens_posted p outs\<rparr>)"
| tstep_open:
    "opens n = before @ (p, item) # after \<Longrightarrow> handleTunnelRequest env item (trouters n p) = (t', outs) \<Longrightarrow>
     tunnel_step n (Open p item env)
       (n\<lparr>trouters := (trouters n)(p := t'), opens := before @ after @ opens_posted p outs\<rparr>)"
| tstep_lose:
    "opens n = before @ m # after \<Longrightarrow> tunnel_step n LoseOpen (n\<lparr>opens := before @ after\<rparr>)"
| tstep_ok:
    "handleTunnelResult env item (trouters n p) = (t', outs) \<Longrightarrow>
     tunnel_step n (Ok p item env) (n\<lparr>trouters := (trouters n)(p := t')\<rparr>)"
| tstep_route:
    "routeGenericTunnelItem env item (trouters n p) = (t', outs) \<Longrightarrow>
     tunnel_step n (Route p item env) (n\<lparr>trouters := (trouters n)(p := t')\<rparr>)"
| tstep_send:
    "sendTurtleData env vpid item (trouters n p) = (t', outs) \<Longrightarrow>
     tunnel_step n (Send p vpid item env) (n\<lparr>trouters := (trouters n)(p := t')\<rparr>)"

definition tunnel_start :: "tunnel_net \<Rightarrow> bool" where
  "tunnel_start n = (opens n = [] \<and>
     (\<forall>p. own_id (trouters n p) = p \<and> tunnel_requests_origins (trouters n p) = [] \<and>
        served (incoming_file_hashes (trouters n p))))"

definition tunnel_origins :: "tunnel_net \<Rightarrow> TurtleRequestId \<Rightarrow> TurtlePeerId \<Rightarrow> TurtlePeerId option" where
  "tunnel_origins n rid p = map_option qi_origin (request_of (trouters n p) rid)"

definition tunnel_inv :: "tunnel_net \<Rightarrow> bool" where
  "tunnel_inv n =
     ((\<forall>p. own_id (trouters n p) = p) \<and> (\<forall>p. served (incoming_file_hashes (trouters n p))) \<and>
      (\<forall>(q, item) \<in> set (opens n). tunnel_origins n (ot_request_id item) (ot_peer item) \<noteq> None) \<and>
      (\<forall>rid. \<exists>rank. ranked (tunnel_origins n rid) rank))"

lemma tunnel_invD:
  assumes "tunnel_inv n"
  shows "own_id (trouters n p) = p"
    and "(q, item) \<in> set (opens n) \<Longrightarrow> tunnel_origins n (ot_request_id item) (ot_peer item) \<noteq> None"
    and "\<exists>rank. ranked (tunnel_origins n rid) rank"
    and "served (incoming_file_hashes (trouters n p))"
  using assms unfolding tunnel_inv_def by blast+

lemma tunnel_start_inv: "tunnel_start n \<Longrightarrow> tunnel_inv n"
  by (auto simp: tunnel_start_def tunnel_inv_def tunnel_origins_def
    intro!: exI [of "ranked _" "\<lambda>_. 0"] ranked_empty)

text \<open>A call that leaves the requests of its router alone.\<close>

lemma quiet_inv:
  assumes inv: "tunnel_inv n" and own: "own_id t' = own_id (trouters n p)" and sub: "set ms \<subseteq> set (opens n)"
    and sv: "served (incoming_file_hashes t')"
    and same: "\<And>rid. map_option qi_origin (request_of t' rid) = map_option qi_origin (request_of (trouters n p) rid)"
  shows "tunnel_inv (n\<lparr>trouters := (trouters n)(p := t'), opens := ms\<rparr>)"
proof -
  have "tunnel_origins (n\<lparr>trouters := (trouters n)(p := t'), opens := ms\<rparr>) = tunnel_origins n"
    using same by (auto simp: tunnel_origins_def fun_eq_iff)
  then show ?thesis using inv own sub sv by (auto simp: tunnel_inv_def)
qed

lemma request_inv:
  assumes inv: "tunnel_inv n" and sub: "set ms \<subseteq> set (opens n)"
    and t: "own_id t = p" "\<And>rid. request_of t rid = request_of (trouters n p) rid"
    and sv: "served (incoming_file_hashes t)"
    and src: "ot_peer item = p \<or> tunnel_origins n (ot_request_id item) (ot_peer item) \<noteq> None"
    and h: "handleTunnelRequest env item t = (t', outs)"
  shows "tunnel_inv (n\<lparr>trouters := (trouters n)(p := t'), opens := ms @ opens_posted p outs\<rparr>)"
  using handleTunnelRequest_effect [OF h]
proof (elim conjE disjE)
  assume "t' = t" "outs = []"
  then show ?thesis
    using quiet_inv [OF inv _ sub sv, of p] t tunnel_invD(1) [OF inv] by (simp add: opens_posted_def)
next
  let ?rid = "ot_request_id item"
  assume own: "own_id t' = own_id t" and new: "request_of t ?rid = None"
    and e: "\<forall>rid. map_option qi_origin (request_of t' rid) =
        (if rid = ?rid then Some (ot_peer item) else map_option qi_origin (request_of t rid))"
    and sent: "\<forall>r \<in> set (opens_sent outs). ot_request_id r = ?rid"
  let ?n = "n\<lparr>trouters := (trouters n)(p := t'), opens := ms @ opens_posted p outs\<rparr>"
  have o: "tunnel_origins ?n rid =
      (if rid = ?rid then (tunnel_origins n rid)(p \<mapsto> ot_peer item) else tunnel_origins n rid)" for rid
    using e t(2) by (auto simp: tunnel_origins_def fun_eq_iff)
  have rk: "\<exists>rank. ranked (tunnel_origins ?n rid) rank" for rid
  proof -
    obtain rank where rank: "ranked (tunnel_origins n rid) rank" using tunnel_invD(3) [OF inv] by blast
    show ?thesis
    proof (cases "rid = ?rid")
      case True
      then have "tunnel_origins n rid p = None" "ot_peer item = p \<or> tunnel_origins n rid (ot_peer item) \<noteq> None"
        using new t(2) src by (simp_all add: tunnel_origins_def)
      then show ?thesis using ranked_new [OF rank] o [of rid] True by metis
    next
      case False
      then show ?thesis using rank o [of rid] by metis
    qed
  qed
  have fl: "tunnel_origins ?n (ot_request_id r) (ot_peer r) \<noteq> None" if m: "(q, r) \<in> set (opens ?n)" for q r
  proof (cases "(q, r) \<in> set ms")
    case True
    then show ?thesis using tunnel_invD(2) [OF inv, of q r] sub o [of "ot_request_id r"] by (auto split: if_splits)
  next
    case False
    then have "(q, r) \<in> set (opens_posted p outs)" using m by simp
    then have "ot_peer r = p" "ot_request_id r = ?rid" using sent by (auto simp: opens_posted_def)
    then show ?thesis using o by simp
  qed
  have "own_id (trouters ?n q) = q" "served (incoming_file_hashes (trouters ?n q))" for q
    using tunnel_invD(1,4) [OF inv] own t(1) sv handleTunnelRequest_hashes [OF h] by simp_all
  then show ?thesis unfolding tunnel_inv_def using fl rk by blast
qed

lemma routes_frame:
  "routeGenericTunnelItem env item t = (t', outs) \<Longrightarrow>
   own_id t' = own_id t \<and> tunnel_requests_origins t' = tunnel_requests_origins t \<and>
   incoming_file_hashes t' = incoming_file_hashes t"
  "sendTurtleData env vpid item t = (t', outs) \<Longrightarrow>
   own_id t' = own_id t \<and> tunnel_requests_origins t' = tunnel_requests_origins t \<and>
   incoming_file_hashes t' = incoming_file_hashes t"
  by (auto simp: routeGenericTunnelItem_def sendTurtleData_def Let_def split: option.splits if_splits)

lemma tunnel_step_inv:
  assumes inv: "tunnel_inv n" and step: "tunnel_step n ev n'"
  shows "tunnel_inv n'"
proof -
  have quiet: "tunnel_inv (n\<lparr>trouters := (trouters n)(p := t')\<rparr>)"
    if "own_id t' = own_id (trouters n p)" "served (incoming_file_hashes t')"
      "\<And>rid. map_option qi_origin (request_of t' rid) = map_option qi_origin (request_of (trouters n p) rid)" for p t'
    using quiet_inv [OF inv that(1) order.refl that(2,3)] by simp
  have digs: "tunnel_inv (n\<lparr>trouters := (trouters n)(p := t'), opens := opens n @ opens_posted p outs\<rparr>)"
    if "own_id t = p" "tunnel_requests_origins t = tunnel_requests_origins (trouters n p)" "served (incoming_file_hashes t)"
      "map_of (incoming_file_hashes t) hash \<noteq> None" "diggTunnel env rid hash t = (t', outs)" for p t t' outs env rid hash
  proof (rule request_inv [OF inv order.refl _ _ _ _ that(5) [unfolded diggTunnel_def Let_def]])
    show "served (incoming_file_hashes (t\<lparr>incoming_file_hashes := map_put hash
      ((map_get blank_hash_info hash (incoming_file_hashes t))\<lparr>hi_last_request := rid, hi_last_digg_time := tv_now env\<rparr>)
      (incoming_file_hashes t)\<rparr>))"
      using that(3,4) served_get [OF that(3)] by (auto simp: map_get_def intro!: served_put)
  qed (use that(1,2) in simp_all)
  show ?thesis
    using step
  proof cases
    case (tstep_monitor p hash service multi random)
    then show ?thesis
      using quiet [of "monitorTunnels hash service multi random (trouters n p)" p]
        monitorTunnels_served [OF tunnel_invD(4) [OF inv]] by (simp add: monitorTunnels_frame)
  next
    case (tstep_stop p hash)
    then show ?thesis using inv tunnel_invD(4) [OF inv] by (auto simp: stopMonitoringTunnels_def intro!: quiet)
  next
    case (tstep_digg env rid hash p t' outs)
    show ?thesis
    proof (cases "map_of (incoming_file_hashes (trouters n p)) hash")
      case None
      then show ?thesis using tstep_digg(2,3) inv by (simp add: forceReDiggTunnels_def opens_posted_def fun_upd_idem)
    next
      case (Some info)
      then have "diggTunnel env rid hash (trouters n p) = (t', outs)" using tstep_digg(3) by (simp add: forceReDiggTunnels_def)
      from digs [OF tunnel_invD(1) [OF inv] refl tunnel_invD(4) [OF inv] _ this] show ?thesis
        using Some tstep_digg(2) by simp
    qed
  next
    case (tstep_manage env rid p t' outs)
    from tstep_manage(3) show ?thesis
    proof (cases rule: manageTunnels_cases)
      case (1 tids)
      then show ?thesis
        using quiet [of "touch_tunnels tids (trouters n p)" p] tunnel_invD(4) [OF inv] tstep_manage(2)
        by (simp add: opens_posted_def)
    next
      case (2 tids hash)
      from digs [OF _ _ _ _ 2(1), of p] show ?thesis
        using 2(2) tunnel_invD(1,4) [OF inv] tstep_manage(2) by simp
    qed
  next
    case (tstep_open before p item after env t' outs)
    have "tunnel_inv (n\<lparr>trouters := (trouters n)(p := t'), opens := (before @ after) @ opens_posted p outs\<rparr>)"
      by (rule request_inv [OF inv _ _ _ _ _ tstep_open(4)])
        (use tunnel_invD [OF inv] tstep_open(3) in auto)
    then show ?thesis using tstep_open(2) by simp
  next
    case (tstep_lose before m after)
    then show ?thesis
      using quiet_inv [OF inv refl _ tunnel_invD(4) [OF inv] refl, of "before @ after" undefined] by auto
  next
    case (tstep_ok env item p t' outs)
    then show ?thesis
      using handleTunnelResult_frame [OF tstep_ok(3)] handleTunnelResult_served [OF tstep_ok(3) tunnel_invD(4) [OF inv]]
      by (auto intro!: quiet)
  next
    case (tstep_route env item p t' outs)
    then show ?thesis using routes_frame(1) [OF tstep_route(3)] tunnel_invD(4) [OF inv] by (auto intro!: quiet)
  next
    case (tstep_send env vpid item p t' outs)
    then show ?thesis using routes_frame(2) [OF tstep_send(3)] tunnel_invD(4) [OF inv] by (auto intro!: quiet)
  qed
qed

interpretation tunnel_net: inductive_invariant tunnel_start tunnel_step tunnel_inv
  by unfold_locales (rule tunnel_start_inv, assumption, rule tunnel_step_inv)

text \<open>No item is handed to a service that does not exist.\<close>

lemma no_null_service:
  assumes "reach tunnel_start tunnel_step n" and "routeGenericTunnelItem env item (trouters n p) = (t', outs)"
  shows "CallThroughNull \<notin> set outs"
proof -
  have "served (incoming_file_hashes (trouters n p))"
    using tunnel_net.reach_inv [OF assms(1)] tunnel_invD(4) by blast
  then show ?thesis
    using assms(2)
    by (auto simp: routeGenericTunnelItem_def handleRecvGenericTunnelItem_def getTunnelServiceInfo_def Let_def
      split: option.splits if_splits dest: served_get)
qed

end
