(* ===== verification/Tunnel_Chain.thy ===== *)
theory Tunnel_Chain
  imports Tunnel_Net
begin

text \<open>How the answer to a tunnel request makes the chain of notes, and how items travel along it.\<close>

section \<open>Chains\<close>

text \<open>Peers whose notes agree: each has the next one as its end towards the server and each next one has it
  as its end towards the client; the last one is the server.\<close>

fun linked :: "(TurtlePeerId \<Rightarrow> (TurtlePeerId \<times> TurtlePeerId) option) \<Rightarrow> TurtlePeerId list \<Rightarrow> bool" where
  "linked E [] = False"
| "linked E [x] = (\<exists>s. E x = Some (s, x))"
| "linked E (x # y # ys) = ((\<exists>s. E x = Some (s, y)) \<and> (\<exists>d. E y = Some (x, d)) \<and> linked E (y # ys))"

text \<open>A whole tunnel from the client to the server.\<close>

definition tunnel_path :: "(TurtlePeerId \<Rightarrow> (TurtlePeerId \<times> TurtlePeerId) option) \<Rightarrow> TurtlePeerId list \<Rightarrow> bool" where
  "tunnel_path E xs = (linked E xs \<and> distinct xs \<and> 2 \<le> length xs \<and> (\<exists>d. E (hd xs) = Some (hd xs, d)))"

lemma linked_cong: "(\<And>x. x \<in> set xs \<Longrightarrow> E' x = E x) \<Longrightarrow> linked E' xs = linked E xs"
  by (induction E xs rule: linked.induct) auto

lemma linked_last: "linked E xs \<Longrightarrow> \<exists>s. E (last xs) = Some (s, last xs)"
  by (induction E xs rule: linked.induct) auto

lemma linked_pair:
  "linked E xs \<Longrightarrow> xs = as @ a # b # bs \<Longrightarrow> (\<exists>s. E a = Some (s, b)) \<and> (\<exists>d. E b = Some (a, d))"
proof (induction as arbitrary: xs)
  case (Cons x as)
  then show ?case by (cases "as @ a # b # bs") auto
qed auto

section \<open>Making the chain\<close>

lemma handleTunnelResult_passed:
  assumes "request_of t rid = Some req" "tid \<notin> set (qi_responses req)" "map_of (local_tunnels t) tid = None"
    and "tv_now env \<le> uint (qi_time_stamp req) + TUNNEL_REQUESTS_RESULT_TIME" "qi_origin req \<noteq> own_id t"
    and "tk_request_id item = rid" "tk_tunnel_id item = tid"
  obtains t' where "handleTunnelResult env item t = (t', [SendOk (item\<lparr>tk_peer := qi_origin req\<rparr>)])"
    "tunnel_ends t' tid = Some (qi_origin req, tk_peer item)"
  using assms by (simp add: handleTunnelResult_def Let_def tunnel_ends_def)

text \<open>An end is ready: the client service that is told of the virtual peer is the one that items are for.\<close>

definition client_ready :: "tunnel_router \<Rightarrow> TurtleTunnelId \<Rightarrow> u16 \<Rightarrow> TurtleFileHash \<Rightarrow> bool" where
  "client_ready t tid service hash =
     (map_of (virtual_peers t) (vpid_of tid) = Some tid \<and>
      (\<exists>tun info. map_of (local_tunnels t) tid = Some tun \<and> tt_vpid tun = vpid_of tid \<and> tt_hash tun = hash \<and>
         map_of (incoming_file_hashes t) hash = Some info \<and> hi_service info = Some service))"

definition server_ready :: "tunnel_router \<Rightarrow> TurtleTunnelId \<Rightarrow> u16 \<Rightarrow> TurtleFileHash \<Rightarrow> bool" where
  "server_ready t tid service hash =
     (map_of (virtual_peers t) (vpid_of tid) = Some tid \<and>
      (\<exists>tun. map_of (local_tunnels t) tid = Some tun \<and> tt_vpid tun = vpid_of tid \<and> tt_hash tun = hash) \<and>
      map_of (outgoing_tunnel_client_services t) tid = Some service)"

abbreviation adopted :: "tunnel_router \<Rightarrow> TurtleTunnelId \<Rightarrow> (u16 option \<times> TurtleFileHash) option \<Rightarrow> bool" where
  "adopted t tid found \<equiv> (\<forall>service hash. found = Some (Some service, hash) \<longrightarrow> client_ready t tid service hash)"

lemma adopt_tunnel_adopted:
  "adopt_tunnel rid tid hs t found = (t', found') \<Longrightarrow> map_of (local_tunnels t) tid = Some tun \<Longrightarrow>
   adopted t tid found \<Longrightarrow> adopted t' tid found'"
proof (induction rid tid hs t found arbitrary: tun rule: adopt_tunnel.induct)
  case (2 rid tid hash info hs t found)
  show ?case
  proof (cases "hi_last_request info = rid")
    case True
    let ?info = "info\<lparr>hi_tunnels := (if tid \<in> set (hi_tunnels info) then hi_tunnels info else hi_tunnels info @ [tid])\<rparr>"
    let ?t = "t\<lparr>incoming_file_hashes := map_put hash ?info (incoming_file_hashes t),
      local_tunnels := map_put tid (tun\<lparr>tt_hash := hash\<rparr>) (local_tunnels t)\<rparr>"
    have r: "adopt_tunnel rid tid hs (locked_addDistantPeer tid ?t) (Some (hi_service info, hash)) = (t', found')"
      using "2.prems"(1,2) True by (simp add: map_get_def)
    have l: "map_of (local_tunnels (locked_addDistantPeer tid ?t)) tid = Some (tun\<lparr>tt_hash := hash, tt_vpid := vpid_of tid\<rparr>)"
      using addDistantPeer_tunnel [of ?t tid "tun\<lparr>tt_hash := hash\<rparr>"] by simp
    have "adopted (locked_addDistantPeer tid ?t) tid (Some (hi_service info, hash))"
      using l by (simp add: client_ready_def)
    then show ?thesis
      using "2.IH"(1) [OF True refl refl, of "tun\<lparr>tt_hash := hash, tt_vpid := vpid_of tid\<rparr>"] r l "2.prems"(2)
      by (simp add: map_get_def)
  next
    case False
    then show ?thesis using "2.IH"(2) "2.prems" by simp
  qed
qed simp

lemma adopt_tunnel_found:
  "adopt_tunnel rid tid hs t found = (t', found') \<Longrightarrow>
   found \<noteq> None \<or> (\<exists>(hash, info) \<in> set hs. hi_last_request info = rid) \<Longrightarrow> found' \<noteq> None"
proof (induction rid tid hs t found rule: adopt_tunnel.induct)
  case (2 rid tid hash info hs t found)
  show ?case
  proof (cases "hi_last_request info = rid")
    case True
    then show ?thesis using "2.IH"(1) [OF True refl refl] "2.prems"(1) by (simp add: Let_def)
  next
    case False
    then show ?thesis using "2.IH"(2) [OF False] "2.prems" by simp
  qed
qed simp

lemma handleTunnelResult_home:
  assumes "request_of t rid = Some req" "tid \<notin> set (qi_responses req)" "map_of (local_tunnels t) tid = None"
    and "tv_now env \<le> uint (qi_time_stamp req) + TUNNEL_REQUESTS_RESULT_TIME" "qi_origin req = own_id t"
    and "tk_request_id item = rid" "tk_tunnel_id item = tid"
    and "\<exists>(hash, info) \<in> set (incoming_file_hashes t). hi_last_request info = rid"
    and "served (incoming_file_hashes t)"
  obtains t' service hash where
    "handleTunnelResult env item t = (t', [AddVirtualPeer service hash (vpid_of tid) DIRECTION_SERVER])"
    "tunnel_ends t' tid = Some (own_id t, tk_peer item)" "client_ready t' tid service hash"
proof -
  let ?t1 = "t\<lparr>tunnel_requests_origins :=
     map_put rid (req\<lparr>qi_responses := tid # qi_responses req\<rparr>) (tunnel_requests_origins t)\<rparr>"
  let ?tun = "blank_tunnel\<lparr>tt_local_src := qi_origin req, tt_local_dst := tk_peer item,
     tt_time_stamp := word_of_int (tv_now env)\<rparr>"
  let ?t2 = "?t1\<lparr>local_tunnels := map_put tid ?tun (local_tunnels ?t1)\<rparr>"
  obtain t' found where a: "adopt_tunnel rid tid (incoming_file_hashes ?t2) ?t2 None = (t', found)" by fastforce
  have l: "map_of (local_tunnels ?t2) tid = Some ?tun" by simp
  have "found \<noteq> None" using adopt_tunnel_found [OF a] assms(8) by simp
  moreover have "\<forall>hash. found \<noteq> Some (None, hash)" using adopt_tunnel_served [OF a] assms(9) by simp
  ultimately obtain service hash where f: "found = Some (Some service, hash)" by (cases found) auto
  have "client_ready t' tid service hash" using adopt_tunnel_adopted [OF a l] f by simp
  moreover have "tunnel_ends t' tid = Some (own_id t, tk_peer item)"
    using adopt_tunnel_ends [OF a, of "(qi_origin req, tk_peer item)"] assms(5) by (simp add: tunnel_ends_def)
  moreover have "handleTunnelResult env item t = (t', [AddVirtualPeer service hash (vpid_of tid) DIRECTION_SERVER])"
    using assms a f by (simp add: handleTunnelResult_def Let_def)
  ultimately show ?thesis using that by blast
qed

text \<open>The answer is passed on from router to router until one tells a client service of a new peer.\<close>

fun carry_ok :: "nat \<Rightarrow> (TurtlePeerId \<Rightarrow> tunnel_env) \<Rightarrow> TurtlePeerId \<Rightarrow> TunnelOkItem \<Rightarrow> tunnel_net \<Rightarrow>
    tunnel_net \<times> (TurtlePeerId \<times> u16 \<times> TurtleFileHash) option" where
  "carry_ok 0 env p item n = (n, None)"
| "carry_ok (Suc k) env p item n =
     (case handleTunnelResult (env p) item (trouters n p) of
        (t', outs) \<Rightarrow>
          (let n' = n\<lparr>trouters := (trouters n)(p := t')\<rparr> in
           (case outs of
              [SendOk ok] \<Rightarrow> carry_ok k env (tk_peer ok) (ok\<lparr>tk_peer := p\<rparr>) n'
            | [AddVirtualPeer service hash vpid direction] \<Rightarrow> (n', Some (p, service, hash))
            | _ \<Rightarrow> (n', None))))"

lemma carry_ok_simps:
  "handleTunnelResult (env p) item (trouters n p) = (t', [SendOk ok]) \<Longrightarrow>
   carry_ok (Suc k) env p item n = carry_ok k env (tk_peer ok) (ok\<lparr>tk_peer := p\<rparr>) (n\<lparr>trouters := (trouters n)(p := t')\<rparr>)"
  "handleTunnelResult (env p) item (trouters n p) = (t', [AddVirtualPeer service hash vpid direction]) \<Longrightarrow>
   carry_ok (Suc k) env p item n = (n\<lparr>trouters := (trouters n)(p := t')\<rparr>, Some (p, service, hash))"
  by (simp_all add: Let_def)

declare carry_ok.simps(2) [simp del]

text \<open>A router lets the answer through: the tunnel is new to it, the request is at most twenty seconds old,
  and when it has asked itself, it still waits for the hash.\<close>

definition opens_way :: "tunnel_env \<Rightarrow> TurtleRequestId \<Rightarrow> TurtleTunnelId \<Rightarrow> TurtlePeerId \<Rightarrow> tunnel_router \<Rightarrow> bool" where
  "opens_way env rid tid p t =
     (\<forall>req. request_of t rid = Some req \<longrightarrow>
        tid \<notin> set (qi_responses req) \<and> map_of (local_tunnels t) tid = None \<and>
        tv_now env \<le> uint (qi_time_stamp req) + TUNNEL_REQUESTS_RESULT_TIME \<and>
        (qi_origin req = p \<longrightarrow> (\<exists>(hash, info) \<in> set (incoming_file_hashes t). hi_last_request info = rid)))"

abbreviation ends_at :: "tunnel_net \<Rightarrow> TurtleTunnelId \<Rightarrow> TurtlePeerId \<Rightarrow> (TurtlePeerId \<times> TurtlePeerId) option" where
  "ends_at n tid \<equiv> \<lambda>x. tunnel_ends (trouters n x) tid"

lemma carry_ok_chain:
  assumes "ranked (tunnel_origins n rid) rank"
    and "\<forall>x. own_id (trouters n x) = x \<and> served (incoming_file_hashes (trouters n x))"
    and "request_of (trouters n q) rid = Some req"
    and "\<forall>x. rank x \<le> rank q \<longrightarrow> opens_way (env x) rid tid x (trouters n x)"
    and "tk_request_id item = rid" and "tk_tunnel_id item = tid" and "tk_peer item = p"
    and "linked (ends_at n tid) (p # ps)" and "\<exists>d. ends_at n tid p = Some (q, d)"
    and "\<forall>y \<in> set (p # ps). rank q < rank y" and "distinct (p # ps)"
  shows "\<exists>k n' home service hash xs. carry_ok k env q item n = (n', Some (home, service, hash)) \<and>
           tunnel_path (ends_at n' tid) (xs @ p # ps) \<and> hd (xs @ p # ps) = home \<and> client_ready (trouters n' home) tid service hash \<and>
           (\<forall>x. own_id (trouters n' x) = x \<and> served (incoming_file_hashes (trouters n' x))) \<and> (\<forall>x \<in> set (p # ps). trouters n' x = trouters n x)"
  using assms
proof (induction "rank q" arbitrary: q req item n p ps rule: less_induct)
  case less
  have w: "opens_way (env q) rid tid q (trouters n q)" using less.prems(4) by blast
  have qn: "q \<notin> set (p # ps)" using less.prems(10) by blast
  show ?case
  proof (cases "qi_origin req = q")
    case True
    then obtain t' service hash where h:
      "handleTunnelResult (env q) item (trouters n q) = (t', [AddVirtualPeer service hash (vpid_of tid) DIRECTION_SERVER])"
      "tunnel_ends t' tid = Some (q, p)" "client_ready t' tid service hash"
      using handleTunnelResult_home [OF less.prems(3), of tid "env q" item] w less.prems(2,3,5,6,7)
      by (auto simp: opens_way_def)
    let ?n = "n\<lparr>trouters := (trouters n)(q := t')\<rparr>"
    have e: "ends_at ?n tid x = (if x = q then Some (q, p) else ends_at n tid x)" for x using h(2) by simp
    have "linked (ends_at ?n tid) (p # ps) = linked (ends_at n tid) (p # ps)"
      by (rule linked_cong) (use qn in auto)
    then have "linked (ends_at ?n tid) (q # p # ps)" using e less.prems(8,9) qn by auto
    then have "tunnel_path (ends_at ?n tid) ([q] @ p # ps)" using e qn less.prems(11) by (simp add: tunnel_path_def)
    moreover have "carry_ok (Suc 0) env q item n = (?n, Some (q, service, hash))" using carry_ok_simps(2) [where env = env and p = q and n = n, OF h(1), of 0] by simp
    moreover have "\<forall>x. own_id (trouters ?n x) = x \<and> served (incoming_file_hashes (trouters ?n x))"
      using less.prems(2) handleTunnelResult_frame [OF h(1)] handleTunnelResult_served [OF h(1)] by simp
    moreover have "\<forall>x \<in> set (p # ps). trouters ?n x = trouters n x" using qn by auto
    ultimately show ?thesis using h(3) by (intro exI [of _ "Suc 0"] exI [of _ ?n] exI [of _ q] exI [of _ service] exI [of _ hash] exI [of _ "[q]"]) simp
  next
    case False
    let ?o = "qi_origin req"
    obtain t' where h: "handleTunnelResult (env q) item (trouters n q) = (t', [SendOk (item\<lparr>tk_peer := ?o\<rparr>)])"
      "tunnel_ends t' tid = Some (?o, p)"
      using handleTunnelResult_passed [OF less.prems(3), of tid "env q" item] w False less.prems(2,3,5,6,7)
      by (auto simp: opens_way_def)
    let ?n = "n\<lparr>trouters := (trouters n)(q := t')\<rparr>"
    let ?item = "item\<lparr>tk_peer := q\<rparr>"
    have lower: "rank ?o < rank q" and org: "tunnel_origins n rid ?o \<noteq> None"
      using rankedD [OF less.prems(1), of q ?o] less.prems(3) False by (auto simp: tunnel_origins_def)
    have same: "tunnel_origins ?n rid = tunnel_origins n rid"
      using handleTunnelResult_frame [OF h(1)] by (auto simp: tunnel_origins_def fun_eq_iff)
    obtain reqo where "request_of (trouters ?n ?o) rid = Some reqo"
      using org False by (auto simp: tunnel_origins_def)
    moreover have "ranked (tunnel_origins ?n rid) rank" using less.prems(1) same by simp
    moreover have own: "\<forall>x. own_id (trouters ?n x) = x \<and> served (incoming_file_hashes (trouters ?n x))"
      using less.prems(2) handleTunnelResult_frame [OF h(1)] handleTunnelResult_served [OF h(1)] by simp
    moreover have "\<forall>x. rank x \<le> rank ?o \<longrightarrow> opens_way (env x) rid tid x (trouters ?n x)"
      using less.prems(4) lower by auto
    moreover have "linked (ends_at ?n tid) (p # ps) = linked (ends_at n tid) (p # ps)"
      by (rule linked_cong) (use qn in auto)
    then have "linked (ends_at ?n tid) (q # p # ps)" using less.prems(8,9) h(2) qn by auto
    moreover have "\<exists>d. ends_at ?n tid q = Some (?o, d)" using h(2) by simp
    moreover have "\<forall>y \<in> set (q # p # ps). rank ?o < rank y" using less.prems(10) lower by auto
    moreover have "distinct (q # p # ps)" using qn less.prems(11) by simp
    ultimately obtain k n' home service hash xs where c: "carry_ok k env ?o ?item ?n = (n', Some (home, service, hash))"
      "tunnel_path (ends_at n' tid) (xs @ q # p # ps)" "hd (xs @ q # p # ps) = home" "client_ready (trouters n' home) tid service hash"
      "\<forall>x. own_id (trouters n' x) = x \<and> served (incoming_file_hashes (trouters n' x))" "\<forall>x \<in> set (q # p # ps). trouters n' x = trouters ?n x"
      using less.hyps [OF lower, of ?n reqo ?item q "p # ps"] less.prems(5,6) by auto
    have "carry_ok (Suc k) env q item n = (n', Some (home, service, hash))"
      using carry_ok_simps(1) [where env = env and p = q and n = n, OF h(1), of k] c(1) by simp
    moreover have "\<forall>x \<in> set (p # ps). trouters n' x = trouters n x" using c(6) qn by auto
    ultimately show ?thesis
      using c(2-5) by (intro exI [of _ "Suc k"] exI [of _ n'] exI [of _ home] exI [of _ service] exI [of _ hash] exI [of _ "xs @ [q]"]) simp
  qed
qed

section \<open>Items in the chain\<close>

fun carry_item :: "nat \<Rightarrow> (TurtlePeerId \<Rightarrow> tunnel_env) \<Rightarrow> TurtlePeerId \<Rightarrow> GenericTunnelItem \<Rightarrow> tunnel_net \<Rightarrow>
    tunnel_net \<times> (TurtlePeerId \<times> tunnel_output) option" where
  "carry_item 0 env p item n = (n, None)"
| "carry_item (Suc k) env p item n =
     (case routeGenericTunnelItem (env p) item (trouters n p) of
        (t', outs) \<Rightarrow>
          (let n' = n\<lparr>trouters := (trouters n)(p := t')\<rparr> in
           (case outs of
              [SendGeneric g] \<Rightarrow> carry_item k env (gt_peer g) (g\<lparr>gt_peer := p\<rparr>) n'
            | [ReceiveTurtleData service g hash vpid direction] \<Rightarrow>
                (n', Some (p, ReceiveTurtleData service g hash vpid direction))
            | _ \<Rightarrow> (n', None))))"

lemma carry_item_simps:
  "routeGenericTunnelItem (env p) item (trouters n p) = (t', [SendGeneric g]) \<Longrightarrow>
   carry_item (Suc k) env p item n = carry_item k env (gt_peer g) (g\<lparr>gt_peer := p\<rparr>) (n\<lparr>trouters := (trouters n)(p := t')\<rparr>)"
  "routeGenericTunnelItem (env p) item (trouters n p) = (t', [ReceiveTurtleData service g hash vpid direction]) \<Longrightarrow>
   carry_item (Suc k) env p item n =
     (n\<lparr>trouters := (trouters n)(p := t')\<rparr>, Some (p, ReceiveTurtleData service g hash vpid direction))"
  by (simp_all add: Let_def)

declare carry_item.simps(2) [simp del]

text \<open>A client service sends an item to a virtual peer.\<close>

definition transmit :: "nat \<Rightarrow> (TurtlePeerId \<Rightarrow> tunnel_env) \<Rightarrow> TurtlePeerId \<Rightarrow> TurtleVirtualPeerId \<Rightarrow> GenericTunnelItem \<Rightarrow>
    tunnel_net \<Rightarrow> tunnel_net \<times> (TurtlePeerId \<times> tunnel_output) option" where
  "transmit k env p vpid item n =
     (case sendTurtleData (env p) vpid item (trouters n p) of
        (t', outs) \<Rightarrow>
          (let n' = n\<lparr>trouters := (trouters n)(p := t')\<rparr> in
           (case outs of
              [SendGeneric g] \<Rightarrow> carry_item k env (gt_peer g) (g\<lparr>gt_peer := p\<rparr>) n'
            | _ \<Rightarrow> (n', None))))"

end
