(* ===== verification/Tunnel_Talk.thy ===== *)
theory Tunnel_Talk
  imports Tunnel_Chain
begin

text \<open>What travels in an open tunnel: every item one end sends is handed to the client service of the other
  end, and the tunnel stays open.\<close>

section \<open>What an item leaves\<close>

definition same_notes :: "TurtleTunnelId \<Rightarrow> tunnel_router \<Rightarrow> tunnel_router \<Rightarrow> bool" where
  "same_notes tid t t' =
     (own_id t' = own_id t \<and> tunnel_ends t' tid = tunnel_ends t tid \<and>
      (\<forall>service hash. client_ready t tid service hash \<longrightarrow> client_ready t' tid service hash) \<and>
      (\<forall>service hash. server_ready t tid service hash \<longrightarrow> server_ready t' tid service hash))"

lemma same_notes_refl [simp]: "same_notes tid t t"
  by (simp add: same_notes_def)

lemma same_notes_trans [trans]: "same_notes tid t u \<Longrightarrow> same_notes tid u v \<Longrightarrow> same_notes tid t v"
  by (simp add: same_notes_def)

lemma used_notes:
  "map_of (local_tunnels t) tid = Some tun \<Longrightarrow>
   same_notes tid t (t\<lparr>local_tunnels := map_put tid (use_tunnel env item tun) (local_tunnels t)\<rparr>)"
  by (auto simp: same_notes_def use_tunnel_def tunnel_ends_def client_ready_def server_ready_def)

definition same_net :: "TurtleTunnelId \<Rightarrow> tunnel_net \<Rightarrow> tunnel_net \<Rightarrow> bool" where
  "same_net tid n n' = (\<forall>x. same_notes tid (trouters n x) (trouters n' x))"

lemma same_net_refl [simp]: "same_net tid n n"
  by (simp add: same_net_def)

lemma same_net_trans: "same_net tid n n' \<Longrightarrow> same_net tid n' n'' \<Longrightarrow> same_net tid n n''"
  unfolding same_net_def using same_notes_trans by blast

lemma same_net_one:
  "same_notes tid (trouters n p) t' \<Longrightarrow> same_net tid n (n\<lparr>trouters := (trouters n)(p := t')\<rparr>)"
  by (simp add: same_net_def)

section \<open>One router\<close>

lemma route_on:
  assumes "tunnel_ends t tid = Some (x, z)" and "gt_tunnel_id item = tid" and "gt_peer item = x" and "x \<noteq> z" and "z \<noteq> own_id t"
  obtains t' where
    "routeGenericTunnelItem env item t = (t', [SendGeneric (item\<lparr>gt_direction := DIRECTION_SERVER, gt_peer := z\<rparr>)])"
    "same_notes tid t t'"
  using assms used_notes [of t tid _ env item]
  by (auto simp: tunnel_ends_Some routeGenericTunnelItem_def Let_def)

lemma route_down:
  assumes "tunnel_ends t tid = Some (x, z)" and "gt_tunnel_id item = tid" and "gt_peer item = z" and "x \<noteq> own_id t"
  obtains t' where
    "routeGenericTunnelItem env item t = (t', [SendGeneric (item\<lparr>gt_direction := DIRECTION_CLIENT, gt_peer := x\<rparr>)])"
    "same_notes tid t t'"
  using assms used_notes [of t tid _ env item]
  by (auto simp: tunnel_ends_Some routeGenericTunnelItem_def Let_def)

lemma getTunnelServiceInfo_server:
  "server_ready t tid service hash \<Longrightarrow> tunnel_ends t tid = Some (x, own_id t) \<Longrightarrow> x \<noteq> own_id t \<Longrightarrow>
   getTunnelServiceInfo tid t = Some (Some service, hash, vpid_of tid)"
  by (auto simp: server_ready_def tunnel_ends_Some getTunnelServiceInfo_def)

lemma getTunnelServiceInfo_client:
  "client_ready t tid service hash \<Longrightarrow> tunnel_ends t tid = Some (own_id t, z) \<Longrightarrow>
   getTunnelServiceInfo tid t = Some (Some service, hash, vpid_of tid)"
  by (auto simp: client_ready_def tunnel_ends_Some getTunnelServiceInfo_def)

lemma route_in_server:
  assumes ends: "tunnel_ends t tid = Some (x, own_id t)" and ready: "server_ready t tid service hash"
    and item: "gt_tunnel_id item = tid" "gt_peer item = x" and x: "x \<noteq> own_id t"
  obtains t' where
    "routeGenericTunnelItem env item t =
       (t', [ReceiveTurtleData service (item\<lparr>gt_direction := DIRECTION_SERVER\<rparr>) hash (vpid_of tid) DIRECTION_SERVER])"
    "same_notes tid t t'"
proof -
  obtain tun where tun: "map_of (local_tunnels t) tid = Some tun" "tt_local_src tun = x" "tt_local_dst tun = own_id t"
    using ends by (auto simp: tunnel_ends_Some)
  let ?t = "t\<lparr>local_tunnels := map_put tid (use_tunnel env item tun) (local_tunnels t)\<rparr>"
  have s: "same_notes tid t ?t" by (rule used_notes [OF tun(1)])
  then have "getTunnelServiceInfo tid ?t = Some (Some service, hash, vpid_of tid)"
    using getTunnelServiceInfo_server [of ?t tid service hash x] ready ends x by (simp add: same_notes_def)
  then have "routeGenericTunnelItem env item t =
       (?t, [ReceiveTurtleData service (item\<lparr>gt_direction := DIRECTION_SERVER\<rparr>) hash (vpid_of tid) DIRECTION_SERVER])"
    using tun item x by (simp add: routeGenericTunnelItem_def Let_def handleRecvGenericTunnelItem_def)
  then show ?thesis using that s by blast
qed

lemma route_in_client:
  assumes ends: "tunnel_ends t tid = Some (own_id t, z)" and ready: "client_ready t tid service hash"
    and item: "gt_tunnel_id item = tid" "gt_peer item = z" and z: "z \<noteq> own_id t"
  obtains t' where
    "routeGenericTunnelItem env item t =
       (t', [ReceiveTurtleData service (item\<lparr>gt_direction := DIRECTION_CLIENT\<rparr>) hash (vpid_of tid) DIRECTION_CLIENT])"
    "same_notes tid t t'"
proof -
  obtain tun where tun: "map_of (local_tunnels t) tid = Some tun" "tt_local_src tun = own_id t" "tt_local_dst tun = z"
    using ends by (auto simp: tunnel_ends_Some)
  let ?t = "t\<lparr>local_tunnels := map_put tid (use_tunnel env item tun) (local_tunnels t)\<rparr>"
  have s: "same_notes tid t ?t" by (rule used_notes [OF tun(1)])
  then have "getTunnelServiceInfo tid ?t = Some (Some service, hash, vpid_of tid)"
    using getTunnelServiceInfo_client [of ?t tid service hash z] ready ends by (simp add: same_notes_def)
  then have "routeGenericTunnelItem env item t =
       (?t, [ReceiveTurtleData service (item\<lparr>gt_direction := DIRECTION_CLIENT\<rparr>) hash (vpid_of tid) DIRECTION_CLIENT])"
    using tun item z by (simp add: routeGenericTunnelItem_def Let_def handleRecvGenericTunnelItem_def)
  then show ?thesis using that s by blast
qed

section \<open>Along the chain\<close>

text \<open>What an end gets: the service, the data, the hash, the virtual peer and the direction.\<close>

definition received :: "TurtlePeerId \<Rightarrow> u16 \<Rightarrow> TurtleFileHash \<Rightarrow> TurtleTunnelId \<Rightarrow> u32 \<Rightarrow> bytes \<Rightarrow>
    (TurtlePeerId \<times> tunnel_output) option \<Rightarrow> bool" where
  "received p service hash tid direction bs out =
     (case out of
        Some (q, ReceiveTurtleData s g h v d) \<Rightarrow>
          q = p \<and> s = service \<and> gt_data g = bs \<and> h = hash \<and> v = vpid_of tid \<and> d = direction
      | _ \<Rightarrow> False)"

lemma same_net_own: "\<forall>x. own_id (trouters n x) = x \<Longrightarrow> same_net tid n n' \<Longrightarrow> \<forall>x. own_id (trouters n' x) = x"
  by (simp add: same_net_def same_notes_def)

lemma same_net_ends: "same_net tid n n' \<Longrightarrow> ends_at n' tid = ends_at n tid"
  by (simp add: same_net_def same_notes_def fun_eq_iff)

lemma same_net_server: "same_net tid n n' \<Longrightarrow> server_ready (trouters n p) tid s h \<Longrightarrow> server_ready (trouters n' p) tid s h"
  and same_net_client: "same_net tid n n' \<Longrightarrow> client_ready (trouters n p) tid s h \<Longrightarrow> client_ready (trouters n' p) tid s h"
  by (simp_all add: same_net_def same_notes_def)

lemma carry_item_server:
  assumes "\<forall>x. own_id (trouters n x) = x" and "linked (ends_at n tid) (x # y # ys)" and "distinct (x # y # ys)"
    and "server_ready (trouters n (last (y # ys))) tid service hash"
    and "gt_tunnel_id item = tid" and "gt_peer item = x"
  shows "\<exists>k n' out. carry_item k env y item n = (n', out) \<and> same_net tid n n' \<and>
    received (last (y # ys)) service hash tid DIRECTION_SERVER (gt_data item) out"
  using assms
proof (induction ys arbitrary: x y n item)
  case Nil
  then have "tunnel_ends (trouters n y) tid = Some (x, own_id (trouters n y))" by auto
  then obtain t' where r: "routeGenericTunnelItem (env y) item (trouters n y) =
       (t', [ReceiveTurtleData service (item\<lparr>gt_direction := DIRECTION_SERVER\<rparr>) hash (vpid_of tid) DIRECTION_SERVER])"
    "same_notes tid (trouters n y) t'"
    using route_in_server [of "trouters n y" tid x service hash item "env y"] Nil by auto
  show ?case
    using carry_item_simps(2) [where env = env and p = y and n = n, OF r(1), of 0] same_net_one [OF r(2)]
    by (intro exI [of _ "Suc 0"]) (simp add: received_def)
next
  case (Cons z zs)
  have e: "tunnel_ends (trouters n y) tid = Some (x, z)" using Cons.prems(2) by auto
  obtain t' where r: "routeGenericTunnelItem (env y) item (trouters n y) =
       (t', [SendGeneric (item\<lparr>gt_direction := DIRECTION_SERVER, gt_peer := z\<rparr>)])" "same_notes tid (trouters n y) t'"
    using route_on [OF e, of item "env y"] Cons.prems by auto
  let ?n = "n\<lparr>trouters := (trouters n)(y := t')\<rparr>"
  let ?item = "item\<lparr>gt_direction := DIRECTION_SERVER, gt_peer := y\<rparr>"
  have s: "same_net tid n ?n" by (rule same_net_one [OF r(2)])
  have "linked (ends_at n tid) (y # z # zs)" using Cons.prems(2) by simp
  then have "linked (ends_at ?n tid) (y # z # zs)" unfolding same_net_ends [OF s] .
  moreover have "server_ready (trouters ?n (last (z # zs))) tid service hash"
    using same_net_server [OF s] Cons.prems(4) by (metis last_ConsR list.distinct(1))
  ultimately obtain k n' out where k: "carry_item k env z ?item ?n = (n', out)" "same_net tid ?n n'"
      "received (last (z # zs)) service hash tid DIRECTION_SERVER (gt_data ?item) out"
    using Cons.IH [OF same_net_own [OF Cons.prems(1) s], of y z ?item] Cons.prems(3,5) by fastforce
  have "carry_item (Suc k) env y item n = (n', out)"
    using carry_item_simps(1) [where env = env and p = y and n = n, OF r(1), of k] k(1) by simp
  then show ?case using k(2,3) same_net_trans [OF s] by (intro exI [of _ "Suc k"]) auto
qed

text \<open>The way back: the peers are given from the receiver of the item, nearest last.\<close>

lemma carry_item_client:
  assumes "\<forall>x. own_id (trouters n x) = x" and "linked (ends_at n tid) (ys @ [y, x] @ zs)" and "distinct (ys @ [y, x] @ zs)"
    and "hd (ys @ [y]) = home" and "\<exists>d. ends_at n tid home = Some (home, d)"
    and "client_ready (trouters n home) tid service hash"
    and "gt_tunnel_id item = tid" and "gt_peer item = x"
  shows "\<exists>k n' out. carry_item k env y item n = (n', out) \<and> same_net tid n n' \<and>
    received home service hash tid DIRECTION_CLIENT (gt_data item) out"
  using assms
proof (induction ys arbitrary: x y zs n item rule: rev_induct)
  case Nil
  then have "tunnel_ends (trouters n y) tid = Some (own_id (trouters n y), x)" by auto
  then obtain t' where r: "routeGenericTunnelItem (env y) item (trouters n y) =
       (t', [ReceiveTurtleData service (item\<lparr>gt_direction := DIRECTION_CLIENT\<rparr>) hash (vpid_of tid) DIRECTION_CLIENT])"
    "same_notes tid (trouters n y) t'"
    using route_in_client [of "trouters n y" tid x service hash item "env y"] Nil by auto
  show ?case
    using carry_item_simps(2) [where env = env and p = y and n = n, OF r(1), of 0] same_net_one [OF r(2)] Nil.prems(4)
    by (intro exI [of _ "Suc 0"]) (simp add: received_def)
next
  case (snoc w ws)
  have l: "(\<exists>s. ends_at n tid y = Some (s, x))" using linked_pair [OF snoc.prems(2), of "ws @ [w]" y x zs] by simp
  moreover have "(\<exists>d. ends_at n tid y = Some (w, d))" using linked_pair [OF snoc.prems(2), of ws w y "x # zs"] by simp
  ultimately have e: "tunnel_ends (trouters n y) tid = Some (w, x)" by auto
  obtain t' where r: "routeGenericTunnelItem (env y) item (trouters n y) =
       (t', [SendGeneric (item\<lparr>gt_direction := DIRECTION_CLIENT, gt_peer := w\<rparr>)])" "same_notes tid (trouters n y) t'"
    using route_down [OF e, of item "env y"] snoc.prems by auto
  let ?n = "n\<lparr>trouters := (trouters n)(y := t')\<rparr>"
  let ?item = "item\<lparr>gt_direction := DIRECTION_CLIENT, gt_peer := y\<rparr>"
  have s: "same_net tid n ?n" by (rule same_net_one [OF r(2)])
  have hd: "hd (ws @ [w]) = home" using snoc.prems(4) by (cases ws) auto
  have "linked (ends_at n tid) (ws @ [w, y] @ x # zs)" using snoc.prems(2) by simp
  then have "linked (ends_at ?n tid) (ws @ [w, y] @ x # zs)" unfolding same_net_ends [OF s] .
  moreover have "distinct (ws @ [w, y] @ x # zs)" using snoc.prems(3) by auto
  moreover have "\<exists>d. ends_at ?n tid home = Some (home, d)" 
    using snoc.prems(5) fun_cong [OF same_net_ends [OF s], of home] by metis
  moreover have "client_ready (trouters ?n home) tid service hash" by (rule same_net_client [OF s snoc.prems(6)])
  ultimately obtain k n' out where k: "carry_item k env w ?item ?n = (n', out)" "same_net tid ?n n'"
      "received home service hash tid DIRECTION_CLIENT (gt_data ?item) out"
    using snoc.IH [OF same_net_own [OF snoc.prems(1) s], of w y "x # zs" ?item] snoc.prems(7) hd by fastforce
  have "carry_item (Suc k) env y item n = (n', out)"
    using carry_item_simps(1) [where env = env and p = y and n = n, OF r(1), of k] k(1) by simp
  then show ?case using k(2,3) same_net_trans [OF s] by (intro exI [of _ "Suc k"]) auto
qed

section \<open>Both ends\<close>

text \<open>An open tunnel: its chain of notes with both ends ready.\<close>

definition open_tunnel :: "TurtleTunnelId \<Rightarrow> (TurtlePeerId \<times> u16 \<times> TurtleFileHash) \<Rightarrow> (TurtlePeerId \<times> u16 \<times> TurtleFileHash) \<Rightarrow>
    tunnel_net \<Rightarrow> bool" where
  "open_tunnel tid = (\<lambda>(home, s1, h1) (server, s2, h2) n.
     (\<forall>x. own_id (trouters n x) = x) \<and>
     (\<exists>xs. tunnel_path (ends_at n tid) xs \<and> hd xs = home \<and> last xs = server) \<and>
     client_ready (trouters n home) tid s1 h1 \<and> server_ready (trouters n server) tid s2 h2)"

lemma open_tunnel_same: "open_tunnel tid c s n \<Longrightarrow> same_net tid n n' \<Longrightarrow> open_tunnel tid c s n'"
  using same_net_own [of n tid n'] same_net_ends [of tid n n'] same_net_server [of tid n n'] same_net_client [of tid n n']
  by (cases c; cases s) (auto simp: open_tunnel_def)

lemma transmit_server:
  assumes "open_tunnel tid (home, s1, h1) (server, s2, h2) n"
  shows "\<exists>k n' out. transmit k env home (vpid_of tid) item n = (n', out) \<and> same_net tid n n' \<and>
    received server s2 h2 tid DIRECTION_SERVER (gt_data item) out"
proof -
  obtain xs where own: "\<forall>x. own_id (trouters n x) = x" and path: "tunnel_path (ends_at n tid) xs" "hd xs = home" "last xs = server"
    and c: "client_ready (trouters n home) tid s1 h1" and s: "server_ready (trouters n server) tid s2 h2"
    using assms by (auto simp: open_tunnel_def)
  obtain y ys where xs: "xs = home # y # ys"
    using path(1,2) by (cases xs; cases "tl xs") (auto simp: tunnel_path_def)
  obtain tun where tun: "map_of (local_tunnels (trouters n home)) tid = Some tun" "tt_local_src tun = home" "tt_local_dst tun = y"
    using path(1) by (auto simp: tunnel_path_def xs tunnel_ends_Some)
  let ?item = "item\<lparr>gt_tunnel_id := tid\<rparr>"
  let ?g = "?item\<lparr>gt_direction := DIRECTION_SERVER, gt_peer := home\<rparr>"
  let ?t = "(trouters n home)\<lparr>local_tunnels := map_put tid (use_tunnel (env home) ?item tun) (local_tunnels (trouters n home))\<rparr>"
  let ?n = "n\<lparr>trouters := (trouters n)(home := ?t)\<rparr>"
  have same: "same_net tid n ?n" by (rule same_net_one [OF used_notes [OF tun(1)]])
  have "linked (ends_at n tid) (home # y # ys)" using path(1) by (simp add: tunnel_path_def xs)
  then have "linked (ends_at ?n tid) (home # y # ys)" unfolding same_net_ends [OF same] .
  moreover have "distinct (home # y # ys)" using path(1) by (simp add: tunnel_path_def xs)
  moreover have "server_ready (trouters ?n (last (y # ys))) tid s2 h2"
    using same_net_server [OF same s] path(3) by (simp add: xs)
  ultimately obtain k n' out where k: "carry_item k env y ?g ?n = (n', out)" "same_net tid ?n n'"
      "received (last (y # ys)) s2 h2 tid DIRECTION_SERVER (gt_data ?g) out"
    using carry_item_server [OF same_net_own [OF own same], of tid home y ys s2 h2 ?g env] by auto
  have "sendTurtleData (env home) (vpid_of tid) item (trouters n home) =
      (?t, [SendGeneric (?item\<lparr>gt_direction := DIRECTION_SERVER, gt_peer := y\<rparr>)])"
    using c tun own by (simp add: sendTurtleData_def client_ready_def Let_def)
  then have "transmit k env home (vpid_of tid) item n = (n', out)" using k(1) by (simp add: transmit_def)
  then show ?thesis using k(2,3) same_net_trans [OF same] path(3) by (intro exI [of _ k]) (auto simp: xs)
qed

lemma transmit_client:
  assumes "open_tunnel tid (home, s1, h1) (server, s2, h2) n"
  shows "\<exists>k n' out. transmit k env server (vpid_of tid) item n = (n', out) \<and> same_net tid n n' \<and>
    received home s1 h1 tid DIRECTION_CLIENT (gt_data item) out"
proof -
  obtain xs where own: "\<forall>x. own_id (trouters n x) = x" and path: "tunnel_path (ends_at n tid) xs" "hd xs = home" "last xs = server"
    and c: "client_ready (trouters n home) tid s1 h1" and s: "server_ready (trouters n server) tid s2 h2"
    using assms by (auto simp: open_tunnel_def)
  have "2 \<le> length xs" using path(1) by (simp add: tunnel_path_def)
  then obtain ys y where xs: "xs = ys @ [y, server]"
    using path(3) by (cases xs rule: rev_cases; cases "butlast xs" rule: rev_cases) auto
  have l: "linked (ends_at n tid) (ys @ [y, server] @ [])" and d: "distinct (ys @ [y, server] @ [])"
      and h: "\<exists>d. ends_at n tid home = Some (home, d)"
    using path(1,2) by (simp_all add: tunnel_path_def xs)
  have "\<exists>s. ends_at n tid server = Some (s, server)" using linked_last [OF l] by simp
  moreover have "\<exists>d. ends_at n tid server = Some (y, d)" using linked_pair [OF l, of ys y server "[]"] by simp
  ultimately obtain tun where tun: "map_of (local_tunnels (trouters n server)) tid = Some tun"
      "tt_local_src tun = y" "tt_local_dst tun = server"
    by (auto simp: tunnel_ends_Some)
  let ?item = "item\<lparr>gt_tunnel_id := tid\<rparr>"
  let ?g = "?item\<lparr>gt_direction := DIRECTION_CLIENT, gt_peer := server\<rparr>"
  let ?t = "(trouters n server)\<lparr>local_tunnels := map_put tid (use_tunnel (env server) ?item tun) (local_tunnels (trouters n server))\<rparr>"
  let ?n = "n\<lparr>trouters := (trouters n)(server := ?t)\<rparr>"
  have same: "same_net tid n ?n" by (rule same_net_one [OF used_notes [OF tun(1)]])
  have "linked (ends_at ?n tid) (ys @ [y, server] @ [])" using l unfolding same_net_ends [OF same] .
  moreover have "\<exists>d. ends_at ?n tid home = Some (home, d)"
    using h fun_cong [OF same_net_ends [OF same], of home] by metis
  moreover have "hd (ys @ [y]) = home" using path(2) by (cases ys) (auto simp: xs)
  ultimately obtain k n' out where k: "carry_item k env y ?g ?n = (n', out)" "same_net tid ?n n'"
      "received home s1 h1 tid DIRECTION_CLIENT (gt_data ?g) out"
    using carry_item_client [OF same_net_own [OF own same], of tid ys y server "[]" home s1 h1 ?g env]
      same_net_client [OF same c] d by auto
  have "sendTurtleData (env server) (vpid_of tid) item (trouters n server) =
      (?t, [SendGeneric (?item\<lparr>gt_direction := DIRECTION_CLIENT, gt_peer := y\<rparr>)])"
    using s tun own d by (simp add: sendTurtleData_def server_ready_def Let_def)
  then have "transmit k env server (vpid_of tid) item n = (n', out)" using k(1) by (simp add: transmit_def)
  then show ?thesis using k(2,3) same_net_trans [OF same] by (intro exI [of _ k]) auto
qed

text \<open>A talk: items are sent from both ends in any order; each one has its own time.\<close>

fun talk :: "nat \<Rightarrow> TurtlePeerId \<Rightarrow> TurtlePeerId \<Rightarrow> TurtleVirtualPeerId \<Rightarrow>
    (bool \<times> GenericTunnelItem \<times> (TurtlePeerId \<Rightarrow> tunnel_env)) list \<Rightarrow> tunnel_net \<Rightarrow>
    tunnel_net \<times> (TurtlePeerId \<times> tunnel_output) option list" where
  "talk k home server vpid [] n = (n, [])"
| "talk k home server vpid ((up, item, env) # ms) n =
     (case transmit k env (if up then home else server) vpid item n of
        (n1, out) \<Rightarrow> (case talk k home server vpid ms n1 of (n2, outs) \<Rightarrow> (n2, out # outs)))"

text \<open>More fuel than is needed makes no difference.\<close>

lemma carry_item_cases:
  assumes "routeGenericTunnelItem (env p) item (trouters n p) = (t', outs)"
  obtains (on) g where "outs = [SendGeneric g]"
    | (arrived) service g hash vpid direction where "outs = [ReceiveTurtleData service g hash vpid direction]"
    | (lost) "\<And>k. snd (carry_item (Suc k) env p item n) = None"
proof (cases "\<exists>x. outs = [x]")
  case True
  then obtain x where "outs = [x]" by blast
  then show ?thesis using that assms by (cases x) (simp_all add: carry_item.simps(2) Let_def)
next
  case False
  then have "snd (carry_item (Suc k) env p item n) = None" for k
    using assms by (cases outs; cases "tl outs"; cases "hd outs") (simp_all add: carry_item.simps(2) Let_def)
  then show ?thesis using that by blast
qed

lemma carry_item_more: "carry_item k env p item n = (n', Some r) \<Longrightarrow> carry_item (k + j) env p item n = (n', Some r)"
proof (induction k arbitrary: p item n)
  case (Suc k)
  obtain t' outs where r: "routeGenericTunnelItem (env p) item (trouters n p) = (t', outs)" by fastforce
  from r show ?case
  proof (cases rule: carry_item_cases)
    case (on g)
    then have "carry_item (Suc m) env p item n =
        carry_item m env (gt_peer g) (g\<lparr>gt_peer := p\<rparr>) (n\<lparr>trouters := (trouters n)(p := t')\<rparr>)" for m
      using r carry_item_simps(1) [where env = env and p = p and n = n and item = item and t' = t' and g = g and k = m] by simp
    then show ?thesis using Suc by simp
  next
    case (arrived service g hash vpid direction)
    then have "carry_item (Suc m) env p item n =
        (n\<lparr>trouters := (trouters n)(p := t')\<rparr>, Some (p, ReceiveTurtleData service g hash vpid direction))" for m
      using r carry_item_simps(2) [where env = env and p = p and n = n and item = item and t' = t' and g = g and k = m] by simp
    then show ?thesis using Suc.prems by simp
  next
    case lost
    then show ?thesis using Suc.prems by (metis option.distinct(1) snd_conv)
  qed
qed simp

lemma transmit_more:
  assumes "transmit k env p vpid item n = (n', Some r)"
  shows "transmit (k + j) env p vpid item n = (n', Some r)"
proof -
  obtain t' outs where s: "sendTurtleData (env p) vpid item (trouters n p) = (t', outs)" by fastforce
  have "\<exists>g. outs = [SendGeneric g]"
    using assms s unfolding transmit_def
    by (cases outs; cases "tl outs"; cases "hd outs") (simp_all add: Let_def)
  then obtain g where g: "outs = [SendGeneric g]" by blast
  have "transmit m env p vpid item n =
      carry_item m env (gt_peer g) (g\<lparr>gt_peer := p\<rparr>) (n\<lparr>trouters := (trouters n)(p := t')\<rparr>)" for m
    using s g by (simp add: transmit_def)
  then show ?thesis using assms carry_item_more by simp
qed

lemma received_Some: "received p s h tid d bs out \<Longrightarrow> \<exists>r. out = Some r"
  by (cases out) (simp_all add: received_def)

text \<open>Each item of a talk gets to the other end.\<close>

definition each_received :: "TurtleTunnelId \<Rightarrow> (TurtlePeerId \<times> u16 \<times> TurtleFileHash) \<Rightarrow> (TurtlePeerId \<times> u16 \<times> TurtleFileHash) \<Rightarrow>
    (bool \<times> GenericTunnelItem \<times> (TurtlePeerId \<Rightarrow> tunnel_env)) list \<Rightarrow>
    (TurtlePeerId \<times> tunnel_output) option list \<Rightarrow> bool" where
  "each_received tid = (\<lambda>(home, s1, h1) (server, s2, h2) ms outs.
     list_all2 (\<lambda>(up, item, env) out.
       if up then received server s2 h2 tid DIRECTION_SERVER (gt_data item) out
       else received home s1 h1 tid DIRECTION_CLIENT (gt_data item) out) ms outs)"

lemma open_tunnel_talk:
  assumes "open_tunnel tid (home, s1, h1) (server, s2, h2) n"
  shows "\<exists>k n' outs. talk k home server (vpid_of tid) ms n = (n', outs) \<and> open_tunnel tid (home, s1, h1) (server, s2, h2) n' \<and>
    each_received tid (home, s1, h1) (server, s2, h2) ms outs"
proof -
  define ok where "ok up item = received (if up then server else home) (if up then s2 else s1) (if up then h2 else h1)
     tid (if up then DIRECTION_SERVER else DIRECTION_CLIENT) (gt_data item)" for up and item :: GenericTunnelItem
  have "\<exists>k n' outs. (\<forall>j. talk (k + j) home server (vpid_of tid) ms n = (n', outs)) \<and>
      open_tunnel tid (home, s1, h1) (server, s2, h2) n' \<and> list_all2 (\<lambda>(up, item, env). ok up item) ms outs"
    using assms
  proof (induction ms arbitrary: n)
    case (Cons m ms)
    obtain up item env where m: "m = (up, item, env)" by (cases m) blast
    obtain k1 n1 out where t: "transmit k1 env (if up then home else server) (vpid_of tid) item n = (n1, out)"
        "same_net tid n n1" "ok up item out"
      using transmit_server [OF Cons.prems, of env item] transmit_client [OF Cons.prems, of env item]
      unfolding ok_def by (cases up) (simp_all, blast+)
    obtain r where "out = Some r" using received_Some t(3) unfolding ok_def by blast
    then have t1: "transmit (k1 + j) env (if up then home else server) (vpid_of tid) item n = (n1, out)" for j
      using transmit_more t(1) by simp
    obtain k2 n2 outs where k2: "\<forall>j. talk (k2 + j) home server (vpid_of tid) ms n1 = (n2, outs)"
        "open_tunnel tid (home, s1, h1) (server, s2, h2) n2" "list_all2 (\<lambda>(up, item, env). ok up item) ms outs"
      using Cons.IH [OF open_tunnel_same [OF Cons.prems t(2)]] by blast
    have "talk (k1 + k2 + j) home server (vpid_of tid) (m # ms) n = (n2, out # outs)" for j
      using t1 [of "k2 + j"] k2(1) [rule_format, of "k1 + j"] by (simp add: m add.assoc add.left_commute)
    then show ?case using k2(2,3) t(3) by (intro exI [of _ "k1 + k2"] exI [of _ n2] exI [of _ "out # outs"]) (simp add: m)
  qed auto
  then obtain k n' outs where "\<forall>j. talk (k + j) home server (vpid_of tid) ms n = (n', outs)"
      "open_tunnel tid (home, s1, h1) (server, s2, h2) n'" "list_all2 (\<lambda>(up, item, env). ok up item) ms outs"
    by blast
  then show ?thesis
    by (intro exI [of _ "k + 0"] exI [of _ n'] exI [of _ outs] conjI)
      (blast, assumption, auto simp: each_received_def ok_def elim!: list_all2_mono split: if_splits)
qed

end
