(* ===== verification/Tunnel_Wash.thy ===== *)
theory Tunnel_Wash
  imports Turtle_Tunnel "HOL-Library.Multiset"
begin

text \<open>Which tunnels and hashes a wash of the router takes away.\<close>

section \<open>Lists of tunnels\<close>

lemma mset_drop_tunnel:
  "(\<And>j. j < i \<Longrightarrow> ts ! j \<noteq> tid) \<Longrightarrow> i \<le> length ts \<Longrightarrow>
   mset (drop_tunnel tid i ts) = filter_mset (\<lambda>x. x \<noteq> tid) (mset ts)"
proof (induction tid i ts rule: drop_tunnel.induct)
  case (1 tid i ts)
  show ?case
  proof (cases "length ts \<le> i")
    case True
    then have "x \<noteq> tid" if "x \<in> set ts" for x using that "1.prems" by (auto simp: in_set_conv_nth)
    then have "filter (\<lambda>x. x \<noteq> tid) ts = ts" by (simp add: filter_id_conv)
    then have "filter_mset (\<lambda>x. x \<noteq> tid) (mset ts) = mset ts" by (metis mset_filter)
    then show ?thesis using True by (subst drop_tunnel.simps) simp
  next
    case False
    show ?thesis
    proof (cases "ts ! i = tid")
      case True
      obtain ys z where ts: "ts = ys @ [z]" using False by (cases ts rule: rev_cases) auto
      let ?ts = "butlast (ts[i := last ts])"
      have m: "filter_mset (\<lambda>x. x \<noteq> tid) (mset ?ts) = filter_mset (\<lambda>x. x \<noteq> tid) (mset ts)"
      proof (cases "i = length ys")
        case True
        then show ?thesis using \<open>ts ! i = tid\<close> by (simp add: ts)
      next
        case False
        then have i: "i < length ys" using \<open>\<not> length ts \<le> i\<close> ts by simp
        then have "ys ! i = tid" using True by (simp add: ts nth_append)
        moreover have "?ts = ys[i := z]" using i by (simp add: ts list_update_append1)
        ultimately show ?thesis using i by (simp add: ts mset_update)
      qed
      have keep: "?ts ! j \<noteq> tid" if j: "j < i" for j
      proof -
        have "?ts ! j = ts ! j" using j False by (simp add: nth_butlast)
        then show ?thesis using "1.prems"(1) [OF j] by simp
      qed
      have "mset (drop_tunnel tid i ?ts) = filter_mset (\<lambda>x. x \<noteq> tid) (mset ?ts)"
        by (rule "1.IH"(1) [OF False True keep]) (use False in simp_all)
      then show ?thesis using m False True by (subst drop_tunnel.simps) simp
    next
      case ne: False
      have "mset (drop_tunnel tid (Suc i) ts) = filter_mset (\<lambda>x. x \<noteq> tid) (mset ts)"
        using "1.prems"(1) ne False less_Suc_eq by (intro "1.IH"(2) [OF False ne]) (auto simp: less_Suc_eq)
      then show ?thesis using False ne by (subst drop_tunnel.simps) simp
    qed
  qed
qed

lemma set_drop_tunnel: "set (drop_tunnel tid 0 ts) = set ts - {tid}"
proof -
  have "set_mset (mset (drop_tunnel tid 0 ts)) = set_mset (filter_mset (\<lambda>x. x \<noteq> tid) (mset ts))"
    using mset_drop_tunnel [of 0 ts tid] by simp
  then show ?thesis by (simp only: set_mset_mset) auto
qed

section \<open>What is taken away\<close>

definition tunnels_of :: "tunnel_router \<Rightarrow> TurtleFileHash \<Rightarrow> TurtleTunnelId set" where
  "tunnels_of t h = (case map_of (incoming_file_hashes t) h of None \<Rightarrow> {} | Some info \<Rightarrow> set (hi_tunnels info))"

text \<open>The tunnels whose closing takes a virtual peer away: those that start at the router, and those that end
  there and still have a client service. The entry for the service goes with an ending tunnel.\<close>

definition ends_here :: "tunnel_router \<Rightarrow> TurtleTunnelId \<Rightarrow> bool" where
  "ends_here t tid =
     (case map_of (local_tunnels t) tid of
        None \<Rightarrow> False | Some tun \<Rightarrow> tt_local_src tun \<noteq> own_id t \<and> tt_local_dst tun = own_id t)"

definition peer_of :: "tunnel_router \<Rightarrow> TurtleTunnelId \<Rightarrow> TurtleVirtualPeerId option" where
  "peer_of t tid =
     (case map_of (local_tunnels t) tid of
        None \<Rightarrow> None
      | Some tun \<Rightarrow>
          if tt_local_src tun = own_id t \<or> ends_here t tid \<and> map_of (outgoing_tunnel_client_services t) tid \<noteq> None
          then Some (tt_vpid tun) else None)"

definition washed :: "TurtleFileHash set \<Rightarrow> TurtleTunnelId set \<Rightarrow> tunnel_router \<Rightarrow> tunnel_router \<Rightarrow> bool" where
  "washed H S t t' =
     (own_id t' = own_id t \<and> hashes_to_remove t' = hashes_to_remove t \<and>
      (\<forall>tid. map_of (local_tunnels t') tid = (if tid \<in> S then None else map_of (local_tunnels t) tid)) \<and>
      (map_wf (local_tunnels t) \<longrightarrow> map_wf (local_tunnels t')) \<and>
      (\<forall>h. map_of (incoming_file_hashes t') h = None \<longleftrightarrow> h \<in> H \<or> map_of (incoming_file_hashes t) h = None) \<and>
      (\<forall>h. tunnels_of t' h \<subseteq> tunnels_of t h) \<and> (\<forall>h. h \<notin> H \<longrightarrow> tunnels_of t h \<subseteq> tunnels_of t' h \<union> S) \<and>
      (\<forall>v. map_of (virtual_peers t') v = (if Some v \<in> peer_of t ` S then None else map_of (virtual_peers t) v)) \<and>
      (\<forall>tid. map_of (outgoing_tunnel_client_services t') tid =
         (if tid \<in> S \<and> ends_here t tid then None else map_of (outgoing_tunnel_client_services t) tid)))"

lemma washedD:
  assumes "washed H S t t'"
  shows "own_id t' = own_id t" "hashes_to_remove t' = hashes_to_remove t"
    "map_of (local_tunnels t') tid = (if tid \<in> S then None else map_of (local_tunnels t) tid)"
    "map_wf (local_tunnels t) \<Longrightarrow> map_wf (local_tunnels t')"
    "map_of (incoming_file_hashes t') h = None \<longleftrightarrow> h \<in> H \<or> map_of (incoming_file_hashes t) h = None"
    "tunnels_of t' h \<subseteq> tunnels_of t h" "h \<notin> H \<Longrightarrow> tunnels_of t h \<subseteq> tunnels_of t' h \<union> S"
    "map_of (virtual_peers t') v = (if Some v \<in> peer_of t ` S then None else map_of (virtual_peers t) v)"
    "map_of (outgoing_tunnel_client_services t') tid =
       (if tid \<in> S \<and> ends_here t tid then None else map_of (outgoing_tunnel_client_services t) tid)"
  using assms by (simp_all add: washed_def)

text \<open>A tunnel that is left is as it was, and one that is closed has no peer any more.\<close>

lemma washed_ends:
  assumes "washed H S t t'"
  shows "ends_here t' tid = (tid \<notin> S \<and> ends_here t tid)" "peer_of t' tid = (if tid \<in> S then None else peer_of t tid)"
  using washedD(1) [OF assms] washedD(3,9) [OF assms, of tid]
  by (auto simp: ends_here_def peer_of_def split: option.splits)

lemma washed_none: "washed {} {} t t"
  by (simp add: washed_def)

lemma washed_trans:
  assumes a: "washed H S t u" and b: "washed H' S' u v"
  shows "washed (H \<union> H') (S \<union> S') t v"
  unfolding washed_def
proof (intro conjI allI impI)
  show "own_id v = own_id t" "hashes_to_remove v = hashes_to_remove t"
    using washedD(1,2) [OF a] washedD(1,2) [OF b] by simp_all
  show "map_of (local_tunnels v) tid = (if tid \<in> S \<union> S' then None else map_of (local_tunnels t) tid)" for tid
    using washedD(3) [OF a, of tid] washedD(3) [OF b, of tid] by auto
  show "map_wf (local_tunnels v)" if "map_wf (local_tunnels t)" using washedD(4) [OF b] washedD(4) [OF a that] by simp
  show "map_of (incoming_file_hashes v) h = None \<longleftrightarrow> h \<in> H \<union> H' \<or> map_of (incoming_file_hashes t) h = None" for h
    using washedD(5) [OF a, of h] washedD(5) [OF b, of h] by auto
  show "tunnels_of v h \<subseteq> tunnels_of t h" for h using washedD(6) [OF a, of h] washedD(6) [OF b, of h] by blast
  show "tunnels_of t h \<subseteq> tunnels_of v h \<union> (S \<union> S')" if "h \<notin> H \<union> H'" for h
    using washedD(7) [OF a, of h] washedD(7) [OF b, of h] that by blast
  have p: "Some x \<in> peer_of u ` S' \<longleftrightarrow> Some x \<in> peer_of t ` (S' - S)" for x
    unfolding image_iff washed_ends(2) [OF a] by (auto split: if_splits)
  have split: "S \<union> S' = S \<union> (S' - S)" by auto
  show "map_of (virtual_peers v) x = (if Some x \<in> peer_of t ` (S \<union> S') then None else map_of (virtual_peers t) x)" for x
    unfolding washedD(8) [OF b, of x] washedD(8) [OF a, of x] p split image_Un by auto
  show "map_of (outgoing_tunnel_client_services v) tid =
      (if tid \<in> S \<union> S' \<and> ends_here t tid then None else map_of (outgoing_tunnel_client_services t) tid)" for tid
    unfolding washedD(9) [OF b, of tid] washedD(9) [OF a, of tid] washed_ends(1) [OF a] by auto
qed

lemma locked_closeTunnel_washed:
  assumes "locked_closeTunnel tid t = (t', outs)"
  shows "washed {} {tid} t t'"
proof (cases "map_of (local_tunnels t) tid")
  case None
  then show ?thesis using assms by (auto simp: locked_closeTunnel_def washed_def peer_of_def ends_here_def)
next
  case (Some tun)
  have e: "ends_here t tid = (tt_local_src tun \<noteq> own_id t \<and> tt_local_dst tun = own_id t)"
    "peer_of t tid = (if tt_local_src tun = own_id t \<or> ends_here t tid \<and> map_of (outgoing_tunnel_client_services t) tid \<noteq> None
       then Some (tt_vpid tun) else None)"
    using Some by (simp_all add: ends_here_def peer_of_def)
  show ?thesis
    using assms Some unfolding locked_closeTunnel_def Let_def
    by (auto simp: washed_def tunnels_of_def e set_drop_tunnel split: option.splits if_splits prod.splits)
qed

lemma close_all_washed: "close_all tids t = (t', outs) \<Longrightarrow> washed {} (set tids) t t'"
proof (induction tids arbitrary: t t' outs)
  case (Cons tid tids)
  obtain t1 outs1 where 1: "locked_closeTunnel tid t = (t1, outs1)" by fastforce
  obtain outs2 where 2: "close_all tids t1 = (t', outs2)" using Cons.prems 1 by (auto split: prod.splits)
  show ?case using washed_trans [OF locked_closeTunnel_washed [OF 1] Cons.IH [OF 2]] by simp
qed (simp add: washed_none)

lemma erase_hash_washed:
  "washed {h} {} t (t\<lparr>incoming_file_hashes := map_erase h (incoming_file_hashes t)\<rparr>)"
  by (auto simp: washed_def tunnels_of_def)

lemma remove_hashes_washed:
  "remove_hashes hs t = (t', outs) \<Longrightarrow>
   \<exists>S. washed {h \<in> set hs. map_of (incoming_file_hashes t) h \<noteq> None} S t t' \<and> S = (\<Union>h \<in> set hs. tunnels_of t h)"
proof (induction hs arbitrary: t t' outs)
  case (Cons h hs)
  show ?case
  proof (cases "map_of (incoming_file_hashes t) h")
    case None
    then have "tunnels_of t h = {}" by (simp add: tunnels_of_def)
    moreover have "{x \<in> set (h # hs). map_of (incoming_file_hashes t) x \<noteq> None} =
        {x \<in> set hs. map_of (incoming_file_hashes t) x \<noteq> None}" using None by auto
    ultimately show ?thesis using Cons None by simp
  next
    case (Some info)
    obtain t1 outs1 where 1: "close_all (hi_tunnels info) t = (t1, outs1)" by fastforce
    let ?t2 = "t1\<lparr>incoming_file_hashes := map_erase h (incoming_file_hashes t1)\<rparr>"
    obtain outs2 where 2: "remove_hashes hs ?t2 = (t', outs2)" using Cons.prems Some 1 by (auto split: prod.splits)
    have L: "set (hi_tunnels info) = tunnels_of t h" using Some by (simp add: tunnels_of_def)
    have w: "washed {h} (tunnels_of t h) t ?t2"
      using washed_trans [OF close_all_washed [OF 1] erase_hash_washed [of h t1]] L by simp
    have w': "washed {x \<in> set hs. map_of (incoming_file_hashes ?t2) x \<noteq> None} (\<Union>x \<in> set hs. tunnels_of ?t2 x) ?t2 t'"
      using Cons.IH [OF 2] by blast
    have "{h} \<union> {x \<in> set hs. map_of (incoming_file_hashes ?t2) x \<noteq> None} =
        {x \<in> set (h # hs). map_of (incoming_file_hashes t) x \<noteq> None}"
      using washedD(5) [OF w] Some by auto
    moreover have "tunnels_of t h \<union> (\<Union>x \<in> set hs. tunnels_of ?t2 x) = (\<Union>x \<in> set (h # hs). tunnels_of t x)"
    proof -
      have a: "tunnels_of ?t2 x \<subseteq> tunnels_of t x" for x by (rule washedD(6) [OF w])
      have b: "tunnels_of t x \<subseteq> tunnels_of ?t2 x \<union> tunnels_of t h" for x
        using washedD(7) [OF w, of x] by (cases "x = h") auto
      have "(\<Union>x \<in> set hs. tunnels_of ?t2 x) \<subseteq> (\<Union>x \<in> set hs. tunnels_of t x)" using a by (rule UN_mono [OF order.refl])
      moreover have "(\<Union>x \<in> set hs. tunnels_of t x) \<subseteq> (\<Union>x \<in> set hs. tunnels_of ?t2 x) \<union> tunnels_of t h"
        using b by blast
      ultimately show ?thesis by (simp only: list.set UN_insert) blast
    qed
    ultimately show ?thesis using washed_trans [OF w w'] by auto
  qed
qed (simp add: washed_none)

lemma idle_tunnels:
  assumes "map_wf m"
  shows "set (map fst (filter (\<lambda>(tid, tun). P tun) m)) = {tid. \<exists>tun. map_of m tid = Some tun \<and> P tun}"
proof -
  have "x \<in> set (map fst (filter (\<lambda>(tid, tun). P tun) m)) \<longleftrightarrow> (\<exists>tun. (x, tun) \<in> set m \<and> P tun)" for x by force
  then show ?thesis using assms by (simp add: set_eq_iff map_of_iff)
qed

end
