(* ===== verification/Tunnel_Props.thy ===== *)
theory Tunnel_Props
  imports Tunnel_Talk Tunnel_Wash
begin

text \<open>The properties of the tunnels.\<close>

section \<open>A tunnel joins its ends\<close>

lemma handleTunnelRequest_answers:
  assumes h: "handleTunnelRequest env item t = (t', outs)" and ok: "SendOk ok \<in> set outs"
  obtains service where "ot_peer item \<noteq> own_id t" "own_id t' = own_id t" "request_of t (ot_request_id item) = None"
    "outs = [SendOk ok, AddVirtualPeer service (ot_file_hash item) (vpid_of (tk_tunnel_id ok)) DIRECTION_CLIENT]"
    "tk_peer ok = ot_peer item" "tk_request_id ok = ot_request_id item"
    "tunnel_ends t' (tk_tunnel_id ok) = Some (ot_peer item, own_id t)"
    "server_ready t' (tk_tunnel_id ok) service (ot_file_hash item)"
proof -
  have c: "\<not> tv_isHashBanned env (ot_file_hash item)" "request_of t (ot_request_id item) = None"
    using h ok by (auto simp: handleTunnelRequest_def split: if_splits)
  let ?found = "if ot_peer item \<noteq> own_id t
    then performLocalHashSearch env (ot_file_hash item) (ot_peer item) else None"
  obtain service where s: "?found = Some service"
    using h ok c by (cases ?found) (auto simp: handleTunnelRequest_def Let_def)
  then have p: "ot_peer item \<noteq> own_id t" by (auto split: if_splits)
  let ?tid = "answered_id env t item"
  let ?reqs = "map_put (ot_request_id item)
    \<lparr>qi_origin = ot_peer item, qi_time_stamp = word_of_int (tv_now env), qi_depth = uint (ot_depth item), qi_responses = []\<rparr>
    (tunnel_requests_origins t)"
  let ?t1 = "t\<lparr>tunnel_requests_origins := ?reqs, local_tunnels := map_put ?tid (ending_tunnel env t item) (local_tunnels t)\<rparr>"
  let ?t2 = "locked_addDistantPeer ?tid ?t1"
  have r: "t' = ?t2\<lparr>outgoing_tunnel_client_services := map_put ?tid service (outgoing_tunnel_client_services t)\<rparr>"
    "outs = [SendOk \<lparr>tk_peer = ot_peer item, tk_tunnel_id = ?tid, tk_request_id = ot_request_id item\<rparr>,
       AddVirtualPeer service (ot_file_hash item) (vpid_of ?tid) DIRECTION_CLIENT]"
    using h c s by (simp_all add: handleTunnelRequest_def Let_def)
  have k: "ok = \<lparr>tk_peer = ot_peer item, tk_tunnel_id = ?tid, tk_request_id = ot_request_id item\<rparr>"
    using ok r(2) by simp
  have l: "map_of (local_tunnels ?t2) ?tid = Some ((ending_tunnel env t item)\<lparr>tt_vpid := vpid_of ?tid\<rparr>)"
    using addDistantPeer_tunnel [of ?t1 ?tid "ending_tunnel env t item"] by simp
  show ?thesis
  proof (rule that [OF p _ c(2)])
    show "own_id t' = own_id t" by (simp add: r(1))
    show "outs = [SendOk ok, AddVirtualPeer service (ot_file_hash item) (vpid_of (tk_tunnel_id ok)) DIRECTION_CLIENT]"
      by (simp add: k r(2))
    show "tk_peer ok = ot_peer item" "tk_request_id ok = ot_request_id item" by (simp_all add: k)
    show "tunnel_ends t' (tk_tunnel_id ok) = Some (ot_peer item, own_id t)"
      using l by (simp add: k r(1) tunnel_ends_def ending_tunnel_def)
    show "server_ready t' (tk_tunnel_id ok) service (ot_file_hash item)"
      using l by (simp add: k r(1) server_ready_def ending_tunnel_def)
  qed
qed

text \<open>C7. A tunnel that is answered for joins its two ends: in every network that its calls can produce, when a
  router answers a request that reaches it, and the other routers let the answer pass, the answer travels
  back until it is handed, as a new virtual peer, to a client service of the router that has asked. From then
  on the client services of the two routers can talk: every item that one of them sends to the virtual
  peer is handed to the other, with its data, in any order and number.\<close>

theorem tunnel_joins_ends:
  assumes "reach tunnel_start tunnel_step n" and "opens n = before @ (p, item) # after"
    and "handleTunnelRequest penv item (trouters n p) = (t', outs)" and "SendOk ok \<in> set outs"
    and "\<forall>q. q \<noteq> p \<longrightarrow> opens_way (env q) (ot_request_id item) (tk_tunnel_id ok) q (trouters n q)"
  shows "\<exists>s2 k n' home s1 h1.
     outs = [SendOk ok, AddVirtualPeer s2 (ot_file_hash item) (vpid_of (tk_tunnel_id ok)) DIRECTION_CLIENT] \<and>
     carry_ok k env (tk_peer ok) (ok\<lparr>tk_peer := p\<rparr>)
       (n\<lparr>trouters := (trouters n)(p := t'), opens := before @ after\<rparr>) = (n', Some (home, s1, h1)) \<and>
     (\<forall>ms. \<exists>k n'' outs. talk k home p (vpid_of (tk_tunnel_id ok)) ms n' = (n'', outs) \<and>
        each_received (tk_tunnel_id ok) (home, s1, h1) (p, s2, ot_file_hash item) ms outs)"
proof -
  let ?rid = "ot_request_id item" and ?tid = "tk_tunnel_id ok" and ?q = "ot_peer item"
  let ?n = "n\<lparr>trouters := (trouters n)(p := t'), opens := before @ after\<rparr>"
  have inv: "tunnel_inv n" using assms(1) by (rule tunnel_net.reach_inv)
  obtain s2 where a: "?q \<noteq> own_id (trouters n p)" "own_id t' = own_id (trouters n p)"
      "outs = [SendOk ok, AddVirtualPeer s2 (ot_file_hash item) (vpid_of ?tid) DIRECTION_CLIENT]"
      "tk_peer ok = ?q" "tk_request_id ok = ?rid" "tunnel_ends t' ?tid = Some (?q, own_id (trouters n p))"
      "server_ready t' ?tid s2 (ot_file_hash item)"
    using handleTunnelRequest_answers [OF assms(3,4)] by metis
  have qp: "?q \<noteq> p" using a(1) tunnel_invD(1) [OF inv] by metis
  have "reach tunnel_start tunnel_step (n\<lparr>trouters := (trouters n)(p := t'), opens := before @ after @ opens_posted p outs\<rparr>)"
    by (rule reach_step [OF assms(1) tstep_open [OF assms(2,3)]])
  then have inv': "tunnel_inv ?n"
    using tunnel_net.reach_inv a(3) by (fastforce simp: opens_posted_def)
  obtain rank where rank: "ranked (tunnel_origins ?n ?rid) rank" using tunnel_invD(3) [OF inv'] by blast
  have "tunnel_origins n ?rid ?q \<noteq> None" using tunnel_invD(2) [OF inv, of p item] assms(2) by simp
  then obtain req where req: "request_of (trouters ?n ?q) ?rid = Some req"
    using qp by (auto simp: tunnel_origins_def)
  have "tunnel_origins ?n ?rid p = Some ?q"
    using handleTunnelRequest_effect [OF assms(3)] a(3) by (auto simp: tunnel_origins_def)
  then have below: "rank ?q < rank p" using rankedD [OF rank] qp by blast
  have own: "\<forall>x. own_id (trouters ?n x) = x \<and> served (incoming_file_hashes (trouters ?n x))"
    using tunnel_invD(1,4) [OF inv'] by blast
  have ends: "ends_at ?n ?tid p = Some (?q, p)" using a(6) tunnel_invD(1) [OF inv] by simp
  have ways: "\<forall>x. rank x \<le> rank ?q \<longrightarrow> opens_way (env x) ?rid ?tid x (trouters ?n x)"
    using assms(5) below by auto
  obtain k n' home s1 h1 xs where c:
      "carry_ok k env ?q (ok\<lparr>tk_peer := p\<rparr>) ?n = (n', Some (home, s1, h1))"
      "tunnel_path (ends_at n' ?tid) (xs @ [p])" "hd (xs @ [p]) = home" "client_ready (trouters n' home) ?tid s1 h1"
      "\<forall>x. own_id (trouters n' x) = x \<and> served (incoming_file_hashes (trouters n' x))" "trouters n' p = trouters ?n p"
    using carry_ok_chain [OF rank own req ways, of "ok\<lparr>tk_peer := p\<rparr>" p "[]"] a(5) ends below by auto
  have "open_tunnel ?tid (home, s1, h1) (p, s2, ot_file_hash item) n'"
    unfolding open_tunnel_def prod.case
    using c(2-6) a(7) by (intro conjI exI [of _ "xs @ [p]"]) simp_all
  from open_tunnel_talk [OF this]
  have "\<forall>ms. \<exists>k n'' outs. talk k home p (vpid_of ?tid) ms n' = (n'', outs) \<and>
      each_received ?tid (home, s1, h1) (p, s2, ot_file_hash item) ms outs"
    by blast
  with a(3) c(1) [folded a(4)] show ?thesis by blast
qed

text \<open>A network of three: the peer 0 digs for a hash, the peer 1 relays, the peer 2 has it.\<close>

definition trio_env :: "TurtlePeerId \<Rightarrow> tunnel_env" where
  "trio_env p = \<lparr>tv_now = 100, tv_online = (if p = 0 then [1] else if p = 1 then [0, 2] else [1]),
     tv_linkType = (\<lambda>_. 0), tv_chosen = (\<lambda>_. True), tv_isHashBanned = (\<lambda>_. False), tv_services = [8],
     tv_handleTunnelRequest = (\<lambda>_ _ _. p = 2), tv_own_text = (\<lambda>_. [0x61]), tv_digging_time = (\<lambda>_. 300), tv_size = (\<lambda>_. 20)\<rparr>"

definition trio_router :: "TurtlePeerId \<Rightarrow> tunnel_router" where
  "trio_router p = \<lparr>own_id = p, random_bias = 5, search_requests_origins = [], incoming_file_hashes = [], local_tunnels = [],
     virtual_peers = [], tunnel_requests_origins = [], outgoing_tunnel_client_services = [], hashes_to_remove = []\<rparr>"

definition trio_monitor :: tunnel_router where
  "trio_monitor = (trio_router 0)\<lparr>incoming_file_hashes := [([0xAB],
     \<lparr>hi_tunnels = [], hi_last_request = 0, hi_last_digg_time = 0, hi_service = Some 8, hi_aggressive = True\<rparr>)]\<rparr>"

definition trio_asks :: "TurtlePeerId \<Rightarrow> u16 \<Rightarrow> tunnel_router \<Rightarrow> tunnel_router" where
  "trio_asks p depth t = t\<lparr>tunnel_requests_origins :=
     [(9, \<lparr>qi_origin = p, qi_time_stamp = 100, qi_depth = uint depth, qi_responses = []\<rparr>)]\<rparr>"

definition trio_digger :: tunnel_router where
  "trio_digger = trio_asks 0 0 ((trio_router 0)\<lparr>incoming_file_hashes := [([0xAB],
     \<lparr>hi_tunnels = [], hi_last_request = 9, hi_last_digg_time = 100, hi_service = Some 8, hi_aggressive = True\<rparr>)]\<rparr>)"

definition trio_item :: "TurtlePeerId \<Rightarrow> u32 \<Rightarrow> u16 \<Rightarrow> OpenTunnelItem" where
  "trio_item p partial depth =
     \<lparr>ot_peer = p, ot_file_hash = [0xAB], ot_request_id = 9, ot_partial_tunnel_id = partial, ot_depth = depth\<rparr>"

lemmas trio_defs = trio_env_def trio_router_def trio_monitor_def trio_digger_def trio_item_def trio_asks_def
lemmas open_defs = forceReDiggTunnels_def diggTunnel_def handleTunnelRequest_def monitorTunnels_def blank_hash_info_def performLocalHashSearch_def
  forward_open_def tunnel_bias_def slow_peer_def perturbed_id_def generatePersonalFilePrint_def hex_text_def hex_digit_def
  map_get_def

lemma trio_calls:
  "monitorTunnels [0xAB] 8 True 0 (trio_router 0) = trio_monitor"
  "forceReDiggTunnels (trio_env 0) 9 [0xAB] trio_monitor = (trio_digger, [SendOpen (trio_item 1 3252602225 1)])"
  "handleTunnelRequest (trio_env 1) (trio_item 0 3252602225 1) (trio_router 1) =
     (trio_asks 0 1 (trio_router 1), [SendOpen (trio_item 2 1184684662 2)])"
  by (simp_all add: trio_defs open_defs)

text \<open>The first request is answered by the peer 2; the tunnel has the id 359315115.\<close>

definition trio_ok :: TunnelOkItem where
  "trio_ok = \<lparr>tk_peer = 1, tk_tunnel_id = 359315115, tk_request_id = 9\<rparr>"

lemma trio_answer:
  "snd (handleTunnelRequest (trio_env 2) (trio_item 1 1184684662 2) (trio_router 2)) =
     [SendOk trio_ok, AddVirtualPeer 8 [0xAB] (vpid_of 359315115) DIRECTION_CLIENT]"
  by (simp add: trio_defs open_defs answered_id_def trio_ok_def)

definition trio_net :: "tunnel_router \<Rightarrow> tunnel_router \<Rightarrow> (TurtlePeerId \<times> OpenTunnelItem) list \<Rightarrow> tunnel_net" where
  "trio_net t0 t1 ms = \<lparr>trouters = trio_router(0 := t0, 1 := t1), opens = ms\<rparr>"

lemma trio_put:
  "(trio_net t0 t1 ms)\<lparr>trouters := (trouters (trio_net t0 t1 ms))(0 := t)\<rparr> = trio_net t t1 ms"
  "(trio_net t0 t1 ms)\<lparr>trouters := (trouters (trio_net t0 t1 ms))(0 := t), opens := ms'\<rparr> = trio_net t t1 ms'"
  "(trio_net t0 t1 ms)\<lparr>trouters := (trouters (trio_net t0 t1 ms))(1 := t), opens := ms'\<rparr> = trio_net t0 t ms'"
  "trouters (trio_net t0 t1 ms) 0 = t0" "trouters (trio_net t0 t1 ms) 1 = t1" "opens (trio_net t0 t1 ms) = ms"
  "(trio_net t0 t1 ms)\<lparr>opens := ms'\<rparr> = trio_net t0 t1 ms'"
  by (auto simp: trio_net_def)

lemma trio_reach:
  "reach tunnel_start tunnel_step (trio_net trio_digger (trio_asks 0 1 (trio_router 1)) [(2, trio_item 1 1184684662 2)])"
proof -
  let ?n0 = "trio_net (trio_router 0) (trio_router 1) []"
  let ?n1 = "trio_net trio_monitor (trio_router 1) []"
  let ?n2 = "trio_net trio_digger (trio_router 1) [(1, trio_item 0 3252602225 1)]"
  have post: "opens_posted p [SendOpen (trio_item q partial d)] = [(q, trio_item p partial d)]" for p q partial d
    by (simp add: opens_posted_def trio_item_def)
  have "tunnel_start ?n0" by (simp add: tunnel_start_def trio_net_def trio_router_def served_def)
  then have "reach tunnel_start tunnel_step ?n0" by (rule reach_init)
  moreover have "tunnel_step ?n0 (Monitor 0 [0xAB] 8 True 0) ?n1"
    using tstep_monitor [of ?n0 0 "[0xAB]" 8 True 0] unfolding trio_put trio_calls .
  ultimately have "reach tunnel_start tunnel_step ?n1" by (rule reach_step)
  moreover have "tunnel_step ?n1 (Digg 0 9 [0xAB] (trio_env 0)) ?n2"
    using tstep_digg [of "trio_env 0" 9 "[0xAB]" ?n1 0, unfolded trio_put, OF trio_calls(2)] unfolding post append_Nil trio_put .
  ultimately have "reach tunnel_start tunnel_step ?n2" by (rule reach_step)
  moreover have "tunnel_step ?n2 (Open 1 (trio_item 0 3252602225 1) (trio_env 1))
      (trio_net trio_digger (trio_asks 0 1 (trio_router 1)) [(2, trio_item 1 1184684662 2)])"
    using tstep_open [of ?n2 "[]" 1 "trio_item 0 3252602225 1" "[]" "trio_env 1"] by (simp add: trio_put trio_calls(3) post del: One_nat_def)
  ultimately show ?thesis by (rule reach_step)
qed

lemma tunnel_joins_ends_witness:
  "\<exists>s2 k n' home s1 h1.
     carry_ok k trio_env 1 (trio_ok\<lparr>tk_peer := 2\<rparr>)
       (trio_net trio_digger (trio_asks 0 1 (trio_router 1)) []
          \<lparr>trouters := (trouters (trio_net trio_digger (trio_asks 0 1 (trio_router 1)) []))
             (2 := fst (handleTunnelRequest (trio_env 2) (trio_item 1 1184684662 2) (trio_router 2)))\<rparr>) = (n', Some (home, s1, h1)) \<and>
     (\<forall>ms. \<exists>k n'' outs. talk k home 2 (vpid_of 359315115) ms n' = (n'', outs) \<and>
        each_received 359315115 (home, s1, h1) (2, s2, [0xAB]) ms outs)"
proof -
  let ?item = "trio_item 1 1184684662 2"
  let ?n = "trio_net trio_digger (trio_asks 0 1 (trio_router 1)) [(2, ?item)]"
  obtain t' outs where r: "handleTunnelRequest (trio_env 2) ?item (trouters ?n 2) = (t', outs)" by fastforce
  then have o: "SendOk trio_ok \<in> set outs" "t' = fst (handleTunnelRequest (trio_env 2) ?item (trio_router 2))"
    using trio_answer by (simp_all add: trio_net_def)
  have "\<forall>q. q \<noteq> 2 \<longrightarrow> opens_way (trio_env q) (ot_request_id ?item) (tk_tunnel_id trio_ok) q (trouters ?n q)"
    by (simp add: opens_way_def trio_net_def trio_defs)
  from tunnel_joins_ends [OF trio_reach _ r o(1) this, of "[]" "[]"]
  show ?thesis by (simp add: trio_net_def o(2) trio_ok_def trio_item_def) blast
qed

section \<open>Washing\<close>

text \<open>A tunnel that a wash closes: it is idle, or it is in the list of a hash that is not monitored any more.\<close>

definition doomed :: "rstime_t \<Rightarrow> tunnel_router \<Rightarrow> TurtleTunnelId \<Rightarrow> bool" where
  "doomed now t tid =
     ((\<exists>tun. map_of (local_tunnels t) tid = Some tun \<and> now > uint (tt_time_stamp tun) + MAXIMUM_TUNNEL_IDLE_TIME) \<or>
      (\<exists>h \<in> set (hashes_to_remove t). tid \<in> tunnels_of t h))"

text \<open>C23. A wash takes exactly what it should. Of the hashes it takes those whose monitoring was stopped; of the
  tunnels those that are in their lists or have not been used for a minute; of the virtual peers those of
  such tunnels that start at this router, or that end here and have a client service; and of the client
  services of ending tunnels those of such tunnels. The other tunnels, peers and services stay as they are.\<close>

theorem wash_takes_exactly:
  assumes "map_wf (local_tunnels t)" and "autoWash now t = (t', outs)"
  shows "hashes_to_remove t' = [] \<and>
    (map_of (incoming_file_hashes t') h = None \<longleftrightarrow>
       h \<in> set (hashes_to_remove t) \<or> map_of (incoming_file_hashes t) h = None) \<and>
    map_of (local_tunnels t') tid = (if doomed now t tid then None else map_of (local_tunnels t) tid) \<and>
    map_of (virtual_peers t') v =
      (if \<exists>tid. doomed now t tid \<and> peer_of t tid = Some v then None else map_of (virtual_peers t) v) \<and>
    map_of (outgoing_tunnel_client_services t') tid =
      (if doomed now t tid \<and> ends_here t tid then None else map_of (outgoing_tunnel_client_services t) tid)"
proof -
  obtain t1 outs1 where 1: "remove_hashes (hashes_to_remove t) t = (t1, outs1)" by fastforce
  let ?H = "{h \<in> set (hashes_to_remove t). map_of (incoming_file_hashes t) h \<noteq> None}"
  let ?S = "\<Union>h \<in> set (hashes_to_remove t). tunnels_of t h"
  have w1: "washed ?H ?S t t1" using remove_hashes_washed [OF 1] by blast
  define t2 where "t2 = t1\<lparr>hashes_to_remove := [],
       search_requests_origins := washed_searches now (search_requests_origins t1),
       tunnel_requests_origins := filter (\<lambda>(rid, info). \<not> now > uint (qi_time_stamp info) + TUNNEL_REQUESTS_LIFE_TIME)
         (tunnel_requests_origins t1)\<rparr>"
  have t2: "local_tunnels t2 = local_tunnels t1" "incoming_file_hashes t2 = incoming_file_hashes t1"
      "hashes_to_remove t2 = []" by (simp_all add: t2_def)
  let ?idle = "\<lambda>tun. now > uint (tt_time_stamp tun) + MAXIMUM_TUNNEL_IDLE_TIME"
  let ?old = "map fst (filter (\<lambda>(tid, tun). ?idle tun) (local_tunnels t2))"
  obtain outs2 where 2: "close_all ?old t2 = (t', outs2)"
    using assms(2) 1 by (auto simp: autoWash_def t2_def Let_def split: prod.splits)
  have w2: "washed {} (set ?old) t2 t'" by (rule close_all_washed [OF 2])
  then have w3: "washed {} (set ?old) t1 (t'\<lparr>hashes_to_remove := hashes_to_remove t1\<rparr>)"
    by (simp add: washed_def t2_def tunnels_of_def peer_of_def ends_here_def cong: option.case_cong)
  let ?w = "t'\<lparr>hashes_to_remove := hashes_to_remove t1\<rparr>"
  define D where "D = ?S \<union> set ?old"
  have w: "washed ?H D t ?w" using washed_trans [OF w1 w3] by (simp add: D_def)
  have "map_wf (local_tunnels t2)" using washedD(4) [OF w1 assms(1)] t2(1) by simp
  then have old: "set ?old = {tid. \<exists>tun. map_of (local_tunnels t1) tid = Some tun \<and> ?idle tun}"
    using idle_tunnels [of "local_tunnels t2" ?idle] t2(1) by simp
  have d: "doomed now t x \<longleftrightarrow> x \<in> D" for x
    unfolding doomed_def D_def old using washedD(3) [OF w1, of x] by auto
  have v: "(\<exists>tid. tid \<in> D \<and> peer_of t tid = Some v) \<longleftrightarrow> Some v \<in> peer_of t ` D" by force
  show ?thesis
    unfolding d v
    using washedD(2) [OF w2] t2(3) washedD(5) [OF w, of h] washedD(3,9) [OF w, of tid] washedD(8) [OF w, of v]
    by (intro conjI) auto
qed

text \<open>A router that has stopped monitoring a hash, with a tunnel for it, that relays two other tunnels, and at
  which two tunnels end.\<close>

definition trio_tunnel :: "TurtleTunnelId \<Rightarrow> TurtlePeerId \<Rightarrow> TurtlePeerId \<Rightarrow> u32 \<Rightarrow> TurtleTunnel" where
  "trio_tunnel tid src dst stamp =
     blank_tunnel\<lparr>tt_local_src := src, tt_local_dst := dst, tt_time_stamp := stamp, tt_hash := [0xAB], tt_vpid := vpid_of tid\<rparr>"

definition trio_stopped :: tunnel_router where
  "trio_stopped = stopMonitoringTunnels [0xAB] ((trio_router 0)\<lparr>incoming_file_hashes := [([0xAB],
       \<lparr>hi_tunnels = [1], hi_last_request = 9, hi_last_digg_time = 100, hi_service = Some 8, hi_aggressive = True\<rparr>)],
     local_tunnels := [(1, trio_tunnel 1 0 1 100), (2, trio_tunnel 2 1 2 30), (3, trio_tunnel 3 1 2 90),
       (4, trio_tunnel 4 1 0 30), (5, trio_tunnel 5 1 0 90)],
     virtual_peers := [(vpid_of 1, 1), (vpid_of 4, 4), (vpid_of 5, 5)],
     outgoing_tunnel_client_services := [(4, 8), (5, 8)]\<rparr>)"

lemmas trio_stopped_defs = trio_stopped_def stopMonitoringTunnels_def trio_router_def trio_tunnel_def

lemma vpid_of_inj: "vpid_of a = vpid_of b \<Longrightarrow> a = b"
  unfolding vpid_of_def using of_be32_be32 by (metis append_same_eq)

lemma wash_takes_exactly_witness:
  "map_of (local_tunnels (fst (autoWash 100 trio_stopped))) 1 = None \<and>
   map_of (local_tunnels (fst (autoWash 100 trio_stopped))) 2 = None \<and>
   map_of (local_tunnels (fst (autoWash 100 trio_stopped))) 3 = Some (trio_tunnel 3 1 2 90) \<and>
   map_of (virtual_peers (fst (autoWash 100 trio_stopped))) (vpid_of 1) = None \<and>
   map_of (virtual_peers (fst (autoWash 100 trio_stopped))) (vpid_of 4) = None \<and>
   map_of (virtual_peers (fst (autoWash 100 trio_stopped))) (vpid_of 5) = Some 5 \<and>
   map_of (outgoing_tunnel_client_services (fst (autoWash 100 trio_stopped))) 4 = None \<and>
   map_of (outgoing_tunnel_client_services (fst (autoWash 100 trio_stopped))) 5 = Some 8"
proof -
  obtain t' outs where r: "autoWash 100 trio_stopped = (t', outs)" by fastforce
  have wf: "map_wf (local_tunnels trio_stopped)" by (simp add: trio_stopped_def stopMonitoringTunnels_def)
  have d: "doomed 100 trio_stopped x \<longleftrightarrow> x = 1 \<or> x = 2 \<or> x = 4" for x
    by (simp add: doomed_def trio_stopped_defs tunnels_of_def)
  have p: "peer_of trio_stopped 1 = Some (vpid_of 1)" "peer_of trio_stopped 2 = None" "peer_of trio_stopped 4 = Some (vpid_of 4)"
    "\<not> ends_here trio_stopped 1" "ends_here trio_stopped 4"
    by (simp_all add: peer_of_def ends_here_def trio_stopped_defs)
  have ne: "vpid_of 1 \<noteq> vpid_of 5" "vpid_of 4 \<noteq> vpid_of 5" "vpid_of 1 \<noteq> vpid_of 4"
    using vpid_of_inj [of 1 5] vpid_of_inj [of 4 5] vpid_of_inj [of 1 4] by auto
  have q: "(\<exists>tid. (tid = 1 \<or> tid = 2 \<or> tid = 4) \<and> peer_of trio_stopped tid = Some v) \<longleftrightarrow> v = vpid_of 1 \<or> v = vpid_of 4" for v
    using p(1-3) by auto
  have l: "map_of (local_tunnels trio_stopped) 3 = Some (trio_tunnel 3 1 2 90)"
    "map_of (virtual_peers trio_stopped) (vpid_of 5) = Some 5" "map_of (outgoing_tunnel_client_services trio_stopped) 5 = Some 8"
    using ne by (auto simp: trio_stopped_defs)
  note w = wash_takes_exactly [OF wf r, of "[]", unfolded d q]
  show ?thesis
    using w [of 1 "vpid_of 1"] w [of 2 "vpid_of 4"] w [of 3 "vpid_of 5"] w [of 4 "vpid_of 4"] w [of 5 "vpid_of 5"] p(5) l r ne
    by simp
qed

end
