(* ===== verification/Spec2Isabelle.thy ===== *)
theory Spec2Isabelle
  imports RS_Prelude Connect_State_Box Raw_Serial Tlv_Base Sockaddr_Storage Ip_Set Net_State_Box Creator_Props Stream_Faults Tcp_Props Search_Props Tunnel_Props
begin

text \<open>
  A verification library for \<^verbatim>\<open>libretroshare\<close>, the core of the RetroShare peer-to-peer program, under
  \<^verbatim>\<open>src/retroshare/libretroshare/src\<close> (paths below are relative to it). The library keeps the parts of the
  program whose logic is its own: how a peer's reachability is worked out and connections are
  attempted, how addresses are kept, how items are put on the wire, how a file is downloaded in
  chunks from several peers, and how searches and tunnels travel between friends. Definitions follow the C++ functions statement by statement and keep their
  names; guards, early returns, wrap-around and reads outside a block are branches of the definitions.

  \<^bold>\<open>The theories.\<close>

  \<^item> \<open>RS_Prelude\<close>: fixed-width integers, byte blocks with \<open>peek\<close> and \<open>poke\<close> (a read or write outside the
    block is \<open>None\<close>), big-endian numbers, reachability (\<open>reach\<close>), and the locales of the library:
    \<open>inductive_invariant\<close>, the ranking of rounds, serialisers and TLV items in a block.
  \<^item> \<open>Std_Map\<close>: \<^verbatim>\<open>std::map\<close> as an ordered association list, with the laws of look-up and erasure.
  \<^item> \<open>Rs_Memory\<close> (\<^verbatim>\<open>util/rsmemory.h\<close>): the faults that end or break the process, as the values of a sum, and
    \<open>rs_malloc\<close>, which ends the process when it is asked for no bytes.
  \<^item> \<open>Connect_State_Box\<close> (\<^verbatim>\<open>dht/connectstatebox.cc\<close>): the state machine that decides when and how the DHT
    connects to a peer. The record \<open>PeerConnectStateBox\<close> is the class; \<open>connectCb\<close>, \<open>updateCb\<close> and
    \<open>storeProxyPortChoice\<close> are its calls, \<open>csb_step\<close> their step relation. The lemmas show which states are
    reachable, that the waiting times stay bounded, and that a peer whose attempts fail is given up.
  \<^item> \<open>Raw_Serial\<close> (\<^verbatim>\<open>serialiser/rsbaseserial.cc\<close>) and \<open>Tlv_Base\<close> (\<^verbatim>\<open>serialiser/rstlvbase.cc\<close>): reading and
    writing of integers, strings and TLV items at an offset of a buffer, with round trips, containment
    in the block, the places where it fails, and the filter for SVG bombs.
  \<^item> \<open>Sockaddr_Storage\<close> (\<^verbatim>\<open>util/rsnet_ss.cc\<close>, \<^verbatim>\<open>util/rsnet.cc\<close>) and \<open>Ip_Set\<close> (\<^verbatim>\<open>pqi/pqiipset.cc\<close>): socket addresses, their
    classes, order and text form, and the bounded lists of a peer's known addresses.
  \<^item> \<open>Net_State_Box\<close> (\<^verbatim>\<open>pqi/pqinetstatebox.cc\<close>): what the measurements of the STUN servers, the DHT, UPnP and
    NAT-PMP say about the network; the lemmas refine the nested decisions by a table (\<open>spec_box\<close>).
  \<^item> \<open>Chunk_Map\<close> (\<^verbatim>\<open>ft/ftchunkmap.cc\<close>): which chunks and slices of a download are done, asked or missing.
    \<open>Chunk_Inv\<close> states the invariant and proves it for allocating and cutting slices, \<open>Chunk_Ask\<close> for
    \<^verbatim>\<open>getDataChunk\<close>, \<open>Chunk_Run\<close> for the other calls; \<open>Chunk_Props\<close> has the step relation and the claims on the
    chunk map, \<open>Chunk_Cover\<close> which bytes may count as downloaded.
  \<^item> \<open>File_Creator\<close> (\<^verbatim>\<open>ft/ftfileprovider.cc\<close>, \<^verbatim>\<open>ft/ftfilecreator.cc\<close>): a served file and a file being downloaded,
    which owns a chunk map. \<open>Creator_Inv\<close> ties the table of awaited parts and its shared counters to the
    slices of the chunk map, \<open>Creator_Run\<close> proves the invariant for every call, \<open>Creator_Props\<close> has the
    step relation of a download and the claims: with data of the original file, what counts as finished
    and what is served is the original, and a peer of which a split slice is given up is asked no more.
  \<^item> \<open>Qos_Queue\<close> (\<^verbatim>\<open>pqi/pqiqos.cc\<close>, \<^verbatim>\<open>pqi/pqiqosstreamer.cc\<close>): the packets that wait for a peer, by priority, and how
    they leave in slices. \<open>Qos_Inv\<close> has the invariant and the effect of each call on the lists alone,
    \<open>Qos_Run\<close> the exact totals and that the queue is emptied, \<open>Qos_Join\<close> what the slices mean to the receiver.
  \<^item> \<open>Pqi_Streamer\<close> (\<^verbatim>\<open>pqi/pqistreamer.cc\<close>): filling blocks from the queue and sending them, reading packets
    back and joining slices. \<open>Stream_Read\<close> is the wire format, \<open>Stream_Link\<close> the sender, \<open>Stream_Recv\<close> the
    receiver, \<open>Stream_Props\<close> the connection of both, \<open>Stream_Faults\<close> the inputs that end the process,
    leave a freed block or make the reader stall (a slice header whose length wraps is read with a negative length).
  \<^item> \<open>Tcp_Packet\<close> (\<^verbatim>\<open>tcponudp/tcppacket.cc\<close>) and \<open>Tcp_Stream\<close> (\<^verbatim>\<open>tcponudp/tcpstream.cc\<close>): a reliable stream over UDP, with
    handshake, windows, retransmission and the end of both halves. \<open>Tcp_Buffers\<close> sees its arrays and lists as queues of
    bytes; \<open>Tcp_Sender\<close> and \<open>Tcp_Sends\<close> show that every packet carries what was written at its number, \<open>Tcp_Receiver\<close>
    and \<open>Tcp_Arrivals\<close> that what can be read is a prefix of it; \<open>Tcp_Link\<close> joins two sides by a network that loses,
    repeats and reorders. \<open>Tcp_Limits\<close> has the bounds, \<open>Tcp_Fin\<close> the end of a stream, \<open>Tcp_Handshake\<close> its beginning, \<open>Tcp_Demo\<close> a
    run for the witnesses, \<open>Tcp_Props\<close> the claims.
  \<^item> \<open>Search_Expr\<close> (\<^verbatim>\<open>retroshare/rsexpr.h\<close>, \<^verbatim>\<open>util/rsexpr.cc\<close>): search expressions, their evaluation and text, the three
    vectors they are sent as, and how a peer rebuilds them. \<open>Search_Read\<close> shows what is rebuilt from whole and from cut
    vectors and how deep the calls nest, \<open>Search_Item\<close> (\<^verbatim>\<open>turtle/rsturtleitem.cc\<close>) is the serialised form.
  \<^item> \<open>Turtle_Search\<close> (\<^verbatim>\<open>turtle/p3turtle.cc\<close>): the search requests that routers relay and the results they pass back.
    \<open>Turtle_Net\<close> is a network of routers, with the invariant that the origins of a request lead home; \<open>Turtle_Bounds\<close>
    bounds the deliveries of a flood and the files sent back, \<open>Search_Props\<close> has the claims. A handler that copies a
    generic item without bytes, or asks for the text of an expression that could not be rebuilt, is a fault in its result.
  \<^item> \<open>Turtle_Tunnel\<close> (\<^verbatim>\<open>turtle/p3turtle.cc\<close>): the tunnels of the same routers, from the request for a hash to the items that
    travel and the closing. \<open>Tunnel_Net\<close> is the network and its invariant, on the ranks of \<open>Turtle_Origins\<close> that the
    searches use too; \<open>Tunnel_Chain\<close> shows that an answer leaves a chain of notes from the server to the client,
    \<open>Tunnel_Talk\<close> that items follow it in both directions, \<open>Tunnel_Wash\<close> what expiry closes, \<open>Tunnel_Props\<close> has the claims.

  \<^bold>\<open>How the parts meet.\<close> Address lists are stored through the TLV items (\<open>Ip_Set\<close> uses \<open>Tlv_Base\<close>, which uses
  \<open>Raw_Serial\<close>); the modes that the network box reports are read by the connection state box (the claim at
  the end of this file); the file creator calls the chunk map and keeps its own table in step with it;
  the streamer takes slices from the queue and the streamer at the other end joins them; two streams over UDP are
  composed in \<open>Tcp_Link\<close>; the router rebuilds the search expressions that it reads through the raw and TLV codecs, and
  any number of routers are composed in \<open>Turtle_Net\<close>
  and, for the tunnels, in \<open>Tunnel_Net\<close>.

  \<^bold>\<open>Interfaces.\<close> \<open>inductive_invariant\<close> is interpreted on the step relations of the connection state box, the
  network box, the chunk map, the file creator, the packet queue and the two networks of routers; \<open>byte_pipe\<close>, what a link asks of its two sides, on
  the sides of a stream over UDP; \<open>codec_list\<close>, the lists of an encoded element, on the vectors of an expression; the locales of serialisers on the raw and TLV readers
  and writers; the order locale on the comparison of socket addresses.

  \<^bold>\<open>Bounds and parameters.\<close> The claims on downloads hold for files below \<open>2 ^ 51\<close> bytes, so that the number of
  1 MB chunks fits a signed 32-bit word; larger files are refused by no check of the code, but the
  chunk numbers would no longer be exact. The clock, \<^verbatim>\<open>rand()\<close>, the comparison of the floating-point
  transfer rates, the choices that the router of the tunnels makes from \<^verbatim>\<open>float\<close> probabilities and speeds, what the system answers to an open, seek, read or write, the free space check, the
  hash functions, and \<^verbatim>\<open>inet_pton\<close> are arguments of the definitions, and so are
  the arithmetic of the packet queue's \<^verbatim>\<open>float\<close> counters and of the \<^verbatim>\<open>double\<close> times of a stream over UDP, the deserialiser, and what a stream's interface
  answers to each call. The loops of the code run over lists or decrease a measure; the
  inner loop of \<^verbatim>\<open>handleoutgoing_locked\<close> (\<open>fill_block\<close>) is a partial function that is proved to end. The walks of an item through a network
  (\<open>carry\<close>, \<open>carry_ok\<close>, \<open>carry_item\<close>) have fuel, and the claims show that some is enough. The claims on
  a stream over UDP hold for less than \<open>2 ^ 32\<close> bytes in each direction, the space of its sequence numbers.

  \<^bold>\<open>Not modelled.\<close> Locks and threads: every public call holds one mutex, so a call is one step. Logging and
  statistics. The sockets and processes behind the network code (\<^verbatim>\<open>pqissl\<close>, the UDP layer, Tor, UPnP), the measured rates,
  cryptography and OpenPGP, the SQL data store, and the services that mainly move items between these
  (\<^verbatim>\<open>gxs\<close>, \<^verbatim>\<open>services\<close>, \<^verbatim>\<open>grouter\<close>, \<^verbatim>\<open>chat\<close>, \<^verbatim>\<open>file_sharing\<close>). The graphical programs, the vendored libraries
  and the Go packages of the repository are outside its own core.

  \<^bold>\<open>Plan.\<close> Next: the transfer modules above the file creator (\<^verbatim>\<open>ft/fttransfermodule.cc\<close>, \<^verbatim>\<open>ft/ftextralist.cc\<close>) and the ban list \<^verbatim>\<open>services/p3banlist.cc\<close>.
\<close>

subsection \<open>From the network state to the connection attempts\<close>

text \<open>C36. The modes a box reports and the category by which \<^verbatim>\<open>connectstatebox.cc\<close> plans its attempts agree:
  a peer counts as forwarded exactly when it accepts TCP, it is behind a passable NAT exactly when it
  offers proxy connections, its category is unknown exactly when it offers nothing, and it shares its
  proxy port exactly when it does not accept TCP.\<close>

theorem netbox_drives_connections:
  fixes b :: pqiNetStateBox and now :: rstime_t and stunner :: bool
  defines "d \<equiv> determineNetworkState stunner now b"
  defines "m \<equiv> mConnectModes d"
  defines "n \<equiv> convertNetStateToInternal (mNetworkMode d) (mNatHoleMode d) (mNatTypeMode d)"
  shows "(n = CSB_NETSTATE_FORWARD) = (m AND CM_ACCEPT_TCP \<noteq> 0) \<and>
    (n = CSB_NETSTATE_STABLENAT \<or> n = CSB_NETSTATE_EXCLUSIVENAT) = (m AND CM_PROXY_UDP \<noteq> 0) \<and>
    (n = CSB_NETSTATE_UNKNOWN) = (m = CM_NONE) \<and>
    shouldUseProxyPort (mNetworkMode d) (mNatHoleMode d) (mNatTypeMode d) = (m AND CM_ACCEPT_TCP = 0)"
proof -
  define c where "c = clearOldNetworkData stunner now b"
  have d: "mNetworkMode d = spec_network c" "mNatHoleMode d = spec_nat_hole c"
    "mNatTypeMode d = spec_nat_type c" "m = spec_connect_modes c"
    by (simp_all add: m_def d_def determine_is_spec spec_box_def c_def)
  consider "\<not> mDhtActive c" | "mDhtActive c" "\<not> measured c"
    | "mDhtActive c" "measured c" "\<not> mStunDhtStable c"
    | "mDhtActive c" "measured c" "mStunDhtStable c" by blast
  then show ?thesis
    unfolding n_def d shouldUseProxyPort_def
    by cases (simp_all add: spec_defs convertNetStateToInternal_def shouldUseProxyPortInternal_def)
qed

end
